(* ===== verification/Prelude.thy ===== *)
theory Prelude
  imports Main "HOL-Library.Word" "HOL-Library.AList" "HOL-Library.Multiset"
    "HOL-Library.Char_ord" "HOL-Library.List_Lexorder" "HOL-Library.Product_Lexorder"
begin

text \<open>
  What every component shares: the names of the machine types, the two standard
  containers the code keeps its state in (\<open>HashMap\<close> as an association list with
  distinct keys and an explicit iteration order, \<open>BTreeMap\<close> as an association list
  sorted by key), the fallible, state-passing operations the handlers are composed
  of, and the facts about them that the component proofs use.
\<close>

named_theorems container_simps \<open>lookup, domain and distinctness of the containers\<close>
named_theorems act_simps \<open>unfolding of fallible operations\<close>

section \<open>Machine types\<close>

type_synonym byte = "8 word"
type_synonym u16 = "16 word"
type_synonym u32 = "32 word"
type_synonym u64 = "64 word"

section \<open>HashMap\<close>

text \<open>
  A \<open>HashMap\<close> is an association list with distinct keys: \<open>get\<close> is \<^const>\<open>map_of\<close>,
  \<open>insert\<close> is \<^const>\<open>AList.update\<close>, \<open>remove\<close> is \<^const>\<open>AList.delete\<close>. Rust leaves
  the order of iteration open, so every operation that iterates takes it as an
  argument: \<open>ord n\<close> lists the positions of a map of \<open>n\<close> entries in the order visited.
\<close>

type_synonym ('k, 'v) hmap = "('k \<times> 'v) list"
type_synonym iter_order = "nat \<Rightarrow> nat list"

definition hget :: "('k, 'v) hmap \<Rightarrow> 'k \<Rightarrow> 'v option" where
  "hget m k = map_of m k"

definition hinsert :: "'k \<Rightarrow> 'v \<Rightarrow> ('k, 'v) hmap \<Rightarrow> ('k, 'v) hmap" where
  "hinsert k v m = AList.update k v m"

definition hremove :: "'k \<Rightarrow> ('k, 'v) hmap \<Rightarrow> ('k, 'v) hmap" where
  "hremove k m = AList.delete k m"

abbreviation hdistinct :: "('k, 'v) hmap \<Rightarrow> bool" where
  "hdistinct m \<equiv> distinct (map fst m)"

definition is_order :: "iter_order \<Rightarrow> bool" where
  "is_order ord \<longleftrightarrow> (\<forall>n. mset (ord n) = mset [0..<n])"

definition hiter :: "iter_order \<Rightarrow> ('k, 'v) hmap \<Rightarrow> ('k \<times> 'v) list" where
  "hiter ord m = map (\<lambda>i. m ! i) (ord (length m))"

definition hvalues :: "iter_order \<Rightarrow> ('k, 'v) hmap \<Rightarrow> 'v list" where
  "hvalues ord m = map snd (hiter ord m)"

definition hkeys :: "iter_order \<Rightarrow> ('k, 'v) hmap \<Rightarrow> 'k list" where
  "hkeys ord m = map fst (hiter ord m)"

definition forward_order :: iter_order where
  "forward_order n = [0..<n]"

definition backward_order :: iter_order where
  "backward_order n = rev [0..<n]"

lemma is_order_forward [simp]: "is_order forward_order"
  by (simp add: is_order_def forward_order_def)

lemma is_order_backward [simp]: "is_order backward_order"
  by (simp add: is_order_def backward_order_def)

lemma mset_hiter:
  assumes "is_order ord"
  shows "mset (hiter ord m) = mset m"
proof -
  have "mset (hiter ord m) = image_mset (\<lambda>i. m ! i) (mset (ord (length m)))"
    by (simp add: hiter_def)
  also have "\<dots> = image_mset (\<lambda>i. m ! i) (mset [0..<length m])"
    using assms by (metis is_order_def)
  also have "\<dots> = mset (map (\<lambda>i. m ! i) [0..<length m])"
    by (simp add: mset_map)
  finally show ?thesis by (simp add: map_nth)
qed

lemma set_hiter [container_simps]: "is_order ord \<Longrightarrow> set (hiter ord m) = set m"
  by (metis mset_hiter set_mset_mset)

lemma set_hvalues [container_simps]: "is_order ord \<Longrightarrow> set (hvalues ord m) = snd ` set m"
  by (simp add: hvalues_def set_hiter)

lemma set_hkeys [container_simps]: "is_order ord \<Longrightarrow> set (hkeys ord m) = fst ` set m"
  by (simp add: hkeys_def set_hiter)

lemma mset_hvalues: "is_order ord \<Longrightarrow> mset (hvalues ord m) = mset (map snd m)"
  by (simp add: hvalues_def mset_hiter)

lemma mset_hkeys: "is_order ord \<Longrightarrow> mset (hkeys ord m) = mset (map fst m)"
  by (simp add: hkeys_def mset_hiter)

lemma distinct_hkeys [container_simps]:
  "is_order ord \<Longrightarrow> distinct (hkeys ord m) = hdistinct m"
  by (metis mset_hkeys mset_eq_imp_distinct_iff)

lemma hget_Nil [simp, container_simps]: "hget [] k = None"
  by (simp add: hget_def)

lemma hget_hinsert [simp, container_simps]:
  "hget (hinsert k v m) k' = (if k' = k then Some v else hget m k')"
  by (simp add: hget_def hinsert_def AList.update_conv')

lemma hget_hremove [simp, container_simps]:
  "hget (hremove k m) k' = (if k' = k then None else hget m k')"
  by (simp add: hget_def hremove_def AList.delete_conv')

lemma hdistinct_hinsert [simp, container_simps]: "hdistinct m \<Longrightarrow> hdistinct (hinsert k v m)"
  by (simp add: hinsert_def AList.distinct_update)

lemma hdistinct_hremove [simp, container_simps]: "hdistinct m \<Longrightarrow> hdistinct (hremove k m)"
  by (simp add: hremove_def AList.distinct_delete)

lemma hget_in_iff: "hdistinct m \<Longrightarrow> (k, v) \<in> set m \<longleftrightarrow> hget m k = Some v"
  by (simp add: hget_def)

lemma hget_mem: "hget m k = Some v \<Longrightarrow> (k, v) \<in> set m"
  unfolding hget_def by (rule map_of_SomeD)

lemma hget_key_iff: "k \<in> fst ` set m \<longleftrightarrow> hget m k \<noteq> None"
  by (simp add: hget_def map_of_eq_None_iff)

lemma set_hvalues_iff:
  assumes "is_order ord" and "hdistinct m"
  shows "v \<in> set (hvalues ord m) \<longleftrightarrow> (\<exists>k. hget m k = Some v)"
  using assms by (force simp: set_hvalues hget_in_iff [symmetric])

lemma hremove_absent: "hget m k = None \<Longrightarrow> hremove k m = m"
  by (simp add: hget_def hremove_def map_of_eq_None_iff)

lemma length_hremove:
  "hdistinct m \<Longrightarrow> hget m k = Some v \<Longrightarrow> Suc (length (hremove k m)) = length m"
proof (induction m)
  case (Cons x m)
  show ?case
  proof (cases "fst x = k")
    case True
    with Cons.prems(1) have "AList.delete k m = m" by auto
    with True show ?thesis by (cases x) (simp add: hremove_def)
  next
    case False
    with Cons show ?thesis by (cases x) (auto simp: hremove_def hget_def)
  qed
qed simp

lemma length_hinsert:
  "length (hinsert k v m) = (if hget m k = None then Suc (length m) else length m)"
  by (induction m) (auto simp: hinsert_def hget_def)

section \<open>BTreeMap\<close>

text \<open>A \<open>BTreeMap\<close> is an association list kept in increasing order of its keys.\<close>

type_synonym ('k, 'v) bmap = "('k \<times> 'v) list"

fun bt_insert :: "'k::linorder \<Rightarrow> 'v \<Rightarrow> ('k, 'v) bmap \<Rightarrow> ('k, 'v) bmap" where
  "bt_insert k v [] = [(k, v)]"
| "bt_insert k v ((k', v') # m) =
     (if k < k' then (k, v) # (k', v') # m
      else if k = k' then (k, v) # m
      else (k', v') # bt_insert k v m)"

abbreviation bt_sorted :: "('k::linorder, 'v) bmap \<Rightarrow> bool" where
  "bt_sorted m \<equiv> sorted_wrt (<) (map fst m)"

lemma map_of_bt_insert [container_simps]:
  "map_of (bt_insert k v m) k' = (if k' = k then Some v else map_of m k')"
  by (induction k v m rule: bt_insert.induct) auto

lemma keys_bt_insert [container_simps]:
  "fst ` set (bt_insert k v m) = insert k (fst ` set m)"
  by (induction k v m rule: bt_insert.induct) auto

lemma set_bt_insert_subset: "set (bt_insert k v m) \<subseteq> insert (k, v) (set m)"
  by (induction k v m rule: bt_insert.induct) auto

lemma bt_sorted_insert [container_simps, intro]: "bt_sorted m \<Longrightarrow> bt_sorted (bt_insert k v m)"
proof (induction k v m rule: bt_insert.induct)
  case (2 k v k' v' m)
  then show ?case
    using keys_bt_insert [of k v m] by auto
qed simp

lemma bt_sorted_filter: "bt_sorted m \<Longrightarrow> bt_sorted (filter P m)"
  by (induction m) auto

lemma bt_sorted_remove [container_simps, intro]: "bt_sorted m \<Longrightarrow> bt_sorted (AList.delete k m)"
  by (simp add: AList.delete_eq bt_sorted_filter)

lemma bt_sorted_distinct: "bt_sorted m \<Longrightarrow> distinct (map fst m)"
  by (induction m) auto

text \<open>Inserting past the largest key appends, so a queue keyed by increasing sequence
  numbers is in order of arrival.\<close>

lemma bt_insert_append:
  "(\<And>k'. k' \<in> fst ` set m \<Longrightarrow> k' < k) \<Longrightarrow> bt_insert k v m = m @ [(k, v)]"
proof (induction k v m rule: bt_insert.induct)
  case (2 k v k' v' m)
  then have "\<not> k < k'" and "k \<noteq> k'" by (auto simp: less_not_sym)
  with 2 show ?case by auto
qed simp

section \<open>Increasing sequences\<close>

lemma sorted_wrt_less_last:
  fixes a :: "'a::linorder"
  shows "sorted_wrt (<) (a # xs) \<Longrightarrow> x \<in> set (a # xs) \<Longrightarrow> x \<le> last (a # xs)"
proof (induction xs arbitrary: a)
  case (Cons y ys)
  then show ?case by (cases "x = a") (auto simp: less_imp_le)
qed simp

lemma sorted_wrt_less_join:
  fixes a :: "'a::linorder"
  assumes "sorted_wrt (<) (a # xs)" and "sorted_wrt (<) (last (a # xs) # ys)"
  shows "sorted_wrt (<) (a # xs @ ys)" and "last (a # xs @ ys) = last (last (a # xs) # ys)"
proof -
  have "x < y" if "x \<in> set (a # xs)" and "y \<in> set ys" for x y
    using sorted_wrt_less_last [OF assms(1) that(1)] assms(2) that(2) by auto
  with assms show "sorted_wrt (<) (a # xs @ ys)"
    by (auto simp: sorted_wrt_append)
  show "last (a # xs @ ys) = last (last (a # xs) # ys)"
    by simp
qed

section \<open>Fallible operations on a state\<close>

text \<open>
  An operation takes the state and returns an error or a value with the new state. A
  Rust \<open>?\<close> is \<open>and_then\<close>: it stops at the first error and keeps the state reached.
\<close>

type_synonym ('s, 'e, 'a) act = "'s \<Rightarrow> ('e + 'a) \<times> 's"

definition ret :: "'a \<Rightarrow> ('s, 'e, 'a) act" where
  "ret x s = (Inr x, s)"

definition fail :: "'e \<Rightarrow> ('s, 'e, 'a) act" where
  "fail e s = (Inl e, s)"

definition and_then :: "('s, 'e, 'a) act \<Rightarrow> ('a \<Rightarrow> ('s, 'e, 'b) act) \<Rightarrow> ('s, 'e, 'b) act" where
  "and_then f g s = (case f s of (Inl e, s') \<Rightarrow> (Inl e, s') | (Inr x, s') \<Rightarrow> g x s')"

definition or_fail :: "'e \<Rightarrow> 'a option \<Rightarrow> ('s, 'e, 'a) act" where
  "or_fail e x = (case x of None \<Rightarrow> fail e | Some y \<Rightarrow> ret y)"

definition lift_sum :: "'e + 'a \<Rightarrow> ('s, 'e, 'a) act" where
  "lift_sum r s = (r, s)"

lemma ret_apply [simp]: "ret x s = (Inr x, s)"
  by (simp add: ret_def)

lemma fail_apply [simp]: "fail e s = (Inl e, s)"
  by (simp add: fail_def)

lemma or_fail_apply [simp]:
  "or_fail e None s = (Inl e, s)" "or_fail e (Some x) s = (Inr x, s)"
  by (simp_all add: or_fail_def)

lemma lift_sum_apply [simp]: "lift_sum r s = (r, s)"
  by (simp add: lift_sum_def)

lemma and_then_Inr: "f s = (Inr x, s') \<Longrightarrow> and_then f g s = g x s'"
  by (simp add: and_then_def)

lemma and_then_Inl: "f s = (Inl e, s') \<Longrightarrow> and_then f g s = (Inl e, s')"
  by (simp add: and_then_def)

lemma and_then_ret [simp]: "and_then (ret x) g s = g x s"
  by (simp add: and_then_def)

lemma and_then_fail [simp]: "and_then (fail e) g s = (Inl e, s)"
  by (simp add: and_then_def)

lemma and_then_or_fail [simp]:
  "and_then (or_fail e None) g s = (Inl e, s)"
  "and_then (or_fail e (Some x)) g s = g x s"
  by (simp_all add: and_then_def)

lemma and_then_lift_sum [simp]:
  "and_then (lift_sum (Inl e)) g s = (Inl e, s)"
  "and_then (lift_sum (Inr x)) g s = g x s"
  by (simp_all add: and_then_def)

lemma and_then_eq_Inr_iff:
  "and_then f g s = (Inr y, s'') \<longleftrightarrow> (\<exists>x s'. f s = (Inr x, s') \<and> g x s' = (Inr y, s''))"
  by (auto simp: and_then_def split: prod.splits sum.splits)

lemma and_then_eq_Inl_iff:
  "and_then f g s = (Inl e, s'') \<longleftrightarrow>
     f s = (Inl e, s'') \<or> (\<exists>x s'. f s = (Inr x, s') \<and> g x s' = (Inl e, s''))"
  by (auto simp: and_then_def split: prod.splits sum.splits)

lemmas and_then_eqs = and_then_eq_Inr_iff and_then_eq_Inl_iff

end
