(* ===== verification/Store_Types.thy ===== *)
theory Store_Types
  imports Prelude
begin

text \<open>
  \<open>crates/webpush-store/src/lib.rs\<close>: the data every storage adapter keeps, the
  process-wide sources the crate reads (wall clock, operating system randomness, the
  receipt sequence counter), the identifiers built from them, and the \<open>Store\<close> trait as
  a record of operations, so that the handlers are written once for every adapter.

  Rust strings are their UTF-8 octets (\<^typ>\<open>string\<close>, one \<^typ>\<open>char\<close> per octet); bodies
  and keys are lists of \<^typ>\<open>byte\<close>; integers keep their width.
\<close>

section \<open>Data\<close>

record bridge_address =
  ba_bridge :: string
  ba_app_id :: string
  ba_token :: string

record user_agent =
  ua_uaid :: string
  ua_bridge :: "bridge_address option"
  ua_last_seen :: u64

datatype recipient = UserAgent string | Receipts string

record subscription =
  sub_uaid :: string
  sub_channel_id :: string
  sub_push :: string
  sub_vapid :: "byte list option"

datatype urgency = VeryLow | Low | Normal | High

record message =
  m_id :: string
  m_uaid :: string
  m_channel_id :: string
  m_push :: string
  m_topic :: "string option"
  m_body :: "byte list"
  m_ctype :: "string option"
  m_cenc :: "string option"
  m_ttl :: u32
  m_urgency :: urgency
  m_accepted :: u64
  m_expiry :: u64
  m_rsub :: "string option"

record receipt =
  rc_rsub :: string
  rc_msg_id :: string
  rc_status :: u16

section \<open>Urgency\<close>

definition urgency_parse :: "string \<Rightarrow> urgency option" where
  "urgency_parse s =
     (if s = ''very-low'' then Some VeryLow
      else if s = ''low'' then Some Low
      else if s = ''normal'' then Some Normal
      else if s = ''high'' then Some High
      else None)"

fun urgency_as_str :: "urgency \<Rightarrow> string" where
  "urgency_as_str VeryLow = ''very-low''"
| "urgency_as_str Low = ''low''"
| "urgency_as_str Normal = ''normal''"
| "urgency_as_str High = ''high''"

text \<open>The derived \<open>Ord\<close>: the order of declaration.\<close>

fun urgency_rank :: "urgency \<Rightarrow> nat" where
  "urgency_rank VeryLow = 0"
| "urgency_rank Low = 1"
| "urgency_rank Normal = 2"
| "urgency_rank High = 3"

lemma urgency_rank_inject: "urgency_rank a = urgency_rank b \<Longrightarrow> a = b"
  by (cases a; cases b) simp_all

instantiation urgency :: linorder
begin

definition less_eq_urgency :: "urgency \<Rightarrow> urgency \<Rightarrow> bool" where
  "a \<le> b \<longleftrightarrow> urgency_rank a \<le> urgency_rank b"

definition less_urgency :: "urgency \<Rightarrow> urgency \<Rightarrow> bool" where
  "a < b \<longleftrightarrow> urgency_rank a < urgency_rank b"

instance
  by standard (auto simp: less_eq_urgency_def less_urgency_def intro: urgency_rank_inject)

end

lemma urgency_parse_as_str [simp]: "urgency_parse (urgency_as_str u) = Some u"
  by (cases u) (simp_all add: urgency_parse_def)

lemma urgency_as_str_parse: "urgency_parse s = Some u \<Longrightarrow> urgency_as_str u = s"
  by (auto simp: urgency_parse_def split: if_splits)

section \<open>Clock, randomness, sequence numbers\<close>

text \<open>
  The process reads the wall clock, draws octets from the operating system and bumps one
  static counter. Readings and draws are numbered, so two of them in one operation may
  differ: \<open>wl_clock k\<close> is the \<open>k\<close>-th reading (milliseconds since 1970; a clock set
  before that panics), \<open>wl_entropy k\<close> the octets of the \<open>k\<close>-th draw, \<open>wl_last\<close> the
  static \<open>LAST\<close> of \<open>next_seq\<close>.
\<close>

record world =
  wl_clock :: "nat \<Rightarrow> nat"
  wl_reads :: nat
  wl_entropy :: "nat \<Rightarrow> nat \<Rightarrow> byte"
  wl_draws :: nat
  wl_last :: u64

definition now_ms :: "world \<Rightarrow> u64 \<times> world" where
  "now_ms w =
     (let t = wl_clock w (wl_reads w)
      in (if t < 2 ^ 64 then of_nat t else - 1, w\<lparr>wl_reads := Suc (wl_reads w)\<rparr>))"

definition random_bytes :: "nat \<Rightarrow> world \<Rightarrow> byte list \<times> world" where
  "random_bytes n w =
     (map (wl_entropy w (wl_draws w)) [0..<n], w\<lparr>wl_draws := Suc (wl_draws w)\<rparr>)"

definition next_seq :: "world \<Rightarrow> u64 \<times> world" where
  "next_seq w =
     (let (t, w') = now_ms w; now = t * 1000; seq = max now (wl_last w' + 1)
      in (seq, w'\<lparr>wl_last := seq\<rparr>))"

text \<open>The \<open>base64\<close> crate's \<open>URL_SAFE_NO_PAD\<close> engine, a parameter of what uses it.\<close>

record base64 =
  b64_encode :: "byte list \<Rightarrow> string"
  b64_decode :: "string \<Rightarrow> byte list option"

section \<open>Identifiers\<close>

definition hex_digits :: string where
  "hex_digits = ''0123456789abcdef''"

definition hex2 :: "byte \<Rightarrow> string" where
  "hex2 b = [hex_digits ! (unat b div 16), hex_digits ! (unat b mod 16)]"

definition new_uaid :: "world \<Rightarrow> string \<times> world" where
  "new_uaid w = (let (bs, w') = random_bytes 16 w in (concat (map hex2 bs), w'))"

definition is_uaid :: "string \<Rightarrow> bool" where
  "is_uaid s \<longleftrightarrow> length s = 32 \<and>
     list_all (\<lambda>b. (CHR ''0'' \<le> b \<and> b \<le> CHR ''9'') \<or> (CHR ''a'' \<le> b \<and> b \<le> CHR ''f'')) s"

definition new_id :: "base64 \<Rightarrow> world \<Rightarrow> string \<times> world" where
  "new_id b64 w = (let (bs, w') = random_bytes 16 w in (b64_encode b64 bs, w'))"

section \<open>The Store trait\<close>

datatype box_error = BoxError string

type_synonym ('s, 'a) store_op = "('s \<times> world, box_error, 'a) act"

record 's store =
  so_create_user_agent :: "user_agent \<Rightarrow> ('s, unit) store_op"
  so_user_agent :: "string \<Rightarrow> ('s, user_agent option) store_op"
  so_touch_user_agent :: "string \<Rightarrow> u64 \<Rightarrow> ('s, bool) store_op"
  so_update_bridge_token :: "string \<Rightarrow> string \<Rightarrow> ('s, bool) store_op"
  so_delete_user_agent :: "string \<Rightarrow> ('s, (u64 \<times> receipt) list) store_op"
  so_expire_user_agents :: "u64 \<Rightarrow> ('s, nat \<times> (u64 \<times> receipt) list) store_op"
  so_subscriptions :: "string \<Rightarrow> ('s, subscription list) store_op"
  so_channel :: "string \<Rightarrow> string \<Rightarrow> ('s, subscription option) store_op"
  so_create_subscription ::
    "string \<Rightarrow> string \<Rightarrow> byte list option \<Rightarrow> ('s, subscription) store_op"
  so_subscription_by_push :: "string \<Rightarrow> ('s, subscription option) store_op"
  so_delete_subscription :: "string \<Rightarrow> string \<Rightarrow> ('s, (u64 \<times> receipt) list) store_op"
  so_insert_message :: "message \<Rightarrow> ('s, unit) store_op"
  so_pending :: "string \<Rightarrow> u64 \<Rightarrow> nat \<Rightarrow> ('s, message list) store_op"
  so_message :: "string \<Rightarrow> ('s, message option) store_op"
  so_delete_message :: "string \<Rightarrow> (string \<times> string) option \<Rightarrow> ('s, message option) store_op"
  so_create_receipt_sub :: "('s, string) store_op"
  so_receipt_sub_exists :: "string \<Rightarrow> ('s, bool) store_op"
  so_delete_receipt_sub :: "string \<Rightarrow> ('s, bool) store_op"
  so_enqueue_receipt :: "receipt \<Rightarrow> ('s, u64 option) store_op"
  so_queued_receipts :: "string \<Rightarrow> ('s, (u64 \<times> receipt) list) store_op"
  so_delete_receipt :: "string \<Rightarrow> u64 \<Rightarrow> ('s, unit) store_op"
  so_reap :: "u64 \<Rightarrow> ('s, (u64 \<times> receipt) list) store_op"
  so_set_route :: "recipient \<Rightarrow> string \<Rightarrow> ('s, string option) store_op"
  so_route :: "recipient \<Rightarrow> ('s, string option) store_op"
  so_clear_route :: "recipient \<Rightarrow> string \<Rightarrow> ('s, bool) store_op"

section \<open>Facts about identifiers and sequence numbers\<close>

abbreviation lower_hex :: "char \<Rightarrow> bool" where
  "lower_hex b \<equiv> (CHR ''0'' \<le> b \<and> b \<le> CHR ''9'') \<or> (CHR ''a'' \<le> b \<and> b \<le> CHR ''f'')"

lemma length_hex_digits [simp]: "length hex_digits = 16"
  by (simp add: hex_digits_def)

lemma distinct_hex_digits: "distinct hex_digits"
  by (simp add: hex_digits_def)

lemma hex_digits_lower_hex: "list_all lower_hex hex_digits"
  by (simp add: hex_digits_def less_eq_char_def)

lemma hex_nth_lower: "n < 16 \<Longrightarrow> lower_hex (hex_digits ! n)"
  using hex_digits_lower_hex by (simp only: list_all_length length_hex_digits)

lemma unat_byte_less: "unat (b :: byte) < 256"
  using unsigned_less [of b, where 'a = nat] by simp

lemma hex2_lower: "list_all lower_hex (hex2 b)"
  using unat_byte_less [of b] by (simp add: hex2_def hex_nth_lower)

lemma length_hex2 [simp]: "length (hex2 b) = 2"
  by (simp add: hex2_def)

lemma hex2_inject: "hex2 a = hex2 b \<longleftrightarrow> a = b"
proof
  assume "hex2 a = hex2 b"
  then have "unat a div 16 = unat b div 16" and "unat a mod 16 = unat b mod 16"
    using unat_byte_less [of a] unat_byte_less [of b]
    by (simp_all add: hex2_def nth_eq_iff_index_eq [OF distinct_hex_digits])
  then have "unat a = unat b" by (metis div_mult_mod_eq)
  then show "a = b" by (rule unsigned_word_eqI)
qed simp

lemma concat_hex2_inject:
  "length as = length bs \<Longrightarrow> concat (map hex2 as) = concat (map hex2 bs) \<longleftrightarrow> as = bs"
  by (induction as bs rule: list_induct2) (auto simp: hex2_inject append_eq_append_conv)

lemma length_concat_hex2 [simp]: "length (concat (map hex2 bs)) = 2 * length bs"
  by (induction bs) simp_all

lemma concat_hex2_lower: "list_all lower_hex (concat (map hex2 bs))"
  by (induction bs) (use hex2_lower in auto)

lemma now_ms_frame [simp]:
  "wl_last (snd (now_ms w)) = wl_last w" "wl_draws (snd (now_ms w)) = wl_draws w"
  "wl_clock (snd (now_ms w)) = wl_clock w" "wl_entropy (snd (now_ms w)) = wl_entropy w"
  "wl_reads (snd (now_ms w)) = Suc (wl_reads w)"
  by (simp_all add: now_ms_def Let_def)

text \<open>
  Sequence numbers leave the 64-bit range only after 500,000 years: \<open>seq_room n w\<close> says
  that \<open>n\<close> more numbers can be issued before the counter or the clock reaches it.
\<close>

definition seq_room :: "nat \<Rightarrow> world \<Rightarrow> bool" where
  "seq_room n w \<longleftrightarrow> unat (wl_last w) + n < 2 ^ 64 \<and> (\<forall>k. wl_clock w k * 1000 + n < 2 ^ 64)"

lemma seq_room_mono: "seq_room n w \<Longrightarrow> k \<le> n \<Longrightarrow> seq_room k w"
  unfolding seq_room_def by (meson add_left_mono le_less_trans)

lemma next_seq_greater:
  assumes "seq_room (Suc n) w" and "next_seq w = (seq, w')"
  shows "wl_last w < seq" and "wl_last w' = seq" and "seq_room n w'"
proof -
  let ?t = "wl_clock w (wl_reads w)"
  let ?now = "fst (now_ms w) * 1000"
  have seq: "seq = max ?now (wl_last w + 1)" and w': "w' = (snd (now_ms w))\<lparr>wl_last := seq\<rparr>"
    using assms(2) by (auto simp: next_seq_def Let_def case_prod_beta)
  have room: "unat (wl_last w) + Suc n < 2 ^ 64" and "?t * 1000 + Suc n < 2 ^ 64"
    using assms(1) by (auto simp: seq_room_def)
  then have now: "unat ?now = ?t * 1000"
    by (simp add: now_ms_def Let_def unat_word_ariths unat_of_nat)
  have succ: "unat (wl_last w + 1) = unat (wl_last w) + 1"
    using room by (simp add: unat_word_ariths)
  then have "wl_last w < wl_last w + 1"
    by (simp add: word_less_nat_alt)
  then show "wl_last w < seq"
    by (simp add: seq less_max_iff_disj)
  show "wl_last w' = seq" by (simp add: w')
  have "unat seq \<le> max (?t * 1000) (unat (wl_last w) + 1)"
    using now succ by (auto simp: seq max_def word_le_nat_alt)
  then have "unat seq + n < 2 ^ 64"
    using room \<open>?t * 1000 + Suc n < 2 ^ 64\<close> by (auto simp: max_def split: if_splits)
  moreover have "\<forall>k. wl_clock w k * 1000 + n < 2 ^ 64"
    using assms(1) unfolding seq_room_def by (metis add_Suc_right Suc_lessD)
  ultimately show "seq_room n w'"
    by (simp add: seq_room_def w')
qed

end
