(* ===== verification/Memory_Store.thy ===== *)
theory Memory_Store
  imports Store_Types
begin

text \<open>
  \<open>crates/webpush-store/src/memory.rs\<close>: the in-memory adapter, seven maps behind one
  mutex. Every method takes the lock once, so each operation is one function on the
  \<open>State\<close> record. \<open>memory_store\<close> packages the operations as a \<open>Store\<close>; \<open>mem_inv\<close> is the
  coherence between the maps that every operation keeps.
\<close>

section \<open>State\<close>

record state =
  st_user_agents :: "(string, user_agent) hmap"
  st_channels :: "(string \<times> string, subscription) hmap"
  st_push :: "(string, string \<times> string) hmap"
  st_messages :: "(string, message) hmap"
  st_topics :: "(string \<times> string \<times> string, string) hmap"
  st_receipts :: "(string, (u64, receipt) bmap) hmap"
  st_routes :: "(recipient, string) hmap"

definition new_state :: state where
  "new_state = \<lparr>st_user_agents = [], st_channels = [], st_push = [], st_messages = [],
     st_topics = [], st_receipts = [], st_routes = []\<rparr>"

section \<open>Shared steps: \<open>impl State\<close>\<close>

definition remove_message :: "string \<Rightarrow> state \<Rightarrow> message option \<times> state" where
  "remove_message i s =
     (case hget (st_messages s) i of
        None \<Rightarrow> (None, s)
      | Some m \<Rightarrow>
          let s = s\<lparr>st_messages := hremove i (st_messages s)\<rparr>
          in (Some m,
              case m_topic m of
                None \<Rightarrow> s
              | Some t \<Rightarrow> s\<lparr>st_topics := hremove (m_uaid m, m_channel_id m, t) (st_topics s)\<rparr>))"

definition receipt_410 :: "string \<Rightarrow> message \<Rightarrow> receipt" where
  "receipt_410 rsub m = \<lparr>rc_rsub = rsub, rc_msg_id = m_id m, rc_status = 410\<rparr>"

definition owe_410 :: "message \<Rightarrow> state \<times> world \<Rightarrow> (u64 \<times> receipt) option \<times> state \<times> world" where
  "owe_410 m sw =
     (case sw of (s, w) \<Rightarrow>
        case m_rsub m of
          None \<Rightarrow> (None, s, w)
        | Some rsub \<Rightarrow>
            (case hget (st_receipts s) rsub of
               None \<Rightarrow> (None, s, w)
             | Some queue \<Rightarrow>
                 let r = receipt_410 rsub m; (seq, w) = next_seq w
                 in (Some (seq, r),
                     s\<lparr>st_receipts := hinsert rsub (bt_insert seq r queue) (st_receipts s)\<rparr>, w)))"

text \<open>The loop of \<open>remove_subscription\<close> and of \<open>reap\<close>: remove each message, owe its 410.\<close>

fun remove_owing :: "string list \<Rightarrow> state \<times> world \<Rightarrow> (u64 \<times> receipt) list \<times> state \<times> world" where
  "remove_owing [] sw = ([], sw)"
| "remove_owing (i # is) (s, w) =
     (case remove_message i s of
        (None, s) \<Rightarrow> remove_owing is (s, w)
      | (Some m, s) \<Rightarrow>
          let (r, sw) = owe_410 m (s, w); (rs, sw) = remove_owing is sw
          in ((case r of None \<Rightarrow> [] | Some x \<Rightarrow> [x]) @ rs, sw))"

definition remove_subscription ::
  "iter_order \<Rightarrow> string \<Rightarrow> string \<Rightarrow> state \<times> world \<Rightarrow> (u64 \<times> receipt) list \<times> state \<times> world" where
  "remove_subscription ord uaid ch sw =
     (case sw of (s, w) \<Rightarrow>
        case hget (st_channels s) (uaid, ch) of
          None \<Rightarrow> ([], s, w)
        | Some sub \<Rightarrow>
            let s = s\<lparr>st_channels := hremove (uaid, ch) (st_channels s)\<rparr>;
                s = s\<lparr>st_push := hremove (sub_push sub) (st_push s)\<rparr>;
                ids = map m_id (filter (\<lambda>m. m_uaid m = uaid \<and> m_channel_id m = ch)
                                       (hvalues ord (st_messages s)))
            in remove_owing ids (s, w))"

fun remove_subscriptions ::
  "iter_order \<Rightarrow> string \<Rightarrow> string list \<Rightarrow> state \<times> world \<Rightarrow> (u64 \<times> receipt) list \<times> state \<times> world" where
  "remove_subscriptions ord uaid [] sw = ([], sw)"
| "remove_subscriptions ord uaid (ch # chs) sw =
     (let (r, sw) = remove_subscription ord uaid ch sw;
          (rs, sw) = remove_subscriptions ord uaid chs sw
      in (r @ rs, sw))"

definition remove_user_agent ::
  "iter_order \<Rightarrow> string \<Rightarrow> state \<times> world \<Rightarrow> (u64 \<times> receipt) list \<times> state \<times> world" where
  "remove_user_agent ord uaid sw =
     (case sw of (s, w) \<Rightarrow>
        let s = s\<lparr>st_user_agents := hremove uaid (st_user_agents s)\<rparr>;
            channels = map snd (filter (\<lambda>(u, _). u = uaid) (hkeys ord (st_channels s)))
        in remove_subscriptions ord uaid channels (s, w))"

fun remove_user_agents ::
  "iter_order \<Rightarrow> string list \<Rightarrow> state \<times> world \<Rightarrow> (u64 \<times> receipt) list \<times> state \<times> world" where
  "remove_user_agents ord [] sw = ([], sw)"
| "remove_user_agents ord (u # us) sw =
     (let (r, sw) = remove_user_agent ord u sw; (rs, sw) = remove_user_agents ord us sw
      in (r @ rs, sw))"

section \<open>The operations: \<open>impl Store for MemoryStore\<close>\<close>

definition mem_create_user_agent :: "user_agent \<Rightarrow> state \<Rightarrow> state" where
  "mem_create_user_agent ua s = s\<lparr>st_user_agents := hinsert (ua_uaid ua) ua (st_user_agents s)\<rparr>"

definition mem_user_agent :: "string \<Rightarrow> state \<Rightarrow> user_agent option" where
  "mem_user_agent uaid s = hget (st_user_agents s) uaid"

definition mem_touch_user_agent :: "string \<Rightarrow> u64 \<Rightarrow> state \<Rightarrow> bool \<times> state" where
  "mem_touch_user_agent uaid now s =
     (case hget (st_user_agents s) uaid of
        None \<Rightarrow> (False, s)
      | Some ua \<Rightarrow>
          (True, s\<lparr>st_user_agents :=
             hinsert uaid (ua\<lparr>ua_last_seen := max (ua_last_seen ua) now\<rparr>) (st_user_agents s)\<rparr>))"

definition mem_update_bridge_token :: "string \<Rightarrow> string \<Rightarrow> state \<Rightarrow> bool \<times> state" where
  "mem_update_bridge_token uaid token s =
     (case hget (st_user_agents s) uaid of
        None \<Rightarrow> (False, s)
      | Some ua \<Rightarrow>
          (case ua_bridge ua of
             None \<Rightarrow> (False, s)
           | Some bridge \<Rightarrow>
               (True, s\<lparr>st_user_agents :=
                  hinsert uaid (ua\<lparr>ua_bridge := Some (bridge\<lparr>ba_token := token\<rparr>)\<rparr>)
                    (st_user_agents s)\<rparr>)))"

definition mem_expire_user_agents ::
  "iter_order \<Rightarrow> u64 \<Rightarrow> state \<times> world \<Rightarrow> (nat \<times> (u64 \<times> receipt) list) \<times> state \<times> world" where
  "mem_expire_user_agents ord cutoff sw =
     (case sw of (s, w) \<Rightarrow>
        let stale = map ua_uaid (filter (\<lambda>ua. ua_last_seen ua < cutoff)
                                        (hvalues ord (st_user_agents s)));
            (receipts, sw) = remove_user_agents ord stale (s, w)
        in ((length stale, receipts), sw))"

definition mem_subscriptions :: "iter_order \<Rightarrow> string \<Rightarrow> state \<Rightarrow> subscription list" where
  "mem_subscriptions ord uaid s =
     filter (\<lambda>sub. sub_uaid sub = uaid) (hvalues ord (st_channels s))"

definition mem_channel :: "string \<Rightarrow> string \<Rightarrow> state \<Rightarrow> subscription option" where
  "mem_channel uaid ch s = hget (st_channels s) (uaid, ch)"

definition mem_create_subscription ::
  "base64 \<Rightarrow> string \<Rightarrow> string \<Rightarrow> byte list option \<Rightarrow> state \<times> world \<Rightarrow> subscription \<times> state \<times> world" where
  "mem_create_subscription b64 uaid ch vapid sw =
     (case sw of (s, w) \<Rightarrow>
        let (push, w) = new_id b64 w;
            sub = \<lparr>sub_uaid = uaid, sub_channel_id = ch, sub_push = push, sub_vapid = vapid\<rparr>;
            key = (sub_uaid sub, sub_channel_id sub);
            s = s\<lparr>st_push := hinsert (sub_push sub) key (st_push s)\<rparr>;
            s = s\<lparr>st_channels := hinsert key sub (st_channels s)\<rparr>
        in (sub, s, w))"

definition mem_subscription_by_push :: "string \<Rightarrow> state \<Rightarrow> subscription option" where
  "mem_subscription_by_push push s =
     (case hget (st_push s) push of None \<Rightarrow> None | Some key \<Rightarrow> hget (st_channels s) key)"

definition mem_insert_message :: "message \<Rightarrow> state \<Rightarrow> state" where
  "mem_insert_message m s =
     (let s = (case m_topic m of
                 None \<Rightarrow> s
               | Some topic \<Rightarrow>
                   let slot = (m_uaid m, m_channel_id m, topic);
                       old = hget (st_topics s) slot;
                       s = s\<lparr>st_topics := hinsert slot (m_id m) (st_topics s)\<rparr>
                   in (case old of
                         None \<Rightarrow> s
                       | Some old_id \<Rightarrow> s\<lparr>st_messages := hremove old_id (st_messages s)\<rparr>))
      in s\<lparr>st_messages := hinsert (m_id m) m (st_messages s)\<rparr>)"

text \<open>Oldest first, ties by id: the key of \<open>sort_by\<close>, shared with the Bigtable adapter.\<close>

definition oldest_first :: "message list \<Rightarrow> message list" where
  "oldest_first = sort_key (\<lambda>m. (m_accepted m, m_id m))"

definition mem_pending :: "iter_order \<Rightarrow> string \<Rightarrow> u64 \<Rightarrow> nat \<Rightarrow> state \<Rightarrow> message list" where
  "mem_pending ord uaid now limit s =
     take limit (oldest_first
       (filter (\<lambda>m. m_uaid m = uaid \<and> m_expiry m > now) (hvalues ord (st_messages s))))"

definition mem_message :: "string \<Rightarrow> state \<Rightarrow> message option" where
  "mem_message i s = hget (st_messages s) i"

definition mem_delete_message ::
  "string \<Rightarrow> (string \<times> string) option \<Rightarrow> state \<Rightarrow> message option \<times> state" where
  "mem_delete_message i owner s =
     (let permitted = (case hget (st_messages s) i of
                         None \<Rightarrow> False
                       | Some m \<Rightarrow> (case owner of
                                     None \<Rightarrow> True
                                   | Some (uaid, ch) \<Rightarrow> m_uaid m = uaid \<and> m_channel_id m = ch))
      in if permitted then remove_message i s else (None, s))"

definition mem_create_receipt_sub :: "base64 \<Rightarrow> state \<times> world \<Rightarrow> string \<times> state \<times> world" where
  "mem_create_receipt_sub b64 sw =
     (case sw of (s, w) \<Rightarrow>
        let (rsub, w) = new_id b64 w
        in (rsub, s\<lparr>st_receipts := hinsert rsub [] (st_receipts s)\<rparr>, w))"

definition mem_receipt_sub_exists :: "string \<Rightarrow> state \<Rightarrow> bool" where
  "mem_receipt_sub_exists rsub s \<longleftrightarrow> hget (st_receipts s) rsub \<noteq> None"

definition mem_delete_receipt_sub :: "string \<Rightarrow> state \<Rightarrow> bool \<times> state" where
  "mem_delete_receipt_sub rsub s =
     (hget (st_receipts s) rsub \<noteq> None, s\<lparr>st_receipts := hremove rsub (st_receipts s)\<rparr>)"

definition mem_enqueue_receipt :: "receipt \<Rightarrow> state \<times> world \<Rightarrow> u64 option \<times> state \<times> world" where
  "mem_enqueue_receipt r sw =
     (case sw of (s, w) \<Rightarrow>
        case hget (st_receipts s) (rc_rsub r) of
          None \<Rightarrow> (None, s, w)
        | Some queue \<Rightarrow>
            let (seq, w) = next_seq w
            in (Some seq,
                s\<lparr>st_receipts := hinsert (rc_rsub r) (bt_insert seq r queue) (st_receipts s)\<rparr>, w))"

definition mem_queued_receipts :: "string \<Rightarrow> state \<Rightarrow> (u64 \<times> receipt) list" where
  "mem_queued_receipts rsub s =
     (case hget (st_receipts s) rsub of None \<Rightarrow> [] | Some q \<Rightarrow> q)"

definition mem_delete_receipt :: "string \<Rightarrow> u64 \<Rightarrow> state \<Rightarrow> state" where
  "mem_delete_receipt rsub seq s =
     (case hget (st_receipts s) rsub of
        None \<Rightarrow> s
      | Some q \<Rightarrow> s\<lparr>st_receipts := hinsert rsub (AList.delete seq q) (st_receipts s)\<rparr>)"

definition mem_reap ::
  "iter_order \<Rightarrow> u64 \<Rightarrow> state \<times> world \<Rightarrow> (u64 \<times> receipt) list \<times> state \<times> world" where
  "mem_reap ord now sw =
     (case sw of (s, w) \<Rightarrow>
        let expired = map m_id (filter (\<lambda>m. m_expiry m \<le> now) (hvalues ord (st_messages s)))
        in remove_owing expired (s, w))"

definition mem_set_route :: "recipient \<Rightarrow> string \<Rightarrow> state \<Rightarrow> string option \<times> state" where
  "mem_set_route to node s =
     (hget (st_routes s) to, s\<lparr>st_routes := hinsert to node (st_routes s)\<rparr>)"

definition mem_route :: "recipient \<Rightarrow> state \<Rightarrow> string option" where
  "mem_route to s = hget (st_routes s) to"

definition mem_clear_route :: "recipient \<Rightarrow> string \<Rightarrow> state \<Rightarrow> bool \<times> state" where
  "mem_clear_route to node s =
     (if hget (st_routes s) to = Some node
      then (True, s\<lparr>st_routes := hremove to (st_routes s)\<rparr>)
      else (False, s))"

section \<open>The adapter as a Store\<close>

text \<open>The memory adapter never fails; \<open>ok_read\<close>, \<open>ok_write\<close>, \<open>ok_step\<close> wrap its reads,
  its writes that need no clock or randomness, and the others.\<close>

definition ok_read :: "('s \<Rightarrow> 'a) \<Rightarrow> ('s, 'a) store_op" where
  "ok_read f sw = (Inr (f (fst sw)), sw)"

definition ok_write :: "('s \<Rightarrow> 'a \<times> 's) \<Rightarrow> ('s, 'a) store_op" where
  "ok_write f sw = (let (x, s) = f (fst sw) in (Inr x, s, snd sw))"

definition ok_step :: "('s \<times> world \<Rightarrow> 'a \<times> 's \<times> world) \<Rightarrow> ('s, 'a) store_op" where
  "ok_step f sw = (let (x, sw) = f sw in (Inr x, sw))"

definition memory_store :: "base64 \<Rightarrow> iter_order \<Rightarrow> state store" where
  "memory_store b64 ord = \<lparr>
     so_create_user_agent = (\<lambda>ua. ok_write (\<lambda>s. ((), mem_create_user_agent ua s))),
     so_user_agent = (\<lambda>uaid. ok_read (mem_user_agent uaid)),
     so_touch_user_agent = (\<lambda>uaid now. ok_write (mem_touch_user_agent uaid now)),
     so_update_bridge_token = (\<lambda>uaid token. ok_write (mem_update_bridge_token uaid token)),
     so_delete_user_agent = (\<lambda>uaid. ok_step (remove_user_agent ord uaid)),
     so_expire_user_agents = (\<lambda>cutoff. ok_step (mem_expire_user_agents ord cutoff)),
     so_subscriptions = (\<lambda>uaid. ok_read (mem_subscriptions ord uaid)),
     so_channel = (\<lambda>uaid ch. ok_read (mem_channel uaid ch)),
     so_create_subscription = (\<lambda>uaid ch vapid. ok_step (mem_create_subscription b64 uaid ch vapid)),
     so_subscription_by_push = (\<lambda>push. ok_read (mem_subscription_by_push push)),
     so_delete_subscription = (\<lambda>uaid ch. ok_step (remove_subscription ord uaid ch)),
     so_insert_message = (\<lambda>m. ok_write (\<lambda>s. ((), mem_insert_message m s))),
     so_pending = (\<lambda>uaid now limit. ok_read (mem_pending ord uaid now limit)),
     so_message = (\<lambda>i. ok_read (mem_message i)),
     so_delete_message = (\<lambda>i owner. ok_write (mem_delete_message i owner)),
     so_create_receipt_sub = ok_step (mem_create_receipt_sub b64),
     so_receipt_sub_exists = (\<lambda>rsub. ok_read (mem_receipt_sub_exists rsub)),
     so_delete_receipt_sub = (\<lambda>rsub. ok_write (mem_delete_receipt_sub rsub)),
     so_enqueue_receipt = (\<lambda>r. ok_step (mem_enqueue_receipt r)),
     so_queued_receipts = (\<lambda>rsub. ok_read (mem_queued_receipts rsub)),
     so_delete_receipt = (\<lambda>rsub seq. ok_write (\<lambda>s. ((), mem_delete_receipt rsub seq s))),
     so_reap = (\<lambda>now. ok_step (mem_reap ord now)),
     so_set_route = (\<lambda>to node. ok_write (mem_set_route to node)),
     so_route = (\<lambda>to. ok_read (mem_route to)),
     so_clear_route = (\<lambda>to node. ok_write (mem_clear_route to node))\<rparr>"

section \<open>Coherence of the maps\<close>

definition uas_ok :: "(string, user_agent) hmap \<Rightarrow> bool" where
  "uas_ok uas \<longleftrightarrow> hdistinct uas \<and> (\<forall>k ua. hget uas k = Some ua \<longrightarrow> ua_uaid ua = k)"

definition subs_ok ::
  "(string \<times> string, subscription) hmap \<Rightarrow> (string, string \<times> string) hmap \<Rightarrow> bool" where
  "subs_ok chans pushes \<longleftrightarrow> hdistinct chans \<and> hdistinct pushes \<and>
     (\<forall>k sub. hget chans k = Some sub \<longrightarrow>
        (sub_uaid sub, sub_channel_id sub) = k \<and> hget pushes (sub_push sub) = Some k) \<and>
     (\<forall>p k. hget pushes p = Some k \<longrightarrow> (\<exists>sub. hget chans k = Some sub \<and> sub_push sub = p))"

definition msgs_ok ::
  "(string, message) hmap \<Rightarrow> (string \<times> string \<times> string, string) hmap \<Rightarrow> bool" where
  "msgs_ok msgs topics \<longleftrightarrow> hdistinct msgs \<and> hdistinct topics \<and>
     (\<forall>i m. hget msgs i = Some m \<longrightarrow> m_id m = i \<and>
        (\<forall>t. m_topic m = Some t \<longrightarrow> hget topics (m_uaid m, m_channel_id m, t) = Some i)) \<and>
     (\<forall>u c t i. hget topics (u, c, t) = Some i \<longrightarrow>
        (\<exists>m. hget msgs i = Some m \<and> m_uaid m = u \<and> m_channel_id m = c \<and> m_topic m = Some t))"

definition queues_ok :: "(string, (u64, receipt) bmap) hmap \<Rightarrow> bool" where
  "queues_ok qs \<longleftrightarrow> hdistinct qs \<and>
     (\<forall>rsub q. hget qs rsub = Some q \<longrightarrow> bt_sorted q \<and> (\<forall>x\<in>set q. rc_rsub (snd x) = rsub))"

definition mem_inv :: "state \<Rightarrow> bool" where
  "mem_inv s \<longleftrightarrow> uas_ok (st_user_agents s) \<and> subs_ok (st_channels s) (st_push s) \<and>
     msgs_ok (st_messages s) (st_topics s) \<and> queues_ok (st_receipts s) \<and> hdistinct (st_routes s)"

text \<open>Every queued receipt was numbered by this process: no key is past the counter.\<close>

definition queue_bound :: "state \<Rightarrow> world \<Rightarrow> bool" where
  "queue_bound s w \<longleftrightarrow>
     (\<forall>rsub q k. hget (st_receipts s) rsub = Some q \<longrightarrow> k \<in> fst ` set q \<longrightarrow> k \<le> wl_last w)"

definition mem_ok :: "state \<times> world \<Rightarrow> bool" where
  "mem_ok sw \<longleftrightarrow> mem_inv (fst sw) \<and> queue_bound (fst sw) (snd sw)"

text \<open>Sequence numbers for every stored message can still be issued.\<close>

definition room :: "state \<times> world \<Rightarrow> bool" where
  "room sw \<longleftrightarrow> seq_room (length (st_messages (fst sw))) (snd sw)"

section \<open>Removing messages\<close>

lemma remove_message_None:
  "hget (st_messages s) i = None \<Longrightarrow> remove_message i s = (None, s)"
  by (simp add: remove_message_def)

lemma remove_message_Some:
  assumes "hget (st_messages s) i = Some m"
  shows "fst (remove_message i s) = Some m"
    and "st_messages (snd (remove_message i s)) = hremove i (st_messages s)"
    and "st_topics (snd (remove_message i s)) =
      (case m_topic m of None \<Rightarrow> st_topics s
       | Some t \<Rightarrow> hremove (m_uaid m, m_channel_id m, t) (st_topics s))"
  using assms by (simp_all add: remove_message_def Let_def split: option.splits)

lemma remove_message_frame [simp]:
  "st_user_agents (snd (remove_message i s)) = st_user_agents s"
  "st_channels (snd (remove_message i s)) = st_channels s"
  "st_push (snd (remove_message i s)) = st_push s"
  "st_receipts (snd (remove_message i s)) = st_receipts s"
  "st_routes (snd (remove_message i s)) = st_routes s"
  by (simp_all add: remove_message_def Let_def split: option.splits)

lemma msgs_ok_id: "msgs_ok msgs topics \<Longrightarrow> hget msgs i = Some m \<Longrightarrow> m_id m = i"
  by (simp add: msgs_ok_def)

lemma msgs_ok_slot:
  "msgs_ok msgs topics \<Longrightarrow> hget msgs i = Some m \<Longrightarrow> m_topic m = Some t \<Longrightarrow>
   hget topics (m_uaid m, m_channel_id m, t) = Some i"
  by (simp add: msgs_ok_def)

lemma msgs_ok_topic:
  "msgs_ok msgs topics \<Longrightarrow> hget topics (u, c, t) = Some i \<Longrightarrow>
   \<exists>m. hget msgs i = Some m \<and> m_uaid m = u \<and> m_channel_id m = c \<and> m_topic m = Some t"
  by (simp add: msgs_ok_def)

lemma msgs_ok_distinct: "msgs_ok msgs topics \<Longrightarrow> hdistinct msgs \<and> hdistinct topics"
  by (simp add: msgs_ok_def)

lemma msgs_okI:
  assumes "hdistinct msgs" and "hdistinct topics"
    and "\<And>i m. hget msgs i = Some m \<Longrightarrow> m_id m = i"
    and "\<And>i m t. hget msgs i = Some m \<Longrightarrow> m_topic m = Some t \<Longrightarrow>
           hget topics (m_uaid m, m_channel_id m, t) = Some i"
    and "\<And>u c t i. hget topics (u, c, t) = Some i \<Longrightarrow>
           \<exists>m. hget msgs i = Some m \<and> m_uaid m = u \<and> m_channel_id m = c \<and> m_topic m = Some t"
  shows "msgs_ok msgs topics"
  using assms unfolding msgs_ok_def by blast

lemma msgs_ok_remove:
  assumes ok: "msgs_ok msgs topics" and m: "hget msgs i = Some m"
  shows "msgs_ok (hremove i msgs)
    (case m_topic m of None \<Rightarrow> topics | Some t \<Rightarrow> hremove (m_uaid m, m_channel_id m, t) topics)"
    (is "msgs_ok _ ?topics")
proof -
  have lookup: "hget ?topics k =
      (if m_topic m = Some (snd (snd k)) \<and> (m_uaid m, m_channel_id m) = (fst k, fst (snd k))
       then None else hget topics k)" for k
    by (cases k) (auto split: option.split)
  show ?thesis
  proof (rule msgs_okI)
    show "hdistinct (hremove i msgs)" and "hdistinct ?topics"
      using msgs_ok_distinct [OF ok] by (simp_all split: option.split)
    show "m_id m' = j" if "hget (hremove i msgs) j = Some m'" for j m'
      using that msgs_ok_id [OF ok] by (simp split: if_splits)
    show "hget ?topics (m_uaid m', m_channel_id m', t) = Some j"
      if "hget (hremove i msgs) j = Some m'" and "m_topic m' = Some t" for j m' t
    proof -
      from that have "j \<noteq> i" and m': "hget msgs j = Some m'" by (auto split: if_splits)
      with msgs_ok_slot [OF ok m] msgs_ok_slot [OF ok m'] that(2) show ?thesis
        by (auto simp: lookup)
    qed
    show "\<exists>m'. hget (hremove i msgs) j = Some m' \<and> m_uaid m' = u \<and> m_channel_id m' = c
             \<and> m_topic m' = Some t" if "hget ?topics (u, c, t) = Some j" for u c t j
    proof -
      from that have "hget topics (u, c, t) = Some j"
        and other: "\<not> (m_topic m = Some t \<and> m_uaid m = u \<and> m_channel_id m = c)"
        by (auto simp: lookup split: if_splits)
      then obtain m' where "hget msgs j = Some m'" "m_uaid m' = u" "m_channel_id m' = c"
          "m_topic m' = Some t"
        using msgs_ok_topic [OF ok] by blast
      with other m show ?thesis by (cases "j = i") auto
    qed
  qed
qed

lemma remove_message_inv: "mem_inv s \<Longrightarrow> mem_inv (snd (remove_message i s))"
proof (cases "hget (st_messages s) i")
  case None
  then show "mem_inv s \<Longrightarrow> ?thesis" by (simp add: remove_message_None)
next
  case (Some m)
  then show "mem_inv s \<Longrightarrow> ?thesis"
    by (simp add: mem_inv_def remove_message_Some msgs_ok_remove)
qed


section \<open>What a removal does\<close>

text \<open>
  \<open>dropped P\<close> relates the store before and after a removal of the messages that satisfy
  \<open>P\<close>: exactly those are gone, each of them that asked for a receipt of a receipt
  subscription that still exists is owed exactly one 410, numbered in increasing order
  past every number issued before, and each 410 is at the end of its queue.
\<close>

definition owes :: "state \<Rightarrow> (message \<Rightarrow> bool) \<Rightarrow> receipt \<Rightarrow> bool" where
  "owes s P r \<longleftrightarrow> (\<exists>i m rsub. hget (st_messages s) i = Some m \<and> P m \<and> m_rsub m = Some rsub \<and>
     hget (st_receipts s) rsub \<noteq> None \<and> r = receipt_410 rsub m)"

definition numbered :: "world \<Rightarrow> (u64 \<times> receipt) list \<Rightarrow> world \<Rightarrow> bool" where
  "numbered w rs w' \<longleftrightarrow> sorted_wrt (<) (wl_last w # map fst rs) \<and>
     wl_last w' = last (wl_last w # map fst rs)"

definition enqueued :: "state \<Rightarrow> (u64 \<times> receipt) list \<Rightarrow> state \<Rightarrow> bool" where
  "enqueued s rs s' \<longleftrightarrow> (\<forall>rsub. hget (st_receipts s') rsub =
     map_option (\<lambda>q. q @ filter (\<lambda>x. rc_rsub (snd x) = rsub) rs) (hget (st_receipts s) rsub))"

definition msgs_dropped :: "(message \<Rightarrow> bool) \<Rightarrow> state \<Rightarrow> state \<Rightarrow> bool" where
  "msgs_dropped P s s' \<longleftrightarrow> (\<forall>i. hget (st_messages s') i =
     (case hget (st_messages s) i of None \<Rightarrow> None | Some m \<Rightarrow> if P m then None else Some m))"

definition dropped ::
  "(message \<Rightarrow> bool) \<Rightarrow> state \<times> world \<Rightarrow> (u64 \<times> receipt) list \<Rightarrow> state \<times> world \<Rightarrow> bool" where
  "dropped P sw rs sw' \<longleftrightarrow>
     msgs_dropped P (fst sw) (fst sw') \<and>
     (\<forall>r. r \<in> snd ` set rs \<longleftrightarrow> owes (fst sw) P r) \<and>
     distinct (map (\<lambda>x. rc_msg_id (snd x)) rs) \<and>
     numbered (snd sw) rs (snd sw') \<and>
     enqueued (fst sw) rs (fst sw')"

text \<open>The state a removal leaves is coherent and has room for what is still stored.\<close>

definition removal ::
  "(message \<Rightarrow> bool) \<Rightarrow> state \<times> world \<Rightarrow> (u64 \<times> receipt) list \<Rightarrow> state \<times> world \<Rightarrow> bool" where
  "removal P sw rs sw' \<longleftrightarrow> mem_ok sw' \<and> room sw' \<and> dropped P sw rs sw' \<and>
     st_routes (fst sw') = st_routes (fst sw)"

lemma mem_ok_msgs: "mem_ok sw \<Longrightarrow> msgs_ok (st_messages (fst sw)) (st_topics (fst sw))"
  by (simp add: mem_ok_def mem_inv_def)

lemma numbered_Nil [simp]: "numbered w [] w' \<longleftrightarrow> wl_last w' = wl_last w"
  by (auto simp: numbered_def)

lemma numbered_trans:
  assumes "numbered w rs w'" and "numbered w' rs' w''"
  shows "numbered w (rs @ rs') w''"
  using assms sorted_wrt_less_join [of "wl_last w" "map fst rs" "map fst rs'"]
  by (simp only: numbered_def map_append)

lemma enqueued_refl [simp]: "enqueued s [] s"
  by (simp add: enqueued_def option.map_ident)

lemma enqueued_trans: "enqueued s rs s' \<Longrightarrow> enqueued s' rs' s'' \<Longrightarrow> enqueued s (rs @ rs') s''"
  by (auto simp: enqueued_def option.map_comp comp_def)

lemma enqueued_dom: "enqueued s rs s' \<Longrightarrow> hget (st_receipts s') r = None \<longleftrightarrow> hget (st_receipts s) r = None"
  by (simp add: enqueued_def)

lemma msgs_dropped_trans:
  "msgs_dropped P s s' \<Longrightarrow> msgs_dropped Q s' s'' \<Longrightarrow> msgs_dropped (\<lambda>m. P m \<or> Q m) s s''"
  by (auto simp: msgs_dropped_def split: option.splits)

lemma msgs_dropped_Some:
  "msgs_dropped P s s' \<Longrightarrow>
   hget (st_messages s') i = Some m \<longleftrightarrow> hget (st_messages s) i = Some m \<and> \<not> P m"
  by (auto simp: msgs_dropped_def split: option.splits)

lemma owes_trans:
  assumes "msgs_dropped P s s'" and "enqueued s rs s'"
  shows "owes s (\<lambda>m. P m \<or> Q m) r \<longleftrightarrow> owes s P r \<or> owes s' Q r"
  unfolding owes_def
  by (simp only: msgs_dropped_Some [OF assms(1)] enqueued_dom [OF assms(2)]) blast

lemma owes_msg_id:
  assumes "msgs_ok (st_messages s) (st_topics s)" and "owes s P r"
  shows "\<exists>m. hget (st_messages s) (rc_msg_id r) = Some m \<and> P m"
  using assms unfolding owes_def receipt_410_def by (auto dest: msgs_ok_id)

lemma dropped_trans:
  assumes ok: "mem_ok sw" and ok': "mem_ok sw'"
    and P: "dropped P sw rs sw'" and Q: "dropped Q sw' rs' sw''"
  shows "dropped (\<lambda>m. P m \<or> Q m) sw (rs @ rs') sw''"
proof -
  from P have P': "msgs_dropped P (fst sw) (fst sw')" "numbered (snd sw) rs (snd sw')"
      "enqueued (fst sw) rs (fst sw')" "\<And>r. r \<in> snd ` set rs \<longleftrightarrow> owes (fst sw) P r"
      "distinct (map (\<lambda>x. rc_msg_id (snd x)) rs)"
    by (auto simp: dropped_def)
  from Q have Q': "msgs_dropped Q (fst sw') (fst sw'')" "numbered (snd sw') rs' (snd sw'')"
      "enqueued (fst sw') rs' (fst sw'')" "\<And>r. r \<in> snd ` set rs' \<longleftrightarrow> owes (fst sw') Q r"
      "distinct (map (\<lambda>x. rc_msg_id (snd x)) rs')"
    by (auto simp: dropped_def)
  have "rc_msg_id (snd x) \<noteq> rc_msg_id (snd y)" if "x \<in> set rs" and "y \<in> set rs'" for x y
  proof
    assume eq: "rc_msg_id (snd x) = rc_msg_id (snd y)"
    have "owes (fst sw) P (snd x)" and "owes (fst sw') Q (snd y)"
      using that P'(4) Q'(4) by auto
    then obtain m m' where "hget (st_messages (fst sw)) (rc_msg_id (snd x)) = Some m" "P m"
        and "hget (st_messages (fst sw')) (rc_msg_id (snd y)) = Some m'"
      using owes_msg_id mem_ok_msgs ok ok' by meson
    with eq msgs_dropped_Some [OF P'(1)] show False by auto
  qed
  then have "distinct (map (\<lambda>x. rc_msg_id (snd x)) (rs @ rs'))"
    using P'(5) Q'(5) by auto
  moreover have "r \<in> snd ` set (rs @ rs') \<longleftrightarrow> owes (fst sw) (\<lambda>m. P m \<or> Q m) r" for r
    using P'(4) Q'(4) owes_trans [OF P'(1,3)] by (auto simp: image_Un)
  ultimately show ?thesis
    using msgs_dropped_trans [OF P'(1) Q'(1)] numbered_trans [OF P'(2) Q'(2)]
      enqueued_trans [OF P'(3) Q'(3)] by (simp add: dropped_def)
qed

lemma removal_trans:
  assumes "mem_ok sw" and "removal P sw rs sw'" and "removal Q sw' rs' sw''"
  shows "removal (\<lambda>m. P m \<or> Q m) sw (rs @ rs') sw''"
  using assms dropped_trans unfolding removal_def by fastforce

lemma dropped_cong:
  assumes "dropped P sw rs sw'"
    and "\<And>i m. hget (st_messages (fst sw)) i = Some m \<Longrightarrow> P m = Q m"
  shows "dropped Q sw rs sw'"
proof -
  have "owes (fst sw) P r = owes (fst sw) Q r" for r
    unfolding owes_def using assms(2) by blast
  moreover have "msgs_dropped P (fst sw) (fst sw') = msgs_dropped Q (fst sw) (fst sw')"
    unfolding msgs_dropped_def using assms(2) by (auto split: option.splits)
  ultimately show ?thesis using assms(1) by (simp add: dropped_def)
qed

lemma removal_cong:
  assumes "removal P sw rs sw'"
    and "\<And>i m. hget (st_messages (fst sw)) i = Some m \<Longrightarrow> P m = Q m"
  shows "removal Q sw rs sw'"
  using assms dropped_cong unfolding removal_def by blast

lemma removal_refl:
  assumes "mem_ok sw" and "room sw"
    and "\<And>i m. hget (st_messages (fst sw)) i = Some m \<Longrightarrow> \<not> P m"
  shows "removal P sw [] sw"
  using assms unfolding removal_def dropped_def msgs_dropped_def owes_def
  by (auto split: option.splits)


section \<open>One message, then a list of messages\<close>

definition same_owners :: "state \<Rightarrow> state \<Rightarrow> bool" where
  "same_owners s s' \<longleftrightarrow> st_user_agents s' = st_user_agents s \<and>
     st_channels s' = st_channels s \<and> st_push s' = st_push s"

lemma same_owners_refl [simp]: "same_owners s s"
  by (simp add: same_owners_def)

lemma same_owners_trans: "same_owners s s' \<Longrightarrow> same_owners s' s'' \<Longrightarrow> same_owners s s''"
  by (simp add: same_owners_def)

lemma owe_410_nothing:
  assumes "\<And>rsub. m_rsub m = Some rsub \<Longrightarrow> hget (st_receipts s) rsub = None"
  shows "owe_410 m (s, w) = (None, s, w)"
  using assms by (simp add: owe_410_def split: option.split)

lemma owe_410_queued:
  assumes "m_rsub m = Some rsub" and "hget (st_receipts s) rsub = Some q"
    and "queue_bound s w" and "seq_room (Suc n) w"
  shows "\<exists>seq w'. owe_410 m (s, w) = (Some (seq, receipt_410 rsub m),
           s\<lparr>st_receipts := hinsert rsub (q @ [(seq, receipt_410 rsub m)]) (st_receipts s)\<rparr>, w')
         \<and> wl_last w < seq \<and> wl_last w' = seq \<and> seq_room n w'"
proof -
  obtain seq w' where seq: "next_seq w = (seq, w')" by fastforce
  note greater = next_seq_greater [OF assms(4) seq]
  have "k < seq" if "k \<in> fst ` set q" for k
    using assms(2,3) that greater(1) unfolding queue_bound_def by fastforce
  then have "bt_insert seq (receipt_410 rsub m) q = q @ [(seq, receipt_410 rsub m)]"
    by (rule bt_insert_append)
  with assms(1,2) seq greater show ?thesis
    by (simp add: owe_410_def Let_def)
qed

lemma queues_ok_append:
  assumes "queues_ok qs" and "hget qs rsub = Some q" and "rc_rsub r = rsub"
    and "\<And>k. k \<in> fst ` set q \<Longrightarrow> k < seq"
  shows "queues_ok (hinsert rsub (q @ [(seq, r)]) qs)"
  using assms unfolding queues_ok_def by (auto simp: sorted_wrt_append split: if_splits)

lemma owe_410_ok:
  assumes ok: "mem_ok (s, w)" and room: "seq_room (Suc n) w"
  shows "\<exists>rs s' w'. owe_410 m (s, w) = (rs, s', w') \<and> mem_ok (s', w') \<and> seq_room n w' \<and>
     st_messages s' = st_messages s \<and> st_topics s' = st_topics s \<and> st_routes s' = st_routes s \<and>
     same_owners s s' \<and>
     numbered w (case rs of None \<Rightarrow> [] | Some x \<Rightarrow> [x]) w' \<and>
     enqueued s (case rs of None \<Rightarrow> [] | Some x \<Rightarrow> [x]) s' \<and>
     (case rs of
        None \<Rightarrow> (\<forall>rsub. m_rsub m = Some rsub \<longrightarrow> hget (st_receipts s) rsub = None)
      | Some x \<Rightarrow> \<exists>rsub. m_rsub m = Some rsub \<and> hget (st_receipts s) rsub \<noteq> None \<and>
                    snd x = receipt_410 rsub m)"
proof (cases "\<exists>rsub q. m_rsub m = Some rsub \<and> hget (st_receipts s) rsub = Some q")
  case False
  then have "owe_410 m (s, w) = (None, s, w)" by (intro owe_410_nothing) auto
  with False ok room show ?thesis by (auto intro: seq_room_mono)
next
  case True
  then obtain rsub q where m: "m_rsub m = Some rsub" and q: "hget (st_receipts s) rsub = Some q"
    by blast
  have inv: "mem_inv s" and bound: "queue_bound s w" using ok by (auto simp: mem_ok_def)
  from owe_410_queued [OF m q bound room] obtain seq w' where
    owe: "owe_410 m (s, w) = (Some (seq, receipt_410 rsub m),
      s\<lparr>st_receipts := hinsert rsub (q @ [(seq, receipt_410 rsub m)]) (st_receipts s)\<rparr>, w')"
      (is "_ = (Some ?x, ?s', _)")
    and seq: "wl_last w < seq" "wl_last w' = seq" "seq_room n w'" by blast
  have below: "k < seq" if "k \<in> fst ` set q" for k
    using bound q that seq(1) unfolding queue_bound_def by fastforce
  have "queues_ok (st_receipts ?s')"
    using inv q below by (simp add: mem_inv_def queues_ok_append receipt_410_def)
  then have "mem_inv ?s'" using inv by (simp add: mem_inv_def)
  moreover have "queue_bound ?s' w'"
    using bound seq below unfolding queue_bound_def
    by (auto simp: less_imp_le split: if_splits) (metis fst_conv image_eqI less_imp_le order_trans)
  ultimately have "mem_ok (?s', w')" by (simp add: mem_ok_def)
  moreover have "enqueued s [?x] ?s'"
    using q by (auto simp: enqueued_def receipt_410_def option.map_ident)
  moreover have "numbered w [?x] w'" using seq by (simp add: numbered_def)
  moreover have "same_owners s ?s'" by (simp add: same_owners_def)
  ultimately show ?thesis using owe m q seq(3) by auto
qed

lemma mem_ok_remove_message: "mem_ok (s, w) \<Longrightarrow> mem_ok (snd (remove_message i s), w)"
  by (simp add: mem_ok_def remove_message_inv queue_bound_def)

lemma remove_one:
  assumes ok: "mem_ok (s, w)" and room: "room (s, w)" and m: "hget (st_messages s) i = Some m"
    and owe: "owe_410 m (snd (remove_message i s), w) = (r, sw')"
  shows "removal (\<lambda>m. m_id m = i) (s, w) (case r of None \<Rightarrow> [] | Some x \<Rightarrow> [x]) sw'"
    and "same_owners s (fst sw')"
proof -
  let ?s1 = "snd (remove_message i s)"
  have msgs: "msgs_ok (st_messages s) (st_topics s)" using ok by (simp add: mem_ok_def mem_inv_def)
  have len: "Suc (length (hremove i (st_messages s))) = length (st_messages s)"
    using msgs_ok_distinct [OF msgs] m by (simp add: length_hremove)
  then have room1: "seq_room (Suc (length (hremove i (st_messages s)))) w"
    using room by (simp add: room_def)
  from owe_410_ok [OF mem_ok_remove_message [OF ok, of i] room1, of m] owe
  obtain s' w' where sw': "sw' = (s', w')" and ok': "mem_ok (s', w')"
    and room': "seq_room (length (hremove i (st_messages s))) w'"
    and msgs': "st_messages s' = hremove i (st_messages s)" and routes: "st_routes s' = st_routes s"
    and owners: "same_owners ?s1 s'"
    and num: "numbered w (case r of None \<Rightarrow> [] | Some x \<Rightarrow> [x]) w'"
    and enq: "enqueued ?s1 (case r of None \<Rightarrow> [] | Some x \<Rightarrow> [x]) s'"
    and r: "case r of None \<Rightarrow> (\<forall>rsub. m_rsub m = Some rsub \<longrightarrow> hget (st_receipts ?s1) rsub = None)
      | Some x \<Rightarrow> \<exists>rsub. m_rsub m = Some rsub \<and> hget (st_receipts ?s1) rsub \<noteq> None \<and>
                    snd x = receipt_410 rsub m"
    by (auto simp: remove_message_Some [OF m])
  have id: "m_id m' = j" if "hget (st_messages s) j = Some m'" for j m'
    using msgs_ok_id [OF msgs that] .
  have dropped: "msgs_dropped (\<lambda>m. m_id m = i) s s'"
    by (auto simp: msgs_dropped_def msgs' id split: option.split)
  have "owes s (\<lambda>m. m_id m = i) x \<longleftrightarrow>
      (\<exists>rsub. m_rsub m = Some rsub \<and> hget (st_receipts s) rsub \<noteq> None \<and> x = receipt_410 rsub m)" for x
  proof
    assume "owes s (\<lambda>m. m_id m = i) x"
    then obtain j m' rsub where "hget (st_messages s) j = Some m'" "m_id m' = i"
        "m_rsub m' = Some rsub" "hget (st_receipts s) rsub \<noteq> None" "x = receipt_410 rsub m'"
      unfolding owes_def by blast
    with id m show "\<exists>rsub. m_rsub m = Some rsub \<and> hget (st_receipts s) rsub \<noteq> None \<and>
        x = receipt_410 rsub m" by auto
  qed (use id [OF m] m in \<open>auto simp: owes_def\<close>)
  then have owed: "x \<in> snd ` set (case r of None \<Rightarrow> [] | Some x \<Rightarrow> [x]) \<longleftrightarrow>
      owes s (\<lambda>m. m_id m = i) x" for x
    using r by (cases r) auto
  have enq': "enqueued s (case r of None \<Rightarrow> [] | Some x \<Rightarrow> [x]) s'"
    using enq by (simp add: enqueued_def)
  have "distinct (map (\<lambda>x. rc_msg_id (snd x)) (case r of None \<Rightarrow> [] | Some x \<Rightarrow> [x]))"
    by (cases r) simp_all
  with dropped owed enq' num ok' room' msgs' routes
  show "removal (\<lambda>m. m_id m = i) (s, w) (case r of None \<Rightarrow> [] | Some x \<Rightarrow> [x]) sw'"
    unfolding removal_def dropped_def room_def sw' fst_conv snd_conv by simp
  show "same_owners s (fst sw')"
    using owners sw' by (simp add: same_owners_def)
qed

lemma remove_owing_removal:
  assumes "mem_ok (s, w)" and "room (s, w)" and "remove_owing is (s, w) = (rs, sw')"
  shows "removal (\<lambda>m. m_id m \<in> set is) (s, w) rs sw' \<and> same_owners s (fst sw')"
  using assms
proof (induction "is" arbitrary: s w rs sw')
  case Nil
  then show ?case by (auto intro: removal_refl)
next
  case (Cons i "is")
  have id: "m_id m = j" if "hget (st_messages s) j = Some m" for j m
    using msgs_ok_id [OF mem_ok_msgs [OF Cons.prems(1)]] that by simp
  show ?case
  proof (cases "hget (st_messages s) i")
    case None
    with Cons.prems(3) have "remove_owing is (s, w) = (rs, sw')"
      by (simp add: remove_message_None)
    with Cons.IH Cons.prems have IH: "removal (\<lambda>m. m_id m \<in> set is) (s, w) rs sw' \<and> same_owners s (fst sw')"
      by blast
    have "m_id m \<in> set is \<longleftrightarrow> m_id m \<in> set (i # is)" if "hget (st_messages s) j = Some m" for j m
      using id [OF that] that None by auto
    then have "removal (\<lambda>m. m_id m \<in> set (i # is)) (s, w) rs sw'"
      by (intro removal_cong [OF conjunct1 [OF IH]]) simp
    with IH show ?thesis by simp
  next
    case (Some m)
    obtain r s1 w1 where owe: "owe_410 m (snd (remove_message i s), w) = (r, s1, w1)"
      using prod_cases3 by blast
    obtain rs' where rest: "remove_owing is (s1, w1) = (rs', sw')"
      and rs: "rs = (case r of None \<Rightarrow> [] | Some x \<Rightarrow> [x]) @ rs'"
      using Cons.prems(3) owe remove_message_Some(1) [OF Some]
      by (auto simp: Let_def split: prod.splits)
    note one = remove_one [OF Cons.prems(1,2) Some owe]
    then have "mem_ok (s1, w1)" and "room (s1, w1)" by (simp_all add: removal_def)
    from Cons.IH [OF this rest] removal_trans [OF Cons.prems(1) one(1)] one(2) rs
    have "removal (\<lambda>m. m_id m = i \<or> m_id m \<in> set is) (s, w) rs sw'" and "same_owners s (fst sw')"
      by (auto intro: same_owners_trans)
    moreover have "(\<lambda>m. m_id m = i \<or> m_id m \<in> set is) = (\<lambda>m. m_id m \<in> set (i # is))" by auto
    ultimately show ?thesis by simp
  qed
qed

end
