(* ===== verification/Memory_Removal.thy ===== *)
theory Memory_Removal
  imports Memory_Store
begin

text \<open>
  What \<open>delete_subscription\<close>, \<open>delete_user_agent\<close>, \<open>expire_user_agents\<close> and \<open>reap\<close> of the
  in-memory adapter do: which messages go, which receipts they owe, and that the maps
  stay coherent.
\<close>

section \<open>Removing subscriptions and user agents\<close>

lemma stored_unique:
  assumes "msgs_ok msgs topics" and "hget msgs i = Some m" and "hget msgs j = Some m'"
    and "m_id m' = m_id m"
  shows "m' = m"
proof -
  have "m_id m = i" and "m_id m' = j"
    using msgs_ok_id [OF assms(1)] assms(2,3) by blast+
  with assms(4) have "j = i" by simp
  with assms(2,3) show ?thesis by simp
qed

lemma collected_ids:
  assumes ord: "is_order ord" and ok: "msgs_ok msgs topics" and m: "hget msgs i = Some m"
  shows "m_id m \<in> set (map m_id (filter P (hvalues ord msgs))) \<longleftrightarrow> P m"
proof -
  have vals: "x \<in> set (hvalues ord msgs) \<longleftrightarrow> (\<exists>k. hget msgs k = Some x)" for x
    by (rule set_hvalues_iff [OF ord conjunct1 [OF msgs_ok_distinct [OF ok]]])
  show ?thesis
  proof
    assume "m_id m \<in> set (map m_id (filter P (hvalues ord msgs)))"
    then obtain x where "x \<in> set (filter P (hvalues ord msgs))" and id: "m_id m = m_id x"
      unfolding set_map by (rule imageE)
    then have "P x" and "x \<in> set (hvalues ord msgs)" unfolding set_filter by blast+
    then obtain k where "hget msgs k = Some x" using vals by blast
    with stored_unique [OF ok m this] id \<open>P x\<close> show "P m" by simp
  next
    assume "P m"
    with m vals have "m \<in> set (filter P (hvalues ord msgs))" unfolding set_filter by blast
    then show "m_id m \<in> set (map m_id (filter P (hvalues ord msgs)))"
      unfolding set_map by (rule imageI)
  qed
qed

lemma subs_okI:
  assumes "hdistinct chans" and "hdistinct pushes"
    and "\<And>k sub. hget chans k = Some sub \<Longrightarrow> (sub_uaid sub, sub_channel_id sub) = k"
    and "\<And>k sub. hget chans k = Some sub \<Longrightarrow> hget pushes (sub_push sub) = Some k"
    and "\<And>p k. hget pushes p = Some k \<Longrightarrow> \<exists>sub. hget chans k = Some sub \<and> sub_push sub = p"
  shows "subs_ok chans pushes"
  using assms unfolding subs_ok_def by blast

lemma subs_ok_distinct: "subs_ok chans pushes \<Longrightarrow> hdistinct chans \<and> hdistinct pushes"
  by (simp add: subs_ok_def)

lemma subs_ok_key:
  "subs_ok chans pushes \<Longrightarrow> hget chans k = Some sub \<Longrightarrow> (sub_uaid sub, sub_channel_id sub) = k"
  unfolding subs_ok_def by blast

lemma subs_ok_push:
  "subs_ok chans pushes \<Longrightarrow> hget chans k = Some sub \<Longrightarrow> hget pushes (sub_push sub) = Some k"
  unfolding subs_ok_def by blast

lemma subs_ok_channel:
  "subs_ok chans pushes \<Longrightarrow> hget pushes p = Some k \<Longrightarrow> \<exists>sub. hget chans k = Some sub \<and> sub_push sub = p"
  unfolding subs_ok_def by blast

lemma subs_ok_remove:
  assumes ok: "subs_ok chans pushes" and sub: "hget chans k = Some sub"
  shows "subs_ok (hremove k chans) (hremove (sub_push sub) pushes)"
proof (rule subs_okI)
  show "hdistinct (hremove k chans)" and "hdistinct (hremove (sub_push sub) pushes)"
    using subs_ok_distinct [OF ok] by simp_all
  show "(sub_uaid sub', sub_channel_id sub') = k'" if "hget (hremove k chans) k' = Some sub'" for k' sub'
    using that subs_ok_key [OF ok] by (auto split: if_splits)
  show "hget (hremove (sub_push sub) pushes) (sub_push sub') = Some k'"
    if "hget (hremove k chans) k' = Some sub'" for k' sub'
  proof -
    from that have "k' \<noteq> k" and sub': "hget chans k' = Some sub'" by (auto split: if_splits)
    with subs_ok_push [OF ok sub'] subs_ok_push [OF ok sub] show ?thesis by auto
  qed
  show "\<exists>sub'. hget (hremove k chans) k' = Some sub' \<and> sub_push sub' = p"
    if "hget (hremove (sub_push sub) pushes) p = Some k'" for p k'
  proof -
    from that have "p \<noteq> sub_push sub" and "hget pushes p = Some k'" by (auto split: if_splits)
    then obtain sub' where "hget chans k' = Some sub'" and "sub_push sub' = p"
      using subs_ok_channel [OF ok] by blast
    with \<open>p \<noteq> sub_push sub\<close> sub show ?thesis by auto
  qed
qed

lemma removal_start:
  assumes "st_messages s1 = st_messages s" and "st_receipts s1 = st_receipts s"
    and "st_routes s1 = st_routes s"
  shows "removal P (s1, w) rs sw' = removal P (s, w) rs sw'"
  using assms
  by (simp add: removal_def dropped_def msgs_dropped_def owes_def enqueued_def)

text \<open>The messages of one channel that is registered.\<close>

definition of_channel :: "state \<Rightarrow> string \<Rightarrow> string \<Rightarrow> message \<Rightarrow> bool" where
  "of_channel s u c m \<longleftrightarrow> hget (st_channels s) (u, c) \<noteq> None \<and> m_uaid m = u \<and> m_channel_id m = c"

lemma remove_subscription_removal:
  assumes ok: "mem_ok (s, w)" and room: "room (s, w)" and ord: "is_order ord"
    and run: "remove_subscription ord u c (s, w) = (rs, sw')"
  shows "removal (of_channel s u c) (s, w) rs sw'"
    and "st_channels (fst sw') = hremove (u, c) (st_channels s)"
    and "st_user_agents (fst sw') = st_user_agents s"
proof -
  have inv: "mem_inv s" using ok by (simp add: mem_ok_def)
  have "removal (of_channel s u c) (s, w) rs sw' \<and>
    st_channels (fst sw') = hremove (u, c) (st_channels s) \<and>
    st_user_agents (fst sw') = st_user_agents s"
  proof (cases "hget (st_channels s) (u, c)")
    case None
    with run have "rs = []" and "sw' = (s, w)" by (simp_all add: remove_subscription_def)
    with None ok room show ?thesis
      by (auto simp: hremove_absent of_channel_def intro: removal_refl)
  next
    case (Some sub)
    let ?s1 = "s\<lparr>st_channels := hremove (u, c) (st_channels s),
                 st_push := hremove (sub_push sub) (st_push s)\<rparr>"
    let ?ids = "map m_id (filter (\<lambda>m. m_uaid m = u \<and> m_channel_id m = c)
                  (hvalues ord (st_messages s)))"
    from run Some have loop: "remove_owing ?ids (?s1, w) = (rs, sw')"
      by (simp add: remove_subscription_def Let_def)
    have "mem_ok (?s1, w)"
      using ok Some subs_ok_remove [of "st_channels s" "st_push s" "(u, c)" sub]
      by (simp add: mem_ok_def mem_inv_def queue_bound_def)
    moreover have "room (?s1, w)" using room by (simp add: room_def)
    ultimately have rem: "removal (\<lambda>m. m_id m \<in> set ?ids) (?s1, w) rs sw'" "same_owners ?s1 (fst sw')"
      using remove_owing_removal loop by blast+
    have msgs: "msgs_ok (st_messages s) (st_topics s)" using inv by (simp add: mem_inv_def)
    have "m_id m \<in> set ?ids \<longleftrightarrow> of_channel s u c m" if m: "hget (st_messages s) i = Some m" for i m
      unfolding collected_ids [OF ord msgs m] using Some by (simp add: of_channel_def)
    then have "removal (of_channel s u c) (s, w) rs sw'"
      using rem(1) by (simp only: removal_start [of ?s1 s, simplified]) (erule removal_cong, simp only: fst_conv)
    with rem(2) show ?thesis by (simp add: same_owners_def)
  qed
  then show "removal (of_channel s u c) (s, w) rs sw'"
    and "st_channels (fst sw') = hremove (u, c) (st_channels s)"
    and "st_user_agents (fst sw') = st_user_agents s" by blast+
qed

lemma remove_subscriptions_removal:
  assumes "mem_ok (s, w)" and "room (s, w)" and "is_order ord"
    and "remove_subscriptions ord u chs (s, w) = (rs, sw')"
  shows "removal (\<lambda>m. \<exists>c\<in>set chs. of_channel s u c m) (s, w) rs sw' \<and>
    (\<forall>k. hget (st_channels (fst sw')) k =
       (if fst k = u \<and> snd k \<in> set chs then None else hget (st_channels s) k)) \<and>
    st_user_agents (fst sw') = st_user_agents s"
  using assms
proof (induction chs arbitrary: s w rs sw')
  case Nil
  then show ?case by (auto intro: removal_refl)
next
  case (Cons c chs)
  obtain rs1 s1 w1 where first: "remove_subscription ord u c (s, w) = (rs1, s1, w1)"
    using prod_cases3 by blast
  obtain rs2 where rest: "remove_subscriptions ord u chs (s1, w1) = (rs2, sw')" and rs: "rs = rs1 @ rs2"
    using Cons.prems(4) first by (auto simp: Let_def split: prod.splits)
  note one = remove_subscription_removal [OF Cons.prems(1-3) first]
  then have "mem_ok (s1, w1)" and "room (s1, w1)" by (simp_all add: removal_def)
  note IH = Cons.IH [OF this Cons.prems(3) rest]
  have chans: "hget (st_channels s1) k = (if k = (u, c) then None else hget (st_channels s) k)" for k
    using one(2) by simp
  from removal_trans [OF Cons.prems(1) one(1) conjunct1 [OF IH]] rs
  have "removal (\<lambda>m. of_channel s u c m \<or> (\<exists>c\<in>set chs. of_channel s1 u c m)) (s, w) rs sw'" by simp
  moreover have "(\<lambda>m. of_channel s u c m \<or> (\<exists>c\<in>set chs. of_channel s1 u c m)) =
      (\<lambda>m. \<exists>c\<in>set (c # chs). of_channel s u c m)"
    by (auto simp: of_channel_def chans fun_eq_iff)
  ultimately have "removal (\<lambda>m. \<exists>c\<in>set (c # chs). of_channel s u c m) (s, w) rs sw'" by simp
  moreover have "st_user_agents (fst sw') = st_user_agents s" using IH one(3) by simp
  moreover have "hget (st_channels (fst sw')) k =
      (if fst k = u \<and> snd k \<in> set (c # chs) then None else hget (st_channels s) k)" for k
    using IH chans by (cases k) auto
  ultimately show ?case by blast
qed

text \<open>The messages on the registered channels of a user agent.\<close>

definition of_user_agent :: "state \<Rightarrow> string \<Rightarrow> message \<Rightarrow> bool" where
  "of_user_agent s u m \<longleftrightarrow> m_uaid m = u \<and> hget (st_channels s) (u, m_channel_id m) \<noteq> None"

lemma remove_user_agent_removal:
  assumes ok: "mem_ok (s, w)" and room: "room (s, w)" and ord: "is_order ord"
    and run: "remove_user_agent ord u (s, w) = (rs, sw')"
  shows "removal (of_user_agent s u) (s, w) rs sw'"
    and "hget (st_channels (fst sw')) k = (if fst k = u then None else hget (st_channels s) k)"
    and "st_user_agents (fst sw') = hremove u (st_user_agents s)"
proof -
  let ?s1 = "s\<lparr>st_user_agents := hremove u (st_user_agents s)\<rparr>"
  let ?chs = "map snd (filter (\<lambda>(u', _). u' = u) (hkeys ord (st_channels s)))"
  from run have loop: "remove_subscriptions ord u ?chs (?s1, w) = (rs, sw')"
    by (simp add: remove_user_agent_def Let_def)
  have "mem_ok (?s1, w)"
    using ok by (auto simp: mem_ok_def mem_inv_def uas_ok_def queue_bound_def split: if_splits)
  moreover have "room (?s1, w)" using room by (simp add: room_def)
  ultimately have rem: "removal (\<lambda>m. \<exists>c\<in>set ?chs. of_channel ?s1 u c m) (?s1, w) rs sw'"
      "\<And>k. hget (st_channels (fst sw')) k =
        (if fst k = u \<and> snd k \<in> set ?chs then None else hget (st_channels ?s1) k)"
      "st_user_agents (fst sw') = st_user_agents ?s1"
    using remove_subscriptions_removal [OF _ _ ord loop] by blast+
  have chs: "c \<in> set ?chs \<longleftrightarrow> hget (st_channels s) (u, c) \<noteq> None" for c
    using set_hkeys [OF ord, of "st_channels s"] hget_key_iff [of "(u, c)" "st_channels s"]
    by (force simp: image_iff)
  have "(\<lambda>m. \<exists>c\<in>set ?chs. of_channel ?s1 u c m) = of_user_agent s u"
    by (auto simp: fun_eq_iff of_channel_def of_user_agent_def chs simp del: set_map set_filter)
  with rem(1) show "removal (of_user_agent s u) (s, w) rs sw'"
    using removal_start [of ?s1 s] by simp
  show "hget (st_channels (fst sw')) k = (if fst k = u then None else hget (st_channels s) k)"
    using rem(2) [of k] chs [of "snd k"] by (cases k) (auto simp del: set_map set_filter)
  show "st_user_agents (fst sw') = hremove u (st_user_agents s)"
    using rem(3) by simp
qed

lemma remove_user_agents_removal:
  assumes "mem_ok (s, w)" and "room (s, w)" and "is_order ord"
    and "remove_user_agents ord us (s, w) = (rs, sw')"
  shows "removal (\<lambda>m. \<exists>u\<in>set us. of_user_agent s u m) (s, w) rs sw' \<and>
    (\<forall>k. hget (st_channels (fst sw')) k =
       (if fst k \<in> set us then None else hget (st_channels s) k)) \<and>
    (\<forall>u. hget (st_user_agents (fst sw')) u =
       (if u \<in> set us then None else hget (st_user_agents s) u))"
  using assms
proof (induction us arbitrary: s w rs sw')
  case Nil
  then show ?case by (auto intro: removal_refl)
next
  case (Cons u us)
  obtain rs1 s1 w1 where first: "remove_user_agent ord u (s, w) = (rs1, s1, w1)"
    using prod_cases3 by blast
  obtain rs2 where rest: "remove_user_agents ord us (s1, w1) = (rs2, sw')" and rs: "rs = rs1 @ rs2"
    using Cons.prems(4) first by (auto simp: Let_def split: prod.splits)
  note one = remove_user_agent_removal [OF Cons.prems(1-3) first]
  then have "mem_ok (s1, w1)" and "room (s1, w1)" by (simp_all add: removal_def)
  note IH = Cons.IH [OF this Cons.prems(3) rest]
  have chans: "hget (st_channels s1) k = (if fst k = u then None else hget (st_channels s) k)" for k
    using one(2) [of k] by simp
  from removal_trans [OF Cons.prems(1) one(1) conjunct1 [OF IH]] rs
  have "removal (\<lambda>m. of_user_agent s u m \<or> (\<exists>u\<in>set us. of_user_agent s1 u m)) (s, w) rs sw'" by simp
  moreover have "(\<lambda>m. of_user_agent s u m \<or> (\<exists>u\<in>set us. of_user_agent s1 u m)) =
      (\<lambda>m. \<exists>u\<in>set (u # us). of_user_agent s u m)"
    by (auto simp: of_user_agent_def chans fun_eq_iff)
  ultimately have "removal (\<lambda>m. \<exists>u\<in>set (u # us). of_user_agent s u m) (s, w) rs sw'" by simp
  moreover have "hget (st_channels (fst sw')) k =
      (if fst k \<in> set (u # us) then None else hget (st_channels s) k)" for k
    using IH chans by (cases k) auto
  moreover have "hget (st_user_agents (fst sw')) v =
      (if v \<in> set (u # us) then None else hget (st_user_agents s) v)" for v
    using IH one(3) by auto
  ultimately show ?case by blast
qed

lemma reap_removal:
  assumes ok: "mem_ok (s, w)" and room: "room (s, w)" and ord: "is_order ord"
    and run: "mem_reap ord now (s, w) = (rs, sw')"
  shows "removal (\<lambda>m. m_expiry m \<le> now) (s, w) rs sw'" and "same_owners s (fst sw')"
proof -
  let ?ids = "map m_id (filter (\<lambda>m. m_expiry m \<le> now) (hvalues ord (st_messages s)))"
  have "remove_owing ?ids (s, w) = (rs, sw')"
    using run by (simp add: mem_reap_def Let_def)
  from remove_owing_removal [OF ok room this]
  have rem: "removal (\<lambda>m. m_id m \<in> set ?ids) (s, w) rs sw'" and "same_owners s (fst sw')" by blast+
  then show "same_owners s (fst sw')" by blast
  have msgs: "msgs_ok (st_messages s) (st_topics s)" using mem_ok_msgs [OF ok] by simp
  have "m_id m \<in> set ?ids \<longleftrightarrow> m_expiry m \<le> now" if "hget (st_messages s) i = Some m" for i m
    by (rule collected_ids [OF ord msgs that])
  then show "removal (\<lambda>m. m_expiry m \<le> now) (s, w) rs sw'"
    by (intro removal_cong [OF rem]) simp
qed

end
