(* ===== verification/Store_Spec.thy ===== *)
theory Store_Spec
  imports Store_Types
begin

text \<open>
  What the documentation of the \<open>Store\<close> trait promises, independent of how an adapter
  lays its data out: a store is five maps, each operation a function (or, where the
  trait leaves an order open, a relation) on them. The locales at the end state the
  promises as the interface the handlers rely on; an adapter discharges them by an
  interpretation.
\<close>

section \<open>The abstract store\<close>

record spec =
  sp_uas :: "string \<Rightarrow> user_agent option"
  sp_subs :: "string \<times> string \<Rightarrow> subscription option"
  sp_msgs :: "string \<Rightarrow> message option"
  sp_queues :: "string \<Rightarrow> (u64 \<times> receipt) list option"
  sp_routes :: "recipient \<Rightarrow> string option"

definition empty_spec :: spec where
  "empty_spec = \<lparr>sp_uas = Map.empty, sp_subs = Map.empty, sp_msgs = Map.empty,
     sp_queues = Map.empty, sp_routes = Map.empty\<rparr>"

subsection \<open>User agents and subscriptions\<close>

definition spec_create_user_agent :: "user_agent \<Rightarrow> spec \<Rightarrow> spec" where
  "spec_create_user_agent ua sp = sp\<lparr>sp_uas := (sp_uas sp)(ua_uaid ua \<mapsto> ua)\<rparr>"

definition spec_touch_user_agent :: "string \<Rightarrow> u64 \<Rightarrow> spec \<Rightarrow> bool \<times> spec" where
  "spec_touch_user_agent u now sp =
     (case sp_uas sp u of
        None \<Rightarrow> (False, sp)
      | Some ua \<Rightarrow>
          (True, sp\<lparr>sp_uas := (sp_uas sp)(u \<mapsto> ua\<lparr>ua_last_seen := max (ua_last_seen ua) now\<rparr>)\<rparr>))"

definition spec_update_bridge_token :: "string \<Rightarrow> string \<Rightarrow> spec \<Rightarrow> bool \<times> spec" where
  "spec_update_bridge_token u token sp =
     (case sp_uas sp u of
        None \<Rightarrow> (False, sp)
      | Some ua \<Rightarrow>
          (case ua_bridge ua of
             None \<Rightarrow> (False, sp)
           | Some b \<Rightarrow>
               (True, sp\<lparr>sp_uas := (sp_uas sp)(u \<mapsto> ua\<lparr>ua_bridge := Some (b\<lparr>ba_token := token\<rparr>)\<rparr>)\<rparr>)))"

definition spec_by_push :: "string \<Rightarrow> spec \<Rightarrow> subscription option \<Rightarrow> bool" where
  "spec_by_push p sp r \<longleftrightarrow>
     (\<forall>sub. r = Some sub \<longleftrightarrow>
        sp_subs sp (sub_uaid sub, sub_channel_id sub) = Some sub \<and> sub_push sub = p)"

text \<open>A fresh push id: no subscription has it.\<close>

definition push_unused :: "string \<Rightarrow> spec \<Rightarrow> bool" where
  "push_unused p sp \<longleftrightarrow> (\<forall>k sub. sp_subs sp k = Some sub \<longrightarrow> sub_push sub \<noteq> p)"

definition spec_create_subscription :: "subscription \<Rightarrow> spec \<Rightarrow> spec" where
  "spec_create_subscription sub sp =
     sp\<lparr>sp_subs := (sp_subs sp)((sub_uaid sub, sub_channel_id sub) \<mapsto> sub)\<rparr>"

subsection \<open>Messages\<close>

text \<open>An undelivered message with the same topic on the same subscription is replaced.\<close>

definition replaces :: "message \<Rightarrow> message \<Rightarrow> bool" where
  "replaces m m' \<longleftrightarrow> m_topic m \<noteq> None \<and> m_topic m' = m_topic m \<and>
     m_uaid m' = m_uaid m \<and> m_channel_id m' = m_channel_id m"

definition spec_insert_message :: "message \<Rightarrow> spec \<Rightarrow> spec" where
  "spec_insert_message m sp =
     sp\<lparr>sp_msgs := (\<lambda>i. if i = m_id m then Some m
        else (case sp_msgs sp i of
                None \<Rightarrow> None
              | Some m' \<Rightarrow> if replaces m m' then None else Some m'))\<rparr>"

definition permits :: "(string \<times> string) option \<Rightarrow> message \<Rightarrow> bool" where
  "permits owner m \<longleftrightarrow>
     (case owner of None \<Rightarrow> True | Some (u, c) \<Rightarrow> m_uaid m = u \<and> m_channel_id m = c)"

definition spec_delete_message ::
  "string \<Rightarrow> (string \<times> string) option \<Rightarrow> spec \<Rightarrow> message option \<times> spec" where
  "spec_delete_message i owner sp =
     (case sp_msgs sp i of
        None \<Rightarrow> (None, sp)
      | Some m \<Rightarrow>
          if permits owner m then (Some m, sp\<lparr>sp_msgs := (sp_msgs sp)(i := None)\<rparr>) else (None, sp))"

definition deliverable :: "spec \<Rightarrow> string \<Rightarrow> u64 \<Rightarrow> message \<Rightarrow> bool" where
  "deliverable sp u now m \<longleftrightarrow> sp_msgs sp (m_id m) = Some m \<and> m_uaid m = u \<and> now < m_expiry m"

definition older :: "message \<Rightarrow> message \<Rightarrow> bool" where
  "older a b \<longleftrightarrow> (m_accepted a, m_id a) < (m_accepted b, m_id b)"

text \<open>\<open>pending\<close> is the first \<open>limit\<close> deliverable messages, oldest first.\<close>

definition spec_pending :: "spec \<Rightarrow> string \<Rightarrow> u64 \<Rightarrow> nat \<Rightarrow> message list \<Rightarrow> bool" where
  "spec_pending sp u now limit ms \<longleftrightarrow>
     (\<exists>backlog. set backlog = {m. deliverable sp u now m} \<and> sorted_wrt older backlog \<and>
        ms = take limit backlog)"

subsection \<open>Receipts\<close>

definition spec_owes :: "spec \<Rightarrow> (message \<Rightarrow> bool) \<Rightarrow> receipt \<Rightarrow> bool" where
  "spec_owes sp P r \<longleftrightarrow> (\<exists>i m rsub. sp_msgs sp i = Some m \<and> P m \<and> m_rsub m = Some rsub \<and>
     sp_queues sp rsub \<noteq> None \<and> r = \<lparr>rc_rsub = rsub, rc_msg_id = m_id m, rc_status = 410\<rparr>)"

definition spec_enqueue :: "(u64 \<times> receipt) list \<Rightarrow> spec \<Rightarrow> spec" where
  "spec_enqueue rs sp = sp\<lparr>sp_queues := (\<lambda>rsub.
     map_option (\<lambda>q. q @ filter (\<lambda>x. rc_rsub (snd x) = rsub) rs) (sp_queues sp rsub))\<rparr>"

definition spec_discard :: "(message \<Rightarrow> bool) \<Rightarrow> spec \<Rightarrow> spec" where
  "spec_discard P sp = sp\<lparr>sp_msgs := (\<lambda>i.
     case sp_msgs sp i of None \<Rightarrow> None | Some m \<Rightarrow> if P m then None else Some m)\<rparr>"

text \<open>
  Removing the messages that satisfy \<open>P\<close>: each that asked for a receipt of a receipt
  subscription that still exists owes exactly one 410, and no other receipt is made;
  they are numbered in increasing order, past every number issued before, and are at
  the end of their queues.
\<close>

definition spec_removal ::
  "(message \<Rightarrow> bool) \<Rightarrow> spec \<Rightarrow> u64 \<Rightarrow> (u64 \<times> receipt) list \<Rightarrow> spec \<Rightarrow> u64 \<Rightarrow> bool" where
  "spec_removal P sp l rs sp' l' \<longleftrightarrow>
     sp_msgs sp' = sp_msgs (spec_discard P sp) \<and>
     sp_queues sp' = sp_queues (spec_enqueue rs sp) \<and>
     sp_routes sp' = sp_routes sp \<and>
     (\<forall>r. r \<in> snd ` set rs \<longleftrightarrow> spec_owes sp P r) \<and>
     distinct (map (\<lambda>x. rc_msg_id (snd x)) rs) \<and>
     sorted_wrt (<) (l # map fst rs) \<and> l' = last (l # map fst rs)"

subsection \<open>Routes\<close>

definition spec_set_route :: "recipient \<Rightarrow> string \<Rightarrow> spec \<Rightarrow> string option \<times> spec" where
  "spec_set_route to node sp = (sp_routes sp to, sp\<lparr>sp_routes := (sp_routes sp)(to \<mapsto> node)\<rparr>)"

definition spec_clear_route :: "recipient \<Rightarrow> string \<Rightarrow> spec \<Rightarrow> bool \<times> spec" where
  "spec_clear_route to node sp =
     (if sp_routes sp to = Some node then (True, sp\<lparr>sp_routes := (sp_routes sp)(to := None)\<rparr>)
      else (False, sp))"

text \<open>A user agent not seen since \<open>cutoff\<close>.\<close>

definition stale :: "spec \<Rightarrow> u64 \<Rightarrow> string \<Rightarrow> bool" where
  "stale sp cutoff u \<longleftrightarrow> (\<exists>ua. sp_uas sp u = Some ua \<and> ua_last_seen ua < cutoff)"

section \<open>The interface\<close>

text \<open>
  An operation that returns: what holds between the state it starts in, its value and
  the state it leaves. An operation may fail instead; then nothing is promised.
\<close>

definition gives ::
  "('s, 'a) store_op \<Rightarrow> 's \<times> world \<Rightarrow> ('a \<Rightarrow> 's \<times> world \<Rightarrow> bool) \<Rightarrow> bool" where
  "gives f sw Q \<longleftrightarrow> (\<forall>x sw'. f sw = (Inr x, sw') \<longrightarrow> Q x sw')"

lemma givesD: "gives f sw Q \<Longrightarrow> f sw = (Inr x, sw') \<Longrightarrow> Q x sw'"
  unfolding gives_def by blast

lemma gives_mono: "gives f sw Q \<Longrightarrow> (\<And>x sw'. Q x sw' \<Longrightarrow> R x sw') \<Longrightarrow> gives f sw R"
  unfolding gives_def by blast

definition room_for :: "('s \<Rightarrow> spec) \<Rightarrow> 's \<times> world \<Rightarrow> bool" where
  "room_for view sw \<longleftrightarrow> (case sw of (s, w) \<Rightarrow> seq_room (card (dom (sp_msgs (view s)))) w)"

text \<open>What an operation may do to the clock, the randomness and the counter.\<close>

definition world_le :: "world \<Rightarrow> world \<Rightarrow> bool" where
  "world_le w w' \<longleftrightarrow> wl_clock w' = wl_clock w \<and> wl_entropy w' = wl_entropy w \<and>
     wl_reads w \<le> wl_reads w' \<and> wl_draws w \<le> wl_draws w' \<and> wl_last w \<le> wl_last w'"

lemma world_le_refl [simp]: "world_le w w"
  by (simp add: world_le_def)

lemma world_le_trans: "world_le w w' \<Longrightarrow> world_le w' w'' \<Longrightarrow> world_le w w''"
  by (auto simp: world_le_def)

lemma world_le_now: "now_ms w = (t, w') \<Longrightarrow> world_le w w'"
  by (auto simp: world_le_def now_ms_def Let_def)

lemma world_le_draw: "random_bytes n w = (bs, w') \<Longrightarrow> world_le w w'"
  by (auto simp: world_le_def random_bytes_def)

lemma world_le_new_id: "new_id b64 w = (i, w') \<Longrightarrow> world_le w w'"
  by (auto simp: new_id_def split: prod.splits dest: world_le_draw)

lemma world_le_new_uaid: "new_uaid w = (i, w') \<Longrightarrow> world_le w w'"
  by (auto simp: new_uaid_def split: prod.splits dest: world_le_draw)

locale store_view =
  fixes S :: "'s store" and view :: "'s \<Rightarrow> spec" and inv :: "'s \<times> world \<Rightarrow> bool"
  assumes inv_world: "inv (s, w) \<Longrightarrow> world_le w w' \<Longrightarrow> inv (s, w')"
    and msg_key: "inv sw \<Longrightarrow> sp_msgs (view (fst sw)) i = Some m \<Longrightarrow> m_id m = i"
    and sub_key: "inv sw \<Longrightarrow> sp_subs (view (fst sw)) (u, c) = Some sub \<Longrightarrow>
                    sub_uaid sub = u \<and> sub_channel_id sub = c"

locale route_store = store_view S view inv
  for S :: "'s store" and view :: "'s \<Rightarrow> spec" and inv :: "'s \<times> world \<Rightarrow> bool" +
  assumes set_route: "inv sw \<Longrightarrow> gives (so_set_route S to node) sw (\<lambda>r sw'. inv sw' \<and>
            world_le (snd sw) (snd sw') \<and> (r, view (fst sw')) = spec_set_route to node (view (fst sw)))"
    and route: "inv sw \<Longrightarrow> gives (so_route S to) sw (\<lambda>r sw'. inv sw' \<and>
            world_le (snd sw) (snd sw') \<and> r = sp_routes (view (fst sw)) to \<and> view (fst sw') = view (fst sw))"
    and clear_route: "inv sw \<Longrightarrow> gives (so_clear_route S to node) sw (\<lambda>r sw'. inv sw' \<and>
            world_le (snd sw) (snd sw') \<and> (r, view (fst sw')) = spec_clear_route to node (view (fst sw)))"

locale message_store = store_view S view inv
  for S :: "'s store" and view :: "'s \<Rightarrow> spec" and inv :: "'s \<times> world \<Rightarrow> bool" +
  assumes insert_message: "inv sw \<Longrightarrow> sp_msgs (view (fst sw)) (m_id m) = None \<Longrightarrow>
            gives (so_insert_message S m) sw (\<lambda>_ sw'. inv sw' \<and>
              world_le (snd sw) (snd sw') \<and> view (fst sw') = spec_insert_message m (view (fst sw)))"
    and pending: "inv sw \<Longrightarrow> gives (so_pending S u now limit) sw (\<lambda>ms sw'. inv sw' \<and>
            world_le (snd sw) (snd sw') \<and> spec_pending (view (fst sw)) u now limit ms \<and>
            view (fst sw') = view (fst sw))"
    and message: "inv sw \<Longrightarrow> gives (so_message S i) sw (\<lambda>r sw'. inv sw' \<and>
            world_le (snd sw) (snd sw') \<and> r = sp_msgs (view (fst sw)) i \<and> view (fst sw') = view (fst sw))"
    and delete_message: "inv sw \<Longrightarrow> gives (so_delete_message S i owner) sw (\<lambda>r sw'. inv sw' \<and>
            world_le (snd sw) (snd sw') \<and>
            (r, view (fst sw')) = spec_delete_message i owner (view (fst sw)))"

locale owner_store = store_view S view inv
  for S :: "'s store" and view :: "'s \<Rightarrow> spec" and inv :: "'s \<times> world \<Rightarrow> bool" +
  assumes create_user_agent: "inv sw \<Longrightarrow> gives (so_create_user_agent S ua) sw (\<lambda>_ sw'. inv sw' \<and>
            world_le (snd sw) (snd sw') \<and> view (fst sw') = spec_create_user_agent ua (view (fst sw)))"
    and user_agent: "inv sw \<Longrightarrow> gives (so_user_agent S u) sw (\<lambda>r sw'. inv sw' \<and>
            world_le (snd sw) (snd sw') \<and> r = sp_uas (view (fst sw)) u \<and> view (fst sw') = view (fst sw))"
    and touch_user_agent: "inv sw \<Longrightarrow> gives (so_touch_user_agent S u now) sw (\<lambda>r sw'. inv sw' \<and>
            world_le (snd sw) (snd sw') \<and>
            (r, view (fst sw')) = spec_touch_user_agent u now (view (fst sw)))"
    and update_bridge_token: "inv sw \<Longrightarrow> gives (so_update_bridge_token S u t) sw (\<lambda>r sw'. inv sw' \<and>
            world_le (snd sw) (snd sw') \<and>
            (r, view (fst sw')) = spec_update_bridge_token u t (view (fst sw)))"
    and subscriptions: "inv sw \<Longrightarrow> gives (so_subscriptions S u) sw (\<lambda>r sw'. inv sw' \<and>
            world_le (snd sw) (snd sw') \<and> view (fst sw') = view (fst sw) \<and> distinct r \<and>
            set r = {sub. sp_subs (view (fst sw)) (u, sub_channel_id sub) = Some sub})"
    and channel: "inv sw \<Longrightarrow> gives (so_channel S u c) sw (\<lambda>r sw'. inv sw' \<and>
            world_le (snd sw) (snd sw') \<and> r = sp_subs (view (fst sw)) (u, c) \<and>
            view (fst sw') = view (fst sw))"
    and subscription_by_push: "inv sw \<Longrightarrow> gives (so_subscription_by_push S p) sw (\<lambda>r sw'. inv sw' \<and>
            world_le (snd sw) (snd sw') \<and> spec_by_push p (view (fst sw)) r \<and>
            view (fst sw') = view (fst sw))"
    and create_subscription: "inv sw \<Longrightarrow> sp_subs (view (fst sw)) (u, c) = None \<Longrightarrow>
            gives (so_create_subscription S u c v) sw (\<lambda>sub sw'.
              sub_uaid sub = u \<and> sub_channel_id sub = c \<and> sub_vapid sub = v \<and>
              world_le (snd sw) (snd sw') \<and> (push_unused (sub_push sub) (view (fst sw)) \<longrightarrow>
                inv sw' \<and> view (fst sw') = spec_create_subscription sub (view (fst sw))))"

locale receipt_store = store_view S view inv
  for S :: "'s store" and view :: "'s \<Rightarrow> spec" and inv :: "'s \<times> world \<Rightarrow> bool" +
  assumes create_receipt_sub: "inv sw \<Longrightarrow> gives (so_create_receipt_sub S) sw (\<lambda>rsub sw'.
            world_le (snd sw) (snd sw') \<and> inv sw' \<and>
            view (fst sw') = (view (fst sw))\<lparr>sp_queues := (sp_queues (view (fst sw)))(rsub \<mapsto> [])\<rparr>)"
    and receipt_sub_exists: "inv sw \<Longrightarrow> gives (so_receipt_sub_exists S rsub) sw (\<lambda>r sw'. inv sw' \<and>
            world_le (snd sw) (snd sw') \<and> (r \<longleftrightarrow> sp_queues (view (fst sw)) rsub \<noteq> None) \<and>
            view (fst sw') = view (fst sw))"
    and delete_receipt_sub: "inv sw \<Longrightarrow> gives (so_delete_receipt_sub S rsub) sw (\<lambda>r sw'. inv sw' \<and>
            world_le (snd sw) (snd sw') \<and> (r \<longleftrightarrow> sp_queues (view (fst sw)) rsub \<noteq> None) \<and>
            view (fst sw') = (view (fst sw))\<lparr>sp_queues := (sp_queues (view (fst sw)))(rsub := None)\<rparr>)"
    and enqueue_receipt: "inv sw \<Longrightarrow> seq_room (Suc n) (snd sw) \<Longrightarrow>
            gives (so_enqueue_receipt S r) sw (\<lambda>x sw'. inv sw' \<and> world_le (snd sw) (snd sw') \<and>
              seq_room n (snd sw') \<and> (x \<noteq> None \<longleftrightarrow> sp_queues (view (fst sw)) (rc_rsub r) \<noteq> None) \<and>
              (\<forall>seq. x = Some seq \<longrightarrow> wl_last (snd sw) < seq) \<and>
              view (fst sw') = spec_enqueue (case x of None \<Rightarrow> [] | Some seq \<Rightarrow> [(seq, r)]) (view (fst sw)))"
    and queued_receipts: "inv sw \<Longrightarrow> gives (so_queued_receipts S rsub) sw (\<lambda>q sw'. inv sw' \<and>
            world_le (snd sw) (snd sw') \<and> view (fst sw') = view (fst sw) \<and> sorted_wrt (<) (map fst q) \<and>
            q = (case sp_queues (view (fst sw)) rsub of None \<Rightarrow> [] | Some q \<Rightarrow> q))"
    and delete_receipt: "inv sw \<Longrightarrow> gives (so_delete_receipt S rsub seq) sw (\<lambda>_ sw'. inv sw' \<and>
            world_le (snd sw) (snd sw') \<and> view (fst sw') = (view (fst sw))\<lparr>sp_queues :=
              (\<lambda>k. if k = rsub then map_option (AList.delete seq) (sp_queues (view (fst sw)) k)
                    else sp_queues (view (fst sw)) k)\<rparr>)"

text \<open>
  The operations that remove messages for another reason than an acknowledgement. The
  trait leaves open whether messages on channels that are no longer registered go with
  the user agent: \<open>gone\<close> is between the messages of its channels and all its messages.
\<close>

locale removal_store = store_view S view inv
  for S :: "'s store" and view :: "'s \<Rightarrow> spec" and inv :: "'s \<times> world \<Rightarrow> bool" +
  assumes delete_subscription: "inv sw \<Longrightarrow> room_for view sw \<Longrightarrow>
            gives (so_delete_subscription S u c) sw (\<lambda>rs sw'. inv sw' \<and> room_for view sw' \<and>
              spec_removal (\<lambda>m. sp_subs (view (fst sw)) (u, c) \<noteq> None \<and> m_uaid m = u \<and> m_channel_id m = c)
                (view (fst sw)) (wl_last (snd sw)) rs (view (fst sw')) (wl_last (snd sw')) \<and>
              sp_uas (view (fst sw')) = sp_uas (view (fst sw)) \<and>
              sp_subs (view (fst sw')) = (sp_subs (view (fst sw)))((u, c) := None))"
    and delete_user_agent: "inv sw \<Longrightarrow> room_for view sw \<Longrightarrow>
            gives (so_delete_user_agent S u) sw (\<lambda>rs sw'. inv sw' \<and> room_for view sw' \<and>
              (\<exists>gone. spec_removal gone
                 (view (fst sw)) (wl_last (snd sw)) rs (view (fst sw')) (wl_last (snd sw')) \<and>
               (\<forall>m. gone m \<longrightarrow> m_uaid m = u) \<and>
               (\<forall>m. m_uaid m = u \<and> sp_subs (view (fst sw)) (u, m_channel_id m) \<noteq> None \<longrightarrow> gone m)) \<and>
              sp_uas (view (fst sw')) = (sp_uas (view (fst sw)))(u := None) \<and>
              sp_subs (view (fst sw')) =
                (\<lambda>k. if fst k = u then None else sp_subs (view (fst sw)) k))"
    and expire_user_agents: "inv sw \<Longrightarrow> room_for view sw \<Longrightarrow>
            gives (so_expire_user_agents S cutoff) sw (\<lambda>(count, rs) sw'. inv sw' \<and> room_for view sw' \<and>
              count = card {u. stale (view (fst sw)) cutoff u} \<and>
              (\<exists>gone. spec_removal gone
                 (view (fst sw)) (wl_last (snd sw)) rs (view (fst sw')) (wl_last (snd sw')) \<and>
               (\<forall>m. gone m \<longrightarrow> stale (view (fst sw)) cutoff (m_uaid m)) \<and>
               (\<forall>m. stale (view (fst sw)) cutoff (m_uaid m) \<and>
                  sp_subs (view (fst sw)) (m_uaid m, m_channel_id m) \<noteq> None \<longrightarrow> gone m)) \<and>
              sp_uas (view (fst sw')) =
                (\<lambda>u. if stale (view (fst sw)) cutoff u then None else sp_uas (view (fst sw)) u) \<and>
              sp_subs (view (fst sw')) =
                (\<lambda>k. if stale (view (fst sw)) cutoff (fst k) then None else sp_subs (view (fst sw)) k))"
    and reap: "inv sw \<Longrightarrow> room_for view sw \<Longrightarrow>
            gives (so_reap S now) sw (\<lambda>rs sw'. inv sw' \<and> room_for view sw' \<and>
              spec_removal (\<lambda>m. m_expiry m \<le> now)
                (view (fst sw)) (wl_last (snd sw)) rs (view (fst sw')) (wl_last (snd sw')) \<and>
              sp_uas (view (fst sw')) = sp_uas (view (fst sw)) \<and>
              sp_subs (view (fst sw')) = sp_subs (view (fst sw)))"

locale full_store = route_store S view inv + message_store S view inv + owner_store S view inv +
    receipt_store S view inv + removal_store S view inv
  for S :: "'s store" and view :: "'s \<Rightarrow> spec" and inv :: "'s \<times> world \<Rightarrow> bool"

end
