(* ===== verification/Memory_Contract.thy ===== *)
theory Memory_Contract
  imports Memory_Removal Store_Spec
begin

text \<open>
  The in-memory adapter keeps what \<open>Store_Spec\<close> promises: \<open>mem_view\<close> reads the seven maps
  as the abstract store, each operation of \<open>memory_store\<close> commutes with it, and the
  interpretation \<open>mem\<close> at the end gives every client of the interface the adapter.
\<close>

definition mem_view :: "state \<Rightarrow> spec" where
  "mem_view s = \<lparr>sp_uas = hget (st_user_agents s), sp_subs = hget (st_channels s),
     sp_msgs = hget (st_messages s), sp_queues = hget (st_receipts s),
     sp_routes = hget (st_routes s)\<rparr>"

lemma mem_view_simps [simp]:
  "sp_uas (mem_view s) = hget (st_user_agents s)"
  "sp_subs (mem_view s) = hget (st_channels s)"
  "sp_msgs (mem_view s) = hget (st_messages s)"
  "sp_queues (mem_view s) = hget (st_receipts s)"
  "sp_routes (mem_view s) = hget (st_routes s)"
  by (simp_all add: mem_view_def)

lemma spec_eqI:
  fixes a b :: spec
  assumes "sp_uas a = sp_uas b" "sp_subs a = sp_subs b" "sp_msgs a = sp_msgs b"
    "sp_queues a = sp_queues b" "sp_routes a = sp_routes b"
  shows "a = b"
  using assms by (cases a; cases b) simp

lemma hget_hinsert_fun: "hget (hinsert k v m) = (hget m)(k \<mapsto> v)"
  by (simp add: fun_eq_iff)

lemma hget_hremove_fun: "hget (hremove k m) = (hget m)(k := None)"
  by (simp add: fun_eq_iff)

lemma gives_ok_read: "gives (ok_read f) sw Q \<longleftrightarrow> Q (f (fst sw)) sw"
  by (cases sw) (auto simp: gives_def ok_read_def)

lemma gives_ok_write: "gives (ok_write f) sw Q \<longleftrightarrow> Q (fst (f (fst sw))) (snd (f (fst sw)), snd sw)"
  by (cases sw) (auto simp: gives_def ok_write_def case_prod_beta Let_def)

lemma gives_ok_step: "gives (ok_step f) sw Q \<longleftrightarrow> Q (fst (f sw)) (snd (f sw))"
  by (cases "f sw") (auto simp: gives_def ok_step_def)

lemmas gives_ok = gives_ok_read gives_ok_write gives_ok_step

section \<open>Coherence is kept\<close>

lemma mem_okI:
  "uas_ok (st_user_agents s) \<Longrightarrow> subs_ok (st_channels s) (st_push s) \<Longrightarrow>
   msgs_ok (st_messages s) (st_topics s) \<Longrightarrow> queues_ok (st_receipts s) \<Longrightarrow>
   hdistinct (st_routes s) \<Longrightarrow> queue_bound s w \<Longrightarrow> mem_ok (s, w)"
  by (simp add: mem_ok_def mem_inv_def)

lemma mem_okD:
  assumes "mem_ok (s, w)"
  shows "uas_ok (st_user_agents s)" "subs_ok (st_channels s) (st_push s)"
    "msgs_ok (st_messages s) (st_topics s)" "queues_ok (st_receipts s)"
    "hdistinct (st_routes s)" "queue_bound s w"
  using assms by (simp_all add: mem_ok_def mem_inv_def)

lemma mem_ok_new: "mem_ok (new_state, w)"
  by (rule mem_okI)
    (simp_all add: new_state_def uas_ok_def subs_ok_def msgs_ok_def queues_ok_def queue_bound_def)

lemma queue_bound_world: "queue_bound s w \<Longrightarrow> world_le w w' \<Longrightarrow> queue_bound s w'"
  unfolding queue_bound_def world_le_def by (meson order_trans)

lemma mem_ok_world: "mem_ok (s, w) \<Longrightarrow> world_le w w' \<Longrightarrow> mem_ok (s, w')"
  by (auto simp: mem_ok_def intro: queue_bound_world)

lemma uas_ok_insert: "uas_ok uas \<Longrightarrow> ua_uaid ua = k \<Longrightarrow> uas_ok (hinsert k ua uas)"
  by (simp add: uas_ok_def)

lemma uas_ok_key: "uas_ok uas \<Longrightarrow> hget uas k = Some ua \<Longrightarrow> ua_uaid ua = k"
  by (simp add: uas_ok_def)

lemma mem_ok_ua: "mem_ok (s, w) \<Longrightarrow> hget (st_user_agents s) u = Some ua \<Longrightarrow> ua_uaid ua = u"
  by (blast intro: uas_ok_key mem_okD(1))

lemma mem_ok_uas:
  "mem_ok (s, w) \<Longrightarrow> uas_ok uas \<Longrightarrow> mem_ok (s\<lparr>st_user_agents := uas\<rparr>, w)"
  by (simp add: mem_ok_def mem_inv_def queue_bound_def)

lemma mem_ok_routes:
  "mem_ok (s, w) \<Longrightarrow> hdistinct rs \<Longrightarrow> mem_ok (s\<lparr>st_routes := rs\<rparr>, w)"
  by (simp add: mem_ok_def mem_inv_def queue_bound_def)

lemma mem_ok_messages:
  "mem_ok (s, w) \<Longrightarrow> msgs_ok ms ts \<Longrightarrow> mem_ok (s\<lparr>st_messages := ms, st_topics := ts\<rparr>, w)"
  by (simp add: mem_ok_def mem_inv_def queue_bound_def)

lemma mem_ok_receipts:
  "mem_ok (s, w) \<Longrightarrow> queues_ok qs \<Longrightarrow> queue_bound (s\<lparr>st_receipts := qs\<rparr>) w \<Longrightarrow>
   mem_ok (s\<lparr>st_receipts := qs\<rparr>, w)"
  by (simp add: mem_ok_def mem_inv_def)

lemma mem_ok_subs:
  "mem_ok (s, w) \<Longrightarrow> subs_ok cs ps \<Longrightarrow> mem_ok (s\<lparr>st_push := ps, st_channels := cs\<rparr>, w)"
  by (simp add: mem_ok_def mem_inv_def queue_bound_def)

section \<open>User agents\<close>

lemma mem_ok_touch: "mem_ok (s, w) \<Longrightarrow> mem_ok (snd (mem_touch_user_agent u now s), w)"
  by (auto simp: mem_touch_user_agent_def split: option.split
      intro!: mem_ok_uas uas_ok_insert intro: mem_okD(1) mem_ok_ua)

lemma touch_refines:
  "(fst (mem_touch_user_agent u now s), mem_view (snd (mem_touch_user_agent u now s))) =
   spec_touch_user_agent u now (mem_view s)"
  by (auto simp: mem_touch_user_agent_def spec_touch_user_agent_def hget_hinsert_fun
      split: option.split intro!: spec_eqI)

lemma mem_ok_token: "mem_ok (s, w) \<Longrightarrow> mem_ok (snd (mem_update_bridge_token u t s), w)"
  by (auto simp: mem_update_bridge_token_def split: option.split
      intro!: mem_ok_uas uas_ok_insert intro: mem_okD(1) mem_ok_ua)

lemma token_refines:
  "(fst (mem_update_bridge_token u t s), mem_view (snd (mem_update_bridge_token u t s))) =
   spec_update_bridge_token u t (mem_view s)"
  by (auto simp: mem_update_bridge_token_def spec_update_bridge_token_def hget_hinsert_fun
      split: option.split intro!: spec_eqI)

section \<open>Subscriptions\<close>

lemma subs_ok_insert:
  assumes ok: "subs_ok cs ps" and absent: "hget cs k = None"
    and key: "k = (sub_uaid sub, sub_channel_id sub)"
    and fresh: "\<And>k' sub'. hget cs k' = Some sub' \<Longrightarrow> sub_push sub' \<noteq> sub_push sub"
  shows "subs_ok (hinsert k sub cs) (hinsert (sub_push sub) k ps)"
proof (rule subs_okI)
  show "hdistinct (hinsert k sub cs)" and "hdistinct (hinsert (sub_push sub) k ps)"
    using subs_ok_distinct [OF ok] by simp_all
  show "(sub_uaid sub', sub_channel_id sub') = k'" if "hget (hinsert k sub cs) k' = Some sub'" for k' sub'
  proof (cases "k' = k")
    case True
    with that have "sub' = sub" by simp
    with True key show ?thesis by (simp only:)
  next
    case False
    with that have "hget cs k' = Some sub'" by simp
    then show ?thesis by (rule subs_ok_key [OF ok])
  qed
  show "hget (hinsert (sub_push sub) k ps) (sub_push sub') = Some k'"
    if "hget (hinsert k sub cs) k' = Some sub'" for k' sub'
  proof (cases "k' = k")
    case True
    with that show ?thesis by simp
  next
    case False
    with that have sub': "hget cs k' = Some sub'" by simp
    with fresh [OF sub'] subs_ok_push [OF ok sub'] show ?thesis by simp
  qed
  show "\<exists>sub'. hget (hinsert k sub cs) k' = Some sub' \<and> sub_push sub' = p"
    if "hget (hinsert (sub_push sub) k ps) p = Some k'" for p k'
  proof (cases "p = sub_push sub")
    case True
    with that show ?thesis by simp
  next
    case False
    with that have "hget ps p = Some k'" by simp
    then obtain sub' where sub': "hget cs k' = Some sub'" "sub_push sub' = p"
      using subs_ok_channel [OF ok] by blast
    with absent have "k' \<noteq> k" by auto
    with sub' show ?thesis by simp
  qed
qed

lemma by_push_refines:
  assumes "mem_ok (s, w)"
  shows "spec_by_push p (mem_view s) (mem_subscription_by_push p s)"
proof -
  note ok = mem_okD(2) [OF assms]
  have "mem_subscription_by_push p s = Some sub \<longleftrightarrow>
      hget (st_channels s) (sub_uaid sub, sub_channel_id sub) = Some sub \<and> sub_push sub = p" for sub
  proof
    assume "mem_subscription_by_push p s = Some sub"
    then obtain k where k: "hget (st_push s) p = Some k" and sub: "hget (st_channels s) k = Some sub"
      by (auto simp: mem_subscription_by_push_def split: option.splits)
    from subs_ok_channel [OF ok k] sub subs_ok_key [OF ok sub]
    show "hget (st_channels s) (sub_uaid sub, sub_channel_id sub) = Some sub \<and> sub_push sub = p" by auto
  next
    assume "hget (st_channels s) (sub_uaid sub, sub_channel_id sub) = Some sub \<and> sub_push sub = p"
    then have sub: "hget (st_channels s) (sub_uaid sub, sub_channel_id sub) = Some sub"
      and "sub_push sub = p" by blast+
    with subs_ok_push [OF ok sub] show "mem_subscription_by_push p s = Some sub"
      by (simp add: mem_subscription_by_push_def)
  qed
  then show ?thesis by (simp add: spec_by_push_def)
qed

text \<open>In a map whose values carry their key, the values are visited as the keys are.\<close>

lemma map_hvalues:
  assumes "is_order ord" and "hdistinct m" and "\<And>k v. hget m k = Some v \<Longrightarrow> f v = k"
  shows "map f (hvalues ord m) = hkeys ord m"
  unfolding hvalues_def hkeys_def map_map
proof (rule map_cong [OF refl])
  fix x assume "x \<in> set (hiter ord m)"
  then have "hget m (fst x) = Some (snd x)"
    unfolding set_hiter [OF assms(1)] using hget_in_iff [OF assms(2), of "fst x" "snd x"] by simp
  then show "(f \<circ> snd) x = fst x" using assms(3) by simp
qed

lemma distinct_map_hvalues:
  assumes "is_order ord" and "hdistinct m" and "\<And>k v. hget m k = Some v \<Longrightarrow> f v = k"
  shows "distinct (map f (hvalues ord m))"
  using map_hvalues [OF assms] assms(1,2) by (simp add: distinct_hkeys)

lemma distinct_hvalues:
  assumes "is_order ord" and "hdistinct m" and "\<And>k v. hget m k = Some v \<Longrightarrow> f v = k"
  shows "distinct (hvalues ord m)"
  using distinct_map_hvalues [OF assms] by (simp add: distinct_map)

lemma subscriptions_refines:
  assumes ord: "is_order ord" and "mem_ok (s, w)"
  shows "distinct (mem_subscriptions ord u s)"
    and "set (mem_subscriptions ord u s) =
      {sub. sp_subs (mem_view s) (u, sub_channel_id sub) = Some sub}"
proof -
  note ok = mem_okD(2) [OF assms(2)]
  note vals = set_hvalues_iff [OF ord conjunct1 [OF subs_ok_distinct [OF ok]]]
  show "distinct (mem_subscriptions ord u s)"
    unfolding mem_subscriptions_def
    by (intro distinct_filter distinct_hvalues [OF ord conjunct1 [OF subs_ok_distinct [OF ok]]])
      (rule subs_ok_key [OF ok])
  have "sub \<in> set (mem_subscriptions ord u s) \<longleftrightarrow>
      hget (st_channels s) (u, sub_channel_id sub) = Some sub" for sub
  proof -
    have "sub \<in> set (mem_subscriptions ord u s) \<longleftrightarrow>
        (\<exists>k. hget (st_channels s) k = Some sub) \<and> sub_uaid sub = u"
      by (simp add: mem_subscriptions_def vals conj_commute)
    also have "\<dots> \<longleftrightarrow> hget (st_channels s) (u, sub_channel_id sub) = Some sub"
      using subs_ok_key [OF ok] by blast
    finally show ?thesis .
  qed
  then show "set (mem_subscriptions ord u s) =
      {sub. sp_subs (mem_view s) (u, sub_channel_id sub) = Some sub}" by auto
qed

lemma create_subscription_refines:
  assumes ok: "mem_ok (s, w)" and absent: "hget (st_channels s) (u, c) = None"
    and run: "mem_create_subscription b64 u c v (s, w) = (sub, s', w')"
  shows "sub_uaid sub = u" "sub_channel_id sub = c" "sub_vapid sub = v" "world_le w w'"
    and "push_unused (sub_push sub) (mem_view s) \<Longrightarrow>
      mem_ok (s', w') \<and> mem_view s' = spec_create_subscription sub (mem_view s)"
proof -
  obtain p where p: "new_id b64 w = (p, w')"
    and sub: "sub = \<lparr>sub_uaid = u, sub_channel_id = c, sub_push = p, sub_vapid = v\<rparr>"
    and s': "s' = s\<lparr>st_push := hinsert p (u, c) (st_push s),
                    st_channels := hinsert (u, c) sub (st_channels s)\<rparr>"
    using run by (auto simp: mem_create_subscription_def Let_def split: prod.splits)
  show "sub_uaid sub = u" "sub_channel_id sub = c" "sub_vapid sub = v" by (simp_all add: sub)
  show le: "world_le w w'" using world_le_new_id [OF p] .
  assume fresh: "push_unused (sub_push sub) (mem_view s)"
  have "mem_ok (s', w)" unfolding s'
  proof (rule mem_ok_subs [OF ok])
    have "subs_ok (hinsert (u, c) sub (st_channels s)) (hinsert (sub_push sub) (u, c) (st_push s))"
      using fresh
      by (intro subs_ok_insert [OF mem_okD(2) [OF ok] absent]) (auto simp: sub push_unused_def)
    then show "subs_ok (hinsert (u, c) sub (st_channels s)) (hinsert p (u, c) (st_push s))"
      by (simp add: sub)
  qed
  with le have "mem_ok (s', w')" by (rule mem_ok_world [rotated])
  moreover have "mem_view s' = spec_create_subscription sub (mem_view s)"
    by (rule spec_eqI) (simp_all add: s' spec_create_subscription_def hget_hinsert_fun, simp add: sub)
  ultimately show "mem_ok (s', w') \<and> mem_view s' = spec_create_subscription sub (mem_view s)" ..
qed

section \<open>Messages\<close>

text \<open>The messages left when the topic slot of \<open>m\<close> is taken over.\<close>

lemma slot_taken:
  assumes ok: "msgs_ok ms ts" and t: "m_topic m = Some t"
  shows "hget (case hget ts (m_uaid m, m_channel_id m, t) of None \<Rightarrow> ms | Some old \<Rightarrow> hremove old ms) i =
    (case hget ms i of None \<Rightarrow> None | Some m' \<Rightarrow> if replaces m m' then None else Some m')"
proof (cases "hget ms i")
  case None
  then show ?thesis by (simp split: option.split)
next
  case (Some m')
  have "replaces m m' \<longleftrightarrow> hget ts (m_uaid m, m_channel_id m, t) = Some i"
  proof
    assume "replaces m m'"
    with t msgs_ok_slot [OF ok Some, of t]
    show "hget ts (m_uaid m, m_channel_id m, t) = Some i" by (simp add: replaces_def)
  next
    assume "hget ts (m_uaid m, m_channel_id m, t) = Some i"
    from msgs_ok_topic [OF ok this] Some t show "replaces m m'"
      by (auto simp: replaces_def)
  qed
  with Some show ?thesis by (auto split: option.split)
qed

lemma msgs_ok_topic_insert:
  assumes ok: "msgs_ok ms ts" and t: "m_topic m = Some t" and fresh: "hget ms (m_id m) = None"
  shows "msgs_ok
    (hinsert (m_id m) m
      (case hget ts (m_uaid m, m_channel_id m, t) of None \<Rightarrow> ms | Some old \<Rightarrow> hremove old ms))
    (hinsert (m_uaid m, m_channel_id m, t) (m_id m) ts)" (is "msgs_ok (hinsert _ _ ?ms) (hinsert ?slot _ _)")
proof -
  have ms: "hget ?ms i = Some m' \<longleftrightarrow> hget ms i = Some m' \<and> \<not> replaces m m'" for i m'
    unfolding slot_taken [OF ok t] by (auto split: option.split)
  have ne: "(m_uaid m', m_channel_id m', t') \<noteq> ?slot"
    if "\<not> replaces m m'" and "m_topic m' = Some t'" for m' t'
    using that t by (auto simp: replaces_def)
  show ?thesis
  proof (rule msgs_okI)
    show "hdistinct (hinsert (m_id m) m ?ms)" and "hdistinct (hinsert ?slot (m_id m) ts)"
      using msgs_ok_distinct [OF ok] by (simp_all split: option.split)
    show "m_id m' = i" if "hget (hinsert (m_id m) m ?ms) i = Some m'" for i m'
      using that ms msgs_ok_id [OF ok] by (simp split: if_splits)
    show "hget (hinsert ?slot (m_id m) ts) (m_uaid m', m_channel_id m', t') = Some i"
      if "hget (hinsert (m_id m) m ?ms) i = Some m'" and "m_topic m' = Some t'" for i m' t'
    proof (cases "i = m_id m")
      case True
      with that t show ?thesis by simp
    next
      case False
      with that(1) ms have "hget ms i = Some m'" and "\<not> replaces m m'" by simp_all
      with ne [OF _ that(2)] have "(m_uaid m', m_channel_id m', t') \<noteq> ?slot" by blast
      moreover have "hget ts (m_uaid m', m_channel_id m', t') = Some i"
        using msgs_ok_slot [OF ok \<open>hget ms i = Some m'\<close> that(2)] .
      ultimately show ?thesis by (simp only: hget_hinsert if_False)
    qed
    show "\<exists>m'. hget (hinsert (m_id m) m ?ms) i = Some m' \<and> m_uaid m' = u \<and> m_channel_id m' = c \<and>
        m_topic m' = Some t'" if "hget (hinsert ?slot (m_id m) ts) (u, c, t') = Some i" for u c t' i
    proof (cases "(u, c, t') = ?slot")
      case True
      with that t show ?thesis by auto
    next
      case False
      with that have "hget ts (u, c, t') = Some i" by (simp only: hget_hinsert if_False)
      then obtain m' where m': "hget ms i = Some m'" "m_uaid m' = u" "m_channel_id m' = c" "m_topic m' = Some t'"
        using msgs_ok_topic [OF ok] by blast
      with False t have "\<not> replaces m m'" by (auto simp: replaces_def)
      moreover from m'(1) fresh have "i \<noteq> m_id m" by auto
      ultimately show ?thesis using m' ms by auto
    qed
  qed
qed

lemma msgs_ok_plain_insert:
  assumes ok: "msgs_ok ms ts" and t: "m_topic m = None" and fresh: "hget ms (m_id m) = None"
  shows "msgs_ok (hinsert (m_id m) m ms) ts"
proof (rule msgs_okI)
  show "hdistinct (hinsert (m_id m) m ms)" and "hdistinct ts"
    using msgs_ok_distinct [OF ok] by simp_all
  show "m_id m' = i" if "hget (hinsert (m_id m) m ms) i = Some m'" for i m'
    using that msgs_ok_id [OF ok] by (simp split: if_splits)
  show "hget ts (m_uaid m', m_channel_id m', t') = Some i"
    if "hget (hinsert (m_id m) m ms) i = Some m'" and "m_topic m' = Some t'" for i m' t'
    using that t msgs_ok_slot [OF ok _ that(2)] by (simp split: if_splits)
  show "\<exists>m'. hget (hinsert (m_id m) m ms) i = Some m' \<and> m_uaid m' = u \<and> m_channel_id m' = c \<and>
      m_topic m' = Some t'" if "hget ts (u, c, t') = Some i" for u c t' i
    using msgs_ok_topic [OF ok that] fresh by auto
qed

lemma insert_message_parts:
  "mem_insert_message m s = s\<lparr>
     st_messages := hinsert (m_id m) m (case m_topic m of None \<Rightarrow> st_messages s
       | Some t \<Rightarrow> (case hget (st_topics s) (m_uaid m, m_channel_id m, t) of None \<Rightarrow> st_messages s
                   | Some old \<Rightarrow> hremove old (st_messages s))),
     st_topics := (case m_topic m of None \<Rightarrow> st_topics s
       | Some t \<Rightarrow> hinsert (m_uaid m, m_channel_id m, t) (m_id m) (st_topics s))\<rparr>"
  by (simp add: mem_insert_message_def Let_def split: option.split)

lemma insert_message_refines:
  assumes ok: "mem_ok (s, w)" and fresh: "hget (st_messages s) (m_id m) = None"
  shows "mem_ok (mem_insert_message m s, w)"
    and "mem_view (mem_insert_message m s) = spec_insert_message m (mem_view s)"
proof -
  note msgs = mem_okD(3) [OF ok]
  show "mem_ok (mem_insert_message m s, w)"
    unfolding insert_message_parts
    using msgs_ok_plain_insert [OF msgs _ fresh] msgs_ok_topic_insert [OF msgs _ fresh]
    by (intro mem_ok_messages [OF ok]) (cases "m_topic m", simp_all)
  show "mem_view (mem_insert_message m s) = spec_insert_message m (mem_view s)"
  proof (rule spec_eqI)
    show "sp_msgs (mem_view (mem_insert_message m s)) = sp_msgs (spec_insert_message m (mem_view s))"
    proof
      fix i
      show "sp_msgs (mem_view (mem_insert_message m s)) i = sp_msgs (spec_insert_message m (mem_view s)) i"
      proof (cases "m_topic m")
        case None
        then show ?thesis
          by (simp add: insert_message_parts spec_insert_message_def replaces_def split: option.split)
      next
        case (Some t)
        then show ?thesis
          by (simp add: insert_message_parts spec_insert_message_def slot_taken [OF msgs Some])
      qed
    qed
  qed (simp_all add: insert_message_parts spec_insert_message_def)
qed

lemma delete_message_refines:
  assumes ok: "mem_ok (s, w)"
  shows "mem_ok (snd (mem_delete_message i owner s), w)"
    and "(fst (mem_delete_message i owner s), mem_view (snd (mem_delete_message i owner s))) =
      spec_delete_message i owner (mem_view s)"
proof -
  show "mem_ok (snd (mem_delete_message i owner s), w)"
    using ok mem_ok_remove_message [OF ok] by (simp add: mem_delete_message_def Let_def)
  have "mem_delete_message i owner s =
      (case hget (st_messages s) i of None \<Rightarrow> (None, s)
       | Some m \<Rightarrow> if permits owner m then remove_message i s else (None, s))"
    by (simp add: mem_delete_message_def permits_def split: option.split prod.split)
  then show "(fst (mem_delete_message i owner s), mem_view (snd (mem_delete_message i owner s))) =
      spec_delete_message i owner (mem_view s)"
    by (auto simp: spec_delete_message_def remove_message_Some hget_hremove_fun intro!: spec_eqI
        split: option.split)
qed

lemma sorted_older:
  assumes "distinct (map m_id ms)"
  shows "sorted_wrt older (oldest_first ms)"
proof -
  let ?key = "\<lambda>m. (m_accepted m, m_id m)"
  have "mset (map m_id (oldest_first ms)) = mset (map m_id ms)"
    by (simp add: oldest_first_def)
  with assms have "distinct (map m_id (oldest_first ms))"
    by (metis mset_eq_imp_distinct_iff)
  then have "distinct (map ?key (oldest_first ms))"
    by (auto simp: distinct_map inj_on_def)
  moreover have "sorted (map ?key (oldest_first ms))"
    by (simp add: oldest_first_def)
  ultimately have "sorted_wrt (<) (map ?key (oldest_first ms))"
    by (simp add: strict_sorted_iff)
  then show ?thesis unfolding sorted_wrt_map older_def [abs_def] .
qed

lemma pending_refines:
  assumes ord: "is_order ord" and ok: "mem_ok (s, w)"
  shows "spec_pending (mem_view s) u now limit (mem_pending ord u now limit s)"
proof -
  note msgs = mem_okD(3) [OF ok]
  let ?P = "\<lambda>m. m_uaid m = u \<and> m_expiry m > now"
  let ?ms = "filter ?P (hvalues ord (st_messages s))"
  have vals: "m \<in> set (hvalues ord (st_messages s)) \<longleftrightarrow> (\<exists>i. hget (st_messages s) i = Some m)" for m
    by (rule set_hvalues_iff [OF ord conjunct1 [OF msgs_ok_distinct [OF msgs]]])
  have "m \<in> set ?ms \<longleftrightarrow> deliverable (mem_view s) u now m" for m
  proof -
    have "(\<exists>i. hget (st_messages s) i = Some m) \<longleftrightarrow> hget (st_messages s) (m_id m) = Some m"
      using msgs_ok_id [OF msgs] by auto
    then show ?thesis unfolding deliverable_def set_filter mem_Collect_eq vals by auto
  qed
  then have "set (oldest_first ?ms) = {m. deliverable (mem_view s) u now m}"
    unfolding oldest_first_def set_sort by blast
  moreover have "distinct (map m_id ?ms)"
    by (intro distinct_map_filter distinct_map_hvalues [OF ord conjunct1 [OF msgs_ok_distinct [OF msgs]]])
      (rule msgs_ok_id [OF msgs])
  ultimately show ?thesis
    unfolding spec_pending_def mem_pending_def using sorted_older by blast
qed

section \<open>Receipts\<close>

lemma queues_ok_insert:
  "queues_ok qs \<Longrightarrow> bt_sorted q \<Longrightarrow> (\<And>x. x \<in> set q \<Longrightarrow> rc_rsub (snd x) = rsub) \<Longrightarrow>
   queues_ok (hinsert rsub q qs)"
  by (auto simp: queues_ok_def)

lemma queues_ok_get:
  "queues_ok qs \<Longrightarrow> hget qs rsub = Some q \<Longrightarrow> bt_sorted q \<and> (\<forall>x\<in>set q. rc_rsub (snd x) = rsub)"
  by (simp add: queues_ok_def)

lemma queue_bound_insert:
  assumes "queue_bound s w" and "\<And>k. k \<in> fst ` set q \<Longrightarrow> k \<le> wl_last w"
  shows "queue_bound (s\<lparr>st_receipts := hinsert rsub q (st_receipts s)\<rparr>) w"
  using assms unfolding queue_bound_def by (auto split: if_splits)

lemma queue_bound_get:
  "queue_bound s w \<Longrightarrow> hget (st_receipts s) rsub = Some q \<Longrightarrow> k \<in> fst ` set q \<Longrightarrow> k \<le> wl_last w"
  unfolding queue_bound_def by blast

lemma create_receipt_sub_refines:
  assumes ok: "mem_ok (s, w)" and run: "mem_create_receipt_sub b64 (s, w) = (rsub, s', w')"
  shows "world_le w w'" and "mem_ok (s', w')"
    and "mem_view s' = (mem_view s)\<lparr>sp_queues := (sp_queues (mem_view s))(rsub \<mapsto> [])\<rparr>"
proof -
  from run have id: "new_id b64 w = (rsub, w')"
    and s': "s' = s\<lparr>st_receipts := hinsert rsub [] (st_receipts s)\<rparr>"
    by (auto simp: mem_create_receipt_sub_def split: prod.splits)
  show le: "world_le w w'" using world_le_new_id [OF id] .
  have "mem_ok (s', w)" unfolding s'
    by (intro mem_ok_receipts [OF ok] queues_ok_insert queue_bound_insert mem_okD [OF ok]) simp_all
  then show "mem_ok (s', w')" using le by (rule mem_ok_world)
  show "mem_view s' = (mem_view s)\<lparr>sp_queues := (sp_queues (mem_view s))(rsub \<mapsto> [])\<rparr>"
    by (rule spec_eqI) (simp_all add: s' hget_hinsert_fun)
qed

lemma delete_receipt_sub_refines:
  assumes ok: "mem_ok (s, w)"
  shows "mem_ok (snd (mem_delete_receipt_sub rsub s), w)"
    and "mem_view (snd (mem_delete_receipt_sub rsub s)) =
      (mem_view s)\<lparr>sp_queues := (sp_queues (mem_view s))(rsub := None)\<rparr>"
proof -
  have "queues_ok (hremove rsub (st_receipts s))"
    using mem_okD(4) [OF ok] by (auto simp: queues_ok_def split: if_splits)
  moreover have "queue_bound (s\<lparr>st_receipts := hremove rsub (st_receipts s)\<rparr>) w"
    using mem_okD(6) [OF ok] unfolding queue_bound_def by (auto split: if_splits)
  ultimately show "mem_ok (snd (mem_delete_receipt_sub rsub s), w)"
    by (simp add: mem_delete_receipt_sub_def mem_ok_receipts [OF ok])
  show "mem_view (snd (mem_delete_receipt_sub rsub s)) =
      (mem_view s)\<lparr>sp_queues := (sp_queues (mem_view s))(rsub := None)\<rparr>"
    by (rule spec_eqI) (simp_all add: mem_delete_receipt_sub_def hget_hremove_fun)
qed

lemma next_seq_world: "seq_room (Suc n) w \<Longrightarrow> next_seq w = (seq, w') \<Longrightarrow> world_le w w'"
  using next_seq_greater [of n w seq w']
  by (auto simp: world_le_def next_seq_def Let_def split: prod.splits) (simp_all add: now_ms_def Let_def)

lemma enqueue_receipt_refines:
  assumes ok: "mem_ok (s, w)" and room: "seq_room (Suc n) w"
    and run: "mem_enqueue_receipt r (s, w) = (x, s', w')"
  shows "mem_ok (s', w') \<and> world_le w w' \<and> seq_room n w' \<and>
    (x \<noteq> None \<longleftrightarrow> sp_queues (mem_view s) (rc_rsub r) \<noteq> None) \<and>
    (\<forall>seq. x = Some seq \<longrightarrow> wl_last w < seq) \<and>
    mem_view s' = spec_enqueue (case x of None \<Rightarrow> [] | Some seq \<Rightarrow> [(seq, r)]) (mem_view s)"
proof (cases "hget (st_receipts s) (rc_rsub r)")
  case None
  with run have "x = None" "s' = s" "w' = w" by (auto simp: mem_enqueue_receipt_def)
  with None ok room show ?thesis
    by (auto simp: spec_enqueue_def option.map_ident intro: seq_room_mono)
next
  case (Some q)
  obtain seq where seq: "next_seq w = (seq, w')" and x: "x = Some seq"
    and s': "s' = s\<lparr>st_receipts := hinsert (rc_rsub r) (bt_insert seq r q) (st_receipts s)\<rparr>"
    using run Some by (auto simp: mem_enqueue_receipt_def split: prod.splits)
  note greater = next_seq_greater [OF room seq]
  note le = next_seq_world [OF room seq]
  note queue = queues_ok_get [OF mem_okD(4) [OF ok] Some]
  have below: "k \<le> wl_last w" if "k \<in> fst ` set q" for k
    using queue_bound_get [OF mem_okD(6) [OF ok] Some that] .
  then have insert: "bt_insert seq r q = q @ [(seq, r)]"
    using greater(1) by (intro bt_insert_append) (meson le_less_trans)
  have "mem_ok (s', w')" unfolding s'
  proof (rule mem_ok_receipts [OF mem_ok_world [OF ok le]])
    show "queues_ok (hinsert (rc_rsub r) (bt_insert seq r q) (st_receipts s))"
      using queue by (intro queues_ok_insert mem_okD(4) [OF ok] bt_sorted_insert)
        (auto simp: insert)
    have "k \<le> wl_last w'" if "k \<in> fst ` set (bt_insert seq r q)" for k
    proof -
      have "wl_last w < seq" and "wl_last w' = seq" using greater by blast+
      moreover have "k = seq \<or> k \<in> fst ` set q" using that by (simp add: keys_bt_insert)
      ultimately show ?thesis using below [of k] by (elim disjE) simp_all
    qed
    then show "queue_bound (s\<lparr>st_receipts := hinsert (rc_rsub r) (bt_insert seq r q) (st_receipts s)\<rparr>) w'"
      by (intro queue_bound_insert queue_bound_world [OF mem_okD(6) [OF ok] le])
  qed
  moreover have "mem_view s' = spec_enqueue [(seq, r)] (mem_view s)"
    by (rule spec_eqI) (use Some in \<open>auto simp: s' spec_enqueue_def insert fun_eq_iff option.map_ident\<close>)
  ultimately show ?thesis using greater le x Some by simp
qed

lemma queued_receipts_refines:
  assumes "mem_ok (s, w)"
  shows "sorted_wrt (<) (map fst (mem_queued_receipts rsub s))"
  using queues_ok_get [OF mem_okD(4) [OF assms]]
  by (auto simp: mem_queued_receipts_def split: option.split)

lemma delete_receipt_refines:
  assumes ok: "mem_ok (s, w)"
  shows "mem_ok (mem_delete_receipt rsub seq s, w)"
    and "mem_view (mem_delete_receipt rsub seq s) = (mem_view s)\<lparr>sp_queues :=
      (\<lambda>k. if k = rsub then map_option (AList.delete seq) (sp_queues (mem_view s) k)
            else sp_queues (mem_view s) k)\<rparr>"
proof -
  have "mem_ok (s\<lparr>st_receipts := hinsert rsub (AList.delete seq q) (st_receipts s)\<rparr>, w)"
    if q: "hget (st_receipts s) rsub = Some q" for q
  proof (intro mem_ok_receipts [OF ok] queues_ok_insert queue_bound_insert mem_okD [OF ok] bt_sorted_remove)
    note queue = queues_ok_get [OF mem_okD(4) [OF ok] q]
    show "bt_sorted q" using queue by blast
    show "rc_rsub (snd x) = rsub" if "x \<in> set (AList.delete seq q)" for x
      using that queue by (auto simp: AList.delete_eq)
    show "k \<le> wl_last w" if "k \<in> fst ` set (AList.delete seq q)" for k
    proof -
      have "k \<in> fst ` set q" using that by (force simp: AList.delete_eq)
      then show ?thesis by (rule queue_bound_get [OF mem_okD(6) [OF ok] q])
    qed
  qed
  then show "mem_ok (mem_delete_receipt rsub seq s, w)"
    using ok by (simp add: mem_delete_receipt_def split: option.split)
  show "mem_view (mem_delete_receipt rsub seq s) = (mem_view s)\<lparr>sp_queues :=
      (\<lambda>k. if k = rsub then map_option (AList.delete seq) (sp_queues (mem_view s) k)
            else sp_queues (mem_view s) k)\<rparr>"
    by (rule spec_eqI) (auto simp: mem_delete_receipt_def fun_eq_iff split: option.split)
qed

section \<open>Routes\<close>

lemma set_route_refines:
  "mem_ok (s, w) \<Longrightarrow> mem_ok (snd (mem_set_route to node s), w)"
  "(fst (mem_set_route to node s), mem_view (snd (mem_set_route to node s))) =
     spec_set_route to node (mem_view s)"
  by (auto simp: mem_set_route_def spec_set_route_def hget_hinsert_fun
      intro!: mem_ok_routes spec_eqI dest: mem_okD(5))

lemma clear_route_refines:
  "mem_ok (s, w) \<Longrightarrow> mem_ok (snd (mem_clear_route to node s), w)"
  "(fst (mem_clear_route to node s), mem_view (snd (mem_clear_route to node s))) =
     spec_clear_route to node (mem_view s)"
  by (auto simp: mem_clear_route_def spec_clear_route_def hget_hremove_fun
      intro!: mem_ok_routes spec_eqI dest: mem_okD(5))

section \<open>Removals\<close>

lemma length_card: "hdistinct m \<Longrightarrow> length m = card (dom (hget m))"
proof -
  assume distinct: "hdistinct m"
  have "hget m = map_of m" by (simp add: fun_eq_iff hget_def)
  then have "dom (hget m) = set (map fst m)" by (simp add: dom_map_of_conv_image_fst)
  then have "card (dom (hget m)) = length (map fst m)" using distinct distinct_card by fastforce
  then show ?thesis by simp
qed

lemma room_view: "mem_ok sw \<Longrightarrow> room_for mem_view sw \<longleftrightarrow> room sw"
  using mem_ok_msgs [of sw] msgs_ok_distinct
  by (cases sw) (auto simp: room_for_def room_def length_card)

lemma removal_refines:
  assumes "removal P (s, w) rs (s', w')"
  shows "mem_ok (s', w')" and "room_for mem_view (s', w')"
    and "spec_removal P (mem_view s) (wl_last w) rs (mem_view s') (wl_last w')"
  using assms
  by (auto simp: removal_def dropped_def room_view spec_removal_def spec_discard_def spec_enqueue_def
      msgs_dropped_def enqueued_def numbered_def owes_def spec_owes_def receipt_410_def fun_eq_iff)

lemma memory_removals:
  assumes ok: "mem_ok (s, w)" and room: "room (s, w)" and ord: "is_order ord"
  shows "gives (so_delete_subscription (memory_store b64 ord) u c) (s, w) (\<lambda>rs sw'.
      mem_ok sw' \<and> room_for mem_view sw' \<and>
      spec_removal (of_channel s u c) (mem_view s) (wl_last w) rs (mem_view (fst sw')) (wl_last (snd sw')) \<and>
      sp_uas (mem_view (fst sw')) = sp_uas (mem_view s) \<and>
      sp_subs (mem_view (fst sw')) = (sp_subs (mem_view s))((u, c) := None))"
    and "gives (so_delete_user_agent (memory_store b64 ord) u) (s, w) (\<lambda>rs sw'.
      mem_ok sw' \<and> room_for mem_view sw' \<and>
      spec_removal (of_user_agent s u) (mem_view s) (wl_last w) rs (mem_view (fst sw')) (wl_last (snd sw')) \<and>
      sp_uas (mem_view (fst sw')) = (sp_uas (mem_view s))(u := None) \<and>
      sp_subs (mem_view (fst sw')) = (\<lambda>k. if fst k = u then None else sp_subs (mem_view s) k))"
    and "gives (so_reap (memory_store b64 ord) now) (s, w) (\<lambda>rs sw'.
      mem_ok sw' \<and> room_for mem_view sw' \<and>
      spec_removal (\<lambda>m. m_expiry m \<le> now) (mem_view s) (wl_last w) rs (mem_view (fst sw')) (wl_last (snd sw')) \<and>
      sp_uas (mem_view (fst sw')) = sp_uas (mem_view s) \<and>
      sp_subs (mem_view (fst sw')) = sp_subs (mem_view s))"
proof -
  obtain rs s' w' where run: "remove_subscription ord u c (s, w) = (rs, s', w')" using prod_cases3 by blast
  note del = remove_subscription_removal [OF ok room ord run]
  show "gives (so_delete_subscription (memory_store b64 ord) u c) (s, w) (\<lambda>rs sw'.
      mem_ok sw' \<and> room_for mem_view sw' \<and>
      spec_removal (of_channel s u c) (mem_view s) (wl_last w) rs (mem_view (fst sw')) (wl_last (snd sw')) \<and>
      sp_uas (mem_view (fst sw')) = sp_uas (mem_view s) \<and>
      sp_subs (mem_view (fst sw')) = (sp_subs (mem_view s))((u, c) := None))"
    using removal_refines [OF del(1)] del(2,3)
    by (simp add: memory_store_def gives_ok run hget_hremove_fun)
next
  obtain rs s' w' where run: "remove_user_agent ord u (s, w) = (rs, s', w')" using prod_cases3 by blast
  note del = remove_user_agent_removal [OF ok room ord run]
  show "gives (so_delete_user_agent (memory_store b64 ord) u) (s, w) (\<lambda>rs sw'.
      mem_ok sw' \<and> room_for mem_view sw' \<and>
      spec_removal (of_user_agent s u) (mem_view s) (wl_last w) rs (mem_view (fst sw')) (wl_last (snd sw')) \<and>
      sp_uas (mem_view (fst sw')) = (sp_uas (mem_view s))(u := None) \<and>
      sp_subs (mem_view (fst sw')) = (\<lambda>k. if fst k = u then None else sp_subs (mem_view s) k))"
    using removal_refines [OF del(1)] del(2,3)
    by (simp add: memory_store_def gives_ok run hget_hremove_fun fun_eq_iff)
next
  obtain rs s' w' where run: "mem_reap ord now (s, w) = (rs, s', w')" using prod_cases3 by blast
  note del = reap_removal [OF ok room ord run]
  show "gives (so_reap (memory_store b64 ord) now) (s, w) (\<lambda>rs sw'.
      mem_ok sw' \<and> room_for mem_view sw' \<and>
      spec_removal (\<lambda>m. m_expiry m \<le> now) (mem_view s) (wl_last w) rs (mem_view (fst sw')) (wl_last (snd sw')) \<and>
      sp_uas (mem_view (fst sw')) = sp_uas (mem_view s) \<and>
      sp_subs (mem_view (fst sw')) = sp_subs (mem_view s))"
    using removal_refines [OF del(1)] del(2)
    by (simp add: memory_store_def gives_ok run same_owners_def)
qed

lemma memory_expire:
  assumes ok: "mem_ok (s, w)" and room: "room (s, w)" and ord: "is_order ord"
  shows "gives (so_expire_user_agents (memory_store b64 ord) cutoff) (s, w) (\<lambda>(count, rs) sw'.
      mem_ok sw' \<and> room_for mem_view sw' \<and>
      count = card {u. stale (mem_view s) cutoff u} \<and>
      spec_removal (\<lambda>m. stale (mem_view s) cutoff (m_uaid m) \<and> of_user_agent s (m_uaid m) m)
        (mem_view s) (wl_last w) rs (mem_view (fst sw')) (wl_last (snd sw')) \<and>
      sp_uas (mem_view (fst sw')) = (\<lambda>u. if stale (mem_view s) cutoff u then None else sp_uas (mem_view s) u) \<and>
      sp_subs (mem_view (fst sw')) =
        (\<lambda>k. if stale (mem_view s) cutoff (fst k) then None else sp_subs (mem_view s) k))"
proof -
  note uas = mem_okD(1) [OF ok]
  have distinct: "hdistinct (st_user_agents s)" using uas by (simp add: uas_ok_def)
  let ?stale = "map ua_uaid (filter (\<lambda>ua. ua_last_seen ua < cutoff) (hvalues ord (st_user_agents s)))"
  have set: "u \<in> set ?stale \<longleftrightarrow> stale (mem_view s) cutoff u" for u
  proof -
    have "u \<in> set ?stale \<longleftrightarrow>
        (\<exists>ua k. hget (st_user_agents s) k = Some ua \<and> ua_last_seen ua < cutoff \<and> ua_uaid ua = u)"
      using set_hvalues_iff [OF ord distinct] by auto
    also have "\<dots> \<longleftrightarrow> stale (mem_view s) cutoff u"
      using uas_ok_key [OF uas] by (auto simp: stale_def)
    finally show ?thesis .
  qed
  have "distinct ?stale"
    by (intro distinct_map_filter distinct_map_hvalues [OF ord distinct]) (rule uas_ok_key [OF uas])
  then have count: "length ?stale = card {u. stale (mem_view s) cutoff u}"
    using set distinct_card [of ?stale] by (metis (no_types, lifting) Collect_cong Collect_mem_eq)
  obtain rs s' w' where run: "remove_user_agents ord ?stale (s, w) = (rs, s', w')"
    using prod_cases3 by blast
  note del = remove_user_agents_removal [OF ok room ord run]
  have "removal (\<lambda>m. stale (mem_view s) cutoff (m_uaid m) \<and> of_user_agent s (m_uaid m) m) (s, w) rs (s', w')"
    by (rule removal_cong [OF conjunct1 [OF del]]) (auto simp: set of_user_agent_def simp del: set_map set_filter)
  from removal_refines [OF this] conjunct2 [OF del] count set show ?thesis
    by (simp add: memory_store_def gives_ok mem_expire_user_agents_def Let_def run fun_eq_iff)
qed

section \<open>The adapter discharges the interface\<close>

text \<open>An iteration order with a proof that it is one, so that the interpretation holds for
  every order Rust may choose.\<close>

typedef ordering = "{ord. is_order ord}"
  by (rule exI [of _ forward_order]) simp

abbreviation mem_store :: "base64 \<Rightarrow> ordering \<Rightarrow> state store" where
  "mem_store b64 ord \<equiv> memory_store b64 (Rep_ordering ord)"

lemma is_order_ordering [simp]: "is_order (Rep_ordering ord)"
  using Rep_ordering by simp

lemma mem_store_view: "store_view mem_view mem_ok"
proof
  fix s w w' assume "mem_ok (s, w)" and "world_le w w'"
  then show "mem_ok (s, w')" by (rule mem_ok_world)
next
  fix sw i m assume "mem_ok sw" and "sp_msgs (mem_view (fst sw)) i = Some m"
  then show "m_id m = i" using msgs_ok_id [OF mem_ok_msgs] by simp
next
  fix sw u c sub assume "mem_ok sw" and "sp_subs (mem_view (fst sw)) (u, c) = Some sub"
  then show "sub_uaid sub = u \<and> sub_channel_id sub = c"
    using subs_ok_key [OF mem_okD(2), of "fst sw" "snd sw" "(u, c)" sub] by simp
qed

lemma mem_route_store: "route_store (mem_store b64 ord) mem_view mem_ok"
proof (intro route_store.intro mem_store_view route_store_axioms.intro)
  fix sw :: "state \<times> world" and to node assume ok: "mem_ok sw"
  obtain s w where sw: "sw = (s, w)" by fastforce
  note ok = ok [unfolded sw]
  show "gives (so_set_route (mem_store b64 ord) to node) sw (\<lambda>r sw'. mem_ok sw' \<and>
      world_le (snd sw) (snd sw') \<and> (r, mem_view (fst sw')) = spec_set_route to node (mem_view (fst sw)))"
    using set_route_refines(1) [OF ok] set_route_refines(2) by (simp add: sw memory_store_def gives_ok)
  show "gives (so_route (mem_store b64 ord) to) sw (\<lambda>r sw'. mem_ok sw' \<and>
      world_le (snd sw) (snd sw') \<and> r = sp_routes (mem_view (fst sw)) to \<and>
      mem_view (fst sw') = mem_view (fst sw))"
    using ok by (simp add: sw memory_store_def gives_ok mem_route_def)
  show "gives (so_clear_route (mem_store b64 ord) to node) sw (\<lambda>r sw'. mem_ok sw' \<and>
      world_le (snd sw) (snd sw') \<and> (r, mem_view (fst sw')) = spec_clear_route to node (mem_view (fst sw)))"
    using clear_route_refines(1) [OF ok] clear_route_refines(2) by (simp add: sw memory_store_def gives_ok)
qed

lemma mem_message_store: "message_store (mem_store b64 ord) mem_view mem_ok"
proof (intro message_store.intro mem_store_view message_store_axioms.intro)
  fix sw :: "state \<times> world" and m u i owner and now :: u64 and limit assume ok: "mem_ok sw"
  obtain s w where sw: "sw = (s, w)" by fastforce
  note ok = ok [unfolded sw]
  show "gives (so_insert_message (mem_store b64 ord) m) sw (\<lambda>_ sw'. mem_ok sw' \<and>
      world_le (snd sw) (snd sw') \<and> mem_view (fst sw') = spec_insert_message m (mem_view (fst sw)))"
    if "sp_msgs (mem_view (fst sw)) (m_id m) = None"
    using insert_message_refines [OF ok, of m] that by (simp add: sw memory_store_def gives_ok)
  show "gives (so_pending (mem_store b64 ord) u now limit) sw (\<lambda>ms sw'. mem_ok sw' \<and>
      world_le (snd sw) (snd sw') \<and> spec_pending (mem_view (fst sw)) u now limit ms \<and>
      mem_view (fst sw') = mem_view (fst sw))"
    using pending_refines [OF _ ok] ok by (simp add: sw memory_store_def gives_ok)
  show "gives (so_message (mem_store b64 ord) i) sw (\<lambda>r sw'. mem_ok sw' \<and>
      world_le (snd sw) (snd sw') \<and> r = sp_msgs (mem_view (fst sw)) i \<and>
      mem_view (fst sw') = mem_view (fst sw))"
    using ok by (simp add: sw memory_store_def gives_ok mem_message_def)
  show "gives (so_delete_message (mem_store b64 ord) i owner) sw (\<lambda>r sw'. mem_ok sw' \<and>
      world_le (snd sw) (snd sw') \<and>
      (r, mem_view (fst sw')) = spec_delete_message i owner (mem_view (fst sw)))"
    using delete_message_refines [OF ok, of i owner] by (simp add: sw memory_store_def gives_ok)
qed

lemma mem_owner_store: "owner_store (mem_store b64 ord) mem_view mem_ok"
proof (intro owner_store.intro mem_store_view owner_store_axioms.intro)
  fix sw :: "state \<times> world" and ua u t c v p and now :: u64 assume ok: "mem_ok sw"
  obtain s w where sw: "sw = (s, w)" by fastforce
  note ok = ok [unfolded sw]
  have "mem_ok (mem_create_user_agent ua s, w)"
    unfolding mem_create_user_agent_def
    by (intro mem_ok_uas [OF ok] uas_ok_insert mem_okD(1) [OF ok]) simp
  moreover have "mem_view (mem_create_user_agent ua s) = spec_create_user_agent ua (mem_view s)"
    by (rule spec_eqI) (simp_all add: mem_create_user_agent_def spec_create_user_agent_def hget_hinsert_fun)
  ultimately show "gives (so_create_user_agent (mem_store b64 ord) ua) sw (\<lambda>_ sw'. mem_ok sw' \<and>
      world_le (snd sw) (snd sw') \<and> mem_view (fst sw') = spec_create_user_agent ua (mem_view (fst sw)))"
    by (simp add: sw memory_store_def gives_ok)
  show "gives (so_user_agent (mem_store b64 ord) u) sw (\<lambda>r sw'. mem_ok sw' \<and>
      world_le (snd sw) (snd sw') \<and> r = sp_uas (mem_view (fst sw)) u \<and>
      mem_view (fst sw') = mem_view (fst sw))"
    using ok by (simp add: sw memory_store_def gives_ok mem_user_agent_def)
  show "gives (so_touch_user_agent (mem_store b64 ord) u now) sw (\<lambda>r sw'. mem_ok sw' \<and>
      world_le (snd sw) (snd sw') \<and>
      (r, mem_view (fst sw')) = spec_touch_user_agent u now (mem_view (fst sw)))"
    using mem_ok_touch [OF ok] touch_refines [of u now s] by (simp add: sw memory_store_def gives_ok)
  show "gives (so_update_bridge_token (mem_store b64 ord) u t) sw (\<lambda>r sw'. mem_ok sw' \<and>
      world_le (snd sw) (snd sw') \<and>
      (r, mem_view (fst sw')) = spec_update_bridge_token u t (mem_view (fst sw)))"
    using mem_ok_token [OF ok] token_refines [of u t s] by (simp add: sw memory_store_def gives_ok)
  show "gives (so_subscriptions (mem_store b64 ord) u) sw (\<lambda>r sw'. mem_ok sw' \<and>
      world_le (snd sw) (snd sw') \<and> mem_view (fst sw') = mem_view (fst sw) \<and> distinct r \<and>
      set r = {sub. sp_subs (mem_view (fst sw)) (u, sub_channel_id sub) = Some sub})"
    using subscriptions_refines [OF _ ok, of _ u] ok by (simp add: sw memory_store_def gives_ok)
  show "gives (so_channel (mem_store b64 ord) u c) sw (\<lambda>r sw'. mem_ok sw' \<and>
      world_le (snd sw) (snd sw') \<and> r = sp_subs (mem_view (fst sw)) (u, c) \<and>
      mem_view (fst sw') = mem_view (fst sw))"
    using ok by (simp add: sw memory_store_def gives_ok mem_channel_def)
  show "gives (so_subscription_by_push (mem_store b64 ord) p) sw (\<lambda>r sw'. mem_ok sw' \<and>
      world_le (snd sw) (snd sw') \<and> spec_by_push p (mem_view (fst sw)) r \<and>
      mem_view (fst sw') = mem_view (fst sw))"
    using by_push_refines [OF ok, of p] ok by (simp add: sw memory_store_def gives_ok)
  assume absent: "sp_subs (mem_view (fst sw)) (u, c) = None"
  obtain sub s' w' where run: "mem_create_subscription b64 u c v (s, w) = (sub, s', w')"
    using prod_cases3 by blast
  from absent have "hget (st_channels s) (u, c) = None" by (simp add: sw)
  from create_subscription_refines [OF ok this run]
  show "gives (so_create_subscription (mem_store b64 ord) u c v) sw (\<lambda>sub sw'.
      sub_uaid sub = u \<and> sub_channel_id sub = c \<and> sub_vapid sub = v \<and>
      world_le (snd sw) (snd sw') \<and> (push_unused (sub_push sub) (mem_view (fst sw)) \<longrightarrow>
        mem_ok sw' \<and> mem_view (fst sw') = spec_create_subscription sub (mem_view (fst sw))))"
    by (simp add: sw memory_store_def gives_ok run)
qed

lemma mem_receipt_store: "receipt_store (mem_store b64 ord) mem_view mem_ok"
proof (intro receipt_store.intro mem_store_view receipt_store_axioms.intro)
  fix sw :: "state \<times> world" and rsub r n and seq :: u64 assume ok: "mem_ok sw"
  obtain s w where sw: "sw = (s, w)" by fastforce
  note ok = ok [unfolded sw]
  obtain x s' w' where run: "mem_create_receipt_sub b64 (s, w) = (x, s', w')" using prod_cases3 by blast
  from create_receipt_sub_refines [OF ok run]
  show "gives (so_create_receipt_sub (mem_store b64 ord)) sw (\<lambda>rsub sw'.
      world_le (snd sw) (snd sw') \<and> mem_ok sw' \<and> mem_view (fst sw') =
        (mem_view (fst sw))\<lparr>sp_queues := (sp_queues (mem_view (fst sw)))(rsub \<mapsto> [])\<rparr>)"
    by (simp add: sw memory_store_def gives_ok run)
  show "gives (so_receipt_sub_exists (mem_store b64 ord) rsub) sw (\<lambda>r sw'. mem_ok sw' \<and>
      world_le (snd sw) (snd sw') \<and> (r \<longleftrightarrow> sp_queues (mem_view (fst sw)) rsub \<noteq> None) \<and>
      mem_view (fst sw') = mem_view (fst sw))"
    using ok by (simp add: sw memory_store_def gives_ok mem_receipt_sub_exists_def)
  show "gives (so_delete_receipt_sub (mem_store b64 ord) rsub) sw (\<lambda>r sw'. mem_ok sw' \<and>
      world_le (snd sw) (snd sw') \<and> (r \<longleftrightarrow> sp_queues (mem_view (fst sw)) rsub \<noteq> None) \<and>
      mem_view (fst sw') =
        (mem_view (fst sw))\<lparr>sp_queues := (sp_queues (mem_view (fst sw)))(rsub := None)\<rparr>)"
    using delete_receipt_sub_refines [OF ok, of rsub]
    by (simp add: sw memory_store_def gives_ok mem_delete_receipt_sub_def)
  show "gives (so_queued_receipts (mem_store b64 ord) rsub) sw (\<lambda>q sw'. mem_ok sw' \<and>
      world_le (snd sw) (snd sw') \<and> mem_view (fst sw') = mem_view (fst sw) \<and>
      sorted_wrt (<) (map fst q) \<and>
      q = (case sp_queues (mem_view (fst sw)) rsub of None \<Rightarrow> [] | Some q \<Rightarrow> q))"
    using queued_receipts_refines [OF ok, of rsub] ok
    by (simp add: sw memory_store_def gives_ok mem_queued_receipts_def)
  show "gives (so_delete_receipt (mem_store b64 ord) rsub seq) sw (\<lambda>_ sw'. mem_ok sw' \<and>
      world_le (snd sw) (snd sw') \<and> mem_view (fst sw') = (mem_view (fst sw))\<lparr>sp_queues :=
        (\<lambda>k. if k = rsub then map_option (AList.delete seq) (sp_queues (mem_view (fst sw)) k)
              else sp_queues (mem_view (fst sw)) k)\<rparr>)"
    using delete_receipt_refines [OF ok, of rsub seq]
    unfolding sw fst_conv snd_conv by (simp add: memory_store_def gives_ok)
  assume room: "seq_room (Suc n) (snd sw)"
  obtain x s' w' where run: "mem_enqueue_receipt r (s, w) = (x, s', w')" using prod_cases3 by blast
  from enqueue_receipt_refines [OF ok _ run] room
  show "gives (so_enqueue_receipt (mem_store b64 ord) r) sw (\<lambda>x sw'. mem_ok sw' \<and>
      world_le (snd sw) (snd sw') \<and> seq_room n (snd sw') \<and>
      (x \<noteq> None \<longleftrightarrow> sp_queues (mem_view (fst sw)) (rc_rsub r) \<noteq> None) \<and>
      (\<forall>seq. x = Some seq \<longrightarrow> wl_last (snd sw) < seq) \<and> mem_view (fst sw') =
        spec_enqueue (case x of None \<Rightarrow> [] | Some seq \<Rightarrow> [(seq, r)]) (mem_view (fst sw)))"
    by (simp add: sw memory_store_def gives_ok run)
qed

lemma removal_exI:
  "A \<and> B \<and> R g \<and> C \<and> D \<Longrightarrow> \<forall>m. g m \<longrightarrow> P m \<Longrightarrow> \<forall>m. Q m \<longrightarrow> g m \<Longrightarrow>
   A \<and> B \<and> (\<exists>g. R g \<and> (\<forall>m. g m \<longrightarrow> P m) \<and> (\<forall>m. Q m \<longrightarrow> g m)) \<and> C \<and> D"
  "A \<and> B \<and> K \<and> R g \<and> C \<and> D \<Longrightarrow> \<forall>m. g m \<longrightarrow> P m \<Longrightarrow> \<forall>m. Q m \<longrightarrow> g m \<Longrightarrow>
   A \<and> B \<and> K \<and> (\<exists>g. R g \<and> (\<forall>m. g m \<longrightarrow> P m) \<and> (\<forall>m. Q m \<longrightarrow> g m)) \<and> C \<and> D"
  by blast+

lemma mem_removal_store: "removal_store (mem_store b64 ord) mem_view mem_ok"
proof (intro removal_store.intro mem_store_view removal_store_axioms.intro)
  fix sw :: "state \<times> world" and u c and now cutoff :: u64
  assume ok: "mem_ok sw" and room: "room_for mem_view sw"
  obtain s w where sw: "sw = (s, w)" by fastforce
  from room room_view [OF ok] have room: "room (s, w)" by (simp add: sw)
  note ok = ok [unfolded sw]
  note laws = memory_removals [OF ok room is_order_ordering]
  show "gives (so_delete_subscription (mem_store b64 ord) u c) sw (\<lambda>rs sw'. mem_ok sw' \<and>
      room_for mem_view sw' \<and>
      spec_removal (\<lambda>m. sp_subs (mem_view (fst sw)) (u, c) \<noteq> None \<and> m_uaid m = u \<and> m_channel_id m = c)
        (mem_view (fst sw)) (wl_last (snd sw)) rs (mem_view (fst sw')) (wl_last (snd sw')) \<and>
      sp_uas (mem_view (fst sw')) = sp_uas (mem_view (fst sw)) \<and>
      sp_subs (mem_view (fst sw')) = (sp_subs (mem_view (fst sw)))((u, c) := None))"
    using laws(1) [of b64 ord u c] by (simp add: sw of_channel_def [abs_def])
  show "gives (so_delete_user_agent (mem_store b64 ord) u) sw (\<lambda>rs sw'. mem_ok sw' \<and>
      room_for mem_view sw' \<and>
      (\<exists>gone. spec_removal gone
         (mem_view (fst sw)) (wl_last (snd sw)) rs (mem_view (fst sw')) (wl_last (snd sw')) \<and>
       (\<forall>m. gone m \<longrightarrow> m_uaid m = u) \<and>
       (\<forall>m. m_uaid m = u \<and> sp_subs (mem_view (fst sw)) (u, m_channel_id m) \<noteq> None \<longrightarrow> gone m)) \<and>
      sp_uas (mem_view (fst sw')) = (sp_uas (mem_view (fst sw)))(u := None) \<and>
      sp_subs (mem_view (fst sw')) = (\<lambda>k. if fst k = u then None else sp_subs (mem_view (fst sw)) k))"
    unfolding sw fst_conv snd_conv
  proof (rule gives_mono [OF laws(2) [of b64 ord u]], erule removal_exI(1))
    show "\<forall>m. of_user_agent s u m \<longrightarrow> m_uaid m = u"
      and "\<forall>m. m_uaid m = u \<and> sp_subs (mem_view s) (u, m_channel_id m) \<noteq> None \<longrightarrow> of_user_agent s u m"
      by (simp_all add: of_user_agent_def)
  qed
  show "gives (so_reap (mem_store b64 ord) now) sw (\<lambda>rs sw'. mem_ok sw' \<and> room_for mem_view sw' \<and>
      spec_removal (\<lambda>m. m_expiry m \<le> now)
        (mem_view (fst sw)) (wl_last (snd sw)) rs (mem_view (fst sw')) (wl_last (snd sw')) \<and>
      sp_uas (mem_view (fst sw')) = sp_uas (mem_view (fst sw)) \<and>
      sp_subs (mem_view (fst sw')) = sp_subs (mem_view (fst sw)))"
    using laws(3) [of b64 ord now] by (simp add: sw)
  let ?gone = "\<lambda>m. stale (mem_view s) cutoff (m_uaid m) \<and> of_user_agent s (m_uaid m) m"
  show "gives (so_expire_user_agents (mem_store b64 ord) cutoff) sw (\<lambda>(count, rs) sw'. mem_ok sw' \<and>
      room_for mem_view sw' \<and> count = card {u. stale (mem_view (fst sw)) cutoff u} \<and>
      (\<exists>gone. spec_removal gone
         (mem_view (fst sw)) (wl_last (snd sw)) rs (mem_view (fst sw')) (wl_last (snd sw')) \<and>
       (\<forall>m. gone m \<longrightarrow> stale (mem_view (fst sw)) cutoff (m_uaid m)) \<and>
       (\<forall>m. stale (mem_view (fst sw)) cutoff (m_uaid m) \<and>
          sp_subs (mem_view (fst sw)) (m_uaid m, m_channel_id m) \<noteq> None \<longrightarrow> gone m)) \<and>
      sp_uas (mem_view (fst sw')) =
        (\<lambda>u. if stale (mem_view (fst sw)) cutoff u then None else sp_uas (mem_view (fst sw)) u) \<and>
      sp_subs (mem_view (fst sw')) =
        (\<lambda>k. if stale (mem_view (fst sw)) cutoff (fst k) then None else sp_subs (mem_view (fst sw)) k))"
    unfolding sw fst_conv snd_conv
  proof (rule gives_mono [OF memory_expire [OF ok room is_order_ordering, of b64 ord cutoff]],
      unfold case_prod_beta, erule removal_exI(2))
    show "\<forall>m. ?gone m \<longrightarrow> stale (mem_view s) cutoff (m_uaid m)"
      and "\<forall>m. stale (mem_view s) cutoff (m_uaid m) \<and>
          sp_subs (mem_view s) (m_uaid m, m_channel_id m) \<noteq> None \<longrightarrow> ?gone m"
      by (simp_all add: of_user_agent_def)
  qed
qed

interpretation mem: full_store "mem_store b64 ord" mem_view mem_ok
  by (intro full_store.intro mem_route_store mem_message_store mem_owner_store mem_receipt_store
      mem_removal_store)

end
