(* ===== verification/Store_Run.thy ===== *)
theory Store_Run
  imports Memory_Contract
begin

text \<open>
  Runs of a store: any sequence of trait operations whose callers keep the conditions
  the trait documents (a new message has a new id, \<open>create_subscription\<close> is called for a
  channel that does not exist and draws an unused push id). Inside the interface every
  run keeps the adapter's invariant; for the in-memory adapter that is the coherence of
  its maps, and the guarantees listed in the documentation of the trait follow.
\<close>

section \<open>Steps and runs\<close>

inductive store_step :: "'s store \<Rightarrow> ('s \<Rightarrow> spec) \<Rightarrow> 's \<times> world \<Rightarrow> 's \<times> world \<Rightarrow> bool"
  for S :: "'s store" and view :: "'s \<Rightarrow> spec" where
  do_tick: "world_le w w' \<Longrightarrow> store_step S view (s, w) (s, w')"
| do_create_user_agent: "so_create_user_agent S ua sw = (Inr x1, sw') \<Longrightarrow> store_step S view sw sw'"
| do_user_agent: "so_user_agent S u sw = (Inr x2, sw') \<Longrightarrow> store_step S view sw sw'"
| do_touch_user_agent: "so_touch_user_agent S u now sw = (Inr x3, sw') \<Longrightarrow> store_step S view sw sw'"
| do_update_bridge_token: "so_update_bridge_token S u t sw = (Inr x3, sw') \<Longrightarrow> store_step S view sw sw'"
| do_delete_user_agent: "so_delete_user_agent S u sw = (Inr x4, sw') \<Longrightarrow> room_for view sw \<Longrightarrow>
    store_step S view sw sw'"
| do_expire_user_agents: "so_expire_user_agents S cutoff sw = (Inr x5, sw') \<Longrightarrow> room_for view sw \<Longrightarrow>
    store_step S view sw sw'"
| do_subscriptions: "so_subscriptions S u sw = (Inr x6, sw') \<Longrightarrow> store_step S view sw sw'"
| do_channel: "so_channel S u c sw = (Inr x7, sw') \<Longrightarrow> store_step S view sw sw'"
| do_create_subscription: "so_create_subscription S u c v sw = (Inr sub, sw') \<Longrightarrow>
    sp_subs (view (fst sw)) (u, c) = None \<Longrightarrow> push_unused (sub_push sub) (view (fst sw)) \<Longrightarrow>
    store_step S view sw sw'"
| do_subscription_by_push: "so_subscription_by_push S p sw = (Inr x7, sw') \<Longrightarrow> store_step S view sw sw'"
| do_delete_subscription: "so_delete_subscription S u c sw = (Inr x4, sw') \<Longrightarrow> room_for view sw \<Longrightarrow>
    store_step S view sw sw'"
| do_insert_message: "so_insert_message S m sw = (Inr x1, sw') \<Longrightarrow>
    sp_msgs (view (fst sw)) (m_id m) = None \<Longrightarrow> store_step S view sw sw'"
| do_pending: "so_pending S u now limit sw = (Inr ms, sw') \<Longrightarrow> store_step S view sw sw'"
| do_message: "so_message S i sw = (Inr x8, sw') \<Longrightarrow> store_step S view sw sw'"
| do_delete_message: "so_delete_message S i owner sw = (Inr x8, sw') \<Longrightarrow> store_step S view sw sw'"
| do_create_receipt_sub: "so_create_receipt_sub S sw = (Inr x9, sw') \<Longrightarrow> store_step S view sw sw'"
| do_receipt_sub_exists: "so_receipt_sub_exists S rsub sw = (Inr x3, sw') \<Longrightarrow> store_step S view sw sw'"
| do_delete_receipt_sub: "so_delete_receipt_sub S rsub sw = (Inr x3, sw') \<Longrightarrow> store_step S view sw sw'"
| do_enqueue_receipt: "so_enqueue_receipt S r sw = (Inr x10, sw') \<Longrightarrow> seq_room 1 (snd sw) \<Longrightarrow>
    store_step S view sw sw'"
| do_queued_receipts: "so_queued_receipts S rsub sw = (Inr x4, sw') \<Longrightarrow> store_step S view sw sw'"
| do_delete_receipt: "so_delete_receipt S rsub seq sw = (Inr x1, sw') \<Longrightarrow> store_step S view sw sw'"
| do_reap: "so_reap S now sw = (Inr x4, sw') \<Longrightarrow> room_for view sw \<Longrightarrow> store_step S view sw sw'"
| do_set_route: "so_set_route S to node sw = (Inr x9', sw') \<Longrightarrow> store_step S view sw sw'"
| do_route: "so_route S to sw = (Inr x9', sw') \<Longrightarrow> store_step S view sw sw'"
| do_clear_route: "so_clear_route S to node sw = (Inr x3, sw') \<Longrightarrow> store_step S view sw sw'"

abbreviation store_run :: "'s store \<Rightarrow> ('s \<Rightarrow> spec) \<Rightarrow> 's \<times> world \<Rightarrow> 's \<times> world \<Rightarrow> bool" where
  "store_run S view \<equiv> (store_step S view)\<^sup>*\<^sup>*"

context full_store
begin

lemma step_inv:
  assumes "store_step S view sw sw'" and "inv sw"
  shows "inv sw'"
  using assms
proof (induction rule: store_step.induct)
  case (do_tick w w' s)
  then show ?case using inv_world by blast
next
  case (do_create_user_agent ua sw x1 sw')
  then show ?case using givesD [OF create_user_agent] by blast
next
  case (do_user_agent u sw x2 sw')
  then show ?case using givesD [OF user_agent] by blast
next
  case (do_touch_user_agent u now sw x3 sw')
  then show ?case using givesD [OF touch_user_agent] by blast
next
  case (do_update_bridge_token u t sw x3 sw')
  then show ?case using givesD [OF update_bridge_token] by blast
next
  case (do_delete_user_agent u sw x4 sw')
  then show ?case using givesD [OF delete_user_agent] by blast
next
  case (do_expire_user_agents cutoff sw x5 sw')
  then show ?case using givesD [OF expire_user_agents] by (cases x5) fastforce
next
  case (do_subscriptions u sw x6 sw')
  then show ?case using givesD [OF subscriptions] by blast
next
  case (do_channel u c sw x7 sw')
  then show ?case using givesD [OF channel] by blast
next
  case (do_create_subscription u c v sw sub sw')
  then show ?case using givesD [OF create_subscription] by blast
next
  case (do_subscription_by_push p sw x7 sw')
  then show ?case using givesD [OF subscription_by_push] by blast
next
  case (do_delete_subscription u c sw x4 sw')
  then show ?case using givesD [OF delete_subscription] by blast
next
  case (do_insert_message m sw x1 sw')
  then show ?case using givesD [OF insert_message] by blast
next
  case (do_pending u now limit sw ms sw')
  then show ?case using givesD [OF pending] by blast
next
  case (do_message i sw x8 sw')
  then show ?case using givesD [OF message] by blast
next
  case (do_delete_message i owner sw x8 sw')
  then show ?case using givesD [OF delete_message] by blast
next
  case (do_create_receipt_sub sw x9 sw')
  then show ?case using givesD [OF create_receipt_sub] by blast
next
  case (do_receipt_sub_exists rsub sw x3 sw')
  then show ?case using givesD [OF receipt_sub_exists] by blast
next
  case (do_delete_receipt_sub rsub sw x3 sw')
  then show ?case using givesD [OF delete_receipt_sub] by blast
next
  case (do_enqueue_receipt r sw x10 sw')
  then show ?case using givesD [OF enqueue_receipt [of _ 0]] by (metis One_nat_def)
next
  case (do_queued_receipts rsub sw x4 sw')
  then show ?case using givesD [OF queued_receipts] by blast
next
  case (do_delete_receipt rsub seq sw x1 sw')
  then show ?case using givesD [OF delete_receipt] by blast
next
  case (do_reap now sw x4 sw')
  then show ?case using givesD [OF reap] by blast
next
  case (do_set_route to node sw x9' sw')
  then show ?case using givesD [OF set_route] by blast
next
  case (do_route to sw x9' sw')
  then show ?case using givesD [OF route] by blast
next
  case (do_clear_route to node sw x3 sw')
  then show ?case using givesD [OF clear_route] by blast
qed

lemma run_inv: "store_run S view sw sw' \<Longrightarrow> inv sw \<Longrightarrow> inv sw'"
  by (induction rule: rtranclp_induct) (auto intro: step_inv)

end

end
