(* ===== verification/Memory_Props.thy ===== *)
theory Memory_Props
  imports Store_Run
begin

text \<open>
  The guarantees the \<open>Store\<close> trait lists, for the in-memory adapter in any state a run can
  reach, and a small run on which they are exercised.
\<close>

section \<open>Two lists in the same strict order\<close>

lemma older_unique:
  assumes "sorted_wrt older xs" and "sorted_wrt older ys" and "set xs = set ys"
    and "\<And>a b. a \<in> set xs \<Longrightarrow> b \<in> set xs \<Longrightarrow> m_id a = m_id b \<Longrightarrow> a = b"
  shows "xs = ys"
proof -
  let ?key = "\<lambda>m. (m_accepted m, m_id m)"
  have "sorted_wrt (<) (map ?key xs)" and "sorted_wrt (<) (map ?key ys)"
    using assms(1,2) unfolding sorted_wrt_map older_def [abs_def] by blast+
  moreover have "set (map ?key ys) = set (map ?key xs)" using assms(3) by simp
  ultimately have "map ?key ys = map ?key xs" by (rule strict_sorted_equal)
  then have "map ?key xs = map ?key ys" by simp
  moreover have "inj_on ?key (set xs \<union> set ys)"
    using assms(3,4) by (auto simp: inj_on_def)
  ultimately show ?thesis by (simp add: inj_on_map_eq_map)
qed

lemma pending_unique:
  assumes keys: "\<And>i m. sp_msgs sp i = Some m \<Longrightarrow> m_id m = i"
    and "spec_pending sp u now limit xs" and "spec_pending sp u now limit ys"
  shows "xs = ys"
proof -
  obtain as bs where as: "set as = {m. deliverable sp u now m}" "sorted_wrt older as" "xs = take limit as"
    and bs: "set bs = {m. deliverable sp u now m}" "sorted_wrt older bs" "ys = take limit bs"
    using assms(2,3) unfolding spec_pending_def by blast
  have "a = b" if "a \<in> set as" "b \<in> set as" "m_id a = m_id b" for a b
  proof -
    have "sp_msgs sp (m_id a) = Some a" and "sp_msgs sp (m_id b) = Some b"
      using that(1,2) as(1) by (auto simp: deliverable_def)
    then have "Some a = Some b" unfolding that(3) by (rule trans [OF sym])
    then show ?thesis by (simp only: option.inject)
  qed
  then have "as = bs"
    by (rule older_unique [OF as(2) bs(2) trans [OF as(1) bs(1) [symmetric]]])
  with as(3) bs(3) show ?thesis by (simp only:)
qed

section \<open>A run\<close>

definition demo_world :: world where
  "demo_world = \<lparr>wl_clock = (\<lambda>_. 1000), wl_reads = 0, wl_entropy = (\<lambda>k n. of_nat (k + n)),
     wl_draws = 0, wl_last = 0\<rparr>"

definition demo_b64 :: base64 where
  "demo_b64 = \<lparr>b64_encode = (\<lambda>bs. concat (map hex2 bs)), b64_decode = (\<lambda>_. None)\<rparr>"

definition demo_order :: ordering where
  "demo_order = Abs_ordering forward_order"

lemma demo_order_rep [simp]: "Rep_ordering demo_order = forward_order"
  by (simp add: demo_order_def Abs_ordering_inverse)

definition demo_message :: "string \<Rightarrow> string option \<Rightarrow> u64 \<Rightarrow> message" where
  "demo_message i rsub accepted = \<lparr>m_id = i, m_uaid = ''ua'', m_channel_id = ''ch'', m_push = ''p'',
     m_topic = Some ''t'', m_body = [], m_ctype = None, m_cenc = None, m_ttl = 60, m_urgency = Normal,
     m_accepted = accepted, m_expiry = accepted + 60000, m_rsub = rsub\<rparr>"

text \<open>A user agent subscribes, and a message that asks for a receipt is stored.\<close>

definition demo_subscribed :: "subscription \<times> state \<times> world" where
  "demo_subscribed = mem_create_subscription demo_b64 ''ua'' ''ch'' None
     (mem_create_user_agent \<lparr>ua_uaid = ''ua'', ua_bridge = None, ua_last_seen = 5\<rparr> new_state, demo_world)"

definition demo_receipt_sub :: "string \<times> state \<times> world" where
  "demo_receipt_sub = mem_create_receipt_sub demo_b64 (snd demo_subscribed)"

definition demo_state :: state where
  "demo_state = mem_insert_message (demo_message ''m1'' (Some (fst demo_receipt_sub)) 1000)
     (fst (snd demo_receipt_sub))"

definition demo_now :: world where
  "demo_now = snd (snd demo_receipt_sub)"

lemma demo_empty:
  "st_messages (fst (snd demo_receipt_sub)) = []" "st_topics (fst (snd demo_receipt_sub)) = []"
  "st_messages (fst (snd demo_subscribed)) = []" "st_topics (fst (snd demo_subscribed)) = []"
  by (simp_all add: demo_receipt_sub_def demo_subscribed_def mem_create_receipt_sub_def
      mem_create_subscription_def mem_create_user_agent_def new_state_def Let_def case_prod_beta)

lemma demo_run: "store_run (mem_store demo_b64 demo_order) mem_view (new_state, demo_world) (demo_state, demo_now)"
proof -
  let ?S = "mem_store demo_b64 demo_order"
  let ?s1 = "mem_create_user_agent \<lparr>ua_uaid = ''ua'', ua_bridge = None, ua_last_seen = 5\<rparr> new_state"
  have "store_step ?S mem_view (new_state, demo_world) (?s1, demo_world)"
    by (rule do_create_user_agent) (simp add: memory_store_def ok_write_def)
  moreover have "store_step ?S mem_view (?s1, demo_world) (snd demo_subscribed)"
    by (rule do_create_subscription [of _ "''ua''" "''ch''" None _ "fst demo_subscribed"])
      (simp_all add: memory_store_def ok_step_def demo_subscribed_def case_prod_beta
        mem_create_user_agent_def new_state_def push_unused_def)
  moreover have "store_step ?S mem_view (snd demo_subscribed) (snd demo_receipt_sub)"
    by (rule do_create_receipt_sub) (simp add: memory_store_def ok_step_def demo_receipt_sub_def case_prod_beta)
  moreover have "store_step ?S mem_view (snd demo_receipt_sub) (demo_state, demo_now)"
    by (rule do_insert_message [of _ "demo_message ''m1'' (Some (fst demo_receipt_sub)) 1000"])
      (simp_all add: memory_store_def ok_write_def demo_state_def demo_now_def demo_empty)
  ultimately show ?thesis by (meson converse_rtranclp_into_rtranclp rtranclp.rtrancl_refl)
qed

section \<open>The guarantees\<close>

lemma run_ok: "store_run (mem_store b64 ord) mem_view (new_state, w) (s, w') \<Longrightarrow> mem_ok (s, w')"
  using mem.run_inv mem_ok_new by blast



text \<open>
  \<open>pending\<close> returns the first \<open>limit\<close> of exactly the user agent's unexpired messages,
  oldest first and ties by id, and the answer does not depend on the order in which the
  hash map is visited.
\<close>

theorem pending_oldest_first:
  assumes "store_run (mem_store b64 ord) mem_view (new_state, w) (s, w')"
    and "is_order o1" and "is_order o2"
  shows "spec_pending (mem_view s) u now limit (mem_pending o1 u now limit s) \<and>
    mem_pending o1 u now limit s = mem_pending o2 u now limit s"
proof -
  note ok = run_ok [OF assms(1)]
  note p = pending_refines [OF assms(2) ok, of u now limit] pending_refines [OF assms(3) ok, of u now limit]
  have "mem_pending o1 u now limit s = mem_pending o2 u now limit s"
    by (rule pending_unique [OF _ p]) (simp add: msgs_ok_id [OF mem_okD(3) [OF ok]])
  with p(1) show ?thesis by blast
qed

lemma pending_oldest_first_witness:
  "spec_pending (mem_view demo_state) ''ua'' 2000 5 (mem_pending forward_order ''ua'' 2000 5 demo_state) \<and>
   mem_pending forward_order ''ua'' 2000 5 demo_state = mem_pending backward_order ''ua'' 2000 5 demo_state"
  by (rule pending_oldest_first [OF demo_run is_order_forward is_order_backward])

text \<open>
  Storing a message under a new id makes it readable under that id, removes the one
  message it replaces (same user agent, channel and topic) and no other, and leaves at
  most one stored message per user agent, channel and topic.
\<close>

theorem topic_replacement:
  assumes "store_run (mem_store b64 ord) mem_view (new_state, w) (s, w')"
    and "mem_message (m_id m) s = None"
  shows "mem_message (m_id m) (mem_insert_message m s) = Some m \<and>
    (i \<noteq> m_id m \<longrightarrow> mem_message i (mem_insert_message m s) =
       (case mem_message i s of None \<Rightarrow> None | Some m' \<Rightarrow> if replaces m m' then None else Some m')) \<and>
    (mem_message j (mem_insert_message m s) = Some a \<and> mem_message k (mem_insert_message m s) = Some b \<and>
       replaces a b \<longrightarrow> j = k)"
proof -
  note ok = run_ok [OF assms(1)]
  from assms(2) have fresh: "hget (st_messages s) (m_id m) = None" by (simp add: mem_message_def)
  note ins = insert_message_refines [OF ok fresh]
  have msgs: "mem_message i (mem_insert_message m s) = sp_msgs (spec_insert_message m (mem_view s)) i" for i
    using arg_cong [OF ins(2), of sp_msgs] by (simp add: mem_message_def)
  have "j = k" if stored: "mem_message j (mem_insert_message m s) = Some a"
    "mem_message k (mem_insert_message m s) = Some b" "replaces a b"
  proof -
    obtain t where t: "m_topic a = Some t" using stored(3) by (auto simp: replaces_def)
    with stored(3) have tb: "m_topic b = Some t" and slot: "m_uaid b = m_uaid a" "m_channel_id b = m_channel_id a"
      by (simp_all add: replaces_def)
    note slots = msgs_ok_slot [OF mem_okD(3) [OF ins(1)]]
    from slots [OF stored(1) [unfolded mem_message_def] t]
      slots [OF stored(2) [unfolded mem_message_def] tb, unfolded slot]
    show ?thesis by simp
  qed
  moreover have "mem_message (m_id m) (mem_insert_message m s) = Some m"
    by (simp add: msgs spec_insert_message_def)
  moreover have "mem_message i (mem_insert_message m s) =
      (case mem_message i s of None \<Rightarrow> None | Some m' \<Rightarrow> if replaces m m' then None else Some m')"
    if "i \<noteq> m_id m"
    using that by (simp add: msgs spec_insert_message_def) (simp add: mem_message_def)
  ultimately show ?thesis by blast
qed

lemma topic_replacement_witness:
  "mem_message ''m2'' (mem_insert_message (demo_message ''m2'' None 1500) demo_state) =
     Some (demo_message ''m2'' None 1500) \<and>
   mem_message ''m1'' (mem_insert_message (demo_message ''m2'' None 1500) demo_state) = None"
  using topic_replacement [OF demo_run, of "demo_message ''m2'' None 1500" "''m1''" "''m1''" _ "''m2''"]
  by (simp add: demo_message_def demo_state_def mem_message_def insert_message_parts demo_empty replaces_def)

text \<open>
  Deleting a message returns it only if it is stored under that id and belongs to the
  given owner; then it is gone, so no later delete of that id returns it again (whoever
  asks), and its topic slot is free. Otherwise nothing changes.
\<close>

theorem delete_message_once:
  assumes "store_run (mem_store b64 ord) mem_view (new_state, w) (s, w')"
    and "mem_delete_message i owner s = (r, s')"
  shows "(r = (case mem_message i s of Some m \<Rightarrow> if permits owner m then Some m else None | None \<Rightarrow> None)) \<and>
    (r = None \<longrightarrow> s' = s) \<and>
    (\<forall>m. r = Some m \<longrightarrow> m_id m = i \<and> mem_delete_message i owner' s' = (None, s') \<and>
       (\<forall>t. m_topic m = Some t \<longrightarrow> hget (st_topics s') (m_uaid m, m_channel_id m, t) = None))"
proof -
  note ok = run_ok [OF assms(1)]
  show ?thesis
  proof (cases r)
    case None
    with assms(2) show ?thesis
      by (auto simp: mem_delete_message_def mem_message_def permits_def remove_message_Some
          dest: arg_cong [of _ _ fst] split: if_splits option.splits prod.splits)
  next
    case (Some m)
    with assms(2) have m: "hget (st_messages s) i = Some m" and owner: "permits owner m"
      and s': "s' = snd (remove_message i s)"
      by (auto simp: mem_delete_message_def permits_def remove_message_def Let_def
          split: if_splits option.splits prod.splits)
    then show ?thesis
      using Some msgs_ok_id [OF mem_okD(3) [OF ok] m]
      by (simp add: mem_message_def remove_message_Some [OF m] mem_delete_message_def)
  qed
qed

lemma delete_message_once_witness:
  "fst (mem_delete_message ''m1'' (Some (''ua'', ''ch'')) demo_state) =
     Some (demo_message ''m1'' (Some (fst demo_receipt_sub)) 1000) \<and>
   fst (mem_delete_message ''m1'' None (snd (mem_delete_message ''m1'' (Some (''ua'', ''ch'')) demo_state))) = None \<and>
   fst (mem_delete_message ''m1'' (Some (''ua'', ''other'')) demo_state) = None"
proof -
  have m: "mem_message ''m1'' demo_state = Some (demo_message ''m1'' (Some (fst demo_receipt_sub)) 1000)"
    by (simp add: demo_message_def demo_state_def mem_message_def insert_message_parts)
  show ?thesis
    using delete_message_once [OF demo_run surjective_pairing, of "''m1''" "Some (''ua'', ''ch'')" None]
      delete_message_once [OF demo_run surjective_pairing, of "''m1''" "Some (''ua'', ''other'')" None]
    by (simp add: m permits_def demo_message_def)
qed

text \<open>
  C11. Deleting a registered subscription removes exactly its messages, queues exactly one
  410 for each of them that asked for a receipt of a receipt subscription that still
  exists (at the end of its queue, numbered in increasing order past every number issued
  before), leaves user agents, routes and other subscriptions alone, and returns nothing
  when done again.
\<close>

theorem delete_subscription_receipts:
  assumes "store_run (mem_store b64 ord) mem_view (new_state, w) (s, w')" and "room (s, w')"
    and "is_order ord'" and "hget (st_channels s) (u, c) \<noteq> None"
    and "remove_subscription ord' u c (s, w') = (rs, s'', w'')"
  shows "spec_removal (\<lambda>m. m_uaid m = u \<and> m_channel_id m = c) (mem_view s) (wl_last w') rs
      (mem_view s'') (wl_last w'') \<and>
    st_user_agents s'' = st_user_agents s \<and> st_channels s'' = hremove (u, c) (st_channels s) \<and>
    mem_inv s'' \<and> remove_subscription ord' u c (s'', w'') = ([], s'', w'')"
proof -
  note del = remove_subscription_removal [OF run_ok [OF assms(1)] assms(2,3,5)]
  have "of_channel s u c = (\<lambda>m. m_uaid m = u \<and> m_channel_id m = c)"
    using assms(4) by (simp add: of_channel_def fun_eq_iff)
  with removal_refines [OF del(1)] del(2,3) show ?thesis
    by (simp add: mem_ok_def remove_subscription_def)
qed

lemma demo_messages: "st_messages demo_state = [(''m1'', demo_message ''m1'' (Some (fst demo_receipt_sub)) 1000)]"
  by (simp add: demo_state_def insert_message_parts demo_empty demo_message_def hinsert_def)

lemma demo_now_simps: "wl_last demo_now = 0" "wl_clock demo_now k = 1000"
  by (simp_all add: demo_now_def demo_receipt_sub_def demo_subscribed_def mem_create_receipt_sub_def
      mem_create_subscription_def new_id_def random_bytes_def Let_def case_prod_beta demo_world_def)

lemma demo_room: "room (demo_state, demo_now)"
  by (simp add: room_def demo_messages seq_room_def demo_now_simps)

lemma demo_channel: "hget (st_channels demo_state) (''ua'', ''ch'') \<noteq> None"
  by (simp add: demo_state_def insert_message_parts demo_message_def demo_receipt_sub_def
      demo_subscribed_def mem_create_receipt_sub_def mem_create_subscription_def
      Let_def case_prod_beta)

lemma delete_subscription_receipts_witness:
  "\<exists>rs s'' w''. remove_subscription backward_order ''ua'' ''ch'' (demo_state, demo_now) = (rs, s'', w'') \<and>
     mem_message ''m1'' s'' = None"
proof -
  obtain rs s'' w'' where run: "remove_subscription backward_order ''ua'' ''ch'' (demo_state, demo_now) = (rs, s'', w'')"
    using prod_cases3 by blast
  from delete_subscription_receipts [OF demo_run demo_room is_order_backward demo_channel run]
  have "sp_msgs (mem_view s'') ''m1'' = sp_msgs (spec_discard (\<lambda>m. m_uaid m = ''ua'' \<and> m_channel_id m = ''ch'')
      (mem_view demo_state)) ''m1''" by (simp add: spec_removal_def)
  with run show ?thesis
    by (simp add: spec_discard_def mem_message_def demo_state_def insert_message_parts demo_message_def)
qed

text \<open>
  Expiring user agents deletes exactly those last seen before the cutoff with all
  their subscriptions, reports their number, and removes exactly the messages of their
  registered channels, each owing at most one 410; every other user agent keeps its
  record and its subscriptions.
\<close>

theorem expire_user_agents_effect:
  assumes "store_run (mem_store b64 ord) mem_view (new_state, w) (s, w')" and "room (s, w')"
    and "is_order ord'"
    and "mem_expire_user_agents ord' cutoff (s, w') = ((gone, rs), s'', w'')"
  shows "gone = card {u. stale (mem_view s) cutoff u} \<and>
    mem_user_agent u s'' = (if stale (mem_view s) cutoff u then None else mem_user_agent u s) \<and>
    mem_channel u c s'' = (if stale (mem_view s) cutoff u then None else mem_channel u c s) \<and>
    spec_removal (\<lambda>m. stale (mem_view s) cutoff (m_uaid m) \<and> mem_channel (m_uaid m) (m_channel_id m) s \<noteq> None)
      (mem_view s) (wl_last w') rs (mem_view s'') (wl_last w'') \<and> mem_inv s''"
proof -
  have "so_expire_user_agents (memory_store b64 ord') cutoff (s, w') = (Inr (gone, rs), s'', w'')"
    using assms(4) by (simp add: memory_store_def ok_step_def)
  from givesD [OF memory_expire [OF run_ok [OF assms(1)] assms(2,3)] this]
  show ?thesis
    by (simp add: mem_user_agent_def mem_channel_def of_user_agent_def fun_eq_iff mem_ok_def)
qed

lemma demo_uas: "hget (st_user_agents demo_state) ''ua'' = Some \<lparr>ua_uaid = ''ua'', ua_bridge = None, ua_last_seen = 5\<rparr>"
  by (simp add: demo_state_def insert_message_parts demo_message_def demo_receipt_sub_def
      demo_subscribed_def mem_create_receipt_sub_def mem_create_subscription_def mem_create_user_agent_def
      Let_def case_prod_beta)

lemma expire_user_agents_effect_witness:
  "\<exists>gone rs s'' w''. mem_expire_user_agents forward_order 6 (demo_state, demo_now) = ((gone, rs), s'', w'') \<and>
     mem_user_agent ''ua'' s'' = None \<and> mem_channel ''ua'' ''ch'' s'' = None"
proof -
  obtain gone rs s'' w'' where
    run: "mem_expire_user_agents forward_order 6 (demo_state, demo_now) = ((gone, rs), s'', w'')"
    by (metis surj_pair)
  have "stale (mem_view demo_state) 6 ''ua''" by (simp add: stale_def demo_uas)
  with expire_user_agents_effect [OF demo_run demo_room is_order_forward run, of "''ua''" "''ch''"] run
  show ?thesis by simp
qed

text \<open>
  Reaping removes exactly the messages that have expired by \<open>now\<close>, queues exactly one
  410 for each that asked for a receipt of a receipt subscription that still exists, and
  finds nothing left to reap when run again at the same time.
\<close>

theorem reap_expired:
  assumes "store_run (mem_store b64 ord) mem_view (new_state, w) (s, w')" and "room (s, w')"
    and "is_order ord'" and "mem_reap ord' now (s, w') = (rs, s'', w'')"
  shows "spec_removal (\<lambda>m. m_expiry m \<le> now) (mem_view s) (wl_last w') rs (mem_view s'') (wl_last w'') \<and>
    same_owners s s'' \<and> mem_inv s'' \<and> mem_reap ord' now (s'', w'') = ([], s'', w'')"
proof -
  note del = reap_removal [OF run_ok [OF assms(1)] assms(2-4)]
  note ref = removal_refines [OF del(1)]
  have gone: "\<not> m_expiry m \<le> now" if "hget (st_messages s'') i = Some m" for i m
  proof -
    have "sp_msgs (mem_view s'') i = sp_msgs (spec_discard (\<lambda>m. m_expiry m \<le> now) (mem_view s)) i"
      using ref(3) by (simp add: spec_removal_def)
    with that show ?thesis by (auto simp: spec_discard_def split: option.splits if_splits)
  qed
  have "distinct (map fst (st_messages s''))"
    using msgs_ok_distinct [OF mem_okD(3) [OF ref(1)]] by blast
  then have "m \<in> set (hvalues ord' (st_messages s'')) \<longleftrightarrow> (\<exists>i. hget (st_messages s'') i = Some m)" for m
    by (rule set_hvalues_iff [OF assms(3)])
  with gone have "filter (\<lambda>m. m_expiry m \<le> now) (hvalues ord' (st_messages s'')) = []"
    unfolding filter_empty_conv by blast
  then have "mem_reap ord' now (s'', w'') = ([], s'', w'')" by (simp add: mem_reap_def)
  with ref(1,3) del(2) show ?thesis by (simp add: mem_ok_def)
qed

lemma reap_expired_witness:
  "\<exists>rs s'' w''. mem_reap forward_order 61000 (demo_state, demo_now) = (rs, s'', w'') \<and>
     mem_message ''m1'' s'' = None"
proof -
  obtain rs s'' w'' where run: "mem_reap forward_order 61000 (demo_state, demo_now) = (rs, s'', w'')"
    using prod_cases3 by blast
  from reap_expired [OF demo_run demo_room is_order_forward run]
  have "sp_msgs (mem_view s'') ''m1'' = sp_msgs (spec_discard (\<lambda>m. m_expiry m \<le> 61000) (mem_view demo_state)) ''m1''"
    by (simp add: spec_removal_def)
  with run show ?thesis
    by (simp add: spec_discard_def mem_message_def demo_messages demo_message_def hget_def)
qed

text \<open>
  A receipt for an existing receipt subscription is queued last under a number greater
  than every number in any queue and than every number issued before, and no other queue
  changes; a receipt for a deleted subscription is dropped.
\<close>

theorem enqueue_receipt_last:
  assumes "store_run (mem_store b64 ord) mem_view (new_state, w) (s, w')" and "seq_room 1 w'"
    and "mem_enqueue_receipt r (s, w') = (x, s'', w'')"
  shows "(case x of
      None \<Rightarrow> \<not> mem_receipt_sub_exists (rc_rsub r) s \<and> s'' = s
    | Some seq \<Rightarrow> mem_receipt_sub_exists (rc_rsub r) s \<and> wl_last w' < seq \<and>
        (\<forall>rsub. \<forall>y\<in>set (mem_queued_receipts rsub s). fst y < seq) \<and>
        (\<forall>rsub. mem_queued_receipts rsub s'' = mem_queued_receipts rsub s @
           (if rsub = rc_rsub r then [(seq, r)] else [])))"
proof (cases x)
  case None
  with assms(3) show ?thesis
    by (auto simp: mem_enqueue_receipt_def mem_receipt_sub_exists_def split: option.splits prod.splits)
next
  case (Some seq)
  note ok = run_ok [OF assms(1)]
  from assms(2) have "seq_room (Suc 0) w'" by simp
  from enqueue_receipt_refines [OF ok this assms(3)] Some
  have exists: "hget (st_receipts s) (rc_rsub r) \<noteq> None" and new: "wl_last w' < seq"
    and view: "mem_view s'' = spec_enqueue [(seq, r)] (mem_view s)" by simp_all
  have "fst y < seq" if "y \<in> set (mem_queued_receipts rsub s)" for rsub y
  proof -
    from that obtain q where q: "hget (st_receipts s) rsub = Some q" "y \<in> set q"
      by (cases "hget (st_receipts s) rsub") (auto simp: mem_queued_receipts_def)
    then have "fst y \<le> wl_last w'" by (intro queue_bound_get [OF mem_okD(6) [OF ok] q(1)]) simp
    with new show ?thesis by (rule order.strict_trans1 [rotated])
  qed
  moreover have "mem_queued_receipts rsub s'' = mem_queued_receipts rsub s @
      (if rsub = rc_rsub r then [(seq, r)] else [])" for rsub
    using fun_cong [OF arg_cong [OF view, of sp_queues], of rsub] exists
    by (auto simp: spec_enqueue_def mem_queued_receipts_def split: option.splits)
  ultimately show ?thesis
    using Some exists new by (simp add: mem_receipt_sub_exists_def)
qed

lemma enqueue_receipt_last_witness:
  "case fst (mem_enqueue_receipt \<lparr>rc_rsub = fst demo_receipt_sub, rc_msg_id = ''m1'', rc_status = 204\<rparr>
      (demo_state, demo_now)) of None \<Rightarrow> False | Some seq \<Rightarrow> 0 < seq"
proof -
  let ?r = "\<lparr>rc_rsub = fst demo_receipt_sub, rc_msg_id = ''m1'', rc_status = 204\<rparr>"
  obtain x s'' w'' where run: "mem_enqueue_receipt ?r (demo_state, demo_now) = (x, s'', w'')"
    using prod_cases3 by blast
  have room: "seq_room 1 demo_now" by (simp add: seq_room_def demo_now_simps)
  have "mem_receipt_sub_exists (fst demo_receipt_sub) demo_state"
    by (simp add: mem_receipt_sub_exists_def demo_state_def insert_message_parts demo_receipt_sub_def
        mem_create_receipt_sub_def Let_def case_prod_beta)
  with enqueue_receipt_last [OF demo_run room run] run demo_now_simps(1) show ?thesis
    by (simp split: option.splits)
qed

text \<open>
  A push resource id resolves to a subscription exactly while that subscription is
  registered: right after \<open>create_subscription\<close> for an absent channel with an unused id it
  resolves to the new subscription, and after \<open>delete_subscription\<close> it resolves to nothing.
\<close>

theorem push_resolution:
  assumes "store_run (mem_store b64 ord) mem_view (new_state, w) (s, w')"
    and "mem_channel u c s = None" and "mem_create_subscription b64' u c v (s, w') = (sub, s1, w1)"
    and "push_unused (sub_push sub) (mem_view s)" and "room (s1, w1)" and "is_order ord'"
    and "remove_subscription ord' u c (s1, w1) = (rs, s2, w2)"
  shows "mem_subscription_by_push (sub_push sub) s = None \<and>
    mem_subscription_by_push (sub_push sub) s1 = Some sub \<and>
    sub_uaid sub = u \<and> sub_channel_id sub = c \<and> sub_vapid sub = v \<and>
    (p \<noteq> sub_push sub \<longrightarrow> mem_subscription_by_push p s1 = mem_subscription_by_push p s) \<and>
    mem_subscription_by_push (sub_push sub) s2 = None"
proof -
  note ok = run_ok [OF assms(1)]
  from assms(2) have absent: "hget (st_channels s) (u, c) = None" by (simp add: mem_channel_def)
  note new = create_subscription_refines [OF ok absent assms(3)]
  have ok1: "mem_ok (s1, w1)" and view1: "mem_view s1 = spec_create_subscription sub (mem_view s)"
    using new(5) [OF assms(4)] by blast+
  note del = remove_subscription_removal [OF ok1 assms(5-7)]
  note ok2 = removal_refines(1) [OF del(1)]
  have by_push: "mem_subscription_by_push p s = Some x \<longleftrightarrow>
      hget (st_channels s) (sub_uaid x, sub_channel_id x) = Some x \<and> sub_push x = p"
    if "mem_ok (s, w)" for s w p x
    using by_push_refines [OF that, of p] by (simp add: spec_by_push_def)
  have chans1: "hget (st_channels s1) k = (if k = (u, c) then Some sub else hget (st_channels s) k)" for k
    using fun_cong [OF arg_cong [OF view1, of sp_subs], of k] new(1,2)
    by (simp add: spec_create_subscription_def)
  have before: "mem_subscription_by_push (sub_push sub) s = None"
  proof (cases "mem_subscription_by_push (sub_push sub) s")
    case (Some x)
    with by_push [OF ok] assms(4) show ?thesis by (auto simp: push_unused_def)
  qed
  have created: "mem_subscription_by_push (sub_push sub) s1 = Some sub"
    unfolding by_push [OF ok1] using new(1,2) by (simp add: chans1)
  have "mem_subscription_by_push p s1 = mem_subscription_by_push p s" if "p \<noteq> sub_push sub"
  proof -
    have "mem_subscription_by_push p s1 = Some x \<longleftrightarrow> mem_subscription_by_push p s = Some x" for x
      unfolding by_push [OF ok1] by_push [OF ok] using that absent
      by (cases "(sub_uaid x, sub_channel_id x) = (u, c)") (auto simp: chans1)
    then show ?thesis by (metis not_None_eq)
  qed
  moreover have "mem_subscription_by_push (sub_push sub) s2 = None"
  proof (rule ccontr)
    assume "mem_subscription_by_push (sub_push sub) s2 \<noteq> None"
    then obtain x where "mem_subscription_by_push (sub_push sub) s2 = Some x" by blast
    then have x: "hget (st_channels s2) (sub_uaid x, sub_channel_id x) = Some x" "sub_push x = sub_push sub"
      unfolding by_push [OF ok2] by blast+
    then have "hget (st_channels s) (sub_uaid x, sub_channel_id x) = Some x"
      using del(2) chans1 by (simp split: if_splits)
    with assms(4) x(2) show False by (simp add: push_unused_def)
  qed
  ultimately show ?thesis using before created new(1-3) by blast
qed

lemma push_resolution_witness:
  "\<exists>sub s1 w1. mem_create_subscription demo_b64 ''u'' ''c'' None (new_state, demo_world) = (sub, s1, w1) \<and>
     mem_subscription_by_push (sub_push sub) s1 = Some sub"
proof -
  obtain sub s1 w1 where new: "mem_create_subscription demo_b64 ''u'' ''c'' None (new_state, demo_world) = (sub, s1, w1)"
    using prod_cases3 by blast
  obtain rs s2 w2 where del: "remove_subscription forward_order ''u'' ''c'' (s1, w1) = (rs, s2, w2)"
    using prod_cases3 by blast
  have run: "store_run (mem_store demo_b64 demo_order) mem_view (new_state, demo_world) (new_state, demo_world)"
    by simp
  have "mem_channel ''u'' ''c'' new_state = None" and "push_unused (sub_push sub) (mem_view new_state)"
    by (simp_all add: mem_channel_def push_unused_def new_state_def)
  moreover have "room (s1, w1)"
    using new by (auto simp: room_def mem_create_subscription_def new_id_def random_bytes_def
        demo_world_def new_state_def seq_room_def Let_def)
  ultimately have "mem_subscription_by_push (sub_push sub) s1 = Some sub"
    using push_resolution [OF run _ new _ _ is_order_forward del] by blast
  with new show ?thesis by blast
qed

text \<open>
  A route is cleared only while it names the given node: once another node has taken
  the recipient over, the old node's cleanup changes nothing, while the new node's own
  cleanup removes the route; \<open>set_route\<close> returns the node recorded before.
\<close>

theorem clear_route_only_own:
  assumes "n1 \<noteq> n2"
  shows "let (old, s1) = mem_set_route to n2 s in
    old = mem_route to s \<and> mem_route to s1 = Some n2 \<and>
    mem_clear_route to n1 s1 = (False, s1) \<and>
    fst (mem_clear_route to n2 s1) \<and> mem_route to (snd (mem_clear_route to n2 s1)) = None \<and>
    (\<forall>to'. to' \<noteq> to \<longrightarrow> mem_route to' (snd (mem_clear_route to n2 s1)) = mem_route to' s)"
  using assms by (simp add: mem_set_route_def mem_route_def mem_clear_route_def)

lemma clear_route_only_own_witness:
  "mem_clear_route (UserAgent ''ua'') ''a'' (snd (mem_set_route (UserAgent ''ua'') ''b'' new_state)) =
     (False, snd (mem_set_route (UserAgent ''ua'') ''b'' new_state))"
  using clear_route_only_own [of "''a''" "''b''" "UserAgent ''ua''" new_state] by (simp add: case_prod_beta)

end
