(* ===== verification/Reliable.thy ===== *)
theory Reliable
  imports Memory_Contract
begin

text \<open>
  A store whose operations return. What the handlers achieve, rather than what holds if they
  get that far, is proved against this interface; the in-memory store provides it.
\<close>

definition returns :: "('s, 'a) store_op \<Rightarrow> 's \<times> world \<Rightarrow> bool" where
  "returns f sw \<longleftrightarrow> (\<exists>x sw'. f sw = (Inr x, sw'))"

text \<open>An operation that issues no sequence number.\<close>

definition calm :: "('s, 'a) store_op \<Rightarrow> bool" where
  "calm f \<longleftrightarrow> (\<forall>sw x sw'. f sw = (x, sw') \<longrightarrow> wl_last (snd sw') = wl_last (snd sw))"

locale reliable_store = full_store S view inv
  for S :: "'s store" and view :: "'s \<Rightarrow> spec" and inv :: "'s \<times> world \<Rightarrow> bool" +
  assumes ua_returns: "returns (so_create_user_agent S ua) sw" "returns (so_user_agent S u) sw"
      "returns (so_touch_user_agent S u now) sw" "returns (so_update_bridge_token S u t) sw"
      "returns (so_delete_user_agent S u) sw" "returns (so_expire_user_agents S now) sw"
    and sub_returns: "returns (so_subscriptions S u) sw" "returns (so_channel S u c) sw"
      "returns (so_create_subscription S u c v) sw" "returns (so_subscription_by_push S p) sw"
      "returns (so_delete_subscription S u c) sw"
    and msg_returns: "returns (so_insert_message S m) sw" "returns (so_pending S u now n) sw"
      "returns (so_message S i) sw" "returns (so_delete_message S i owner) sw" "returns (so_reap S now) sw"
    and receipt_returns: "returns (so_create_receipt_sub S) sw" "returns (so_receipt_sub_exists S i) sw"
      "returns (so_delete_receipt_sub S i) sw" "returns (so_enqueue_receipt S r) sw"
      "returns (so_queued_receipts S i) sw" "returns (so_delete_receipt S i seq) sw"
    and route_returns: "returns (so_set_route S to node) sw" "returns (so_route S to) sw"
      "returns (so_clear_route S to node) sw"
    and calm_ops: "calm (so_create_user_agent S ua)" "calm (so_user_agent S u)" "calm (so_touch_user_agent S u now)"
      "calm (so_channel S u c)" "calm (so_create_subscription S u c v)" "calm (so_pending S u now n)"
      "calm (so_delete_message S i owner)" "calm (so_receipt_sub_exists S i)" "calm (so_queued_receipts S i)"
      "calm (so_delete_receipt S i seq)" "calm (so_set_route S to node)" "calm (so_route S to)"
      "calm (so_clear_route S to node)"

lemma returns_gives:
  assumes "returns f (s, w)" and "gives f (s, w) Q"
  obtains x s' w' where "f (s, w) = (Inr x, s', w')" and "Q x (s', w')"
  using assms unfolding returns_def gives_def by fast

lemma returns_ok [simp]: "returns (ok_read f) sw" "returns (ok_write g) sw" "returns (ok_step h) sw"
  by (simp_all add: returns_def ok_read_def ok_write_def ok_step_def case_prod_beta)

lemma calm_ok [simp]: "calm (ok_read f)" "calm (ok_write g)"
  by (simp_all add: calm_def ok_read_def ok_write_def case_prod_beta)

lemma calm_create_subscription [simp]: "calm (ok_step (mem_create_subscription b64 u c v))"
  by (auto simp: calm_def ok_step_def mem_create_subscription_def new_id_def random_bytes_def Let_def
      split: prod.splits)

lemma seq_room_calm: "seq_room n w \<Longrightarrow> world_le w w' \<Longrightarrow> wl_last w' = wl_last w \<Longrightarrow> seq_room n w'"
  by (simp add: seq_room_def world_le_def)

lemma mem_reliable_store: "reliable_store (mem_store b64 ord) mem_view mem_ok"
  by (intro reliable_store.intro mem.full_store_axioms reliable_store_axioms.intro) (simp_all add: memory_store_def)

interpretation reliable: reliable_store "mem_store b64 ord" mem_view mem_ok
  by (rule mem_reliable_store)

end
