(* ===== verification/Store_Refinement.thy ===== *)
theory Store_Refinement
  imports Reliable Store_Run
begin

text \<open>
  The adapter refines the abstract store: whatever it answers over any sequence of calls, the
  abstract store could have answered, and it is left in the state the abstract store reaches. A
  call is labelled with its arguments and its answer; the state of the abstract store is a
  \<^typ>\<open>spec\<close> and the last sequence number issued.
\<close>

section \<open>Calls and answers\<close>

datatype call =
    CallCreateUserAgent user_agent
  | CallFindUserAgent string "user_agent option"
  | CallTouchUserAgent string u64 bool
  | CallUpdateBridgeToken string string bool
  | CallSubscriptions string "subscription list"
  | CallChannel string string "subscription option"
  | CallByPush string "subscription option"
  | CallPending string u64 nat "message list"
  | CallFindMessage string "message option"
  | CallDeleteMessage string "(string \<times> string) option" "message option"
  | CallCreateReceiptSub string
  | CallReceiptSubExists string bool
  | CallDeleteReceiptSub string bool
  | CallQueuedReceipts string "(u64 \<times> receipt) list"
  | CallDeleteReceipt string u64
  | CallSetRoute recipient string "string option"
  | CallRoute recipient "string option"
  | CallClearRoute recipient string bool
  | CallCreateSubscription string string "byte list option" subscription
  | CallInsertMessage message
  | CallEnqueueReceipt receipt "u64 option"
  | CallDeleteSubscription string string "(u64 \<times> receipt) list"
  | CallDeleteUserAgent string "(u64 \<times> receipt) list"
  | CallExpireUserAgents u64 nat "(u64 \<times> receipt) list"
  | CallReap u64 "(u64 \<times> receipt) list"
  | TimePasses

text \<open>What the abstract store may answer.\<close>

inductive spec_call :: "spec \<times> u64 \<Rightarrow> call \<Rightarrow> spec \<times> u64 \<Rightarrow> bool" where
  spec_CreateUserAgent: "sp' = spec_create_user_agent ua sp \<Longrightarrow> l \<le> l' \<Longrightarrow> spec_call (sp, l) (CallCreateUserAgent ua) (sp', l')"
| spec_FindUserAgent: "r = sp_uas sp u \<and> sp' = sp \<Longrightarrow> l \<le> l' \<Longrightarrow> spec_call (sp, l) (CallFindUserAgent u r) (sp', l')"
| spec_TouchUserAgent: "(r, sp') = spec_touch_user_agent u now sp \<Longrightarrow> l \<le> l' \<Longrightarrow> spec_call (sp, l) (CallTouchUserAgent u now r) (sp', l')"
| spec_UpdateBridgeToken: "(r, sp') = spec_update_bridge_token u t sp \<Longrightarrow> l \<le> l' \<Longrightarrow> spec_call (sp, l) (CallUpdateBridgeToken u t r) (sp', l')"
| spec_Subscriptions: "distinct r \<and> set r = {sub. sp_subs sp (u, sub_channel_id sub) = Some sub} \<and> sp' = sp \<Longrightarrow> l \<le> l' \<Longrightarrow> spec_call (sp, l) (CallSubscriptions u r) (sp', l')"
| spec_Channel: "r = sp_subs sp (u, c) \<and> sp' = sp \<Longrightarrow> l \<le> l' \<Longrightarrow> spec_call (sp, l) (CallChannel u c r) (sp', l')"
| spec_ByPush: "spec_by_push p sp r \<and> sp' = sp \<Longrightarrow> l \<le> l' \<Longrightarrow> spec_call (sp, l) (CallByPush p r) (sp', l')"
| spec_Pending: "spec_pending sp u now n r \<and> sp' = sp \<Longrightarrow> l \<le> l' \<Longrightarrow> spec_call (sp, l) (CallPending u now n r) (sp', l')"
| spec_FindMessage: "r = sp_msgs sp i \<and> sp' = sp \<Longrightarrow> l \<le> l' \<Longrightarrow> spec_call (sp, l) (CallFindMessage i r) (sp', l')"
| spec_DeleteMessage: "(r, sp') = spec_delete_message i owner sp \<Longrightarrow> l \<le> l' \<Longrightarrow> spec_call (sp, l) (CallDeleteMessage i owner r) (sp', l')"
| spec_CreateReceiptSub: "sp' = sp\<lparr>sp_queues := (sp_queues sp)(r \<mapsto> [])\<rparr> \<Longrightarrow> l \<le> l' \<Longrightarrow> spec_call (sp, l) (CallCreateReceiptSub r) (sp', l')"
| spec_ReceiptSubExists: "(r \<longleftrightarrow> sp_queues sp rsub \<noteq> None) \<and> sp' = sp \<Longrightarrow> l \<le> l' \<Longrightarrow> spec_call (sp, l) (CallReceiptSubExists rsub r) (sp', l')"
| spec_DeleteReceiptSub: "(r \<longleftrightarrow> sp_queues sp rsub \<noteq> None) \<and> sp' = sp\<lparr>sp_queues := (sp_queues sp)(rsub := None)\<rparr> \<Longrightarrow> l \<le> l' \<Longrightarrow> spec_call (sp, l) (CallDeleteReceiptSub rsub r) (sp', l')"
| spec_QueuedReceipts: "r = (case sp_queues sp rsub of None \<Rightarrow> [] | Some q \<Rightarrow> q) \<and> sp' = sp \<Longrightarrow> l \<le> l' \<Longrightarrow> spec_call (sp, l) (CallQueuedReceipts rsub r) (sp', l')"
| spec_DeleteReceipt: "sp' = sp\<lparr>sp_queues := (\<lambda>k. if k = rsub then map_option (AList.delete n) (sp_queues sp k) else sp_queues sp k)\<rparr> \<Longrightarrow> l \<le> l' \<Longrightarrow> spec_call (sp, l) (CallDeleteReceipt rsub n) (sp', l')"
| spec_SetRoute: "(r, sp') = spec_set_route to node sp \<Longrightarrow> l \<le> l' \<Longrightarrow> spec_call (sp, l) (CallSetRoute to node r) (sp', l')"
| spec_Route: "r = sp_routes sp to \<and> sp' = sp \<Longrightarrow> l \<le> l' \<Longrightarrow> spec_call (sp, l) (CallRoute to r) (sp', l')"
| spec_ClearRoute: "(r, sp') = spec_clear_route to node sp \<Longrightarrow> l \<le> l' \<Longrightarrow> spec_call (sp, l) (CallClearRoute to node r) (sp', l')"
| spec_CreateSubscription: "sp_subs sp (u, c) = None \<Longrightarrow> sub_uaid r = u \<and> sub_channel_id r = c \<and> sub_vapid r = v \<and> push_unused (sub_push r) sp \<Longrightarrow>
    sp' = spec_create_subscription r sp \<Longrightarrow> l \<le> l' \<Longrightarrow> spec_call (sp, l) (CallCreateSubscription u c v r) (sp', l')"
| spec_InsertMessage: "sp_msgs sp (m_id m) = None \<Longrightarrow> sp' = spec_insert_message m sp \<Longrightarrow> l \<le> l' \<Longrightarrow>
    spec_call (sp, l) (CallInsertMessage m) (sp', l')"
| spec_EnqueueReceipt: "(r \<noteq> None \<longleftrightarrow> sp_queues sp (rc_rsub rc) \<noteq> None) \<Longrightarrow> (\<forall>n. r = Some n \<longrightarrow> l < n) \<Longrightarrow>
    sp' = spec_enqueue (case r of None \<Rightarrow> [] | Some n \<Rightarrow> [(n, rc)]) sp \<Longrightarrow> l \<le> l' \<Longrightarrow>
    spec_call (sp, l) (CallEnqueueReceipt rc r) (sp', l')"
| spec_DeleteSubscription: "spec_removal (\<lambda>m. sp_subs sp (u, c) \<noteq> None \<and> m_uaid m = u \<and> m_channel_id m = c) sp l rs sp' l' \<Longrightarrow>
    sp_uas sp' = sp_uas sp \<Longrightarrow> sp_subs sp' = (sp_subs sp)((u, c) := None) \<Longrightarrow>
    spec_call (sp, l) (CallDeleteSubscription u c rs) (sp', l')"
| spec_DeleteUserAgent: "spec_removal gone sp l rs sp' l' \<Longrightarrow> (\<forall>m. gone m \<longrightarrow> m_uaid m = u) \<Longrightarrow>
    (\<forall>m. m_uaid m = u \<and> sp_subs sp (u, m_channel_id m) \<noteq> None \<longrightarrow> gone m) \<Longrightarrow>
    sp_uas sp' = (sp_uas sp)(u := None) \<Longrightarrow> sp_subs sp' = (\<lambda>k. if fst k = u then None else sp_subs sp k) \<Longrightarrow>
    spec_call (sp, l) (CallDeleteUserAgent u rs) (sp', l')"
| spec_ExpireUserAgents: "spec_removal gone sp l rs sp' l' \<Longrightarrow> n = card {u. stale sp cutoff u} \<Longrightarrow>
    (\<forall>m. gone m \<longrightarrow> stale sp cutoff (m_uaid m)) \<Longrightarrow>
    (\<forall>m. stale sp cutoff (m_uaid m) \<and> sp_subs sp (m_uaid m, m_channel_id m) \<noteq> None \<longrightarrow> gone m) \<Longrightarrow>
    sp_uas sp' = (\<lambda>u. if stale sp cutoff u then None else sp_uas sp u) \<Longrightarrow>
    sp_subs sp' = (\<lambda>k. if stale sp cutoff (fst k) then None else sp_subs sp k) \<Longrightarrow>
    spec_call (sp, l) (CallExpireUserAgents cutoff n rs) (sp', l')"
| spec_Reap: "spec_removal (\<lambda>m. m_expiry m \<le> now) sp l rs sp' l' \<Longrightarrow> sp_uas sp' = sp_uas sp \<Longrightarrow> sp_subs sp' = sp_subs sp \<Longrightarrow>
    spec_call (sp, l) (CallReap now rs) (sp', l')"
| spec_Time: "l \<le> l' \<Longrightarrow> spec_call (sp, l) TimePasses (sp, l')"

text \<open>What an adapter answers, called as the trait asks.\<close>

inductive store_call :: "'s store \<Rightarrow> ('s \<Rightarrow> spec) \<Rightarrow> 's \<times> world \<Rightarrow> call \<Rightarrow> 's \<times> world \<Rightarrow> bool"
  for S :: "'s store" and view :: "'s \<Rightarrow> spec" where
  store_CreateUserAgent: "so_create_user_agent S ua sw = (Inr (), sw') \<Longrightarrow> store_call S view sw (CallCreateUserAgent ua) sw'"
| store_FindUserAgent: "so_user_agent S u sw = (Inr r, sw') \<Longrightarrow> store_call S view sw (CallFindUserAgent u r) sw'"
| store_TouchUserAgent: "so_touch_user_agent S u now sw = (Inr r, sw') \<Longrightarrow> store_call S view sw (CallTouchUserAgent u now r) sw'"
| store_UpdateBridgeToken: "so_update_bridge_token S u t sw = (Inr r, sw') \<Longrightarrow> store_call S view sw (CallUpdateBridgeToken u t r) sw'"
| store_Subscriptions: "so_subscriptions S u sw = (Inr r, sw') \<Longrightarrow> store_call S view sw (CallSubscriptions u r) sw'"
| store_Channel: "so_channel S u c sw = (Inr r, sw') \<Longrightarrow> store_call S view sw (CallChannel u c r) sw'"
| store_ByPush: "so_subscription_by_push S p sw = (Inr r, sw') \<Longrightarrow> store_call S view sw (CallByPush p r) sw'"
| store_Pending: "so_pending S u now n sw = (Inr r, sw') \<Longrightarrow> store_call S view sw (CallPending u now n r) sw'"
| store_FindMessage: "so_message S i sw = (Inr r, sw') \<Longrightarrow> store_call S view sw (CallFindMessage i r) sw'"
| store_DeleteMessage: "so_delete_message S i owner sw = (Inr r, sw') \<Longrightarrow> store_call S view sw (CallDeleteMessage i owner r) sw'"
| store_CreateReceiptSub: "so_create_receipt_sub S sw = (Inr r, sw') \<Longrightarrow> store_call S view sw (CallCreateReceiptSub r) sw'"
| store_ReceiptSubExists: "so_receipt_sub_exists S rsub sw = (Inr r, sw') \<Longrightarrow> store_call S view sw (CallReceiptSubExists rsub r) sw'"
| store_DeleteReceiptSub: "so_delete_receipt_sub S rsub sw = (Inr r, sw') \<Longrightarrow> store_call S view sw (CallDeleteReceiptSub rsub r) sw'"
| store_QueuedReceipts: "so_queued_receipts S rsub sw = (Inr r, sw') \<Longrightarrow> store_call S view sw (CallQueuedReceipts rsub r) sw'"
| store_DeleteReceipt: "so_delete_receipt S rsub n sw = (Inr (), sw') \<Longrightarrow> store_call S view sw (CallDeleteReceipt rsub n) sw'"
| store_SetRoute: "so_set_route S to node sw = (Inr r, sw') \<Longrightarrow> store_call S view sw (CallSetRoute to node r) sw'"
| store_Route: "so_route S to sw = (Inr r, sw') \<Longrightarrow> store_call S view sw (CallRoute to r) sw'"
| store_ClearRoute: "so_clear_route S to node sw = (Inr r, sw') \<Longrightarrow> store_call S view sw (CallClearRoute to node r) sw'"
| store_CreateSubscription: "so_create_subscription S u c v sw = (Inr r, sw') \<Longrightarrow> sp_subs (view (fst sw)) (u, c) = None \<Longrightarrow>
    push_unused (sub_push r) (view (fst sw)) \<Longrightarrow> store_call S view sw (CallCreateSubscription u c v r) sw'"
| store_InsertMessage: "so_insert_message S m sw = (Inr (), sw') \<Longrightarrow> sp_msgs (view (fst sw)) (m_id m) = None \<Longrightarrow>
    store_call S view sw (CallInsertMessage m) sw'"
| store_EnqueueReceipt: "so_enqueue_receipt S rc sw = (Inr r, sw') \<Longrightarrow> seq_room 1 (snd sw) \<Longrightarrow>
    store_call S view sw (CallEnqueueReceipt rc r) sw'"
| store_DeleteSubscription: "so_delete_subscription S u c sw = (Inr rs, sw') \<Longrightarrow> room_for view sw \<Longrightarrow>
    store_call S view sw (CallDeleteSubscription u c rs) sw'"
| store_DeleteUserAgent: "so_delete_user_agent S u sw = (Inr rs, sw') \<Longrightarrow> room_for view sw \<Longrightarrow>
    store_call S view sw (CallDeleteUserAgent u rs) sw'"
| store_ExpireUserAgents: "so_expire_user_agents S cutoff sw = (Inr (n, rs), sw') \<Longrightarrow> room_for view sw \<Longrightarrow>
    store_call S view sw (CallExpireUserAgents cutoff n rs) sw'"
| store_Reap: "so_reap S now sw = (Inr rs, sw') \<Longrightarrow> room_for view sw \<Longrightarrow> store_call S view sw (CallReap now rs) sw'"
| store_Time: "world_le w w' \<Longrightarrow> store_call S view (s, w) TimePasses (s, w')"

text \<open>Sequences of calls.\<close>

inductive trace :: "('a \<Rightarrow> call \<Rightarrow> 'a \<Rightarrow> bool) \<Rightarrow> 'a \<Rightarrow> call list \<Rightarrow> 'a \<Rightarrow> bool" for R :: "'a \<Rightarrow> call \<Rightarrow> 'a \<Rightarrow> bool" where
  trace_Nil: "trace R a [] a"
| trace_Cons: "R a c b \<Longrightarrow> trace R b cs a' \<Longrightarrow> trace R a (c # cs) a'"

section \<open>Refinement\<close>

text \<open>The abstract state of an adapter.\<close>

definition abstraction :: "('s \<Rightarrow> spec) \<Rightarrow> 's \<times> world \<Rightarrow> spec \<times> u64" where
  "abstraction view sw = (view (fst sw), wl_last (snd sw))"

lemma world_le_last: "world_le w w' \<Longrightarrow> wl_last w \<le> wl_last w'"
  by (simp add: world_le_def)

context full_store
begin

lemma call_refines:
  assumes "store_call S view sw c sw'" and "inv sw"
  shows "spec_call (abstraction view sw) c (abstraction view sw') \<and> inv sw'"
  using assms
proof (induction rule: store_call.induct)
  case (store_CreateUserAgent ua sw sw')
  then show ?case
    using givesD [OF create_user_agent] world_le_last unfolding abstraction_def by (blast intro: spec_call.spec_CreateUserAgent)
next
  case (store_FindUserAgent u sw r sw')
  then show ?case
    using givesD [OF user_agent] world_le_last unfolding abstraction_def by (blast intro: spec_call.spec_FindUserAgent)
next
  case (store_TouchUserAgent u now sw r sw')
  then show ?case
    using givesD [OF touch_user_agent] world_le_last unfolding abstraction_def by (blast intro: spec_call.spec_TouchUserAgent)
next
  case (store_UpdateBridgeToken u t sw r sw')
  then show ?case
    using givesD [OF update_bridge_token] world_le_last unfolding abstraction_def by (blast intro: spec_call.spec_UpdateBridgeToken)
next
  case (store_Subscriptions u sw r sw')
  then show ?case
    using givesD [OF subscriptions] world_le_last unfolding abstraction_def by (blast intro: spec_call.spec_Subscriptions)
next
  case (store_Channel u c sw r sw')
  then show ?case
    using givesD [OF channel] world_le_last unfolding abstraction_def by (blast intro: spec_call.spec_Channel)
next
  case (store_ByPush p sw r sw')
  then show ?case
    using givesD [OF subscription_by_push] world_le_last unfolding abstraction_def by (blast intro: spec_call.spec_ByPush)
next
  case (store_Pending u now n sw r sw')
  then show ?case
    using givesD [OF pending] world_le_last unfolding abstraction_def by (blast intro: spec_call.spec_Pending)
next
  case (store_FindMessage i sw r sw')
  then show ?case
    using givesD [OF message] world_le_last unfolding abstraction_def by (blast intro: spec_call.spec_FindMessage)
next
  case (store_DeleteMessage i owner sw r sw')
  then show ?case
    using givesD [OF delete_message] world_le_last unfolding abstraction_def by (blast intro: spec_call.spec_DeleteMessage)
next
  case (store_CreateReceiptSub sw r sw')
  then show ?case
    using givesD [OF create_receipt_sub] world_le_last unfolding abstraction_def by (blast intro: spec_call.spec_CreateReceiptSub)
next
  case (store_ReceiptSubExists rsub sw r sw')
  then show ?case
    using givesD [OF receipt_sub_exists] world_le_last unfolding abstraction_def by (blast intro: spec_call.spec_ReceiptSubExists)
next
  case (store_DeleteReceiptSub rsub sw r sw')
  then show ?case
    using givesD [OF delete_receipt_sub] world_le_last unfolding abstraction_def by (blast intro: spec_call.spec_DeleteReceiptSub)
next
  case (store_QueuedReceipts rsub sw r sw')
  then show ?case
    using givesD [OF queued_receipts] world_le_last unfolding abstraction_def by (blast intro: spec_call.spec_QueuedReceipts)
next
  case (store_DeleteReceipt rsub n sw sw')
  then show ?case
    using givesD [OF delete_receipt] world_le_last unfolding abstraction_def by (blast intro: spec_call.spec_DeleteReceipt)
next
  case (store_SetRoute to node sw r sw')
  then show ?case
    using givesD [OF set_route] world_le_last unfolding abstraction_def by (blast intro: spec_call.spec_SetRoute)
next
  case (store_Route to sw r sw')
  then show ?case
    using givesD [OF route] world_le_last unfolding abstraction_def by (blast intro: spec_call.spec_Route)
next
  case (store_ClearRoute to node sw r sw')
  then show ?case
    using givesD [OF clear_route] world_le_last unfolding abstraction_def by (blast intro: spec_call.spec_ClearRoute)
next
  case (store_CreateSubscription u c v sw r sw')
  then show ?case
    using givesD [OF create_subscription] world_le_last unfolding abstraction_def
    by (blast intro: spec_call.spec_CreateSubscription)
next
  case (store_InsertMessage m sw sw')
  then show ?case
    using givesD [OF insert_message] world_le_last unfolding abstraction_def
    by (blast intro: spec_call.spec_InsertMessage)
next
  case (store_EnqueueReceipt rc sw r sw')
  then show ?case
    using givesD [OF enqueue_receipt [of _ 0]] world_le_last unfolding abstraction_def One_nat_def
    by (blast intro: spec_call.spec_EnqueueReceipt)
next
  case (store_DeleteSubscription u c sw rs sw')
  then show ?case
    using givesD [OF delete_subscription] unfolding abstraction_def by (blast intro: spec_call.spec_DeleteSubscription)
next
  case (store_DeleteUserAgent u sw rs sw')
  then show ?case
    using givesD [OF delete_user_agent] unfolding abstraction_def by (blast intro: spec_call.spec_DeleteUserAgent)
next
  case (store_ExpireUserAgents cutoff sw n rs sw')
  from givesD [OF expire_user_agents store_ExpireUserAgents(1)] store_ExpireUserAgents(2,3)
  show ?case unfolding abstraction_def by (auto intro: spec_call.spec_ExpireUserAgents)
next
  case (store_Reap now sw rs sw')
  then show ?case
    using givesD [OF reap] unfolding abstraction_def by (blast intro: spec_call.spec_Reap)
next
  case (store_Time w w' s)
  then show ?case
    using inv_world world_le_last by (auto simp: abstraction_def intro: spec_call.spec_Time)
qed

lemma trace_refines:
  "trace (store_call S view) sw cs sw' \<Longrightarrow> inv sw \<Longrightarrow>
   trace spec_call (abstraction view sw) cs (abstraction view sw') \<and> inv sw'"
proof (induction rule: trace.induct)
  case (trace_Cons a c b cs a')
  from call_refines [OF trace_Cons.hyps(1) trace_Cons.prems] trace_Cons.IH show ?case
    by (blast intro: trace.trace_Cons)
qed (blast intro: trace.trace_Nil)

end

text \<open>
  C1. The in-memory store refines the abstract store: every sequence of calls and answers of a
  fresh \<open>MemoryStore\<close>, called as the trait asks and with any hash map orders, is one the abstract
  store has from empty maps, ending in the abstract state of the maps; and the maps stay coherent.
\<close>

theorem memory_refines_spec:
  assumes "trace (store_call (mem_store b64 ord) mem_view) (new_state, w) calls sw'"
  shows "trace spec_call (empty_spec, wl_last w) calls (abstraction mem_view sw') \<and> mem_ok sw'"
proof -
  have "abstraction mem_view (new_state, w) = (empty_spec, wl_last w)"
    by (simp add: abstraction_def empty_spec_def mem_view_def new_state_def fun_eq_iff)
  with mem.trace_refines [OF assms mem_ok_new] show ?thesis by simp
qed

definition demo_calls :: "call list" where
  "demo_calls = [CallSetRoute (UserAgent ''u'') ''a'' None, CallSetRoute (UserAgent ''u'') ''b'' (Some ''a''),
     CallClearRoute (UserAgent ''u'') ''a'' False, CallRoute (UserAgent ''u'') (Some ''b'')]"

lemma memory_refines_spec_witness:
  "\<exists>sp. trace spec_call (empty_spec, 0) demo_calls (sp, 0) \<and>
     sp_routes sp (UserAgent ''u'') = Some ''b''"
proof -
  let ?S = "mem_store url_base64 (Abs_ordering forward_order)"
  define w :: world where
    "w = \<lparr>wl_clock = \<lambda>_. 1000, wl_reads = 0, wl_entropy = \<lambda>_ _. 0, wl_draws = 0, wl_last = 0\<rparr>"
  let ?s = "\<lambda>n. new_state\<lparr>st_routes := [(UserAgent ''u'', n)]\<rparr>"
  have "trace (store_call ?S mem_view) (new_state, w) demo_calls (?s ''b'', w)"
    unfolding demo_calls_def
    by (rule trace.trace_Cons [where b = "(?s ''a'', w)"], rule store_call.store_SetRoute,
        simp add: memory_store_def ok_write_def mem_set_route_def new_state_def hinsert_def,
        rule trace.trace_Cons [where b = "(?s ''b'', w)"], rule store_call.store_SetRoute,
        simp add: memory_store_def ok_write_def mem_set_route_def new_state_def hinsert_def hget_def,
        rule trace.trace_Cons [where b = "(?s ''b'', w)"], rule store_call.store_ClearRoute,
        simp add: memory_store_def ok_write_def mem_clear_route_def new_state_def hget_def,
        rule trace.trace_Cons [where b = "(?s ''b'', w)"], rule store_call.store_Route,
        simp add: memory_store_def ok_read_def mem_route_def new_state_def hget_def,
        rule trace.trace_Nil)
  from memory_refines_spec [OF this] show ?thesis
    by (intro exI [of _ "mem_view (?s ''b'')"]) (simp add: abstraction_def hget_def w_def)
qed

end
