(* ===== verification/Rust_Str.thy ===== *)
theory Rust_Str
  imports Prelude
begin

text \<open>
  The string functions of Rust's standard library the service uses, on the octets of a
  string. Header values that reach them are visible ASCII (or a tab), so a Rust \<open>char\<close> is
  one octet and \<open>trim\<close> removes ASCII white space.
\<close>

section \<open>Characters\<close>

definition is_ascii_digit :: "char \<Rightarrow> bool" where
  "is_ascii_digit c \<longleftrightarrow> CHR ''0'' \<le> c \<and> c \<le> CHR ''9''"

definition is_ascii_upper :: "char \<Rightarrow> bool" where
  "is_ascii_upper c \<longleftrightarrow> CHR ''A'' \<le> c \<and> c \<le> CHR ''Z''"

definition is_ascii_lower :: "char \<Rightarrow> bool" where
  "is_ascii_lower c \<longleftrightarrow> CHR ''a'' \<le> c \<and> c \<le> CHR ''z''"

definition is_ascii_alphanumeric :: "char \<Rightarrow> bool" where
  "is_ascii_alphanumeric c \<longleftrightarrow> is_ascii_digit c \<or> is_ascii_upper c \<or> is_ascii_lower c"

definition is_ascii_hexdigit :: "char \<Rightarrow> bool" where
  "is_ascii_hexdigit c \<longleftrightarrow> is_ascii_digit c \<or> (CHR ''A'' \<le> c \<and> c \<le> CHR ''F'') \<or>
     (CHR ''a'' \<le> c \<and> c \<le> CHR ''f'')"

definition to_ascii_lower_char :: "char \<Rightarrow> char" where
  "to_ascii_lower_char c = (if is_ascii_upper c then char_of (of_char c + 32 :: nat) else c)"

definition to_ascii_lowercase :: "string \<Rightarrow> string" where
  "to_ascii_lowercase s = map to_ascii_lower_char s"

definition eq_ignore_ascii_case :: "string \<Rightarrow> string \<Rightarrow> bool" where
  "eq_ignore_ascii_case a b \<longleftrightarrow> to_ascii_lowercase a = to_ascii_lowercase b"

definition is_whitespace :: "char \<Rightarrow> bool" where
  "is_whitespace c \<longleftrightarrow> c = CHR '' '' \<or> (9 \<le> (of_char c :: nat) \<and> (of_char c :: nat) \<le> 13)"

definition is_ascii_whitespace :: "char \<Rightarrow> bool" where
  "is_ascii_whitespace c \<longleftrightarrow> is_whitespace c \<and> (of_char c :: nat) \<noteq> 11"

section \<open>Trimming, prefixes, splitting\<close>

definition trim_start_by :: "(char \<Rightarrow> bool) \<Rightarrow> string \<Rightarrow> string" where
  "trim_start_by P s = dropWhile P s"

definition trim_end_by :: "(char \<Rightarrow> bool) \<Rightarrow> string \<Rightarrow> string" where
  "trim_end_by P s = rev (dropWhile P (rev s))"

definition trim_by :: "(char \<Rightarrow> bool) \<Rightarrow> string \<Rightarrow> string" where
  "trim_by P s = trim_end_by P (trim_start_by P s)"

definition trim :: "string \<Rightarrow> string" where
  "trim s = trim_by is_whitespace s"

fun strip_prefix :: "string \<Rightarrow> string \<Rightarrow> string option" where
  "strip_prefix [] s = Some s"
| "strip_prefix (p # ps) [] = None"
| "strip_prefix (p # ps) (c # s) = (if p = c then strip_prefix ps s else None)"

fun split_on :: "char \<Rightarrow> string \<Rightarrow> string list" where
  "split_on sep [] = [[]]"
| "split_on sep (c # s) =
     (if c = sep then [] # split_on sep s
      else (case split_on sep s of [] \<Rightarrow> [[c]] | p # ps \<Rightarrow> (c # p) # ps))"

fun split_once :: "char \<Rightarrow> string \<Rightarrow> (string \<times> string) option" where
  "split_once sep [] = None"
| "split_once sep (c # s) =
     (if c = sep then Some ([], s) else map_option (\<lambda>(a, b). (c # a, b)) (split_once sep s))"

fun split_by :: "(char \<Rightarrow> bool) \<Rightarrow> string \<Rightarrow> string list" where
  "split_by P [] = [[]]"
| "split_by P (c # s) =
     (if P c then [] # split_by P s
      else (case split_by P s of [] \<Rightarrow> [[c]] | p # ps \<Rightarrow> (c # p) # ps))"

definition split_ascii_whitespace :: "string \<Rightarrow> string list" where
  "split_ascii_whitespace s = filter (\<lambda>p. p \<noteq> []) (split_by is_ascii_whitespace s)"

section \<open>Decimal numbers\<close>

definition digit_value :: "char \<Rightarrow> nat" where
  "digit_value c = of_char c - 48"

definition digits_value :: "string \<Rightarrow> nat" where
  "digits_value s = foldl (\<lambda>n c. 10 * n + digit_value c) 0 s"

text \<open>\<open>str::parse::<u64>\<close>: an optional plus sign, one or more digits, no overflow.\<close>

definition parse_u64 :: "string \<Rightarrow> u64 option" where
  "parse_u64 s =
     (let ds = (case strip_prefix ''+'' s of Some r \<Rightarrow> r | None \<Rightarrow> s)
      in if ds = [] \<or> \<not> list_all is_ascii_digit ds then None
         else if digits_value ds < 2 ^ 64 then Some (of_nat (digits_value ds)) else None)"

fun show_nat :: "nat \<Rightarrow> string" where
  "show_nat n =
     (if n < 10 then [char_of (48 + n)] else show_nat (n div 10) @ [char_of (48 + n mod 10)])"

declare show_nat.simps [simp del]

text \<open>\<open>u64::saturating_add\<close>, \<open>saturating_sub\<close>, and a string as octets.\<close>

definition saturating_add :: "u64 \<Rightarrow> u64 \<Rightarrow> u64" where
  "saturating_add a b = (if unat a + unat b < 2 ^ 64 then a + b else - 1)"

definition saturating_sub :: "u64 \<Rightarrow> u64 \<Rightarrow> u64" where
  "saturating_sub a b = (if b \<le> a then a - b else 0)"

definition octets :: "string \<Rightarrow> byte list" where
  "octets s = map of_char s"

section \<open>Facts\<close>

lemma strip_prefix_append [simp]: "strip_prefix p (p @ s) = Some s"
  by (induction p) simp_all

lemma strip_prefix_Some_iff: "strip_prefix p s = Some r \<longleftrightarrow> s = p @ r"
  by (induction p s rule: strip_prefix.induct) auto

lemma trim_start_by_id: "s = [] \<or> \<not> P (hd s) \<Longrightarrow> trim_start_by P s = s"
  by (cases s) (auto simp: trim_start_by_def)

lemma trim_by_id: "s = [] \<or> (\<not> P (hd s) \<and> \<not> P (last s)) \<Longrightarrow> trim_by P s = s"
proof (cases "s = []")
  case False
  assume "s = [] \<or> (\<not> P (hd s) \<and> \<not> P (last s))"
  with False have "\<not> P (hd s)" and "\<not> P (hd (rev s))" by (simp_all add: hd_rev)
  then have "trim_start_by P s = s" and "trim_start_by P (rev s) = rev s"
    by (simp_all add: trim_start_by_id)
  then show ?thesis by (simp add: trim_by_def trim_end_by_def trim_start_by_def)
qed (simp add: trim_by_def trim_start_by_def trim_end_by_def)

lemma trim_by_clean: "\<forall>c\<in>set s. \<not> P c \<Longrightarrow> trim_by P s = s"
  by (rule trim_by_id) auto

lemma split_on_not_Nil [simp]: "split_on sep s \<noteq> []"
  by (induction s) (auto split: list.split)

lemma split_on_clean: "sep \<notin> set s \<Longrightarrow> split_on sep s = [s]"
  by (induction s) auto

lemma split_once_append: "sep \<notin> set a \<Longrightarrow> split_once sep (a @ sep # b) = Some (a, b)"
  by (induction a) auto

lemma split_once_SomeD: "split_once sep s = Some (a, b) \<Longrightarrow> s = a @ sep # b \<and> sep \<notin> set a"
  by (induction s arbitrary: a) (auto split: if_splits)

lemma split_once_None: "split_once sep s = None \<longleftrightarrow> sep \<notin> set s"
  by (induction s) auto

lemma split_by_clean: "\<forall>c\<in>set s. \<not> P c \<Longrightarrow> split_by P s = [s]"
  by (induction s) auto

lemma eq_ignore_ascii_case_refl [simp]: "eq_ignore_ascii_case s s"
  by (simp add: eq_ignore_ascii_case_def)

lemma digit_bounds: "is_ascii_digit c \<Longrightarrow> digit_value c < 10"
  by (auto simp: is_ascii_digit_def digit_value_def less_eq_char_def)

lemma digits_value_snoc: "digits_value (s @ [c]) = 10 * digits_value s + digit_value c"
  by (simp add: digits_value_def)

lemma digit_char: "n < 10 \<Longrightarrow> is_ascii_digit (char_of (48 + n)) \<and> digit_value (char_of (48 + n)) = n"
  by (simp add: is_ascii_digit_def digit_value_def less_eq_char_def)

lemma show_nat_digits: "list_all is_ascii_digit (show_nat n) \<and> show_nat n \<noteq> []"
proof (induction n rule: show_nat.induct)
  case (1 n)
  show ?case
  proof (cases "n < 10")
    case True
    then show ?thesis using digit_char [of n] by (simp add: show_nat.simps [of n])
  next
    case False
    with 1 digit_char [of "n mod 10"] show ?thesis by (simp add: show_nat.simps [of n])
  qed
qed

lemma digits_value_show [simp]: "digits_value (show_nat n) = n"
proof (induction n rule: show_nat.induct)
  case (1 n)
  show ?case
  proof (cases "n < 10")
    case True
    then show ?thesis using digit_char [of n] by (simp add: show_nat.simps [of n] digits_value_def)
  next
    case False
    with 1 digit_char [of "n mod 10"] show ?thesis
      by (simp add: show_nat.simps [of n] digits_value_snoc)
  qed
qed

lemma plus_not_digit: "list_all is_ascii_digit s \<Longrightarrow> s \<noteq> [] \<Longrightarrow> strip_prefix ''+'' s = None"
  by (cases s) (auto simp: is_ascii_digit_def less_eq_char_def)

lemma parse_u64_digits:
  "list_all is_ascii_digit s \<Longrightarrow> s \<noteq> [] \<Longrightarrow>
   parse_u64 s = (if digits_value s < 2 ^ 64 then Some (of_nat (digits_value s)) else None)"
  by (simp add: parse_u64_def plus_not_digit)

lemma parse_show_u64: "n < 2 ^ 64 \<Longrightarrow> parse_u64 (show_nat n) = Some (of_nat n)"
  using show_nat_digits [of n] by (simp add: parse_u64_digits)

lemma show_nat_inject: "show_nat a = show_nat b \<longleftrightarrow> a = b"
  by (metis digits_value_show)

end
