(* ===== verification/Headers.thy ===== *)
theory Headers
  imports Rust_Str Store_Types
begin

text \<open>
  \<open>crates/webpush-server/src/headers.rs\<close>: the request headers of RFC 8030 (\<open>TTL\<close>,
  \<open>Urgency\<close>, \<open>Topic\<close>), RFC 7240 (\<open>Prefer\<close>) and RFC 8288 (\<open>Link\<close>), and the shape of the
  resource ids the service issues. A header map lists its values in order; a value is
  \<open>Some s\<close> where \<open>HeaderValue::to_str\<close> succeeds with \<open>s\<close> and \<open>None\<close> where it fails.
\<close>

section \<open>Definitions\<close>

type_synonym header_map = "(string \<times> string option) list"

definition get_all :: "header_map \<Rightarrow> string \<Rightarrow> string option list" where
  "get_all h name = map snd (filter (\<lambda>p. fst p = name) h)"

datatype invalid = Invalid

definition TTL_CEILING :: u64 where
  "TTL_CEILING = push_bit 31 1"

definition single :: "header_map \<Rightarrow> string \<Rightarrow> invalid + string option" where
  "single headers name =
     (case get_all headers name of
        [] \<Rightarrow> Inr None
      | [value] \<Rightarrow>
          (case value of
             None \<Rightarrow> Inl Invalid
           | Some v \<Rightarrow> Inr (Some (trim_by (\<lambda>c. c = CHR '' '' \<or> c = CHR 0x09) v)))
      | _ \<Rightarrow> Inl Invalid)"

definition ttl :: "header_map \<Rightarrow> invalid + u64" where
  "ttl headers =
     (case single headers ''ttl'' of
        Inl e \<Rightarrow> Inl e
      | Inr None \<Rightarrow> Inl Invalid
      | Inr (Some value) \<Rightarrow>
          if value = [] \<or> \<not> list_all is_ascii_digit value then Inl Invalid
          else Inr (case parse_u64 value of None \<Rightarrow> TTL_CEILING | Some n \<Rightarrow> min n TTL_CEILING))"

definition urgency_header :: "header_map \<Rightarrow> invalid + urgency option" where
  "urgency_header headers =
     (case single headers ''urgency'' of
        Inl e \<Rightarrow> Inl e
      | Inr None \<Rightarrow> Inr None
      | Inr (Some v) \<Rightarrow> (case urgency_parse v of None \<Rightarrow> Inl Invalid | Some u \<Rightarrow> Inr (Some u)))"

definition is_b64url :: "char \<Rightarrow> bool" where
  "is_b64url b \<longleftrightarrow> is_ascii_alphanumeric b \<or> b = CHR ''-'' \<or> b = CHR ''_''"

definition topic :: "header_map \<Rightarrow> invalid + string option" where
  "topic headers =
     (case single headers ''topic'' of
        Inl e \<Rightarrow> Inl e
      | Inr None \<Rightarrow> Inr None
      | Inr (Some value) \<Rightarrow>
          if value = [] \<or> length value > 32 \<or> \<not> list_all is_b64url value then Inl Invalid
          else Inr (Some value))"

record Prefer =
  respond_async :: bool
  wait :: "u64 option"

definition default_prefer :: Prefer where
  "default_prefer = \<lparr>respond_async = False, wait = None\<rparr>"

definition quote :: char where
  "quote = CHR 0x22"

text \<open>One preference of the list: name and optional value, without its parameters.\<close>

definition prefer_token :: "string \<Rightarrow> string \<times> string option" where
  "prefer_token pref =
     (let token = trim (hd (split_on (CHR '';'') pref))
      in case split_once (CHR ''='') token of
           Some (n, v) \<Rightarrow> (trim n, Some (trim_by (\<lambda>c. c = quote) (trim v)))
         | None \<Rightarrow> (token, None))"

definition prefer_step :: "Prefer \<Rightarrow> string \<Rightarrow> Prefer" where
  "prefer_step out pref =
     (let (name, value) = prefer_token pref
      in if eq_ignore_ascii_case name ''respond-async'' then out\<lparr>respond_async := True\<rparr>
         else if eq_ignore_ascii_case name ''wait''
         then out\<lparr>wait := (case value of None \<Rightarrow> None | Some v \<Rightarrow> parse_u64 v)\<rparr>
         else out)"

definition prefer_header :: "header_map \<Rightarrow> Prefer" where
  "prefer_header headers =
     foldl prefer_step default_prefer
       (concat (map (\<lambda>v. split_on (CHR '','') (case v of None \<Rightarrow> [] | Some s \<Rightarrow> s))
                    (get_all headers ''prefer'')))"

text \<open>The scan of \<open>split_outside\<close>: the part being read, whether inside \<open><...>\<close>, whether
  inside quotes.\<close>

fun split_outside_from :: "char \<Rightarrow> string \<Rightarrow> bool \<Rightarrow> bool \<Rightarrow> string \<Rightarrow> string list" where
  "split_outside_from sep part angle quoted [] = [part]"
| "split_outside_from sep part angle quoted (c # s) =
     (if c = CHR ''<'' \<and> \<not> quoted then split_outside_from sep (part @ [c]) True quoted s
      else if c = CHR ''>'' \<and> \<not> quoted then split_outside_from sep (part @ [c]) False quoted s
      else if c = quote \<and> \<not> angle then split_outside_from sep (part @ [c]) angle (\<not> quoted) s
      else if c = sep \<and> \<not> angle \<and> \<not> quoted then part # split_outside_from sep [] angle quoted s
      else split_outside_from sep (part @ [c]) angle quoted s)"

definition split_outside :: "string \<Rightarrow> char \<Rightarrow> string list" where
  "split_outside s sep = split_outside_from sep [] False False s"

definition rel_matches :: "string \<Rightarrow> string \<Rightarrow> bool" where
  "rel_matches rel p \<longleftrightarrow>
     (case split_once (CHR ''='') p of
        None \<Rightarrow> False
      | Some (name, val) \<Rightarrow>
          eq_ignore_ascii_case (trim name) ''rel'' \<and>
          list_ex (\<lambda>r. eq_ignore_ascii_case r rel)
            (split_ascii_whitespace (trim_by (\<lambda>c. c = quote) (trim val))))"

definition link_target :: "string \<Rightarrow> string \<Rightarrow> string option" where
  "link_target rel l =
     (case strip_prefix ''<'' (trim l) of
        None \<Rightarrow> None
      | Some r \<Rightarrow>
          (case split_once (CHR ''>'') r of
             None \<Rightarrow> None
           | Some (target, params) \<Rightarrow>
               if list_ex (rel_matches rel) (split_outside params (CHR '';'')) then Some target
               else None))"

fun first_some :: "('a \<Rightarrow> 'b option) \<Rightarrow> 'a list \<Rightarrow> 'b option" where
  "first_some f [] = None"
| "first_some f (x # xs) = (case f x of Some y \<Rightarrow> Some y | None \<Rightarrow> first_some f xs)"

definition link :: "header_map \<Rightarrow> string \<Rightarrow> string option" where
  "link headers rel =
     first_some (\<lambda>value. case value of
         None \<Rightarrow> None
       | Some v \<Rightarrow> first_some (link_target rel) (split_outside v (CHR '','')))
       (get_all headers ''link'')"

definition is_id :: "string \<Rightarrow> bool" where
  "is_id s \<longleftrightarrow> length s = 22 \<and> list_all is_b64url s"

definition resource_id :: "string \<Rightarrow> string \<Rightarrow> string \<Rightarrow> string option" where
  "resource_id target origin prefix =
     (let path = (case strip_prefix origin target of Some p \<Rightarrow> p | None \<Rightarrow> target)
      in case strip_prefix prefix path of
           None \<Rightarrow> None
         | Some i \<Rightarrow> if is_id i then Some i else None)"

section \<open>TTL\<close>

lemma TTL_CEILING_value: "TTL_CEILING = 2147483648" "unat TTL_CEILING = 2 ^ 31"
  by (simp_all add: TTL_CEILING_def push_bit_eq_mult)

lemma min_ttl: "n < 2 ^ 64 \<Longrightarrow> unat (min (of_nat n) TTL_CEILING) = min n (2 ^ 31)"
  by (simp add: min_def word_le_nat_alt TTL_CEILING_value unat_of_nat take_bit_nat_eq_self)

lemma ttl_value:
  assumes "single headers ''ttl'' = Inr (Some v)" and "v \<noteq> []" and "list_all is_ascii_digit v"
  shows "\<exists>n. ttl headers = Inr n \<and> unat n = min (digits_value v) (2 ^ 31)"
proof (cases "digits_value v < 2 ^ 64")
  case True
  with assms show ?thesis
    by (simp add: ttl_def parse_u64_digits min_ttl)
next
  case False
  with assms show ?thesis by (simp add: ttl_def parse_u64_digits TTL_CEILING_value)
qed

text \<open>
  A request has a TTL exactly when it has exactly one \<open>TTL\<close> header and that is, up to
  surrounding spaces and tabs, one or more digits; the TTL is its value, saturated at
  \<open>2 ^ 31\<close> seconds however many digits it has (no overflow of the 64-bit parse shows).
\<close>

theorem ttl_grammar:
  "(case ttl headers of
      Inl e \<Rightarrow> \<nexists>v. get_all headers ''ttl'' = [Some v] \<and>
        (let d = trim_by (\<lambda>c. c = CHR '' '' \<or> c = CHR 0x09) v in d \<noteq> [] \<and> list_all is_ascii_digit d)
    | Inr n \<Rightarrow> \<exists>v. get_all headers ''ttl'' = [Some v] \<and>
        (let d = trim_by (\<lambda>c. c = CHR '' '' \<or> c = CHR 0x09) v
         in d \<noteq> [] \<and> list_all is_ascii_digit d \<and> unat n = min (digits_value d) (2 ^ 31)))"
proof (cases "single headers ''ttl''")
  case (Inl e)
  then have "ttl headers = Inl e" by (simp add: ttl_def)
  with Inl show ?thesis by (auto simp: single_def split: list.splits option.splits)
next
  case (Inr r)
  show ?thesis
  proof (cases r)
    case None
    with Inr have "ttl headers = Inl Invalid" by (simp add: ttl_def)
    with Inr None show ?thesis by (auto simp: single_def split: list.splits option.splits)
  next
    case (Some d)
    with Inr obtain v where v: "get_all headers ''ttl'' = [Some v]"
      and d: "d = trim_by (\<lambda>c. c = CHR '' '' \<or> c = CHR 0x09) v"
      by (auto simp: single_def split: list.splits option.splits)
    show ?thesis
    proof (cases "d \<noteq> [] \<and> list_all is_ascii_digit d")
      case True
      with ttl_value [of headers d] Inr Some obtain n
        where "ttl headers = Inr n" "unat n = min (digits_value d) (2 ^ 31)" by auto
      with True v d show ?thesis by (simp add: Let_def)
    next
      case False
      with Inr Some have "ttl headers = Inl Invalid" by (auto simp: ttl_def)
      with False v d show ?thesis by (auto simp: Let_def)
    qed
  qed
qed

section \<open>Links\<close>

text \<open>Octets that neither end a target nor separate, quote or space a link value.\<close>

definition url_char :: "char \<Rightarrow> bool" where
  "url_char c \<longleftrightarrow> c \<notin> {CHR ''<'', CHR ''>'', quote, CHR '','', CHR '';'', CHR ''=''} \<and> \<not> is_whitespace c"

lemma split_outside_clean:
  assumes "\<forall>c\<in>set s. c \<notin> {CHR ''<'', CHR ''>'', quote}" and "angle \<or> quoted \<or> sep \<notin> set s"
  shows "split_outside_from sep part angle quoted (s @ rest) = split_outside_from sep (part @ s) angle quoted rest"
  using assms
proof (induction s arbitrary: part)
  case (Cons c s)
  have c: "c \<noteq> CHR ''<''" "c \<noteq> CHR ''>''" "c \<noteq> quote" "\<not> (c = sep \<and> \<not> angle \<and> \<not> quoted)"
    using Cons.prems by (simp_all only: list.set) blast+
  have IH: "split_outside_from sep (part @ [c]) angle quoted (s @ rest) =
      split_outside_from sep ((part @ [c]) @ s) angle quoted rest"
    using Cons.prems by (intro Cons.IH) (simp_all only: list.set, blast+)
  show ?case
    unfolding append_Cons split_outside_from.simps using c IH by (simp only: if_False simp_thms) simp
qed simp

lemma quote_facts [simp]: "quote \<noteq> CHR ''<''" "quote \<noteq> CHR ''>''" "quote \<noteq> CHR '';''"
  "quote \<noteq> CHR '',''" "quote \<noteq> CHR '' ''" "\<not> is_whitespace quote" "quote \<noteq> CHR ''=''"
  by (simp_all add: quote_def is_whitespace_def)

lemma url_charD: "\<forall>c\<in>set s. url_char c \<Longrightarrow> \<forall>c\<in>set s. c \<notin> {CHR ''<'', CHR ''>'', quote}"
  "\<forall>c\<in>set s. url_char c \<Longrightarrow> CHR '','' \<notin> set s \<and> CHR '';'' \<notin> set s \<and> CHR ''='' \<notin> set s \<and> CHR ''>'' \<notin> set s"
  "\<forall>c\<in>set s. url_char c \<Longrightarrow> \<forall>c\<in>set s. \<not> is_whitespace c \<and> c \<noteq> quote"
  by (auto simp: url_char_def)

lemma is_b64url_url: "is_b64url c \<Longrightarrow> url_char c"
  by (auto simp: is_b64url_def url_char_def is_ascii_alphanumeric_def is_ascii_digit_def
      is_ascii_upper_def is_ascii_lower_def less_eq_char_def quote_def is_whitespace_def)

text \<open>A link value as \<open>endpoint::link\<close> formats it.\<close>

definition link_value :: "string \<Rightarrow> string \<Rightarrow> string" where
  "link_value target rel = ''<'' @ target @ ''>; rel='' @ [quote] @ rel @ [quote]"

lemma split_link_value:
  assumes "\<forall>c\<in>set target. url_char c" and "\<forall>c\<in>set rel. url_char c"
  shows "split_outside (link_value target rel) (CHR '','') = [link_value target rel]"
proof -
  note t = url_charD [OF assms(1)] and r = url_charD [OF assms(2)]
  show ?thesis
    using split_outside_clean [OF t(1), of True False "CHR '',''"]
      split_outside_clean [OF r(1), of False True "CHR '',''"]
    by (simp add: split_outside_def link_value_def quote_def)
qed

lemma trim_link_value: "trim (link_value target rel) = link_value target rel"
  unfolding trim_def by (rule trim_by_id) (simp add: link_value_def, simp add: is_whitespace_def)

lemma split_params:
  assumes "\<forall>c\<in>set rel. url_char c"
  shows "split_outside (''; rel='' @ quote # rel @ [quote]) (CHR '';'') = [[], '' rel='' @ quote # rel @ [quote]]"
  using split_outside_clean [OF url_charD(1) [OF assms], of False True "CHR '';''"]
  by (simp add: split_outside_def quote_def)

lemma rel_matches_value:
  assumes "\<forall>c\<in>set rel. url_char c" and "rel \<noteq> []"
  shows "rel_matches rel ('' rel='' @ quote # rel @ [quote])"
proof -
  note r = url_charD [OF assms(1)]
  have name: "split_once (CHR ''='') ('' rel='' @ quote # rel @ [quote]) = Some ('' rel'', quote # rel @ [quote])"
    by simp
  have "trim '' rel'' = ''rel''"
    by (simp add: trim_def trim_by_def trim_start_by_def trim_end_by_def is_whitespace_def)
  moreover have "trim (quote # rel @ [quote]) = quote # rel @ [quote]"
    unfolding trim_def by (rule trim_by_id) simp
  moreover have "trim_by (\<lambda>c. c = quote) (quote # rel @ [quote]) = rel"
  proof -
    have "dropWhile (\<lambda>c. c = quote) (rel @ [quote]) = rel @ [quote]"
      using r(3) assms(2) by (cases rel) auto
    moreover have "dropWhile (\<lambda>c. c = quote) (rev rel) = rev rel"
      using r(3) assms(2) by (cases "rev rel") (auto simp: rev_swap)
    ultimately show ?thesis by (simp add: trim_by_def trim_start_by_def trim_end_by_def)
  qed
  moreover have "split_ascii_whitespace rel = [rel]"
    using r(3) assms(2) by (simp add: split_ascii_whitespace_def split_by_clean is_ascii_whitespace_def)
  ultimately show ?thesis by (simp add: rel_matches_def name)
qed

lemma link_of_value:
  assumes "\<forall>c\<in>set target. url_char c" and "\<forall>c\<in>set rel. url_char c" and "rel \<noteq> []"
    and "get_all headers ''link'' = [Some (link_value target rel)]"
  shows "link headers rel = Some target"
proof -
  have "split_once (CHR ''>'') (target @ ''>; rel='' @ quote # rel @ [quote]) =
      Some (target, ''; rel='' @ quote # rel @ [quote])"
    using url_charD(2) [OF assms(1)] split_once_append [of "CHR ''>''" target] by simp
  then have "link_target rel (link_value target rel) = Some target"
    using split_params [OF assms(2)] rel_matches_value [OF assms(2,3)]
    unfolding link_target_def trim_link_value by (simp add: link_value_def)
  then show ?thesis
    using split_link_value [OF assms(1,2)] by (simp add: link_def assms(4))
qed

section \<open>Resource ids\<close>

lemma resource_id_SomeD:
  "resource_id target origin prefix = Some i \<Longrightarrow>
   is_id i \<and> (target = origin @ prefix @ i \<or> target = prefix @ i)"
  by (auto simp: resource_id_def Let_def strip_prefix_Some_iff split: option.splits if_splits)

lemma resource_id_absolute: "is_id i \<Longrightarrow> resource_id (origin @ prefix @ i) origin prefix = Some i"
  by (simp add: resource_id_def)

text \<open>
  Only an id of the service's shape is taken from a link target, and only when the
  target is that id's URL at this origin or its absolute path; an id behind another
  origin is never taken. Every such URL does give its id.
\<close>

theorem resource_id_only_ours:
  shows "(\<forall>i. resource_id target origin prefix = Some i \<longrightarrow>
      is_id i \<and> (target = origin @ prefix @ i \<or> target = prefix @ i)) \<and>
    (is_id j \<longrightarrow> resource_id (origin @ prefix @ j) origin prefix = Some j) \<and>
    (is_id j \<and> strip_prefix origin (prefix @ j) = None \<longrightarrow>
       resource_id (prefix @ j) origin prefix = Some j)"
  using resource_id_SomeD resource_id_absolute by (auto simp: resource_id_def)

lemma resource_id_only_ours_witness:
  "resource_id (''https://h'' @ ''/push/'' @ replicate 22 (CHR ''A'')) ''https://h'' ''/push/'' =
     Some (replicate 22 (CHR ''A''))"
  using resource_id_only_ours [of "[]" "''https://h''" "''/push/''" "replicate 22 (CHR ''A'')"]
  by (simp add: is_id_def is_b64url_def is_ascii_alphanumeric_def is_ascii_upper_def less_eq_char_def
      list_all_iff)

text \<open>
  The \<open>Link\<close> value the service sends with an accepted push (target the URL of a
  receipt subscription, relation \<open>rel\<close>) is understood when it comes back on a later push:
  the target found for that relation gives the id of the receipt subscription.
\<close>

theorem receipt_link_roundtrip:
  assumes "is_id rsub" and "\<forall>c\<in>set origin. url_char c" and "\<forall>c\<in>set prefix. url_char c"
    and "\<forall>c\<in>set rel. url_char c" and "rel \<noteq> []"
    and "get_all headers ''link'' = [Some (link_value (origin @ prefix @ rsub) rel)]"
  shows "link headers rel = Some (origin @ prefix @ rsub) \<and>
    resource_id (origin @ prefix @ rsub) origin prefix = Some rsub"
proof -
  have "\<forall>c\<in>set (origin @ prefix @ rsub). url_char c"
    using assms(1-3) is_b64url_url by (auto simp: is_id_def list_all_iff)
  from link_of_value [OF this assms(4-6)] show ?thesis
    using resource_id_absolute [OF assms(1)] by blast
qed

lemma receipt_link_roundtrip_witness:
  "link [(''link'', Some (link_value (''https://h'' @ ''/receipt-subscription/'' @ replicate 22 (CHR ''A''))
      ''urn:ietf:params:push:receipt''))] ''urn:ietf:params:push:receipt'' =
     Some (''https://h'' @ ''/receipt-subscription/'' @ replicate 22 (CHR ''A''))"
  by (rule receipt_link_roundtrip [THEN conjunct1])
    (simp_all add: is_id_def is_b64url_def is_ascii_alphanumeric_def is_ascii_upper_def less_eq_char_def
      list_all_iff url_char_def quote_def is_whitespace_def get_all_def)

end
