(* ===== verification/Base64_Url.thy ===== *)
theory Base64_Url
  imports Headers
begin

text \<open>
  The documented behaviour of the \<open>base64\<close> crate's \<open>URL_SAFE_NO_PAD\<close> engine the service
  relies on (\<open>base64_ok\<close>), and a concrete codec that has it (RFC 4648 section 5, no padding,
  trailing bits checked), on which the witnesses of the other theories run.
\<close>

definition base64_ok :: "base64 \<Rightarrow> bool" where
  "base64_ok b64 \<longleftrightarrow>
     (\<forall>bs. b64_decode b64 (b64_encode b64 bs) = Some bs \<and> list_all is_b64url (b64_encode b64 bs) \<and>
        length (b64_encode b64 bs) = (4 * length bs + 2) div 3)"

definition alphabet :: string where
  "alphabet = ''ABCDEFGHIJKLMNOPQRSTUVWXYZabcdefghijklmnopqrstuvwxyz0123456789-_''"

definition sextet :: "nat \<Rightarrow> char" where
  "sextet n = alphabet ! n"

definition sextet_value :: "char \<Rightarrow> nat option" where
  "sextet_value c = List.find (\<lambda>n. alphabet ! n = c) [0..<64]"

fun url_encode :: "byte list \<Rightarrow> string" where
  "url_encode [] = []"
| "url_encode [a] = [sextet (unat a div 4), sextet (unat a mod 4 * 16)]"
| "url_encode [a, b] = [sextet (unat a div 4), sextet (unat a mod 4 * 16 + unat b div 16),
     sextet (unat b mod 16 * 4)]"
| "url_encode (a # b # c # bs) = sextet (unat a div 4) # sextet (unat a mod 4 * 16 + unat b div 16) #
     sextet (unat b mod 16 * 4 + unat c div 64) # sextet (unat c mod 64) # url_encode bs"

fun url_octets :: "nat list \<Rightarrow> byte list option" where
  "url_octets [] = Some []"
| "url_octets [w] = None"
| "url_octets [w, x] = (if x mod 16 = 0 then Some [of_nat (w * 4 + x div 16)] else None)"
| "url_octets [w, x, y] =
     (if y mod 4 = 0 then Some [of_nat (w * 4 + x div 16), of_nat (x mod 16 * 16 + y div 4)] else None)"
| "url_octets (w # x # y # z # ns) =
     map_option (\<lambda>bs. of_nat (w * 4 + x div 16) # of_nat (x mod 16 * 16 + y div 4) #
       of_nat (y mod 4 * 64 + z) # bs) (url_octets ns)"

definition url_decode :: "string \<Rightarrow> byte list option" where
  "url_decode s = (case those (map sextet_value s) of None \<Rightarrow> None | Some ns \<Rightarrow> url_octets ns)"

definition url_base64 :: base64 where
  "url_base64 = \<lparr>b64_encode = url_encode, b64_decode = url_decode\<rparr>"

lemma alphabet_facts: "length alphabet = 64" "distinct alphabet" "list_all is_b64url alphabet"
  by (simp_all add: alphabet_def is_b64url_def is_ascii_alphanumeric_def is_ascii_digit_def
      is_ascii_upper_def is_ascii_lower_def less_eq_char_def)

lemma sextet_value_sextet: "n < 64 \<Longrightarrow> sextet_value (sextet n) = Some n"
proof -
  assume n: "n < 64"
  have "find (\<lambda>m. alphabet ! m = alphabet ! n) [0..<64] = Some n"
    unfolding find_Some_iff using n alphabet_facts(1,2)
    by (intro exI [of _ n]) (auto simp: nth_eq_iff_index_eq)
  then show ?thesis by (simp add: sextet_value_def sextet_def)
qed

lemma sextet_b64url: "n < 64 \<Longrightarrow> is_b64url (sextet n)"
  using alphabet_facts(1,3) by (simp add: sextet_def list_all_length)

lemma octet_bounds: "unat (b :: byte) div 4 < 64" "unat (b :: byte) mod 4 * 16 < 64"
  "unat (b :: byte) mod 16 * 4 < 64" "unat (b :: byte) mod 64 < 64"
  "unat (a :: byte) mod 4 * 16 + unat (b :: byte) div 16 < 64"
  "unat (a :: byte) mod 16 * 4 + unat (b :: byte) div 64 < 64"
  using unat_byte_less [of a] unat_byte_less [of b] by linarith+

lemma of_nat_unat_div:
  "of_nat (unat (a :: byte) div 4 * 4 + (unat a mod 4 * 16 + n) div 16) = a" if "n < 16"
proof -
  have "(unat a mod 4 * 16 + n) div 16 = unat a mod 4" using that by simp
  then show ?thesis by simp
qed

lemma of_nat_unat_mid:
  "of_nat ((n * 16 + unat (b :: byte) div 16) mod 16 * 16 + (unat b mod 16 * 4 + m) div 4) = b" if "m < 4"
proof -
  have "unat b div 16 < 16" using unat_byte_less [of b] by linarith
  then have "(n * 16 + unat b div 16) mod 16 = unat b div 16" by simp
  moreover have "(unat b mod 16 * 4 + m) div 4 = unat b mod 16" using that by simp
  ultimately show ?thesis by simp
qed

lemma of_nat_unat_low: "of_nat ((n * 4 + unat (c :: byte) div 64) mod 4 * 64 + unat c mod 64) = c"
proof -
  have "unat c div 64 < 4" using unat_byte_less [of c] by linarith
  then have "(n * 4 + unat c div 64) mod 4 = unat c div 64" by simp
  then show ?thesis by simp
qed

lemma unat_div_16: "unat (b :: byte) div 16 < 16" "unat (b :: byte) div 64 < 4"
  using unat_byte_less [of b] by linarith+

lemma url_roundtrip: "url_decode (url_encode bs) = Some bs"
proof (induction bs rule: url_encode.induct)
  case (2 a)
  show ?case
    using of_nat_unat_div [of 0 a]
    by (simp add: url_decode_def sextet_value_sextet octet_bounds)
next
  case (3 a b)
  show ?case
    using of_nat_unat_div [of "unat b div 16" a] of_nat_unat_mid [of 0 "unat a mod 4" b] unat_div_16
    by (simp add: url_decode_def sextet_value_sextet octet_bounds)
next
  case (4 a b c bs)
  then obtain ns where "those (map sextet_value (url_encode bs)) = Some ns" and "url_octets ns = Some bs"
    by (auto simp: url_decode_def split: option.splits)
  then show ?case
    using of_nat_unat_div [of "unat b div 16" a] of_nat_unat_mid [of "unat c div 64" "unat a mod 4" b]
      of_nat_unat_low [of "unat b mod 16" c] unat_div_16
    by (simp add: url_decode_def sextet_value_sextet octet_bounds)
qed (simp add: url_decode_def)

lemma url_length: "length (url_encode bs) = (4 * length bs + 2) div 3"
  by (induction bs rule: url_encode.induct) auto

lemma url_alphabet: "list_all is_b64url (url_encode bs)"
  by (induction bs rule: url_encode.induct) (simp_all add: sextet_b64url octet_bounds)

lemma url_base64_ok: "base64_ok url_base64"
  by (simp add: base64_ok_def url_base64_def url_roundtrip url_alphabet url_length)

text \<open>
  Every id the service issues passes its own check of ids, and ids made from different
  draws of the system's randomness differ.
\<close>

lemma issued_ids_valid:
  assumes "base64_ok b64"
  shows "is_id (fst (new_id b64 w)) \<and> is_uaid (fst (new_uaid w)) \<and>
    (fst (new_id b64 w) = fst (new_id b64 w') \<longrightarrow>
       fst (random_bytes 16 w) = fst (random_bytes 16 w')) \<and>
    (fst (new_uaid w) = fst (new_uaid w') \<longrightarrow>
       fst (random_bytes 16 w) = fst (random_bytes 16 w'))"
proof -
  have len: "length (fst (random_bytes 16 w)) = 16" for w by (simp add: random_bytes_def)
  have "is_id (fst (new_id b64 w))"
    using assms len by (simp add: base64_ok_def is_id_def new_id_def case_prod_beta)
  moreover have "is_uaid (fst (new_uaid w))"
    using concat_hex2_lower [of "fst (random_bytes 16 w)"] len [of w]
    by (simp add: is_uaid_def new_uaid_def case_prod_beta)
  moreover have "fst (random_bytes 16 w) = fst (random_bytes 16 w')"
    if "fst (new_id b64 w) = fst (new_id b64 w')"
  proof -
    from that have "b64_encode b64 (fst (random_bytes 16 w)) = b64_encode b64 (fst (random_bytes 16 w'))"
      by (simp add: new_id_def case_prod_beta)
    with assms show ?thesis unfolding base64_ok_def by (metis option.inject)
  qed
  moreover have "fst (random_bytes 16 w) = fst (random_bytes 16 w')"
    if "fst (new_uaid w) = fst (new_uaid w')"
    using that len by (simp add: new_uaid_def case_prod_beta concat_hex2_inject)
  ultimately show ?thesis by blast
qed

end
