(* ===== verification/Json.thy ===== *)
theory Json
  imports Base64_Url
begin

text \<open>
  \<open>serde_json::Value\<close> as the service uses it: values, indexing, and the accessors \<open>as_u64\<close>
  and \<open>as_str\<close>. Of a number only what \<open>as_u64\<close> says is used. Text and values are related
  by the crate, a parameter where it matters. HTTP responses of other services are here
  too: a status, headers and octets.
\<close>

datatype json = JNull | JBool bool | JNumber "u64 option" | JString string | JArray "json list"
  | JObject "(string \<times> json) list"

text \<open>Indexing with a string: \<open>Null\<close> unless the value is an object with that key.\<close>

fun json_index :: "json \<Rightarrow> string \<Rightarrow> json" where
  "json_index (JObject kvs) k = (case map_of kvs k of None \<Rightarrow> JNull | Some v \<Rightarrow> v)"
| "json_index _ k = JNull"

fun as_u64 :: "json \<Rightarrow> u64 option" where
  "as_u64 (JNumber n) = n"
| "as_u64 _ = None"

fun as_str :: "json \<Rightarrow> string option" where
  "as_str (JString s) = Some s"
| "as_str _ = None"

record http_reply =
  hr_status :: nat
  hr_headers :: header_map
  hr_body :: "byte list"

definition is_success :: "nat \<Rightarrow> bool" where
  "is_success status \<longleftrightarrow> 200 \<le> status \<and> status < 300"

text \<open>\<open>str::contains\<close>.\<close>

fun contains :: "string \<Rightarrow> string \<Rightarrow> bool" where
  "contains [] needle \<longleftrightarrow> needle = []"
| "contains (c # s) needle \<longleftrightarrow> strip_prefix needle (c # s) \<noteq> None \<or> contains s needle"

text \<open>The first value of a header, where it is text: \<open>headers.get(name)\<close> and \<open>to_str\<close>.\<close>

definition header_text :: "header_map \<Rightarrow> string \<Rightarrow> string option" where
  "header_text h name = (case get_all h name of [] \<Rightarrow> None | v # _ \<Rightarrow> v)"

end
