(* ===== verification/Bridge.thy ===== *)
theory Bridge
  imports Base64_Url
begin

text \<open>
  \<open>crates/webpush-bridge/src/lib.rs\<close>: what the service hands to a platform push service,
  why the platform may refuse it, and the \<open>Bridge\<close> trait as a record. A \<open>Duration\<close> is its
  number of nanoseconds.
\<close>

section \<open>Durations\<close>

type_synonym duration = nat

definition from_secs :: "nat \<Rightarrow> duration" where
  "from_secs s = s * 10 ^ 9"

definition as_secs :: "duration \<Rightarrow> nat" where
  "as_secs d = d div 10 ^ 9"

definition as_millis :: "duration \<Rightarrow> nat" where
  "as_millis d = d div 10 ^ 6"

lemma as_secs_from_secs [simp]: "as_secs (from_secs s) = s"
  by (simp add: as_secs_def from_secs_def)

lemma from_secs_zero [simp]: "from_secs s = 0 \<longleftrightarrow> s = 0"
  by (simp add: from_secs_def)

section \<open>Definitions\<close>

datatype priority = PNormal | PHigh

record bridge_notification =
  bn_channel_id :: string
  bn_version :: string
  bn_data :: "byte list option"
  bn_encoding :: "string option"
  bn_ttl :: duration
  bn_priority :: priority

record address =
  ad_app_id :: string
  ad_token :: string

definition notification_fields :: "base64 \<Rightarrow> bridge_notification \<Rightarrow> (string, string) bmap" where
  "notification_fields b64 n =
     (let fields = bt_insert ''version'' (bn_version n) (bt_insert ''channelID'' (bn_channel_id n) [])
      in case bn_data n of
           None \<Rightarrow> fields
         | Some data \<Rightarrow>
             let fields = bt_insert ''data'' (b64_encode b64 data) fields
             in case bn_encoding n of
                  None \<Rightarrow> fields
                | Some encoding \<Rightarrow> bt_insert ''encoding'' encoding fields)"

datatype bridge_error = UnknownApp | TokenGone | PayloadTooLarge | Throttled "duration option"
  | Rejected string | Unavailable box_error

fun kind :: "bridge_error \<Rightarrow> string" where
  "kind UnknownApp = ''unknown_app''"
| "kind TokenGone = ''token_gone''"
| "kind PayloadTooLarge = ''too_large''"
| "kind (Throttled _) = ''throttled''"
| "kind (Rejected _) = ''rejected''"
| "kind (Unavailable _) = ''unavailable''"

text \<open>The platform answers from outside: \<open>br_send b k\<close> is its answer to the \<open>k\<close>-th message
  handed to bridges by this process.\<close>

record bridge =
  br_name :: string
  br_has_app :: "string \<Rightarrow> bool"
  br_send :: "nat \<Rightarrow> address \<Rightarrow> bridge_notification \<Rightarrow> bridge_error + unit"

section \<open>The fields a bridged application receives\<close>

lemma string_order: "''channelID'' < ''data''" "''data'' < ''encoding''" "''encoding'' < ''version''"
  "''channelID'' < ''version''" "''data'' < ''version''" "''channelID'' < ''encoding''"
  by (simp_all add: less_char_def)

lemma fields_eq:
  "notification_fields b64 n =
     (''channelID'', bn_channel_id n) #
     (case bn_data n of
        None \<Rightarrow> []
      | Some data \<Rightarrow> (''data'', b64_encode b64 data) #
          (case bn_encoding n of None \<Rightarrow> [] | Some e \<Rightarrow> [(''encoding'', e)])) @
     [(''version'', bn_version n)]"
  using string_order by (auto simp: notification_fields_def Let_def not_less_iff_gr_or_eq split: option.splits)

text \<open>
  The application can read back from the fields exactly the message that was sent: the
  channel, the version, the body octets (or that there is none) and, with a body, its
  content coding; an encoding without a body is not passed on.
\<close>

theorem fields_roundtrip:
  assumes "base64_ok b64"
  shows "map_of (notification_fields b64 n) ''channelID'' = Some (bn_channel_id n) \<and>
    map_of (notification_fields b64 n) ''version'' = Some (bn_version n) \<and>
    Option.bind (map_of (notification_fields b64 n) ''data'') (b64_decode b64) = bn_data n \<and>
    map_of (notification_fields b64 n) ''encoding'' = (if bn_data n = None then None else bn_encoding n) \<and>
    bt_sorted (notification_fields b64 n)"
  using assms string_order by (auto simp: fields_eq base64_ok_def split: option.split)

lemma fields_roundtrip_witness:
  "map_of (notification_fields url_base64 \<lparr>bn_channel_id = ''c'', bn_version = ''v'', bn_data = Some [1, 2],
     bn_encoding = Some ''aes128gcm'', bn_ttl = from_secs 60, bn_priority = PNormal\<rparr>) ''encoding'' = Some ''aes128gcm''"
  using fields_roundtrip [OF url_base64_ok, of "\<lparr>bn_channel_id = ''c'', bn_version = ''v'',
    bn_data = Some [1, 2], bn_encoding = Some ''aes128gcm'', bn_ttl = from_secs 60, bn_priority = PNormal\<rparr>"]
  by simp

end
