(* ===== verification/Fcm.thy ===== *)
theory Fcm
  imports Json Bridge
begin

text \<open>
  \<open>crates/webpush-fcm/src/lib.rs\<close>: the bridge to Firebase Cloud Messaging. The token
  endpoint and FCM itself are outside: \<open>deliver\<close> takes what they answer and gives what it
  sends, whether it drops its cached token, and its result.
\<close>

section \<open>Configuration\<close>

record fcm_app_config =
  fac_credentials_file :: "string option"
  fac_project_id :: "string option"
  fac_endpoint :: "string option"

record fcm_config =
  fc_apps :: "(string, fcm_app_config) hmap"
  fc_timeout :: duration

definition fcm_default_timeout :: duration where
  "fcm_default_timeout = from_secs 10"

definition DEFAULT_ENDPOINT :: string where
  "DEFAULT_ENDPOINT = ''https://fcm.googleapis.com''"

definition MAX_DATA_BYTES :: nat where
  "MAX_DATA_BYTES = 4096"

definition MAX_TTL_SECS :: nat where
  "MAX_TTL_SECS = 2419200"

record fcm_app =
  fa_send_url :: string
  fa_quota_project :: "string option"

text \<open>\<open>load_app\<close>, given what the token source says of its project and of the quota project.\<close>

definition load_app ::
  "fcm_app_config \<Rightarrow> string option \<Rightarrow> string option \<Rightarrow> box_error + fcm_app" where
  "load_app cfg auth_project auth_quota =
     (case (case fac_project_id cfg of Some p \<Rightarrow> Some p | None \<Rightarrow> auth_project) of
        None \<Rightarrow> Inl (BoxError ''project_id is required without a service account key'')
      | Some project \<Rightarrow>
          let endpoint = (case fac_endpoint cfg of Some e \<Rightarrow> e | None \<Rightarrow> DEFAULT_ENDPOINT)
          in Inr \<lparr>fa_send_url = trim_end_by (\<lambda>c. c = CHR ''/'') endpoint @ ''/v1/projects/'' @ project @
                    ''/messages:send'', fa_quota_project = auth_quota\<rparr>)"

section \<open>Classifying a refusal\<close>

text \<open>\<open>Status\<close>: the error message and the \<open>errorCode\<close> of each detail; \<open>parse\<close> is
  \<open>serde_json::from_slice\<close> at the type \<open>Body\<close>, \<open>show_status\<close> how a status code is printed.\<close>

record fcm_status =
  fs_message :: string
  fs_details :: "string option list"

definition default_status :: fcm_status where
  "default_status = \<lparr>fs_message = [], fs_details = []\<rparr>"

definition classify ::
  "(byte list \<Rightarrow> fcm_status option) \<Rightarrow> (nat \<Rightarrow> string) \<Rightarrow> nat \<Rightarrow> duration option \<Rightarrow> byte list \<Rightarrow> bridge_error" where
  "classify parse show_status status retry_after body =
     (let st = (case parse body of None \<Rightarrow> default_status | Some st \<Rightarrow> st);
          message = fs_message st;
          code = first_some (\<lambda>d. d) (fs_details st)
      in if status = 404 \<or> code = Some ''UNREGISTERED'' \<or> code = Some ''SENDER_ID_MISMATCH''
         then TokenGone
         else if status = 429 then Throttled retry_after
         else if status = 400
         then
           (if code = Some ''INVALID_ARGUMENT'' \<and> contains (to_ascii_lowercase message) ''registration token''
            then TokenGone
            else Rejected (if message = [] then show_status status else message))
         else Unavailable (BoxError (''FCM returned '' @ show_status status @ '': '' @ message)))"

section \<open>Sending\<close>

record fcm_request =
  fq_url :: string
  fq_token :: string
  fq_user_project :: "string option"
  fq_body :: json

record fcm_outcome =
  fo_request :: "fcm_request option"
  fo_invalidate :: bool
  fo_result :: "bridge_error + unit"

definition refused :: "bridge_error \<Rightarrow> fcm_outcome" where
  "refused e = \<lparr>fo_request = None, fo_invalidate = False, fo_result = Inl e\<rparr>"

definition fcm_body :: "base64 \<Rightarrow> address \<Rightarrow> bridge_notification \<Rightarrow> json" where
  "fcm_body b64 to n = JObject [(''message'', JObject
     [(''token'', JString (ad_token to)),
      (''data'', JObject (map (\<lambda>(k, v). (k, JString v)) (notification_fields b64 n))),
      (''android'', JObject
        [(''ttl'', JString (show_nat (min (as_secs (bn_ttl n)) MAX_TTL_SECS) @ ''s'')),
         (''priority'', JString (case bn_priority n of PNormal \<Rightarrow> ''NORMAL'' | PHigh \<Rightarrow> ''HIGH''))])])]"

definition retry_after_header :: "header_map \<Rightarrow> duration option" where
  "retry_after_header h =
     (case header_text h ''retry-after'' of
        None \<Rightarrow> None
      | Some v \<Rightarrow> map_option (\<lambda>s. from_secs (unat s)) (parse_u64 (trim v)))"

definition fcm_deliver ::
  "base64 \<Rightarrow> (byte list \<Rightarrow> fcm_status option) \<Rightarrow> (nat \<Rightarrow> string) \<Rightarrow> (string, fcm_app) hmap \<Rightarrow>
   (fcm_app \<Rightarrow> box_error + string) \<Rightarrow> (fcm_request \<Rightarrow> box_error + http_reply) \<Rightarrow>
   address \<Rightarrow> bridge_notification \<Rightarrow> fcm_outcome" where
  "fcm_deliver b64 parse show_status apps token_of send to n =
     (case hget apps (ad_app_id to) of None \<Rightarrow> refused UnknownApp | Some app \<Rightarrow>
        let data = notification_fields b64 n
        in if sum_list (map (\<lambda>(k, v). length k + length v) data) > MAX_DATA_BYTES
           then refused PayloadTooLarge
           else case token_of app of Inl e \<Rightarrow> refused (Unavailable e) | Inr token \<Rightarrow>
             let request = \<lparr>fq_url = fa_send_url app, fq_token = token,
                   fq_user_project = fa_quota_project app, fq_body = fcm_body b64 to n\<rparr>
             in case send request of
                  Inl e \<Rightarrow> \<lparr>fo_request = Some request, fo_invalidate = False, fo_result = Inl (Unavailable e)\<rparr>
                | Inr resp \<Rightarrow>
                    if is_success (hr_status resp)
                    then \<lparr>fo_request = Some request, fo_invalidate = False, fo_result = Inr ()\<rparr>
                    else \<lparr>fo_request = Some request, fo_invalidate = (hr_status resp = 401),
                           fo_result = Inl (classify parse show_status (hr_status resp)
                             (retry_after_header (hr_headers resp)) (hr_body resp))\<rparr>)"

definition fcm_has_app :: "(string, fcm_app) hmap \<Rightarrow> string \<Rightarrow> bool" where
  "fcm_has_app apps app_id \<longleftrightarrow> hget apps app_id \<noteq> None"

section \<open>What the bridge reports\<close>

lemma data_size:
  "sum_list (map (\<lambda>(k, v). length k + length v) (notification_fields b64 n)) =
     16 + length (bn_channel_id n) + length (bn_version n) +
     (case bn_data n of None \<Rightarrow> 0 | Some d \<Rightarrow> 4 + length (b64_encode b64 d) +
        (case bn_encoding n of None \<Rightarrow> 0 | Some e \<Rightarrow> 8 + length e))"
  by (simp add: fields_eq split: option.split)

lemma fcm_deliver_cases:
  assumes run: "fcm_deliver b64 parse show_status apps token_of send to n = r"
  obtains (unsent) e where "r = refused e" and "e \<noteq> TokenGone"
  | (failed) q e where "sum_list (map (\<lambda>(k, v). length k + length v) (notification_fields b64 n)) \<le> MAX_DATA_BYTES"
      and "r = \<lparr>fo_request = Some q, fo_invalidate = False, fo_result = Inl (Unavailable e)\<rparr>"
  | (answered) q resp where "sum_list (map (\<lambda>(k, v). length k + length v) (notification_fields b64 n)) \<le> MAX_DATA_BYTES"
      and "send q = Inr resp"
      and "r = (if is_success (hr_status resp) then \<lparr>fo_request = Some q, fo_invalidate = False, fo_result = Inr ()\<rparr>
        else \<lparr>fo_request = Some q, fo_invalidate = (hr_status resp = 401),
          fo_result = Inl (classify parse show_status (hr_status resp) (retry_after_header (hr_headers resp)) (hr_body resp))\<rparr>)"
proof (cases "\<exists>app token. hget apps (ad_app_id to) = Some app \<and> token_of app = Inr token \<and>
    sum_list (map (\<lambda>(k, v). length k + length v) (notification_fields b64 n)) \<le> MAX_DATA_BYTES")
  case False
  then obtain e where "r = refused e" "e \<noteq> TokenGone"
    using run by (auto simp: fcm_deliver_def Let_def not_le split: option.splits sum.splits if_splits)
  then show thesis by (rule unsent)
next
  case True
  then obtain app token where app: "hget apps (ad_app_id to) = Some app" "token_of app = Inr token"
    and fits: "sum_list (map (\<lambda>(k, v). length k + length v) (notification_fields b64 n)) \<le> MAX_DATA_BYTES" by blast
  define q where "q = \<lparr>fq_url = fa_send_url app, fq_token = token, fq_user_project = fa_quota_project app, fq_body = fcm_body b64 to n\<rparr>"
  show thesis
    using run [symmetric] app fits failed [of q] answered [of q] by (cases "send q") (simp_all add: fcm_deliver_def not_less flip: q_def)
qed

lemma classify_gone:
  assumes "classify parse show_status status ra body = TokenGone"
  shows "status = 404 \<or> (\<exists>st. parse body = Some st \<and> (let code = first_some (\<lambda>d. d) (fs_details st)
    in code = Some ''UNREGISTERED'' \<or> code = Some ''SENDER_ID_MISMATCH'' \<or>
       status = 400 \<and> code = Some ''INVALID_ARGUMENT'' \<and> contains (to_ascii_lowercase (fs_message st)) ''registration token''))"
  using assms by (auto simp: classify_def Let_def default_status_def split: option.splits if_splits)


definition demo_fcm_app :: fcm_app where
  "demo_fcm_app = \<lparr>fa_send_url = ''https://fcm.googleapis.com/v1/projects/p/messages:send'',
     fa_quota_project = None\<rparr>"

definition demo_notification :: bridge_notification where
  "demo_notification = \<lparr>bn_channel_id = ''c'', bn_version = ''v'', bn_data = Some [1, 2],
     bn_encoding = Some ''aes128gcm'', bn_ttl = from_secs 60, bn_priority = PNormal\<rparr>"

definition demo_fcm :: "nat \<Rightarrow> fcm_outcome" where
  "demo_fcm status = fcm_deliver url_base64 (\<lambda>_. None) show_nat [(''app'', demo_fcm_app)] (\<lambda>_. Inr ''t'')
     (\<lambda>_. Inr \<lparr>hr_status = status, hr_headers = [], hr_body = []\<rparr>)
     \<lparr>ad_app_id = ''app'', ad_token = ''tok''\<rparr> demo_notification"


end
