(* ===== verification/Apns.thy ===== *)
theory Apns
  imports Json Bridge
begin

text \<open>
  \<open>crates/webpush-apns/src/lib.rs\<close>: the bridge to the Apple Push Notification service. An
  application's state is its cached provider token; APNs, the key files and the signature
  are outside and parameters.
\<close>

section \<open>Configuration\<close>

definition PRODUCTION :: string where
  "PRODUCTION = ''https://api.push.apple.com''"

definition SANDBOX :: string where
  "SANDBOX = ''https://api.sandbox.push.apple.com''"

definition MAX_PAYLOAD :: nat where
  "MAX_PAYLOAD = 4096"

definition TOKEN_LIFETIME :: duration where
  "TOKEN_LIFETIME = from_secs (40 * 60)"

datatype environment = Production | Sandbox

datatype push_type = Background | Alert

record apns_app_config =
  aac_key_file :: string
  aac_key_id :: string
  aac_team_id :: string
  aac_topic :: string
  aac_environment :: environment
  aac_endpoint :: "string option"
  aac_push_type :: push_type
  aac_aps :: "json option"

record apns_config =
  ac_apps :: "(string, apns_app_config) hmap"
  ac_timeout :: duration

definition apns_default_timeout :: duration where
  "apns_default_timeout = from_secs 10"

text \<open>The application without its HTTP client and its token cache.\<close>

record 'key apns_app =
  aa_endpoint :: string
  aa_key :: 'key
  aa_key_id :: string
  aa_team_id :: string
  aa_topic :: string
  aa_push_type :: push_type
  aa_aps :: json

text \<open>\<open>read_pem\<close> reads a PKCS#8 PEM file, \<open>make_key\<close> makes a P-256 key of it, \<open>client\<close> builds
  the HTTP client (with cleartext HTTP/2 where the flag says so).\<close>

definition load_apns_app ::
  "(string \<Rightarrow> string + byte list) \<Rightarrow> (byte list \<Rightarrow> string + 'key) \<Rightarrow> (duration \<Rightarrow> bool \<Rightarrow> box_error + unit) \<Rightarrow>
   duration \<Rightarrow> string \<Rightarrow> apns_app_config \<Rightarrow> box_error + 'key apns_app" where
  "load_apns_app read_pem make_key client timeout i app =
     (case read_pem (aac_key_file app) of
        Inl e \<Rightarrow> Inl (BoxError (''apns app '' @ i @ '': '' @ aac_key_file app @ '': '' @ e))
      | Inr pem \<Rightarrow> (case make_key pem of
        Inl e \<Rightarrow> Inl (BoxError (''apns app '' @ i @ '': key is not a P-256 PKCS#8 key: '' @ e))
      | Inr key \<Rightarrow> (case (aac_push_type app, aac_aps app) of
        (Alert, None) \<Rightarrow> Inl (BoxError (''apns app '' @ i @ '': push_type = '' @ [CHR 0x22] @ ''alert'' @
          [CHR 0x22] @ '' requires aps''))
      | (pt, aps) \<Rightarrow>
          let aps = (case aps of Some a \<Rightarrow> a | None \<Rightarrow> JObject [(''content-available'', JNumber (Some 1))]);
              endpoint = (case aac_endpoint app of Some e \<Rightarrow> e | None \<Rightarrow>
                (case aac_environment app of Production \<Rightarrow> PRODUCTION | Sandbox \<Rightarrow> SANDBOX))
          in case client timeout (strip_prefix ''http://'' endpoint \<noteq> None) of
               Inl e \<Rightarrow> Inl e
             | Inr _ \<Rightarrow> Inr \<lparr>aa_endpoint = trim_end_by (\<lambda>c. c = CHR ''/'') endpoint, aa_key = key,
                 aa_key_id = aac_key_id app, aa_team_id = aac_team_id app, aa_topic = aac_topic app,
                 aa_push_type = pt, aa_aps = aps\<rparr>)))"

fun load_apns_apps ::
  "(string \<Rightarrow> apns_app_config \<Rightarrow> box_error + 'key apns_app) \<Rightarrow> (string \<times> apns_app_config) list \<Rightarrow>
   (string, 'key apns_app) hmap \<Rightarrow> box_error + (string, 'key apns_app) hmap" where
  "load_apns_apps load [] loaded = Inr loaded"
| "load_apns_apps load ((i, app) # apps) loaded =
     (case load i app of
        Inl e \<Rightarrow> Inl e
      | Inr a \<Rightarrow> load_apns_apps load apps (hinsert i a loaded))"

definition apns_new ::
  "iter_order \<Rightarrow> (string \<Rightarrow> string + byte list) \<Rightarrow> (byte list \<Rightarrow> string + 'key) \<Rightarrow>
   (duration \<Rightarrow> bool \<Rightarrow> box_error + unit) \<Rightarrow> apns_config \<Rightarrow> box_error + (string, 'key apns_app) hmap" where
  "apns_new ord read_pem make_key client cfg =
     load_apns_apps (load_apns_app read_pem make_key client (ac_timeout cfg)) (hiter ord (ac_apps cfg)) []"

section \<open>The provider token\<close>

text \<open>
  What one call reads from outside: the monotonic clock when the cache is checked and when
  the new token is stored, the wall clock (\<open>None\<close> before 1970), the signature, and the crates'
  JSON printing.
\<close>

type_synonym jwt_cache = "(string \<times> duration) option"

record 'key jwt_env =
  je_check :: duration
  je_store :: duration
  je_unix :: "duration option"
  je_sign :: "'key \<Rightarrow> byte list \<Rightarrow> string + byte list"

definition unix_now :: "duration option \<Rightarrow> u64" where
  "unix_now d = (case d of None \<Rightarrow> 0 | Some d \<Rightarrow> of_nat (as_secs d))"

text \<open>The part of \<open>jwt\<close> that signs: header and claims, the signature, the new cache.\<close>

definition sign_jwt ::
  "base64 \<Rightarrow> (json \<Rightarrow> string) \<Rightarrow> 'key apns_app \<Rightarrow> 'key jwt_env \<Rightarrow> (jwt_cache, bridge_error, string) act" where
  "sign_jwt b64 show_json app env cached =
     (let header = JObject [(''alg'', JString ''ES256''), (''kid'', JString (aa_key_id app))];
          claims = JObject [(''iss'', JString (aa_team_id app)), (''iat'', JNumber (Some (unix_now (je_unix env))))];
          input = b64_encode b64 (octets (show_json header)) @ ''.'' @ b64_encode b64 (octets (show_json claims))
      in case je_sign env (aa_key app) (octets input) of
           Inl e \<Rightarrow> (Inl (Unavailable (BoxError (''signing provider token: '' @ e))), cached)
         | Inr sig \<Rightarrow>
             let t = input @ ''.'' @ b64_encode b64 sig in (Inr t, Some (t, je_store env)))"

definition jwt ::
  "base64 \<Rightarrow> (json \<Rightarrow> string) \<Rightarrow> 'key apns_app \<Rightarrow> 'key jwt_env \<Rightarrow> (jwt_cache, bridge_error, string) act" where
  "jwt b64 show_json app env cached =
     (case cached of
        Some (t, at) \<Rightarrow>
          if je_check env - at < TOKEN_LIFETIME then (Inr t, cached) else sign_jwt b64 show_json app env cached
      | None \<Rightarrow> sign_jwt b64 show_json app env cached)"

definition drop_jwt :: "jwt_cache \<Rightarrow> jwt_cache" where
  "drop_jwt cached = None"

section \<open>Sending\<close>

record apns_request =
  aq_url :: string
  aq_authorization :: string
  aq_topic :: string
  aq_push_type :: string
  aq_priority :: string
  aq_expiration :: string
  aq_body :: "byte list"

text \<open>What a send meets outside besides the token's environment: the wall clock for the
  expiration, the crate's serialisation and its parser at the type \<open>Reason\<close>, the printing of
  a status, APNs, and reading the body of its answer.\<close>

record 'key apns_env =
  ae_jwt :: "'key jwt_env"
  ae_unix :: "duration option"
  ae_show :: "json \<Rightarrow> string"
  ae_to_vec :: "json \<Rightarrow> string + byte list"
  ae_reason :: "byte list \<Rightarrow> string option"
  ae_show_status :: "nat \<Rightarrow> string"
  ae_post :: "apns_request \<Rightarrow> box_error + http_reply"
  ae_read :: "http_reply \<Rightarrow> byte list option"

text \<open>The answer's status and reason: the error, and whether the cached token is dropped.\<close>

definition apns_refusal ::
  "(nat \<Rightarrow> string) \<Rightarrow> nat \<Rightarrow> duration option \<Rightarrow> string \<Rightarrow> bridge_error \<times> bool" where
  "apns_refusal show_status status retry_after reason =
     (if status = 410 then (TokenGone, False)
      else if status = 400 \<and> reason \<in> {''BadDeviceToken'', ''DeviceTokenNotForTopic''} then (TokenGone, False)
      else if status = 400 then (Rejected reason, False)
      else if status = 413 then (PayloadTooLarge, False)
      else if status = 429 then (Throttled retry_after, False)
      else if status = 403
      then (Unavailable (BoxError (''APNs refused credentials: '' @ reason)),
            reason \<in> {''ExpiredProviderToken'', ''InvalidProviderToken''})
      else (Unavailable (BoxError (''APNs returned '' @ show_status status @ '': '' @ reason)), False))"

definition apns_body :: "base64 \<Rightarrow> 'key apns_app \<Rightarrow> bridge_notification \<Rightarrow> json" where
  "apns_body b64 app n =
     JObject ((''aps'', aa_aps app) # map (\<lambda>(k, v). (k, JString v)) (notification_fields b64 n))"

definition push_class :: "push_type \<Rightarrow> priority \<Rightarrow> string \<times> string" where
  "push_class pt p =
     (case (pt, p) of
        (Background, _) \<Rightarrow> (''background'', ''5'')
      | (Alert, PHigh) \<Rightarrow> (''alert'', ''10'')
      | (Alert, PNormal) \<Rightarrow> (''alert'', ''5''))"

definition expiration :: "duration option \<Rightarrow> duration \<Rightarrow> u64" where
  "expiration unix d = (if d = 0 then 0 else saturating_add (unix_now unix) (of_nat (as_secs d)))"

definition reply_reason :: "'key apns_env \<Rightarrow> http_reply \<Rightarrow> string" where
  "reply_reason env resp =
     (case Option.bind (ae_read env resp) (ae_reason env) of
        None \<Rightarrow> ''HTTP '' @ ae_show_status env (hr_status resp)
      | Some reason \<Rightarrow> reason)"

definition apns_retry_after :: "header_map \<Rightarrow> duration option" where
  "apns_retry_after h =
     map_option (\<lambda>s. from_secs (unat s)) (Option.bind (header_text h ''retry-after'') (\<lambda>v. parse_u64 (trim v)))"

text \<open>From the request on: what APNs answers. The result carries the request made, if any.\<close>

definition apns_post ::
  "'key apns_env \<Rightarrow> apns_request \<Rightarrow> jwt_cache \<Rightarrow> apns_request option \<times> (bridge_error + unit) \<times> jwt_cache" where
  "apns_post env request cached =
     (case ae_post env request of
        Inl e \<Rightarrow> (Some request, Inl (Unavailable e), cached)
      | Inr resp \<Rightarrow>
          if hr_status resp = 200 then (Some request, Inr (), cached)
          else
            let (err, drop) = apns_refusal (ae_show_status env) (hr_status resp)
                  (apns_retry_after (hr_headers resp)) (reply_reason env resp)
            in (Some request, Inl err, if drop then drop_jwt cached else cached))"

definition apns_send ::
  "base64 \<Rightarrow> 'key apns_env \<Rightarrow> 'key apns_app \<Rightarrow> string \<Rightarrow> bridge_notification \<Rightarrow> jwt_cache \<Rightarrow>
   apns_request option \<times> (bridge_error + unit) \<times> jwt_cache" where
  "apns_send b64 env app token n cached =
     (if token = [] \<or> \<not> list_all is_ascii_alphanumeric token then (None, Inl TokenGone, cached)
      else case ae_to_vec env (apns_body b64 app n) of
        Inl e \<Rightarrow> (None, Inl (Rejected e), cached)
      | Inr body \<Rightarrow>
          if length body > MAX_PAYLOAD then (None, Inl PayloadTooLarge, cached)
          else
            let (pt, priority) = push_class (aa_push_type app) (bn_priority n);
                exp = expiration (ae_unix env) (bn_ttl n)
            in case jwt b64 (ae_show env) app (ae_jwt env) cached of
                 (Inl e, cached) \<Rightarrow> (None, Inl e, cached)
               | (Inr t, cached) \<Rightarrow>
                   let request = \<lparr>aq_url = aa_endpoint app @ ''/3/device/'' @ token,
                     aq_authorization = ''bearer '' @ t, aq_topic = aa_topic app, aq_push_type = pt,
                     aq_priority = priority, aq_expiration = show_nat (unat exp), aq_body = body\<rparr>
                   in apns_post env request cached)"

definition apns_has_app :: "(string, 'key apns_app) hmap \<Rightarrow> string \<Rightarrow> bool" where
  "apns_has_app apps app_id \<longleftrightarrow> hget apps app_id \<noteq> None"

definition apns_deliver ::
  "base64 \<Rightarrow> 'key apns_env \<Rightarrow> (string, 'key apns_app) hmap \<Rightarrow> address \<Rightarrow> bridge_notification \<Rightarrow>
   (string \<Rightarrow> jwt_cache) \<Rightarrow> apns_request option \<times> (bridge_error + unit) \<times> (string \<Rightarrow> jwt_cache)" where
  "apns_deliver b64 env apps to n caches =
     (case hget apps (ad_app_id to) of
        None \<Rightarrow> (None, Inl UnknownApp, caches)
      | Some app \<Rightarrow>
          (case apns_send b64 env app (ad_token to) n (caches (ad_app_id to)) of
             (request, r, cached) \<Rightarrow> (request, r, caches(ad_app_id to := cached))))"

section \<open>What a send does\<close>

lemma jwt_frame: "jwt b64 show app env cached = (Inl e, cached') \<Longrightarrow> cached' = cached \<and> e \<noteq> TokenGone"
  by (auto simp: jwt_def sign_jwt_def Let_def split: option.splits sum.splits if_splits prod.splits)

lemma refusal_gone:
  "apns_refusal show_status status ra reason = (TokenGone, d) \<Longrightarrow>
   status = 410 \<or> status = 400 \<and> reason \<in> {''BadDeviceToken'', ''DeviceTokenNotForTopic''}"
  by (auto simp: apns_refusal_def split: if_splits)

text \<open>What every request carries.\<close>

definition request_for :: "'key apns_app \<Rightarrow> string \<Rightarrow> bridge_notification \<Rightarrow> apns_request \<Rightarrow> bool" where
  "request_for app token n req \<longleftrightarrow> aq_url req = aa_endpoint app @ ''/3/device/'' @ token \<and> token \<noteq> [] \<and>
     list_all is_ascii_alphanumeric token \<and> length (aq_body req) \<le> 4096 \<and>
     (aa_push_type app = Background \<longrightarrow> aq_priority req = ''5'') \<and> (bn_ttl n = 0 \<longrightarrow> aq_expiration req = ''0'')"

definition sent_request :: "'key apns_env \<Rightarrow> 'key apns_app \<Rightarrow> string \<Rightarrow> bridge_notification \<Rightarrow> string \<Rightarrow> byte list \<Rightarrow> apns_request" where
  "sent_request env app token n t body = (case push_class (aa_push_type app) (bn_priority n) of (pt, pr) \<Rightarrow>
     \<lparr>aq_url = aa_endpoint app @ ''/3/device/'' @ token, aq_authorization = ''bearer '' @ t, aq_topic = aa_topic app,
      aq_push_type = pt, aq_priority = pr, aq_expiration = show_nat (unat (expiration (ae_unix env) (bn_ttl n))), aq_body = body\<rparr>)"

lemma request_for_sent:
  assumes "\<not> (token = [] \<or> \<not> list_all is_ascii_alphanumeric token)" and "\<not> length body > MAX_PAYLOAD"
  shows "request_for app token n (sent_request env app token n t body)"
proof -
  have "show_nat 0 = ''0''" by (simp add: show_nat.simps) code_simp
  then show ?thesis
    using assms by (auto simp: request_for_def sent_request_def expiration_def MAX_PAYLOAD_def push_class_def split: push_type.split priority.split)
qed

lemma apns_send_cases:
  assumes run: "apns_send b64 env app token n cached = (q, r, cached')"
  obtains (unsent) e where "q = None" and "r = Inl e"
      and "e = TokenGone \<Longrightarrow> token = [] \<or> \<not> list_all is_ascii_alphanumeric token"
  | (sent) req c where "request_for app token n req" and "apns_post env req c = (q, r, cached')"
proof (cases "token = [] \<or> \<not> list_all is_ascii_alphanumeric token")
  case True
  with run show thesis by (intro unsent [of TokenGone]) (auto simp: apns_send_def)
next
  case token: False
  show thesis
  proof (cases "ae_to_vec env (apns_body b64 app n)")
    case (Inl e)
    with run token show thesis by (intro unsent [of "Rejected e"]) (auto simp: apns_send_def)
  next
    case body: (Inr body)
    obtain t c where jwt: "jwt b64 (ae_show env) app (ae_jwt env) cached = (t, c)" by fastforce
    show thesis
    proof (cases "length body > MAX_PAYLOAD")
      case True
      with run token body show thesis by (intro unsent [of PayloadTooLarge]) (auto simp: apns_send_def)
    next
      case fits: False
      show thesis
      proof (cases t)
        case (Inl e)
        then have "e \<noteq> TokenGone" using jwt_frame jwt by blast
        with Inl run token body fits jwt show thesis by (intro unsent [of e]) (auto simp: apns_send_def case_prod_beta)
      next
        case (Inr t')
        with run token body fits jwt show thesis
          by (intro sent [of "sent_request env app token n t' body" c] request_for_sent)
            (auto simp: apns_send_def sent_request_def case_prod_beta Let_def)
      qed
    qed
  qed
qed

lemma apns_post_result:
  assumes "apns_post env req c = (q, r, cached')"
  shows "q = Some req" and "r = Inr () \<longleftrightarrow> (\<exists>resp. ae_post env req = Inr resp \<and> hr_status resp = 200)"
    and "r = Inl TokenGone \<Longrightarrow> \<exists>resp. ae_post env req = Inr resp \<and> (hr_status resp = 410 \<or> hr_status resp = 400 \<and>
      reply_reason env resp \<in> {''BadDeviceToken'', ''DeviceTokenNotForTopic''})"
  using assms by (auto simp: apns_post_def split: sum.splits if_splits prod.splits dest: refusal_gone)


section \<open>How often tokens are signed\<close>

text \<open>The instants at which a sequence of calls stores a newly signed token.\<close>

fun signings ::
  "base64 \<Rightarrow> (json \<Rightarrow> string) \<Rightarrow> 'key apns_app \<Rightarrow> 'key jwt_env list \<Rightarrow> jwt_cache \<Rightarrow> duration list" where
  "signings b64 show_json app [] cached = []"
| "signings b64 show_json app (env # envs) cached =
     (case jwt b64 show_json app env cached of
        (_, cached') \<Rightarrow> (if cached' = cached then [] else [je_store env]) @
          signings b64 show_json app envs cached')"

text \<open>The monotonic clock over a sequence of calls that starts at \<open>now\<close>.\<close>

fun monotone_calls :: "duration \<Rightarrow> 'key jwt_env list \<Rightarrow> bool" where
  "monotone_calls now [] \<longleftrightarrow> True"
| "monotone_calls now (env # envs) \<longleftrightarrow>
     now \<le> je_check env \<and> je_check env \<le> je_store env \<and> monotone_calls (je_store env) envs"

lemma jwt_cases:
  assumes "jwt b64 show app env cached = (r, cached')"
  obtains (reused) t at where "cached = Some (t, at)" "je_check env < at + TOKEN_LIFETIME" "r = Inr t" "cached' = cached"
    | (failed) e where "r = Inl e" "cached' = cached"
    | (signed) t where "r = Inr t" "cached' = Some (t, je_store env)"
        "\<And>t' at. cached = Some (t', at) \<Longrightarrow> at + TOKEN_LIFETIME \<le> je_check env"
proof -
  have signed_case: thesis if "sign_jwt b64 show app env cached = (r, cached')"
      and "\<And>t' at. cached = Some (t', at) \<Longrightarrow> at + TOKEN_LIFETIME \<le> je_check env"
    using that(1) failed signed that(2) by (auto simp: sign_jwt_def Let_def split: sum.splits)
  show thesis
  proof (cases cached)
    case None
    with assms signed_case show thesis by (auto simp: jwt_def)
  next
    case (Some ta)
    obtain t at where ta: "ta = (t, at)" by fastforce
    show thesis
    proof (cases "je_check env - at < TOKEN_LIFETIME")
      case True
      with assms Some ta have "r = Inr t" and "cached' = cached" by (auto simp: jwt_def)
      moreover from True have "je_check env < at + TOKEN_LIFETIME" by arith
      ultimately show thesis using reused Some ta by blast
    next
      case False
      then have old: "at + TOKEN_LIFETIME \<le> je_check env" by (simp add: TOKEN_LIFETIME_def from_secs_def)
      from False assms Some ta have "sign_jwt b64 show app env cached = (r, cached')" by (simp add: jwt_def)
      then show thesis by (rule signed_case) (use Some ta old in auto)
    qed
  qed
qed

lemma monotone_calls_mono: "monotone_calls now envs \<Longrightarrow> now' \<le> now \<Longrightarrow> monotone_calls now' envs"
  by (cases envs) auto

lemma signings_spaced:
  "monotone_calls now envs \<Longrightarrow> (\<And>t at. cached = Some (t, at) \<Longrightarrow> at \<le> now) \<Longrightarrow>
   sorted_wrt (\<lambda>a b. a + TOKEN_LIFETIME \<le> b) (signings b64 show app envs cached) \<and>
   (\<forall>t at. cached = Some (t, at) \<longrightarrow> (\<forall>s\<in>set (signings b64 show app envs cached). at + TOKEN_LIFETIME \<le> s))"
proof (induction envs arbitrary: now cached)
  case (Cons env envs)
  obtain r cached' where jwt: "jwt b64 show app env cached = (r, cached')" by fastforce
  from Cons.prems(1) have times: "now \<le> je_check env" "je_check env \<le> je_store env"
    and rest: "monotone_calls (je_store env) envs" by simp_all
  from jwt show ?case
  proof (cases rule: jwt_cases)
    case signed
    have "sorted_wrt (\<lambda>a b. a + TOKEN_LIFETIME \<le> b) (signings b64 show app envs cached') \<and>
        (\<forall>s\<in>set (signings b64 show app envs cached'). je_store env + TOKEN_LIFETIME \<le> s)"
      using Cons.IH [OF rest, of cached'] signed(2) by blast
    moreover have "at + TOKEN_LIFETIME \<le> je_store env" if "cached = Some (t, at)" for t at
      using signed(3) [OF that] times by simp
    ultimately have spaced: "sorted_wrt (\<lambda>a b. a + TOKEN_LIFETIME \<le> b)
          (je_store env # signings b64 show app envs cached') \<and>
        (\<forall>t at. cached = Some (t, at) \<longrightarrow>
          (\<forall>s\<in>set (je_store env # signings b64 show app envs cached'). at + TOKEN_LIFETIME \<le> s))"
      by (force intro: order_trans)
    have "cached' \<noteq> cached"
    proof
      assume "cached' = cached"
      with signed(2) have "je_store env + TOKEN_LIFETIME \<le> je_check env" using signed(3) by blast
      with times show False by (simp add: TOKEN_LIFETIME_def from_secs_def)
    qed
    then have sg: "signings b64 show app (env # envs) cached = je_store env # signings b64 show app envs cached'"
      by (simp add: jwt)
    show ?thesis unfolding sg by (rule spaced)
  next
    case reused
    from jwt [unfolded reused(4)] have sg: "signings b64 show app (env # envs) cached = signings b64 show app envs cached"
      by simp
    show ?thesis unfolding sg
      by (rule Cons.IH [OF monotone_calls_mono [OF rest] Cons.prems(2)]) (use times in simp)
  next
    case failed
    from jwt [unfolded failed(2)] have sg: "signings b64 show app (env # envs) cached = signings b64 show app envs cached"
      by simp
    show ?thesis unfolding sg
      by (rule Cons.IH [OF monotone_calls_mono [OF rest] Cons.prems(2)]) (use times in simp)
  qed
qed simp

text \<open>
  C36. However often messages are sent, an application signs two provider tokens at least 40
  minutes apart (unless APNs refused one), and every token it presents was signed less than
  40 minutes before the call.
\<close>

theorem provider_token_window:
  assumes "monotone_calls 0 envs"
  shows "sorted_wrt (\<lambda>a b. a + from_secs 2400 \<le> b) (signings b64 show_json app envs None) \<and>
    (\<forall>env cached t cached'. je_check env \<le> je_store env \<longrightarrow>
       jwt b64 show_json app env cached = (Inr t, cached') \<longrightarrow>
       (\<exists>at. cached' = Some (t, at) \<and> je_check env < at + from_secs 2400))"
proof -
  have life: "TOKEN_LIFETIME = from_secs 2400" by (simp add: TOKEN_LIFETIME_def)
  have "\<exists>at. cached' = Some (t, at) \<and> je_check env < at + from_secs 2400"
    if "je_check env \<le> je_store env" and "jwt b64 show_json app env cached = (Inr t, cached')" for env cached t cached'
    using that(2)
  proof (cases rule: jwt_cases)
    case signed
    moreover have "je_check env < je_store env + from_secs 2400" using that(1) by (simp add: from_secs_def)
    ultimately show ?thesis by auto
  qed (auto simp: life)
  with signings_spaced [OF assms, of None] show ?thesis unfolding life by blast
qed

section \<open>A concrete bridge\<close>

definition demo_apns_app :: "unit apns_app" where
  "demo_apns_app = \<lparr>aa_endpoint = PRODUCTION, aa_key = (), aa_key_id = ''K'', aa_team_id = ''T'',
     aa_topic = ''com.example'', aa_push_type = Background, aa_aps = JNull\<rparr>"

definition demo_jwt_env :: "duration \<Rightarrow> unit jwt_env" where
  "demo_jwt_env t = \<lparr>je_check = t, je_store = t, je_unix = Some t, je_sign = \<lambda>_ bs. Inr [1, 2, 3]\<rparr>"

definition demo_apns_env :: "nat \<Rightarrow> unit apns_env" where
  "demo_apns_env status = \<lparr>ae_jwt = demo_jwt_env 0, ae_unix = Some 0, ae_show = \<lambda>_. ''{}'', ae_to_vec = \<lambda>_. Inr [1],
     ae_reason = \<lambda>_. None, ae_show_status = show_nat,
     ae_post = \<lambda>_. Inr \<lparr>hr_status = status, hr_headers = [], hr_body = []\<rparr>, ae_read = \<lambda>_. None\<rparr>"

definition demo_apns_send :: "nat \<Rightarrow> apns_request option \<times> (bridge_error + unit) \<times> jwt_cache" where
  "demo_apns_send status = apns_send url_base64 (demo_apns_env status) demo_apns_app ''a1b2''
     \<lparr>bn_channel_id = ''c'', bn_version = ''v'', bn_data = None, bn_encoding = None, bn_ttl = 0,
       bn_priority = PHigh\<rparr> None"


lemma provider_token_window_witness:
  "sorted_wrt (\<lambda>a b. a + from_secs 2400 \<le> b)
     (signings url_base64 (\<lambda>_. ''{}'') demo_apns_app (map (\<lambda>k. demo_jwt_env (from_secs (k * 1000))) [0, 1, 2, 3]) None)"
  by (rule conjunct1, rule provider_token_window) (simp add: demo_jwt_env_def from_secs_def)

end
