(* ===== verification/Config.thy ===== *)
theory Config
  imports Fcm Apns
begin

text \<open>
  \<open>crates/webpush-server/src/config.rs\<close>: the settings, their defaults, and the check of
  settings that are valid alone but not together. Reading TOML and the environment is the
  crate \<open>figment\<close>: a parameter of \<open>load_config\<close>. \<open>usize\<close> has 64 bits; a path is a string; a
  socket address its octets and port.
\<close>

section \<open>Settings\<close>

type_synonym socket_addr = "byte list \<times> u16"

datatype role = All | Endpoint | Connect

fun connects :: "role \<Rightarrow> bool" where
  "connects All = True"
| "connects Endpoint = False"
| "connects Connect = True"

fun serves_endpoint :: "role \<Rightarrow> bool" where
  "serves_endpoint All = True"
| "serves_endpoint Endpoint = True"
| "serves_endpoint Connect = False"

record tls_config =
  tls_cert_file :: string
  tls_key_file :: string

record public_config =
  pc_listen :: socket_addr
  pc_tls :: "tls_config option"
  pc_max_connections :: u64
  pc_handshake_timeout :: duration

definition public_default :: public_config where
  "public_default = \<lparr>pc_listen = ([0, 0, 0, 0], 8443), pc_tls = None, pc_max_connections = 100000,
     pc_handshake_timeout = from_secs 10\<rparr>"

record internal_config =
  in_listen :: socket_addr

record cluster_config =
  cl_node_url :: string
  cl_token :: string
  cl_notify_timeout :: duration

definition default_notify_timeout :: duration where
  "default_notify_timeout = from_secs 2"

record push_config =
  pu_max_ttl :: duration
  pu_max_payload :: u64
  pu_reaper_interval :: duration

definition push_default :: push_config where
  "push_default = \<lparr>pu_max_ttl = from_secs (60 * 24 * 3600), pu_max_payload = 4096,
     pu_reaper_interval = from_secs 1\<rparr>"

record websocket_config =
  ws_hello_timeout :: duration
  ws_ping_interval :: duration
  ws_pong_timeout :: duration
  ws_backlog_batch :: u64
  ws_queue :: u64
  ws_max_session :: "duration option"

definition websocket_default :: websocket_config where
  "websocket_default = \<lparr>ws_hello_timeout = from_secs 10, ws_ping_interval = from_secs 60,
     ws_pong_timeout = from_secs 30, ws_backlog_batch = 100, ws_queue = 128, ws_max_session = None\<rparr>"

record receipts_config =
  re_keepalive :: duration

definition receipts_default :: receipts_config where
  "receipts_default = \<lparr>re_keepalive = from_secs 30\<rparr>"

record user_agents_config =
  uc_expire_after :: "duration option"
  uc_sweep_interval :: duration

definition user_agents_default :: user_agents_config where
  "user_agents_default = \<lparr>uc_expire_after = None, uc_sweep_interval = from_secs 3600\<rparr>"

record cors_config =
  co_allowed_origins :: "string list"

record registration_config =
  rg_secret_keys :: "string list"

record bridges_config =
  bs_fcm :: "fcm_config option"
  bs_apns :: "apns_config option"

record bigtable_config =
  bt_endpoint :: string
  bt_project :: string
  bt_instance :: string
  bt_table :: string
  bt_create_table :: bool
  bt_credentials_file :: "string option"
  bt_app_profile :: "string option"

datatype store_config = Memory | Bigtable bigtable_config

datatype log_format = Text | Json

record log_config =
  lg_level :: string
  lg_format :: log_format

definition log_default :: log_config where
  "log_default = \<lparr>lg_level = ''info'', lg_format = Text\<rparr>"

record shutdown_config =
  sh_drain_delay :: duration
  sh_timeout :: duration

definition shutdown_default :: shutdown_config where
  "shutdown_default = \<lparr>sh_drain_delay = from_secs 5, sh_timeout = from_secs 30\<rparr>"

record config =
  cf_role :: role
  cf_origin :: string
  cf_public :: public_config
  cf_internal :: "internal_config option"
  cf_cluster :: "cluster_config option"
  cf_push :: push_config
  cf_websocket :: websocket_config
  cf_receipts :: receipts_config
  cf_user_agents :: user_agents_config
  cf_cors :: cors_config
  cf_registration :: registration_config
  cf_bridges :: bridges_config
  cf_store :: store_config
  cf_log :: log_config
  cf_shutdown :: shutdown_config

text \<open>The configuration with no setting but \<open>origin\<close>: the defaults of \<open>serde\<close>.\<close>

definition default_config :: "string \<Rightarrow> config" where
  "default_config origin = \<lparr>cf_role = All, cf_origin = origin, cf_public = public_default,
     cf_internal = None, cf_cluster = None, cf_push = push_default, cf_websocket = websocket_default,
     cf_receipts = receipts_default, cf_user_agents = user_agents_default,
     cf_cors = \<lparr>co_allowed_origins = []\<rparr>, cf_registration = \<lparr>rg_secret_keys = []\<rparr>,
     cf_bridges = \<lparr>bs_fcm = None, bs_apns = None\<rparr>, cf_store = Memory, cf_log = log_default,
     cf_shutdown = shutdown_default\<rparr>"

section \<open>Validation\<close>

definition any_bridge :: "bridges_config \<Rightarrow> bool" where
  "any_bridge b \<longleftrightarrow> True \<in> set [bs_fcm b \<noteq> None, bs_apns b \<noteq> None]"

definition section_7_2 :: string where
  "section_7_2 = ''(RFC 8030 '' @ [CHR 0xC2, CHR 0xA7] @ ''7.2)''"

text \<open>The checks of the \<open>[cluster]\<close> section: the \<open>match\<close> in \<open>validate\<close>.\<close>

definition validate_cluster :: "config \<Rightarrow> box_error option" where
  "validate_cluster cfg =
     (case cf_cluster cfg of
        None \<Rightarrow>
          if cf_role cfg \<noteq> All
          then Some (BoxError ''role endpoint and connect require a [cluster] section'') else None
      | Some c \<Rightarrow>
          if cf_internal cfg = None then Some (BoxError ''[cluster] requires an [internal] listener'')
          else if length (cl_token c) < 16
          then Some (BoxError ''cluster.token must be at least 16 characters'')
          else if strip_prefix ''http://'' (cl_node_url c) = None \<and> strip_prefix ''https://'' (cl_node_url c) = None
          then Some (BoxError ''cluster.node_url must be an http:// or https:// URL'')
          else None)"

definition validate :: "config \<Rightarrow> box_error + unit" where
  "validate cfg =
     (let origin = trim_end_by (\<lambda>c. c = CHR ''/'') (cf_origin cfg)
      in if origin \<noteq> cf_origin cfg \<or> strip_prefix ''https://'' (cf_origin cfg) = None
         then Inl (BoxError ''origin must be an https:// URL without a trailing slash'')
         else if pu_max_payload (cf_push cfg) < 4096
         then Inl (BoxError (''push.max_payload must be at least 4096 '' @ section_7_2))
         else if (case ws_max_session (cf_websocket cfg) of None \<Rightarrow> False | Some d \<Rightarrow> d = 0)
         then Inl (BoxError ''websocket.max_session must be positive'')
         else if ws_backlog_batch (cf_websocket cfg) = 0 \<or> ws_queue (cf_websocket cfg) = 0
         then Inl (BoxError ''websocket.backlog_batch and websocket.queue must be positive'')
         else if pc_max_connections (cf_public cfg) = 0
         then Inl (BoxError ''public.max_connections must be positive'')
         else case validate_cluster cfg of Some e \<Rightarrow> Inl e | None \<Rightarrow>
           if any_bridge (cf_bridges cfg) \<and> rg_secret_keys (cf_registration cfg) = []
           then Inl (BoxError ''bridges require registration.secret_keys'')
           else if list_ex (\<lambda>k. length k < 32) (rg_secret_keys (cf_registration cfg))
           then Inl (BoxError ''registration.secret_keys must be at least 32 characters each'')
           else Inr ())"

definition load_config :: "(unit \<Rightarrow> box_error + config) \<Rightarrow> box_error + config" where
  "load_config extract =
     (case extract () of
        Inl e \<Rightarrow> Inl e
      | Inr cfg \<Rightarrow> (case validate cfg of Inl e \<Rightarrow> Inl e | Inr _ \<Rightarrow> Inr cfg))"

section \<open>What a validated configuration guarantees\<close>

text \<open>
  \<open>tokio::time::interval\<close> panics on a period of zero: \<open>None\<close>.
\<close>

definition interval :: "duration \<Rightarrow> duration option" where
  "interval period = (if period = 0 then None else Some period)"

lemma validateD:
  assumes "validate cfg = Inr ()"
  shows "strip_prefix ''https://'' (cf_origin cfg) \<noteq> None"
    and "trim_end_by (\<lambda>c. c = CHR ''/'') (cf_origin cfg) = cf_origin cfg"
    and "4096 \<le> pu_max_payload (cf_push cfg)"
    and "ws_backlog_batch (cf_websocket cfg) \<noteq> 0" and "ws_queue (cf_websocket cfg) \<noteq> 0"
    and "pc_max_connections (cf_public cfg) \<noteq> 0"
    and "ws_max_session (cf_websocket cfg) \<noteq> Some 0"
    and "validate_cluster cfg = None"
    and "any_bridge (cf_bridges cfg) \<Longrightarrow> rg_secret_keys (cf_registration cfg) \<noteq> []"
    and "k \<in> set (rg_secret_keys (cf_registration cfg)) \<Longrightarrow> 32 \<le> length k"
  using assms by (auto simp: validate_def Let_def not_less list_ex_iff split: if_splits option.splits)

lemma validate_timers:
  "validate (cfg\<lparr>cf_push := (cf_push cfg)\<lparr>pu_reaper_interval := period\<rparr>,
     cf_websocket := (cf_websocket cfg)\<lparr>ws_ping_interval := period\<rparr>\<rparr>) = validate cfg"
proof -
  have "validate_cluster (cfg\<lparr>cf_push := (cf_push cfg)\<lparr>pu_reaper_interval := period\<rparr>,
     cf_websocket := (cf_websocket cfg)\<lparr>ws_ping_interval := period\<rparr>\<rparr>) = validate_cluster cfg"
    by (cases "cf_cluster cfg") (simp_all add: validate_cluster_def)
  then show ?thesis by (cases "validate_cluster cfg") (simp_all add: validate_def)
qed

text \<open>
  C37. A configuration that loads is one the service can run on, as far as validation looks:
  the origin has no trailing slash, so every resource URL built from it parses back; the
  channel and batch sizes are positive; a node that is not the whole service has a cluster,
  an internal listener and a token; a configured bridge has keys. But it accepts timer
  periods of zero, on which \<open>tokio\<close> panics: whether a configuration is valid does not depend
  on them.
\<close>

theorem validated_config:
  assumes "load_config extract = Inr cfg"
  shows "extract () = Inr cfg \<and>
    (\<exists>host. cf_origin cfg = ''https://'' @ host \<and> (host = [] \<or> last host \<noteq> CHR ''/'')) \<and>
    0 < unat (ws_queue (cf_websocket cfg)) \<and> 0 < unat (ws_backlog_batch (cf_websocket cfg)) \<and>
    4096 \<le> unat (pu_max_payload (cf_push cfg)) \<and>
    (\<not> (connects (cf_role cfg) \<and> serves_endpoint (cf_role cfg)) \<longrightarrow>
       (\<exists>c. cf_cluster cfg = Some c \<and> cf_internal cfg \<noteq> None \<and> 16 \<le> length (cl_token c))) \<and>
    (bs_fcm (cf_bridges cfg) \<noteq> None \<or> bs_apns (cf_bridges cfg) \<noteq> None \<longrightarrow>
       (\<exists>k ks. rg_secret_keys (cf_registration cfg) = k # ks \<and> 32 \<le> length k)) \<and>
    (\<forall>period. validate (cfg\<lparr>cf_push := (cf_push cfg)\<lparr>pu_reaper_interval := period\<rparr>,
        cf_websocket := (cf_websocket cfg)\<lparr>ws_ping_interval := period\<rparr>\<rparr>) = Inr ())"
proof -
  from assms have ext: "extract () = Inr cfg" and valid: "validate cfg = Inr ()"
    by (auto simp: load_config_def split: sum.splits)
  note ok = validateD [OF valid]
  note timers = validate_timers [where cfg = cfg, unfolded valid]
  obtain host where host: "cf_origin cfg = ''https://'' @ host"
    using ok(1) by (auto simp: strip_prefix_Some_iff simp del: append_Cons)
  have "host = [] \<or> last host \<noteq> CHR ''/''"
  proof (rule ccontr)
    assume "\<not> ?thesis"
    then obtain h where h: "host = h @ ''/''" by (metis append_butlast_last_id)
    have "length (trim_end_by (\<lambda>c. c = CHR ''/'') (cf_origin cfg)) \<le> length (''https://'' @ h)"
      using length_dropWhile_le [of "\<lambda>c. c = CHR ''/''" "rev (''https://'' @ h)"]
      by (simp add: trim_end_by_def host h)
    with ok(2) show False by (simp add: host h)
  qed
  moreover have "\<exists>c. cf_cluster cfg = Some c \<and> cf_internal cfg \<noteq> None \<and> 16 \<le> length (cl_token c)"
    if "\<not> (connects (cf_role cfg) \<and> serves_endpoint (cf_role cfg))"
    using ok(8) that by (cases "cf_role cfg") (auto simp: validate_cluster_def split: option.splits if_splits)
  moreover have "\<exists>k ks. rg_secret_keys (cf_registration cfg) = k # ks \<and> 32 \<le> length k"
    if "bs_fcm (cf_bridges cfg) \<noteq> None \<or> bs_apns (cf_bridges cfg) \<noteq> None"
    using ok(9) ok(10) that by (cases "rg_secret_keys (cf_registration cfg)") (auto simp: any_bridge_def)
  ultimately show ?thesis
    using ext host ok(3,4,5) timers by (auto simp: word_le_nat_alt unat_gt_0 simp del: append_Cons)
qed

definition demo_config :: config where
  "demo_config = default_config ''https://push.example.net''"

lemma validated_config_witness:
  "validate (demo_config\<lparr>cf_push := (cf_push demo_config)\<lparr>pu_reaper_interval := 0\<rparr>,
     cf_websocket := (cf_websocket demo_config)\<lparr>ws_ping_interval := 0\<rparr>\<rparr>) = Inr () \<and> interval 0 = None"
proof -
  have "load_config (\<lambda>_. Inr demo_config) = Inr demo_config"
    by (simp add: load_config_def validate_def validate_cluster_def demo_config_def default_config_def
        push_default_def websocket_default_def public_default_def any_bridge_def trim_end_by_def)
  from validated_config [OF this] show ?thesis by (simp add: interval_def)
qed

end
