(* ===== verification/Vapid.thy ===== *)
theory Vapid
  imports Json
begin

text \<open>
  \<open>crates/webpush-crypto/src/vapid.rs\<close>: the \<open>Authorization: vapid\<close> header and the
  verification of its token (RFC 8292). Base64url, JSON parsing and the ECDSA check are the
  crates \<open>base64\<close>, \<open>serde_json\<close> and \<open>p256\<close>: parameters.
\<close>

section \<open>Definitions\<close>

datatype vapid_error = NotVapid | MissingParam | InvalidKey | Malformed | UnsupportedAlgorithm
  | BadSignature | Expired | ExpiryTooFar | AudienceMismatch

record credentials =
  cr_t :: string
  cr_k :: "byte list"

definition MAX_EXP_AHEAD :: u64 where
  "MAX_EXP_AHEAD = 24 * 3600"

fun split_once_by :: "(char \<Rightarrow> bool) \<Rightarrow> string \<Rightarrow> (string \<times> string) option" where
  "split_once_by P [] = None"
| "split_once_by P (c # s) =
     (if P c then Some ([], s) else map_option (\<lambda>(a, b). (c # a, b)) (split_once_by P s))"

fun quoted_value :: "string \<Rightarrow> string \<Rightarrow> (string \<times> string) option" where
  "quoted_value out [] = None"
| "quoted_value out (c # s) =
     (if c = CHR 0x22 then Some (out, s)
      else if c = CHR 0x5C then (case s of [] \<Rightarrow> None | e # s' \<Rightarrow> quoted_value (out @ [e]) s')
      else quoted_value (out @ [c]) s)"

definition param_value :: "string \<Rightarrow> vapid_error + string \<times> string" where
  "param_value s =
     (case strip_prefix [CHR 0x22] s of
        None \<Rightarrow>
          let P = (\<lambda>c. \<not> (c = CHR '','' \<or> is_ascii_whitespace c)) in Inr (takeWhile P s, dropWhile P s)
      | Some quoted \<Rightarrow> (case quoted_value [] quoted of None \<Rightarrow> Inl Malformed | Some r \<Rightarrow> Inr r))"

text \<open>One turn of the loop over the parameters: \<open>None\<close> at the end of the list, otherwise the
  parameter's name and value and the rest.\<close>

definition next_param :: "string \<Rightarrow> vapid_error + (string \<times> string \<times> string) option" where
  "next_param rest =
     (let rest = trim_start_by (\<lambda>c. c = CHR '','' \<or> is_ascii_whitespace c) rest
      in if rest = [] then Inr None
         else
           let P = (\<lambda>c. \<not> (c = CHR ''='' \<or> c = CHR '','' \<or> is_ascii_whitespace c))
           in case strip_prefix ''='' (trim_start_by is_whitespace (dropWhile P rest)) of
                None \<Rightarrow> Inl Malformed
              | Some after_eq \<Rightarrow>
                  (case param_value (trim_start_by is_whitespace after_eq) of
                     Inl e \<Rightarrow> Inl e
                   | Inr (param, tail) \<Rightarrow> Inr (Some (takeWhile P rest, param, tail))))"

lemma quoted_value_length: "quoted_value out s = Some (v, tail) \<Longrightarrow> length tail < length s"
proof (induction out s rule: quoted_value.induct)
  case (2 out c s)
  then show ?case by (fastforce split: if_splits list.splits)
qed simp

lemma param_value_length: "param_value s = Inr (v, tail) \<Longrightarrow> length tail \<le> length s"
  using length_dropWhile_le [of _ s]
  by (auto simp: param_value_def Let_def strip_prefix_Some_iff dest: quoted_value_length split: option.splits)

lemma next_param_length: "next_param rest = Inr (Some (n, v, tail)) \<Longrightarrow> length tail < length rest"
proof -
  assume next_step: "next_param rest = Inr (Some (n, v, tail))"
  let ?r = "trim_start_by (\<lambda>c. c = CHR '','' \<or> is_ascii_whitespace c) rest"
  let ?P = "\<lambda>c. \<not> (c = CHR ''='' \<or> c = CHR '','' \<or> is_ascii_whitespace c)"
  from next_step obtain a where a: "strip_prefix ''='' (trim_start_by is_whitespace (dropWhile ?P ?r)) = Some a"
    and v: "param_value (trim_start_by is_whitespace a) = Inr (v, tail)"
    by (auto simp: next_param_def Let_def split: if_splits option.splits sum.splits)
  have "length tail \<le> length a"
    using param_value_length [OF v] length_dropWhile_le [of is_whitespace a] by (simp add: trim_start_by_def)
  also have "\<dots> < length (trim_start_by is_whitespace (dropWhile ?P ?r))"
    using a by (simp only: strip_prefix_Some_iff) simp
  also have "\<dots> \<le> length (dropWhile ?P ?r)"
    unfolding trim_start_by_def [of is_whitespace] by (rule length_dropWhile_le)
  also have "\<dots> \<le> length ?r" by (rule length_dropWhile_le)
  also have "\<dots> \<le> length rest" unfolding trim_start_by_def by (rule length_dropWhile_le)
  finally show ?thesis .
qed

function auth_params ::
  "string \<Rightarrow> string option \<Rightarrow> string option \<Rightarrow> vapid_error + string option \<times> string option" where
  "auth_params rest t k =
     (case next_param rest of
        Inl e \<Rightarrow> Inl e
      | Inr None \<Rightarrow> Inr (t, k)
      | Inr (Some (name, param, tail)) \<Rightarrow>
          if eq_ignore_ascii_case name ''t'' then auth_params tail (Some param) k
          else if eq_ignore_ascii_case name ''k'' then auth_params tail t (Some param)
          else auth_params tail t k)"
  by pat_completeness auto

termination
  by (relation "measure (\<lambda>(rest, t, k). length rest)") (auto intro: next_param_length)

declare auth_params.simps [simp del]

definition parse_authorization :: "base64 \<Rightarrow> string \<Rightarrow> vapid_error + credentials" where
  "parse_authorization b64 value =
     (let value = trim value;
          (scheme, rest) = (case split_once_by is_ascii_whitespace value of None \<Rightarrow> (value, []) | Some p \<Rightarrow> p)
      in if \<not> eq_ignore_ascii_case scheme ''vapid'' then Inl NotVapid
         else case auth_params rest None None of
                Inl e \<Rightarrow> Inl e
              | Inr (Some t, Some k) \<Rightarrow>
                  (case b64_decode b64 (trim_end_by (\<lambda>c. c = CHR ''='') k) of
                     None \<Rightarrow> Inl InvalidKey
                   | Some bs \<Rightarrow>
                       if length bs = 65 then Inr \<lparr>cr_t = t, cr_k = bs\<rparr> else Inl InvalidKey)
              | Inr _ \<Rightarrow> Inl MissingParam)"

record claims =
  cl_exp :: u64
  cl_sub :: "string option"

record jwt =
  jw_b64 :: base64
  jw_json :: "byte list \<Rightarrow> json option"
  jw_key :: "byte list \<Rightarrow> bool"
  jw_sig :: "byte list \<Rightarrow> bool"
  jw_verify :: "byte list \<Rightarrow> byte list \<Rightarrow> byte list \<Rightarrow> bool"

definition decode_json :: "jwt \<Rightarrow> string \<Rightarrow> vapid_error + json" where
  "decode_json j segment =
     (case b64_decode (jw_b64 j) segment of
        None \<Rightarrow> Inl Malformed
      | Some bytes \<Rightarrow> (case jw_json j bytes of None \<Rightarrow> Inl Malformed | Some v \<Rightarrow> Inr v))"

definition aud_ok :: "json \<Rightarrow> string \<Rightarrow> bool" where
  "aud_ok aud origin =
     (case aud of
        JString a \<Rightarrow> a = origin
      | JArray xs \<Rightarrow> list_ex (\<lambda>a. a = JString origin) xs
      | _ \<Rightarrow> False)"

text \<open>The checks on the claims, once the signature has verified.\<close>

definition check_claims :: "jwt \<Rightarrow> string \<Rightarrow> string \<Rightarrow> u64 \<Rightarrow> vapid_error + claims" where
  "check_claims j payload origin now_unix =
     (case decode_json j payload of Inl e \<Rightarrow> Inl e | Inr claims \<Rightarrow>
      case as_u64 (json_index claims ''exp'') of None \<Rightarrow> Inl Malformed | Some exp \<Rightarrow>
        if now_unix > exp then Inl Expired
        else if exp - now_unix > MAX_EXP_AHEAD then Inl ExpiryTooFar
        else if \<not> aud_ok (json_index claims ''aud'') origin then Inl AudienceMismatch
        else Inr \<lparr>cl_exp = exp, cl_sub = as_str (json_index claims ''sub'')\<rparr>)"

definition verify :: "jwt \<Rightarrow> credentials \<Rightarrow> string \<Rightarrow> u64 \<Rightarrow> vapid_error + claims" where
  "verify j creds origin now_unix =
     (if \<not> jw_key j (cr_k creds) then Inl InvalidKey
      else case split_on (CHR ''.'') (cr_t creds) of
             [header, payload, sig] \<Rightarrow>
               (case decode_json j header of Inl e \<Rightarrow> Inl e | Inr h \<Rightarrow>
                  if json_index h ''alg'' \<noteq> JString ''ES256'' then Inl UnsupportedAlgorithm
                  else case b64_decode (jw_b64 j) sig of None \<Rightarrow> Inl BadSignature | Some s \<Rightarrow>
                    if \<not> jw_sig j s then Inl BadSignature
                    else
                      let signing_input = take (length header + 1 + length payload) (cr_t creds)
                      in if \<not> jw_verify j (cr_k creds) (map of_char signing_input) s then Inl BadSignature
                         else check_claims j payload origin now_unix)
           | _ \<Rightarrow> Inl Malformed)"

section \<open>The header\<close>

definition token_char :: "char \<Rightarrow> bool" where
  "token_char c \<longleftrightarrow> c \<notin> {CHR '','', CHR 0x22, CHR ''=''} \<and> \<not> is_whitespace c"

lemma is_ascii_whitespace_ws: "is_ascii_whitespace c \<Longrightarrow> is_whitespace c"
  by (simp add: is_ascii_whitespace_def)

lemma token_charD: "\<forall>c\<in>set s. token_char c \<Longrightarrow> c \<in> set s \<Longrightarrow>
    c \<noteq> CHR '','' \<and> c \<noteq> CHR 0x22 \<and> c \<noteq> CHR ''='' \<and> \<not> is_whitespace c \<and> \<not> is_ascii_whitespace c"
  by (auto simp: token_char_def is_ascii_whitespace_def)

lemma takeWhile_token:
  assumes "\<forall>c\<in>set s. P c" and "r = [] \<or> \<not> P (hd r)"
  shows "takeWhile P (s @ r) = s \<and> dropWhile P (s @ r) = r"
  using assms by (cases r) (simp_all add: takeWhile_append2 dropWhile_append2)

lemma param_value_token:
  assumes s: "\<forall>c\<in>set s. token_char c" "s \<noteq> []" and r: "r = [] \<or> hd r = CHR '',''"
  shows "param_value (s @ r) = Inr (s, r)"
proof -
  have "strip_prefix [CHR 0x22] (s @ r) = None"
    using s token_charD [OF s(1), of "hd s"] by (cases s) auto
  moreover have "takeWhile (\<lambda>c. \<not> (c = CHR '','' \<or> is_ascii_whitespace c)) (s @ r) = s \<and>
      dropWhile (\<lambda>c. \<not> (c = CHR '','' \<or> is_ascii_whitespace c)) (s @ r) = r"
    using token_charD [OF s(1)] r by (intro takeWhile_token) auto
  ultimately show ?thesis by (simp add: param_value_def Let_def)
qed

text \<open>One parameter with a one-letter name, after separators.\<close>

lemma next_param_token:
  assumes s: "\<forall>c\<in>set s. token_char c" "s \<noteq> []" and r: "r = [] \<or> hd r = CHR '',''"
    and n: "token_char n" and sep: "\<forall>c\<in>set sep. c = CHR '','' \<or> is_ascii_whitespace c"
  shows "next_param (sep @ n # CHR ''='' # s @ r) = Inr (Some ([n], s, r))"
proof -
  let ?sep = "\<lambda>c. c = CHR '','' \<or> is_ascii_whitespace c"
  have n': "\<not> ?sep n" "n \<noteq> CHR ''=''" using n token_charD [of "[n]" n] by auto
  have trim: "trim_start_by ?sep (sep @ n # CHR ''='' # s @ r) = n # CHR ''='' # s @ r"
    using sep n'(1) by (simp add: trim_start_by_def dropWhile_append2)
  have ws: "\<not> is_whitespace (CHR ''='')" by (simp add: is_whitespace_def)
  have "trim_start_by is_whitespace (s @ r) = s @ r"
    using token_charD [OF s(1), of "hd s"] s(2) by (intro trim_start_by_id) (cases s; simp)
  moreover have "trim_start_by is_whitespace (CHR ''='' # s @ r) = CHR ''='' # s @ r"
    using ws by (intro trim_start_by_id) simp
  ultimately show ?thesis
    using n' param_value_token [OF s r] by (simp add: next_param_def Let_def trim)
qed

lemma auth_params_end: "next_param rest = Inr None \<Longrightarrow> auth_params rest t k = Inr (t, k)"
  by (simp add: auth_params.simps [of rest])

lemma auth_params_more:
  "next_param rest = Inr (Some (name, param, tail)) \<Longrightarrow> auth_params rest t k =
     (if eq_ignore_ascii_case name ''t'' then auth_params tail (Some param) k
      else if eq_ignore_ascii_case name ''k'' then auth_params tail t (Some param)
      else auth_params tail t k)"
  by (simp add: auth_params.simps [of rest])

lemma eq_ignore_case_tk: "eq_ignore_ascii_case ''t'' ''t''" "\<not> eq_ignore_ascii_case ''k'' ''t''"
  "eq_ignore_ascii_case ''k'' ''k''"
  by (simp_all add: eq_ignore_ascii_case_def to_ascii_lowercase_def to_ascii_lower_char_def
      is_ascii_upper_def less_eq_char_def)

lemma auth_params_tk:
  assumes t: "\<forall>c\<in>set t. token_char c" "t \<noteq> []" and k: "\<forall>c\<in>set k. token_char c" "k \<noteq> []"
  shows "auth_params (''t='' @ t @ '', k='' @ k) None None = Inr (Some t, Some k)"
proof -
  have tok: "token_char (CHR ''t'')" "token_char (CHR ''k'')"
    by (simp_all add: token_char_def is_whitespace_def)
  have "next_param (''t='' @ t @ '', k='' @ k) = Inr (Some (''t'', t, '', k='' @ k))"
    using next_param_token [OF t, of "'', k='' @ k" "CHR ''t''" "[]"] tok by simp
  moreover have "next_param ('', k='' @ k) = Inr (Some (''k'', k, []))"
    using next_param_token [OF k, of "[]" "CHR ''k''" "'', ''"] tok
    by (simp add: is_ascii_whitespace_def is_whitespace_def)
  moreover have "next_param [] = Inr None" by (simp add: next_param_def trim_start_by_def)
  ultimately show ?thesis
    by (simp only: auth_params_more auth_params_end eq_ignore_case_tk if_True if_False)
qed

text \<open>
  The header an application server sends, \<open>vapid t=<token>, k=<key>\<close>, parses to exactly
  that token and key (any base64 codec whose decoding inverts its encoding and whose
  encoding has no separator, quote, padding or space).
\<close>

theorem parse_authorization_roundtrip:
  assumes "\<forall>c\<in>set t. token_char c" and "t \<noteq> []"
    and "length k = 65" and "b64_decode b64 (b64_encode b64 k) = Some k"
    and "\<forall>c\<in>set (b64_encode b64 k). token_char c" and "b64_encode b64 k \<noteq> []"
  shows "parse_authorization b64 (''vapid t='' @ t @ '', k='' @ b64_encode b64 k) =
    Inr \<lparr>cr_t = t, cr_k = k\<rparr>"
proof -
  let ?k = "b64_encode b64 k"
  have "last ?k \<in> set ?k" using assms(6) by simp
  from token_charD [OF assms(5) this] have last: "\<not> is_whitespace (last ?k)" "last ?k \<noteq> CHR ''=''" by simp_all
  then have "trim (''vapid t='' @ t @ '', k='' @ ?k) = ''vapid t='' @ t @ '', k='' @ ?k"
    unfolding trim_def using assms(6) by (intro trim_by_id) (simp, simp add: is_whitespace_def)
  moreover have "split_once_by is_ascii_whitespace (''vapid t='' @ t @ '', k='' @ ?k) =
      Some (''vapid'', ''t='' @ t @ '', k='' @ ?k)"
    by (simp add: is_ascii_whitespace_def is_whitespace_def)
  moreover have "trim_end_by (\<lambda>c. c = CHR ''='') ?k = ?k"
    using last(2) assms(6) by (cases "rev ?k") (auto simp: trim_end_by_def rev_swap last_rev [symmetric] hd_rev)
  ultimately show ?thesis
    using auth_params_tk [OF assms(1,2,5,6)] assms(3,4)
    by (simp add: parse_authorization_def Let_def)
qed

lemma is_b64url_token: "is_b64url c \<Longrightarrow> token_char c"
  using is_b64url_url [of c] by (auto simp: url_char_def token_char_def quote_def)

lemma parse_authorization_roundtrip_witness:
  "parse_authorization url_base64 (''vapid t='' @ ''a.b.c'' @ '', k='' @ b64_encode url_base64 (replicate 65 4)) =
     Inr \<lparr>cr_t = ''a.b.c'', cr_k = replicate 65 4\<rparr>"
proof (rule parse_authorization_roundtrip)
  have ok: "base64_ok url_base64" by (rule url_base64_ok)
  then show "b64_decode url_base64 (b64_encode url_base64 (replicate 65 4)) = Some (replicate 65 4)"
    by (simp add: base64_ok_def)
  show "\<forall>c\<in>set (b64_encode url_base64 (replicate 65 4)). token_char c"
    using ok is_b64url_token by (simp add: base64_ok_def list_all_iff)
  have "length (b64_encode url_base64 (replicate 65 4)) = 87" using ok by (simp add: base64_ok_def)
  then show "b64_encode url_base64 (replicate 65 4) \<noteq> []" by auto
qed (simp_all add: token_char_def is_whitespace_def)

section \<open>Verification\<close>

lemma split_on_three: "split_on c s = [a, b, d] \<Longrightarrow> s = a @ c # b @ c # d"
proof -
  have join: "s = concat (map (\<lambda>p. p @ [c]) (butlast (split_on c s))) @ last (split_on c s)" for s
    by (induction s) (auto split: list.split)
  assume "split_on c s = [a, b, d]"
  with join [of s] show ?thesis by simp
qed

lemma exp_window:
  "(\<not> now > exp \<and> \<not> exp - now > MAX_EXP_AHEAD) \<longleftrightarrow>
   unat now \<le> unat exp \<and> unat exp \<le> unat now + 86400" for now exp :: u64
proof (cases "now > exp")
  case True
  then show ?thesis by (auto simp: word_less_nat_alt)
next
  case False
  then have le: "now \<le> exp" by simp
  then have "unat (exp - now) = unat exp - unat now" by (rule unat_sub)
  moreover have "unat MAX_EXP_AHEAD = 86400" by (simp add: MAX_EXP_AHEAD_def)
  ultimately show ?thesis using False le by (auto simp: word_less_nat_alt word_le_nat_alt)
qed


end
