(* ===== verification/Hub.thy ===== *)
theory Hub
  imports Store_Types
begin

text \<open>
  \<open>crates/webpush-server/src/hub.rs\<close>: the registry of the listeners open on this node. A
  listener's bounded \<open>tokio\<close> channel is a buffer with its two ends: the sending half is
  dropped with the slot, the receiving half with the listener. Every method holds the
  registry's lock throughout, so each is one step.
\<close>

section \<open>Events\<close>

record notification =
  n_id :: string
  n_channel_id :: string
  n_body :: "byte list"
  n_encoding :: "string option"

definition notification_from :: "message \<Rightarrow> notification" where
  "notification_from m = \<lparr>n_id = m_id m, n_channel_id = m_channel_id m, n_body = m_body m,
     n_encoding = m_cenc m\<rparr>"

datatype event = Message notification | Receipt u64 receipt | Gone

section \<open>Channels\<close>

record chan =
  ch_buf :: "event list"
  ch_tx :: bool
  ch_rx :: bool

datatype try_send = Sent | Full | Closed

definition chan_send :: "nat \<Rightarrow> event \<Rightarrow> chan \<Rightarrow> try_send \<times> chan" where
  "chan_send cap e c =
     (if \<not> ch_rx c then (Closed, c)
      else if length (ch_buf c) < cap then (Sent, c\<lparr>ch_buf := ch_buf c @ [e]\<rparr>)
      else (Full, c))"

text \<open>What \<open>recv\<close> finds: an event, the end of the channel, or nothing yet.\<close>

datatype recv = Got event | Ended | Empty

definition chan_recv :: "chan \<Rightarrow> recv \<times> chan" where
  "chan_recv c =
     (case ch_buf c of
        e # es \<Rightarrow> (Got e, c\<lparr>ch_buf := es\<rparr>)
      | [] \<Rightarrow> (if ch_tx c then Empty else Ended, c))"

section \<open>The hub\<close>

record slot =
  sl_id :: u64
  sl_tx :: nat

record hub =
  hb_slots :: "(recipient, slot) hmap"
  hb_next_id :: u64
  hb_capacity :: nat
  hb_chans :: "chan list"

datatype notified = Delivered | Dropped | Absent

definition new_hub :: "nat \<Rightarrow> hub" where
  "new_hub capacity = \<lparr>hb_slots = [], hb_next_id = 0, hb_capacity = capacity, hb_chans = []\<rparr>"

text \<open>Offer an event to a channel; drop its sending half.\<close>

definition offer :: "nat \<Rightarrow> event \<Rightarrow> hub \<Rightarrow> try_send \<times> hub" where
  "offer tx e h =
     (let (r, c) = chan_send (hb_capacity h) e (hb_chans h ! tx)
      in (r, h\<lparr>hb_chans := (hb_chans h)[tx := c]\<rparr>))"

definition drop_tx :: "nat \<Rightarrow> hub \<Rightarrow> hub" where
  "drop_tx tx h = h\<lparr>hb_chans := (hb_chans h)[tx := (hb_chans h ! tx)\<lparr>ch_tx := False\<rparr>]\<rparr>"

definition register :: "recipient \<Rightarrow> hub \<Rightarrow> (u64 \<times> nat) \<times> hub" where
  "register to h =
     (let rx = length (hb_chans h);
          i = hb_next_id h;
          old = hget (hb_slots h) to;
          h = h\<lparr>hb_chans := hb_chans h @ [\<lparr>ch_buf = [], ch_tx = True, ch_rx = True\<rparr>],
                hb_next_id := i + 1,
                hb_slots := hinsert to \<lparr>sl_id = i, sl_tx = rx\<rparr> (hb_slots h)\<rparr>
      in ((i, rx),
          case old of None \<Rightarrow> h | Some sl \<Rightarrow> drop_tx (sl_tx sl) (snd (offer (sl_tx sl) Gone h))))"

definition unregister :: "recipient \<Rightarrow> u64 \<Rightarrow> hub \<Rightarrow> bool \<times> hub" where
  "unregister to i h =
     (case hget (hb_slots h) to of
        None \<Rightarrow> (False, h)
      | Some sl \<Rightarrow>
          if sl_id sl = i
          then (True, drop_tx (sl_tx sl) (h\<lparr>hb_slots := hremove to (hb_slots h)\<rparr>))
          else (False, h))"

definition notify :: "recipient \<Rightarrow> event \<Rightarrow> hub \<Rightarrow> notified \<times> hub" where
  "notify to e h =
     (case hget (hb_slots h) to of
        None \<Rightarrow> (Absent, h)
      | Some sl \<Rightarrow>
          (case offer (sl_tx sl) e h of
             (Sent, h) \<Rightarrow> (Delivered, h)
           | (Full, h) \<Rightarrow> (Dropped, drop_tx (sl_tx sl) (h\<lparr>hb_slots := hremove to (hb_slots h)\<rparr>))
           | (Closed, h) \<Rightarrow> (Absent, drop_tx (sl_tx sl) (h\<lparr>hb_slots := hremove to (hb_slots h)\<rparr>))))"

text \<open>The listener's side: receive, and drop the receiving half.\<close>

definition receive :: "nat \<Rightarrow> hub \<Rightarrow> recv \<times> hub" where
  "receive rx h =
     (let (r, c) = chan_recv (hb_chans h ! rx) in (r, h\<lparr>hb_chans := (hb_chans h)[rx := c]\<rparr>))"

definition drop_rx :: "nat \<Rightarrow> hub \<Rightarrow> hub" where
  "drop_rx rx h = h\<lparr>hb_chans := (hb_chans h)[rx := (hb_chans h ! rx)\<lparr>ch_rx := False\<rparr>]\<rparr>"

section \<open>Invariant\<close>

text \<open>
  At most one listener per recipient (the map), each with a channel of its own; a channel
  has its sending half exactly while its slot is registered; no channel is over capacity;
  and registration ids are below the counter.
\<close>

definition hub_ok :: "hub \<Rightarrow> bool" where
  "hub_ok h \<longleftrightarrow> hdistinct (hb_slots h) \<and>
     (\<forall>to sl. hget (hb_slots h) to = Some sl \<longrightarrow> sl_tx sl < length (hb_chans h) \<and> sl_id sl < hb_next_id h) \<and>
     (\<forall>to to' sl sl'. hget (hb_slots h) to = Some sl \<longrightarrow> hget (hb_slots h) to' = Some sl' \<longrightarrow>
        sl_tx sl = sl_tx sl' \<longrightarrow> to = to') \<and>
     (\<forall>i<length (hb_chans h). ch_tx (hb_chans h ! i) \<longleftrightarrow>
        (\<exists>to sl. hget (hb_slots h) to = Some sl \<and> sl_tx sl = i)) \<and>
     (\<forall>c\<in>set (hb_chans h). length (ch_buf c) \<le> hb_capacity h)"

lemma hub_okD:
  assumes "hub_ok h"
  shows "hdistinct (hb_slots h)"
    and "hget (hb_slots h) to = Some sl \<Longrightarrow> sl_tx sl < length (hb_chans h)"
    and "hget (hb_slots h) to = Some sl \<Longrightarrow> sl_id sl < hb_next_id h"
    and "hget (hb_slots h) to = Some sl \<Longrightarrow> hget (hb_slots h) to' = Some sl' \<Longrightarrow>
           sl_tx sl = sl_tx sl' \<Longrightarrow> to = to'"
    and "i < length (hb_chans h) \<Longrightarrow> ch_tx (hb_chans h ! i) \<longleftrightarrow>
           (\<exists>to sl. hget (hb_slots h) to = Some sl \<and> sl_tx sl = i)"
    and "c \<in> set (hb_chans h) \<Longrightarrow> length (ch_buf c) \<le> hb_capacity h"
  using assms unfolding hub_ok_def by blast+

lemma hub_okI:
  assumes "hdistinct (hb_slots h)"
    and "\<And>to sl. hget (hb_slots h) to = Some sl \<Longrightarrow> sl_tx sl < length (hb_chans h) \<and> sl_id sl < hb_next_id h"
    and "\<And>to to' sl sl'. hget (hb_slots h) to = Some sl \<Longrightarrow> hget (hb_slots h) to' = Some sl' \<Longrightarrow>
           sl_tx sl = sl_tx sl' \<Longrightarrow> to = to'"
    and "\<And>i. i < length (hb_chans h) \<Longrightarrow> ch_tx (hb_chans h ! i) \<longleftrightarrow>
           (\<exists>to sl. hget (hb_slots h) to = Some sl \<and> sl_tx sl = i)"
    and "\<And>c. c \<in> set (hb_chans h) \<Longrightarrow> length (ch_buf c) \<le> hb_capacity h"
  shows "hub_ok h"
  using assms unfolding hub_ok_def by blast

lemma hub_ok_new: "hub_ok (new_hub n)"
  by (simp add: hub_ok_def new_hub_def)

text \<open>Only the buffer and the receiving half of one channel change.\<close>

lemma hub_ok_chan:
  assumes ok: "hub_ok h" and tx: "ch_tx c = ch_tx (hb_chans h ! i)"
    and buf: "length (ch_buf c) \<le> hb_capacity h"
  shows "hub_ok (h\<lparr>hb_chans := (hb_chans h)[i := c]\<rparr>)"
proof (rule hub_okI)
  fix j assume "j < length (hb_chans (h\<lparr>hb_chans := (hb_chans h)[i := c]\<rparr>))"
  then show "ch_tx (hb_chans (h\<lparr>hb_chans := (hb_chans h)[i := c]\<rparr>) ! j) \<longleftrightarrow>
      (\<exists>to sl. hget (hb_slots (h\<lparr>hb_chans := (hb_chans h)[i := c]\<rparr>)) to = Some sl \<and> sl_tx sl = j)"
    using hub_okD(5) [OF ok, of j] tx by (cases "j = i") simp_all
next
  fix c' assume "c' \<in> set (hb_chans (h\<lparr>hb_chans := (hb_chans h)[i := c]\<rparr>))"
  then have "c' \<in> set (hb_chans h) \<or> c' = c"
    using set_update_subset_insert [of "hb_chans h" i c] by auto
  then show "length (ch_buf c') \<le> hb_capacity (h\<lparr>hb_chans := (hb_chans h)[i := c]\<rparr>)"
    using hub_okD(6) [OF ok] buf by auto
qed (use hub_okD [OF ok] in \<open>simp_all\<close>)

lemma chan_send_bound:
  "chan_send cap e c = (r, c') \<Longrightarrow> length (ch_buf c) \<le> cap \<Longrightarrow>
   length (ch_buf c') \<le> cap \<and> ch_tx c' = ch_tx c \<and> ch_rx c' = ch_rx c"
  by (auto simp: chan_send_def split: if_splits)

lemma hub_ok_offer:
  assumes "hub_ok h" and "tx < length (hb_chans h)"
  shows "hub_ok (snd (offer tx e h))"
proof -
  obtain r c where c: "chan_send (hb_capacity h) e (hb_chans h ! tx) = (r, c)" by fastforce
  from chan_send_bound [OF this] hub_okD(6) [OF assms(1) nth_mem [OF assms(2)]]
  show ?thesis by (simp add: offer_def c hub_ok_chan [OF assms(1)])
qed

lemma offer_frame [simp]:
  "hb_slots (snd (offer tx e h)) = hb_slots h" "hb_next_id (snd (offer tx e h)) = hb_next_id h"
  "hb_capacity (snd (offer tx e h)) = hb_capacity h"
  "length (hb_chans (snd (offer tx e h))) = length (hb_chans h)"
  by (simp_all add: offer_def case_prod_beta)

lemma drop_tx_frame [simp]:
  "hb_slots (drop_tx tx h) = hb_slots h" "hb_next_id (drop_tx tx h) = hb_next_id h"
  "hb_capacity (drop_tx tx h) = hb_capacity h" "length (hb_chans (drop_tx tx h)) = length (hb_chans h)"
  by (simp_all add: drop_tx_def)

text \<open>Removing a slot together with the sending half of its channel.\<close>

lemma hub_ok_remove:
  assumes ok: "hub_ok h" and sl: "hget (hb_slots h) to = Some sl"
  shows "hub_ok (drop_tx (sl_tx sl) (h\<lparr>hb_slots := hremove to (hb_slots h)\<rparr>))" (is "hub_ok ?h")
proof (rule hub_okI)
  show "hdistinct (hb_slots ?h)" using hub_okD(1) [OF ok] by simp
  show "sl_tx sl' < length (hb_chans ?h) \<and> sl_id sl' < hb_next_id ?h"
    if "hget (hb_slots ?h) to' = Some sl'" for to' sl'
    using that hub_okD(2,3) [OF ok, of to' sl'] by (simp split: if_splits)
  show "a = b" if "hget (hb_slots ?h) a = Some x" "hget (hb_slots ?h) b = Some y" "sl_tx x = sl_tx y" for a b x y
    using that hub_okD(4) [OF ok, of a x b y] by (simp split: if_splits)
  show "length (ch_buf c) \<le> hb_capacity ?h" if "c \<in> set (hb_chans ?h)" for c
  proof -
    from that have "c \<in> set (hb_chans h) \<or> c = (hb_chans h ! sl_tx sl)\<lparr>ch_tx := False\<rparr>"
      using set_update_subset_insert by (fastforce simp: drop_tx_def)
    then show ?thesis using hub_okD(6) [OF ok] nth_mem [OF hub_okD(2) [OF ok sl]] by auto
  qed
  fix i assume i: "i < length (hb_chans ?h)"
  show "ch_tx (hb_chans ?h ! i) \<longleftrightarrow> (\<exists>to' sl'. hget (hb_slots ?h) to' = Some sl' \<and> sl_tx sl' = i)"
  proof (cases "i = sl_tx sl")
    case True
    with i hub_okD(4) [OF ok sl] show ?thesis by (auto simp: drop_tx_def split: if_splits)
  next
    case False
    have "(\<exists>to' sl'. hget (hb_slots h) to' = Some sl' \<and> sl_tx sl' = i) \<longleftrightarrow>
        (\<exists>to' sl'. hget (hb_slots ?h) to' = Some sl' \<and> sl_tx sl' = i)"
      using False sl by (auto split: if_splits) (metis option.inject)
    with False i hub_okD(5) [OF ok, of i] show ?thesis by (simp add: drop_tx_def)
  qed
qed

text \<open>A registration: the slot of a new channel.\<close>

definition with_slot :: "recipient \<Rightarrow> hub \<Rightarrow> hub" where
  "with_slot to h = h\<lparr>hb_chans := hb_chans h @ [\<lparr>ch_buf = [], ch_tx = True, ch_rx = True\<rparr>],
     hb_next_id := hb_next_id h + 1,
     hb_slots := hinsert to \<lparr>sl_id = hb_next_id h, sl_tx = length (hb_chans h)\<rparr> (hb_slots h)\<rparr>"

lemma hub_ok_with_slot:
  assumes ok: "hub_ok h" and ids: "hb_next_id h < - 1" and free: "hget (hb_slots h) to = None"
  shows "hub_ok (with_slot to h)" (is "hub_ok ?h")
proof (rule hub_okI)
  have next_id: "hb_next_id h < hb_next_id h + 1"
    using ids by unat_arith
  show "hdistinct (hb_slots ?h)" using hub_okD(1) [OF ok] by (simp add: with_slot_def)
  show "sl_tx sl < length (hb_chans ?h) \<and> sl_id sl < hb_next_id ?h" if "hget (hb_slots ?h) t = Some sl" for t sl
    using that hub_okD(2,3) [OF ok, of t sl] next_id
    by (auto simp: with_slot_def split: if_splits)
  show "a = b" if "hget (hb_slots ?h) a = Some x" "hget (hb_slots ?h) b = Some y" "sl_tx x = sl_tx y" for a b x y
    using that hub_okD(2) [OF ok, of a x] hub_okD(2) [OF ok, of b y] hub_okD(4) [OF ok, of a x b y]
    by (auto simp: with_slot_def split: if_splits)
  show "length (ch_buf c) \<le> hb_capacity ?h" if "c \<in> set (hb_chans ?h)" for c
    using that hub_okD(6) [OF ok] by (auto simp: with_slot_def)
  fix i assume i: "i < length (hb_chans ?h)"
  show "ch_tx (hb_chans ?h ! i) \<longleftrightarrow> (\<exists>t sl. hget (hb_slots ?h) t = Some sl \<and> sl_tx sl = i)"
  proof (cases "i = length (hb_chans h)")
    case True
    then show ?thesis by (auto simp: with_slot_def nth_append)
  next
    case False
    with i have "i < length (hb_chans h)" by (simp add: with_slot_def)
    then show ?thesis
      using hub_okD(5) [OF ok, of i] False free by (auto simp: with_slot_def nth_append) (metis option.distinct(1))
  qed
qed

text \<open>Registering over an existing listener is removing its slot, offering \<open>Gone\<close> to its
  channel, and registering on the free recipient.\<close>

lemma register_free: "hget (hb_slots h) to = None \<Longrightarrow> snd (register to h) = with_slot to h"
  by (simp add: register_def with_slot_def Let_def)

lemma register_result: "fst (register to h) = (hb_next_id h, length (hb_chans h))"
  by (simp add: register_def Let_def)

lemma hinsert_hremove: "hget (hinsert k v (hremove k m)) = hget (hinsert k v m)"
  by (simp add: fun_eq_iff)

lemma register_over:
  assumes ok: "hub_ok h" and old: "hget (hb_slots h) to = Some sl"
  shows "hb_chans (snd (register to h)) = hb_chans (with_slot to
      (drop_tx (sl_tx sl) ((snd (offer (sl_tx sl) Gone h))\<lparr>hb_slots := hremove to (hb_slots h)\<rparr>)))"
    and "hb_slots (snd (register to h)) =
      hinsert to \<lparr>sl_id = hb_next_id h, sl_tx = length (hb_chans h)\<rparr> (hb_slots h)"
  using hub_okD(2) [OF ok old] old
  by (simp_all add: register_def with_slot_def Let_def drop_tx_def offer_def case_prod_beta
      list_update_append nth_append)

lemma hub_ok_slots_cong:
  assumes "hub_ok h" and "hget s = hget (hb_slots h)" and "hdistinct s"
  shows "hub_ok (h\<lparr>hb_slots := s\<rparr>)"
  using assms by (simp add: hub_ok_def)

lemma hub_ok_register:
  assumes ok: "hub_ok h" and ids: "hb_next_id h < - 1"
  shows "hub_ok (snd (register to h))"
proof (cases "hget (hb_slots h) to")
  case None
  with hub_ok_with_slot [OF ok ids] show ?thesis by (simp add: register_free)
next
  case (Some sl)
  let ?h1 = "snd (offer (sl_tx sl) Gone h)"
  let ?h2 = "drop_tx (sl_tx sl) (?h1\<lparr>hb_slots := hremove to (hb_slots h)\<rparr>)"
  have "hub_ok ?h1" using ok hub_okD(2) [OF ok Some] by (rule hub_ok_offer)
  then have "hub_ok ?h2" using hub_ok_remove [of ?h1 to sl] Some by simp
  then have with_new: "hub_ok (with_slot to ?h2)" using ids by (intro hub_ok_with_slot) simp_all
  have "snd (register to h) = (with_slot to ?h2)\<lparr>hb_slots := hb_slots (snd (register to h))\<rparr>"
    using register_over(1) [OF ok Some] by (simp add: register_def Let_def Some with_slot_def)
  moreover have "hub_ok ((with_slot to ?h2)\<lparr>hb_slots := hb_slots (snd (register to h))\<rparr>)"
    using hub_okD(1) [OF ok]
    by (intro hub_ok_slots_cong [OF with_new])
      (simp_all add: register_over(2) [OF ok Some] with_slot_def fun_eq_iff)
  ultimately show ?thesis by simp
qed

lemma hub_ok_unregister: "hub_ok h \<Longrightarrow> hub_ok (snd (unregister to i h))"
  by (auto simp: unregister_def hub_ok_remove split: option.split)

lemma notify_cases:
  assumes "hget (hb_slots h) to = Some sl"
  obtains h1 where "offer (sl_tx sl) e h = (Sent, h1)" "notify to e h = (Delivered, h1)"
  | r where "offer (sl_tx sl) e h = (r, h)" "r \<noteq> Sent"
      "notify to e h = (if r = Full then Dropped else Absent,
         drop_tx (sl_tx sl) (h\<lparr>hb_slots := hremove to (hb_slots h)\<rparr>))"
proof -
  have same: "h\<lparr>hb_chans := (hb_chans h)[sl_tx sl := hb_chans h ! sl_tx sl]\<rparr> = h" by simp
  show ?thesis
  proof (cases "chan_send (hb_capacity h) e (hb_chans h ! sl_tx sl)")
    case (Pair r c)
    show ?thesis
    proof (cases "r = Sent")
      case True
      with Pair assms show ?thesis by (intro that(1)) (simp_all add: offer_def notify_def)
    next
      case False
      with Pair have "c = hb_chans h ! sl_tx sl" by (auto simp: chan_send_def split: if_splits)
      with Pair have "offer (sl_tx sl) e h = (r, h)" by (simp add: offer_def)
      with False assms show ?thesis
        by (intro that(2) [of r]) (cases r; simp add: notify_def)+
    qed
  qed
qed

lemma hub_ok_notify:
  assumes ok: "hub_ok h"
  shows "hub_ok (snd (notify to e h))"
proof (cases "hget (hb_slots h) to")
  case None
  with ok show ?thesis by (simp add: notify_def)
next
  case (Some sl)
  then show ?thesis
  proof (cases rule: notify_cases [of h to sl e])
    case (1 h1)
    with hub_ok_offer [OF ok hub_okD(2) [OF ok Some], of e] show ?thesis by simp
  next
    case (2 r)
    then show ?thesis using hub_ok_remove [OF ok Some] by simp
  qed
qed

lemma hub_ok_receive: "hub_ok h \<Longrightarrow> rx < length (hb_chans h) \<Longrightarrow> hub_ok (snd (receive rx h))"
proof -
  assume ok: "hub_ok h" and rx: "rx < length (hb_chans h)"
  obtain r c where c: "chan_recv (hb_chans h ! rx) = (r, c)" by fastforce
  then have "ch_tx c = ch_tx (hb_chans h ! rx)" and "length (ch_buf c) \<le> length (ch_buf (hb_chans h ! rx))"
    by (auto simp: chan_recv_def split: list.splits)
  with hub_okD(6) [OF ok nth_mem [OF rx]] show ?thesis
    by (simp add: receive_def c hub_ok_chan [OF ok])
qed

lemma hub_ok_drop_rx: "hub_ok h \<Longrightarrow> rx < length (hb_chans h) \<Longrightarrow> hub_ok (drop_rx rx h)"
  using hub_okD(6) [OF _ nth_mem] by (simp add: drop_rx_def hub_ok_chan)

lemma id_room: "(0 :: u64) < - 1" "(1 :: u64) < - 1"
  by (simp_all add: word_less_nat_alt unsigned_minus_1_eq_mask mask_eq_exp_minus_1)

section \<open>Runs of the hub\<close>

text \<open>What a step hands to a channel and what a listener takes from one.\<close>

datatype hub_label = Quiet | Handed nat event | Taken nat event

inductive hub_step :: "hub \<Rightarrow> hub_label \<Rightarrow> hub \<Rightarrow> bool" where
  registers: "hb_next_id h < - 1 \<Longrightarrow> hget (hb_slots h) to = None \<Longrightarrow> hub_step h Quiet (snd (register to h))"
| replaces: "hb_next_id h < - 1 \<Longrightarrow> hget (hb_slots h) to = Some sl \<Longrightarrow>
    hub_step h (if fst (offer (sl_tx sl) Gone h) = Sent then Handed (sl_tx sl) Gone else Quiet)
      (snd (register to h))"
| unregisters: "hub_step h Quiet (snd (unregister to i h))"
| delivers: "hget (hb_slots h) to = Some sl \<Longrightarrow> notify to e h = (Delivered, h') \<Longrightarrow>
    hub_step h (Handed (sl_tx sl) e) h'"
| misses: "notify to e h = (r, h') \<Longrightarrow> r \<noteq> Delivered \<Longrightarrow> hub_step h Quiet h'"
| receives: "rx < length (hb_chans h) \<Longrightarrow> receive rx h = (Got e, h') \<Longrightarrow> hub_step h (Taken rx e) h'"
| hangs_up: "rx < length (hb_chans h) \<Longrightarrow> hub_step h Quiet (drop_rx rx h)"

inductive hub_run :: "hub \<Rightarrow> hub_label list \<Rightarrow> hub \<Rightarrow> bool" where
  start: "hub_run h [] h"
| step: "hub_run h ls h' \<Longrightarrow> hub_step h' l h'' \<Longrightarrow> hub_run h (ls @ [l]) h''"

definition handed :: "nat \<Rightarrow> hub_label list \<Rightarrow> event list" where
  "handed rx ls = List.map_filter (\<lambda>l. case l of Handed i e \<Rightarrow> if i = rx then Some e else None | _ \<Rightarrow> None) ls"

definition taken :: "nat \<Rightarrow> hub_label list \<Rightarrow> event list" where
  "taken rx ls = List.map_filter (\<lambda>l. case l of Taken i e \<Rightarrow> if i = rx then Some e else None | _ \<Rightarrow> None) ls"

definition buffer :: "hub \<Rightarrow> nat \<Rightarrow> event list" where
  "buffer h rx = (if rx < length (hb_chans h) then ch_buf (hb_chans h ! rx) else [])"

lemma hub_step_ok: "hub_step h l h' \<Longrightarrow> hub_ok h \<Longrightarrow> hub_ok h'"
proof (induction rule: hub_step.induct)
  case (delivers h to sl e h')
  then show ?case using hub_ok_notify [of h to e] by simp
next
  case (misses to e h r h')
  then show ?case using hub_ok_notify [of h to e] by simp
next
  case (receives rx h e h')
  then show ?case using hub_ok_receive [of h rx] by simp
qed (auto intro: hub_ok_register hub_ok_unregister hub_ok_drop_rx)

lemma hub_run_ok: "hub_run h ls h' \<Longrightarrow> hub_ok h \<Longrightarrow> hub_ok h'"
  by (induction rule: hub_run.induct) (auto intro: hub_step_ok)

section \<open>What happens to the buffers\<close>

lemma buffer_offer:
  "tx < length (hb_chans h) \<Longrightarrow>
   buffer (snd (offer tx e h)) rx = buffer h rx @ (if fst (offer tx e h) = Sent \<and> rx = tx then [e] else [])"
  by (auto simp: buffer_def offer_def chan_send_def nth_list_update split: prod.splits if_splits)

lemma buffer_drop_tx [simp]: "buffer (drop_tx tx h) rx = buffer h rx"
  by (cases "rx = tx") (simp_all add: buffer_def drop_tx_def)

lemma buffer_slots [simp]: "buffer (h\<lparr>hb_slots := s\<rparr>) rx = buffer h rx"
  by (simp add: buffer_def)

lemma buffer_with_slot [simp]: "buffer (with_slot to h) rx = buffer h rx"
  by (auto simp: buffer_def with_slot_def nth_append)

lemma buffer_register_over:
  assumes ok: "hub_ok h" and old: "hget (hb_slots h) to = Some sl"
  shows "buffer (snd (register to h)) rx =
    buffer h rx @ (if fst (offer (sl_tx sl) Gone h) = Sent \<and> rx = sl_tx sl then [Gone] else [])"
proof -
  let ?h2 = "drop_tx (sl_tx sl) ((snd (offer (sl_tx sl) Gone h))\<lparr>hb_slots := hremove to (hb_slots h)\<rparr>)"
  have "buffer (snd (register to h)) rx = buffer (with_slot to ?h2) rx"
    using register_over(1) [OF ok old] by (simp only: buffer_def)
  also have "\<dots> = buffer (snd (offer (sl_tx sl) Gone h)) rx" by simp
  finally show ?thesis using buffer_offer [OF hub_okD(2) [OF ok old]] by simp
qed

lemma buffer_unregister: "buffer (snd (unregister to i h)) rx = buffer h rx"
  by (simp add: unregister_def split: option.split)

lemma buffer_notify:
  assumes ok: "hub_ok h"
  shows "buffer (snd (notify to e h)) rx = buffer h rx @
    (if fst (notify to e h) = Delivered \<and> (\<exists>sl. hget (hb_slots h) to = Some sl \<and> sl_tx sl = rx) then [e] else [])"
proof (cases "hget (hb_slots h) to")
  case None
  then show ?thesis by (simp add: notify_def)
next
  case (Some sl)
  note send = buffer_offer [OF hub_okD(2) [OF ok Some], of e rx]
  from Some show ?thesis
  proof (cases rule: notify_cases [of h to sl e])
    case (1 h1)
    with send Some show ?thesis by simp
  next
    case (2 r)
    then show ?thesis by simp
  qed
qed

lemma buffer_receive:
  "rx < length (hb_chans h) \<Longrightarrow> receive rx h = (Got e, h') \<Longrightarrow>
   buffer h i = (if i = rx then [e] else []) @ buffer h' i"
  by (auto simp: receive_def chan_recv_def buffer_def nth_list_update split: prod.splits list.splits if_splits)

lemma buffer_drop_rx [simp]: "buffer (drop_rx rx h) i = buffer h i"
  by (cases "i = rx") (simp_all add: buffer_def drop_rx_def)

lemma handed_simps [simp]: "handed rx [] = []"
  "handed rx (ls @ [l]) = handed rx ls @
     (case l of Handed i e \<Rightarrow> if i = rx then [e] else [] | _ \<Rightarrow> [])"
  by (auto simp: handed_def List.map_filter_def split: hub_label.split)

lemma taken_simps [simp]: "taken rx [] = []"
  "taken rx (ls @ [l]) = taken rx ls @
     (case l of Taken i e \<Rightarrow> if i = rx then [e] else [] | _ \<Rightarrow> [])"
  by (auto simp: taken_def List.map_filter_def split: hub_label.split)

lemma hub_step_buffer:
  assumes "hub_step h l h'" and "hub_ok h"
  shows "buffer h rx @ (case l of Handed i e \<Rightarrow> if i = rx then [e] else [] | _ \<Rightarrow> []) =
    (case l of Taken i e \<Rightarrow> if i = rx then [e] else [] | _ \<Rightarrow> []) @ buffer h' rx"
  using assms
proof (induction rule: hub_step.induct)
  case (registers h to)
  then show ?case by (simp add: register_free)
next
  case (replaces h to sl)
  then show ?case using buffer_register_over [of h to sl rx] by simp
next
  case (unregisters h to i)
  then show ?case by (simp add: buffer_unregister)
next
  case (delivers h to sl e h')
  then show ?case using buffer_notify [of h to e rx] by simp
next
  case (misses to e h r h')
  then show ?case using buffer_notify [of h to e rx] by simp
next
  case (receives rx' h e h')
  then show ?case using buffer_receive [of rx' h e h' rx] by simp
qed simp

text \<open>
  C16. In every state the hub can reach a recipient has at most one listener, every
  registered listener's channel is open and every other one closed, no channel holds more
  than its capacity, and the events a listener has taken together with those still in its
  channel are exactly the events handed to it, in order: none is lost, repeated or
  reordered, also when the listener is replaced or dropped for falling behind.
\<close>

theorem hub_fifo:
  assumes "hub_run (new_hub n) ls h"
  shows "hub_ok h \<and> handed rx ls = taken rx ls @ buffer h rx \<and> length (buffer h rx) \<le> n"
proof -
  have "hub_ok h \<and> handed rx ls = taken rx ls @ buffer h rx \<and> hb_capacity h = n"
    using assms
  proof (induction "new_hub n" ls h rule: hub_run.induct)
    case start
    then show ?case by (simp add: hub_ok_new) (simp add: buffer_def new_hub_def)
  next
    case (step ls h' l h'')
    have "hb_capacity h'' = hb_capacity h'"
      using step(3)
      by (cases rule: hub_step.cases)
        (auto simp: register_def unregister_def notify_def receive_def drop_rx_def offer_def Let_def
          case_prod_beta drop_tx_def split: option.splits try_send.splits prod.splits)
    with step hub_step_ok hub_step_buffer [of h' l h'' rx] show ?case by auto
  qed
  then show ?thesis using hub_okD(6) [of h] by (auto simp: buffer_def)
qed

lemma hub_fifo_witness:
  "\<exists>h. hub_run (new_hub 1) [Quiet, Handed 0 Gone, Taken 0 Gone] h \<and> buffer h 0 = []"
proof -
  let ?u = "UserAgent ''u''"
  define h1 where "h1 = snd (register ?u (new_hub 1))"
  define h2 where "h2 = snd (notify ?u Gone h1)"
  define h3 where "h3 = snd (receive 0 h2)"
  note h1 = h1_def [unfolded register_def new_hub_def hinsert_def, simplified]
  note h2 = h2_def [unfolded notify_def offer_def chan_send_def h1 hget_def, simplified]
  have "hub_step (new_hub 1) Quiet h1"
    unfolding h1_def by (rule registers) (simp_all add: new_hub_def id_room)
  moreover have "hub_step h1 (Handed 0 Gone) h2"
    using delivers [of h1 ?u "\<lparr>sl_id = 0, sl_tx = 0\<rparr>" Gone h2]
    by (simp add: h1 h2 hget_def notify_def offer_def chan_send_def)
  moreover have "hub_step h2 (Taken 0 Gone) h3"
    by (rule receives) (simp_all add: h2 h3_def receive_def chan_recv_def)
  ultimately have run: "hub_run (new_hub 1) [Quiet, Handed 0 Gone, Taken 0 Gone] h3"
    using hub_run.start hub_run.step by (metis append.left_neutral append_Cons)
  with hub_fifo [OF run, of 0] show ?thesis by (auto simp: handed_def taken_def List.map_filter_def)
qed

text \<open>
  A newer listener replaces the older one: the older channel is closed, with \<open>Gone\<close> as
  its last event unless it was already full, the older listener's cleanup finds itself
  unregistered and changes nothing, and the next event goes to the newer listener.
\<close>

theorem newer_listener_replaces:
  assumes "hub_ok h" and "hb_next_id h < - 1" and "hget (hb_slots h) to = Some sl"
    and "register to h = ((i, rx), h')" and "0 < hb_capacity h"
  shows "\<not> ch_tx (hb_chans h' ! sl_tx sl) \<and>
    (ch_rx (hb_chans h ! sl_tx sl) \<and> length (buffer h (sl_tx sl)) < hb_capacity h \<longrightarrow>
       buffer h' (sl_tx sl) = buffer h (sl_tx sl) @ [Gone]) \<and>
    unregister to (sl_id sl) h' = (False, h') \<and>
    fst (notify to e h') = Delivered \<and>
    buffer (snd (notify to e h')) rx = [e] \<and> rx \<noteq> sl_tx sl"
proof -
  have h': "h' = snd (register to h)" and i: "i = hb_next_id h" and rx: "rx = length (hb_chans h)"
    using assms(4) register_result [of to h] by simp_all
  note tx = hub_okD(2) [OF assms(1,3)]
  have slots: "hget (hb_slots h') to = Some \<lparr>sl_id = i, sl_tx = rx\<rparr>"
    unfolding h' register_over(2) [OF assms(1,3)] by (simp add: i rx)
  have ok': "hub_ok h'" unfolding h' by (rule hub_ok_register [OF assms(1,2)])
  have old: "\<not> ch_tx (hb_chans h' ! sl_tx sl)"
    unfolding h' register_over(1) [OF assms(1,3)]
    using tx by (simp add: with_slot_def drop_tx_def offer_def case_prod_beta nth_append)
  have gone: "buffer h' (sl_tx sl) = buffer h (sl_tx sl) @ [Gone]"
    if "ch_rx (hb_chans h ! sl_tx sl)" and "length (buffer h (sl_tx sl)) < hb_capacity h"
    unfolding h' buffer_register_over [OF assms(1,3)]
    using that tx by (simp add: offer_def chan_send_def buffer_def)
  have "sl_id sl \<noteq> i" using hub_okD(3) [OF assms(1,3)] i by simp
  then have unreg: "unregister to (sl_id sl) h' = (False, h')" by (simp add: unregister_def slots)
  have new: "hb_chans h' ! rx = \<lparr>ch_buf = [], ch_tx = True, ch_rx = True\<rparr>" and "rx < length (hb_chans h')"
    and cap: "hb_capacity h' = hb_capacity h"
    using register_over(1) [OF assms(1,3)] tx unfolding h'
    by (simp_all add: with_slot_def rx nth_append drop_tx_def offer_def case_prod_beta register_def Let_def assms(3))
  then have "fst (notify to e h') = Delivered" and "buffer (snd (notify to e h')) rx = [e]"
    using slots assms(5) by (simp_all add: notify_def offer_def chan_send_def buffer_def)
  with old gone unreg tx rx show ?thesis by auto
qed

lemma newer_listener_replaces_witness:
  "let h1 = snd (register (Receipts ''r'') (new_hub 4)); ((i, rx), h2) = register (Receipts ''r'') h1
   in buffer h2 0 = [Gone] \<and> unregister (Receipts ''r'') 0 h2 = (False, h2)"
proof -
  let ?r = "Receipts ''r''"
  define h1 where "h1 = snd (register ?r (new_hub 4))"
  note h1 = h1_def [unfolded register_def new_hub_def hinsert_def, simplified]
  have ok: "hub_ok h1" unfolding h1_def by (rule hub_ok_register) (simp_all add: hub_ok_new, simp add: new_hub_def id_room)
  obtain i rx h2 where reg: "register ?r h1 = ((i, rx), h2)" by (metis surj_pair)
  have "hb_next_id h1 < - 1" and "hget (hb_slots h1) ?r = Some \<lparr>sl_id = 0, sl_tx = 0\<rparr>" and "0 < hb_capacity h1"
    by (simp_all add: h1 hget_def id_room)
  from newer_listener_replaces [OF ok this(1,2) reg this(3), of Gone]
  have "buffer h2 0 = [Gone] \<and> unregister ?r 0 h2 = (False, h2)" by (simp add: h1 buffer_def)
  then show ?thesis unfolding h1_def [symmetric] Let_def reg prod.case .
qed

end
