(* ===== verification/Envelope.thy ===== *)
theory Envelope
  imports Hub Base64_Url
begin

text \<open>
  The wire form of events between nodes: \<open>Envelope\<close> of
  \<open>crates/webpush-server/src/notify.rs\<close>. Its JSON text is \<open>serde\<close>'s.
\<close>

datatype wire_recipient = WUserAgent string | WReceipts string

datatype wire_event =
    WMessage (we_id: string) (we_channel_id: string) (we_body: string) (we_encoding: "string option")
  | WReceipt (we_seq: u64) (we_rsub: string) (we_message: string) (we_status: u16)
  | WGone

record envelope =
  en_to :: wire_recipient
  en_event :: wire_event

fun wire_to :: "recipient \<Rightarrow> wire_recipient" where
  "wire_to (UserAgent u) = WUserAgent u"
| "wire_to (Receipts r) = WReceipts r"

fun wire_of :: "base64 \<Rightarrow> event \<Rightarrow> wire_event" where
  "wire_of b64 (Message n) = WMessage (n_id n) (n_channel_id n) (b64_encode b64 (n_body n)) (n_encoding n)"
| "wire_of b64 (Receipt seq r) = WReceipt seq (rc_rsub r) (rc_msg_id r) (rc_status r)"
| "wire_of b64 Gone = WGone"

definition new_envelope :: "base64 \<Rightarrow> recipient \<Rightarrow> event \<Rightarrow> envelope" where
  "new_envelope b64 to event = \<lparr>en_to = wire_to to, en_event = wire_of b64 event\<rparr>"

fun to_of :: "wire_recipient \<Rightarrow> recipient" where
  "to_of (WUserAgent u) = UserAgent u"
| "to_of (WReceipts r) = Receipts r"

fun event_of :: "base64 \<Rightarrow> wire_event \<Rightarrow> event option" where
  "event_of b64 (WMessage i c body encoding) =
     (case b64_decode b64 body of
        None \<Rightarrow> None
      | Some bs \<Rightarrow> Some (Message \<lparr>n_id = i, n_channel_id = c, n_body = bs, n_encoding = encoding\<rparr>))"
| "event_of b64 (WReceipt seq rsub message status) =
     Some (Receipt seq \<lparr>rc_rsub = rsub, rc_msg_id = message, rc_status = status\<rparr>)"
| "event_of b64 WGone = Some Gone"

definition open_envelope :: "base64 \<Rightarrow> envelope \<Rightarrow> (recipient \<times> event) option" where
  "open_envelope b64 env =
     (let to = to_of (en_to env)
      in case event_of b64 (en_event env) of None \<Rightarrow> None | Some event \<Rightarrow> Some (to, event))"

lemma to_of_wire [simp]: "to_of (wire_to to) = to"
  by (cases to) simp_all

text \<open>
  What a node sends another for an event is opened there as exactly that event for
  exactly that recipient, and different events for different recipients look different on
  the wire; an envelope is refused only for a body that is not base64url.
\<close>

theorem envelope_roundtrip:
  assumes "base64_ok b64"
  shows "open_envelope b64 (new_envelope b64 to event) = Some (to, event) \<and>
    (new_envelope b64 to event = new_envelope b64 to' event' \<longrightarrow> to = to' \<and> event = event') \<and>
    (open_envelope b64 env = None \<longleftrightarrow>
       (\<exists>i c body encoding. en_event env = WMessage i c body encoding \<and> b64_decode b64 body = None))"
proof -
  have same: "open_envelope b64 (new_envelope b64 to event) = Some (to, event)" for to event
    using assms by (cases event) (simp_all add: open_envelope_def new_envelope_def base64_ok_def)
  have inj: "new_envelope b64 to event = new_envelope b64 to' event' \<longrightarrow> to = to' \<and> event = event'"
    by (metis same option.inject prod.inject)
  have err: "open_envelope b64 env = None \<longleftrightarrow>
      (\<exists>i c body encoding. en_event env = WMessage i c body encoding \<and> b64_decode b64 body = None)"
    by (cases "en_event env") (simp_all add: open_envelope_def split: option.split)
  show ?thesis by (intro conjI same inj err)
qed

lemma envelope_roundtrip_witness:
  "open_envelope url_base64 (new_envelope url_base64 (UserAgent ''u'')
      (Message \<lparr>n_id = ''m'', n_channel_id = ''c'', n_body = [7, 8], n_encoding = None\<rparr>)) =
   Some (UserAgent ''u'', Message \<lparr>n_id = ''m'', n_channel_id = ''c'', n_body = [7, 8], n_encoding = None\<rparr>)"
  using envelope_roundtrip [OF url_base64_ok] by (rule conjunct1)

end
