(* ===== verification/App.thy ===== *)
theory App
  imports Config Vapid Envelope Memory_Contract
begin

text \<open>
  \<open>crates/webpush-server/src/app.rs\<close>, \<open>error.rs\<close>, and \<open>ClusterLink\<close> and \<open>Secrets\<close> of
  \<open>notify.rs\<close> and \<open>registration.rs\<close>: what every handler shares. An \<open>App\<close> is split into the
  part that never changes (record \<open>app\<close>) and the part that does (record \<open>node\<close>), which the
  handlers pass along.
\<close>

section \<open>Errors and responses\<close>

record http_error =
  er_status :: nat
  er_header :: "(string \<times> string) option"

definition of_status :: "nat \<Rightarrow> http_error" where
  "of_status status = \<lparr>er_status = status, er_header = None\<rparr>"

definition unauthorized :: "string \<Rightarrow> http_error" where
  "unauthorized scheme = \<lparr>er_status = 401, er_header = Some (''www-authenticate'', scheme)\<rparr>"

definition retry_after :: "nat \<Rightarrow> duration option \<Rightarrow> http_error" where
  "retry_after status after =
     \<lparr>er_status = status, er_header = map_option (\<lambda>d. (''retry-after'', show_nat (max (as_secs d) 1))) after\<rparr>"

definition of_invalid :: "invalid \<Rightarrow> http_error" where
  "of_invalid e = of_status 400"

definition of_box :: "box_error \<Rightarrow> http_error" where
  "of_box e = of_status 500"

datatype body = NoBody | Octets "byte list" | JsonBody json | EventStream

record response =
  rs_status :: nat
  rs_headers :: "(string \<times> string) list"
  rs_body :: body

definition status_response :: "nat \<Rightarrow> response" where
  "status_response status = \<lparr>rs_status = status, rs_headers = [], rs_body = NoBody\<rparr>"

definition into_response :: "http_error \<Rightarrow> response" where
  "into_response e =
     \<lparr>rs_status = er_status e, rs_headers = (case er_header e of Some h \<Rightarrow> [h] | None \<Rightarrow> []), rs_body = NoBody\<rparr>"

section \<open>The crates handlers call\<close>

text \<open>\<open>ex_hmac key m\<close> is HMAC-SHA256, \<open>ex_sha256\<close> SHA-256, \<open>ex_jwt\<close> what \<open>vapid::verify\<close> uses,
  \<open>ex_http_date\<close> the \<open>httpdate\<close> crate.\<close>

record crates =
  ex_b64 :: base64
  ex_sha256 :: "byte list \<Rightarrow> byte list"
  ex_hmac :: "byte list \<Rightarrow> byte list \<Rightarrow> byte list"
  ex_jwt :: jwt
  ex_point :: "byte list \<Rightarrow> bool"
  ex_http_date :: "u64 \<Rightarrow> string"

section \<open>The cluster link and the registration secrets\<close>

record cluster_link =
  ln_node_url :: string
  ln_token_digest :: "byte list"
  ln_token :: string

text \<open>\<open>client\<close> builds the HTTP client with the configured timeout.\<close>

definition new_link :: "crates \<Rightarrow> (duration \<Rightarrow> box_error + unit) \<Rightarrow> cluster_config \<Rightarrow> box_error + cluster_link" where
  "new_link x client cfg =
     (case client (cl_notify_timeout cfg) of
        Inl e \<Rightarrow> Inl e
      | Inr _ \<Rightarrow> Inr \<lparr>ln_node_url = trim_end_by (\<lambda>c. c = CHR ''/'') (cl_node_url cfg),
          ln_token_digest = ex_sha256 x (octets (cl_token cfg)), ln_token = cl_token cfg\<rparr>)"

definition authorized :: "crates \<Rightarrow> cluster_link \<Rightarrow> string \<Rightarrow> bool" where
  "authorized x c presented \<longleftrightarrow> ex_sha256 x (octets presented) = ln_token_digest c"

record secrets =
  sc_keys :: "byte list list"

definition new_secrets :: "string list \<Rightarrow> secrets" where
  "new_secrets keys = \<lparr>sc_keys = map octets keys\<rparr>"

definition issue :: "crates \<Rightarrow> secrets \<Rightarrow> string \<Rightarrow> string option" where
  "issue x sc uaid =
     (case sc_keys sc of
        [] \<Rightarrow> None
      | k # _ \<Rightarrow> Some (b64_encode (ex_b64 x) (ex_hmac x k (octets uaid))))"

definition verify_secret :: "crates \<Rightarrow> secrets \<Rightarrow> string \<Rightarrow> string \<Rightarrow> bool" where
  "verify_secret x sc uaid secret \<longleftrightarrow>
     (case b64_decode (ex_b64 x) secret of
        None \<Rightarrow> False
      | Some tag \<Rightarrow> list_ex (\<lambda>k. ex_hmac x k (octets uaid) = tag) (sc_keys sc))"

section \<open>The shared state\<close>

record 's app =
  ap_cfg :: config
  ap_store :: "'s store"
  ap_cluster :: "cluster_link option"
  ap_bridges :: "(string, bridge) hmap"
  ap_secrets :: secrets
  ap_crates :: crates

definition origin :: "'s app \<Rightarrow> string" where
  "origin app = cf_origin (ap_cfg app)"

fun bridges_by_name ::
  "bridge list \<Rightarrow> (string, bridge) hmap \<Rightarrow> box_error + (string, bridge) hmap" where
  "bridges_by_name [] by_name = Inr by_name"
| "bridges_by_name (b # bs) by_name =
     (if hget by_name (br_name b) \<noteq> None then Inl (BoxError ''two bridges share a name'')
      else bridges_by_name bs (hinsert (br_name b) b by_name))"

definition new_app ::
  "crates \<Rightarrow> (duration \<Rightarrow> box_error + unit) \<Rightarrow> config \<Rightarrow> 's store \<Rightarrow> bridge list \<Rightarrow> box_error + 's app" where
  "new_app x client cfg S bridges =
     (case (case cf_cluster cfg of
              None \<Rightarrow> Inr None
            | Some c \<Rightarrow> (case new_link x client c of Inl e \<Rightarrow> Inl e | Inr l \<Rightarrow> Inr (Some l))) of
        Inl e \<Rightarrow> Inl e
      | Inr cluster \<Rightarrow>
          (case bridges_by_name bridges [] of
             Inl e \<Rightarrow> Inl e
           | Inr by_name \<Rightarrow> Inr \<lparr>ap_cfg = cfg, ap_store = S, ap_cluster = cluster, ap_bridges = by_name,
               ap_secrets = new_secrets (rg_secret_keys (cf_registration cfg)), ap_crates = x\<rparr>))"

text \<open>
  The changing part. Another node's answer to a forward and a platform's answer to a message
  come from outside: \<open>nd_reply k\<close> answers the \<open>k\<close>-th forward; \<open>nd_forwards\<close> is the log of
  forwards (URL, bearer token, body), \<open>nd_sends\<close> the number of messages handed to bridges. \<open>nd_tasks\<close> are the tasks
  spawned and not yet run.
\<close>

datatype forward_reply = Replied nat | Unreachable | Lost

datatype task = ClearRoute recipient | ForwardTask string recipient event

record 's node =
  nd_store :: 's
  nd_world :: world
  nd_hub :: hub
  nd_forwards :: "(string \<times> string \<times> envelope) list"
  nd_reply :: "nat \<Rightarrow> forward_reply"
  nd_sends :: nat
  nd_tasks :: "task list"

definition new_node :: "config \<Rightarrow> 's \<Rightarrow> world \<Rightarrow> (nat \<Rightarrow> forward_reply) \<Rightarrow> 's node" where
  "new_node cfg s w reply = \<lparr>nd_store = s, nd_world = w, nd_hub = new_hub (unat (ws_queue (cf_websocket cfg))),
     nd_forwards = [], nd_reply = reply, nd_sends = 0, nd_tasks = []\<rparr>"

section \<open>Store calls and outside reads inside a handler\<close>

definition on_store :: "('s, 'a) store_op \<Rightarrow> ('s node, box_error, 'a) act" where
  "on_store f nd =
     (case f (nd_store nd, nd_world nd) of (r, (s, w)) \<Rightarrow> (r, nd\<lparr>nd_store := s, nd_world := w\<rparr>))"

definition on_world :: "(world \<Rightarrow> 'a \<times> world) \<Rightarrow> ('s node, 'e, 'a) act" where
  "on_world f nd = (case f (nd_world nd) of (x, w) \<Rightarrow> (Inr x, nd\<lparr>nd_world := w\<rparr>))"

text \<open>\<open>?\<close> on a storage error in a handler: the error becomes a 500.\<close>

definition try_store :: "('s, 'a) store_op \<Rightarrow> ('s node, http_error, 'a) act" where
  "try_store f nd = (case on_store f nd of (Inl e, nd) \<Rightarrow> (Inl (of_box e), nd) | (Inr x, nd) \<Rightarrow> (Inr x, nd))"

text \<open>A handler that cannot fail, as a step of one that can.\<close>

definition run_all :: "('s node \<Rightarrow> 's node) \<Rightarrow> ('s node, 'e, unit) act" where
  "run_all f nd = (Inr (), f nd)"

lemma run_all_apply [simp]: "run_all f nd = (Inr (), f nd)"
  by (simp add: run_all_def)

lemma on_world_apply:
  "f (nd_world nd) = (x, w) \<Longrightarrow> on_world f nd = (Inr x, nd\<lparr>nd_world := w\<rparr>)"
  by (simp add: on_world_def)

lemma try_store_apply:
  "f (nd_store nd, nd_world nd) = (Inr x, (s, w)) \<Longrightarrow>
   try_store f nd = (Inr x, nd\<lparr>nd_store := s, nd_world := w\<rparr>)"
  by (simp add: try_store_def on_store_def)

lemma try_store_error:
  "f (nd_store nd, nd_world nd) = (Inl e, (s, w)) \<Longrightarrow>
   try_store f nd = (Inl (of_status 500), nd\<lparr>nd_store := s, nd_world := w\<rparr>)"
  by (simp add: try_store_def on_store_def of_box_def)

section \<open>Registration secrets\<close>

text \<open>
  A secret the service issues verifies for that user agent while its key is
  configured, at any position, so keys can be rotated by prepending a successor; and a
  string verifies only if it decodes to the tag of that user agent under a configured key.
\<close>

theorem secret_rotation:
  assumes "base64_ok (ex_b64 x)"
  shows "(issue x (new_secrets (key # old)) uaid = Some secret \<longrightarrow>
      verify_secret x (new_secrets (newer @ key # rest)) uaid secret) \<and>
    issue x (new_secrets []) uaid = None \<and> \<not> verify_secret x (new_secrets []) uaid secret \<and>
    (verify_secret x (new_secrets keys) uaid secret \<longleftrightarrow>
       (\<exists>k\<in>set keys. b64_decode (ex_b64 x) secret = Some (ex_hmac x (octets k) (octets uaid))))"
  using assms by (auto simp: issue_def verify_secret_def new_secrets_def base64_ok_def list_ex_iff
      split: option.split)

definition demo_crates :: crates where
  "demo_crates = \<lparr>ex_b64 = url_base64, ex_sha256 = \<lambda>bs. bs, ex_hmac = \<lambda>k m. k @ m,
     ex_jwt = \<lparr>jw_b64 = url_base64, jw_json = \<lambda>_. None, jw_key = \<lambda>_. True, jw_sig = \<lambda>_. True,
       jw_verify = \<lambda>_ _ _. True\<rparr>, ex_point = \<lambda>_. True, ex_http_date = \<lambda>t. show_nat (unat t)\<rparr>"

lemma demo_crates_b64: "ex_b64 demo_crates = url_base64" "base64_ok (ex_b64 demo_crates)"
  by (simp_all add: demo_crates_def url_base64_ok)

lemma secret_rotation_witness:
  "verify_secret demo_crates (new_secrets [''new'', ''old'']) ''u''
     (the (issue demo_crates (new_secrets [''old'']) ''u''))"
  using secret_rotation [OF demo_crates_b64(2), of "''old''" "[]" "''u''"
      "the (issue demo_crates (new_secrets [''old'']) ''u'')" "[''new'']" "[]"]
  by (simp add: issue_def new_secrets_def)

end
