(* ===== verification/Notify.thy ===== *)
theory Notify
  imports App Reliable
begin

text \<open>
  \<open>crates/webpush-server/src/notify.rs\<close>: becoming the listener for a recipient, delivering
  an event to a listener on this node or on another, and announcing receipts.
\<close>

section \<open>Definitions\<close>

definition NOTIFY_PATH :: string where
  "NOTIFY_PATH = ''/internal/v1/notify''"

definition clear_stale :: "'s app \<Rightarrow> recipient \<Rightarrow> string \<Rightarrow> 's node \<Rightarrow> 's node" where
  "clear_stale app to node nd = snd (on_store (so_clear_route (ap_store app) to node) nd)"

definition app_forward :: "'s app \<Rightarrow> string \<Rightarrow> recipient \<Rightarrow> event \<Rightarrow> 's node \<Rightarrow> 's node" where
  "app_forward app node to event nd =
     (case ap_cluster app of
        None \<Rightarrow> nd
      | Some c \<Rightarrow>
          let reply = nd_reply nd (length (nd_forwards nd));
              body = new_envelope (ex_b64 (ap_crates app)) to event;
              nd = nd\<lparr>nd_forwards := nd_forwards nd @ [(node @ NOTIFY_PATH, ln_token c, body)]\<rparr>
          in case reply of
               Replied status \<Rightarrow>
                 if is_success status then nd
                 else if status = 404 then clear_stale app to node nd
                 else nd
             | Unreachable \<Rightarrow> clear_stale app to node nd
             | Lost \<Rightarrow> nd)"

definition app_notify :: "'s app \<Rightarrow> recipient \<Rightarrow> event \<Rightarrow> 's node \<Rightarrow> 's node" where
  "app_notify app to event nd =
     (case notify to event (nd_hub nd) of (r, h) \<Rightarrow>
        let nd = nd\<lparr>nd_hub := h\<rparr>
        in case r of
             Delivered \<Rightarrow> nd
           | Dropped \<Rightarrow> nd
           | Absent \<Rightarrow>
               (case ap_cluster app of
                  None \<Rightarrow> nd
                | Some c \<Rightarrow>
                    (case on_store (so_route (ap_store app) to) nd of
                       (Inl e, nd) \<Rightarrow> nd
                     | (Inr None, nd) \<Rightarrow> nd
                     | (Inr (Some node), nd) \<Rightarrow>
                         if node = ln_node_url c then clear_stale app to node nd
                         else app_forward app node to event nd)))"

fun notify_receipts :: "'s app \<Rightarrow> (u64 \<times> receipt) list \<Rightarrow> 's node \<Rightarrow> 's node" where
  "notify_receipts app [] nd = nd"
| "notify_receipts app ((seq, r) # rs) nd =
     notify_receipts app rs (app_notify app (Receipts (rc_rsub r)) (Receipt seq r) nd)"

definition owe_receipt :: "'s app \<Rightarrow> message \<Rightarrow> u16 \<Rightarrow> ('s node, box_error, unit) act" where
  "owe_receipt app m status =
     (case m_rsub m of
        None \<Rightarrow> ret ()
      | Some rsub \<Rightarrow>
          let r = \<lparr>rc_rsub = rsub, rc_msg_id = m_id m, rc_status = status\<rparr>
          in and_then (on_store (so_enqueue_receipt (ap_store app) r)) (\<lambda>seq.
               case seq of None \<Rightarrow> ret () | Some seq \<Rightarrow> run_all (notify_receipts app [(seq, r)])))"

text \<open>A listener: its channel, recipient and registration.\<close>

record listener =
  ls_rx :: nat
  ls_to :: recipient
  ls_id :: u64

text \<open>Dropping it: unregister, spawn the removal of the route, drop the receiving half.\<close>

definition drop_listener :: "'s app \<Rightarrow> listener \<Rightarrow> 's node \<Rightarrow> 's node" where
  "drop_listener app l nd =
     (case unregister (ls_to l) (ls_id l) (nd_hub nd) of (ours, h) \<Rightarrow>
        let nd = nd\<lparr>nd_hub := h\<rparr>;
            nd = (if ours \<and> ap_cluster app \<noteq> None
                  then nd\<lparr>nd_tasks := nd_tasks nd @ [ClearRoute (ls_to l)]\<rparr> else nd)
        in nd\<lparr>nd_hub := drop_rx (ls_rx l) (nd_hub nd)\<rparr>)"

definition listen :: "'s app \<Rightarrow> recipient \<Rightarrow> ('s node, box_error, listener) act" where
  "listen app to nd =
     (case register to (nd_hub nd) of ((i, rx), h) \<Rightarrow>
        let l = \<lparr>ls_rx = rx, ls_to = to, ls_id = i\<rparr>;
            nd = nd\<lparr>nd_hub := h\<rparr>
        in case ap_cluster app of
             None \<Rightarrow> (Inr l, nd)
           | Some c \<Rightarrow>
               (case on_store (so_set_route (ap_store app) to (ln_node_url c)) nd of
                  (Inl e, nd) \<Rightarrow> (Inl e, drop_listener app l nd)
                | (Inr previous, nd) \<Rightarrow>
                    (case previous of
                       None \<Rightarrow> (Inr l, nd)
                     | Some node \<Rightarrow>
                         if node \<noteq> ln_node_url c
                         then (Inr l, nd\<lparr>nd_tasks := nd_tasks nd @ [ForwardTask node to Gone]\<rparr>)
                         else (Inr l, nd))))"

text \<open>A spawned task, when the runtime gets to it.\<close>

fun run_task :: "'s app \<Rightarrow> task \<Rightarrow> 's node \<Rightarrow> 's node" where
  "run_task app (ClearRoute to) nd =
     (case ap_cluster app of
        None \<Rightarrow> nd
      | Some c \<Rightarrow> snd (on_store (so_clear_route (ap_store app) to (ln_node_url c)) nd))"
| "run_task app (ForwardTask node to event) nd = app_forward app node to event nd"

section \<open>What notifying changes\<close>

text \<open>Nothing but routes, which may be removed, and what is on its way to listeners.\<close>

definition only_routes :: "('s \<Rightarrow> spec) \<Rightarrow> 's node \<Rightarrow> 's node \<Rightarrow> bool" where
  "only_routes view nd nd' \<longleftrightarrow>
     sp_uas (view (nd_store nd')) = sp_uas (view (nd_store nd)) \<and>
     sp_subs (view (nd_store nd')) = sp_subs (view (nd_store nd)) \<and>
     sp_msgs (view (nd_store nd')) = sp_msgs (view (nd_store nd)) \<and>
     sp_queues (view (nd_store nd')) = sp_queues (view (nd_store nd)) \<and>
     map_le (sp_routes (view (nd_store nd'))) (sp_routes (view (nd_store nd))) \<and>
     world_le (nd_world nd) (nd_world nd') \<and> nd_sends nd' = nd_sends nd \<and> nd_reply nd' = nd_reply nd \<and>
     nd_tasks nd' = nd_tasks nd"

lemma only_routes_refl [simp]: "only_routes view nd nd"
  by (simp add: only_routes_def)

lemma only_routes_trans: "only_routes view a b \<Longrightarrow> only_routes view b c \<Longrightarrow> only_routes view a c"
  unfolding only_routes_def by (metis map_le_trans world_le_trans)

lemma only_routes_hub [simp]: "only_routes view nd (nd\<lparr>nd_hub := h\<rparr>)"
  "only_routes view nd (nd\<lparr>nd_forwards := fs\<rparr>)"
  by (simp_all add: only_routes_def)

lemma clear_map_le: "map_le (sp_routes (snd (spec_clear_route to node sp))) (sp_routes sp)"
  by (auto simp: spec_clear_route_def map_le_def)

lemma spec_clear_frame:
  "sp_uas (snd (spec_clear_route to node sp)) = sp_uas sp"
  "sp_subs (snd (spec_clear_route to node sp)) = sp_subs sp"
  "sp_msgs (snd (spec_clear_route to node sp)) = sp_msgs sp"
  "sp_queues (snd (spec_clear_route to node sp)) = sp_queues sp"
  by (simp_all add: spec_clear_route_def)

lemma on_store_ex:
  assumes "returns f (nd_store nd, nd_world nd)" and "gives f (nd_store nd, nd_world nd) Q"
  shows "\<exists>x s w. on_store f nd = (Inr x, nd\<lparr>nd_store := s, nd_world := w\<rparr>) \<and> Q x (s, w)"
proof -
  obtain x sw' where f: "f (nd_store nd, nd_world nd) = (Inr x, sw')"
    using assms(1) unfolding returns_def by (elim exE)
  obtain s w where sw: "sw' = (s, w)" by (cases sw')
  have "on_store f nd = (Inr x, nd\<lparr>nd_store := s, nd_world := w\<rparr>)" by (simp add: on_store_def f sw)
  moreover have "Q x (s, w)" using givesD [OF assms(2) f] sw by simp
  ultimately show ?thesis by (intro exI conjI)
qed

lemma try_store_ex:
  assumes "returns f (nd_store nd, nd_world nd)" and "gives f (nd_store nd, nd_world nd) Q"
  shows "\<exists>x s w. try_store f nd = (Inr x, nd\<lparr>nd_store := s, nd_world := w\<rparr>) \<and> Q x (s, w)"
proof -
  from on_store_ex [OF assms] obtain x s w where
    "on_store f nd = (Inr x, nd\<lparr>nd_store := s, nd_world := w\<rparr>)" and Q: "Q x (s, w)" by (elim exE conjE)
  then have "try_store f nd = (Inr x, nd\<lparr>nd_store := s, nd_world := w\<rparr>)" by (simp add: try_store_def)
  with Q show ?thesis by (intro exI conjI)
qed

context reliable_store
begin

abbreviation node_ok :: "'s node \<Rightarrow> bool" where
  "node_ok nd \<equiv> inv (nd_store nd, nd_world nd)"

lemma clear_stale_effect:
  assumes "ap_store app = S" and ok: "node_ok nd"
  obtains s w where "clear_stale app to node nd = nd\<lparr>nd_store := s, nd_world := w\<rparr>" and "inv (s, w)"
    and "world_le (nd_world nd) w" and "view s = snd (spec_clear_route to node (view (nd_store nd)))"
proof -
  obtain x s w where call: "on_store (so_clear_route S to node) nd = (Inr x, nd\<lparr>nd_store := s, nd_world := w\<rparr>)"
    and eff: "inv (s, w) \<and> world_le (nd_world nd) w \<and> (x, view s) = spec_clear_route to node (view (nd_store nd))"
    using on_store_ex [OF route_returns(3) clear_route [OF ok, of to node]] by (elim exE conjE) simp
  from eff have "view s = snd (spec_clear_route to node (view (nd_store nd)))" by (metis snd_conv)
  with call eff assms(1) that show thesis by (simp add: clear_stale_def)
qed

lemma clear_stale_only_routes:
  assumes "ap_store app = S" and "node_ok nd"
  shows "node_ok (clear_stale app to node nd) \<and> only_routes view nd (clear_stale app to node nd)"
proof -
  obtain s w where call: "clear_stale app to node nd = nd\<lparr>nd_store := s, nd_world := w\<rparr>"
    and eff: "inv (s, w)" "world_le (nd_world nd) w" "view s = snd (spec_clear_route to node (view (nd_store nd)))"
    by (rule clear_stale_effect [OF assms])
  show ?thesis unfolding call by (simp add: only_routes_def eff spec_clear_frame clear_map_le)
qed

lemma forward_only_routes:
  assumes "ap_store app = S" and "node_ok nd"
  shows "node_ok (app_forward app node to event nd) \<and> only_routes view nd (app_forward app node to event nd)"
proof (cases "ap_cluster app")
  case None
  with assms show ?thesis by (simp add: app_forward_def)
next
  case (Some c)
  define nd1 where "nd1 = nd\<lparr>nd_forwards := nd_forwards nd @
    [(node @ NOTIFY_PATH, ln_token c, new_envelope (ex_b64 (ap_crates app)) to event)]\<rparr>"
  have ok1: "node_ok nd1" and same: "only_routes view nd nd1" using assms by (simp_all add: nd1_def)
  from clear_stale_only_routes [OF assms(1) ok1, of to node]
  have stale: "node_ok (clear_stale app to node nd1)" "only_routes view nd (clear_stale app to node nd1)"
    using only_routes_trans [OF same] by simp_all
  have "app_forward app node to event nd \<in> {nd1, clear_stale app to node nd1}"
    by (simp add: app_forward_def Some nd1_def Let_def split: forward_reply.split)
  with ok1 same stale show ?thesis by auto
qed

text \<open>The stored route decides: what happens when no listener on this node takes the event.\<close>

lemma notify_absent:
  assumes S: "ap_store app = S" and ok: "node_ok nd" and link: "ap_cluster app = Some c"
    and hub: "notify to event (nd_hub nd) = (Absent, h)"
  obtains s w where "inv (s, w)" and "world_le (nd_world nd) w" and "view s = view (nd_store nd)"
    and "app_notify app to event nd =
      (let nd = nd\<lparr>nd_hub := h, nd_store := s, nd_world := w\<rparr>
       in case sp_routes (view (nd_store nd)) to of
            None \<Rightarrow> nd
          | Some node \<Rightarrow> if node = ln_node_url c then clear_stale app to node nd
                          else app_forward app node to event nd)"
proof -
  let ?nd = "nd\<lparr>nd_hub := h\<rparr>"
  have ok': "inv (nd_store ?nd, nd_world ?nd)" using ok by simp
  obtain x s w where call: "on_store (so_route S to) ?nd = (Inr x, ?nd\<lparr>nd_store := s, nd_world := w\<rparr>)"
    and eff: "inv (s, w) \<and> world_le (nd_world nd) w \<and> x = sp_routes (view (nd_store nd)) to \<and>
      view s = view (nd_store nd)"
    using on_store_ex [OF route_returns(2) route [OF ok', of to]] by (elim exE conjE) simp
  show thesis
  proof (rule that)
    show "inv (s, w)" "world_le (nd_world nd) w" "view s = view (nd_store nd)" using eff by simp_all
    show "app_notify app to event nd = (let nd = nd\<lparr>nd_hub := h, nd_store := s, nd_world := w\<rparr>
       in case sp_routes (view (nd_store nd)) to of
            None \<Rightarrow> nd
          | Some node \<Rightarrow> if node = ln_node_url c then clear_stale app to node nd
                          else app_forward app node to event nd)"
      using eff by (simp add: app_notify_def hub link S call split: option.split)
  qed
qed

lemma notify_only_routes:
  assumes "ap_store app = S" and "node_ok nd"
  shows "node_ok (app_notify app to event nd) \<and> only_routes view nd (app_notify app to event nd)"
proof -
  obtain r h where hub: "notify to event (nd_hub nd) = (r, h)" by fastforce
  show ?thesis
  proof (cases "r = Absent \<and> ap_cluster app \<noteq> None")
    case False
    then have "app_notify app to event nd = nd\<lparr>nd_hub := h\<rparr>"
      by (cases r) (auto simp: app_notify_def hub)
    with assms show ?thesis by simp
  next
    case True
    then obtain c where c: "ap_cluster app = Some c" and absent: "notify to event (nd_hub nd) = (Absent, h)"
      using hub by auto
    obtain s w where sw: "inv (s, w)" "world_le (nd_world nd) w" "view s = view (nd_store nd)"
      and eff: "app_notify app to event nd =
      (let nd = nd\<lparr>nd_hub := h, nd_store := s, nd_world := w\<rparr>
       in case sp_routes (view (nd_store nd)) to of
            None \<Rightarrow> nd
          | Some node \<Rightarrow> if node = ln_node_url c then clear_stale app to node nd
                          else app_forward app node to event nd)"
      by (rule notify_absent [OF assms c absent])
    define nd1 where "nd1 = nd\<lparr>nd_hub := h, nd_store := s, nd_world := w\<rparr>"
    have ok1: "node_ok nd1" and same: "only_routes view nd nd1"
      using sw by (simp_all add: nd1_def only_routes_def)
    have cases: "node_ok (clear_stale app to node nd1) \<and> only_routes view nd1 (clear_stale app to node nd1)"
      "node_ok (app_forward app node to event nd1) \<and> only_routes view nd1 (app_forward app node to event nd1)" for node
      using clear_stale_only_routes [OF assms(1) ok1] forward_only_routes [OF assms(1) ok1] by simp_all
    show ?thesis
      unfolding eff Let_def nd1_def [symmetric] using ok1 same cases only_routes_trans [OF same]
      by (simp split: option.split)
  qed
qed

lemma receipts_only_routes:
  "ap_store app = S \<Longrightarrow> node_ok nd \<Longrightarrow>
   node_ok (notify_receipts app rs nd) \<and> only_routes view nd (notify_receipts app rs nd)"
proof (induction rs arbitrary: nd)
  case (Cons r rs)
  obtain seq rc where r: "r = (seq, rc)" by fastforce
  from notify_only_routes [OF Cons.prems] have one: "node_ok (app_notify app to event nd)"
    "only_routes view nd (app_notify app to event nd)" for to event by simp_all
  note more = Cons.IH [OF Cons.prems(1) one(1)]
  from more only_routes_trans [OF one(2) conjunct2 [OF more]] show ?case by (simp add: r)
qed simp

end

context reliable_store
begin

lemma listen_effect:
  assumes S: "ap_store app = S" and ok: "node_ok nd"
  obtains l nd' where "listen app to nd = (Inr l, nd')" and "node_ok nd'" and "ls_to l = to"
    and "((ls_id l, ls_rx l), nd_hub nd') = register to (nd_hub nd)"
    and "world_le (nd_world nd) (nd_world nd')"
    and "view (nd_store nd') = (case ap_cluster app of None \<Rightarrow> view (nd_store nd)
          | Some c \<Rightarrow> snd (spec_set_route to (ln_node_url c) (view (nd_store nd))))"
    and "nd_tasks nd' = nd_tasks nd @ (case ap_cluster app of None \<Rightarrow> [] | Some c \<Rightarrow>
           (case sp_routes (view (nd_store nd)) to of None \<Rightarrow> [] | Some node \<Rightarrow>
              if node = ln_node_url c then [] else [ForwardTask node to Gone]))"
    and "nd_forwards nd' = nd_forwards nd" and "nd_sends nd' = nd_sends nd"
proof -
  obtain i rx h where reg: "register to (nd_hub nd) = ((i, rx), h)" by (metis prod.exhaust)
  let ?l = "\<lparr>ls_rx = rx, ls_to = to, ls_id = i\<rparr>"
  show thesis
  proof (cases "ap_cluster app")
    case None
    then have "listen app to nd = (Inr ?l, nd\<lparr>nd_hub := h\<rparr>)" by (simp add: listen_def reg Let_def)
    then show thesis by (rule that) (simp_all add: ok reg None)
  next
    case (Some c)
    have ok': "inv (nd_store (nd\<lparr>nd_hub := h\<rparr>), nd_world (nd\<lparr>nd_hub := h\<rparr>))" using ok by simp
    obtain x s w where call: "on_store (so_set_route S to (ln_node_url c)) (nd\<lparr>nd_hub := h\<rparr>) =
        (Inr x, nd\<lparr>nd_hub := h\<rparr>\<lparr>nd_store := s, nd_world := w\<rparr>)"
      and eff: "inv (s, w) \<and> world_le (nd_world nd) w \<and>
        (x, view s) = spec_set_route to (ln_node_url c) (view (nd_store nd))"
      using on_store_ex [OF route_returns(1) set_route [OF ok', of to "ln_node_url c"]]
      by (elim exE conjE) simp
    from eff have x: "x = sp_routes (view (nd_store nd)) to"
      and v: "view s = snd (spec_set_route to (ln_node_url c) (view (nd_store nd)))"
      by (simp_all add: spec_set_route_def)
    let ?nd' = "nd\<lparr>nd_hub := h, nd_store := s, nd_world := w, nd_tasks := nd_tasks nd @
        (case x of None \<Rightarrow> [] | Some node \<Rightarrow> if node = ln_node_url c then [] else [ForwardTask node to Gone])\<rparr>"
    have "listen app to nd = (Inr ?l, ?nd')"
      using call by (simp add: listen_def reg Some S Let_def split: option.split)
    then show thesis by (rule that) (simp_all add: eff reg Some v x)
  qed
qed

lemma drop_listener_frame:
  "nd_store (drop_listener app l nd) = nd_store nd" "nd_world (drop_listener app l nd) = nd_world nd"
  "nd_forwards (drop_listener app l nd) = nd_forwards nd" "nd_sends (drop_listener app l nd) = nd_sends nd"
  by (simp_all add: drop_listener_def case_prod_beta Let_def)

end

section \<open>Delivery\<close>

lemma hub_clear_stale [simp]: "nd_hub (clear_stale app to node nd) = nd_hub nd"
  by (simp add: clear_stale_def on_store_def case_prod_beta)

lemma hub_app_forward [simp]: "nd_hub (app_forward app node to event nd) = nd_hub nd"
  by (simp add: app_forward_def Let_def split: option.split forward_reply.split)

lemma hub_app_notify: "nd_hub (app_notify app to event nd) = snd (notify to event (nd_hub nd))"
  by (simp add: app_notify_def on_store_def case_prod_beta Let_def split: notified.split option.split sum.split)

lemma stale_cleared:
  assumes S: "ap_store app = mem_store b64 ord" and ok: "mem_ok (nd_store nd, nd_world nd)"
    and route: "sp_routes (mem_view (nd_store nd)) to = Some node"
  shows "nd_forwards (clear_stale app to node nd) = nd_forwards nd"
    and "sp_routes (mem_view (nd_store (clear_stale app to node nd))) to = None"
proof -
  obtain s w where "clear_stale app to node nd = nd\<lparr>nd_store := s, nd_world := w\<rparr>"
    and "mem_view s = snd (spec_clear_route to node (mem_view (nd_store nd)))"
    by (rule reliable.clear_stale_effect [OF S ok])
  with route show "nd_forwards (clear_stale app to node nd) = nd_forwards nd"
    "sp_routes (mem_view (nd_store (clear_stale app to node nd))) to = None"
    by (simp_all add: spec_clear_route_def)
qed

text \<open>A forward is logged, and the route removed if the other node does not know the recipient or
  cannot be reached.\<close>

lemma forward_effect:
  assumes S: "ap_store app = mem_store b64 ord" and ok: "mem_ok (nd_store nd, nd_world nd)" and c: "ap_cluster app = Some c"
    and route: "sp_routes (mem_view (nd_store nd)) to = Some node"
  shows "nd_forwards (app_forward app node to event nd) =
      nd_forwards nd @ [(node @ NOTIFY_PATH, ln_token c, new_envelope (ex_b64 (ap_crates app)) to event)]"
    and "sp_routes (mem_view (nd_store (app_forward app node to event nd))) to = None \<longleftrightarrow>
      nd_reply nd (length (nd_forwards nd)) \<in> {Replied 404, Unreachable}"
proof -
  define nd1 where "nd1 = nd\<lparr>nd_forwards := nd_forwards nd @
    [(node @ NOTIFY_PATH, ln_token c, new_envelope (ex_b64 (ap_crates app)) to event)]\<rparr>"
  have same: "nd_store nd1 = nd_store nd" "nd_world nd1 = nd_world nd"
    "nd_forwards nd1 = nd_forwards nd @ [(node @ NOTIFY_PATH, ln_token c, new_envelope (ex_b64 (ap_crates app)) to event)]"
    by (simp_all add: nd1_def)
  have run: "app_forward app node to event nd =
      (if nd_reply nd (length (nd_forwards nd)) \<in> {Replied 404, Unreachable} then clear_stale app to node nd1 else nd1)"
    by (auto simp: app_forward_def c nd1_def Let_def is_success_def split: forward_reply.split)
  note cleared = stale_cleared [OF S, of nd1, unfolded same, OF ok route]
  show "nd_forwards (app_forward app node to event nd) =
      nd_forwards nd @ [(node @ NOTIFY_PATH, ln_token c, new_envelope (ex_b64 (ap_crates app)) to event)]"
    unfolding run using cleared(1) same(3) by simp
  show "sp_routes (mem_view (nd_store (app_forward app node to event nd))) to = None \<longleftrightarrow>
      nd_reply nd (length (nd_forwards nd)) \<in> {Replied 404, Unreachable}"
    unfolding run using cleared(2) same(1) route by (simp del: mem_view_simps)
qed

lemma absent_routed:
  assumes S: "ap_store app = mem_store b64 ord" and ok: "mem_ok (nd_store nd, nd_world nd)" and c: "ap_cluster app = Some c"
    and absent: "notify to event (nd_hub nd) = (Absent, h)" and route: "sp_routes (mem_view (nd_store nd)) to = Some node"
  obtains nd1 where "mem_ok (nd_store nd1, nd_world nd1)" and "nd_forwards nd1 = nd_forwards nd"
    and "nd_reply nd1 = nd_reply nd" and "sp_routes (mem_view (nd_store nd1)) to = Some node"
    and "app_notify app to event nd =
      (if node = ln_node_url c then clear_stale app to node nd1 else app_forward app node to event nd1)"
proof -
  obtain s w where sw: "mem_ok (s, w)" "world_le (nd_world nd) w" "mem_view s = mem_view (nd_store nd)"
    and eff: "app_notify app to event nd =
    (let nd = nd\<lparr>nd_hub := h, nd_store := s, nd_world := w\<rparr>
     in case sp_routes (mem_view (nd_store nd)) to of
          None \<Rightarrow> nd
        | Some node \<Rightarrow> if node = ln_node_url c then clear_stale app to node nd
                        else app_forward app node to event nd)"
    by (rule reliable.notify_absent [OF S ok c absent])
  let ?nd = "nd\<lparr>nd_hub := h, nd_store := s, nd_world := w\<rparr>"
  have "sp_routes (mem_view (nd_store ?nd)) to = Some node" using route sw(3) by (simp del: mem_view_simps)
  then show thesis
    by (intro that [of ?nd]) (use sw(1) eff in \<open>simp_all add: Let_def del: mem_view_simps\<close>)
qed

text \<open>
  C21. An event goes to the listener on this node if there is one with room, and then
  nowhere else; otherwise, in a cluster, to the node the store names as its route, once,
  and that route is removed exactly when that node answers 404 or cannot be reached, or is
  this one. Nothing else in the store changes, so a failed delivery loses nothing.
\<close>

theorem notify_delivery:
  assumes S: "ap_store app = mem_store b64 ord" and ok: "mem_ok (nd_store nd, nd_world nd)"
    and run: "app_notify app to event nd = nd'"
  shows "mem_ok (nd_store nd', nd_world nd') \<and> only_routes mem_view nd nd' \<and>
    nd_hub nd' = snd (notify to event (nd_hub nd)) \<and>
    (fst (notify to event (nd_hub nd)) \<noteq> Absent \<longrightarrow>
       nd_forwards nd' = nd_forwards nd \<and> nd_store nd' = nd_store nd) \<and>
    (\<forall>c node. fst (notify to event (nd_hub nd)) = Absent \<longrightarrow> ap_cluster app = Some c \<longrightarrow>
       sp_routes (mem_view (nd_store nd)) to = Some node \<longrightarrow>
         nd_forwards nd' = nd_forwards nd @
           (if node = ln_node_url c then []
            else [(node @ NOTIFY_PATH, ln_token c, new_envelope (ex_b64 (ap_crates app)) to event)]) \<and>
         (sp_routes (mem_view (nd_store nd')) to = None \<longleftrightarrow>
            node = ln_node_url c \<or> nd_reply nd (length (nd_forwards nd)) \<in> {Replied 404, Unreachable}))"
proof (intro conjI allI impI)
  show "mem_ok (nd_store nd', nd_world nd')" "only_routes mem_view nd nd'"
    using reliable.notify_only_routes [OF S ok] run by blast+
  show "nd_hub nd' = snd (notify to event (nd_hub nd))" unfolding run [symmetric] by (rule hub_app_notify)
  assume "fst (notify to event (nd_hub nd)) \<noteq> Absent"
  then have "nd' = nd\<lparr>nd_hub := snd (notify to event (nd_hub nd))\<rparr>"
    using run by (cases "notify to event (nd_hub nd)"; cases "fst (notify to event (nd_hub nd))") (auto simp: app_notify_def)
  then show "nd_forwards nd' = nd_forwards nd" "nd_store nd' = nd_store nd" by simp_all
next
  fix c node
  assume absent: "fst (notify to event (nd_hub nd)) = Absent" and c: "ap_cluster app = Some c"
    and route: "sp_routes (mem_view (nd_store nd)) to = Some node"
  obtain h where h: "notify to event (nd_hub nd) = (Absent, h)" using absent by (metis prod.collapse)
  obtain nd1 where nd1: "mem_ok (nd_store nd1, nd_world nd1)" "nd_forwards nd1 = nd_forwards nd" "nd_reply nd1 = nd_reply nd"
    "sp_routes (mem_view (nd_store nd1)) to = Some node"
    and nd': "nd' = (if node = ln_node_url c then clear_stale app to node nd1 else app_forward app node to event nd1)"
    using absent_routed [OF S ok c h route] run by metis
  show "nd_forwards nd' = nd_forwards nd @ (if node = ln_node_url c then []
      else [(node @ NOTIFY_PATH, ln_token c, new_envelope (ex_b64 (ap_crates app)) to event)])"
    unfolding nd' using stale_cleared(1) [OF S nd1(1,4)] forward_effect(1) [OF S nd1(1) c nd1(4)] nd1(2)
    by (cases "node = ln_node_url c") simp_all
  show "sp_routes (mem_view (nd_store nd')) to = None \<longleftrightarrow>
      node = ln_node_url c \<or> nd_reply nd (length (nd_forwards nd)) \<in> {Replied 404, Unreachable}"
    unfolding nd' using stale_cleared(2) [OF S nd1(1,4)] forward_effect(2) [OF S nd1(1) c nd1(4)] nd1(2,3)
    by (cases "node = ln_node_url c") (simp_all del: mem_view_simps)
qed

definition demo_app :: "state app" where
  "demo_app = \<lparr>ap_cfg = demo_config, ap_store = mem_store url_base64 (Abs_ordering forward_order),
     ap_cluster = Some \<lparr>ln_node_url = ''http://a'', ln_token_digest = [], ln_token = ''t''\<rparr>,
     ap_bridges = [], ap_secrets = new_secrets [], ap_crates = demo_crates\<rparr>"

definition demo_world_0 :: world where
  "demo_world_0 = \<lparr>wl_clock = \<lambda>_. 1000, wl_reads = 0, wl_entropy = \<lambda>k n. of_nat (k + 1), wl_draws = 0, wl_last = 0\<rparr>"

definition demo_node :: "state \<Rightarrow> (nat \<Rightarrow> forward_reply) \<Rightarrow> state node" where
  "demo_node s reply = new_node demo_config s demo_world_0 reply"

lemma demo_app_simps: "ap_store demo_app = mem_store url_base64 (Abs_ordering forward_order)"
  "ap_cluster demo_app = Some \<lparr>ln_node_url = ''http://a'', ln_token_digest = [], ln_token = ''t''\<rparr>"
  by (simp_all add: demo_app_def)

lemma notify_delivery_witness:
  "let nd = demo_node (snd (mem_set_route (UserAgent ''u'') ''http://b'' new_state)) (\<lambda>_. Replied 404);
       nd' = app_notify demo_app (UserAgent ''u'') Gone nd
   in sp_routes (mem_view (nd_store nd')) (UserAgent ''u'') = None \<and> length (nd_forwards nd') = 1"
proof -
  define nd where "nd = demo_node (snd (mem_set_route (UserAgent ''u'') ''http://b'' new_state)) (\<lambda>_. Replied 404)"
  define nd' where "nd' = app_notify demo_app (UserAgent ''u'') Gone nd"
  have store: "nd_store nd = snd (mem_set_route (UserAgent ''u'') ''http://b'' new_state)"
    and rest: "nd_world nd = demo_world_0" "nd_forwards nd = []" "nd_reply nd 0 = Replied 404"
    "fst (notify (UserAgent ''u'') Gone (nd_hub nd)) = Absent"
    by (simp_all add: nd_def demo_node_def new_node_def notify_def new_hub_def)
  have "mem_ok (nd_store nd, nd_world nd)"
    unfolding store using mem_ok_routes [OF mem_ok_new] by (simp add: mem_set_route_def new_state_def)
  moreover have "sp_routes (mem_view (nd_store nd)) (UserAgent ''u'') = Some ''http://b''"
    unfolding store by (simp add: mem_set_route_def)
  ultimately have "sp_routes (mem_view (nd_store nd')) (UserAgent ''u'') = None \<and> length (nd_forwards nd') = 1"
    using notify_delivery [OF demo_app_simps(1) _ nd'_def [symmetric]] rest demo_app_simps(2) by auto
  then show ?thesis by (simp add: nd_def nd'_def Let_def)
qed

section \<open>A route removed after its node has a new listener\<close>

text \<open>
  C38. A listener that ends unregisters at once but leaves the removal of its route to a task.
  If the recipient is back on the same node before that task runs, the task removes the new
  listener's route: the stored route still names this node. The hub has the listener, but
  other nodes no longer find it.
\<close>

theorem late_clear_route:
  assumes S: "ap_store app = mem_store b64 ord" and c: "ap_cluster app = Some c"
    and ok: "mem_ok (nd_store nd, nd_world nd)"
    and slot: "hget (hb_slots (nd_hub nd)) (ls_to l) = Some sl" "sl_id sl = ls_id l"
    and ends: "drop_listener app l nd = nd1"
    and again: "listen app (ls_to l) nd1 = (r, nd2)"
    and late: "run_task app (ClearRoute (ls_to l)) nd2 = nd3"
  shows "ClearRoute (ls_to l) \<in> set (nd_tasks nd1) \<and>
    (\<exists>l'. r = Inr l' \<and> map_option sl_id (hget (hb_slots (nd_hub nd3)) (ls_to l)) = Some (ls_id l')) \<and>
    sp_routes (mem_view (nd_store nd2)) (ls_to l) = Some (ln_node_url c) \<and>
    sp_routes (mem_view (nd_store nd3)) (ls_to l) = None"
proof -
  have task: "ClearRoute (ls_to l) \<in> set (nd_tasks nd1)"
    unfolding ends [symmetric] by (simp add: drop_listener_def unregister_def slot c Let_def)
  have free: "hget (hb_slots (nd_hub nd1)) (ls_to l) = None"
    unfolding ends [symmetric] by (simp add: drop_listener_def unregister_def slot c Let_def drop_rx_def drop_tx_def)
  have ok1: "mem_ok (nd_store nd1, nd_world nd1)"
    using ok unfolding ends [symmetric] by (simp add: reliable.drop_listener_frame)
  obtain l' nd' where listened: "listen app (ls_to l) nd1 = (Inr l', nd')" and ok': "mem_ok (nd_store nd', nd_world nd')"
    and reg: "((ls_id l', ls_rx l'), nd_hub nd') = register (ls_to l) (nd_hub nd1)"
    and v: "mem_view (nd_store nd') = (case ap_cluster app of None \<Rightarrow> mem_view (nd_store nd1)
        | Some c \<Rightarrow> snd (spec_set_route (ls_to l) (ln_node_url c) (mem_view (nd_store nd1))))"
    by (rule reliable.listen_effect [OF S ok1, of "ls_to l"])
  from again listened have nd2: "nd2 = nd'" "r = Inr l'" by simp_all
  have hub2: "nd_hub nd' = with_slot (ls_to l) (nd_hub nd1)"
    using register_free [OF free] reg by (metis snd_conv)
  have id2: "ls_id l' = hb_next_id (nd_hub nd1)"
    using register_result [of "ls_to l" "nd_hub nd1"] reg by (metis fst_conv)
  have route2: "sp_routes (mem_view (nd_store nd')) (ls_to l) = Some (ln_node_url c)"
    unfolding v by (simp add: c spec_set_route_def)
  have nd3: "nd3 = clear_stale app (ls_to l) (ln_node_url c) nd'"
    using late by (simp add: nd2 c clear_stale_def)
  obtain s w where cleared: "clear_stale app (ls_to l) (ln_node_url c) nd' = nd'\<lparr>nd_store := s, nd_world := w\<rparr>"
    and v3: "mem_view s = snd (spec_clear_route (ls_to l) (ln_node_url c) (mem_view (nd_store nd')))"
    by (rule reliable.clear_stale_effect [OF S ok'])
  have "sp_routes (mem_view (nd_store nd3)) (ls_to l) = None"
    using route2 by (simp add: nd3 cleared v3 spec_clear_route_def)
  moreover have "map_option sl_id (hget (hb_slots (nd_hub nd3)) (ls_to l)) = Some (ls_id l')"
    by (simp add: nd3 cleared hub2 with_slot_def id2)
  ultimately show ?thesis using task nd2 route2 by blast
qed

definition demo_listening :: "(box_error + listener) \<times> state node" where
  "demo_listening = listen demo_app (UserAgent ''u'') (demo_node new_state (\<lambda>_. Lost))"

lemma late_clear_route_witness:
  "\<exists>l nd. demo_listening = (Inr l, nd) \<and>
     sp_routes (mem_view (nd_store (run_task demo_app (ClearRoute (ls_to l))
       (snd (listen demo_app (ls_to l) (drop_listener demo_app l nd)))))) (ls_to l) = None"
proof -
  let ?nd = "demo_node new_state (\<lambda>_. Lost)"
  have ok: "mem_ok (nd_store ?nd, nd_world ?nd)"
    using mem_ok_new by (simp add: demo_node_def new_node_def)
  obtain l nd where listened: "listen demo_app (UserAgent ''u'') ?nd = (Inr l, nd)"
    and ok': "mem_ok (nd_store nd, nd_world nd)" and to: "ls_to l = UserAgent ''u''"
    and reg: "((ls_id l, ls_rx l), nd_hub nd) = register (UserAgent ''u'') (nd_hub ?nd)"
    by (rule reliable.listen_effect [OF demo_app_simps(1) ok, of "UserAgent ''u''"])
  have free: "hget (hb_slots (nd_hub ?nd)) (UserAgent ''u'') = None"
    by (simp add: demo_node_def new_node_def new_hub_def)
  have "nd_hub nd = with_slot (UserAgent ''u'') (nd_hub ?nd)" and "ls_id l = hb_next_id (nd_hub ?nd)"
    using register_free [OF free] register_result [of "UserAgent ''u''" "nd_hub ?nd"] reg
    by (metis snd_conv, metis fst_conv)
  then obtain sl where "hget (hb_slots (nd_hub nd)) (ls_to l) = Some sl" "sl_id sl = ls_id l"
    by (simp add: with_slot_def to)
  from late_clear_route [OF demo_app_simps ok' this refl surjective_pairing refl]
  show ?thesis using listened by (auto simp: demo_listening_def)
qed

end
