(* ===== verification/Ece.thy ===== *)
theory Ece
  imports Rust_Str
begin

text \<open>
  \<open>crates/webpush-crypto/src/ece.rs\<close>: the \<open>aes128gcm\<close> content coding (RFC 8188) and
  message encryption for Web Push (RFC 8291). HKDF, AES-GCM and the P-256 arithmetic are
  the crates \<open>hkdf\<close>, \<open>aes-gcm\<close> and \<open>p256\<close>: fields of the records \<open>ece_crypto\<close> and \<open>p256\<close>,
  with what the code relies on of them as \<open>aead_ok\<close> and \<open>p256_ok\<close>.
\<close>

unbundle bit_operations_syntax

section \<open>Octets\<close>

definition to_be32 :: "u32 \<Rightarrow> byte list" where
  "to_be32 w = [ucast (drop_bit 24 w), ucast (drop_bit 16 w), ucast (drop_bit 8 w), ucast w]"

definition from_be32 :: "byte list \<Rightarrow> u32" where
  "from_be32 bs = foldl (\<lambda>n b. push_bit 8 n OR ucast b) 0 bs"

definition to_be64 :: "u64 \<Rightarrow> byte list" where
  "to_be64 w = map (\<lambda>i. ucast (drop_bit (8 * i) w)) [7, 6, 5, 4, 3, 2, 1, 0]"

section \<open>The header\<close>

datatype ece_error = Truncated | InvalidRecordSize | Decrypt | InvalidPadding | InvalidKeyId
  | InvalidPublicKey | TooLarge

record ece_header =
  hd_salt :: "byte list"
  hd_rs :: u32
  hd_keyid :: "byte list"

definition MIN_RS :: u32 where
  "MIN_RS = 18"

definition TAG_LEN :: nat where
  "TAG_LEN = 16"

text \<open>\<open>split_first_chunk\<close> and \<open>split_at_checked\<close>.\<close>

definition split_checked :: "nat \<Rightarrow> byte list \<Rightarrow> (byte list \<times> byte list) option" where
  "split_checked n bs = (if n \<le> length bs then Some (take n bs, drop n bs) else None)"

definition parse_header :: "byte list \<Rightarrow> ece_error + ece_header \<times> byte list" where
  "parse_header body =
     (case split_checked 16 body of None \<Rightarrow> Inl Truncated | Some (salt, rest) \<Rightarrow>
      case split_checked 4 rest of None \<Rightarrow> Inl Truncated | Some (rs, rest) \<Rightarrow>
      case rest of [] \<Rightarrow> Inl Truncated | idlen # rest \<Rightarrow>
      case split_checked (unat idlen) rest of None \<Rightarrow> Inl Truncated | Some (keyid, data) \<Rightarrow>
        let rs = from_be32 rs
        in if rs < MIN_RS then Inl InvalidRecordSize
           else Inr (\<lparr>hd_salt = salt, hd_rs = rs, hd_keyid = keyid\<rparr>, data))"

section \<open>Records\<close>

record ece_crypto =
  ec_hkdf :: "byte list \<Rightarrow> byte list \<Rightarrow> byte list \<Rightarrow> nat \<Rightarrow> byte list"
  ec_seal :: "byte list \<Rightarrow> byte list \<Rightarrow> byte list \<Rightarrow> byte list option"
  ec_open :: "byte list \<Rightarrow> byte list \<Rightarrow> byte list \<Rightarrow> byte list option"

definition derive_cek_nonce :: "ece_crypto \<Rightarrow> byte list \<Rightarrow> byte list \<Rightarrow> byte list \<times> byte list" where
  "derive_cek_nonce cr ikm salt =
     (ec_hkdf cr salt ikm (octets ''Content-Encoding: aes128gcm'' @ [0]) 16,
      ec_hkdf cr salt ikm (octets ''Content-Encoding: nonce'' @ [0]) 12)"

definition record_nonce :: "byte list \<Rightarrow> u64 \<Rightarrow> byte list" where
  "record_nonce nonce seq = take 4 nonce @ map2 (\<lambda>b s. b XOR s) (drop 4 nonce) (to_be64 seq)"

definition open_record ::
  "ece_crypto \<Rightarrow> byte list \<Rightarrow> byte list \<Rightarrow> u64 \<Rightarrow> byte list \<Rightarrow> ece_error + byte list \<times> byte" where
  "open_record cr cek nonce seq record =
     (case ec_open cr cek (record_nonce nonce seq) record of
        None \<Rightarrow> Inl Decrypt
      | Some pt \<Rightarrow>
          (case dropWhile (\<lambda>b. b = 0) (rev pt) of
             [] \<Rightarrow> Inl InvalidPadding
           | delimiter # rest \<Rightarrow> Inr (rev rest, delimiter)))"

section \<open>Decryption\<close>

text \<open>The loop of \<open>decrypt\<close>; \<open>None\<close> would be a loop that never ends.\<close>

partial_function (option) decrypt_loop ::
  "ece_crypto \<Rightarrow> byte list \<Rightarrow> byte list \<Rightarrow> nat \<Rightarrow> u64 \<Rightarrow> byte list \<Rightarrow> byte list \<Rightarrow>
   (ece_error + byte list) option" where
  "decrypt_loop cr cek nonce rs seq out data =
     (if data = [] then Some (Inl Truncated)
      else
        (case open_record cr cek nonce seq (take (min (length data) rs) data) of
           Inl e \<Rightarrow> Some (Inl e)
         | Inr (pt, delimiter) \<Rightarrow>
             if delimiter = 2 \<and> drop (min (length data) rs) data = [] then Some (Inr (out @ pt))
             else if delimiter = 1 \<and> drop (min (length data) rs) data \<noteq> []
             then decrypt_loop cr cek nonce rs (seq + 1) (out @ pt) (drop (min (length data) rs) data)
             else Some (Inl InvalidPadding)))"

definition decrypt :: "ece_crypto \<Rightarrow> byte list \<Rightarrow> byte list \<Rightarrow> (ece_error + byte list) option" where
  "decrypt cr ikm body =
     (case parse_header body of
        Inl e \<Rightarrow> Some (Inl e)
      | Inr (header, data) \<Rightarrow>
          let (cek, nonce) = derive_cek_nonce cr ikm (hd_salt header)
          in decrypt_loop cr cek nonce (unat (hd_rs header)) 0 [] data)"

section \<open>Encryption\<close>

definition encrypt ::
  "ece_crypto \<Rightarrow> byte list \<Rightarrow> byte list \<Rightarrow> u32 \<Rightarrow> byte list \<Rightarrow> byte list \<Rightarrow> ece_error + byte list" where
  "encrypt cr ikm salt rs keyid plaintext =
     (if rs < MIN_RS then Inl InvalidRecordSize
      else if length keyid > 255 then Inl InvalidKeyId
      else if length plaintext + 1 + TAG_LEN > unat rs then Inl TooLarge
      else
        let (cek, nonce) = derive_cek_nonce cr ikm salt
        in case ec_seal cr cek nonce (plaintext @ [2]) of
             None \<Rightarrow> Inl TooLarge
           | Some sealed \<Rightarrow>
               Inr (salt @ to_be32 rs @ [of_nat (length keyid)] @ keyid @ sealed))"

section \<open>Web Push\<close>

record ('sk, 'pk) p256 =
  pc_point :: "byte list \<Rightarrow> 'pk option"
  pc_scalar :: "byte list \<Rightarrow> 'sk option"
  pc_public :: "'sk \<Rightarrow> 'pk"
  pc_encode :: "'pk \<Rightarrow> byte list"
  pc_ecdh :: "'sk \<Rightarrow> 'pk \<Rightarrow> byte list"

definition WP_RS :: u32 where
  "WP_RS = 4096"

definition ikm :: "ece_crypto \<Rightarrow> byte list \<Rightarrow> byte list \<Rightarrow> byte list \<Rightarrow> byte list \<Rightarrow> byte list" where
  "ikm cr ecdh_secret auth_secret ua_public as_public =
     ec_hkdf cr auth_secret ecdh_secret (octets ''WebPush: info'' @ [0] @ ua_public @ as_public) 32"

definition webpush_encrypt ::
  "ece_crypto \<Rightarrow> ('sk, 'pk) p256 \<Rightarrow> byte list \<Rightarrow> byte list \<Rightarrow> byte list \<Rightarrow> byte list \<Rightarrow> byte list \<Rightarrow>
   ece_error + byte list" where
  "webpush_encrypt cr pc ua_public auth_secret as_private salt plaintext =
     (case pc_point pc ua_public of None \<Rightarrow> Inl InvalidPublicKey | Some ua \<Rightarrow>
      case pc_scalar pc as_private of None \<Rightarrow> Inl InvalidKeyId | Some sk \<Rightarrow>
        let as_public = pc_encode pc (pc_public pc sk);
            k = ikm cr (pc_ecdh pc sk ua) auth_secret ua_public as_public
        in encrypt cr k salt WP_RS as_public plaintext)"

definition webpush_decrypt ::
  "ece_crypto \<Rightarrow> ('sk, 'pk) p256 \<Rightarrow> byte list \<Rightarrow> byte list \<Rightarrow> byte list \<Rightarrow> ece_error + byte list" where
  "webpush_decrypt cr pc ua_private auth_secret body =
     (case parse_header body of Inl e \<Rightarrow> Inl e | Inr (header, record) \<Rightarrow>
        if length (hd_keyid header) \<noteq> 65 \<or> hd (hd_keyid header) \<noteq> 4 then Inl InvalidKeyId
        else case pc_point pc (hd_keyid header) of None \<Rightarrow> Inl InvalidPublicKey | Some peer \<Rightarrow>
        case pc_scalar pc ua_private of None \<Rightarrow> Inl Decrypt | Some sk \<Rightarrow>
          let k = ikm cr (pc_ecdh pc sk peer) auth_secret (pc_encode pc (pc_public pc sk))
                    (hd_keyid header);
              (cek, nonce) = derive_cek_nonce cr k (hd_salt header)
          in case open_record cr cek nonce 0 record of
               Inl e \<Rightarrow> Inl e
             | Inr (pt, delimiter) \<Rightarrow> if delimiter \<noteq> 2 then Inl InvalidPadding else Inr pt)"

section \<open>What is relied on\<close>

text \<open>AES-128-GCM: opening what was sealed under the same key and nonce gives the plaintext,
  the ciphertext is 16 octets longer, and sealing fails only past \<open>2 ^ 36\<close> octets.\<close>

definition aead_ok :: "ece_crypto \<Rightarrow> bool" where
  "aead_ok cr \<longleftrightarrow>
     (\<forall>k n p c. ec_seal cr k n p = Some c \<longrightarrow> ec_open cr k n c = Some p \<and> length c = length p + 16) \<and>
     (\<forall>k n p. length p < 2 ^ 36 \<longrightarrow> ec_seal cr k n p \<noteq> None) \<and>
     (\<forall>salt key info n. length (ec_hkdf cr salt key info n) = n)"

text \<open>P-256: the uncompressed encoding is 65 octets starting with 4 and decodes to its point,
  no other such string does, and the shared secret is the same from both sides.\<close>

definition p256_ok :: "('sk, 'pk) p256 \<Rightarrow> bool" where
  "p256_ok pc \<longleftrightarrow>
     (\<forall>p. pc_point pc (pc_encode pc p) = Some p \<and> length (pc_encode pc p) = 65 \<and>
        hd (pc_encode pc p) = 4) \<and>
     (\<forall>a b. pc_ecdh pc a (pc_public pc b) = pc_ecdh pc b (pc_public pc a))"

section \<open>Octet lemmas\<close>

lemma from_to_be32 [simp]: "from_be32 (to_be32 w) = w"
proof (rule bit_word_eqI)
  fix n assume n: "n < LENGTH(32)"
  then consider "n < 8" | "8 \<le> n" "n < 16" | "16 \<le> n" "n < 24" | "24 \<le> n" "n < 32"
    by fastforce
  then show "bit (from_be32 (to_be32 w)) n \<longleftrightarrow> bit w n"
    by cases (auto simp: from_be32_def to_be32_def bit_simps)
qed

lemma length_to_be32 [simp]: "length (to_be32 w) = 4"
  by (simp add: to_be32_def)

lemma length_to_be64 [simp]: "length (to_be64 w) = 8"
  by (simp add: to_be64_def)

lemma to_be64_0: "to_be64 0 = replicate 8 0"
  by (simp add: to_be64_def eval_nat_numeral)

lemma record_nonce_0: "length nonce = 12 \<Longrightarrow> record_nonce nonce 0 = nonce"
proof -
  assume "length nonce = 12"
  then have "length (drop 4 nonce) = 8" by simp
  then have "map2 (\<lambda>b s. b XOR s) (drop 4 nonce) (replicate 8 0) = drop 4 nonce"
    by (simp add: list_eq_iff_nth_eq)
  then show ?thesis by (simp add: record_nonce_def to_be64_0)
qed

lemma split_checked_append: "length a = n \<Longrightarrow> split_checked n (a @ b) = Some (a, b)"
  by (simp add: split_checked_def)

lemma split_checked_SomeD: "split_checked n bs = Some (a, b) \<Longrightarrow> bs = a @ b \<and> length a = n"
  by (auto simp: split_checked_def split: if_splits)

section \<open>The header, both ways\<close>

definition header_octets :: "ece_header \<Rightarrow> byte list" where
  "header_octets h = hd_salt h @ to_be32 (hd_rs h) @ [of_nat (length (hd_keyid h))] @ hd_keyid h"

definition header_ok :: "ece_header \<Rightarrow> bool" where
  "header_ok h \<longleftrightarrow> length (hd_salt h) = 16 \<and> \<not> hd_rs h < MIN_RS \<and> length (hd_keyid h) \<le> 255"

lemma idlen: "n \<le> 255 \<Longrightarrow> unat (of_nat n :: byte) = n"
  by (simp add: unat_of_nat take_bit_nat_eq_self)

lemma parse_header_octets: "header_ok h \<Longrightarrow> parse_header (header_octets h @ data) = Inr (h, data)"
  by (simp add: parse_header_def header_octets_def header_ok_def split_checked_append idlen Let_def)

lemma bit_past: "\<not> bit (b :: byte) (8 + n)" "\<not> bit (b :: byte) (16 + n)" "\<not> bit (b :: byte) (24 + n)"
  using bit_imp_le_length [of b] by fastforce+

lemma from_be32_cases: "length bs = 4 \<Longrightarrow> to_be32 (from_be32 bs) = bs"
proof -
  assume "length bs = 4"
  then obtain a b c d where bs: "bs = [a, b, c, d]"
    by (auto simp: length_Suc_conv eval_nat_numeral)
  have byte: "n < 8 \<Longrightarrow> (bit (from_be32 [a, b, c, d]) (24 + n) \<longleftrightarrow> bit a n) \<and>
      (bit (from_be32 [a, b, c, d]) (16 + n) \<longleftrightarrow> bit b n) \<and>
      (bit (from_be32 [a, b, c, d]) (8 + n) \<longleftrightarrow> bit c n) \<and>
      (bit (from_be32 [a, b, c, d]) n \<longleftrightarrow> bit d n)" for n
    by (auto simp: from_be32_def bit_simps bit_past)
  show ?thesis unfolding bs to_be32_def
    using byte by (auto intro!: bit_word_eqI simp: bit_simps)
qed

lemma parse_header_InrD:
  assumes "parse_header body = Inr (h, data)"
  shows "body = header_octets h @ data \<and> header_ok h"
proof -
  from assms obtain salt rest rs rest' idlen rest'' keyid where
    "split_checked 16 body = Some (salt, rest)" "split_checked 4 rest = Some (rs, rest')"
    "rest' = idlen # rest''" "split_checked (unat idlen) rest'' = Some (keyid, data)"
    and rs: "\<not> from_be32 rs < MIN_RS"
    and h: "h = \<lparr>hd_salt = salt, hd_rs = from_be32 rs, hd_keyid = keyid\<rparr>"
    by (auto simp: parse_header_def Let_def split: option.splits list.splits if_splits)
  then have body: "body = salt @ rs @ [idlen] @ keyid @ data"
    and len: "length salt = 16" "length rs = 4" "length keyid = unat idlen"
    by (auto dest!: split_checked_SomeD)
  have "unat idlen \<le> 255" using unsigned_less [of idlen, where 'a = nat] by simp
  then show ?thesis
    using body len rs by (simp add: h header_octets_def header_ok_def from_be32_cases)
qed

text \<open>
  Parsing an \<open>aes128gcm\<close> header is the inverse of writing one: a body parses to a
  header and data exactly when it is that header's octets (16 of salt, the record size
  big-endian, the length of the key id, the key id) followed by the data, the record size
  at least 18 and the key id at most 255 octets.
\<close>

theorem parse_header_exact:
  "parse_header body = Inr (h, data) \<longleftrightarrow> body = header_octets h @ data \<and> header_ok h"
  using parse_header_InrD parse_header_octets by blast

section \<open>Records\<close>

lemma open_sealed:
  assumes "aead_ok cr" and "ec_seal cr cek (record_nonce nonce seq) (pt @ d # replicate n 0) = Some c" and "d \<noteq> 0"
  shows "open_record cr cek nonce seq c = Inr (pt, d)"
proof -
  from assms(1,2) have "ec_open cr cek (record_nonce nonce seq) c = Some (pt @ d # replicate n 0)"
    by (simp add: aead_ok_def)
  moreover have "dropWhile (\<lambda>b. b = 0) (replicate n 0 @ d # rev pt) = d # rev pt"
    using assms(3) by (induction n) simp_all
  ultimately show ?thesis by (simp add: open_record_def)
qed

lemma encrypt_InrD:
  assumes "encrypt cr k salt rs keyid pt = Inr body"
  obtains sealed where "ec_seal cr (fst (derive_cek_nonce cr k salt)) (snd (derive_cek_nonce cr k salt)) (pt @ [2]) = Some sealed"
    and "body = header_octets \<lparr>hd_salt = salt, hd_rs = rs, hd_keyid = keyid\<rparr> @ sealed"
    and "\<not> rs < MIN_RS" and "length keyid \<le> 255" and "length pt + 17 \<le> unat rs"
  using assms
  by (auto simp: encrypt_def TAG_LEN_def header_octets_def case_prod_beta Let_def not_less
      split: if_splits option.splits)

lemma encrypt_opens:
  assumes ok: "aead_ok cr" and "encrypt cr k salt rs keyid pt = Inr body" and salt: "length salt = 16"
  shows "\<exists>sealed. parse_header body = Inr (\<lparr>hd_salt = salt, hd_rs = rs, hd_keyid = keyid\<rparr>, sealed) \<and>
    open_record cr (fst (derive_cek_nonce cr k salt)) (snd (derive_cek_nonce cr k salt)) 0 sealed = Inr (pt, 2) \<and>
    length sealed = length pt + 17 \<and> length sealed \<le> unat rs \<and>
    length body = 21 + length keyid + length sealed"
proof -
  from assms(2) obtain sealed where
    sealed: "ec_seal cr (fst (derive_cek_nonce cr k salt)) (snd (derive_cek_nonce cr k salt)) (pt @ [2]) = Some sealed"
    and body: "body = header_octets \<lparr>hd_salt = salt, hd_rs = rs, hd_keyid = keyid\<rparr> @ sealed"
    and bounds: "\<not> rs < MIN_RS" "length keyid \<le> 255" "length pt + 17 \<le> unat rs"
    by (rule encrypt_InrD)
  have "length (snd (derive_cek_nonce cr k salt)) = 12"
    using ok by (simp add: derive_cek_nonce_def aead_ok_def)
  then have "record_nonce (snd (derive_cek_nonce cr k salt)) 0 = snd (derive_cek_nonce cr k salt)"
    by (rule record_nonce_0)
  then have "open_record cr (fst (derive_cek_nonce cr k salt)) (snd (derive_cek_nonce cr k salt)) 0 sealed = Inr (pt, 2)"
    using open_sealed [OF ok, of "fst (derive_cek_nonce cr k salt)" "snd (derive_cek_nonce cr k salt)" 0 pt 2 0 sealed] sealed
    by simp
  moreover have len: "length sealed = length pt + 17" using ok sealed by (fastforce simp: aead_ok_def)
  moreover have "header_ok \<lparr>hd_salt = salt, hd_rs = rs, hd_keyid = keyid\<rparr>"
    using bounds salt by (simp add: header_ok_def)
  moreover have "length body = 21 + length keyid + length sealed"
    using salt by (simp add: body header_octets_def)
  ultimately show ?thesis
    unfolding body using parse_header_octets bounds(3) by (intro exI [of _ sealed]) simp
qed

lemma decrypt_one:
  assumes "data \<noteq> []" and "length data \<le> rs" and "open_record cr cek nonce seq data = Inr (pt, 2)"
  shows "decrypt_loop cr cek nonce rs seq out data = Some (Inr (out @ pt))"
  using assms by (simp add: decrypt_loop.simps [of cr cek nonce rs seq out data] min_def)

text \<open>
  Whatever \<open>encrypt\<close> produces, \<open>decrypt\<close> under the same keying material returns the
  plaintext, and the body is 38 octets longer than the plaintext and the key id together.
\<close>

theorem decrypt_encrypt:
  assumes "aead_ok cr" and "encrypt cr k salt rs keyid pt = Inr body" and "length salt = 16"
  shows "decrypt cr k body = Some (Inr pt) \<and> length body = 38 + length keyid + length pt"
proof -
  from encrypt_opens [OF assms] obtain sealed where
    "parse_header body = Inr (\<lparr>hd_salt = salt, hd_rs = rs, hd_keyid = keyid\<rparr>, sealed)"
    "open_record cr (fst (derive_cek_nonce cr k salt)) (snd (derive_cek_nonce cr k salt)) 0 sealed = Inr (pt, 2)"
    "length sealed = length pt + 17" "length sealed \<le> unat rs" "length body = 21 + length keyid + length sealed"
    by blast
  moreover from this(3) have "sealed \<noteq> []" by auto
  ultimately show ?thesis by (simp add: decrypt_def case_prod_beta decrypt_one)
qed

text \<open>A concrete instance of the parameters: a cipher that appends 16 zero octets.\<close>

definition plain_crypto :: ece_crypto where
  "plain_crypto = \<lparr>ec_hkdf = (\<lambda>_ _ _ n. replicate n 7), ec_seal = (\<lambda>_ _ p. Some (p @ replicate 16 0)),
     ec_open = (\<lambda>_ _ c. if length c < 16 then None else Some (take (length c - 16) c))\<rparr>"

lemma plain_crypto_ok: "aead_ok plain_crypto"
  by (auto simp: aead_ok_def plain_crypto_def)

lemma decrypt_encrypt_witness:
  "\<exists>body. encrypt plain_crypto [1] (replicate 16 0) 4096 [] [104, 105] = Inr body \<and>
     decrypt plain_crypto [1] body = Some (Inr [104, 105])"
proof -
  obtain body where body: "encrypt plain_crypto [1] (replicate 16 0) 4096 [] [104, 105] = Inr body"
    by (simp add: encrypt_def MIN_RS_def TAG_LEN_def plain_crypto_def derive_cek_nonce_def)
  from decrypt_encrypt [OF plain_crypto_ok body] body show ?thesis by simp
qed

section \<open>Decryption of any body\<close>

lemma decrypt_loop_returns: "0 < rs \<Longrightarrow> decrypt_loop cr cek nonce rs seq out data \<noteq> None"
proof (induction "length data" arbitrary: seq out data rule: less_induct)
  case less
  let ?rest = "drop (min (length data) rs) data"
  have IH: "decrypt_loop cr cek nonce rs (seq + 1) out' ?rest \<noteq> None" if "data \<noteq> []" for out'
    using that less.prems by (intro less.hyps) simp_all
  then show ?case
    by (subst decrypt_loop.simps) (auto split: sum.splits)
qed

text \<open>
  \<open>decrypt\<close> returns on every input: the header guarantees a record size of at least 18,
  so each turn of the loop consumes data.
\<close>

theorem decrypt_returns: "\<exists>r. decrypt cr k body = Some r"
proof (cases "parse_header body")
  case (Inl e)
  then show ?thesis by (simp add: decrypt_def)
next
  case (Inr r)
  obtain h data where r: "r = (h, data)" by fastforce
  have "\<not> hd_rs h < MIN_RS" using parse_header_InrD Inr r by (auto simp: header_ok_def)
  then have "0 < unat (hd_rs h)" by (auto simp: MIN_RS_def word_less_nat_alt)
  then show ?thesis
    using decrypt_loop_returns by (simp add: decrypt_def Inr r case_prod_beta)
qed

text \<open>A sequence of records as RFC 8188 lays them out, from sequence number \<open>seq\<close>: plaintext,
  delimiter and padding of each, every record but the last full and delimited by 1.\<close>

inductive sealed_records ::
  "ece_crypto \<Rightarrow> byte list \<Rightarrow> byte list \<Rightarrow> nat \<Rightarrow> u64 \<Rightarrow> byte list list \<Rightarrow> byte \<Rightarrow> byte list \<Rightarrow> bool"
  for cr :: ece_crypto and cek nonce :: "byte list" and rs :: nat where
  last_record: "ec_seal cr cek (record_nonce nonce seq) (pt @ d # replicate n 0) = Some c \<Longrightarrow>
    length c \<le> rs \<Longrightarrow> sealed_records cr cek nonce rs seq [pt] d c"
| full_record: "ec_seal cr cek (record_nonce nonce seq) (pt @ 1 # replicate n 0) = Some c \<Longrightarrow>
    length c = rs \<Longrightarrow> sealed_records cr cek nonce rs (seq + 1) pts d data \<Longrightarrow>
    sealed_records cr cek nonce rs seq (pt # pts) d (c @ data)"

lemma sealed_length: "aead_ok cr \<Longrightarrow> ec_seal cr cek n (pt @ d # z) = Some c \<Longrightarrow> c \<noteq> []"
  by (fastforce simp: aead_ok_def)

lemma sealed_records_data: "sealed_records cr cek nonce rs seq pts d data \<Longrightarrow> aead_ok cr \<Longrightarrow> data \<noteq> []"
  by (induction rule: sealed_records.induct) (auto dest: sealed_length)

lemma decrypt_sealed_records:
  assumes "sealed_records cr cek nonce rs seq pts d data" and "aead_ok cr" and "d \<noteq> 0"
  shows "decrypt_loop cr cek nonce rs seq out data =
    Some (if d = 2 then Inr (out @ concat pts) else Inl InvalidPadding)"
  using assms
proof (induction arbitrary: out rule: sealed_records.induct)
  case (last_record seq pt d n c)
  then have "open_record cr cek nonce seq c = Inr (pt, d)" and "c \<noteq> []"
    using open_sealed sealed_length by blast+
  with last_record.hyps(2) show ?case
    by (simp add: decrypt_loop.simps [of cr cek nonce rs seq out c] min_def)
next
  case (full_record seq pt n c pts d data)
  have "open_record cr cek nonce seq c = Inr (pt, 1)"
    by (rule open_sealed [OF full_record.prems(1) full_record.hyps(1)]) simp
  moreover have "c \<noteq> []" by (rule sealed_length [OF full_record.prems(1) full_record.hyps(1)])
  moreover have "data \<noteq> []" by (rule sealed_records_data [OF full_record.hyps(3) full_record.prems(1)])
  moreover note full_record.hyps(2) full_record.IH [OF full_record.prems, of "out @ pt"]
  ultimately show ?case
    by (simp add: decrypt_loop.simps [of cr cek nonce rs seq out "c @ data"])
qed


definition cut_header :: ece_header where
  "cut_header = \<lparr>hd_salt = replicate 16 0, hd_rs = 19, hd_keyid = []\<rparr>"


section \<open>Web Push messages\<close>

text \<open>
  C31. What an application server encrypts for a subscription's public key and secret, the
  user agent holding the private key decrypts.
\<close>

theorem webpush_roundtrip:
  assumes "aead_ok cr" and "p256_ok pc" and "length salt = 16"
    and "pc_scalar pc ua_private = Some ua" and "ua_public = pc_encode pc (pc_public pc ua)"
    and "webpush_encrypt cr pc ua_public auth as_private salt pt = Inr body"
  shows "webpush_decrypt cr pc ua_private auth body = Inr pt"
proof -
  have point: "pc_point pc ua_public = Some (pc_public pc ua)"
    using assms(2,5) by (simp add: p256_ok_def)
  with assms(6) obtain sk where sk: "pc_scalar pc as_private = Some sk"
    and enc: "encrypt cr (ikm cr (pc_ecdh pc sk (pc_public pc ua)) auth ua_public (pc_encode pc (pc_public pc sk)))
      salt WP_RS (pc_encode pc (pc_public pc sk)) pt = Inr body"
    by (auto simp: webpush_encrypt_def Let_def split: option.splits)
  have dh: "pc_ecdh pc sk (pc_public pc ua) = pc_ecdh pc ua (pc_public pc sk)"
    and keyid: "pc_point pc (pc_encode pc (pc_public pc sk)) = Some (pc_public pc sk)"
      "length (pc_encode pc (pc_public pc sk)) = 65" "hd (pc_encode pc (pc_public pc sk)) = 4"
    using assms(2) by (simp_all add: p256_ok_def)
  from encrypt_opens [OF assms(1) enc assms(3)] dh keyid assms(4,5) show ?thesis
    by (auto simp: webpush_decrypt_def Let_def case_prod_beta)
qed

text \<open>A concrete instance of P-256's interface: keys are small numbers, the shared secret is
  their exclusive or.\<close>

definition toy_p256 :: "(byte, byte) p256" where
  "toy_p256 = \<lparr>pc_point = (\<lambda>bs. if length bs = 65 \<and> hd bs = 4 then Some (bs ! 1) else None),
     pc_scalar = (\<lambda>bs. if length bs = 32 then Some (hd bs) else None), pc_public = (\<lambda>b. b),
     pc_encode = (\<lambda>b. 4 # b # replicate 63 0), pc_ecdh = (\<lambda>a b. replicate 32 (a XOR b))\<rparr>"

lemma toy_p256_ok: "p256_ok toy_p256"
  by (simp add: p256_ok_def toy_p256_def xor.commute)

lemma webpush_encrypt_toy:
  "length pt \<le> 4079 \<Longrightarrow> webpush_encrypt plain_crypto toy_p256 (pc_encode toy_p256 9) [] (replicate 32 5)
     (replicate 16 0) pt =
   Inr (replicate 16 0 @ to_be32 4096 @ [65] @ (4 # 5 # replicate 63 0) @ (pt @ [2]) @ replicate 16 0)"
  by (simp add: webpush_encrypt_def toy_p256_def encrypt_def plain_crypto_def derive_cek_nonce_def
      MIN_RS_def WP_RS_def TAG_LEN_def)

lemma webpush_roundtrip_witness:
  "\<exists>body. webpush_encrypt plain_crypto toy_p256 (pc_encode toy_p256 9) [] (replicate 32 5)
     (replicate 16 0) [1, 2, 3] = Inr body \<and>
     webpush_decrypt plain_crypto toy_p256 (replicate 32 9) [] body = Inr [1, 2, 3]"
proof -
  obtain body where body: "webpush_encrypt plain_crypto toy_p256 (pc_encode toy_p256 9) [] (replicate 32 5)
      (replicate 16 0) [1, 2, 3] = Inr body"
    using webpush_encrypt_toy [of "[1, 2, 3]"] by simp
  have "pc_scalar toy_p256 (replicate 32 9) = Some 9" and "pc_encode toy_p256 9 = pc_encode toy_p256 (pc_public toy_p256 9)"
    by (simp_all add: toy_p256_def)
  from webpush_roundtrip [OF plain_crypto_ok toy_p256_ok _ this body] body show ?thesis by simp
qed

text \<open>
  C39. The record size is the only limit \<open>webpush::encrypt\<close> enforces: every plaintext of at
  most 4079 octets is accepted, and one of more than 3993 octets gives a body that no
  longer fits the 4096 octets a push service has to accept.
\<close>

theorem webpush_encrypt_limit:
  assumes "aead_ok cr" and "p256_ok pc" and "length salt = 16"
    and "pc_point pc ua_public = Some ua" and "pc_scalar pc as_private = Some sk"
  shows "(length pt \<le> 4079 \<longrightarrow>
      (\<exists>body. webpush_encrypt cr pc ua_public auth as_private salt pt = Inr body \<and>
         length body = 103 + length pt)) \<and>
    (4079 < length pt \<longrightarrow> webpush_encrypt cr pc ua_public auth as_private salt pt = Inl TooLarge)"
proof -
  have keyid: "length (pc_encode pc (pc_public pc sk)) = 65" using assms(2) by (simp add: p256_ok_def)
  let ?k = "ikm cr (pc_ecdh pc sk ua) auth ua_public (pc_encode pc (pc_public pc sk))"
  have run: "webpush_encrypt cr pc ua_public auth as_private salt pt =
      encrypt cr ?k salt WP_RS (pc_encode pc (pc_public pc sk)) pt"
    by (simp add: webpush_encrypt_def assms(4,5) Let_def)
  show ?thesis
  proof (cases "length pt \<le> 4079")
    case True
    then have "ec_seal cr a b (pt @ [2]) \<noteq> None" for a b using assms(1) by (simp add: aead_ok_def)
    then obtain c where "ec_seal cr (fst (derive_cek_nonce cr ?k salt)) (snd (derive_cek_nonce cr ?k salt)) (pt @ [2]) = Some c"
      by blast
    with True keyid obtain body where body: "encrypt cr ?k salt WP_RS (pc_encode pc (pc_public pc sk)) pt = Inr body"
      by (auto simp: encrypt_def MIN_RS_def WP_RS_def TAG_LEN_def case_prod_beta)
    with encrypt_opens [OF assms(1) body assms(3)] keyid True show ?thesis by (auto simp: run)
  next
    case False
    with keyid show ?thesis by (simp add: run encrypt_def MIN_RS_def WP_RS_def TAG_LEN_def)
  qed
qed

lemma webpush_encrypt_limit_witness:
  "\<exists>body. webpush_encrypt plain_crypto toy_p256 (pc_encode toy_p256 9) [] (replicate 32 5)
     (replicate 16 0) (replicate 4000 0) = Inr body \<and> length body = 4103"
proof -
  have "pc_point toy_p256 (pc_encode toy_p256 9) = Some 9" and "pc_scalar toy_p256 (replicate 32 5) = Some 5"
    by (simp_all add: toy_p256_def)
  from webpush_encrypt_limit [OF plain_crypto_ok toy_p256_ok _ this, of "replicate 16 0" "replicate 4000 0" "[]"]
  show ?thesis by simp
qed

end
