(* ===== verification/Endpoint.thy ===== *)
theory Endpoint
  imports Notify Ece
begin

text \<open>
  \<open>crates/webpush-server/src/endpoint.rs\<close>: push and message resources (RFC 8030) with VAPID
  enforcement (RFC 8292), and the deletion of receipt subscriptions. Response headers are
  those the handler adds.
\<close>

section \<open>Definitions\<close>

definition REL_RECEIPT :: string where
  "REL_RECEIPT = ''urn:ietf:params:push:receipt''"

definition valid_id :: "string \<Rightarrow> http_error + string" where
  "valid_id i = (if is_id i then Inr i else Inl (of_status 404))"

definition check_vapid ::
  "crates \<Rightarrow> header_map \<Rightarrow> byte list option \<Rightarrow> string \<Rightarrow> ('s node, http_error, byte list option) act" where
  "check_vapid x headers restricted org =
     (let forbidden = of_status 403;
          creds = (case get_all headers ''authorization'' of
              [] \<Rightarrow> Inr None
            | None # _ \<Rightarrow> Inl forbidden
            | Some value # _ \<Rightarrow>
                (case parse_authorization (ex_b64 x) value of
                   Inl NotVapid \<Rightarrow> Inr None
                 | Inl _ \<Rightarrow> Inl forbidden
                 | Inr c \<Rightarrow> Inr (Some c)))
      in case creds of
           Inl e \<Rightarrow> fail e
         | Inr None \<Rightarrow> (case restricted of Some _ \<Rightarrow> fail (unauthorized ''vapid'') | None \<Rightarrow> ret None)
         | Inr (Some c) \<Rightarrow>
             and_then (on_world now_ms) (\<lambda>now.
               case verify (ex_jwt x) c org (now div 1000) of
                 Inl _ \<Rightarrow> fail forbidden
               | Inr _ \<Rightarrow>
                   (case restricted of
                      Some k \<Rightarrow> if k \<noteq> cr_k c then fail forbidden else ret (Some (cr_k c))
                    | None \<Rightarrow> ret (Some (cr_k c)))))"

record valid_push =
  ph_sub :: subscription
  ph_ttl :: u32
  ph_urgency :: urgency
  ph_topic :: "string option"
  ph_respond_async :: bool
  ph_rsub_link :: "string option"
  ph_ctype :: "string option"
  ph_cenc :: "string option"
  ph_body :: "byte list"

text \<open>\<open>u32::try_from(n).unwrap_or(u32::MAX)\<close>.\<close>

definition to_u32 :: "nat \<Rightarrow> u32" where
  "to_u32 n = (if n < 2 ^ 32 then of_nat n else - 1)"

definition effective_ttl :: "config \<Rightarrow> u64 \<Rightarrow> u32" where
  "effective_ttl cfg requested = min (to_u32 (unat requested)) (to_u32 (as_secs (pu_max_ttl (cf_push cfg))))"

definition or_invalid :: "invalid + 'a \<Rightarrow> ('s node, http_error, 'a) act" where
  "or_invalid r = (case r of Inl e \<Rightarrow> fail (of_invalid e) | Inr x \<Rightarrow> ret x)"

text \<open>The receipt subscription named by a \<open>Link\<close>.\<close>

definition find_rsub :: "'s app \<Rightarrow> header_map \<Rightarrow> bool \<Rightarrow> ('s node, http_error, string option) act" where
  "find_rsub app headers async =
     (case link headers REL_RECEIPT of
        Some target \<Rightarrow>
          if async
          then (case resource_id target (origin app) ''/receipt-subscription/'' of
                  None \<Rightarrow> fail (of_invalid Invalid)
                | Some i \<Rightarrow>
                    and_then (try_store (so_receipt_sub_exists (ap_store app) i)) (\<lambda>exists.
                      if exists then ret (Some i) else fail (of_invalid Invalid)))
          else ret None
      | None \<Rightarrow> ret None)"

text \<open>The encryption key id of an \<open>aes128gcm\<close> body is the VAPID key.\<close>

definition key_reused :: "byte list option \<Rightarrow> string option \<Rightarrow> byte list \<Rightarrow> bool" where
  "key_reused key cenc body \<longleftrightarrow>
     (case key of
        None \<Rightarrow> False
      | Some k \<Rightarrow> cenc = Some ''aes128gcm'' \<and>
          (case parse_header body of Inl _ \<Rightarrow> False | Inr (h, _) \<Rightarrow> hd_keyid h = k))"

text \<open>\<open>push\<close> up to the validated request.\<close>

definition push_request ::
  "'s app \<Rightarrow> string \<Rightarrow> header_map \<Rightarrow> byte list \<Rightarrow> ('s node, http_error, valid_push) act" where
  "push_request app push_id headers body =
     and_then (lift_sum (valid_id push_id)) (\<lambda>push_id.
     and_then (try_store (so_subscription_by_push (ap_store app) push_id)) (\<lambda>found.
     and_then (or_fail (of_status 404) found) (\<lambda>sub.
     and_then (or_invalid (ttl headers)) (\<lambda>requested.
     and_then (or_invalid (urgency_header headers)) (\<lambda>urgency.
     and_then (or_invalid (topic headers)) (\<lambda>topic.
       let async = respond_async (prefer_header headers) in
     and_then (find_rsub app headers async) (\<lambda>rsub_link.
     and_then (check_vapid (ap_crates app) headers (sub_vapid sub) (origin app)) (\<lambda>key.
       let cenc = header_text headers ''content-encoding'' in
       if key_reused key cenc body then fail (of_invalid Invalid)
       else ret \<lparr>ph_sub = sub, ph_ttl = effective_ttl (ap_cfg app) requested,
              ph_urgency = (case urgency of None \<Rightarrow> Normal | Some u \<Rightarrow> u), ph_topic = topic,
              ph_respond_async = async, ph_rsub_link = rsub_link,
              ph_ctype = header_text headers ''content-type'', ph_cenc = cenc, ph_body = body\<rparr>))))))))"

definition message_url :: "'s app \<Rightarrow> string \<Rightarrow> string" where
  "message_url app i = origin app @ ''/message/'' @ i"

definition receipt_url :: "'s app \<Rightarrow> string \<Rightarrow> string" where
  "receipt_url app rsub = origin app @ ''/receipt-subscription/'' @ rsub"

text \<open>The message stored for a push.\<close>

definition push_message :: "valid_push \<Rightarrow> string \<Rightarrow> string \<Rightarrow> u64 \<Rightarrow> string option \<Rightarrow> message" where
  "push_message p push_id i accepted rsub =
     \<lparr>m_id = i, m_uaid = sub_uaid (ph_sub p), m_channel_id = sub_channel_id (ph_sub p), m_push = push_id,
      m_topic = ph_topic p, m_body = ph_body p, m_ctype = ph_ctype p, m_cenc = ph_cenc p,
      m_ttl = ph_ttl p, m_urgency = ph_urgency p, m_accepted = accepted,
      m_expiry = accepted + ucast (ph_ttl p) * 1000, m_rsub = rsub\<rparr>"

definition accepted_response :: "'s app \<Rightarrow> message \<Rightarrow> response" where
  "accepted_response app m =
     \<lparr>rs_status = (case m_rsub m of Some _ \<Rightarrow> 202 | None \<Rightarrow> 201),
      rs_headers = [(''location'', message_url app (m_id m)), (''ttl'', show_nat (unat (m_ttl m)))] @
        (case m_rsub m of None \<Rightarrow> []
         | Some rsub \<Rightarrow> [(''link'', link_value (receipt_url app rsub) REL_RECEIPT)]),
      rs_body = NoBody\<rparr>"

definition store_and_notify :: "'s app \<Rightarrow> valid_push \<Rightarrow> string \<Rightarrow> ('s node, http_error, response) act" where
  "store_and_notify app p push_id =
     and_then (case ph_rsub_link p of
         Some i \<Rightarrow> ret (Some i)
       | None \<Rightarrow>
           if ph_respond_async p
           then and_then (try_store (so_create_receipt_sub (ap_store app))) (\<lambda>i. ret (Some i))
           else ret None) (\<lambda>rsub.
     and_then (on_world now_ms) (\<lambda>accepted.
     and_then (on_world (new_id (ex_b64 (ap_crates app)))) (\<lambda>i.
       let m = push_message p push_id i accepted rsub in
     and_then (try_store (so_insert_message (ap_store app) m)) (\<lambda>_.
     and_then (run_all (app_notify app (UserAgent (sub_uaid (ph_sub p))) (Message (notification_from m)))) (\<lambda>_.
       ret (accepted_response app m))))))"

definition bridge_failure :: "'s app \<Rightarrow> string \<Rightarrow> bridge_error \<Rightarrow> 's node \<Rightarrow> http_error \<times> 's node" where
  "bridge_failure app uaid e nd =
     (case e of
        TokenGone \<Rightarrow>
          (case on_store (so_delete_user_agent (ap_store app) uaid) nd of
             (Inr receipts, nd) \<Rightarrow> (of_status 410, notify_receipts app receipts nd)
           | (Inl _, nd) \<Rightarrow> (of_status 410, nd))
      | PayloadTooLarge \<Rightarrow> (of_status 413, nd)
      | Throttled after \<Rightarrow> (retry_after 429 after, nd)
      | _ \<Rightarrow> (of_status 502, nd))"

definition bridge_message :: "valid_push \<Rightarrow> string \<Rightarrow> bridge_notification" where
  "bridge_message p i =
     \<lparr>bn_channel_id = sub_channel_id (ph_sub p), bn_version = i,
      bn_data = (if ph_body p = [] then None else Some (ph_body p)), bn_encoding = ph_cenc p,
      bn_ttl = from_secs (unat (ph_ttl p)),
      bn_priority = (case ph_urgency p of High \<Rightarrow> PHigh | _ \<Rightarrow> PNormal)\<rparr>"

definition bridged_response :: "'s app \<Rightarrow> valid_push \<Rightarrow> string \<Rightarrow> response" where
  "bridged_response app p i =
     \<lparr>rs_status = 201, rs_headers = [(''location'', message_url app i), (''ttl'', show_nat (unat (ph_ttl p)))],
      rs_body = NoBody\<rparr>"

definition bridge_push :: "'s app \<Rightarrow> valid_push \<Rightarrow> bridge_address \<Rightarrow> ('s node, http_error, response) act" where
  "bridge_push app p to =
     (case hget (ap_bridges app) (ba_bridge to) of
        None \<Rightarrow> fail (of_status 502)
      | Some b \<Rightarrow>
          and_then (on_world (new_id (ex_b64 (ap_crates app)))) (\<lambda>i nd.
            let address = \<lparr>ad_app_id = ba_app_id to, ad_token = ba_token to\<rparr>;
                k = nd_sends nd;
                nd = nd\<lparr>nd_sends := Suc k\<rparr>
            in case br_send b k address (bridge_message p i) of
                 Inl e \<Rightarrow> (case bridge_failure app (sub_uaid (ph_sub p)) e nd of (err, nd) \<Rightarrow> (Inl err, nd))
               | Inr _ \<Rightarrow> (Inr (bridged_response app p i), nd)))"

definition push :: "'s app \<Rightarrow> string \<Rightarrow> header_map \<Rightarrow> byte list \<Rightarrow> ('s node, http_error, response) act" where
  "push app push_id headers body =
     and_then (push_request app push_id headers body) (\<lambda>p.
     and_then (try_store (so_user_agent (ap_store app) (sub_uaid (ph_sub p)))) (\<lambda>found.
     and_then (or_fail (of_status 404) found) (\<lambda>ua.
       case ua_bridge ua of
         Some to \<Rightarrow> bridge_push app p to
       | None \<Rightarrow> store_and_notify app p push_id)))"

text \<open>\<open>HeaderValue::from_str\<close> accepts visible ASCII and tabs; a header it refuses is left out.\<close>

definition header_value_ok :: "string \<Rightarrow> bool" where
  "header_value_ok v \<longleftrightarrow> list_all (\<lambda>c. let n = of_char c :: nat in (32 \<le> n \<and> n < 127) \<or> n = 9) v"

definition put_header :: "string \<Rightarrow> string \<Rightarrow> (string \<times> string) list \<Rightarrow> (string \<times> string) list" where
  "put_header name v h = (if header_value_ok v then h @ [(name, v)] else h)"

definition message_response :: "crates \<Rightarrow> message \<Rightarrow> response" where
  "message_response x m =
     (let h = put_header ''cache-control'' ''private'' (put_header ''last-modified'' (ex_http_date x (m_accepted m)) []);
          h = (case m_ctype m of None \<Rightarrow> h | Some ct \<Rightarrow> put_header ''content-type'' ct h);
          h = (case m_cenc m of None \<Rightarrow> h | Some ce \<Rightarrow> put_header ''content-encoding'' ce h)
      in \<lparr>rs_status = 200, rs_headers = h, rs_body = Octets (m_body m)\<rparr>)"

definition read_message :: "'s app \<Rightarrow> string \<Rightarrow> ('s node, http_error, response) act" where
  "read_message app i =
     and_then (lift_sum (valid_id i)) (\<lambda>i.
     and_then (try_store (so_message (ap_store app) i)) (\<lambda>found.
     and_then (or_fail (of_status 404) found) (\<lambda>m.
     and_then (on_world now_ms) (\<lambda>now.
       if m_expiry m > now then ret (message_response (ap_crates app) m) else fail (of_status 404)))))"

definition withdraw_message :: "'s app \<Rightarrow> string \<Rightarrow> ('s node, http_error, response) act" where
  "withdraw_message app i =
     and_then (lift_sum (valid_id i)) (\<lambda>i.
     and_then (try_store (so_delete_message (ap_store app) i None)) (\<lambda>found.
     and_then (or_fail (of_status 404) found) (\<lambda>_. ret (status_response 204))))"

definition delete_receipt_sub :: "'s app \<Rightarrow> string \<Rightarrow> ('s node, http_error, response) act" where
  "delete_receipt_sub app i =
     and_then (lift_sum (valid_id i)) (\<lambda>i.
     and_then (try_store (so_delete_receipt_sub (ap_store app) i)) (\<lambda>existed.
       if \<not> existed then fail (of_status 404)
       else and_then (run_all (app_notify app (Receipts i) Gone)) (\<lambda>_. ret (status_response 204))))"

section \<open>Operations that only read\<close>

text \<open>The store's view is the same, and nothing on the node but the clock and randomness moves.\<close>

definition read_only :: "('s \<Rightarrow> spec) \<Rightarrow> 's node \<Rightarrow> 's node \<Rightarrow> bool" where
  "read_only view nd nd' \<longleftrightarrow>
     nd' = nd\<lparr>nd_store := nd_store nd', nd_world := nd_world nd'\<rparr> \<and>
     view (nd_store nd') = view (nd_store nd) \<and> world_le (nd_world nd) (nd_world nd')"

lemma read_only_refl [simp]: "read_only view nd nd"
  by (simp add: read_only_def)

lemma read_onlyD:
  assumes "read_only view nd nd'"
  shows "nd_hub nd' = nd_hub nd" and "nd_forwards nd' = nd_forwards nd" and "nd_reply nd' = nd_reply nd"
    and "nd_sends nd' = nd_sends nd" and "nd_tasks nd' = nd_tasks nd"
    and "view (nd_store nd') = view (nd_store nd)" and "world_le (nd_world nd) (nd_world nd')"
proof -
  from assms have eq: "nd' = nd\<lparr>nd_store := nd_store nd', nd_world := nd_world nd'\<rparr>"
    by (simp add: read_only_def)
  show "nd_hub nd' = nd_hub nd" "nd_forwards nd' = nd_forwards nd" "nd_reply nd' = nd_reply nd"
    "nd_sends nd' = nd_sends nd" "nd_tasks nd' = nd_tasks nd"
    by (subst eq, simp)+
  show "view (nd_store nd') = view (nd_store nd)" "world_le (nd_world nd) (nd_world nd')"
    using assms by (simp_all add: read_only_def)
qed

lemma read_only_trans:
  assumes "read_only view a b" and "read_only view b c"
  shows "read_only view a c"
proof -
  note ab = read_onlyD [OF assms(1)] and bc = read_onlyD [OF assms(2)]
  have "c = a\<lparr>nd_store := nd_store c, nd_world := nd_world c\<rparr>"
    by (rule node.equality) (simp_all add: ab bc)
  with ab bc show ?thesis
    unfolding read_only_def using world_le_trans [OF ab(7) bc(7)] by simp
qed

lemma read_only_routes:
  assumes "read_only view nd nd'"
  shows "only_routes view nd nd'"
  by (simp add: only_routes_def read_onlyD [OF assms])

definition keeps ::
  "('s \<Rightarrow> spec) \<Rightarrow> ('s \<times> world \<Rightarrow> bool) \<Rightarrow> ('s node, 'e, 'a) act \<Rightarrow> bool" where
  "keeps view I f \<longleftrightarrow> (\<forall>nd. I (nd_store nd, nd_world nd) \<longrightarrow>
     I (nd_store (snd (f nd)), nd_world (snd (f nd))) \<and> read_only view nd (snd (f nd)))"

named_theorems keeps_intros \<open>operations that only read\<close>

lemma keepsD:
  assumes "keeps view I f" and "f nd = (r, nd')" and "I (nd_store nd, nd_world nd)"
  shows "I (nd_store nd', nd_world nd')" and "read_only view nd nd'"
  using assms(1) [unfolded keeps_def, rule_format, OF assms(3)] by (simp_all add: assms(2))

lemma keeps_ret [keeps_intros]: "keeps view I (ret x)"
  by (simp add: keeps_def)

lemma keeps_fail [keeps_intros]: "keeps view I (fail e)"
  by (simp add: keeps_def)

lemma keeps_lift_sum [keeps_intros]: "keeps view I (lift_sum r)"
  by (simp add: keeps_def)

lemma keeps_or_fail [keeps_intros]: "keeps view I (or_fail e x)"
  by (cases x) (simp_all add: keeps_def or_fail_def)

lemma keeps_or_invalid [keeps_intros]: "keeps view I (or_invalid r)"
  by (cases r) (simp_all add: keeps_def or_invalid_def)

lemma keeps_if [keeps_intros]:
  "keeps view I f \<Longrightarrow> keeps view I g \<Longrightarrow> keeps view I (if b then f else g)"
  by simp

lemma keeps_and_then [keeps_intros]:
  fixes f :: "('s node, 'e, 'a) act"
  assumes f: "keeps view I f" and g: "\<And>x. keeps view I (g x)"
  shows "keeps view I (and_then f g)"
  unfolding keeps_def
proof (intro allI impI)
  fix nd :: "'s node" assume ok: "I (nd_store nd, nd_world nd)"
  obtain r nd1 where run: "f nd = (r, nd1)" by fastforce
  note one = keepsD [OF f run ok]
  show "I (nd_store (snd (and_then f g nd)), nd_world (snd (and_then f g nd))) \<and>
      read_only view nd (snd (and_then f g nd))"
  proof (cases r)
    case (Inl e)
    with one show ?thesis by (simp add: and_then_def run)
  next
    case (Inr x)
    obtain r' nd2 where run': "g x nd1 = (r', nd2)" by fastforce
    note two = keepsD [OF g run' one(1)]
    from two read_only_trans [OF one(2) two(2)] show ?thesis by (simp add: and_then_def run run' Inr)
  qed
qed

lemma keeps_option [keeps_intros]:
  "keeps view I f \<Longrightarrow> (\<And>x. keeps view I (g x)) \<Longrightarrow>
   keeps view I (case y of None \<Rightarrow> f | Some x \<Rightarrow> g x)"
  by (cases y) simp_all

lemma keeps_sum [keeps_intros]:
  "(\<And>x. keeps view I (f x)) \<Longrightarrow> (\<And>x. keeps view I (g x)) \<Longrightarrow>
   keeps view I (case y of Inl x \<Rightarrow> f x | Inr x \<Rightarrow> g x)"
  by (cases y) simp_all

lemma keeps_on_world:
  fixes f :: "world \<Rightarrow> 'a \<times> world" and I :: "'s \<times> world \<Rightarrow> bool"
  assumes "\<And>s w w'. I (s, w) \<Longrightarrow> world_le w w' \<Longrightarrow> I (s, w')" and "\<And>w x w'. f w = (x, w') \<Longrightarrow> world_le w w'"
  shows "keeps view I (on_world f)"
  unfolding keeps_def
proof (intro allI impI)
  fix nd :: "'s node" assume ok: "I (nd_store nd, nd_world nd)"
  obtain x w where fx: "f (nd_world nd) = (x, w)" by fastforce
  from assms(1) [OF ok assms(2) [OF fx]] assms(2) [OF fx]
  show "I (nd_store (snd (on_world f nd)), nd_world (snd (on_world f nd))) \<and>
      read_only view nd (snd (on_world f nd))"
    by (simp add: on_world_def fx read_only_def)
qed

lemma keeps_check_vapid:
  assumes "\<And>s w w'. I (s, w) \<Longrightarrow> world_le w w' \<Longrightarrow> I (s, w')"
  shows "keeps view I (check_vapid x headers restricted org)"
proof -
  have now: "keeps view I (on_world now_ms)" by (rule keeps_on_world) (auto intro: assms world_le_now)
  show ?thesis unfolding check_vapid_def Let_def by (intro keeps_intros now)
qed

text \<open>A key is returned only for credentials that verify; a restricted subscription takes
  only its own key.\<close>

lemma check_vapid_InrD:
  assumes "check_vapid x headers restricted org nd = (Inr key, nd')"
  shows "key = None \<and> restricted = None \<or>
    (\<exists>value creds claims now. header_text headers ''authorization'' = Some value \<and>
       parse_authorization (ex_b64 x) value = Inr creds \<and> verify (ex_jwt x) creds org now = Inr claims \<and>
       key = Some (cr_k creds) \<and> (\<forall>k. restricted = Some k \<longrightarrow> k = cr_k creds))"
proof -
  have accept: "key = Some (cr_k c) \<and> (\<forall>k. restricted = Some k \<longrightarrow> k = cr_k c) \<and>
      (\<exists>claims now. verify (ex_jwt x) c org now = Inr claims)"
    if run: "and_then (on_world now_ms) (\<lambda>now.
               case verify (ex_jwt x) c org (now div 1000) of
                 Inl _ \<Rightarrow> fail (of_status 403)
               | Inr _ \<Rightarrow>
                   (case restricted of
                      Some k \<Rightarrow> if k \<noteq> cr_k c then fail (of_status 403) else ret (Some (cr_k c))
                    | None \<Rightarrow> ret (Some (cr_k c)))) nd = (Inr key, nd')" for c
  proof -
    from run obtain now nd1 where step: "(case verify (ex_jwt x) c org (now div 1000) of
        Inl _ \<Rightarrow> fail (of_status 403)
      | Inr _ \<Rightarrow> (case restricted of
            Some k \<Rightarrow> if k \<noteq> cr_k c then fail (of_status 403) else ret (Some (cr_k c))
          | None \<Rightarrow> ret (Some (cr_k c)))) nd1 = (Inr key, nd')"
      unfolding and_then_eq_Inr_iff by blast
    then show ?thesis
      by (cases "verify (ex_jwt x) c org (now div 1000)") (auto split: option.splits if_splits)
  qed
  show ?thesis
  proof (cases "get_all headers ''authorization''")
    case Nil
    with assms show ?thesis by (auto simp: check_vapid_def split: option.splits)
  next
    case (Cons v vs)
    show ?thesis
    proof (cases v)
      case None
      with assms Cons show ?thesis by (simp add: check_vapid_def)
    next
      case (Some v1)
      have hdr: "header_text headers ''authorization'' = Some v1" by (simp add: header_text_def Cons Some)
      show ?thesis
      proof (cases "parse_authorization (ex_b64 x) v1")
        case (Inl e)
        with assms Cons Some show ?thesis
          by (cases e) (auto simp: check_vapid_def split: option.splits)
      next
        case (Inr c)
        with assms Cons Some accept [of c] hdr show ?thesis
          by (auto simp: check_vapid_def Let_def)
      qed
    qed
  qed
qed

context reliable_store
begin

text \<open>A store operation that returns and leaves the view alone.\<close>

definition reads :: "('s, 'a) store_op \<Rightarrow> bool" where
  "reads f \<longleftrightarrow> (\<forall>sw. inv sw \<longrightarrow> returns f sw \<and> gives f sw (\<lambda>_ sw'. inv sw' \<and>
     world_le (snd sw) (snd sw') \<and> view (fst sw') = view (fst sw)))"

lemma readsI:
  assumes "\<And>sw. returns f sw" and "\<And>sw. inv sw \<Longrightarrow> gives f sw (\<lambda>x sw'. inv sw' \<and>
     world_le (snd sw) (snd sw') \<and> Q sw x \<and> view (fst sw') = view (fst sw))"
  shows "reads f"
  using assms unfolding reads_def gives_def by blast

lemma reads_ops:
  "reads (so_subscription_by_push S p)" "reads (so_user_agent S u)" "reads (so_message S i)"
  "reads (so_receipt_sub_exists S r)" "reads (so_channel S u c)" "reads (so_pending S u now n)"
  by (rule readsI, rule ua_returns sub_returns msg_returns receipt_returns,
      erule subscription_by_push user_agent message receipt_sub_exists channel pending)+

lemma keeps_reads:
  assumes "reads f"
  shows "keeps view inv (try_store f)"
  unfolding keeps_def
proof (intro allI impI)
  fix nd :: "'s node" assume ok: "inv (nd_store nd, nd_world nd)"
  from assms ok have "returns f (nd_store nd, nd_world nd)"
    and "gives f (nd_store nd, nd_world nd) (\<lambda>_ sw'. inv sw' \<and>
      world_le (snd (nd_store nd, nd_world nd)) (snd sw') \<and> view (fst sw') = view (fst (nd_store nd, nd_world nd)))"
    unfolding reads_def by blast+
  from try_store_ex [OF this] obtain x s w where
    "try_store f nd = (Inr x, nd\<lparr>nd_store := s, nd_world := w\<rparr>)" and "inv (s, w)" "world_le (nd_world nd) w"
    "view s = view (nd_store nd)" by auto
  then show "inv (nd_store (snd (try_store f nd)), nd_world (snd (try_store f nd))) \<and>
      read_only view nd (snd (try_store f nd))"
    by (simp add: read_only_def)
qed

lemma keeps_now: "keeps view inv (on_world now_ms)"
  by (rule keeps_on_world) (auto intro: inv_world world_le_now)

lemma keeps_new_id: "keeps view inv (on_world (new_id b64))"
  by (rule keeps_on_world) (auto intro: inv_world world_le_new_id)

lemmas keeps_calls = keeps_intros keeps_reads reads_ops keeps_now keeps_new_id

lemma try_store_InrD:
  assumes "try_store f nd = (Inr x, nd')" and "gives f (nd_store nd, nd_world nd) Q"
  shows "Q x (nd_store nd', nd_world nd')"
  using assms by (auto simp: try_store_def on_store_def gives_def split: prod.splits sum.splits)

lemma try_store_never_fails:
  assumes "returns f (nd_store nd, nd_world nd)"
  shows "try_store f nd \<noteq> (Inl e, nd')"
  using assms by (auto simp: try_store_def on_store_def returns_def split: prod.splits sum.splits)

lemma keeps_find_rsub: "ap_store app = S \<Longrightarrow> keeps view inv (find_rsub app headers async)"
proof -
  assume S: "ap_store app = S"
  show ?thesis unfolding find_rsub_def S by (intro keeps_calls)
qed

lemma keeps_push_request: "ap_store app = S \<Longrightarrow> keeps view inv (push_request app push_id headers body)"
proof -
  assume S: "ap_store app = S"
  have vapid: "keeps view inv (check_vapid x headers restricted org)" for x restricted org
    by (rule keeps_check_vapid) (rule inv_world)
  show ?thesis unfolding push_request_def Let_def S
    by (intro keeps_calls keeps_find_rsub [OF S] vapid)
qed

lemma find_rsub_InrD:
  assumes "ap_store app = S" and ok: "node_ok nd" and run: "find_rsub app headers async nd = (Inr (Some i), nd')"
  shows "async \<and> sp_queues (view (nd_store nd)) i \<noteq> None"
proof -
  from run obtain nd1 where async: "async" and ex: "try_store (so_receipt_sub_exists S i) nd = (Inr True, nd1)"
    by (auto simp: find_rsub_def assms(1) and_then_eq_Inr_iff split: option.splits if_splits)
  from try_store_InrD [OF ex receipt_sub_exists [OF ok]] async show ?thesis by simp
qed

lemma push_request_InrD:
  assumes S: "ap_store app = S" and ok: "node_ok nd"
    and run: "push_request app push_id headers body nd = (Inr p, nd')"
  shows "is_id push_id"
    and "sp_subs (view (nd_store nd)) (sub_uaid (ph_sub p), sub_channel_id (ph_sub p)) = Some (ph_sub p)"
    and "sub_push (ph_sub p) = push_id" and "ph_body p = body"
    and "\<exists>n. ttl headers = Inr n \<and> ph_ttl p = effective_ttl (ap_cfg app) n"
    and "topic headers = Inr (ph_topic p)"
    and "ph_respond_async p = respond_async (prefer_header headers)"
    and "ph_rsub_link p = Some i \<Longrightarrow> ph_respond_async p \<and> sp_queues (view (nd_store nd)) i \<noteq> None"
    and "sub_vapid (ph_sub p) = Some k \<Longrightarrow>
      (\<exists>value creds claims now. header_text headers ''authorization'' = Some value \<and>
         parse_authorization (ex_b64 (ap_crates app)) value = Inr creds \<and>
         verify (ex_jwt (ap_crates app)) creds (origin app) now = Inr claims \<and> k = cr_k creds) \<and>
      \<not> key_reused (Some k) (header_text headers ''content-encoding'') body"
proof -
  from run obtain sub nd1 n u t rl nd2 key nd3 where
    chain: "is_id push_id" "try_store (so_subscription_by_push S push_id) nd = (Inr (Some sub), nd1)"
      "ttl headers = Inr n" "topic headers = Inr t"
      "find_rsub app headers (respond_async (prefer_header headers)) nd1 = (Inr rl, nd2)"
      "check_vapid (ap_crates app) headers (sub_vapid sub) (origin app) nd2 = (Inr key, nd3)"
      "\<not> key_reused key (header_text headers ''content-encoding'') body"
    and p: "p = \<lparr>ph_sub = sub, ph_ttl = effective_ttl (ap_cfg app) n,
              ph_urgency = u, ph_topic = t,
              ph_respond_async = respond_async (prefer_header headers), ph_rsub_link = rl,
              ph_ctype = header_text headers ''content-type'',
              ph_cenc = header_text headers ''content-encoding'', ph_body = body\<rparr>"
    by (auto simp: push_request_def Let_def and_then_eq_Inr_iff S valid_id_def or_invalid_def or_fail_def
        split: if_splits sum.splits option.splits)
  from try_store_InrD [OF chain(2) subscription_by_push [OF ok]] have by_push: "spec_by_push push_id (view (nd_store nd)) (Some sub)"
    by simp
  show "is_id push_id" by (rule chain(1))
  show "sp_subs (view (nd_store nd)) (sub_uaid (ph_sub p), sub_channel_id (ph_sub p)) = Some (ph_sub p)"
    and "sub_push (ph_sub p) = push_id"
    using by_push by (auto simp: spec_by_push_def p)
  show "ph_body p = body" "\<exists>n. ttl headers = Inr n \<and> ph_ttl p = effective_ttl (ap_cfg app) n"
    "topic headers = Inr (ph_topic p)" "ph_respond_async p = respond_async (prefer_header headers)"
    using chain by (simp_all add: p)
  have read: "node_ok nd1" "read_only view nd nd1"
    using keepsD [OF keeps_reads [OF reads_ops(1)] chain(2) ok] by simp_all
  show "ph_respond_async p \<and> sp_queues (view (nd_store nd)) i \<noteq> None" if "ph_rsub_link p = Some i"
    using find_rsub_InrD [OF S read(1), of headers "respond_async (prefer_header headers)" i nd2]
      chain(5) that read_onlyD(6) [OF read(2)] by (simp add: p)
  show "(\<exists>value creds claims now. header_text headers ''authorization'' = Some value \<and>
         parse_authorization (ex_b64 (ap_crates app)) value = Inr creds \<and>
         verify (ex_jwt (ap_crates app)) creds (origin app) now = Inr claims \<and> k = cr_k creds) \<and>
      \<not> key_reused (Some k) (header_text headers ''content-encoding'') body"
    if "sub_vapid (ph_sub p) = Some k"
    using check_vapid_InrD [OF chain(6)] that chain(7) by (auto simp: p)
qed

end

section \<open>Storing and announcing\<close>

lemma on_store_frame:
  assumes "on_store f nd = (r, nd')"
  shows "nd_hub nd' = nd_hub nd" and "nd_forwards nd' = nd_forwards nd" and "nd_sends nd' = nd_sends nd"
    and "nd_tasks nd' = nd_tasks nd" and "nd_reply nd' = nd_reply nd"
  using assms by (auto simp: on_store_def split: prod.splits)

lemma clear_stale_hub [simp]: "nd_hub (clear_stale app to node nd) = nd_hub nd"
  by (cases "on_store (so_clear_route (ap_store app) to node) nd") (simp add: clear_stale_def on_store_frame)

lemma forward_hub [simp]: "nd_hub (app_forward app node to event nd) = nd_hub nd"
  by (simp add: app_forward_def Let_def split: option.split forward_reply.split)

lemma app_notify_hub: "nd_hub (app_notify app to event nd) = snd (notify to event (nd_hub nd))"
proof -
  obtain r h where hub: "notify to event (nd_hub nd) = (r, h)" by fastforce
  show ?thesis
  proof (cases "r = Absent \<and> ap_cluster app \<noteq> None")
    case False
    then show ?thesis by (cases r) (auto simp: app_notify_def hub)
  next
    case True
    then obtain c where c: "ap_cluster app = Some c" and r: "r = Absent" by auto
    obtain x nd1 where call: "on_store (so_route (ap_store app) to) (nd\<lparr>nd_hub := h\<rparr>) = (x, nd1)" by fastforce
    from on_store_frame(1) [OF this] have "nd_hub nd1 = h" by simp
    then show ?thesis by (simp add: app_notify_def hub c r call split: sum.split option.split)
  qed
qed

context reliable_store
begin

definition choose_rsub :: "valid_push \<Rightarrow> ('s node, http_error, string option) act" where
  "choose_rsub p =
     (case ph_rsub_link p of
         Some i \<Rightarrow> ret (Some i)
       | None \<Rightarrow>
           if ph_respond_async p
           then and_then (try_store (so_create_receipt_sub S)) (\<lambda>i. ret (Some i))
           else ret None)"

lemma rsub_stage:
  assumes ok: "node_ok nd"
    and named: "\<And>i. ph_rsub_link p = Some i \<Longrightarrow> ph_respond_async p \<and> sp_queues (view (nd_store nd)) i \<noteq> None"
  shows "\<exists>rsub s w. choose_rsub p nd = (Inr rsub, nd\<lparr>nd_store := s, nd_world := w\<rparr>) \<and>
    inv (s, w) \<and> world_le (nd_world nd) w \<and> (rsub \<noteq> None \<longleftrightarrow> ph_respond_async p) \<and>
    (\<forall>i. ph_rsub_link p = Some i \<longrightarrow> rsub = Some i) \<and>
    (\<forall>i. rsub = Some i \<longrightarrow> sp_queues (view s) i \<noteq> None) \<and>
    sp_msgs (view s) = sp_msgs (view (nd_store nd)) \<and> sp_subs (view s) = sp_subs (view (nd_store nd)) \<and>
    sp_uas (view s) = sp_uas (view (nd_store nd))"
proof (cases "ph_rsub_link p = None \<and> ph_respond_async p")
  case False
  have run: "choose_rsub p nd = (Inr (ph_rsub_link p), nd\<lparr>nd_store := nd_store nd, nd_world := nd_world nd\<rparr>)"
    using False by (auto simp: choose_rsub_def split: option.split)
  show ?thesis
    by (rule exI [of _ "ph_rsub_link p"], rule exI [of _ "nd_store nd"], rule exI [of _ "nd_world nd"])
      (use run ok named False in auto)
next
  case True
  from try_store_ex [OF receipt_returns(1) create_receipt_sub [OF ok]] obtain x s w where
    call: "try_store (so_create_receipt_sub S) nd = (Inr x, nd\<lparr>nd_store := s, nd_world := w\<rparr>)"
    and eff: "world_le (nd_world nd) w" "inv (s, w)"
      "view s = (view (nd_store nd))\<lparr>sp_queues := (sp_queues (view (nd_store nd)))(x \<mapsto> [])\<rparr>"
    by auto
  have run: "choose_rsub p nd = (Inr (Some x), nd\<lparr>nd_store := s, nd_world := w\<rparr>)"
    using True call by (simp add: choose_rsub_def and_then_Inr)
  show ?thesis
    by (rule exI [of _ "Some x"], rule exI [of _ s], rule exI [of _ w]) (use run eff True in auto)
qed

lemma store_and_notify_effect:
  assumes S: "ap_store app = S" and ok: "node_ok nd"
    and named: "\<And>i. ph_rsub_link p = Some i \<Longrightarrow> ph_respond_async p \<and> sp_queues (view (nd_store nd)) i \<noteq> None"
  obtains i t rsub nd' where
    "store_and_notify app p push_id nd = (Inr (accepted_response app (push_message p push_id i t rsub)), nd')"
    and "rsub \<noteq> None \<longleftrightarrow> ph_respond_async p" and "\<forall>j. ph_rsub_link p = Some j \<longrightarrow> rsub = Some j"
    and "nd_hub nd' = snd (notify (UserAgent (sub_uaid (ph_sub p)))
           (Message (notification_from (push_message p push_id i t rsub))) (nd_hub nd))"
    and "sp_msgs (view (nd_store nd)) i = None \<longrightarrow> node_ok nd' \<and>
           sp_msgs (view (nd_store nd')) =
             sp_msgs (spec_insert_message (push_message p push_id i t rsub) (view (nd_store nd))) \<and>
           sp_subs (view (nd_store nd')) = sp_subs (view (nd_store nd)) \<and>
           sp_uas (view (nd_store nd')) = sp_uas (view (nd_store nd)) \<and>
           (\<forall>j. rsub = Some j \<longrightarrow> sp_queues (view (nd_store nd')) j \<noteq> None)"
proof -
  from rsub_stage [OF ok, of p, OF named] obtain rsub s1 w1 where
    stage1: "choose_rsub p nd = (Inr rsub, nd\<lparr>nd_store := s1, nd_world := w1\<rparr>)"
    and one: "inv (s1, w1)" "world_le (nd_world nd) w1" "rsub \<noteq> None \<longleftrightarrow> ph_respond_async p"
      "\<And>i. ph_rsub_link p = Some i \<Longrightarrow> rsub = Some i" "\<And>i. rsub = Some i \<Longrightarrow> sp_queues (view s1) i \<noteq> None"
      "sp_msgs (view s1) = sp_msgs (view (nd_store nd))" "sp_subs (view s1) = sp_subs (view (nd_store nd))"
      "sp_uas (view s1) = sp_uas (view (nd_store nd))"
    by auto
  obtain t w2 where now: "now_ms w1 = (t, w2)" by fastforce
  obtain i w3 where draw: "new_id (ex_b64 (ap_crates app)) w2 = (i, w3)" by fastforce
  define m where "m = push_message p push_id i t rsub"
  let ?nd3 = "nd\<lparr>nd_store := s1, nd_world := w3\<rparr>"
  have ok3: "inv (s1, w3)"
    using inv_world [OF inv_world [OF one(1) world_le_now [OF now]] world_le_new_id [OF draw]] .
  obtain u s4 w4 where ins: "so_insert_message S m (s1, w3) = (Inr u, s4, w4)"
    using msg_returns(1) [of m "(s1, w3)"] unfolding returns_def by auto
  define nd4 where "nd4 = nd\<lparr>nd_store := s4, nd_world := w4\<rparr>"
  have call: "try_store (so_insert_message S m) ?nd3 = (Inr u, nd4)"
    using try_store_apply [of "so_insert_message S m" ?nd3] ins by (simp add: nd4_def)
  define nd' where "nd' = app_notify app (UserAgent (sub_uaid (ph_sub p))) (Message (notification_from m)) nd4"
  have run: "store_and_notify app p push_id nd = (Inr (accepted_response app m), nd')"
    unfolding store_and_notify_def S choose_rsub_def [symmetric]
    by (simp add: and_then_def stage1 on_world_def now draw Let_def m_def [symmetric] call nd'_def)
  show thesis
  proof (rule that [of i t rsub nd'])
    show "store_and_notify app p push_id nd = (Inr (accepted_response app (push_message p push_id i t rsub)), nd')"
      using run by (simp add: m_def)
    show "rsub \<noteq> None \<longleftrightarrow> ph_respond_async p" "\<forall>j. ph_rsub_link p = Some j \<longrightarrow> rsub = Some j"
      using one by simp_all
    show "nd_hub nd' = snd (notify (UserAgent (sub_uaid (ph_sub p)))
           (Message (notification_from (push_message p push_id i t rsub))) (nd_hub nd))"
      by (simp add: nd'_def app_notify_hub m_def nd4_def)
    {
    assume "sp_msgs (view (nd_store nd)) i = None"
    then have "sp_msgs (view s1) (m_id m) = None" by (simp add: one m_def push_message_def)
    with givesD [OF insert_message [of "(s1, w3)" m] ins] ok3
    have four: "inv (s4, w4)" "view s4 = spec_insert_message m (view s1)" by simp_all
    have ok4: "node_ok nd4" using four by (simp add: nd4_def)
    from notify_only_routes [OF S ok4]
    have five: "node_ok nd'" "only_routes view nd4 nd'" unfolding nd'_def by simp_all
    have v4: "view (nd_store nd4) = spec_insert_message m (view s1)" using four by (simp add: nd4_def)
    from five(2) have frame: "sp_msgs (view (nd_store nd')) = sp_msgs (view (nd_store nd4))"
      "sp_subs (view (nd_store nd')) = sp_subs (view (nd_store nd4))"
      "sp_uas (view (nd_store nd')) = sp_uas (view (nd_store nd4))"
      "sp_queues (view (nd_store nd')) = sp_queues (view (nd_store nd4))"
      by (simp_all add: only_routes_def)
    have ins_frame: "sp_subs (spec_insert_message m sp) = sp_subs sp" "sp_uas (spec_insert_message m sp) = sp_uas sp"
      "sp_queues (spec_insert_message m sp) = sp_queues sp" for sp
      by (simp_all add: spec_insert_message_def)
    have same_msgs: "sp_msgs (spec_insert_message m (view s1)) = sp_msgs (spec_insert_message m (view (nd_store nd)))"
      unfolding spec_insert_message_def one(6) by simp
    have "node_ok nd' \<and> sp_msgs (view (nd_store nd')) =
             sp_msgs (spec_insert_message (push_message p push_id i t rsub) (view (nd_store nd))) \<and>
           sp_subs (view (nd_store nd')) = sp_subs (view (nd_store nd)) \<and>
           sp_uas (view (nd_store nd')) = sp_uas (view (nd_store nd)) \<and>
           (\<forall>j. rsub = Some j \<longrightarrow> sp_queues (view (nd_store nd')) j \<noteq> None)"
      using five(1) same_msgs one(5,7,8)
      by (simp add: frame v4 ins_frame m_def [symmetric])
    }
    then show "sp_msgs (view (nd_store nd)) i = None \<longrightarrow> node_ok nd' \<and> sp_msgs (view (nd_store nd')) =
             sp_msgs (spec_insert_message (push_message p push_id i t rsub) (view (nd_store nd))) \<and>
           sp_subs (view (nd_store nd')) = sp_subs (view (nd_store nd)) \<and>
           sp_uas (view (nd_store nd')) = sp_uas (view (nd_store nd)) \<and>
           (\<forall>j. rsub = Some j \<longrightarrow> sp_queues (view (nd_store nd')) j \<noteq> None)"
      by blast
  qed
qed

end

context reliable_store
begin

lemma user_agent_call:
  assumes ok: "node_ok nd"
  shows "\<exists>nd'. try_store (so_user_agent S u) nd = (Inr (sp_uas (view (nd_store nd)) u), nd') \<and>
    node_ok nd' \<and> read_only view nd nd'"
proof -
  obtain x nd' where call: "try_store (so_user_agent S u) nd = (x, nd')" by fastforce
  have kept: "node_ok nd'" "read_only view nd nd'"
    using keepsD [OF keeps_reads [OF reads_ops(2)] call ok] by simp_all
  show ?thesis
  proof (cases x)
    case (Inl e)
    with call try_store_never_fails [OF ua_returns(2)] show ?thesis by blast
  next
    case (Inr found)
    from try_store_InrD [OF call [unfolded Inr] user_agent [OF ok]] kept call show ?thesis
      by (simp add: Inr)
  qed
qed

lemma push_effect:
  assumes S: "ap_store app = S" and ok: "node_ok nd"
    and req: "push_request app push_id headers body nd = (Inr p, nd1)"
    and ua: "sp_uas (view (nd_store nd)) (sub_uaid (ph_sub p)) = Some ua" and plain: "ua_bridge ua = None"
  obtains i t rsub nd' where
    "push app push_id headers body nd = (Inr (accepted_response app (push_message p push_id i t rsub)), nd')"
    and "rsub \<noteq> None \<longleftrightarrow> ph_respond_async p" and "\<forall>j. ph_rsub_link p = Some j \<longrightarrow> rsub = Some j"
    and "nd_hub nd' = snd (notify (UserAgent (sub_uaid (ph_sub p)))
           (Message (notification_from (push_message p push_id i t rsub))) (nd_hub nd))"
    and "sp_msgs (view (nd_store nd)) i = None \<longrightarrow> node_ok nd' \<and>
           sp_msgs (view (nd_store nd')) =
             sp_msgs (spec_insert_message (push_message p push_id i t rsub) (view (nd_store nd))) \<and>
           sp_subs (view (nd_store nd')) = sp_subs (view (nd_store nd)) \<and>
           sp_uas (view (nd_store nd')) = sp_uas (view (nd_store nd)) \<and>
           (\<forall>j. rsub = Some j \<longrightarrow> sp_queues (view (nd_store nd')) j \<noteq> None)"
proof -
  have kept: "node_ok nd1" "read_only view nd nd1"
    using keepsD [OF keeps_push_request [OF S] req ok] by simp_all
  from user_agent_call [OF kept(1), of "sub_uaid (ph_sub p)"] obtain nd2 where
    call: "try_store (so_user_agent S (sub_uaid (ph_sub p))) nd1 =
      (Inr (sp_uas (view (nd_store nd1)) (sub_uaid (ph_sub p))), nd2)"
    and kept2: "node_ok nd2" "read_only view nd1 nd2" by blast
  have same: "view (nd_store nd1) = view (nd_store nd)" "view (nd_store nd2) = view (nd_store nd)"
      "nd_hub nd2 = nd_hub nd"
    using read_onlyD [OF kept(2)] read_onlyD [OF kept2(2)] by simp_all
  have named: "ph_respond_async p \<and> sp_queues (view (nd_store nd2)) j \<noteq> None" if "ph_rsub_link p = Some j" for j
    using push_request_InrD(8) [OF S ok req that] same by simp
  obtain i t rsub nd' where stored:
    "store_and_notify app p push_id nd2 = (Inr (accepted_response app (push_message p push_id i t rsub)), nd')"
    and rest: "rsub \<noteq> None \<longleftrightarrow> ph_respond_async p" "\<forall>j. ph_rsub_link p = Some j \<longrightarrow> rsub = Some j"
    "nd_hub nd' = snd (notify (UserAgent (sub_uaid (ph_sub p)))
           (Message (notification_from (push_message p push_id i t rsub))) (nd_hub nd2))"
    "sp_msgs (view (nd_store nd2)) i = None \<longrightarrow> node_ok nd' \<and>
           sp_msgs (view (nd_store nd')) =
             sp_msgs (spec_insert_message (push_message p push_id i t rsub) (view (nd_store nd2))) \<and>
           sp_subs (view (nd_store nd')) = sp_subs (view (nd_store nd2)) \<and>
           sp_uas (view (nd_store nd')) = sp_uas (view (nd_store nd2)) \<and>
           (\<forall>j. rsub = Some j \<longrightarrow> sp_queues (view (nd_store nd')) j \<noteq> None)"
    by (rule store_and_notify_effect [OF S kept2(1), of p push_id, OF named])
  have run: "push app push_id headers body nd = (Inr (accepted_response app (push_message p push_id i t rsub)), nd')"
    using call stored ua by (simp add: push_def and_then_def req S plain same)
  show thesis by (rule that [OF run rest [unfolded same]])
qed

text \<open>A request without optional headers on an unrestricted subscription is valid.\<close>

lemma push_request_plain:
  assumes S: "ap_store app = S" and ok: "node_ok nd" and i: "is_id push_id"
    and sub: "sp_subs (view (nd_store nd)) (sub_uaid sub, sub_channel_id sub) = Some sub" "sub_push sub = push_id"
    and free: "sub_vapid sub = None"
    and hs: "ttl headers = Inr n" "get_all headers ''urgency'' = []" "get_all headers ''topic'' = []"
      "get_all headers ''link'' = []" "get_all headers ''authorization'' = []"
  shows "\<exists>p nd1. push_request app push_id headers body nd = (Inr p, nd1) \<and> ph_sub p = sub"
proof -
  obtain x nd1 where call: "try_store (so_subscription_by_push S push_id) nd = (x, nd1)" by fastforce
  have "x = Inr (Some sub)"
  proof (cases x)
    case (Inl e)
    with call try_store_never_fails [OF sub_returns(4)] show ?thesis by blast
  next
    case (Inr found)
    from try_store_InrD [OF call [unfolded Inr] subscription_by_push [OF ok]]
    have "spec_by_push push_id (view (nd_store nd)) found" by simp
    with sub have "found = Some sub" unfolding spec_by_push_def by blast
    with Inr show ?thesis by simp
  qed
  with call have call: "try_store (so_subscription_by_push S push_id) nd = (Inr (Some sub), nd1)" by simp
  have "link headers REL_RECEIPT = None" by (simp add: link_def hs)
  then show ?thesis
    using i by (simp add: push_request_def and_then_def valid_id_def S call hs(1) or_invalid_def Let_def
        urgency_header_def single_def topic_def hs find_rsub_def check_vapid_def free key_reused_def)
qed

end

end
