(* ===== verification/Endpoint_Props.thy ===== *)
theory Endpoint_Props
  imports Endpoint
begin

text \<open>
  What the application server API achieves on the in-memory store: which pushes are accepted,
  what an accepted push leaves behind, message resources, and bridged user agents.
\<close>

section \<open>Push\<close>


text \<open>
  C5. An accepted push to a user agent with sessions is stored and answered with the URL of
  the stored message: 202 with the receipt subscription (the one named in the request, or a
  new one) exactly when receipts were asked for, else 201. The message has the subscription,
  body and TTL of the request, replaces only a message with the same topic, and is offered
  to the session; no other message, subscription or user agent changes.
\<close>

theorem push_stores:
  assumes S: "ap_store app = mem_store b64 ord" and ok: "mem_ok (nd_store nd, nd_world nd)"
    and req: "push_request app push_id headers body nd = (Inr p, nd1)"
    and ua: "sp_uas (mem_view (nd_store nd)) (sub_uaid (ph_sub p)) = Some ua" and plain: "ua_bridge ua = None"
  shows "\<exists>i t rsub nd'. let m = push_message p push_id i t rsub in
    push app push_id headers body nd = (Inr (accepted_response app m), nd') \<and>
    rs_status (accepted_response app m) = (if respond_async (prefer_header headers) then 202 else 201) \<and>
    (''location'', origin app @ ''/message/'' @ i) \<in> set (rs_headers (accepted_response app m)) \<and>
    m_body m = body \<and> m_channel_id m = sub_channel_id (ph_sub p) \<and>
    (\<forall>j. ph_rsub_link p = Some j \<longrightarrow> m_rsub m = Some j) \<and>
    nd_hub nd' = snd (notify (UserAgent (m_uaid m)) (Message (notification_from m)) (nd_hub nd)) \<and>
    (sp_msgs (mem_view (nd_store nd)) i = None \<longrightarrow>
       mem_ok (nd_store nd', nd_world nd') \<and>
       sp_msgs (mem_view (nd_store nd')) = sp_msgs (spec_insert_message m (mem_view (nd_store nd))) \<and>
       sp_subs (mem_view (nd_store nd')) = sp_subs (mem_view (nd_store nd)) \<and>
       sp_uas (mem_view (nd_store nd')) = sp_uas (mem_view (nd_store nd)) \<and>
       (\<forall>j. m_rsub m = Some j \<longrightarrow> sp_queues (mem_view (nd_store nd')) j \<noteq> None))"
proof -
  note facts = reliable.push_request_InrD [OF S ok req]
  obtain i t rsub nd' where
    run: "push app push_id headers body nd = (Inr (accepted_response app (push_message p push_id i t rsub)), nd')"
    and rsub: "rsub \<noteq> None \<longleftrightarrow> ph_respond_async p" "\<forall>j. ph_rsub_link p = Some j \<longrightarrow> rsub = Some j"
    and hub: "nd_hub nd' = snd (notify (UserAgent (sub_uaid (ph_sub p)))
           (Message (notification_from (push_message p push_id i t rsub))) (nd_hub nd))"
    and fresh: "sp_msgs (mem_view (nd_store nd)) i = None \<longrightarrow> mem_ok (nd_store nd', nd_world nd') \<and>
           sp_msgs (mem_view (nd_store nd')) =
             sp_msgs (spec_insert_message (push_message p push_id i t rsub) (mem_view (nd_store nd))) \<and>
           sp_subs (mem_view (nd_store nd')) = sp_subs (mem_view (nd_store nd)) \<and>
           sp_uas (mem_view (nd_store nd')) = sp_uas (mem_view (nd_store nd)) \<and>
           (\<forall>j. rsub = Some j \<longrightarrow> sp_queues (mem_view (nd_store nd')) j \<noteq> None)"
    by (rule reliable.push_effect [OF S ok req ua plain])
  have parts: "m_body (push_message p push_id i t rsub) = body"
    "m_channel_id (push_message p push_id i t rsub) = sub_channel_id (ph_sub p)"
    "m_rsub (push_message p push_id i t rsub) = rsub" "m_uaid (push_message p push_id i t rsub) = sub_uaid (ph_sub p)"
    "m_id (push_message p push_id i t rsub) = i"
    using facts(4) by (simp_all add: push_message_def)
  have status: "rs_status (accepted_response app (push_message p push_id i t rsub)) =
      (if respond_async (prefer_header headers) then 202 else 201)"
    using rsub(1) facts(7) by (auto simp: accepted_response_def parts split: option.split)
  have location: "(''location'', origin app @ ''/message/'' @ i)
      \<in> set (rs_headers (accepted_response app (push_message p push_id i t rsub)))"
    by (simp add: accepted_response_def parts message_url_def)
  show ?thesis
    unfolding Let_def
    by (rule exI [of _ i], rule exI [of _ t], rule exI [of _ rsub], rule exI [of _ nd'])
      (use run status location parts rsub(2) hub fresh in auto)
qed

section \<open>A concrete push\<close>

definition demo_subscribed :: "subscription \<times> state \<times> world" where
  "demo_subscribed = mem_create_subscription url_base64 ''u'' ''c'' None
     (mem_create_user_agent \<lparr>ua_uaid = ''u'', ua_bridge = None, ua_last_seen = 5\<rparr> new_state, demo_world_0)"

definition demo_push_node :: "state node" where
  "demo_push_node = (demo_node (fst (snd demo_subscribed)) (\<lambda>_. Lost))\<lparr>nd_world := snd (snd demo_subscribed)\<rparr>"

definition demo_headers :: header_map where
  "demo_headers = [(''ttl'', Some ''60'')]"

lemma demo_push_facts:
  "mem_ok (nd_store demo_push_node, nd_world demo_push_node)"
  "sp_subs (mem_view (nd_store demo_push_node)) (''u'', ''c'') = Some (fst demo_subscribed)"
  "sub_uaid (fst demo_subscribed) = ''u''" "sub_channel_id (fst demo_subscribed) = ''c''"
  "sub_vapid (fst demo_subscribed) = None" "is_id (sub_push (fst demo_subscribed))"
  "sp_uas (mem_view (nd_store demo_push_node)) ''u'' = Some \<lparr>ua_uaid = ''u'', ua_bridge = None, ua_last_seen = 5\<rparr>"
proof -
  let ?s = "mem_create_user_agent \<lparr>ua_uaid = ''u'', ua_bridge = None, ua_last_seen = 5\<rparr> new_state"
  have ok: "mem_ok (?s, demo_world_0)"
    using mem_ok_uas [OF mem_ok_new uas_ok_insert] by (simp add: mem_create_user_agent_def new_state_def uas_ok_def)
  obtain sub s w where run: "demo_subscribed = (sub, s, w)" by (cases demo_subscribed)
  have empty: "mem_view ?s = spec_create_user_agent \<lparr>ua_uaid = ''u'', ua_bridge = None, ua_last_seen = 5\<rparr> empty_spec"
    by (rule spec_eqI) (auto simp: mem_create_user_agent_def new_state_def spec_create_user_agent_def empty_spec_def)
  have absent: "hget (st_channels ?s) (''u'', ''c'') = None"
    by (simp add: mem_create_user_agent_def new_state_def)
  note eff = create_subscription_refines [OF ok absent run [unfolded demo_subscribed_def]]
  have "push_unused (sub_push sub) (mem_view ?s)"
    unfolding empty by (simp add: push_unused_def spec_create_user_agent_def empty_spec_def)
  from eff(5) [OF this] have after: "mem_ok (s, w)" "mem_view s = spec_create_subscription sub (mem_view ?s)" by simp_all
  have parts: "nd_store demo_push_node = s" "nd_world demo_push_node = w" "fst demo_subscribed = sub"
    by (simp_all add: demo_push_node_def demo_node_def new_node_def run)
  show "mem_ok (nd_store demo_push_node, nd_world demo_push_node)" using after(1) by (simp add: parts)
  show "sub_uaid (fst demo_subscribed) = ''u''" "sub_channel_id (fst demo_subscribed) = ''c''"
    "sub_vapid (fst demo_subscribed) = None" using eff(1-3) by (simp_all add: parts)
  then show "sp_subs (mem_view (nd_store demo_push_node)) (''u'', ''c'') = Some (fst demo_subscribed)"
    using after(2) by (simp add: parts spec_create_subscription_def)
  show "sp_uas (mem_view (nd_store demo_push_node)) ''u'' = Some \<lparr>ua_uaid = ''u'', ua_bridge = None, ua_last_seen = 5\<rparr>"
    unfolding parts(1) after(2) empty by (simp add: spec_create_subscription_def spec_create_user_agent_def)
  have "sub_push sub = fst (new_id url_base64 demo_world_0)"
    using run by (auto simp: demo_subscribed_def mem_create_subscription_def Let_def split: prod.splits)
  then show "is_id (sub_push (fst demo_subscribed))"
    using issued_ids_valid [OF url_base64_ok] by (simp add: parts)
qed

lemma demo_push_request:
  "\<exists>p nd1. push_request demo_app (sub_push (fst demo_subscribed)) demo_headers [1, 2] demo_push_node = (Inr p, nd1) \<and>
     ph_sub p = fst demo_subscribed"
proof -
  have "ttl demo_headers = Inr 60"
    by (simp add: demo_headers_def ttl_def single_def get_all_def trim_by_def trim_start_by_def trim_end_by_def
        is_ascii_digit_def less_eq_char_def parse_u64_def digits_value_def digit_value_def TTL_CEILING_value min_def)
  then show ?thesis
    using demo_push_facts
    by (intro reliable.push_request_plain [OF demo_app_simps(1)]) (simp_all add: demo_headers_def get_all_def)
qed


lemma push_stores_witness:
  "\<exists>resp nd'. push demo_app (sub_push (fst demo_subscribed)) demo_headers [1, 2] demo_push_node = (Inr resp, nd')"
proof -
  from demo_push_request obtain p nd1 where
    req: "push_request demo_app (sub_push (fst demo_subscribed)) demo_headers [1, 2] demo_push_node = (Inr p, nd1)"
    and p: "ph_sub p = fst demo_subscribed" by blast
  have ua: "sp_uas (mem_view (nd_store demo_push_node)) (sub_uaid (ph_sub p)) =
      Some \<lparr>ua_uaid = ''u'', ua_bridge = None, ua_last_seen = 5\<rparr>"
    unfolding p demo_push_facts(3) by (rule demo_push_facts(7))
  from push_stores [OF demo_app_simps(1) demo_push_facts(1) req ua] show ?thesis
    unfolding Let_def by (simp only: user_agent.simps) blast
qed

section \<open>Message resources\<close>

lemma message_response_headers:
  "fst ` set (rs_headers (message_response x m)) \<subseteq>
     {''last-modified'', ''cache-control'', ''content-type'', ''content-encoding''}"
  by (auto simp: message_response_def put_header_def Let_def split: option.splits if_splits)

lemma message_response_body: "rs_body (message_response x m) = Octets (m_body m)"
  by (simp add: message_response_def Let_def)

lemma read_message_mem:
  assumes S: "ap_store app = mem_store b64 ord"
  shows "fst (read_message app i nd) =
     (case sp_msgs (mem_view (nd_store nd)) i of
        Some m \<Rightarrow> if is_id i \<and> fst (now_ms (nd_world nd)) < m_expiry m
                  then Inr (message_response (ap_crates app) m) else Inl (of_status 404)
      | None \<Rightarrow> Inl (of_status 404))"
  by (simp add: read_message_def S memory_store_def valid_id_def and_then_def try_store_def on_store_def ok_read_def
      mem_message_def on_world_def case_prod_beta split: option.split)

lemma delete_message_mem:
  assumes ok: "mem_ok (nd_store nd, nd_world nd)"
  shows "try_store (so_delete_message (mem_store b64 ord) i owner) nd =
      (Inr (fst (mem_delete_message i owner (nd_store nd))),
       nd\<lparr>nd_store := snd (mem_delete_message i owner (nd_store nd))\<rparr>)"
    and "mem_ok (snd (mem_delete_message i owner (nd_store nd)), nd_world nd)"
    and "(fst (mem_delete_message i owner (nd_store nd)), mem_view (snd (mem_delete_message i owner (nd_store nd)))) =
      spec_delete_message i owner (mem_view (nd_store nd))"
  using mem.delete_message [OF ok, of b64 ord i owner]
  by (simp_all add: memory_store_def try_store_def on_store_def ok_write_def gives_ok case_prod_beta)

text \<open>
  A message that has expired and is not reaped yet can no longer be read, and is withdrawn all
  the same: the answer is 204, and the receipt of its expiry is never owed.
\<close>

lemma expired_withdrawn:
  assumes S: "ap_store app = mem_store b64 ord" and ok: "mem_ok (nd_store nd, nd_world nd)"
    and m: "is_id i" "sp_msgs (mem_view (nd_store nd)) i = Some m" "m_expiry m \<le> fst (now_ms (nd_world nd))"
  shows "fst (read_message app i nd) = Inl (of_status 404)"
    and "\<exists>nd'. withdraw_message app i nd = (Inr (status_response 204), nd') \<and>
      mem_view (nd_store nd') = (mem_view (nd_store nd))\<lparr>sp_msgs := (sp_msgs (mem_view (nd_store nd)))(i := None)\<rparr>"
proof -
  show "fst (read_message app i nd) = Inl (of_status 404)" using m by (simp add: read_message_mem [OF S])
  have "fst (mem_delete_message i None (nd_store nd)) = Some m"
    and "mem_view (snd (mem_delete_message i None (nd_store nd))) =
      (mem_view (nd_store nd))\<lparr>sp_msgs := (sp_msgs (mem_view (nd_store nd)))(i := None)\<rparr>"
    using delete_message_mem(3) [OF ok, of i None] m(2) by (simp_all add: spec_delete_message_def permits_def)
  then show "\<exists>nd'. withdraw_message app i nd = (Inr (status_response 204), nd') \<and>
      mem_view (nd_store nd') = (mem_view (nd_store nd))\<lparr>sp_msgs := (sp_msgs (mem_view (nd_store nd)))(i := None)\<rparr>"
    by (simp add: withdraw_message_def and_then_def S delete_message_mem(1) [OF ok] valid_id_def m(1))
qed



section \<open>Bridged user agents\<close>

context reliable_store
begin

lemma delete_user_agent_call:
  assumes S: "ap_store app = S" and ok: "node_ok nd" and room: "room_for view (nd_store nd, nd_world nd)"
  shows "\<exists>nd'. bridge_failure app u TokenGone nd = (of_status 410, nd') \<and> node_ok nd' \<and>
    nd_sends nd' = nd_sends nd \<and>
    sp_uas (view (nd_store nd')) = (sp_uas (view (nd_store nd)))(u := None) \<and>
    sp_subs (view (nd_store nd')) = (\<lambda>k. if fst k = u then None else sp_subs (view (nd_store nd)) k) \<and>
    map_le (sp_msgs (view (nd_store nd'))) (sp_msgs (view (nd_store nd)))"
proof -
  from on_store_ex [OF ua_returns(5) delete_user_agent [OF ok room, of u], unfolded fst_conv snd_conv]
  obtain rs s w where all: "on_store (so_delete_user_agent S u) nd = (Inr rs, nd\<lparr>nd_store := s, nd_world := w\<rparr>) \<and>
      inv (s, w) \<and> room_for view (s, w) \<and>
      (\<exists>gone. spec_removal gone (view (nd_store nd)) (wl_last (nd_world nd)) rs (view s) (wl_last w) \<and>
         (\<forall>m. gone m \<longrightarrow> m_uaid m = u) \<and>
         (\<forall>m. m_uaid m = u \<and> sp_subs (view (nd_store nd)) (u, m_channel_id m) \<noteq> None \<longrightarrow> gone m)) \<and>
      sp_uas (view s) = (sp_uas (view (nd_store nd)))(u := None) \<and>
      sp_subs (view s) = (\<lambda>k. if fst k = u then None else sp_subs (view (nd_store nd)) k)"
    by (elim exE)
  then have call: "on_store (so_delete_user_agent S u) nd = (Inr rs, nd\<lparr>nd_store := s, nd_world := w\<rparr>)"
    and eff: "inv (s, w)" "\<exists>gone. spec_removal gone (view (nd_store nd)) (wl_last (nd_world nd)) rs (view s) (wl_last w)"
      "sp_uas (view s) = (sp_uas (view (nd_store nd)))(u := None)"
      "sp_subs (view s) = (\<lambda>k. if fst k = u then None else sp_subs (view (nd_store nd)) k)"
    by blast+
  define nd1 where "nd1 = nd\<lparr>nd_store := s, nd_world := w\<rparr>"
  have ok1: "node_ok nd1" using eff by (simp add: nd1_def)
  from receipts_only_routes [OF S ok1] have told: "node_ok (notify_receipts app rs nd1)"
    "only_routes view nd1 (notify_receipts app rs nd1)" by simp_all
  have run: "bridge_failure app u TokenGone nd = (of_status 410, notify_receipts app rs nd1)"
    by (simp add: bridge_failure_def S call nd1_def)
  have "map_le (sp_msgs (view s)) (sp_msgs (view (nd_store nd)))"
    using eff(2) by (auto simp: spec_removal_def spec_discard_def map_le_def split: option.splits if_splits)
  moreover from told(2) have "sp_msgs (view (nd_store (notify_receipts app rs nd1))) = sp_msgs (view s)"
    "sp_uas (view (nd_store (notify_receipts app rs nd1))) = sp_uas (view s)"
    "sp_subs (view (nd_store (notify_receipts app rs nd1))) = sp_subs (view s)"
    "nd_sends (notify_receipts app rs nd1) = nd_sends nd"
    by (simp_all add: only_routes_def nd1_def)
  ultimately show ?thesis using run told(1) eff(3,4) by auto
qed

end

text \<open>
  C15. A message for a bridged user agent is never stored, and goes to its bridge once. The
  answer is 201 exactly when the platform took it; a failure maps to one status, and the
  user agent is deleted, with its subscriptions, exactly when the platform says its token is
  gone.
\<close>

theorem bridge_push_outcome:
  assumes S: "ap_store app = mem_store b64 ord" and ok: "mem_ok (nd_store nd, nd_world nd)"
    and room: "room_for mem_view (nd_store nd, nd_world nd)"
    and b: "hget (ap_bridges app) (ba_bridge to) = Some b"
    and run: "bridge_push app p to nd = (r, nd')"
  shows "\<exists>i. let sent = br_send b (nd_sends nd) \<lparr>ad_app_id = ba_app_id to, ad_token = ba_token to\<rparr> (bridge_message p i)
    in nd_sends nd' = Suc (nd_sends nd) \<and>
      map_le (sp_msgs (mem_view (nd_store nd'))) (sp_msgs (mem_view (nd_store nd))) \<and>
      r = (case sent of
             Inr _ \<Rightarrow> Inr (bridged_response app p i)
           | Inl TokenGone \<Rightarrow> Inl (of_status 410)
           | Inl PayloadTooLarge \<Rightarrow> Inl (of_status 413)
           | Inl (Throttled after) \<Rightarrow> Inl (retry_after 429 after)
           | Inl _ \<Rightarrow> Inl (of_status 502)) \<and>
      (if sent = Inl TokenGone
       then sp_uas (mem_view (nd_store nd')) = (sp_uas (mem_view (nd_store nd)))(sub_uaid (ph_sub p) := None) \<and>
         sp_subs (mem_view (nd_store nd')) =
           (\<lambda>k. if fst k = sub_uaid (ph_sub p) then None else sp_subs (mem_view (nd_store nd)) k)
       else nd_store nd' = nd_store nd)"
proof -
  obtain i w where draw: "new_id (ex_b64 (ap_crates app)) (nd_world nd) = (i, w)" by fastforce
  let ?sent = "br_send b (nd_sends nd) \<lparr>ad_app_id = ba_app_id to, ad_token = ba_token to\<rparr> (bridge_message p i)"
  define nd1 where "nd1 = nd\<lparr>nd_world := w, nd_sends := Suc (nd_sends nd)\<rparr>"
  have nd1: "nd_store nd1 = nd_store nd" "nd_sends nd1 = Suc (nd_sends nd)" by (simp_all add: nd1_def)
  have ok1: "mem_ok (nd_store nd1, nd_world nd1)"
    using mem_ok_world [OF ok world_le_new_id [OF draw]] by (simp add: nd1_def)
  have room1: "room_for mem_view (nd_store nd1, nd_world nd1)"
    using room draw by (auto simp: nd1_def room_for_def seq_room_def new_id_def random_bytes_def)
  have run1: "bridge_push app p to nd = (case ?sent of
        Inl e \<Rightarrow> (case bridge_failure app (sub_uaid (ph_sub p)) e nd1 of (err, nd2) \<Rightarrow> (Inl err, nd2))
      | Inr _ \<Rightarrow> (Inr (bridged_response app p i), nd1))"
    unfolding nd1_def by (cases ?sent) (simp_all add: bridge_push_def b and_then_def on_world_def draw Let_def)
  show ?thesis
  proof (cases "?sent = Inl TokenGone")
    case True
    from reliable.delete_user_agent_call [OF S ok1 room1, of "sub_uaid (ph_sub p)"] obtain nd2 where
      gone: "bridge_failure app (sub_uaid (ph_sub p)) TokenGone nd1 = (of_status 410, nd2)"
        "sp_uas (mem_view (nd_store nd2)) = (sp_uas (mem_view (nd_store nd1)))(sub_uaid (ph_sub p) := None)"
        "sp_subs (mem_view (nd_store nd2)) =
          (\<lambda>k. if fst k = sub_uaid (ph_sub p) then None else sp_subs (mem_view (nd_store nd1)) k)"
        "map_le (sp_msgs (mem_view (nd_store nd2))) (sp_msgs (mem_view (nd_store nd1)))" "nd_sends nd2 = nd_sends nd1"
      by blast
    from run run1 True gone(1) have "r = Inl (of_status 410)" "nd' = nd2" by simp_all
    with gone True nd1 show ?thesis by (intro exI [of _ i]) (simp only: Let_def, simp)
  next
    case False
    have "r = (case ?sent of
             Inr _ \<Rightarrow> Inr (bridged_response app p i)
           | Inl TokenGone \<Rightarrow> Inl (of_status 410)
           | Inl PayloadTooLarge \<Rightarrow> Inl (of_status 413)
           | Inl (Throttled after) \<Rightarrow> Inl (retry_after 429 after)
           | Inl _ \<Rightarrow> Inl (of_status 502)) \<and> nd' = nd1"
      using run run1 False by (cases ?sent) (auto simp: bridge_failure_def split: bridge_error.splits)
    with False nd1 show ?thesis by (intro exI [of _ i]) (simp only: Let_def, simp)
  qed
qed

definition demo_bridge :: bridge where
  "demo_bridge = \<lparr>br_name = ''fcm'', br_has_app = \<lambda>_. True, br_send = \<lambda>_ _ _. Inl TokenGone\<rparr>"

definition demo_bridged_app :: "state app" where
  "demo_bridged_app = demo_app\<lparr>ap_bridges := [(''fcm'', demo_bridge)]\<rparr>"

definition demo_push :: valid_push where
  "demo_push = \<lparr>ph_sub = fst demo_subscribed, ph_ttl = 60, ph_urgency = Normal, ph_topic = None,
     ph_respond_async = False, ph_rsub_link = None, ph_ctype = None, ph_cenc = None, ph_body = [1]\<rparr>"

lemma bridge_push_outcome_witness:
  "let (r, nd') = bridge_push demo_bridged_app demo_push \<lparr>ba_bridge = ''fcm'', ba_app_id = ''a'', ba_token = ''t''\<rparr> demo_push_node
   in r = Inl (of_status 410) \<and> sp_uas (mem_view (nd_store nd')) ''u'' = None"
proof -
  obtain r nd' where run: "bridge_push demo_bridged_app demo_push \<lparr>ba_bridge = ''fcm'', ba_app_id = ''a'', ba_token = ''t''\<rparr>
      demo_push_node = (r, nd')" by fastforce
  have S: "ap_store demo_bridged_app = mem_store url_base64 (Abs_ordering forward_order)"
    by (simp add: demo_bridged_app_def demo_app_simps)
  have "st_messages (nd_store demo_push_node) = []"
    by (simp add: demo_push_node_def demo_node_def new_node_def demo_subscribed_def mem_create_subscription_def
        mem_create_user_agent_def new_state_def Let_def case_prod_beta)
  moreover have "wl_last (nd_world demo_push_node) = 0" "wl_clock (nd_world demo_push_node) k = 1000" for k
    by (simp_all add: demo_push_node_def demo_subscribed_def mem_create_subscription_def Let_def case_prod_beta
        new_id_def random_bytes_def demo_world_0_def)
  ultimately have room: "room_for mem_view (nd_store demo_push_node, nd_world demo_push_node)"
    by (simp add: room_for_def seq_room_def dom_def)
  have "hget (ap_bridges demo_bridged_app) ''fcm'' = Some demo_bridge"
    by (simp add: demo_bridged_app_def hget_def)
  then have b: "hget (ap_bridges demo_bridged_app)
      (ba_bridge \<lparr>ba_bridge = ''fcm'', ba_app_id = ''a'', ba_token = ''t''\<rparr>) = Some demo_bridge" by simp
  from bridge_push_outcome [OF S demo_push_facts(1) room b run]
  show ?thesis
    using run by (auto simp: demo_bridge_def demo_push_def demo_push_facts(3) Let_def)
qed

end
