(* ===== verification/Subscription.thy ===== *)
theory Subscription
  imports Base64_Url Memory_Contract
begin

text \<open>
  \<open>crates/webpush-server/src/subscription.rs\<close>: creating subscriptions, shared by the
  WebSocket \<open>register\<close> message and the registration API. \<open>p256::PublicKey::from_sec1_bytes\<close>
  is the parameter \<open>point\<close>: which octets are a point on P-256.
\<close>

section \<open>Definitions\<close>

datatype registered = Created subscription | Existing subscription | Conflict

definition register_subscription ::
  "'s store \<Rightarrow> string \<Rightarrow> string \<Rightarrow> byte list option \<Rightarrow> ('s, registered) store_op" where
  "register_subscription S uaid channel_id vapid =
     and_then (so_channel S uaid channel_id) (\<lambda>r.
       case r of
         Some sub \<Rightarrow> ret (if sub_vapid sub = vapid then Existing sub else Conflict)
       | None \<Rightarrow> and_then (so_create_subscription S uaid channel_id vapid) (\<lambda>sub. ret (Created sub)))"

definition channel_id :: "string \<Rightarrow> string option" where
  "channel_id s =
     (let valid = length s = 36 \<and>
            list_all (\<lambda>(i, b). if i \<in> {8, 13, 18, 23} then b = CHR ''-'' else is_ascii_hexdigit b)
              (zip [0..<length s] s)
      in if valid then Some (to_ascii_lowercase s) else None)"

definition vapid_key :: "base64 \<Rightarrow> (byte list \<Rightarrow> bool) \<Rightarrow> string \<Rightarrow> byte list option" where
  "vapid_key b64 point s =
     (case b64_decode b64 (trim_end_by (\<lambda>c. c = CHR ''='') s) of
        None \<Rightarrow> None
      | Some key \<Rightarrow> if length key = 65 \<and> hd key = 4 \<and> point key then Some key else None)"

section \<open>Channel ids\<close>

lemma lower_char_cases: "is_ascii_upper c \<Longrightarrow> to_ascii_lower_char c = char_of (of_char c + 32 :: nat) \<and>
    (of_char (to_ascii_lower_char c) :: nat) = of_char c + 32"
  by (auto simp: to_ascii_lower_char_def is_ascii_upper_def less_eq_char_def)

lemma lower_not_upper: "\<not> is_ascii_upper (to_ascii_lower_char c)"
proof (cases "is_ascii_upper c")
  case True
  with lower_char_cases [OF True] show ?thesis by (auto simp: is_ascii_upper_def less_eq_char_def)
qed (simp add: to_ascii_lower_char_def)

lemma lower_idem [simp]: "to_ascii_lower_char (to_ascii_lower_char c) = to_ascii_lower_char c"
  using lower_not_upper [of c] by (simp add: to_ascii_lower_char_def [of "to_ascii_lower_char c"])

lemma lower_hexdigit: "is_ascii_hexdigit (to_ascii_lower_char c) \<longleftrightarrow> is_ascii_hexdigit c"
proof (cases "is_ascii_upper c")
  case True
  with lower_char_cases [OF True] show ?thesis
    by (auto simp: is_ascii_hexdigit_def is_ascii_digit_def is_ascii_upper_def less_eq_char_def)
qed (simp add: to_ascii_lower_char_def)

lemma lower_hyphen: "to_ascii_lower_char c = CHR ''-'' \<longleftrightarrow> c = CHR ''-''"
proof (cases "is_ascii_upper c")
  case True
  with lower_char_cases [OF True] have "(of_char (to_ascii_lower_char c) :: nat) \<noteq> 45"
    by (auto simp: is_ascii_upper_def less_eq_char_def)
  moreover from True have "(of_char c :: nat) \<noteq> 45" by (auto simp: is_ascii_upper_def less_eq_char_def)
  ultimately show ?thesis by auto
qed (simp add: to_ascii_lower_char_def)

lemma channel_id_lower: "channel_id (to_ascii_lowercase s) = channel_id s"
proof -
  have "list_all (\<lambda>(i, b). if i \<in> {8, 13, 18, 23} then b = CHR ''-'' else is_ascii_hexdigit b)
      (zip [0..<length s] (map to_ascii_lower_char s)) =
    list_all (\<lambda>(i, b). if i \<in> {8, 13, 18, 23} then b = CHR ''-'' else is_ascii_hexdigit b)
      (zip [0..<length s] s)"
    by (simp add: list_all_length lower_hexdigit lower_hyphen cong: if_cong)
  moreover have "map to_ascii_lower_char (map to_ascii_lower_char s) = map to_ascii_lower_char s" by simp
  ultimately show ?thesis
    unfolding channel_id_def to_ascii_lowercase_def Let_def length_map by (simp only:)
qed

text \<open>
  Channel ids are compared without regard to case: two strings that differ only in case
  are the same channel or both no channel, the normalized id is itself a channel id, is
  36 octets long without capitals, and equals what the client sent up to case.
\<close>

theorem channel_id_canonical:
  "(eq_ignore_ascii_case s s' \<longrightarrow> channel_id s = channel_id s') \<and>
   (\<forall>c. channel_id s = Some c \<longrightarrow>
      channel_id c = Some c \<and> length c = 36 \<and> eq_ignore_ascii_case c s \<and> \<not> list_ex is_ascii_upper c)"
proof -
  have "channel_id s = channel_id s'" if "eq_ignore_ascii_case s s'"
    using that channel_id_lower [of s] channel_id_lower [of s'] by (simp add: eq_ignore_ascii_case_def)
  moreover have "channel_id c = Some c \<and> length c = 36 \<and> eq_ignore_ascii_case c s \<and> \<not> list_ex is_ascii_upper c"
    if c: "channel_id s = Some c" for c
  proof -
    from c have "c = to_ascii_lowercase s" and "length s = 36"
      by (auto simp: channel_id_def Let_def split: if_splits)
    with c channel_id_lower [of s] lower_not_upper show ?thesis
      by (auto simp: to_ascii_lowercase_def eq_ignore_ascii_case_def list_ex_iff)
  qed
  ultimately show ?thesis by blast
qed

lemma channel_id_canonical_witness:
  "channel_id ''D9B74644-4F97-46AA-B8FA-9393985CD6CD'' = channel_id ''d9b74644-4f97-46aa-b8fa-9393985cd6cd''"
proof -
  have "eq_ignore_ascii_case ''D9B74644-4F97-46AA-B8FA-9393985CD6CD'' ''d9b74644-4f97-46aa-b8fa-9393985cd6cd''"
    by code_simp
  with channel_id_canonical show ?thesis by blast
qed

section \<open>Registration is idempotent\<close>

context owner_store
begin

lemma register_Created:
  assumes "inv sw" and "register_subscription S u c v sw = (Inr (Created sub), sw')"
  shows "sp_subs (view (fst sw)) (u, c) = None \<and> sub_uaid sub = u \<and> sub_channel_id sub = c \<and> sub_vapid sub = v \<and>
    (push_unused (sub_push sub) (view (fst sw)) \<longrightarrow> inv sw' \<and>
       view (fst sw') = spec_create_subscription sub (view (fst sw)))"
proof -
  from assms(2) obtain r sw1 where r: "so_channel S u c sw = (Inr r, sw1)"
    and rest: "(case r of Some sub \<Rightarrow> ret (if sub_vapid sub = v then Existing sub else Conflict)
       | None \<Rightarrow> and_then (so_create_subscription S u c v) (\<lambda>sub. ret (Created sub))) sw1 = (Inr (Created sub), sw')"
    by (auto simp: register_subscription_def and_then_eqs)
  note ch = givesD [OF channel [OF assms(1)] r]
  have "r = None" using rest by (cases r) (auto split: if_splits)
  with rest have new: "so_create_subscription S u c v sw1 = (Inr sub, sw')"
    by (auto simp: and_then_eqs)
  have inv1: "inv sw1" and none: "sp_subs (view (fst sw1)) (u, c) = None"
    using ch \<open>r = None\<close> by auto
  from givesD [OF create_subscription [OF inv1 none] new] ch \<open>r = None\<close> show ?thesis by auto
qed

lemma register_again:
  assumes "inv sw" and "sp_subs (view (fst sw)) (u, c) = Some sub"
    and "register_subscription S u c v sw = (Inr r, sw')"
  shows "r = (if sub_vapid sub = v then Existing sub else Conflict) \<and> view (fst sw') = view (fst sw) \<and> inv sw'"
proof -
  from assms(3) obtain r1 sw1 where r1: "so_channel S u c sw = (Inr r1, sw1)"
    and rest: "(case r1 of Some sub \<Rightarrow> ret (if sub_vapid sub = v then Existing sub else Conflict)
       | None \<Rightarrow> and_then (so_create_subscription S u c v) (\<lambda>sub. ret (Created sub))) sw1 = (Inr r, sw')"
    by (auto simp: register_subscription_def and_then_eqs)
  from givesD [OF channel [OF assms(1)] r1] assms(2) rest show ?thesis by auto
qed

end

text \<open>
  Registering a channel is idempotent: after it created a subscription, registering it
  again with the same key returns that subscription and changes nothing, and with another
  key is a conflict that changes nothing.
\<close>

theorem register_idempotent:
  assumes "mem_ok sw" and "register_subscription (mem_store b64 ord) u c v sw = (Inr (Created sub), sw')"
    and "push_unused (sub_push sub) (mem_view (fst sw))"
    and "register_subscription (mem_store b64 ord) u c v' sw' = (Inr r, sw'')"
  shows "r = (if v' = v then Existing sub else Conflict) \<and> mem_view (fst sw'') = mem_view (fst sw') \<and>
    mem_channel u c (fst sw') = Some sub"
proof -
  from mem.register_Created [OF assms(1,2)] assms(3)
  have ok': "mem_ok sw'" and sub: "sub_uaid sub = u" "sub_channel_id sub = c" "sub_vapid sub = v"
    and view: "mem_view (fst sw') = spec_create_subscription sub (mem_view (fst sw))" by auto
  have stored: "sp_subs (mem_view (fst sw')) (u, c) = Some sub"
    unfolding view using sub by (simp add: spec_create_subscription_def)
  from mem.register_again [OF ok' stored assms(4)] stored sub show ?thesis
    by (auto simp: mem_channel_def)
qed

lemma register_idempotent_witness:
  "\<exists>sub sw' sw''. register_subscription (mem_store url_base64 (Abs_ordering forward_order)) ''u'' ''c'' None
       (new_state, \<lparr>wl_clock = \<lambda>_. 1000, wl_reads = 0, wl_entropy = \<lambda>_ _. 0, wl_draws = 0, wl_last = 0\<rparr>) =
       (Inr (Created sub), sw') \<and>
     register_subscription (mem_store url_base64 (Abs_ordering forward_order)) ''u'' ''c'' None sw' =
       (Inr (Existing sub), sw'')"
proof -
  let ?S = "mem_store url_base64 (Abs_ordering forward_order)"
  let ?w = "\<lparr>wl_clock = \<lambda>_. 1000, wl_reads = 0, wl_entropy = \<lambda>_ _. 0, wl_draws = 0, wl_last = 0\<rparr> :: world"
  have total: "\<exists>r sw'. register_subscription ?S ''u'' ''c'' None sw = (Inr r, sw')" for sw
    by (simp add: register_subscription_def memory_store_def and_then_def ok_read_def ok_step_def
        case_prod_beta Let_def split: option.split)
  obtain sub sw' where first: "register_subscription ?S ''u'' ''c'' None (new_state, ?w) = (Inr (Created sub), sw')"
    by (simp add: register_subscription_def memory_store_def and_then_def ok_read_def ok_step_def
        mem_channel_def new_state_def case_prod_beta)
  obtain r sw'' where again: "register_subscription ?S ''u'' ''c'' None sw' = (Inr r, sw'')"
    using total by blast
  have "push_unused (sub_push sub) (mem_view (fst (new_state, ?w)))"
    by (simp add: push_unused_def new_state_def)
  from register_idempotent [OF mem_ok_new first this again] first again show ?thesis by auto
qed

end
