(* ===== verification/Session.thy ===== *)
theory Session
  imports Notify Subscription Headers
begin

text \<open>
  \<open>crates/webpush-server/src/session.rs\<close>: one user agent's session over WebSocket. The
  session threads its own state, the socket and the node (record \<open>session\<close>); JSON text is
  \<open>serde_json\<close>'s, and when the socket, the timers and the other tasks of the node act is
  the run's input.
\<close>

section \<open>Messages and frames\<close>

record ack_update =
  au_channel_id :: string
  au_version :: string
  au_code :: "u16 option"

datatype client_message =
    Hello "string option"
  | Register string "string option"
  | Unregister string
  | Ack "ack_update list"
  | Nack
  | BroadcastSubscribe
  | PingMessage

datatype frame = Text string | Binary "byte list" | Ping | Pong | Close "(u16 \<times> string) option"

text \<open>
  \<open>sv_json\<close> is \<open>serde_json::from_str\<close>, \<open>sv_client\<close> the derived \<open>from_value\<close> of
  \<open>ClientMessage\<close>, \<open>sv_text\<close> the text of a value; \<open>sv_sends k\<close> says whether the \<open>k\<close>-th
  frame handed to the socket is sent, \<open>sv_instant k\<close> is the \<open>k\<close>-th reading of the monotonic
  clock.
\<close>

record session_env =
  sv_json :: "string \<Rightarrow> json option"
  sv_client :: "json \<Rightarrow> client_message option"
  sv_text :: "json \<Rightarrow> string"
  sv_sends :: "nat \<Rightarrow> bool"
  sv_instant :: "nat \<Rightarrow> nat"

definition parse :: "session_env \<Rightarrow> string \<Rightarrow> client_message option" where
  "parse env txt =
     (case sv_json env txt of
        None \<Rightarrow> None
      | Some v \<Rightarrow> if v = JObject [] then Some PingMessage else sv_client env v)"

definition TOUCH_INTERVAL :: duration where
  "TOUCH_INTERVAL = from_secs (6 * 3600)"

section \<open>The socket\<close>

record socket =
  sk_out :: "frame list"
  sk_attempts :: nat

definition new_socket :: socket where
  "new_socket = \<lparr>sk_out = [], sk_attempts = 0\<rparr>"

definition socket_send :: "session_env \<Rightarrow> frame \<Rightarrow> (socket, box_error, unit) act" where
  "socket_send env f sk =
     (let k = sk_attempts sk; sk = sk\<lparr>sk_attempts := Suc k\<rparr>
      in if sv_sends env k then (Inr (), sk\<lparr>sk_out := sk_out sk @ [f]\<rparr>)
         else (Inl (BoxError ''connection closed''), sk))"

definition close_socket :: "session_env \<Rightarrow> u16 \<Rightarrow> string \<Rightarrow> (socket, box_error, unit) act" where
  "close_socket env code reason sk =
     (case socket_send env (Close (Some (code, reason))) sk of (_, sk) \<Rightarrow> (Inr (), sk))"

section \<open>Session state\<close>

record 's session =
  ss_node :: "'s node"
  ss_socket :: socket
  ss_reads :: nat
  ss_uaid :: string
  ss_stored :: bool
  ss_sent :: "string set"
  ss_unacked :: "string set"
  ss_more :: bool
  ss_heard :: nat
  ss_touched :: nat

type_synonym ('s, 'a) session_act = "('s session, box_error, 'a) act"

definition on_node :: "('s node, box_error, 'a) act \<Rightarrow> ('s, 'a) session_act" where
  "on_node f s = (case f (ss_node s) of (r, nd) \<Rightarrow> (r, s\<lparr>ss_node := nd\<rparr>))"

definition on_socket :: "(socket, box_error, 'a) act \<Rightarrow> ('s, 'a) session_act" where
  "on_socket f s = (case f (ss_socket s) of (r, sk) \<Rightarrow> (r, s\<lparr>ss_socket := sk\<rparr>))"

definition instant_now :: "session_env \<Rightarrow> ('s, nat) session_act" where
  "instant_now env s = (Inr (sv_instant env (ss_reads s)), s\<lparr>ss_reads := Suc (ss_reads s)\<rparr>)"

text \<open>An assignment to fields of the session.\<close>

definition modify :: "('s session \<Rightarrow> 's session) \<Rightarrow> ('s, unit) session_act" where
  "modify f s = (Inr (), f s)"

definition send_text :: "session_env \<Rightarrow> string \<Rightarrow> ('s, unit) session_act" where
  "send_text env txt = on_socket (socket_send env (Text txt))"

definition send :: "session_env \<Rightarrow> json \<Rightarrow> ('s, unit) session_act" where
  "send env v = send_text env (sv_text env v)"

definition close :: "session_env \<Rightarrow> u16 \<Rightarrow> string \<Rightarrow> ('s, unit) session_act" where
  "close env code reason = on_socket (close_socket env code reason)"

section \<open>Delivering messages\<close>

definition notification_json :: "base64 \<Rightarrow> notification \<Rightarrow> json" where
  "notification_json b64 n =
     JObject ([(''messageType'', JString ''notification''), (''channelID'', JString (n_channel_id n)),
       (''version'', JString (n_id n))] @
       (if n_body n = [] then [] else [(''data'', JString (b64_encode b64 (n_body n)))]) @
       (case n_encoding n of None \<Rightarrow> []
        | Some encoding \<Rightarrow> [(''headers'', JObject [(''encoding'', JString encoding)])]))"

definition session_notify :: "session_env \<Rightarrow> 's app \<Rightarrow> notification \<Rightarrow> ('s, bool) session_act" where
  "session_notify env app n s =
     (if n_id n \<in> ss_sent s then (Inr False, s)
      else and_then (modify (\<lambda>s. s\<lparr>ss_sent := insert (n_id n) (ss_sent s),
               ss_unacked := insert (n_id n) (ss_unacked s)\<rparr>)) (\<lambda>_.
           and_then (send env (notification_json (ex_b64 (ap_crates app)) n)) (\<lambda>_. ret True)) s)"

fun notify_all :: "session_env \<Rightarrow> 's app \<Rightarrow> message list \<Rightarrow> nat \<Rightarrow> ('s, nat) session_act" where
  "notify_all env app [] new = ret new"
| "notify_all env app (m # ms) new =
     and_then (session_notify env app (notification_from m)) (\<lambda>sent_now.
       notify_all env app ms (if sent_now then new + 1 else new))"

definition backlog_batch :: "'s app \<Rightarrow> nat" where
  "backlog_batch app = unat (ws_backlog_batch (cf_websocket (ap_cfg app)))"

definition next_batch :: "session_env \<Rightarrow> 's app \<Rightarrow> ('s, unit) session_act" where
  "next_batch env app s =
     and_then (on_node (on_world now_ms)) (\<lambda>now.
     and_then (on_node (on_store (so_pending (ap_store app) (ss_uaid s) now (backlog_batch app)))) (\<lambda>pending.
     and_then (modify (\<lambda>s. s\<lparr>ss_more := (length pending = backlog_batch app)\<rparr>)) (\<lambda>_.
     and_then (notify_all env app pending 0) (\<lambda>new.
       modify (\<lambda>s. if new = 0 then s\<lparr>ss_more := False\<rparr> else s))))) s"

section \<open>Client messages\<close>

definition ack_status :: "u16 option \<Rightarrow> u16 option" where
  "ack_status code =
     (let c = (case code of None \<Rightarrow> 100 | Some c \<Rightarrow> c)
      in if c = 100 then Some 204 else if c = 101 \<or> c = 102 then Some 410 else None)"

definition ack :: "session_env \<Rightarrow> 's app \<Rightarrow> ack_update \<Rightarrow> ('s, unit) session_act" where
  "ack env app update s =
     (let s = s\<lparr>ss_unacked := ss_unacked s - {au_version update}\<rparr>
      in case ack_status (au_code update) of
           None \<Rightarrow> (Inr (), s)
         | Some status \<Rightarrow>
             (case channel_id (au_channel_id update) of
                None \<Rightarrow> (Inr (), s)
              | Some ch \<Rightarrow>
                  if \<not> is_id (au_version update) then (Inr (), s)
                  else and_then (on_node (on_store (so_delete_message (ap_store app) (au_version update)
                           (Some (ss_uaid s, ch))))) (\<lambda>found.
                         case found of None \<Rightarrow> ret () | Some m \<Rightarrow> on_node (owe_receipt app m status)) s))"

fun ack_all :: "session_env \<Rightarrow> 's app \<Rightarrow> ack_update list \<Rightarrow> ('s, unit) session_act" where
  "ack_all env app [] = ret ()"
| "ack_all env app (u # us) = and_then (ack env app u) (\<lambda>_. ack_all env app us)"

definition register_reply :: "string \<Rightarrow> u64 \<Rightarrow> (string \<times> json) list" where
  "register_reply channel status =
     [(''messageType'', JString ''register''), (''channelID'', JString channel), (''status'', JNumber (Some status))]"

definition registered_reply :: "'s app \<Rightarrow> string \<Rightarrow> registered \<Rightarrow> json" where
  "registered_reply app channel r =
     (let ok = (\<lambda>sub. JObject (register_reply channel 200 @
            [(''pushEndpoint'', JString (origin app @ ''/push/'' @ sub_push sub))]))
      in case r of Created sub \<Rightarrow> ok sub | Existing sub \<Rightarrow> ok sub
         | Conflict \<Rightarrow> JObject (register_reply channel 409))"

text \<open>The user agent is stored on its first \<open>register\<close>.\<close>

definition store_first :: "'s app \<Rightarrow> ('s, unit) session_act" where
  "store_first app s =
     (if ss_stored s then ret ()
      else and_then (on_node (on_world now_ms)) (\<lambda>now.
           and_then (on_node (on_store (so_create_user_agent (ap_store app)
             \<lparr>ua_uaid = ss_uaid s, ua_bridge = None, ua_last_seen = now\<rparr>))) (\<lambda>_.
           modify (\<lambda>s. s\<lparr>ss_stored := True\<rparr>)))) s"

definition session_register :: "'s app \<Rightarrow> string \<Rightarrow> string option \<Rightarrow> ('s, json) session_act" where
  "session_register app channel key s =
     (case channel_id channel of
        None \<Rightarrow> ret (JObject (register_reply channel 400))
      | Some ch \<Rightarrow>
          let register_with = (\<lambda>vapid.
                and_then (store_first app) (\<lambda>_.
                and_then (on_node (on_store (register_subscription (ap_store app) (ss_uaid s) ch vapid))) (\<lambda>r.
                ret (registered_reply app channel r))))
          in case key of
               None \<Rightarrow> register_with None
             | Some k \<Rightarrow>
                 (case vapid_key (ex_b64 (ap_crates app)) (ex_point (ap_crates app)) k of
                    None \<Rightarrow> ret (JObject (register_reply channel 400))
                  | Some k \<Rightarrow> register_with (Some k))) s"

definition session_unregister :: "session_env \<Rightarrow> 's app \<Rightarrow> string \<Rightarrow> ('s, unit) session_act" where
  "session_unregister env app channel s =
     and_then (case channel_id channel of
         None \<Rightarrow> ret ()
       | Some ch \<Rightarrow>
           if ss_stored s
           then and_then (on_node (on_store (so_delete_subscription (ap_store app) (ss_uaid s) ch))) (\<lambda>receipts.
                on_node (run_all (notify_receipts app receipts)))
           else ret ()) (\<lambda>_.
       send env (JObject [(''messageType'', JString ''unregister''), (''channelID'', JString channel),
         (''status'', JNumber (Some 200))])) s"

fun handle :: "session_env \<Rightarrow> 's app \<Rightarrow> client_message \<Rightarrow> ('s, unit) session_act" where
  "handle env app (Hello _) = close env 1002 ''duplicate hello''"
| "handle env app (Register channel key) =
     and_then (session_register app channel key) (\<lambda>reply. send env reply)"
| "handle env app (Unregister channel) = session_unregister env app channel"
| "handle env app (Ack updates) =
     and_then (ack_all env app updates) (\<lambda>_ s.
       if ss_unacked s = {} \<and> ss_more s then next_batch env app s else (Inr (), s))"
| "handle env app PingMessage = send_text env ''{}''"
| "handle env app Nack = ret ()"
| "handle env app BroadcastSubscribe = ret ()"

section \<open>The session loop\<close>

datatype step = FrameStep "(box_error + frame) option" | EventStep "event option" | TickStep | StopStep
  | ExpiredStep

text \<open>Closing and returning: the loop ends.\<close>

definition leave :: "session_env \<Rightarrow> u16 \<Rightarrow> string \<Rightarrow> ('s, bool) session_act" where
  "leave env code reason = and_then (close env code reason) (\<lambda>_. ret False)"

definition go_on :: "('s, 'a) session_act \<Rightarrow> ('s, bool) session_act" where
  "go_on f = and_then f (\<lambda>_. ret True)"

definition frame_step :: "session_env \<Rightarrow> 's app \<Rightarrow> frame \<Rightarrow> ('s, bool) session_act" where
  "frame_step env app f =
     and_then (instant_now env) (\<lambda>now.
     and_then (modify (\<lambda>s. s\<lparr>ss_heard := now\<rparr>)) (\<lambda>_.
       case f of
         Text txt \<Rightarrow>
           (case parse env txt of
              Some msg \<Rightarrow> go_on (handle env app msg)
            | None \<Rightarrow> leave env 1002 ''invalid message'')
       | Binary _ \<Rightarrow> leave env 1003 ''text only''
       | _ \<Rightarrow> ret True))"

definition touch_if_due :: "session_env \<Rightarrow> 's app \<Rightarrow> nat \<Rightarrow> ('s, bool) session_act" where
  "touch_if_due env app now s =
     (if now - ss_touched s > TOUCH_INTERVAL
      then and_then (instant_now env) (\<lambda>now.
           and_then (modify (\<lambda>s. s\<lparr>ss_touched := now\<rparr>)) (\<lambda>_.
           and_then (on_node (on_world now_ms)) (\<lambda>now.
           go_on (on_node (on_store (so_touch_user_agent (ap_store app) (ss_uaid s) now))))))
      else ret True) s"

definition refresh_last_seen :: "session_env \<Rightarrow> 's app \<Rightarrow> ('s, bool) session_act" where
  "refresh_last_seen env app s =
     (if ss_stored s then and_then (instant_now env) (touch_if_due env app) else ret True) s"

definition idle_or_ping :: "session_env \<Rightarrow> 's app \<Rightarrow> nat \<Rightarrow> ('s, bool) session_act" where
  "idle_or_ping env app now s =
     (let ws = cf_websocket (ap_cfg app) in
      if now - ss_heard s > ws_ping_interval ws + ws_pong_timeout ws then leave env 1001 ''idle''
      else and_then (on_socket (socket_send env Ping)) (\<lambda>_. refresh_last_seen env app)) s"

definition tick_step :: "session_env \<Rightarrow> 's app \<Rightarrow> ('s, bool) session_act" where
  "tick_step env app = and_then (instant_now env) (idle_or_ping env app)"

fun serve_step :: "session_env \<Rightarrow> 's app \<Rightarrow> step \<Rightarrow> ('s, bool) session_act" where
  "serve_step env app (FrameStep None) = ret False"
| "serve_step env app (FrameStep (Some (Inl _))) = ret False"
| "serve_step env app (FrameStep (Some (Inr (Close _)))) = ret False"
| "serve_step env app (FrameStep (Some (Inr f))) = frame_step env app f"
| "serve_step env app (EventStep (Some (Message n))) = go_on (session_notify env app n)"
| "serve_step env app (EventStep (Some Gone)) = leave env 1000 ''replaced''"
| "serve_step env app (EventStep None) = leave env 1013 ''try again''"
| "serve_step env app (EventStep (Some (Receipt _ _))) = ret True"
| "serve_step env app TickStep = tick_step env app"
| "serve_step env app StopStep = leave env 1001 ''shutting down''"
| "serve_step env app ExpiredStep = leave env 1001 ''session lifetime''"

text \<open>
  What \<open>select!\<close> finds ready. A frame comes from the socket; an event from the hub, where
  nothing may be there yet.
\<close>

datatype serve_ready = FrameReady "(box_error + frame) option" | EventReady | TickReady | StopReady | ExpiredReady

definition listen_event :: "listener \<Rightarrow> 's session \<Rightarrow> recv \<times> 's session" where
  "listen_event l s =
     (case receive (ls_rx l) (nd_hub (ss_node s)) of (r, h) \<Rightarrow>
        (r, s\<lparr>ss_node := (ss_node s)\<lparr>nd_hub := h\<rparr>\<rparr>))"

fun wake :: "listener \<Rightarrow> serve_ready \<Rightarrow> 's session \<Rightarrow> step option \<times> 's session" where
  "wake l (FrameReady f) s = (Some (FrameStep f), s)"
| "wake l EventReady s =
     (case listen_event l s of
        (Got e, s) \<Rightarrow> (Some (EventStep (Some e)), s)
      | (Ended, s) \<Rightarrow> (Some (EventStep None), s)
      | (Empty, s) \<Rightarrow> (None, s))"
| "wake l TickReady s = (Some TickStep, s)"
| "wake l StopReady s = (Some StopStep, s)"
| "wake l ExpiredReady s = (Some ExpiredStep, s)"

text \<open>
  The loop on a sequence of inputs: what the node's other tasks do to the node meanwhile, and
  what is ready then. The value says whether the session is still open at the end of them.
\<close>

fun serve_loop ::
  "session_env \<Rightarrow> 's app \<Rightarrow> listener \<Rightarrow> (('s node \<Rightarrow> 's node) \<times> serve_ready) list \<Rightarrow> ('s, bool) session_act" where
  "serve_loop env app l [] = ret True"
| "serve_loop env app l ((others, r) # inputs) =
     and_then (modify (\<lambda>s. s\<lparr>ss_node := others (ss_node s)\<rparr>)) (\<lambda>_ s.
       case wake l r s of
         (None, s) \<Rightarrow> serve_loop env app l inputs s
       | (Some step, s) \<Rightarrow>
           and_then (serve_step env app step) (\<lambda>open.
             if open then serve_loop env app l inputs else ret False) s)"

definition hello_json :: "string \<Rightarrow> json" where
  "hello_json uaid = JObject [(''messageType'', JString ''hello''), (''uaid'', JString uaid),
     (''status'', JNumber (Some 200)), (''use_webpush'', JBool True), (''broadcasts'', JObject [])]"

definition serve ::
  "session_env \<Rightarrow> 's app \<Rightarrow> listener \<Rightarrow> (('s node \<Rightarrow> 's node) \<times> serve_ready) list \<Rightarrow> ('s, bool) session_act" where
  "serve env app l inputs s =
     and_then (send env (hello_json (ss_uaid s))) (\<lambda>_.
     and_then (if ss_stored s then next_batch env app else ret ()) (\<lambda>_.
       serve_loop env app l inputs)) s"

section \<open>Handshake\<close>

fun next_text :: "session_env \<Rightarrow> (box_error + frame) list \<Rightarrow> client_message option" where
  "next_text env (Inr (Text txt) # fs) = parse env txt"
| "next_text env (Inr Ping # fs) = next_text env fs"
| "next_text env (Inr Pong # fs) = next_text env fs"
| "next_text env _ = None"

text \<open>Who the session is for: the known user agent, or a new id that is not stored.\<close>

definition hello_identity :: "'s app \<Rightarrow> string option \<Rightarrow> ('s node, box_error, string \<times> bool) act" where
  "hello_identity app uaid =
     and_then (case uaid of
         Some u \<Rightarrow> if is_uaid u then on_store (so_user_agent (ap_store app) u) else ret None
       | None \<Rightarrow> ret None) (\<lambda>known.
       case known of
         Some ua \<Rightarrow>
           if ua_bridge ua = None
           then and_then (on_world now_ms) (\<lambda>now.
                and_then (on_store (so_touch_user_agent (ap_store app) (ua_uaid ua) now)) (\<lambda>_.
                ret (ua_uaid ua, True)))
           else and_then (on_world new_uaid) (\<lambda>u. ret (u, False))
       | None \<Rightarrow> and_then (on_world new_uaid) (\<lambda>u. ret (u, False)))"

definition new_session :: "session_env \<Rightarrow> string \<Rightarrow> bool \<Rightarrow> 's node \<Rightarrow> 's session" where
  "new_session env uaid stored nd =
     \<lparr>ss_node = nd, ss_socket = new_socket, ss_reads = 1, ss_uaid = uaid, ss_stored = stored, ss_sent = {},
      ss_unacked = {}, ss_more = False, ss_heard = sv_instant env 0, ss_touched = sv_instant env 0\<rparr>"

text \<open>
  A connection: the frames that arrive until the handshake is decided (\<open>None\<close> when the hello
  timeout ends it), then the inputs of the loop. When the session ends its listener is dropped.
\<close>

definition run ::
  "session_env \<Rightarrow> 's app \<Rightarrow> (box_error + frame) list option \<Rightarrow> (('s node \<Rightarrow> 's node) \<times> serve_ready) list \<Rightarrow>
   's node \<Rightarrow> (box_error + bool) \<times> socket \<times> 's node" where
  "run env app arrivals inputs nd =
     (case (case arrivals of None \<Rightarrow> None | Some fs \<Rightarrow> next_text env fs) of
        Some (Hello uaid) \<Rightarrow>
          (case and_then (hello_identity app uaid) (\<lambda>(u, stored).
               and_then (listen app (UserAgent u)) (\<lambda>l. ret (u, stored, l))) nd of
             (Inl e, nd) \<Rightarrow> (Inl e, new_socket, nd)
           | (Inr (u, stored, l), nd) \<Rightarrow>
               (case serve env app l inputs (new_session env u stored nd) of (r, s) \<Rightarrow>
                  (r, ss_socket s, if r = Inr True then ss_node s else drop_listener app l (ss_node s))))
      | _ \<Rightarrow> (case close_socket env 1002 ''expected hello'' new_socket of (_, sk) \<Rightarrow> (Inr False, sk, nd)))"

end
