(* ===== verification/Owed.thy ===== *)
theory Owed
  imports Notify
begin

text \<open>
  What announcing and owing receipts leaves behind, in the form the session and the receipt
  stream use: notifying issues no sequence number, and \<open>owe_receipt\<close> queues exactly one.
\<close>

text \<open>The receipts queued for a message: one, numbered past \<open>l\<close>, if it asked for one.\<close>

definition owed_for :: "message \<Rightarrow> u16 \<Rightarrow> spec \<Rightarrow> u64 \<Rightarrow> (u64 \<times> receipt) list \<Rightarrow> bool" where
  "owed_for m status sp l rs \<longleftrightarrow>
     (case m_rsub m of
        None \<Rightarrow> rs = []
      | Some rsub \<Rightarrow>
          if sp_queues sp rsub = None then rs = []
          else \<exists>seq. rs = [(seq, \<lparr>rc_rsub = rsub, rc_msg_id = m_id m, rc_status = status\<rparr>)] \<and> l < seq)"

lemma owed_for_cong: "sp_queues sp = sp_queues sp' \<Longrightarrow> owed_for m status sp l rs = owed_for m status sp' l rs"
  by (simp add: owed_for_def split: option.split)

context reliable_store
begin

lemma calm_on_store:
  assumes "calm f" and "on_store f nd = (r, nd')"
  shows "wl_last (nd_world nd') = wl_last (nd_world nd)"
  using assms by (auto simp: on_store_def calm_def split: prod.splits)

lemma calm_clear_stale:
  assumes "ap_store app = S"
  shows "wl_last (nd_world (clear_stale app to node nd)) = wl_last (nd_world nd)"
proof -
  obtain r nd' where "on_store (so_clear_route S to node) nd = (r, nd')" by fastforce
  with calm_on_store [OF calm_ops(13) this] show ?thesis by (simp add: clear_stale_def assms)
qed

lemma calm_forward:
  "ap_store app = S \<Longrightarrow> wl_last (nd_world (app_forward app node to event nd)) = wl_last (nd_world nd)"
  by (simp add: app_forward_def Let_def calm_clear_stale split: option.split forward_reply.split)

lemma calm_notify:
  assumes S: "ap_store app = S"
  shows "wl_last (nd_world (app_notify app to event nd)) = wl_last (nd_world nd)"
proof -
  obtain r h where hub: "notify to event (nd_hub nd) = (r, h)" by fastforce
  obtain x nd1 where call: "on_store (so_route S to) (nd\<lparr>nd_hub := h\<rparr>) = (x, nd1)" by fastforce
  from calm_on_store [OF calm_ops(12) call] have "wl_last (nd_world nd1) = wl_last (nd_world nd)" by simp
  then show ?thesis
    by (cases r) (simp_all add: app_notify_def hub call S Let_def calm_clear_stale calm_forward
        split: option.split sum.split)
qed

lemma calm_receipts:
  "ap_store app = S \<Longrightarrow> wl_last (nd_world (notify_receipts app rs nd)) = wl_last (nd_world nd)"
  by (induction rs arbitrary: nd) (auto simp: calm_notify)

text \<open>Announcing a receipt: the store keeps all but routes, and no number is issued.\<close>

lemma receipts_room:
  assumes "ap_store app = S" and "node_ok nd" and "seq_room n (nd_world nd)"
  shows "seq_room n (nd_world (notify_receipts app rs nd))"
proof -
  from receipts_only_routes [OF assms(1,2)] have "world_le (nd_world nd) (nd_world (notify_receipts app rs nd))"
    by (simp add: only_routes_def)
  with assms(3) calm_receipts [OF assms(1)] show ?thesis by (metis seq_room_calm)
qed

text \<open>Owing a receipt queues it, where its subscription still exists.\<close>

lemma owe_receipt_effect:
  assumes S: "ap_store app = S" and ok: "node_ok nd" and room: "seq_room (Suc n) (nd_world nd)"
  shows "\<exists>nd' rs. owe_receipt app m status nd = (Inr (), nd') \<and> node_ok nd' \<and> seq_room n (nd_world nd') \<and>
    world_le (nd_world nd) (nd_world nd') \<and>
    sp_msgs (view (nd_store nd')) = sp_msgs (view (nd_store nd)) \<and>
    sp_subs (view (nd_store nd')) = sp_subs (view (nd_store nd)) \<and>
    sp_uas (view (nd_store nd')) = sp_uas (view (nd_store nd)) \<and>
    sp_queues (view (nd_store nd')) = sp_queues (spec_enqueue rs (view (nd_store nd))) \<and>
    owed_for m status (view (nd_store nd)) (wl_last (nd_world nd)) rs"
proof (cases "m_rsub m")
  case None
  have empty: "sp_queues (spec_enqueue [] sp) = sp_queues sp" for sp
    by (auto simp: spec_enqueue_def fun_eq_iff option.map_id0 option.map_ident)
  from None ok room seq_room_mono [OF room, of n] show ?thesis
    by (intro exI [of _ nd] exI [of _ "[]"]) (simp add: owe_receipt_def empty owed_for_def)
next
  case (Some rsub)
  define r where "r = \<lparr>rc_rsub = rsub, rc_msg_id = m_id m, rc_status = status\<rparr>"
  have room': "seq_room (Suc n) (snd (nd_store nd, nd_world nd))" using room by simp
  from on_store_ex [OF receipt_returns(4) enqueue_receipt [OF ok room', of r]] obtain x s w where
    call: "on_store (so_enqueue_receipt S r) nd = (Inr x, nd\<lparr>nd_store := s, nd_world := w\<rparr>)"
    and eff: "inv (s, w)" "world_le (nd_world nd) w" "seq_room n w"
      "x \<noteq> None \<longleftrightarrow> sp_queues (view (nd_store nd)) (rc_rsub r) \<noteq> None"
      "\<forall>seq. x = Some seq \<longrightarrow> wl_last (nd_world nd) < seq"
      "view s = spec_enqueue (case x of None \<Rightarrow> [] | Some seq \<Rightarrow> [(seq, r)]) (view (nd_store nd))"
    by auto
  let ?nd1 = "nd\<lparr>nd_store := s, nd_world := w\<rparr>"
  have frame: "sp_msgs (spec_enqueue rs sp) = sp_msgs sp" "sp_subs (spec_enqueue rs sp) = sp_subs sp"
    "sp_uas (spec_enqueue rs sp) = sp_uas sp" for rs sp by (simp_all add: spec_enqueue_def)
  define rs where "rs = (case x of None \<Rightarrow> [] | Some seq \<Rightarrow> [(seq, r)])"
  define nd' where "nd' = notify_receipts app rs ?nd1"
  have run: "owe_receipt app m status nd = (Inr (), nd')"
    by (cases x) (simp_all add: owe_receipt_def Some r_def [symmetric] and_then_def S call nd'_def rs_def)
  have ok1: "node_ok ?nd1" and room1: "seq_room n (nd_world ?nd1)" using eff by simp_all
  from receipts_only_routes [OF S ok1] have ok': "node_ok nd'" "only_routes view ?nd1 nd'"
    unfolding nd'_def by simp_all
  have room2: "seq_room n (nd_world nd')" unfolding nd'_def by (rule receipts_room [OF S ok1 room1])
  have le: "world_le (nd_world nd) (nd_world nd')"
    using ok'(2) eff(2) world_le_trans by (auto simp: only_routes_def)
  have views: "sp_msgs (view (nd_store nd')) = sp_msgs (view (nd_store nd))"
    "sp_subs (view (nd_store nd')) = sp_subs (view (nd_store nd))"
    "sp_uas (view (nd_store nd')) = sp_uas (view (nd_store nd))"
    "sp_queues (view (nd_store nd')) = sp_queues (spec_enqueue rs (view (nd_store nd)))"
    using ok'(2) eff(6) by (simp_all add: only_routes_def frame rs_def)
  have queued: "owed_for m status (view (nd_store nd)) (wl_last (nd_world nd)) rs"
    using eff(4,5) by (cases x) (auto simp: rs_def r_def owed_for_def Some)
  show ?thesis
    by (rule exI [of _ nd'], rule exI [of _ rs]) (use run ok' room2 le views queued in simp)
qed

end

end
