(* ===== verification/Session_Ack.thy ===== *)
theory Session_Ack
  imports Session Owed
begin

text \<open>
  What acknowledging does to the store: an acknowledged message of this user agent and channel
  is deleted and its receipt queued, anything else is left alone.
\<close>

text \<open>An update names a message of the session's user agent that the store holds.\<close>

definition acknowledges :: "spec \<Rightarrow> string \<Rightarrow> ack_update \<Rightarrow> message \<Rightarrow> bool" where
  "acknowledges sp u up m \<longleftrightarrow> ack_status (au_code up) \<noteq> None \<and> is_id (au_version up) \<and>
     sp_msgs sp (au_version up) = Some m \<and> m_uaid m = u \<and>
     channel_id (au_channel_id up) = Some (m_channel_id m)"

text \<open>What stays the same: the session but for what awaits acknowledgement.\<close>

definition only_store :: "'s session \<Rightarrow> 's session \<Rightarrow> bool" where
  "only_store s s' \<longleftrightarrow> ss_socket s' = ss_socket s \<and> ss_uaid s' = ss_uaid s \<and> ss_stored s' = ss_stored s \<and>
     ss_sent s' = ss_sent s \<and> ss_more s' = ss_more s"

context reliable_store
begin

abbreviation session_ok :: "'s session \<Rightarrow> bool" where
  "session_ok s \<equiv> node_ok (ss_node s)"

abbreviation stored_at :: "'s session \<Rightarrow> spec" where
  "stored_at s \<equiv> view (nd_store (ss_node s))"

lemma on_node_apply: "f (ss_node s) = (r, nd) \<Longrightarrow> on_node f s = (r, s\<lparr>ss_node := nd\<rparr>)"
  by (simp add: on_node_def)

lemma ack_ignored:
  assumes S: "ap_store app = S" and ok: "session_ok s" and room: "seq_room n (nd_world (ss_node s))"
    and ignored: "\<nexists>m. acknowledges (stored_at s) (ss_uaid s) up m"
  shows "\<exists>s'. ack env app up s = (Inr (), s') \<and> session_ok s' \<and> seq_room n (nd_world (ss_node s')) \<and>
    world_le (nd_world (ss_node s)) (nd_world (ss_node s')) \<and> only_store s s' \<and>
    ss_unacked s' = ss_unacked s - {au_version up} \<and> stored_at s' = stored_at s"
proof (cases "\<exists>st ch. ack_status (au_code up) = Some st \<and> channel_id (au_channel_id up) = Some ch \<and> is_id (au_version up)")
  case False
  then have "ack env app up s = (Inr (), s\<lparr>ss_unacked := ss_unacked s - {au_version up}\<rparr>)"
    by (auto simp: ack_def Let_def split: option.split)
  then show ?thesis using ok room by (simp add: only_store_def)
next
  case True
  then obtain st ch where on: "ack_status (au_code up) = Some st" "channel_id (au_channel_id up) = Some ch"
    "is_id (au_version up)" by blast
  let ?f = "so_delete_message S (au_version up) (Some (ss_uaid s, ch))"
  from on_store_ex [OF msg_returns(4) delete_message [OF ok, of "au_version up" "Some (ss_uaid s, ch)"]]
  obtain x st' w where call: "on_store ?f (ss_node s) = (Inr x, (ss_node s)\<lparr>nd_store := st', nd_world := w\<rparr>)"
    and eff: "inv (st', w)" "world_le (nd_world (ss_node s)) w"
      "(x, view st') = spec_delete_message (au_version up) (Some (ss_uaid s, ch)) (stored_at s)" by auto
  from calm_on_store [OF calm_ops(7) call] have last: "wl_last w = wl_last (nd_world (ss_node s))" by simp
  have none: "x = None \<and> view st' = stored_at s"
    using eff(3) ignored on by (auto simp: spec_delete_message_def permits_def acknowledges_def split: option.splits if_splits)
  then have "ack env app up s = (Inr (), s\<lparr>ss_unacked := ss_unacked s - {au_version up},
      ss_node := (ss_node s)\<lparr>nd_store := st', nd_world := w\<rparr>\<rparr>)"
    using on by (simp add: ack_def Let_def and_then_def on_node_def S call)
  then show ?thesis using none eff seq_room_calm [OF room eff(2) last] by (simp add: only_store_def)
qed

lemma ack_effect:
  assumes S: "ap_store app = S" and ok: "session_ok s" and room: "seq_room (Suc n) (nd_world (ss_node s))"
    and acked: "acknowledges (stored_at s) (ss_uaid s) up m"
  shows "\<exists>s' rs. ack env app up s = (Inr (), s') \<and> session_ok s' \<and> seq_room n (nd_world (ss_node s')) \<and>
    world_le (nd_world (ss_node s)) (nd_world (ss_node s')) \<and> only_store s s' \<and>
    ss_unacked s' = ss_unacked s - {au_version up} \<and>
    sp_msgs (stored_at s') = (sp_msgs (stored_at s))(m_id m := None) \<and>
    sp_subs (stored_at s') = sp_subs (stored_at s) \<and> sp_uas (stored_at s') = sp_uas (stored_at s) \<and>
    sp_queues (stored_at s') = sp_queues (spec_enqueue rs (stored_at s)) \<and>
    owed_for m (the (ack_status (au_code up))) (stored_at s) (wl_last (nd_world (ss_node s))) rs"
proof -
  from acked obtain st where st: "ack_status (au_code up) = Some st" by (auto simp: acknowledges_def)
  from acked have on: "is_id (au_version up)" "sp_msgs (stored_at s) (au_version up) = Some m" "m_uaid m = ss_uaid s"
    "channel_id (au_channel_id up) = Some (m_channel_id m)" by (simp_all add: acknowledges_def)
  have key: "m_id m = au_version up" using msg_key [OF ok] on(2) by simp
  let ?o = "Some (ss_uaid s, m_channel_id m)"
  from on_store_ex [OF msg_returns(4) delete_message [OF ok, of "au_version up" ?o]]
  obtain x st' w where call: "on_store (so_delete_message S (au_version up) ?o) (ss_node s) =
      (Inr x, (ss_node s)\<lparr>nd_store := st', nd_world := w\<rparr>)"
    and eff: "inv (st', w)" "world_le (nd_world (ss_node s)) w"
      "(x, view st') = spec_delete_message (au_version up) ?o (stored_at s)" by auto
  from calm_on_store [OF calm_ops(7) call] have last: "wl_last w = wl_last (nd_world (ss_node s))" by simp
  have gone: "x = Some m" "view st' = (stored_at s)\<lparr>sp_msgs := (sp_msgs (stored_at s))(au_version up := None)\<rparr>"
    using eff(3) on by (simp_all add: spec_delete_message_def permits_def)
  let ?nd1 = "(ss_node s)\<lparr>nd_store := st', nd_world := w\<rparr>"
  have ok1: "node_ok ?nd1" and room1: "seq_room (Suc n) (nd_world ?nd1)"
    using eff seq_room_calm [OF room eff(2) last] by simp_all
  from owe_receipt_effect [OF S ok1 room1, of m st] obtain nd' rs where
    owed: "owe_receipt app m st ?nd1 = (Inr (), nd')" "node_ok nd'" "seq_room n (nd_world nd')"
      "world_le w (nd_world nd')"
      "sp_msgs (view (nd_store nd')) = sp_msgs (view st')" "sp_subs (view (nd_store nd')) = sp_subs (view st')"
      "sp_uas (view (nd_store nd')) = sp_uas (view st')"
      "sp_queues (view (nd_store nd')) = sp_queues (spec_enqueue rs (view st'))"
    and queued: "owed_for m st (view st') (wl_last w) rs"
    by (elim exE conjE) simp
  define s' where "s' = s\<lparr>ss_unacked := ss_unacked s - {au_version up}, ss_node := nd'\<rparr>"
  have run: "ack env app up s = (Inr (), s')"
    using st on owed(1) by (simp add: ack_def Let_def and_then_def on_node_def S call gone(1) s'_def)
  have queues: "sp_queues (view st') = sp_queues (stored_at s)"
    "sp_queues (spec_enqueue rs (view st')) = sp_queues (spec_enqueue rs (stored_at s))"
    unfolding gone(2) by (simp_all add: spec_enqueue_def)
  have "owed_for m st (stored_at s) (wl_last w) rs" using queued owed_for_cong [OF queues(1)] by blast
  then show ?thesis
    by (intro exI [of _ s'] exI [of _ rs])
      (use run owed(2-7) owed(8) queues gone(2) last key st eff(2) world_le_trans [OF eff(2) owed(4)] in
        \<open>simp add: s'_def only_store_def\<close>)
qed

end

end
