(* ===== verification/Backlog.thy ===== *)
theory Backlog
  imports Session_Ack
begin

text \<open>
  The backlog reaches a user agent that acknowledges what it receives: batch by batch, oldest
  first, each message once, until nothing of it is stored.
\<close>

section \<open>A user agent that acknowledges\<close>

definition update_for :: "message \<Rightarrow> ack_update" where
  "update_for m = \<lparr>au_channel_id = m_channel_id m, au_version = m_id m, au_code = None\<rparr>"

function chunks :: "nat \<Rightarrow> 'a list \<Rightarrow> 'a list list" where
  "chunks b xs = (if xs = [] then [] else if b = 0 then [xs] else take b xs # chunks b (drop b xs))"
  by pat_completeness auto

termination
  by (relation "measure (\<lambda>(b, xs). length xs)") (simp_all add: length_greater_0_conv)

declare chunks.simps [simp del]

lemma chunks_Nil [simp]: "chunks b [] = []"
  by (simp add: chunks.simps)

lemma chunks_step: "0 < b \<Longrightarrow> xs \<noteq> [] \<Longrightarrow> chunks b xs = take b xs # chunks b (drop b xs)"
  by (simp add: chunks.simps [of b xs])

text \<open>It acknowledges batch after batch, each in one \<open>ack\<close> message.\<close>

fun ack_rounds :: "session_env \<Rightarrow> 's app \<Rightarrow> message list list \<Rightarrow> ('s, unit) session_act" where
  "ack_rounds env app [] = ret ()"
| "ack_rounds env app (ms # mss) =
     and_then (handle env app (Ack (map update_for ms))) (\<lambda>_. ack_rounds env app mss)"

definition drain :: "session_env \<Rightarrow> 's app \<Rightarrow> message list \<Rightarrow> ('s, unit) session_act" where
  "drain env app ms =
     and_then (next_batch env app) (\<lambda>_. ack_rounds env app (chunks (backlog_batch app) ms))"

definition delivery :: "session_env \<Rightarrow> 's app \<Rightarrow> message \<Rightarrow> frame" where
  "delivery env app m =
     Text (sv_text env (notification_json (ex_b64 (ap_crates app)) (notification_from m)))"

text \<open>The backlog of \<open>u\<close>: its stored messages, oldest first, none of which expires meanwhile.\<close>

definition backlog_of :: "spec \<Rightarrow> world \<Rightarrow> string \<Rightarrow> message list \<Rightarrow> bool" where
  "backlog_of sp w u ms \<longleftrightarrow> sorted_wrt older ms \<and>
     set ms = {m. sp_msgs sp (m_id m) = Some m \<and> m_uaid m = u} \<and>
     (\<forall>m\<in>set ms. \<forall>w'. world_le w w' \<longrightarrow> fst (now_ms w') < m_expiry m)"

text \<open>As the endpoint stores them: ids it issued, channel ids in canonical form.\<close>

definition well_named :: "message \<Rightarrow> bool" where
  "well_named m \<longleftrightarrow> is_id (m_id m) \<and> channel_id (m_channel_id m) = Some (m_channel_id m)"

section \<open>What \<open>pending\<close> returns\<close>

lemma older_trans: "older a b \<Longrightarrow> older b c \<Longrightarrow> older a c"
  unfolding older_def by (rule less_trans)

lemma older_irrefl: "\<not> older a a"
  by (simp add: older_def)

lemma sorted_older_unique:
  assumes "sorted_wrt older xs" and "sorted_wrt older ys" and "set xs = set ys"
  shows "xs = ys"
  using assms
proof (induction xs arbitrary: ys)
  case Nil
  then show ?case by simp
next
  case (Cons x xs)
  then obtain y ys' where ys: "ys = y # ys'" by (cases ys) auto
  have x: "x = y \<or> older y x" and y: "y = x \<or> older x y"
    using Cons.prems by (auto simp: ys)
  then have "x = y" using older_trans older_irrefl by blast
  have "x \<notin> set xs" and "y \<notin> set ys'" using Cons.prems older_irrefl by (auto simp: ys)
  with Cons.prems(3) \<open>x = y\<close> have "set xs = set ys'" by (auto simp: ys)
  with Cons show ?case by (simp add: ys \<open>x = y\<close>)
qed

lemma older_distinct: "sorted_wrt older ms \<Longrightarrow> distinct ms"
  by (induction ms) (auto simp: older_irrefl)

lemma backlog_distinct_ids:
  assumes "backlog_of sp w u ms"
  shows "distinct (map m_id ms)"
proof -
  have "inj_on m_id (set ms)"
  proof (rule inj_onI)
    fix a b assume "a \<in> set ms" "b \<in> set ms" "m_id a = m_id b"
    with assms have "sp_msgs sp (m_id a) = Some a" "sp_msgs sp (m_id a) = Some b"
      by (simp_all add: backlog_of_def)
    then show "a = b" by simp
  qed
  with assms show ?thesis by (simp add: distinct_map backlog_of_def older_distinct)
qed

lemma backlog_pending:
  assumes bl: "backlog_of sp w u ms" and le: "world_le w w'" and now: "now_ms w' = (t, w'')"
    and pend: "spec_pending sp u t limit xs"
  shows "xs = take limit ms"
proof -
  have "set ms = {m. deliverable sp u t m}"
    using bl le now unfolding backlog_of_def deliverable_def by fastforce
  with pend bl show ?thesis
    unfolding spec_pending_def backlog_of_def by (metis sorted_older_unique)
qed

lemma backlog_later: "backlog_of sp w u ms \<Longrightarrow> world_le w w' \<Longrightarrow> backlog_of sp w' u ms"
  unfolding backlog_of_def by (meson world_le_trans)

lemma sorted_wrt_drop: "sorted_wrt P xs \<Longrightarrow> sorted_wrt P (drop n xs)"
  by (metis append_take_drop_id sorted_wrt_append)

lemma disjoint_take_drop:
  assumes "distinct (map f xs)"
  shows "f ` set (take n xs) \<inter> f ` set (drop n xs) = {}"
proof -
  have "distinct (map f (take n xs) @ map f (drop n xs))"
    using assms by (metis append_take_drop_id map_append)
  then show ?thesis by simp
qed

text \<open>After the first \<open>n\<close> were deleted.\<close>

lemma backlog_drop:
  assumes bl: "backlog_of sp w u ms"
    and msgs: "sp_msgs sp' = (\<lambda>i. if i \<in> m_id ` set (take n ms) then None else sp_msgs sp i)"
  shows "backlog_of sp' w u (drop n ms)"
proof -
  have ids: "distinct (map m_id ms)" by (rule backlog_distinct_ids [OF bl])
  have mem: "m \<in> set ms \<longleftrightarrow> sp_msgs sp (m_id m) = Some m \<and> m_uaid m = u" for m
    using bl by (simp add: backlog_of_def)
  note disj = disjoint_take_drop [OF ids, of n]
  have split: "set ms = set (take n ms) \<union> set (drop n ms)" by (metis append_take_drop_id set_append)
  have "set (drop n ms) = {m. sp_msgs sp' (m_id m) = Some m \<and> m_uaid m = u}"
  proof (intro set_eqI iffI)
    fix m assume m: "m \<in> set (drop n ms)"
    then have "m_id m \<notin> m_id ` set (take n ms)" using disj by blast
    moreover have "m \<in> set ms" using m by (rule in_set_dropD)
    ultimately show "m \<in> {m. sp_msgs sp' (m_id m) = Some m \<and> m_uaid m = u}" using mem [of m] by (simp add: msgs)
  next
    fix m assume "m \<in> {m. sp_msgs sp' (m_id m) = Some m \<and> m_uaid m = u}"
    then have "m_id m \<notin> m_id ` set (take n ms)" and "m \<in> set ms" using mem by (auto simp: msgs split: if_splits)
    with split show "m \<in> set (drop n ms)" by blast
  qed
  with bl show ?thesis
    using sorted_wrt_drop set_drop_subset [of n ms] unfolding backlog_of_def by blast
qed

section \<open>Sending a batch\<close>

lemma notify_all_effect:
  assumes "\<And>k. sv_sends env k" and "distinct (map m_id ms)" and "m_id ` set ms \<inter> ss_sent s = {}"
  shows "notify_all env app ms k s = (Inr (k + length ms),
    s\<lparr>ss_sent := ss_sent s \<union> m_id ` set ms, ss_unacked := ss_unacked s \<union> m_id ` set ms,
      ss_socket := \<lparr>sk_out = sk_out (ss_socket s) @ map (delivery env app) ms,
        sk_attempts = sk_attempts (ss_socket s) + length ms\<rparr>\<rparr>)"
  using assms(2,3)
proof (induction ms arbitrary: k s)
  case Nil
  then show ?case by simp
next
  case (Cons m ms)
  define s1 where "s1 = s\<lparr>ss_sent := insert (m_id m) (ss_sent s), ss_unacked := insert (m_id m) (ss_unacked s),
      ss_socket := \<lparr>sk_out = sk_out (ss_socket s) @ [delivery env app m],
        sk_attempts = Suc (sk_attempts (ss_socket s))\<rparr>\<rparr>"
  have id: "n_id (notification_from m) = m_id m" by (simp add: notification_from_def)
  have sent: "socket_send env f sk = (Inr (), \<lparr>sk_out = sk_out sk @ [f], sk_attempts = Suc (sk_attempts sk)\<rparr>)"
    for f sk using assms(1) by (simp add: socket_send_def Let_def)
  have one: "session_notify env app (notification_from m) s = (Inr True, s1)"
    using Cons.prems(2) by (simp add: session_notify_def and_then_def modify_def send_def send_text_def
        on_socket_def sent id s1_def delivery_def)
  have "distinct (map m_id ms)" and "m_id ` set ms \<inter> ss_sent s1 = {}"
    using Cons.prems by (auto simp: s1_def)
  note rest = Cons.IH [OF this, of "Suc k"]
  have "notify_all env app (m # ms) k s = notify_all env app ms (Suc k) s1" by (simp add: and_then_def one)
  also note rest
  finally show ?case by (simp add: s1_def)
qed

context reliable_store
begin

lemma next_batch_effect:
  assumes S: "ap_store app = S" and ok: "session_ok s" and sends: "\<And>k. sv_sends env k"
    and room: "seq_room n (nd_world (ss_node s))" and batch: "0 < backlog_batch app"
    and bl: "backlog_of (stored_at s) (nd_world (ss_node s)) (ss_uaid s) ms"
    and unsent: "m_id ` set ms \<inter> ss_sent s = {}"
  shows "\<exists>s'. next_batch env app s = (Inr (), s') \<and> session_ok s' \<and> seq_room n (nd_world (ss_node s')) \<and>
    world_le (nd_world (ss_node s)) (nd_world (ss_node s')) \<and> stored_at s' = stored_at s \<and> ss_uaid s' = ss_uaid s \<and>
    ss_sent s' = ss_sent s \<union> m_id ` set (take (backlog_batch app) ms) \<and>
    ss_unacked s' = ss_unacked s \<union> m_id ` set (take (backlog_batch app) ms) \<and>
    ss_more s' = (backlog_batch app \<le> length ms) \<and>
    sk_out (ss_socket s') = sk_out (ss_socket s) @ map (delivery env app) (take (backlog_batch app) ms)"
proof -
  let ?b = "backlog_batch app" and ?nd = "ss_node s"
  obtain t w1 where now: "now_ms (nd_world ?nd) = (t, w1)" by fastforce
  let ?nd1 = "?nd\<lparr>nd_world := w1\<rparr>"
  have le1: "world_le (nd_world ?nd) w1" using now by (rule world_le_now)
  have ok1: "node_ok ?nd1" using inv_world [OF ok le1] by simp
  have last1: "wl_last w1 = wl_last (nd_world ?nd)" using now_ms_frame(1) [of "nd_world ?nd"] now by simp
  from on_store_ex [OF msg_returns(2) pending [OF ok1, of "ss_uaid s" t ?b]] obtain xs st w2 where
    call: "on_store (so_pending S (ss_uaid s) t ?b) ?nd1 = (Inr xs, ?nd1\<lparr>nd_store := st, nd_world := w2\<rparr>)"
    and eff: "inv (st, w2)" "world_le w1 w2" "spec_pending (stored_at s) (ss_uaid s) t ?b xs"
      "view st = stored_at s" by auto
  from calm_on_store [OF calm_ops(6) call] have last2: "wl_last w2 = wl_last w1" by simp
  have xs: "xs = take ?b ms" by (rule backlog_pending [OF bl world_le_refl now eff(3)])
  have le2: "world_le (nd_world ?nd) w2" by (rule world_le_trans [OF le1 eff(2)])
  have room2: "seq_room n w2" using seq_room_calm [OF room le2] last1 last2 by simp
  define s1 where "s1 = s\<lparr>ss_node := ?nd1\<lparr>nd_store := st, nd_world := w2\<rparr>, ss_more := (length xs = ?b)\<rparr>"
  have ids: "distinct (map m_id xs)" and new: "m_id ` set xs \<inter> ss_sent s1 = {}"
    using backlog_distinct_ids [OF bl] unsent set_take_subset [of ?b ms]
    by (auto simp: xs s1_def take_map [symmetric] distinct_take)
  define s2 where "s2 = s1\<lparr>ss_sent := ss_sent s1 \<union> m_id ` set xs, ss_unacked := ss_unacked s1 \<union> m_id ` set xs,
      ss_socket := \<lparr>sk_out = sk_out (ss_socket s1) @ map (delivery env app) xs,
        sk_attempts = sk_attempts (ss_socket s1) + length xs\<rparr>\<rparr>"
  have all: "notify_all env app xs 0 s1 = (Inr (length xs), s2)"
    using notify_all_effect [OF sends ids new, of app 0] by (simp add: s2_def)
  have s1: "s1 = s\<lparr>ss_node := ?nd\<lparr>nd_store := st, nd_world := w2\<rparr>, ss_more := (length xs = ?b)\<rparr>"
    by (simp add: s1_def)
  have run: "next_batch env app s = (Inr (), if length xs = 0 then s2\<lparr>ss_more := False\<rparr> else s2)"
    unfolding next_batch_def
    by (simp add: and_then_def on_node_def on_world_def now S call modify_def all [unfolded s1] del: notify_all.simps)
  have more: "(length xs = ?b) = (?b \<le> length ms)" "length xs = 0 \<longleftrightarrow> ms = []"
    using batch by (auto simp: xs min_def split: if_splits)
  show ?thesis
    unfolding run
    by (rule exI [of _ "if length xs = 0 then s2\<lparr>ss_more := False\<rparr> else s2"])
      (use eff(1,4) room2 le2 more batch in \<open>auto simp: s2_def s1_def xs\<close>)
qed

section \<open>Acknowledging a batch\<close>

text \<open>The messages named are deleted and no longer awaited; the rest of the session is as it was.\<close>

definition settled :: "nat \<Rightarrow> 's session \<Rightarrow> 's session \<Rightarrow> string set \<Rightarrow> bool" where
  "settled n s s' ids \<longleftrightarrow> session_ok s' \<and> seq_room n (nd_world (ss_node s')) \<and>
     world_le (nd_world (ss_node s)) (nd_world (ss_node s')) \<and> only_store s s' \<and>
     ss_unacked s' = ss_unacked s - ids \<and>
     sp_msgs (stored_at s') = (\<lambda>i. if i \<in> ids then None else sp_msgs (stored_at s) i)"

lemma settled_trans:
  assumes ab: "settled k a b A" and bc: "settled n b c B"
  shows "settled n a c (A \<union> B)"
proof -
  have "world_le (nd_world (ss_node a)) (nd_world (ss_node c))"
    using ab bc by (meson settled_def world_le_trans)
  moreover have "only_store a c" using ab bc by (simp add: settled_def only_store_def)
  moreover have "ss_unacked c = ss_unacked a - (A \<union> B)" using ab bc by (auto simp: settled_def)
  moreover have "sp_msgs (stored_at c) = (\<lambda>i. if i \<in> A \<union> B then None else sp_msgs (stored_at a) i)"
    using ab bc by (simp add: settled_def fun_eq_iff)
  ultimately show ?thesis using bc by (simp add: settled_def)
qed

lemma ack_settled:
  assumes "ap_store app = S" and "session_ok s" and "seq_room (Suc n) (nd_world (ss_node s))"
    and "well_named m" and "sp_msgs (stored_at s) (m_id m) = Some m" and "m_uaid m = ss_uaid s"
  shows "\<exists>s'. ack env app (update_for m) s = (Inr (), s') \<and> settled n s s' {m_id m}"
proof -
  have up: "au_version (update_for m) = m_id m" by (simp add: update_for_def)
  have acked: "acknowledges (stored_at s) (ss_uaid s) (update_for m) m"
    using assms(4-6) by (simp add: acknowledges_def update_for_def ack_status_def well_named_def Let_def)
  have upd: "sp_msgs (stored_at s') = (sp_msgs (stored_at s))(m_id m := None) \<Longrightarrow>
      sp_msgs (stored_at s') = (\<lambda>i. if i \<in> {m_id m} then None else sp_msgs (stored_at s) i)" for s'
    by (simp add: fun_eq_iff)
  from ack_effect [OF assms(1-3) acked, of env] show ?thesis
    unfolding up settled_def by (elim exE conjE) (intro exI conjI upd; assumption)
qed

lemma ack_batch_effect:
  assumes S: "ap_store app = S"
  shows "session_ok s \<Longrightarrow> seq_room (length ms + n) (nd_world (ss_node s)) \<Longrightarrow> distinct (map m_id ms) \<Longrightarrow>
    \<forall>m\<in>set ms. well_named m \<and> sp_msgs (stored_at s) (m_id m) = Some m \<and> m_uaid m = ss_uaid s \<Longrightarrow>
    \<exists>s'. ack_all env app (map update_for ms) s = (Inr (), s') \<and> settled n s s' (m_id ` set ms)"
proof (induction ms arbitrary: s)
  case Nil
  then show ?case by (simp add: only_store_def settled_def)
next
  case (Cons m ms)
  have room: "seq_room (Suc (length ms + n)) (nd_world (ss_node s))" using Cons.prems(2) by simp
  have "well_named m" "sp_msgs (stored_at s) (m_id m) = Some m" "m_uaid m = ss_uaid s"
    using Cons.prems(4) by simp_all
  from ack_settled [OF S Cons.prems(1) room this, of env] obtain s1 where
    one: "ack env app (update_for m) s = (Inr (), s1)" "settled (length ms + n) s s1 {m_id m}" by blast
  have s1: "session_ok s1" "seq_room (length ms + n) (nd_world (ss_node s1))" "ss_uaid s1 = ss_uaid s"
    "sp_msgs (stored_at s1) = (\<lambda>i. if i \<in> {m_id m} then None else sp_msgs (stored_at s) i)"
    using one(2) by (simp_all add: settled_def only_store_def)
  have ids: "distinct (map m_id ms)" "m_id m \<notin> m_id ` set ms" using Cons.prems(3) by simp_all
  have named: "\<forall>m\<in>set ms. well_named m \<and> sp_msgs (stored_at s1) (m_id m) = Some m \<and> m_uaid m = ss_uaid s1"
  proof
    fix m' assume m': "m' \<in> set ms"
    with ids(2) have "m_id m' \<noteq> m_id m" by (metis image_eqI)
    with m' Cons.prems(4) show "well_named m' \<and> sp_msgs (stored_at s1) (m_id m') = Some m' \<and> m_uaid m' = ss_uaid s1"
      by (simp add: s1(3,4))
  qed
  from Cons.IH [OF s1(1,2) ids(1) named] obtain s' where
    rest: "ack_all env app (map update_for ms) s1 = (Inr (), s')" "settled n s1 s' (m_id ` set ms)" by blast
  have "ack_all env app (map update_for (m # ms)) s = (Inr (), s')" by (simp add: and_then_def one(1) rest(1))
  moreover have "settled n s s' (m_id ` set (m # ms))" using settled_trans [OF one(2) rest(2)] by simp
  ultimately show ?case by (intro exI [of _ s'] conjI)
qed

section \<open>Round after round\<close>

text \<open>A session whose first unacknowledged batch is on its way.\<close>

definition awaiting :: "nat \<Rightarrow> 's session \<Rightarrow> message list \<Rightarrow> bool" where
  "awaiting b s ms \<longleftrightarrow> session_ok s \<and> backlog_of (stored_at s) (nd_world (ss_node s)) (ss_uaid s) ms \<and>
     seq_room (length ms) (nd_world (ss_node s)) \<and> ss_unacked s = m_id ` set (take b ms) \<and>
     m_id ` set (drop b ms) \<inter> ss_sent s = {} \<and> ss_more s = (b \<le> length ms)"

lemma ack_round:
  assumes S: "ap_store app = S" and sends: "\<And>k. sv_sends env k" and b: "b = backlog_batch app" "0 < b"
    and aw: "awaiting b s ms" and ne: "ms \<noteq> []" and named: "\<forall>m\<in>set ms. well_named m"
  shows "\<exists>s'. handle env app (Ack (map update_for (take b ms))) s = (Inr (), s') \<and> awaiting b s' (drop b ms) \<and>
    ss_uaid s' = ss_uaid s \<and>
    sk_out (ss_socket s') = sk_out (ss_socket s) @ map (delivery env app) (take b (drop b ms))"
proof -
  from aw have ok: "session_ok s" and bl: "backlog_of (stored_at s) (nd_world (ss_node s)) (ss_uaid s) ms"
    and room: "seq_room (length (take b ms) + length (drop b ms)) (nd_world (ss_node s))"
    and un: "ss_unacked s = m_id ` set (take b ms)" and new: "m_id ` set (drop b ms) \<inter> ss_sent s = {}"
    and more: "ss_more s = (b \<le> length ms)"
    by (auto simp: awaiting_def min_def)
  have ids: "distinct (map m_id (take b ms))"
    using backlog_distinct_ids [OF bl] by (simp add: take_map [symmetric] distinct_take)
  have held: "\<forall>m\<in>set (take b ms). well_named m \<and> sp_msgs (stored_at s) (m_id m) = Some m \<and> m_uaid m = ss_uaid s"
    using bl named by (auto simp: backlog_of_def dest!: in_set_takeD)
  from ack_batch_effect [OF S ok room ids held] obtain s1 where
    acked: "ack_all env app (map update_for (take b ms)) s = (Inr (), s1)"
    and st: "settled (length (drop b ms)) s s1 (m_id ` set (take b ms))" by blast
  have s1: "session_ok s1" "seq_room (length (drop b ms)) (nd_world (ss_node s1))"
    "world_le (nd_world (ss_node s)) (nd_world (ss_node s1))" "ss_uaid s1 = ss_uaid s" "ss_sent s1 = ss_sent s"
    "ss_more s1 = ss_more s" "ss_unacked s1 = {}" "ss_socket s1 = ss_socket s"
    "sp_msgs (stored_at s1) = (\<lambda>i. if i \<in> m_id ` set (take b ms) then None else sp_msgs (stored_at s) i)"
    using st un by (simp_all add: settled_def only_store_def)
  have bl1: "backlog_of (stored_at s1) (nd_world (ss_node s1)) (ss_uaid s1) (drop b ms)"
    using backlog_later [OF backlog_drop [OF bl s1(9)] s1(3)] by (simp add: s1(4))
  show ?thesis
  proof (cases "b \<le> length ms")
    case False
    then have "handle env app (Ack (map update_for (take b ms))) s = (Inr (), s1)"
      using acked by (simp add: and_then_def s1(6) more)
    moreover have "awaiting b s1 (drop b ms)"
      using False s1 bl1 b more by (simp add: awaiting_def)
    ultimately show ?thesis using False s1 by (intro exI [of _ s1]) simp
  next
    case True
    have "m_id ` set (drop b ms) \<inter> ss_sent s1 = {}" using new by (simp add: s1(5))
    from next_batch_effect [OF S s1(1) sends s1(2) b(2) [unfolded b(1)] bl1 this] obtain s2 where
      nb: "next_batch env app s1 = (Inr (), s2)" and s2: "session_ok s2" "seq_room (length (drop b ms)) (nd_world (ss_node s2))"
      "world_le (nd_world (ss_node s1)) (nd_world (ss_node s2))" "stored_at s2 = stored_at s1" "ss_uaid s2 = ss_uaid s1"
      "ss_sent s2 = ss_sent s1 \<union> m_id ` set (take b (drop b ms))"
      "ss_unacked s2 = ss_unacked s1 \<union> m_id ` set (take b (drop b ms))"
      "ss_more s2 = (b \<le> length (drop b ms))"
      "sk_out (ss_socket s2) = sk_out (ss_socket s1) @ map (delivery env app) (take b (drop b ms))"
      unfolding b(1) [symmetric] by blast
    have run: "handle env app (Ack (map update_for (take b ms))) s = (Inr (), s2)"
      using True by (simp add: and_then_def acked s1(6,7) more nb)
    note disj = disjoint_take_drop [OF backlog_distinct_ids [OF bl1], of b]
    have "m_id ` set (drop b (drop b ms)) \<inter> ss_sent s2 = {}"
      using new disj set_drop_subset [of b "drop b ms"] unfolding s2(6) s1(5) by blast
    then have "awaiting b s2 (drop b ms)"
      using s2 s1(7) backlog_later [OF bl1 s2(3)] by (simp add: awaiting_def)
    with run s2(5,9) s1(4,8) show ?thesis by (intro exI [of _ s2]) simp
  qed
qed

lemma ack_rounds_effect:
  assumes S: "ap_store app = S" and sends: "\<And>k. sv_sends env k" and b: "b = backlog_batch app" "0 < b"
  shows "awaiting b s ms \<Longrightarrow> \<forall>m\<in>set ms. well_named m \<Longrightarrow>
    \<exists>s'. ack_rounds env app (chunks b ms) s = (Inr (), s') \<and> awaiting b s' [] \<and> ss_uaid s' = ss_uaid s \<and>
      sk_out (ss_socket s') = sk_out (ss_socket s) @ map (delivery env app) (drop b ms)"
proof (induction "length ms" arbitrary: ms s rule: less_induct)
  case less
  show ?case
  proof (cases "ms = []")
    case True
    with less.prems show ?thesis by simp
  next
    case False
    from ack_round [OF S sends b less.prems(1) False less.prems(2)] obtain s1 where
      one: "handle env app (Ack (map update_for (take b ms))) s = (Inr (), s1)" "awaiting b s1 (drop b ms)"
        "ss_uaid s1 = ss_uaid s"
        "sk_out (ss_socket s1) = sk_out (ss_socket s) @ map (delivery env app) (take b (drop b ms))" by blast
    have shorter: "length (drop b ms) < length ms" using False b(2) by simp
    have "\<forall>m\<in>set (drop b ms). well_named m" using less.prems(2) by (auto dest: in_set_dropD)
    from less.hyps [OF shorter one(2) this] obtain s' where
      rest: "ack_rounds env app (chunks b (drop b ms)) s1 = (Inr (), s')" "awaiting b s' []" "ss_uaid s' = ss_uaid s1"
        "sk_out (ss_socket s') = sk_out (ss_socket s1) @ map (delivery env app) (drop b (drop b ms))" by blast
    have "ack_rounds env app (chunks b ms) s = (Inr (), s')"
      using False b(2) by (simp add: chunks_step and_then_def one(1) rest(1) del: handle.simps)
    moreover have "sk_out (ss_socket s') = sk_out (ss_socket s) @ map (delivery env app) (drop b ms)"
      unfolding rest(4) one(4) by (metis append.assoc append_take_drop_id map_append)
    ultimately show ?thesis using rest(2,3) one(3) by (intro exI [of _ s'] conjI) simp_all
  qed
qed

lemma drain_effect:
  assumes S: "ap_store app = S" and ok: "session_ok s" and sends: "\<And>k. sv_sends env k"
    and batch: "0 < backlog_batch app" and room: "seq_room (length ms) (nd_world (ss_node s))"
    and bl: "backlog_of (stored_at s) (nd_world (ss_node s)) (ss_uaid s) ms"
    and named: "\<forall>m\<in>set ms. well_named m"
    and fresh: "ss_unacked s = {}" "m_id ` set ms \<inter> ss_sent s = {}"
  shows "\<exists>s'. drain env app ms s = (Inr (), s') \<and> session_ok s' \<and>
    sk_out (ss_socket s') = sk_out (ss_socket s) @ map (delivery env app) ms \<and>
    ss_unacked s' = {} \<and> (\<forall>i m. sp_msgs (stored_at s') i = Some m \<longrightarrow> m_uaid m \<noteq> ss_uaid s)"
proof -
  let ?b = "backlog_batch app"
  from next_batch_effect [OF S ok sends room batch bl fresh(2)] obtain s1 where
    nb: "next_batch env app s = (Inr (), s1)" and s1: "session_ok s1" "seq_room (length ms) (nd_world (ss_node s1))"
      "world_le (nd_world (ss_node s)) (nd_world (ss_node s1))" "stored_at s1 = stored_at s" "ss_uaid s1 = ss_uaid s"
      "ss_sent s1 = ss_sent s \<union> m_id ` set (take ?b ms)" "ss_unacked s1 = ss_unacked s \<union> m_id ` set (take ?b ms)"
      "ss_more s1 = (?b \<le> length ms)"
      "sk_out (ss_socket s1) = sk_out (ss_socket s) @ map (delivery env app) (take ?b ms)" by blast
  note disj = disjoint_take_drop [OF backlog_distinct_ids [OF bl], of ?b]
  have "m_id ` set (drop ?b ms) \<inter> ss_sent s1 = {}"
    using fresh(2) disj set_drop_subset [of ?b ms] unfolding s1(6) by blast
  then have "awaiting ?b s1 ms"
    using s1 fresh(1) backlog_later [OF bl s1(3)] by (simp add: awaiting_def)
  from ack_rounds_effect [OF S sends refl batch this named] obtain s' where
    rest: "ack_rounds env app (chunks ?b ms) s1 = (Inr (), s')" "awaiting ?b s' []" "ss_uaid s' = ss_uaid s1"
      "sk_out (ss_socket s') = sk_out (ss_socket s1) @ map (delivery env app) (drop ?b ms)" by blast
  have run: "drain env app ms s = (Inr (), s')" by (simp add: drain_def and_then_def nb rest(1))
  have out: "sk_out (ss_socket s') = sk_out (ss_socket s) @ map (delivery env app) ms"
    unfolding rest(4) s1(9) by (metis append.assoc append_take_drop_id map_append)
  have ok': "session_ok s'" and un: "ss_unacked s' = {}"
    and none: "backlog_of (stored_at s') (nd_world (ss_node s')) (ss_uaid s') []"
    using rest(2) by (simp_all add: awaiting_def)
  have "m_uaid m \<noteq> ss_uaid s" if "sp_msgs (stored_at s') i = Some m" for i m
  proof
    assume "m_uaid m = ss_uaid s"
    with that msg_key [OF ok'] rest(3) s1(5) have "m \<in> {m. sp_msgs (stored_at s') (m_id m) = Some m \<and> m_uaid m = ss_uaid s'}"
      by fastforce
    with none show False by (simp add: backlog_of_def) blast
  qed
  with run ok' out un show ?thesis by (intro exI [of _ s']) simp
qed

end

end
