(* ===== verification/Session_Props.thy ===== *)
theory Session_Props
  imports Session "HOL-Library.Countable"
begin

text \<open>
  What a session sends: each message at most once on a connection, whatever the hub, the store
  and the user agent do, and nothing is awaited that was not sent. The operations of a session
  are composed of steps that only add frames; \<open>grows\<close> says what is added.
\<close>

section \<open>What a session adds\<close>

text \<open>A frame that delivers the message \<open>i\<close>.\<close>

definition delivers :: "session_env \<Rightarrow> string \<Rightarrow> frame \<Rightarrow> bool" where
  "delivers env i f \<longleftrightarrow> (\<exists>b64 n. f = Text (sv_text env (notification_json b64 n)) \<and> n_id n = i)"

definition deliveries :: "session_env \<Rightarrow> string \<Rightarrow> frame list \<Rightarrow> nat" where
  "deliveries env i fs = length (filter (delivers env i) fs)"

text \<open>The text of a value determines it, and no other value the session sends is \<open>{}\<close>.\<close>

definition text_ok :: "session_env \<Rightarrow> bool" where
  "text_ok env \<longleftrightarrow> inj (sv_text env) \<and> sv_text env (JObject []) = ''{}''"

definition grows :: "session_env \<Rightarrow> 's session \<Rightarrow> 's session \<Rightarrow> bool" where
  "grows env s s' \<longleftrightarrow> ss_uaid s' = ss_uaid s \<and> ss_sent s \<subseteq> ss_sent s' \<and>
     ss_unacked s' \<subseteq> ss_unacked s \<union> (ss_sent s' - ss_sent s) \<and>
     (\<exists>fs. sk_out (ss_socket s') = sk_out (ss_socket s) @ fs \<and>
        (\<forall>i. deliveries env i fs \<le> (if i \<in> ss_sent s' - ss_sent s then 1 else 0)))"

lemma deliveries_simps [simp]:
  "deliveries env i [] = 0" "deliveries env i (fs @ gs) = deliveries env i fs + deliveries env i gs"
  "deliveries env i (f # fs) = (if delivers env i f then Suc (deliveries env i fs) else deliveries env i fs)"
  by (simp_all add: deliveries_def)

lemma grows_refl [simp]: "grows env s s"
  by (simp add: grows_def)

lemma grows_trans:
  assumes ab: "grows env a b" and bc: "grows env b c"
  shows "grows env a c"
proof -
  from ab obtain fs where fs: "sk_out (ss_socket b) = sk_out (ss_socket a) @ fs"
    "\<And>i. deliveries env i fs \<le> (if i \<in> ss_sent b - ss_sent a then 1 else 0)" by (auto simp: grows_def)
  from bc obtain gs where gs: "sk_out (ss_socket c) = sk_out (ss_socket b) @ gs"
    "\<And>i. deliveries env i gs \<le> (if i \<in> ss_sent c - ss_sent b then 1 else 0)" by (auto simp: grows_def)
  have sub: "ss_sent a \<subseteq> ss_sent b" "ss_sent b \<subseteq> ss_sent c" using ab bc by (simp_all add: grows_def)
  have "deliveries env i (fs @ gs) \<le> (if i \<in> ss_sent c - ss_sent a then 1 else 0)" for i
    using fs(2) [of i] gs(2) [of i] sub by (auto split: if_splits)
  then have "\<exists>hs. sk_out (ss_socket c) = sk_out (ss_socket a) @ hs \<and>
      (\<forall>i. deliveries env i hs \<le> (if i \<in> ss_sent c - ss_sent a then 1 else 0))"
    using fs(1) gs(1) by (intro exI [of _ "fs @ gs"]) simp
  moreover have "ss_unacked c \<subseteq> ss_unacked a \<union> (ss_sent c - ss_sent a)" and "ss_uaid c = ss_uaid a"
    using ab bc by (auto simp: grows_def)
  ultimately show ?thesis using sub by (simp add: grows_def)
qed

text \<open>Changes of other fields, and frames that deliver nothing.\<close>

lemma grows_quiet:
  assumes "ss_uaid s' = ss_uaid s" and "ss_sent s' = ss_sent s" and "ss_unacked s' \<subseteq> ss_unacked s"
    and "sk_out (ss_socket s') = sk_out (ss_socket s) @ fs" and "\<And>i f. f \<in> set fs \<Longrightarrow> \<not> delivers env i f"
  shows "grows env s s'"
proof -
  have "deliveries env i fs = 0" for i using assms(5) by (simp add: deliveries_def filter_empty_conv)
  then show ?thesis using assms(1-4) unfolding grows_def by auto
qed

definition adds :: "session_env \<Rightarrow> ('s, 'a) session_act \<Rightarrow> bool" where
  "adds env f \<longleftrightarrow> (\<forall>s. grows env s (snd (f s)))"

named_theorems adds_intros \<open>operations that only add frames\<close>

lemma addsD: "adds env f \<Longrightarrow> f s = (r, s') \<Longrightarrow> grows env s s'"
  unfolding adds_def by (metis snd_conv)

lemma adds_ret [adds_intros]: "adds env (ret x)"
  by (simp add: adds_def)

lemma adds_and_then [adds_intros]:
  assumes "adds env f" and "\<And>x. adds env (g x)"
  shows "adds env (and_then f g)"
  unfolding adds_def
proof
  fix s
  obtain r s1 where f: "f s = (r, s1)" by fastforce
  show "grows env s (snd (and_then f g s))"
  proof (cases r)
    case (Inl e)
    then show ?thesis using addsD [OF assms(1) f] by (simp add: and_then_def f)
  next
    case (Inr x)
    obtain r2 s2 where g: "g x s1 = (r2, s2)" by fastforce
    from grows_trans [OF addsD [OF assms(1) f] addsD [OF assms(2) g]] show ?thesis
      by (simp add: and_then_def f g Inr)
  qed
qed

lemma adds_Pair [adds_intros]: "adds env (Pair (Inr x))"
  by (simp add: adds_def)

lemma adds_if [adds_intros]: "adds env f \<Longrightarrow> adds env g \<Longrightarrow> adds env (if b then f else g)"
  by simp

lemma adds_state: "(\<And>t. adds env (f t)) \<Longrightarrow> adds env (\<lambda>s. f s s)"
  by (simp add: adds_def)

lemma adds_on_node [adds_intros]: "adds env (on_node f)"
  by (auto simp: adds_def on_node_def case_prod_beta intro!: grows_quiet [where fs = "[]"])

lemma adds_instant [adds_intros]: "adds env (instant_now env)"
  by (auto simp: adds_def instant_now_def intro!: grows_quiet [where fs = "[]"])

lemma adds_option [adds_intros]:
  "adds env f \<Longrightarrow> (\<And>x. adds env (g x)) \<Longrightarrow> adds env (case y of None \<Rightarrow> f | Some x \<Rightarrow> g x)"
  by (cases y) simp_all

lemma adds_modify:
  assumes "\<And>s. ss_uaid (f s) = ss_uaid s \<and> ss_sent (f s) = ss_sent s \<and> ss_unacked (f s) = ss_unacked s \<and>
    ss_socket (f s) = ss_socket s"
  shows "adds env (modify f)"
  using assms by (auto simp: adds_def modify_def intro!: grows_quiet [where fs = "[]"])

lemma socket_send_out:
  "sk_out (snd (socket_send env f sk)) = sk_out sk \<or> sk_out (snd (socket_send env f sk)) = sk_out sk @ [f]"
  by (simp add: socket_send_def Let_def)

lemma adds_socket_send:
  assumes "\<And>i. \<not> delivers env i f"
  shows "adds env (on_socket (socket_send env f))"
  unfolding adds_def
proof
  fix s :: "'s session"
  have "\<exists>fs. sk_out (ss_socket (snd (on_socket (socket_send env f) s))) = sk_out (ss_socket s) @ fs \<and> set fs \<subseteq> {f}"
    using socket_send_out [of env f "ss_socket s"] by (fastforce simp: on_socket_def case_prod_beta)
  then obtain fs where "sk_out (ss_socket (snd (on_socket (socket_send env f) s))) = sk_out (ss_socket s) @ fs"
    and "set fs \<subseteq> {f}" by blast
  then show "grows env s (snd (on_socket (socket_send env f) s))"
    using assms by (intro grows_quiet [where fs = fs]) (auto simp: on_socket_def case_prod_beta)
qed

lemma delivers_frame [simp]: "\<not> delivers env i Ping" "\<not> delivers env i (Close c)"
  by (simp_all add: delivers_def)

lemma adds_ping [adds_intros]: "adds env (on_socket (socket_send env Ping))"
  by (rule adds_socket_send) simp

lemma adds_close [adds_intros]: "adds env (close env code reason)"
proof -
  have "snd (on_socket (close_socket env code reason) s) =
      snd (on_socket (socket_send env (Close (Some (code, reason)))) s)" for s :: "'s session"
    by (simp add: on_socket_def close_socket_def case_prod_beta)
  moreover have "adds env (on_socket (socket_send env (Close (Some (code, reason)))))"
    by (rule adds_socket_send) simp
  ultimately show ?thesis unfolding adds_def close_def by metis
qed

text \<open>Text that is not a notification.\<close>

lemma not_delivers:
  assumes "text_ok env" and "\<And>b64 n. v \<noteq> notification_json b64 n"
  shows "\<not> delivers env i (Text (sv_text env v))"
  using assms by (auto simp: delivers_def text_ok_def dest: injD)

lemma adds_send:
  "text_ok env \<Longrightarrow> (\<And>b64 n. v \<noteq> notification_json b64 n) \<Longrightarrow> adds env (send env v)"
  unfolding send_def send_text_def by (rule adds_socket_send) (rule not_delivers)

lemma adds_pong: "text_ok env \<Longrightarrow> adds env (send_text env ''{}'')"
  using adds_send [of env "JObject []"] by (simp add: send_def text_ok_def notification_json_def)

lemma notification_version:
  "notification_json b64 n = notification_json b64' n' \<Longrightarrow> n_id n = n_id n'"
  by (simp add: notification_json_def)

lemma delivers_notification:
  "text_ok env \<Longrightarrow> delivers env i (Text (sv_text env (notification_json b64 n))) \<longleftrightarrow> n_id n = i"
  by (auto simp: delivers_def text_ok_def dest: injD notification_version)

lemma adds_notify [adds_intros]:
  fixes app :: "'s app"
  assumes ok: "text_ok env"
  shows "adds env (session_notify env app n)"
  unfolding adds_def
proof
  fix s :: "'s session"
  let ?f = "Text (sv_text env (notification_json (ex_b64 (ap_crates app)) n))"
  show "grows env s (snd (session_notify env app n s))"
  proof (cases "n_id n \<in> ss_sent s")
    case False
    obtain r sk where send: "socket_send env ?f (ss_socket s) = (r, sk)" by fastforce
    have end_state: "snd (session_notify env app n s) = s\<lparr>ss_sent := insert (n_id n) (ss_sent s),
        ss_unacked := insert (n_id n) (ss_unacked s), ss_socket := sk\<rparr>"
      using False send by (simp add: session_notify_def and_then_def modify_def send_def send_text_def
          on_socket_def split: sum.split)
    obtain fs where fs: "sk_out sk = sk_out (ss_socket s) @ fs" "fs = [] \<or> fs = [?f]"
      using socket_send_out [of env ?f "ss_socket s"] send by fastforce
    have "deliveries env i fs \<le> (if i \<in> insert (n_id n) (ss_sent s) - ss_sent s then 1 else 0)" for i
      using fs(2) False delivers_notification [OF ok, of i "ex_b64 (ap_crates app)" n] by auto
    with fs(1) False show ?thesis unfolding end_state grows_def by auto
  qed (simp add: session_notify_def)
qed

lemma adds_notify_all [adds_intros]: "text_ok env \<Longrightarrow> adds env (notify_all env app ms new)"
  by (induction ms arbitrary: new) (simp_all add: adds_intros)

lemma adds_next_batch [adds_intros]:
  assumes "text_ok env"
  shows "adds env (next_batch env app)"
proof -
  have more: "adds env (modify (\<lambda>s. s\<lparr>ss_more := b\<rparr>))" for b by (rule adds_modify) simp
  have last: "adds env (modify (\<lambda>s. if new = 0 then s\<lparr>ss_more := False\<rparr> else s))" for new :: nat
    by (rule adds_modify) simp
  show ?thesis unfolding next_batch_def
    by (rule adds_state) (intro adds_intros more last assms)
qed

lemma grows_unacked [simp]: "grows env s (s\<lparr>ss_unacked := ss_unacked s - A\<rparr>)"
  by (rule grows_quiet [where fs = "[]"]) auto

lemma adds_ack [adds_intros]:
  fixes app :: "'s app"
  shows "adds env (ack env app u)"
proof -
  define settle :: "'s session \<Rightarrow> (box_error + unit) \<times> 's session" where "settle s =
     (case ack_status (au_code u) of
           None \<Rightarrow> ret ()
         | Some status \<Rightarrow>
             (case channel_id (au_channel_id u) of
                None \<Rightarrow> ret ()
              | Some ch \<Rightarrow>
                  if \<not> is_id (au_version u) then ret ()
                  else and_then (on_node (on_store (so_delete_message (ap_store app) (au_version u)
                           (Some (ss_uaid s, ch))))) (\<lambda>found.
                         case found of None \<Rightarrow> ret () | Some m \<Rightarrow> on_node (owe_receipt app m status)))) s" for s
  have "adds env settle"
    unfolding settle_def [abs_def] by (rule adds_state) (intro adds_intros)
  have "ack env app u s = settle (s\<lparr>ss_unacked := ss_unacked s - {au_version u}\<rparr>)" for s
    by (simp add: ack_def settle_def Let_def split: option.split)
  moreover have "grows env s (snd (settle (s\<lparr>ss_unacked := ss_unacked s - {au_version u}\<rparr>)))" for s
    using grows_trans [OF grows_unacked \<open>adds env settle\<close> [unfolded adds_def, rule_format]] .
  ultimately show ?thesis by (simp add: adds_def)
qed

lemma adds_ack_all [adds_intros]: "adds env (ack_all env app us)"
  by (induction us) (simp_all add: adds_intros)

lemma reply_not_notification [simp]:
  "JObject (register_reply ch st @ kvs) \<noteq> notification_json b64 n"
  "JObject (register_reply ch st) \<noteq> notification_json b64 n" "hello_json u \<noteq> notification_json b64 n"
  "JObject [(''messageType'', JString ''unregister''), kv, kv'] \<noteq> notification_json b64 n"
  by (simp_all add: register_reply_def notification_json_def hello_json_def)

lemma registered_reply_not [simp]: "registered_reply app ch r \<noteq> notification_json b64 n"
  by (cases r) (simp_all add: registered_reply_def)

lemma session_register_reply:
  "session_register app ch key s = (Inr v, s') \<Longrightarrow> v \<noteq> notification_json b64 n"
  by (auto simp: session_register_def and_then_eq_Inr_iff Let_def split: option.splits)

lemma adds_store_first [adds_intros]: "adds env (store_first app)"
proof -
  have stored: "adds env (modify (\<lambda>s. s\<lparr>ss_stored := True\<rparr>))" by (rule adds_modify) simp
  show ?thesis unfolding store_first_def by (rule adds_state) (intro adds_intros stored)
qed

lemma adds_session_register: "adds env (session_register app ch key)"
  unfolding session_register_def Let_def by (rule adds_state) (intro adds_intros)

text \<open>An operation whose value is sent.\<close>

lemma adds_then_send:
  fixes f :: "('s, json) session_act"
  assumes ok: "text_ok env" and f: "adds env f" and other: "\<And>s v s' b64 n. f s = (Inr v, s') \<Longrightarrow> v \<noteq> notification_json b64 n"
  shows "adds env (and_then f (\<lambda>v. send env v))"
  unfolding adds_def
proof
  fix s
  obtain r s1 where run: "f s = (r, s1)" by fastforce
  show "grows env s (snd (and_then f (\<lambda>v. send env v) s))"
  proof (cases r)
    case (Inl e)
    then show ?thesis using addsD [OF f run] by (simp add: and_then_def run)
  next
    case (Inr v)
    have "adds env (send env v :: ('s, unit) session_act)" using adds_send [OF ok] other [OF run [unfolded Inr]] by blast
    then show ?thesis using grows_trans [OF addsD [OF f run]] by (simp add: and_then_def run Inr adds_def)
  qed
qed

lemma adds_session_unregister: "text_ok env \<Longrightarrow> adds env (session_unregister env app ch)"
  unfolding session_unregister_def by (rule adds_state) (intro adds_intros adds_send, simp_all)

lemma adds_handle [adds_intros]:
  assumes ok: "text_ok env"
  shows "adds env (handle env app msg)"
proof (cases msg)
  case (Register ch key)
  then show ?thesis using adds_then_send [OF ok adds_session_register session_register_reply] by simp
next
  case (Ack us)
  have "adds env (\<lambda>s. (if ss_unacked s = {} \<and> ss_more s then next_batch env app else ret ()) s)"
    by (rule adds_state) (intro adds_intros ok)
  moreover have "handle env app (Ack us) = and_then (ack_all env app us) (\<lambda>_ s.
      (if ss_unacked s = {} \<and> ss_more s then next_batch env app else ret ()) s)"
    by (simp add: if_distribR cong: if_cong)
  ultimately show ?thesis unfolding Ack by (simp only:) (intro adds_intros)
qed (simp_all add: adds_intros adds_session_unregister adds_pong ok)

section \<open>The loop\<close>

lemma adds_leave [adds_intros]: "adds env (leave env code reason)"
  unfolding leave_def by (intro adds_intros)

lemma adds_go_on [adds_intros]: "adds env f \<Longrightarrow> adds env (go_on f)"
  unfolding go_on_def by (intro adds_intros)

lemma adds_frame_step [adds_intros]:
  assumes ok: "text_ok env"
  shows "adds env (frame_step env app f)"
proof -
  have heard: "adds env (modify (\<lambda>s. s\<lparr>ss_heard := now\<rparr>))" for now by (rule adds_modify) simp
  have "adds env (case f of Text txt \<Rightarrow> (case parse env txt of
              Some msg \<Rightarrow> go_on (handle env app msg)
            | None \<Rightarrow> leave env 1002 ''invalid message'')
       | Binary _ \<Rightarrow> leave env 1003 ''text only''
       | _ \<Rightarrow> ret True)"
    by (cases f) (simp_all add: adds_intros ok)
  then show ?thesis unfolding frame_step_def by (intro adds_intros heard)
qed

lemma adds_touch [adds_intros]: "adds env (touch_if_due env app now)"
proof -
  have touched: "adds env (modify (\<lambda>s. s\<lparr>ss_touched := now\<rparr>))" for now by (rule adds_modify) simp
  show ?thesis unfolding touch_if_due_def by (rule adds_state) (intro adds_intros touched)
qed

lemma adds_refresh [adds_intros]: "adds env (refresh_last_seen env app)"
  unfolding refresh_last_seen_def by (rule adds_state) (intro adds_intros)

lemma adds_idle_or_ping [adds_intros]: "adds env (idle_or_ping env app now)"
  unfolding idle_or_ping_def Let_def by (rule adds_state) (intro adds_intros)

lemma adds_tick_step [adds_intros]: "adds env (tick_step env app)"
  unfolding tick_step_def by (intro adds_intros)

lemma adds_serve_step [adds_intros]:
  "text_ok env \<Longrightarrow> adds env (serve_step env app step)"
  by (induction env app step rule: serve_step.induct) (simp_all add: adds_intros)

lemma grows_node [simp]: "grows env s (s\<lparr>ss_node := nd\<rparr>)"
  by (rule grows_quiet [where fs = "[]"]) auto

lemma wake_grows: "wake l r s = (x, s') \<Longrightarrow> grows env s s'"
  by (cases r) (auto simp: listen_event_def split: prod.splits recv.splits)

lemma adds_serve_loop:
  fixes app :: "'s app" and l :: listener
  assumes ok: "text_ok env"
  shows "adds env (serve_loop env app l inputs)"
proof (induction inputs)
  case (Cons i inputs)
  obtain others :: "'s node \<Rightarrow> 's node" and r where i: "i = (others, r)" by fastforce
  have turn: "adds env (\<lambda>s. case wake l r s of
         (None, s) \<Rightarrow> serve_loop env app l inputs s
       | (Some step, s) \<Rightarrow>
           and_then (serve_step env app step) (\<lambda>open.
             if open then serve_loop env app l inputs else ret False) s)"
    unfolding adds_def
  proof
    fix s :: "'s session"
    obtain x s1 where w: "wake l r s = (x, s1)" by fastforce
    have "adds env (case x of None \<Rightarrow> serve_loop env app l inputs
       | Some step \<Rightarrow> and_then (serve_step env app step) (\<lambda>open.
             if open then serve_loop env app l inputs else ret False))"
      by (intro adds_intros ok Cons.IH)
    then have "grows env s1 (snd ((case x of None \<Rightarrow> serve_loop env app l inputs
       | Some step \<Rightarrow> and_then (serve_step env app step) (\<lambda>open.
             if open then serve_loop env app l inputs else ret False)) s1))"
      by (simp add: adds_def)
    from grows_trans [OF wake_grows [OF w] this]
    show "grows env s (snd (case wake l r s of
         (None, s) \<Rightarrow> serve_loop env app l inputs s
       | (Some step, s) \<Rightarrow>
           and_then (serve_step env app step) (\<lambda>open.
             if open then serve_loop env app l inputs else ret False) s))"
      by (cases x) (simp_all add: w)
  qed
  have "adds env (modify (\<lambda>s. s\<lparr>ss_node := others (ss_node s)\<rparr>))" by (rule adds_modify) simp
  with turn show ?case unfolding i serve_loop.simps by (intro adds_intros)
qed (simp add: adds_intros)

lemma adds_serve:
  assumes "text_ok env"
  shows "adds env (serve env app l inputs)"
  unfolding serve_def
  by (rule adds_state) (intro adds_intros adds_send adds_serve_loop assms, simp)

lemma serve_adds:
  assumes "text_ok env" and "serve env app l inputs (new_session env u stored nd) = (r, s)"
  shows "deliveries env i (sk_out (ss_socket s)) \<le> 1 \<and> ss_unacked s \<subseteq> ss_sent s"
proof -
  have start: "sk_out (ss_socket (new_session env u stored nd)) = []" "ss_sent (new_session env u stored nd) = {}"
    "ss_unacked (new_session env u stored nd) = {}"
    by (simp_all add: new_session_def new_socket_def)
  from addsD [OF adds_serve [OF assms(1)] assms(2)] obtain fs where
    fs: "sk_out (ss_socket s) = fs" "deliveries env i fs \<le> (if i \<in> ss_sent s then 1 else 0)"
    and acks: "ss_unacked s \<subseteq> ss_sent s"
    by (auto simp: grows_def start)
  from fs(2) have "deliveries env i fs \<le> 1" by (simp split: if_splits)
  with fs(1) acks show ?thesis by simp
qed

text \<open>
  C10. On one connection each message is sent at most once, whatever arrives on the socket, what
  the hub delivers and how often the backlog is read, and whatever other tasks do to the node
  between two steps; and the session awaits the acknowledgement of messages it sent only.
\<close>

theorem session_sends_once:
  assumes codec: "text_ok env"
    and served: "serve env app l inputs (new_session env u stored nd) = (r, s)"
    and connection: "run env app arrivals inputs0 nd0 = (r', sk, nd')"
  shows "deliveries env i (sk_out (ss_socket s)) \<le> 1 \<and> ss_unacked s \<subseteq> ss_sent s \<and>
    deliveries env i (sk_out sk) \<le> 1"
proof -
  have closed: "deliveries env i (sk_out (snd (close_socket env c reason new_socket))) = 0"
    "deliveries env i (sk_out new_socket) = 0" for c reason
    by (simp_all add: close_socket_def socket_send_def new_socket_def Let_def case_prod_beta)
  have "deliveries env i (sk_out sk) \<le> 1"
    using connection closed(1) [of 1002 "''expected hello''"] closed(2) serve_adds [OF codec, of app]
    by (auto simp: run_def split: option.splits client_message.splits prod.splits sum.splits)
  with serve_adds [OF codec served] show ?thesis by blast
qed

text \<open>A codec whose texts determine the values: \<open>{}\<close> for the empty object, a number for the others.\<close>

instance json :: countable
  by countable_datatype

definition demo_text :: "json \<Rightarrow> string" where
  "demo_text v = (if v = JObject [] then ''{}'' else show_nat (to_nat v))"

definition demo_env :: session_env where
  "demo_env = \<lparr>sv_json = \<lambda>txt. Some (JString txt), sv_client = \<lambda>v. if v = JString ''hello'' then Some (Hello None) else None,
     sv_text = demo_text, sv_sends = \<lambda>_. True, sv_instant = \<lambda>k. k\<rparr>"

lemma demo_text_ok: "text_ok demo_env"
proof -
  have braces: "show_nat n \<noteq> ''{}''" for n
    using show_nat_digits [of n] by (auto simp: is_ascii_digit_def less_eq_char_def)
  have "inj demo_text"
    by (rule injI) (auto simp: demo_text_def show_nat_inject braces braces [symmetric] split: if_splits)
  then show ?thesis by (simp add: text_ok_def demo_env_def demo_text_def)
qed

text \<open>A message that the hub delivers twice is sent once.\<close>

definition demo_notification :: notification where
  "demo_notification = \<lparr>n_id = ''m'', n_channel_id = ''c'', n_body = [], n_encoding = None\<rparr>"

definition demo_inputs :: "((state node \<Rightarrow> state node) \<times> serve_ready) list" where
  "demo_inputs = [(app_notify demo_app (UserAgent ''u'') (Message demo_notification), EventReady),
     (app_notify demo_app (UserAgent ''u'') (Message demo_notification), EventReady)]"

definition demo_hub :: hub where
  "demo_hub = snd (register (UserAgent ''u'') (new_hub 8))"

definition demo_served :: "(box_error + bool) \<times> state session" where
  "demo_served = serve demo_env demo_app \<lparr>ls_rx = 0, ls_to = UserAgent ''u'', ls_id = 0\<rparr> demo_inputs
     (new_session demo_env ''u'' False ((demo_node new_state (\<lambda>_. Lost))\<lparr>nd_hub := demo_hub\<rparr>))"

lemma session_sends_once_witness:
  "deliveries demo_env ''m'' (sk_out (ss_socket (snd demo_served))) \<le> 1 \<and>
   length (sk_out (ss_socket (snd demo_served))) = 2 \<and> ss_sent (snd demo_served) = {''m''}"
proof -
  obtain r s where served: "demo_served = (r, s)" by fastforce
  obtain r' sk nd' where connection: "run demo_env demo_app None demo_inputs (demo_node new_state (\<lambda>_. Lost)) = (r', sk, nd')"
    by (metis prod.exhaust)
  from session_sends_once [OF demo_text_ok served [unfolded demo_served_def] connection]
  have "deliveries demo_env ''m'' (sk_out (ss_socket (snd demo_served))) \<le> 1" by (simp add: served)
  moreover have "length (sk_out (ss_socket (snd demo_served))) = 2 \<and> ss_sent (snd demo_served) = {''m''}"
    by (simp add: demo_served_def serve_def demo_inputs_def demo_hub_def new_session_def new_socket_def
        send_def send_text_def on_socket_def socket_send_def demo_env_def and_then_def modify_def
        app_notify_def notify_def register_def new_hub_def offer_def chan_send_def listen_event_def receive_def
        chan_recv_def go_on_def session_notify_def demo_node_def new_node_def demo_notification_def)
  ultimately show ?thesis by blast
qed

end
