(* ===== verification/Session_Store.thy ===== *)
theory Session_Store
  imports Backlog Session_Props
begin

text \<open>
  The session on the in-memory store: what an acknowledgement deletes and owes, and that the
  backlog reaches a user agent that acknowledges it.
\<close>

section \<open>Acknowledgements\<close>


section \<open>The backlog\<close>

text \<open>
  C7. A user agent that acknowledges every batch it receives receives its whole backlog: each
  stored message exactly once, oldest first, however many batches that takes; then none of its
  messages is stored and none is awaited.
\<close>

theorem backlog_drains:
  assumes S: "ap_store app = mem_store b64 ord" and ok: "mem_ok (nd_store (ss_node s), nd_world (ss_node s))"
    and sends: "\<forall>k. sv_sends env k" and batch: "0 < backlog_batch app"
    and room: "seq_room (length ms) (nd_world (ss_node s))"
    and bl: "backlog_of (mem_view (nd_store (ss_node s))) (nd_world (ss_node s)) (ss_uaid s) ms"
    and named: "\<forall>m\<in>set ms. well_named m"
    and fresh: "ss_unacked s = {}" "m_id ` set ms \<inter> ss_sent s = {}"
  shows "\<exists>s'. drain env app ms s = (Inr (), s') \<and>
    sk_out (ss_socket s') = sk_out (ss_socket s) @ map (delivery env app) ms \<and> ss_unacked s' = {} \<and>
    (\<forall>i m. sp_msgs (mem_view (nd_store (ss_node s'))) i = Some m \<longrightarrow> m_uaid m \<noteq> ss_uaid s)"
  using reliable.drain_effect [OF S ok spec [OF sends] batch room bl named fresh] by blast

section \<open>Concrete sessions\<close>

definition demo_mail :: "char \<Rightarrow> u64 \<Rightarrow> message" where
  "demo_mail c accepted =
     \<lparr>m_id = replicate 22 c, m_uaid = ''u'', m_channel_id = ''11111111-1111-1111-1111-111111111111'', m_push = ''p'',
      m_topic = None, m_body = [1], m_ctype = None, m_cenc = None, m_ttl = 60, m_urgency = Normal,
      m_accepted = accepted, m_expiry = 5000, m_rsub = Some ''r''\<rparr>"

definition demo_mailbox :: state where
  "demo_mailbox = mem_insert_message (demo_mail (CHR ''b'') 2) (mem_insert_message (demo_mail (CHR ''a'') 1) new_state)"

definition demo_small_app :: "state app" where
  "demo_small_app = demo_app\<lparr>ap_cfg := demo_config\<lparr>cf_websocket := (cf_websocket demo_config)\<lparr>ws_backlog_batch := 1\<rparr>\<rparr>\<rparr>"

definition demo_reader :: "state session" where
  "demo_reader = new_session demo_env ''u'' True (demo_node demo_mailbox (\<lambda>_. Lost))"

lemma demo_mail_channel: "channel_id ''11111111-1111-1111-1111-111111111111'' = Some ''11111111-1111-1111-1111-111111111111''"
  by code_simp

lemma demo_mail_named: "well_named (demo_mail (CHR ''a'') t)" "well_named (demo_mail (CHR ''b'') t)"
  by (simp_all add: well_named_def demo_mail_def demo_mail_channel is_id_def is_b64url_def is_ascii_alphanumeric_def
      is_ascii_lower_def less_eq_char_def list_all_iff)

lemma demo_mailbox_facts:
  "mem_ok (demo_mailbox, w)"
  "hget (st_messages demo_mailbox) i =
     (if i = replicate 22 (CHR ''b'') then Some (demo_mail (CHR ''b'') 2)
      else if i = replicate 22 (CHR ''a'') then Some (demo_mail (CHR ''a'') 1) else None)"
proof -
  have one: "mem_ok (mem_insert_message (demo_mail (CHR ''a'') 1) new_state, w)"
    "mem_view (mem_insert_message (demo_mail (CHR ''a'') 1) new_state) = spec_insert_message (demo_mail (CHR ''a'') 1) (mem_view new_state)"
    using insert_message_refines [OF mem_ok_new [of w], where m = "demo_mail (CHR ''a'') 1"] by (simp_all add: new_state_def)
  have "hget (st_messages (mem_insert_message (demo_mail (CHR ''a'') 1) new_state)) (m_id (demo_mail (CHR ''b'') 2)) = None"
    by (simp add: mem_insert_message_def demo_mail_def new_state_def Let_def numeral_eq_Suc)
  note two = insert_message_refines [OF one(1) this]
  show "mem_ok (demo_mailbox, w)" using two(1) by (simp add: demo_mailbox_def)
  have "sp_msgs (mem_view demo_mailbox) i =
     (if i = replicate 22 (CHR ''b'') then Some (demo_mail (CHR ''b'') 2)
      else if i = replicate 22 (CHR ''a'') then Some (demo_mail (CHR ''a'') 1) else None)"
    unfolding demo_mailbox_def two(2) one(2)
    by (simp add: spec_insert_message_def replaces_def demo_mail_def new_state_def)
  then show "hget (st_messages demo_mailbox) i =
     (if i = replicate 22 (CHR ''b'') then Some (demo_mail (CHR ''b'') 2)
      else if i = replicate 22 (CHR ''a'') then Some (demo_mail (CHR ''a'') 1) else None)" by simp
qed

lemma demo_ids: "m_id (demo_mail c t) = replicate 22 c" "m_uaid (demo_mail c t) = ''u''"
    "m_expiry (demo_mail c t) = 5000" "m_accepted (demo_mail c t) = t"
  by (simp_all add: demo_mail_def)

lemma demo_reader_facts:
  "ss_node demo_reader = demo_node demo_mailbox (\<lambda>_. Lost)" "ss_uaid demo_reader = ''u''" "ss_sent demo_reader = {}"
  "ss_unacked demo_reader = {}" "nd_store (ss_node demo_reader) = demo_mailbox"
  "nd_world (ss_node demo_reader) = demo_world_0" "sk_out (ss_socket demo_reader) = []"
  by (simp_all add: demo_reader_def new_session_def demo_node_def new_node_def new_socket_def)

lemma demo_world_room: "seq_room 2 demo_world_0" "seq_room 1 demo_world_0"
  by (simp_all add: seq_room_def demo_world_0_def)


lemma backlog_drains_witness:
  "\<exists>s'. drain demo_env demo_small_app [demo_mail (CHR ''a'') 1, demo_mail (CHR ''b'') 2] demo_reader = (Inr (), s') \<and>
     length (sk_out (ss_socket s')) = 2 \<and> backlog_batch demo_small_app = 1"
proof -
  let ?ms = "[demo_mail (CHR ''a'') 1, demo_mail (CHR ''b'') 2]"
  have batch: "backlog_batch demo_small_app = 1" by (simp add: backlog_batch_def demo_small_app_def)
  have store: "ap_store demo_small_app = mem_store url_base64 (Abs_ordering forward_order)"
    by (simp add: demo_small_app_def demo_app_simps)
  have "fst (now_ms w') = 1000" if "world_le demo_world_0 w'" for w'
    using that by (simp add: world_le_def now_ms_def demo_world_0_def Let_def)
  then have bl: "backlog_of (mem_view (nd_store (ss_node demo_reader))) (nd_world (ss_node demo_reader)) (ss_uaid demo_reader) ?ms"
    unfolding demo_reader_facts(2,5,6)
    by (auto simp: backlog_of_def demo_mailbox_facts(2) demo_ids older_def split: if_splits)
  have ok: "mem_ok (nd_store (ss_node demo_reader), nd_world (ss_node demo_reader))"
    by (simp only: demo_reader_facts(5,6) demo_mailbox_facts(1))
  have room: "seq_room (length ?ms) (nd_world (ss_node demo_reader))"
    unfolding demo_reader_facts(6) using demo_world_room by (simp add: numeral_2_eq_2)
  have sends: "\<forall>k. sv_sends demo_env k" by (simp add: demo_env_def)
  have named: "\<forall>m\<in>set ?ms. well_named m" using demo_mail_named by simp
  obtain s' where "drain demo_env demo_small_app ?ms demo_reader = (Inr (), s')"
    "sk_out (ss_socket s') = sk_out (ss_socket demo_reader) @ map (delivery demo_env demo_small_app) ?ms"
    using backlog_drains [OF store ok sends _ room bl named] batch demo_reader_facts by auto
  then show ?thesis by (intro exI [of _ s']) (simp add: batch demo_reader_facts)
qed

end
