(* ===== verification/Receipts_Stream.thy ===== *)
theory Receipts_Stream
  imports Endpoint Owed
begin

text \<open>
  \<open>crates/webpush-server/src/receipts.rs\<close>: a receipt subscription's event stream. The
  response body is a \<open>tokio\<close> channel that takes what is written until the client has gone;
  the pump that fills it threads its own state and the node.
\<close>

section \<open>The pump\<close>

text \<open>\<open>pv_text\<close> is the text of a JSON value, \<open>pv_writes k\<close> whether the client is still there at
  the \<open>k\<close>-th write.\<close>

record pump_env =
  pv_text :: "json \<Rightarrow> string"
  pv_writes :: "nat \<Rightarrow> bool"

record 's pump =
  pp_node :: "'s node"
  pp_seen :: "u64 set"
  pp_out :: "string list"
  pp_writes :: nat

definition newline :: char where
  "newline = CHR 0x0A"

definition pump_write :: "pump_env \<Rightarrow> string \<Rightarrow> 's pump \<Rightarrow> bool \<times> 's pump" where
  "pump_write env txt p =
     (let k = pp_writes p; p = p\<lparr>pp_writes := Suc k\<rparr>
      in if pv_writes env k then (True, p\<lparr>pp_out := pp_out p @ [txt]\<rparr>) else (False, p))"

definition receipt_event :: "pump_env \<Rightarrow> 's app \<Rightarrow> u64 \<Rightarrow> receipt \<Rightarrow> string" where
  "receipt_event env app seq r =
     (let data = pv_text env (JObject [(''message'', JString (message_url app (rc_msg_id r))),
            (''status'', JNumber (Some (ucast (rc_status r))))])
      in ''event: receipt'' @ [newline] @ ''id: '' @ show_nat (unat seq) @ [newline] @ ''data: '' @ data @
         [newline, newline])"

definition gone_event :: string where
  "gone_event = ''event: gone'' @ [newline] @ ''data: {}'' @ [newline, newline]"

definition keepalive_comment :: string where
  "keepalive_comment = '': keepalive'' @ [newline, newline]"

text \<open>A storage error while removing the receipt is logged and ignored.\<close>

definition emit :: "pump_env \<Rightarrow> 's app \<Rightarrow> u64 \<Rightarrow> receipt \<Rightarrow> 's pump \<Rightarrow> bool \<times> 's pump" where
  "emit env app seq r p =
     (if seq \<in> pp_seen p then (True, p)
      else
        case pump_write env (receipt_event env app seq r) (p\<lparr>pp_seen := insert seq (pp_seen p)\<rparr>) of
          (False, p) \<Rightarrow> (False, p)
        | (True, p) \<Rightarrow>
            (True, p\<lparr>pp_node := snd (on_store (so_delete_receipt (ap_store app) (rc_rsub r) seq) (pp_node p))\<rparr>))"

fun emit_backlog ::
  "pump_env \<Rightarrow> 's app \<Rightarrow> (u64 \<times> receipt) list \<Rightarrow> bool \<Rightarrow> 's pump \<Rightarrow> bool \<times> 's pump" where
  "emit_backlog env app [] open p = (open, p)"
| "emit_backlog env app ((seq, r) # backlog) open p =
     (if open
      then (case emit env app seq r p of (open, p) \<Rightarrow> emit_backlog env app backlog open p)
      else emit_backlog env app backlog open p)"

datatype stream_step = PumpEvent "event option" | Keepalive | ClientClosed

fun pump_step :: "pump_env \<Rightarrow> 's app \<Rightarrow> stream_step \<Rightarrow> 's pump \<Rightarrow> bool \<times> 's pump" where
  "pump_step env app (PumpEvent (Some (Receipt seq r))) p = emit env app seq r p"
| "pump_step env app (PumpEvent (Some Gone)) p = (False, snd (pump_write env gone_event p))"
| "pump_step env app (PumpEvent None) p = (False, snd (pump_write env gone_event p))"
| "pump_step env app (PumpEvent (Some (Message _))) p = (True, p)"
| "pump_step env app Keepalive p = pump_write env keepalive_comment p"
| "pump_step env app ClientClosed p = (False, p)"

text \<open>What is ready: an event, the keep-alive timer, or the client's or the service's end.\<close>

datatype pump_ready = PumpEventReady | KeepaliveReady | ClosedReady

fun pump_wake :: "listener \<Rightarrow> pump_ready \<Rightarrow> 's pump \<Rightarrow> stream_step option \<times> 's pump" where
  "pump_wake l PumpEventReady p =
     (case receive (ls_rx l) (nd_hub (pp_node p)) of (r, h) \<Rightarrow>
        let p = p\<lparr>pp_node := (pp_node p)\<lparr>nd_hub := h\<rparr>\<rparr>
        in case r of Got e \<Rightarrow> (Some (PumpEvent (Some e)), p) | Ended \<Rightarrow> (Some (PumpEvent None), p)
           | Empty \<Rightarrow> (None, p))"
| "pump_wake l KeepaliveReady p = (Some Keepalive, p)"
| "pump_wake l ClosedReady p = (Some ClientClosed, p)"

text \<open>The loop on what the node's other tasks do and what is ready then; the value says whether
  the stream is still open.\<close>

fun pump_loop ::
  "pump_env \<Rightarrow> 's app \<Rightarrow> listener \<Rightarrow> (('s node \<Rightarrow> 's node) \<times> pump_ready) list \<Rightarrow> bool \<Rightarrow> 's pump \<Rightarrow>
   bool \<times> 's pump" where
  "pump_loop env app l inputs False p = (False, p)"
| "pump_loop env app l [] True p = (True, p)"
| "pump_loop env app l ((others, r) # inputs) True p =
     (case pump_wake l r (p\<lparr>pp_node := others (pp_node p)\<rparr>) of
        (None, p) \<Rightarrow> pump_loop env app l inputs True p
      | (Some step, p) \<Rightarrow>
          (case pump_step env app step p of (open, p) \<Rightarrow> pump_loop env app l inputs open p))"

definition new_pump :: "'s node \<Rightarrow> 's pump" where
  "new_pump nd = \<lparr>pp_node = nd, pp_seen = {}, pp_out = [], pp_writes = 0\<rparr>"

text \<open>When the pump ends, its listener is dropped. Without a listener only the queue is read.\<close>

definition run_pump ::
  "pump_env \<Rightarrow> 's app \<Rightarrow> listener option \<Rightarrow> (u64 \<times> receipt) list \<Rightarrow>
   (('s node \<Rightarrow> 's node) \<times> pump_ready) list \<Rightarrow> 's pump \<Rightarrow> bool \<times> 's pump" where
  "run_pump env app listener backlog inputs p =
     (case emit_backlog env app backlog True p of (open, p) \<Rightarrow>
        (case listener of
           None \<Rightarrow> (False, p)
         | Some l \<Rightarrow>
             (case pump_loop env app l inputs open p of (open, p) \<Rightarrow>
                (open, if open then p else p\<lparr>pp_node := drop_listener app l (pp_node p)\<rparr>))))"

section \<open>Opening a stream\<close>

text \<open>The response, and what the spawned pump starts with. A request that ends early drops its
  listener.\<close>

definition stream ::
  "'s app \<Rightarrow> string \<Rightarrow> header_map \<Rightarrow>
   ('s node, http_error, response \<times> (listener option \<times> (u64 \<times> receipt) list) option) act" where
  "stream app i headers nd =
     (case valid_id i of
        Inl e \<Rightarrow> (Inl e, nd)
      | Inr rsub \<Rightarrow>
          let wait0 = (wait (prefer_header headers) = Some 0);
              stop = (\<lambda>listener nd. case listener of None \<Rightarrow> nd | Some l \<Rightarrow> drop_listener app l nd)
          in case (if wait0 then (Inr None, nd)
                   else case listen app (Receipts rsub) nd of
                          (Inl e, nd) \<Rightarrow> (Inl (of_box e), nd) | (Inr l, nd) \<Rightarrow> (Inr (Some l), nd)) of
               (Inl e, nd) \<Rightarrow> (Inl e, nd)
             | (Inr listener, nd) \<Rightarrow>
                 (case and_then (try_store (so_receipt_sub_exists (ap_store app) rsub)) (\<lambda>exists.
                       if \<not> exists then fail (of_status 404)
                       else try_store (so_queued_receipts (ap_store app) rsub)) nd of
                    (Inl e, nd) \<Rightarrow> (Inl e, stop listener nd)
                  | (Inr backlog, nd) \<Rightarrow>
                      if wait0 \<and> backlog = [] then (Inr (status_response 204, None), nd)
                      else (Inr (\<lparr>rs_status = 200, rs_headers = [(''content-type'', ''text/event-stream''),
                               (''cache-control'', ''no-cache'')], rs_body = EventStream\<rparr>,
                             Some (listener, backlog)), nd)))"

end
