(* ===== verification/Receipts_Props.thy ===== *)
theory Receipts_Props
  imports Receipts_Stream
begin

text \<open>
  What a receipt stream writes: each receipt at most once, and of the queue exactly what the
  client took leaves it.
\<close>

section \<open>Each receipt once\<close>

definition announces :: "pump_env \<Rightarrow> 's app \<Rightarrow> u64 \<Rightarrow> string \<Rightarrow> bool" where
  "announces env app seq txt \<longleftrightarrow> (\<exists>r. txt = receipt_event env app seq r)"

definition announcements :: "pump_env \<Rightarrow> 's app \<Rightarrow> u64 \<Rightarrow> string list \<Rightarrow> nat" where
  "announcements env app seq out = length (filter (announces env app seq) out)"

lemma show_nat_line: "show_nat a @ newline # x = show_nat b @ newline # y \<Longrightarrow> a = b"
proof -
  assume eq: "show_nat a @ newline # x = show_nat b @ newline # y"
  have digits: "takeWhile is_ascii_digit (show_nat n @ newline # z) = show_nat n" for n z
    using show_nat_digits [of n] by (simp add: takeWhile_append2 list_all_iff newline_def is_ascii_digit_def less_eq_char_def)
  from eq digits [of a x] digits [of b y] have "show_nat a = show_nat b" by metis
  then show ?thesis by (simp add: show_nat_inject)
qed

lemma announces_event [simp]: "announces env app seq (receipt_event env app seq' r) \<longleftrightarrow> seq = seq'"
proof
  assume "announces env app seq (receipt_event env app seq' r)"
  then obtain r' where "receipt_event env app seq' r = receipt_event env app seq r'" by (auto simp: announces_def)
  then have "unat seq' = unat seq" by (auto simp: receipt_event_def Let_def dest: show_nat_line)
  then have "seq' = seq" by (rule unsigned_word_eqI)
  then show "seq = seq'" by simp
qed (auto simp: announces_def)

lemma announces_other [simp]: "\<not> announces env app seq gone_event" "\<not> announces env app seq keepalive_comment"
  by (simp_all add: announces_def receipt_event_def gone_event_def keepalive_comment_def Let_def)

lemma announcements_simps [simp]:
  "announcements env app seq [] = 0"
  "announcements env app seq (xs @ ys) = announcements env app seq xs + announcements env app seq ys"
  "announcements env app seq (x # xs) =
     (if announces env app seq x then Suc (announcements env app seq xs) else announcements env app seq xs)"
  by (simp_all add: announcements_def)

text \<open>Invariant of the pump: only receipts it has seen are written, each at most once.\<close>

definition pump_ok :: "pump_env \<Rightarrow> 's app \<Rightarrow> 's pump \<Rightarrow> bool" where
  "pump_ok env app p \<longleftrightarrow> (\<forall>seq. announcements env app seq (pp_out p) \<le> (if seq \<in> pp_seen p then 1 else 0))"

lemma pump_ok_node [simp]: "pump_ok env app (p\<lparr>pp_node := nd\<rparr>) = pump_ok env app p"
  by (simp add: pump_ok_def)

lemma pump_ok_new: "pump_ok env app (new_pump nd)"
  by (simp add: pump_ok_def new_pump_def)

lemma pump_ok_emit:
  assumes "pump_ok env app p"
  shows "pump_ok env app (snd (emit env app seq r p))"
  unfolding pump_ok_def
proof
  fix i
  have "announcements env app j (pp_out p) \<le> (if j \<in> pp_seen p then 1 else 0)" for j
    using assms by (simp add: pump_ok_def)
  from this [of i] show "announcements env app i (pp_out (snd (emit env app seq r p))) \<le>
      (if i \<in> pp_seen (snd (emit env app seq r p)) then 1 else 0)"
    by (auto simp: emit_def pump_write_def Let_def split: if_splits)
qed

lemma pump_ok_write:
  "pump_ok env app p \<Longrightarrow> (\<And>seq. \<not> announces env app seq txt) \<Longrightarrow> pump_ok env app (snd (pump_write env txt p))"
  by (simp add: pump_write_def pump_ok_def Let_def)

lemma pump_ok_backlog: "pump_ok env app p \<Longrightarrow> pump_ok env app (snd (emit_backlog env app backlog open p))"
proof (induction env app backlog "open" p rule: emit_backlog.induct)
  case (2 env app seq r backlog "open" p)
  then show ?case using pump_ok_emit [of env app p seq r] by (cases "emit env app seq r p") simp
qed simp

lemma pump_ok_step: "pump_ok env app p \<Longrightarrow> pump_ok env app (snd (pump_step env app step p))"
  by (induction env app step p rule: pump_step.induct) (simp_all add: pump_ok_emit pump_ok_write)

lemma pump_ok_wake: "pump_ok env app p \<Longrightarrow> pump_ok env app (snd (pump_wake l r p))"
  by (cases r) (simp_all add: case_prod_beta Let_def split: recv.split)

lemma pump_ok_loop: "pump_ok env app p \<Longrightarrow> pump_ok env app (snd (pump_loop env app l inputs open p))"
proof (induction env app l inputs "open" p rule: pump_loop.induct)
  case (3 env app l others r inputs p)
  obtain x p1 where wake: "pump_wake l r (p\<lparr>pp_node := others (pp_node p)\<rparr>) = (x, p1)" by fastforce
  have ok1: "pump_ok env app p1" using pump_ok_wake [of env app "p\<lparr>pp_node := others (pp_node p)\<rparr>" l r] 3 wake by simp
  show ?case
  proof (cases x)
    case None
    with 3 wake ok1 show ?thesis by simp
  next
    case (Some step)
    obtain b p2 where step: "pump_step env app step p1 = (b, p2)" by fastforce
    have "pump_ok env app p2" using pump_ok_step [OF ok1, of step] step by simp
    then have "pump_ok env app (snd (pump_loop env app l inputs b p2))"
      using "3.IH"(2) [OF wake [symmetric] Some step [symmetric]] by simp
    with wake Some step show ?thesis by simp
  qed
qed simp_all

text \<open>
  C24. A stream writes each receipt at most once, though it may arrive from the queue and live,
  and whatever other tasks do to the node meanwhile; and a receipt that could not be written is
  not removed from the queue.
\<close>

theorem receipt_written_once:
  assumes "run_pump env app listener backlog inputs (new_pump nd) = (open, p)"
  shows "announcements env app seq (pp_out p) \<le> 1 \<and>
    (emit env app seq r q = (False, q') \<longrightarrow> pp_node q' = pp_node q)"
proof -
  obtain o1 p1 where backlog: "emit_backlog env app backlog True (new_pump nd) = (o1, p1)" by fastforce
  have ok1: "pump_ok env app p1" using pump_ok_backlog [OF pump_ok_new, of env app backlog True nd] backlog by simp
  have "pump_ok env app p"
  proof (cases listener)
    case None
    with assms backlog ok1 show ?thesis by (simp add: run_pump_def)
  next
    case (Some l)
    obtain o2 p2 where loop: "pump_loop env app l inputs o1 p1 = (o2, p2)" by fastforce
    have "pump_ok env app p2" using pump_ok_loop [OF ok1, of l inputs o1] loop by simp
    with assms backlog Some loop show ?thesis by (auto simp: run_pump_def split: if_splits)
  qed
  then have "announcements env app seq (pp_out p) \<le> 1"
    unfolding pump_ok_def by (metis (full_types) le_zero_eq nat_le_linear)
  moreover have "emit env app seq r q = (False, q') \<longrightarrow> pp_node q' = pp_node q"
    by (auto simp: emit_def pump_write_def Let_def split: if_splits)
  ultimately show ?thesis by blast
qed

section \<open>The queue\<close>

context reliable_store
begin

lemma emit_effect:
  assumes S: "ap_store app = S" and ok: "node_ok (pp_node p)"
    and q: "sp_queues (view (nd_store (pp_node p))) rsub = Some ((seq, r) # q)" and own: "rc_rsub r = rsub"
    and ids: "seq \<notin> fst ` set q" and new: "seq \<notin> pp_seen p" and there: "pv_writes env (pp_writes p)"
  shows "\<exists>p'. emit env app seq r p = (True, p') \<and> node_ok (pp_node p') \<and>
    sp_queues (view (nd_store (pp_node p'))) rsub = Some q \<and> pp_seen p' = insert seq (pp_seen p) \<and>
    pp_out p' = pp_out p @ [receipt_event env app seq r] \<and> pp_writes p' = Suc (pp_writes p)"
proof -
  let ?p1 = "p\<lparr>pp_seen := insert seq (pp_seen p), pp_writes := Suc (pp_writes p),
      pp_out := pp_out p @ [receipt_event env app seq r]\<rparr>"
  from on_store_ex [OF receipt_returns(6) delete_receipt [OF ok, of rsub seq, unfolded fst_conv snd_conv]] obtain x s w where
    call: "on_store (so_delete_receipt S rsub seq) (pp_node p) = (Inr x, (pp_node p)\<lparr>nd_store := s, nd_world := w\<rparr>)"
    and eff: "inv (s, w)" "view s = (view (nd_store (pp_node p)))\<lparr>sp_queues :=
              (\<lambda>k. if k = rsub then map_option (AList.delete seq) (sp_queues (view (nd_store (pp_node p))) k)
                    else sp_queues (view (nd_store (pp_node p))) k)\<rparr>" by auto
  have "AList.delete seq ((seq, r) # q) = q" using ids by (simp add: delete_id)
  then have "sp_queues (view s) rsub = Some q" by (simp add: eff(2) q)
  moreover have "emit env app seq r p = (True, ?p1\<lparr>pp_node := (pp_node p)\<lparr>nd_store := s, nd_world := w\<rparr>\<rparr>)"
    using new there by (simp add: emit_def pump_write_def Let_def S own call)
  ultimately show ?thesis using eff(1)
    by (intro exI [of _ "?p1\<lparr>pp_node := (pp_node p)\<lparr>nd_store := s, nd_world := w\<rparr>\<rparr>"]) simp
qed

lemma emit_backlog_closed: "emit_backlog env app backlog False p = (False, p)"
  by (induction backlog) auto

text \<open>How many of \<open>n\<close> writes from the \<open>k\<close>-th on the client takes.\<close>

definition writes_taken :: "pump_env \<Rightarrow> nat \<Rightarrow> nat \<Rightarrow> nat" where
  "writes_taken env k n = length (takeWhile (pv_writes env) [k..<k + n])"

lemma writes_taken_simps: "writes_taken env k 0 = 0"
  "writes_taken env k (Suc n) = (if pv_writes env k then Suc (writes_taken env (Suc k) n) else 0)"
  by (simp_all add: writes_taken_def upt_conv_Cons del: upt_Suc)

lemma emit_backlog_effect:
  assumes S: "ap_store app = S"
  shows "node_ok (pp_node p) \<Longrightarrow> sp_queues (view (nd_store (pp_node p))) rsub = Some q \<Longrightarrow>
    \<forall>x\<in>set q. rc_rsub (snd x) = rsub \<Longrightarrow> distinct (map fst q) \<Longrightarrow> fst ` set q \<inter> pp_seen p = {} \<Longrightarrow>
    \<exists>p'. emit_backlog env app q True p = (writes_taken env (pp_writes p) (length q) = length q, p') \<and>
      node_ok (pp_node p') \<and>
      pp_out p' = pp_out p @ map (\<lambda>(seq, r). receipt_event env app seq r) (take (writes_taken env (pp_writes p) (length q)) q) \<and>
      sp_queues (view (nd_store (pp_node p'))) rsub = Some (drop (writes_taken env (pp_writes p) (length q)) q)"
proof (induction q arbitrary: p)
  case Nil
  then show ?case by (simp add: writes_taken_simps)
next
  case (Cons x q)
  obtain seq r where x: "x = (seq, r)" by fastforce
  have prem: "rc_rsub r = rsub" "seq \<notin> fst ` set q" "seq \<notin> pp_seen p"
    using Cons.prems(3-5) by (auto simp: x)
  show ?case
  proof (cases "pv_writes env (pp_writes p)")
    case True
    obtain p1 where one: "emit env app seq r p = (True, p1)" "node_ok (pp_node p1)"
      "sp_queues (view (nd_store (pp_node p1))) rsub = Some q" "pp_seen p1 = insert seq (pp_seen p)"
      "pp_out p1 = pp_out p @ [receipt_event env app seq r]" "pp_writes p1 = Suc (pp_writes p)"
      using emit_effect [OF S Cons.prems(1) Cons.prems(2) [unfolded x] prem True] by blast
    have "\<forall>x\<in>set q. rc_rsub (snd x) = rsub" "distinct (map fst q)" "fst ` set q \<inter> pp_seen p1 = {}"
      using Cons.prems(3-5) prem(2) by (auto simp: one(4) x)
    from Cons.IH [OF one(2,3) this] show ?thesis
      using True one by (simp add: x writes_taken_simps)
  next
    case False
    then have "emit env app seq r p = (False, p\<lparr>pp_seen := insert seq (pp_seen p), pp_writes := Suc (pp_writes p)\<rparr>)"
      using prem(3) by (simp add: emit_def pump_write_def Let_def)
    then show ?thesis using False Cons.prems(1,2) by (simp add: x writes_taken_simps emit_backlog_closed)
  qed
qed

end

text \<open>
  C23. Reading the queue writes its receipts oldest first until the client is gone; exactly those
  written leave the queue, and all others stay in it, in order.
\<close>

theorem queue_read:
  assumes S: "ap_store app = mem_store b64 ord" and ok: "mem_ok (nd_store nd, nd_world nd)"
    and q: "sp_queues (mem_view (nd_store nd)) rsub = Some q"
  shows "\<exists>p. run_pump env app None q inputs (new_pump nd) = (False, p) \<and>
    (let n = length (takeWhile (pv_writes env) [0..<length q])
     in pp_out p = map (\<lambda>(seq, r). receipt_event env app seq r) (take n q) \<and>
        sp_queues (mem_view (nd_store (pp_node p))) rsub = Some (drop n q))"
proof -
  have "queues_ok (st_receipts (nd_store nd))" using ok by (simp add: mem_ok_def mem_inv_def)
  with q have own: "\<forall>x\<in>set q. rc_rsub (snd x) = rsub" and ids: "distinct (map fst q)"
    by (simp_all add: queues_ok_def bt_sorted_distinct)
  have start: "pp_node (new_pump nd) = nd" "pp_seen (new_pump nd) = {}" "pp_out (new_pump nd) = []"
    "pp_writes (new_pump nd) = 0" by (simp_all add: new_pump_def)
  have "mem_ok (nd_store (pp_node (new_pump nd)), nd_world (pp_node (new_pump nd)))"
    "sp_queues (mem_view (nd_store (pp_node (new_pump nd)))) rsub = Some q"
    "fst ` set q \<inter> pp_seen (new_pump nd) = {}" using ok q by (simp_all add: start)
  from reliable.emit_backlog_effect [OF S this(1,2) own ids this(3), of env] show ?thesis
    unfolding start by (elim exE) (auto simp: run_pump_def Let_def reliable.writes_taken_def)
qed

definition demo_pump_env :: pump_env where
  "demo_pump_env = \<lparr>pv_text = \<lambda>_. ''x'', pv_writes = \<lambda>k. k < 1\<rparr>"

definition demo_queue :: "(u64 \<times> receipt) list" where
  "demo_queue = [(1, \<lparr>rc_rsub = ''r'', rc_msg_id = ''a'', rc_status = 204\<rparr>),
     (2, \<lparr>rc_rsub = ''r'', rc_msg_id = ''b'', rc_status = 410\<rparr>)]"

lemma receipt_written_once_witness:
  "announcements demo_pump_env demo_app 1 (pp_out (snd (run_pump demo_pump_env demo_app None (demo_queue @ demo_queue) []
      (new_pump (demo_node new_state (\<lambda>_. Lost)))))) \<le> 1"
  using receipt_written_once [OF prod.collapse [symmetric]] by blast

definition demo_queue_node :: "state node" where
  "demo_queue_node = (demo_node (new_state\<lparr>st_receipts := [(''r'', demo_queue)]\<rparr>) (\<lambda>_. Lost))\<lparr>
     nd_world := demo_world_0\<lparr>wl_last := 2\<rparr>\<rparr>"

lemma queue_read_witness:
  "\<exists>p. run_pump demo_pump_env demo_app None demo_queue [] (new_pump demo_queue_node) = (False, p) \<and>
     length (pp_out p) = 1 \<and> sp_queues (mem_view (nd_store (pp_node p))) ''r'' = Some (tl demo_queue)"
proof -
  have "queues_ok [(''r'', demo_queue)]" by (simp add: queues_ok_def hget_def demo_queue_def)
  moreover have "queue_bound (new_state\<lparr>st_receipts := [(''r'', demo_queue)]\<rparr>) (demo_world_0\<lparr>wl_last := 2\<rparr>)"
    by (auto simp: queue_bound_def hget_def demo_queue_def split: if_splits)
  ultimately have ok: "mem_ok (nd_store demo_queue_node, nd_world demo_queue_node)"
    using mem_ok_receipts [OF mem_ok_new] by (simp add: demo_queue_node_def demo_node_def new_node_def)
  have q: "sp_queues (mem_view (nd_store demo_queue_node)) ''r'' = Some demo_queue"
    by (simp add: demo_queue_node_def demo_node_def new_node_def hget_def)
  have "[0..<length demo_queue] = [0, 1]" by (simp add: demo_queue_def upt_rec)
  then have n: "length (takeWhile (pv_writes demo_pump_env) [0..<length demo_queue]) = 1" by (simp add: demo_pump_env_def)
  from queue_read [OF demo_app_simps(1) ok q, of demo_pump_env "[]"] show ?thesis
    unfolding n Let_def by (elim exE conjE) (simp add: demo_queue_def)
qed

end
