(* ===== verification/Registration.thy ===== *)
theory Registration
  imports Endpoint Subscription
begin

text \<open>
  \<open>crates/webpush-server/src/registration.rs\<close>: the registration API of bridged user agents.
  Routing, path parameters and the JSON bodies of \<open>create\<close> and \<open>update_token\<close> are axum's; the
  optional body of \<open>subscribe\<close> is decoded by the parameter \<open>decode\<close>.
\<close>

section \<open>Definitions\<close>

definition MAX_TOKEN :: nat where
  "MAX_TOKEN = 4096"

record create_body =
  cb_bridge :: string
  cb_app_id :: string
  cb_token :: string

record update_token_body =
  ub_token :: string

record subscribe_body =
  sb_key :: "string option"

definition valid_token :: "string \<Rightarrow> bool" where
  "valid_token token \<longleftrightarrow> token \<noteq> [] \<and> length token \<le> MAX_TOKEN \<and>
     list_all (\<lambda>b. is_ascii_alphanumeric b \<or> b \<in> {CHR ''-'', CHR ''_'', CHR '':'', CHR ''.''}) token"

definition bearer :: "header_map \<Rightarrow> string option" where
  "bearer headers =
     (case header_text headers ''authorization'' of None \<Rightarrow> None | Some v \<Rightarrow> strip_prefix ''Bearer '' v)"

definition authorize :: "'s app \<Rightarrow> header_map \<Rightarrow> string \<Rightarrow> ('s node, http_error, user_agent) act" where
  "authorize app headers uaid =
     (if \<not> is_uaid uaid \<or>
         \<not> (case bearer headers of None \<Rightarrow> False | Some s \<Rightarrow> verify_secret (ap_crates app) (ap_secrets app) uaid s)
      then fail (unauthorized ''Bearer'')
      else and_then (try_store (so_user_agent (ap_store app) uaid)) (\<lambda>found.
             case found of
               Some ua \<Rightarrow> if ua_bridge ua \<noteq> None then ret ua else fail (of_status 404)
             | None \<Rightarrow> fail (of_status 404)))"

definition endpoint :: "'s app \<Rightarrow> string \<Rightarrow> string" where
  "endpoint app p = origin app @ ''/push/'' @ p"

definition json_response :: "nat \<Rightarrow> json \<Rightarrow> response" where
  "json_response status v = \<lparr>rs_status = status, rs_headers = [], rs_body = JsonBody v\<rparr>"

definition create :: "'s app \<Rightarrow> create_body \<Rightarrow> ('s node, http_error, response) act" where
  "create app body =
     (let known = (case hget (ap_bridges app) (cb_bridge body) of
                     None \<Rightarrow> False | Some b \<Rightarrow> br_has_app b (cb_app_id body))
      in if \<not> known \<or> \<not> valid_token (cb_token body) then fail (of_status 400)
         else
           and_then (on_world new_uaid) (\<lambda>uaid.
           and_then (on_world now_ms) (\<lambda>now.
             let ua = \<lparr>ua_uaid = uaid, ua_bridge = Some \<lparr>ba_bridge = cb_bridge body, ba_app_id = cb_app_id body,
                        ba_token = cb_token body\<rparr>, ua_last_seen = now\<rparr> in
           and_then (or_fail (of_status 503) (issue (ap_crates app) (ap_secrets app) uaid)) (\<lambda>secret.
           and_then (try_store (so_create_user_agent (ap_store app) ua)) (\<lambda>_.
           ret \<lparr>rs_status = 201, rs_headers = [(''location'', origin app @ ''/v1/user-agents/'' @ uaid)],
                rs_body = JsonBody (JObject [(''uaid'', JString uaid), (''secret'', JString secret)])\<rparr>)))))"

definition subscription_json :: "'s app \<Rightarrow> subscription \<Rightarrow> json" where
  "subscription_json app s = JObject [(''channelID'', JString (sub_channel_id s)),
     (''pushEndpoint'', JString (endpoint app (sub_push s)))]"

definition read :: "'s app \<Rightarrow> string \<Rightarrow> header_map \<Rightarrow> ('s node, http_error, response) act" where
  "read app uaid headers =
     and_then (authorize app headers uaid) (\<lambda>_.
     and_then (on_world now_ms) (\<lambda>now.
     and_then (try_store (so_touch_user_agent (ap_store app) uaid now)) (\<lambda>_.
     and_then (try_store (so_subscriptions (ap_store app) uaid)) (\<lambda>subs.
     ret (json_response 200 (JObject [(''uaid'', JString uaid),
       (''subscriptions'', JArray (map (subscription_json app) subs))]))))))"

definition update_token ::
  "'s app \<Rightarrow> string \<Rightarrow> header_map \<Rightarrow> update_token_body \<Rightarrow> ('s node, http_error, response) act" where
  "update_token app uaid headers body =
     and_then (authorize app headers uaid) (\<lambda>_.
       if \<not> valid_token (ub_token body) then fail (of_status 400)
       else
         and_then (try_store (so_update_bridge_token (ap_store app) uaid (ub_token body))) (\<lambda>_.
         and_then (on_world now_ms) (\<lambda>now.
         and_then (try_store (so_touch_user_agent (ap_store app) uaid now)) (\<lambda>_.
         ret (status_response 204)))))"

definition delete_user_agent :: "'s app \<Rightarrow> string \<Rightarrow> header_map \<Rightarrow> ('s node, http_error, response) act" where
  "delete_user_agent app uaid headers =
     and_then (authorize app headers uaid) (\<lambda>_.
     and_then (try_store (so_delete_user_agent (ap_store app) uaid)) (\<lambda>receipts.
     and_then (run_all (notify_receipts app receipts)) (\<lambda>_.
     ret (status_response 204))))"

text \<open>The key of a \<open>subscribe\<close> body: absent, or a P-256 point.\<close>

definition subscribe_key :: "'s app \<Rightarrow> subscribe_body \<Rightarrow> ('s node, http_error, byte list option) act" where
  "subscribe_key app body =
     (case sb_key body of
        None \<Rightarrow> ret None
      | Some k \<Rightarrow>
          (case vapid_key (ex_b64 (ap_crates app)) (ex_point (ap_crates app)) k of
             Some k \<Rightarrow> ret (Some k)
           | None \<Rightarrow> fail (of_status 400)))"

definition subscribe_outcome :: "registered \<Rightarrow> ('s node, http_error, nat \<times> subscription) act" where
  "subscribe_outcome r =
     (case r of
        Created sub \<Rightarrow> ret (201, sub)
      | Existing sub \<Rightarrow> ret (200, sub)
      | Conflict \<Rightarrow> fail (of_status 409))"

definition subscribe ::
  "(byte list \<Rightarrow> subscribe_body option) \<Rightarrow> 's app \<Rightarrow> string \<Rightarrow> string \<Rightarrow> header_map \<Rightarrow> byte list \<Rightarrow>
   ('s node, http_error, response) act" where
  "subscribe decode app uaid channel headers body =
     and_then (authorize app headers uaid) (\<lambda>_.
     and_then (if body = [] then ret \<lparr>sb_key = None\<rparr> else or_fail (of_status 400) (decode body)) (\<lambda>body.
     and_then (or_fail (of_status 400) (channel_id channel)) (\<lambda>channel.
     and_then (subscribe_key app body) (\<lambda>vapid.
     and_then (try_store (register_subscription (ap_store app) uaid channel vapid)) (\<lambda>r.
     and_then (subscribe_outcome r) (\<lambda>(status, sub).
     ret (json_response status (subscription_json app sub))))))))"

definition unsubscribe ::
  "'s app \<Rightarrow> string \<Rightarrow> string \<Rightarrow> header_map \<Rightarrow> ('s node, http_error, response) act" where
  "unsubscribe app uaid channel headers =
     and_then (authorize app headers uaid) (\<lambda>_.
     and_then (or_fail (of_status 404) (channel_id channel)) (\<lambda>channel.
     and_then (try_store (so_channel (ap_store app) uaid channel)) (\<lambda>found.
       if found = None then fail (of_status 404)
       else
         and_then (try_store (so_delete_subscription (ap_store app) uaid channel)) (\<lambda>receipts.
         and_then (run_all (notify_receipts app receipts)) (\<lambda>_.
         ret (status_response 204))))))"

section \<open>Authorization\<close>

text \<open>The requests that name a user agent, and how the service answers them.\<close>

datatype request =
    Read
  | UpdateToken update_token_body
  | DeleteUserAgent
  | Subscribe string "byte list"
  | Unsubscribe string

fun respond ::
  "(byte list \<Rightarrow> subscribe_body option) \<Rightarrow> 's app \<Rightarrow> string \<Rightarrow> header_map \<Rightarrow> request \<Rightarrow>
   ('s node, http_error, response) act" where
  "respond decode app uaid headers Read = read app uaid headers"
| "respond decode app uaid headers (UpdateToken body) = update_token app uaid headers body"
| "respond decode app uaid headers DeleteUserAgent = delete_user_agent app uaid headers"
| "respond decode app uaid headers (Subscribe channel body) = subscribe decode app uaid channel headers body"
| "respond decode app uaid headers (Unsubscribe channel) = unsubscribe app uaid channel headers"

lemma respond_authorizes: "\<exists>g. respond decode app uaid headers req = and_then (authorize app headers uaid) g"
  by (cases req) (auto simp: read_def update_token_def delete_user_agent_def subscribe_def unsubscribe_def)

definition has_secret :: "'s app \<Rightarrow> header_map \<Rightarrow> string \<Rightarrow> bool" where
  "has_secret app headers uaid \<longleftrightarrow> (\<exists>s k. bearer headers = Some s \<and> k \<in> set (sc_keys (ap_secrets app)) \<and>
     b64_decode (ex_b64 (ap_crates app)) s = Some (ex_hmac (ap_crates app) k (octets uaid)))"

lemma verify_secret_iff:
  "verify_secret x sc uaid s \<longleftrightarrow>
     (\<exists>k\<in>set (sc_keys sc). b64_decode (ex_b64 x) s = Some (ex_hmac x k (octets uaid)))"
  by (auto simp: verify_secret_def list_ex_iff split: option.split)

lemma authorize_refused:
  "\<not> (is_uaid uaid \<and> has_secret app headers uaid) \<Longrightarrow>
   authorize app headers uaid nd = (Inl (unauthorized ''Bearer''), nd)"
  by (auto simp: authorize_def has_secret_def verify_secret_iff split: option.split)

context reliable_store
begin

lemma authorize_effect:
  assumes S: "ap_store app = S" and ok: "node_ok nd" and known: "is_uaid uaid" "has_secret app headers uaid"
  shows "\<exists>nd'. authorize app headers uaid nd =
      ((case sp_uas (view (nd_store nd)) uaid of
          Some ua \<Rightarrow> if ua_bridge ua \<noteq> None then Inr ua else Inl (of_status 404)
        | None \<Rightarrow> Inl (of_status 404)), nd') \<and> node_ok nd' \<and> read_only view nd nd'"
proof -
  from user_agent_call [OF ok, of uaid] obtain nd' where
    call: "try_store (so_user_agent S uaid) nd = (Inr (sp_uas (view (nd_store nd)) uaid), nd')"
    and kept: "node_ok nd'" "read_only view nd nd'" by blast
  have pass: "authorize app headers uaid = and_then (try_store (so_user_agent S uaid)) (\<lambda>found.
             case found of
               Some ua \<Rightarrow> if ua_bridge ua \<noteq> None then ret ua else fail (of_status 404)
             | None \<Rightarrow> fail (of_status 404))"
    using known by (auto simp: authorize_def S has_secret_def verify_secret_iff split: option.split)
  show ?thesis
    by (rule exI [of _ nd']) (simp add: pass and_then_def call kept split: option.split)
qed

lemma respond_unauthorized:
  assumes S: "ap_store app = S" and ok: "node_ok nd"
    and not: "\<not> (is_uaid uaid \<and> has_secret app headers uaid \<and>
        (\<exists>ua. sp_uas (view (nd_store nd)) uaid = Some ua \<and> ua_bridge ua \<noteq> None))"
  shows "\<exists>e nd'. respond decode app uaid headers req nd = (Inl e, nd') \<and> er_status e \<in> {401, 404} \<and>
    (er_status e = 401 \<longleftrightarrow> \<not> (is_uaid uaid \<and> has_secret app headers uaid)) \<and> node_ok nd' \<and> read_only view nd nd'"
proof -
  obtain g where g: "respond decode app uaid headers req = and_then (authorize app headers uaid) g"
    using respond_authorizes by blast
  show ?thesis
  proof (cases "is_uaid uaid \<and> has_secret app headers uaid")
    case False
    then show ?thesis using ok authorize_refused [OF False, of nd] by (simp add: g and_then_def unauthorized_def)
  next
    case True
    from authorize_effect [OF S ok] True obtain nd' where
      "authorize app headers uaid nd =
      ((case sp_uas (view (nd_store nd)) uaid of
          Some ua \<Rightarrow> if ua_bridge ua \<noteq> None then Inr ua else Inl (of_status 404)
        | None \<Rightarrow> Inl (of_status 404)), nd')" and kept: "node_ok nd'" "read_only view nd nd'" by blast
    then have "authorize app headers uaid nd = (Inl (of_status 404), nd')"
      using not True by (auto split: option.split)
    with kept True show ?thesis by (simp add: g and_then_def of_status_def)
  qed
qed

end

text \<open>
  C14. A request to the registration API that names a user agent reaches the operation only with
  the bearer secret of that user agent, under a configured key, and only if it is stored and
  bridged; otherwise it is 401 without the secret and 404 with it, and neither the store's
  contents nor anything else on the node changes.
\<close>

theorem registration_authorized:
  assumes "ap_store app = mem_store b64 ord" and "mem_ok (nd_store nd, nd_world nd)"
    and "\<not> (is_uaid uaid \<and> has_secret app headers uaid \<and>
        (\<exists>ua. sp_uas (mem_view (nd_store nd)) uaid = Some ua \<and> ua_bridge ua \<noteq> None))"
  shows "\<exists>e nd'. respond decode app uaid headers req nd = (Inl e, nd') \<and>
    er_status e = (if is_uaid uaid \<and> has_secret app headers uaid then 404 else 401) \<and>
    mem_view (nd_store nd') = mem_view (nd_store nd) \<and> nd_hub nd' = nd_hub nd \<and>
    nd_forwards nd' = nd_forwards nd \<and> nd_sends nd' = nd_sends nd \<and> nd_tasks nd' = nd_tasks nd"
proof -
  obtain e nd' where "respond decode app uaid headers req nd = (Inl e, nd')" "er_status e \<in> {401, 404}"
    "er_status e = 401 \<longleftrightarrow> \<not> (is_uaid uaid \<and> has_secret app headers uaid)" "read_only mem_view nd nd'"
    using reliable.respond_unauthorized [OF assms] by blast
  then show ?thesis using read_onlyD [of mem_view nd nd'] by (intro exI [of _ e] exI [of _ nd']) auto
qed

lemma registration_authorized_witness:
  "\<exists>e nd'. respond (\<lambda>_. None) demo_app (replicate 32 (CHR ''0'')) [] DeleteUserAgent (demo_node new_state (\<lambda>_. Lost)) =
     (Inl e, nd') \<and> er_status e = 401"
proof -
  have "\<not> has_secret demo_app [] (replicate 32 (CHR ''0''))"
    by (simp add: has_secret_def demo_app_def new_secrets_def)
  moreover have "mem_ok (nd_store (demo_node new_state (\<lambda>_. Lost)), nd_world (demo_node new_state (\<lambda>_. Lost)))"
    using mem_ok_new by (simp add: demo_node_def new_node_def)
  ultimately show ?thesis
    using registration_authorized [OF demo_app_simps(1), of "demo_node new_state (\<lambda>_. Lost)" "replicate 32 (CHR ''0'')" "[]"
        "\<lambda>_. None" DeleteUserAgent] by auto
qed

section \<open>Registering\<close>

lemma new_uaid_is_uaid: "new_uaid w = (u, w') \<Longrightarrow> is_uaid u"
proof -
  assume new: "new_uaid w = (u, w')"
  obtain bs w1 where "random_bytes 16 w = (bs, w1)" by fastforce
  with new have "u = concat (map hex2 bs)" and "length bs = 16"
    by (auto simp: new_uaid_def random_bytes_def)
  then show "is_uaid u" using concat_hex2_lower [of bs] by (simp add: is_uaid_def)
qed

lemma issue_has_secret:
  assumes "base64_ok (ex_b64 (ap_crates app))" and "issue (ap_crates app) (ap_secrets app) uaid = Some secret"
  shows "has_secret app [(''authorization'', Some (''Bearer '' @ secret))] uaid"
proof -
  from assms(2) obtain k ks where "sc_keys (ap_secrets app) = k # ks"
    and "secret = b64_encode (ex_b64 (ap_crates app)) (ex_hmac (ap_crates app) k (octets uaid))"
    by (auto simp: issue_def split: list.splits)
  with assms(1) show ?thesis
    by (auto simp: has_secret_def bearer_def header_text_def get_all_def base64_ok_def)
qed


definition demo_registering_app :: "state app" where
  "demo_registering_app = demo_app\<lparr>ap_secrets := new_secrets [''k''],
     ap_bridges := [(''fcm'', \<lparr>br_name = ''fcm'', br_has_app = \<lambda>_. True, br_send = \<lambda>_ _ _. Inr ()\<rparr>)]\<rparr>"


end
