(* ===== verification/Internal.thy ===== *)
theory Internal
  imports Endpoint
begin

text \<open>
  \<open>crates/webpush-server/src/internal.rs\<close> and \<open>maintenance.rs\<close>: what other nodes and the
  deployment ask of a node, and its background loops. \<open>/version\<close> and \<open>/metrics\<close> render
  constants and counters and are left out.
\<close>

section \<open>The internal listener\<close>

text \<open>\<open>draining\<close>: the service is shutting down. The value is the status.\<close>

definition ready :: "'s app \<Rightarrow> bool \<Rightarrow> 's node \<Rightarrow> nat \<times> 's node" where
  "ready app draining nd =
     (if draining then (503, nd)
      else (case on_store (so_user_agent (ap_store app) (replicate 32 (CHR ''0''))) nd of
              (Inr _, nd) \<Rightarrow> (200, nd)
            | (Inl _, nd) \<Rightarrow> (503, nd)))"

definition deliver :: "'s app \<Rightarrow> header_map \<Rightarrow> envelope \<Rightarrow> 's node \<Rightarrow> nat \<times> 's node" where
  "deliver app headers env nd =
     (case ap_cluster app of
        None \<Rightarrow> (404, nd)
      | Some cluster \<Rightarrow>
          let token = (case header_text headers ''authorization'' of
                         None \<Rightarrow> None | Some v \<Rightarrow> strip_prefix ''Bearer '' v)
          in if \<not> (case token of None \<Rightarrow> False | Some t \<Rightarrow> authorized (ap_crates app) cluster t) then (401, nd)
             else (case open_envelope (ex_b64 (ap_crates app)) env of
                     None \<Rightarrow> (400, nd)
                   | Some (to, event) \<Rightarrow>
                       (case notify to event (nd_hub nd) of (r, h) \<Rightarrow>
                          (case r of Delivered \<Rightarrow> 200 | Dropped \<Rightarrow> 200 | Absent \<Rightarrow> 404, nd\<lparr>nd_hub := h\<rparr>))))"

section \<open>Background loops\<close>

definition reap :: "'s app \<Rightarrow> 's node \<Rightarrow> 's node" where
  "reap app nd =
     (case now_ms (nd_world nd) of (now, w) \<Rightarrow>
        (case on_store (so_reap (ap_store app) now) (nd\<lparr>nd_world := w\<rparr>) of
           (Inr receipts, nd) \<Rightarrow> notify_receipts app receipts nd
         | (Inl _, nd) \<Rightarrow> nd))"

definition to_u64 :: "nat \<Rightarrow> u64" where
  "to_u64 n = (if n < 2 ^ 64 then of_nat n else - 1)"

definition expire :: "'s app \<Rightarrow> duration \<Rightarrow> 's node \<Rightarrow> 's node" where
  "expire app after nd =
     (let after_ms = to_u64 (as_millis after)
      in case now_ms (nd_world nd) of (now, w) \<Rightarrow>
           (case on_store (so_expire_user_agents (ap_store app) (saturating_sub now after_ms)) (nd\<lparr>nd_world := w\<rparr>) of
              (Inr (n, receipts), nd) \<Rightarrow> notify_receipts app receipts nd
            | (Inl _, nd) \<Rightarrow> nd))"

text \<open>The loop, on what happens to the node between its turns and what is ready then.\<close>

datatype turn = Tick | Stopping

fun every :: "('n \<Rightarrow> 'n) \<Rightarrow> (('n \<Rightarrow> 'n) \<times> turn) list \<Rightarrow> 'n \<Rightarrow> 'n" where
  "every work [] nd = nd"
| "every work ((others, Tick) # turns) nd = every work turns (work (others nd))"
| "every work ((others, Stopping) # turns) nd = others nd"

text \<open>The loops started, with their periods.\<close>

definition spawn :: "'s app \<Rightarrow> (duration \<times> ('s node \<Rightarrow> 's node)) list" where
  "spawn app =
     (pu_reaper_interval (cf_push (ap_cfg app)), reap app) #
     (case uc_expire_after (cf_user_agents (ap_cfg app)) of
        None \<Rightarrow> []
      | Some after \<Rightarrow> [(uc_sweep_interval (cf_user_agents (ap_cfg app)), expire app after)])"

section \<open>An event between two nodes\<close>

text \<open>What a node answers to what another one forwards with the cluster's token.\<close>

lemma deliver_forwarded:
  assumes "ap_cluster app = Some c" and "authorized (ap_crates app) c token"
    and "base64_ok (ex_b64 (ap_crates app))"
  shows "deliver app [(''authorization'', Some (''Bearer '' @ token))]
      (new_envelope (ex_b64 (ap_crates app)) to event) nd =
    (if fst (notify to event (nd_hub nd)) = Absent then 404 else 200,
     nd\<lparr>nd_hub := snd (notify to event (nd_hub nd))\<rparr>)"
proof -
  have opened: "open_envelope (ex_b64 (ap_crates app)) (new_envelope (ex_b64 (ap_crates app)) to event) = Some (to, event)"
    using assms(3) by (cases event) (simp_all add: open_envelope_def new_envelope_def base64_ok_def)
  obtain r h where "notify to event (nd_hub nd) = (r, h)" by fastforce
  with assms opened show ?thesis
    by (cases r) (simp_all add: deliver_def header_text_def get_all_def)
qed

lemma link_authorized:
  assumes "new_link x client cfg = Inr c"
  shows "authorized x c t \<longleftrightarrow> ex_sha256 x (octets t) = ex_sha256 x (octets (cl_token cfg))"
  using assms by (auto simp: new_link_def authorized_def split: sum.splits)

text \<open>
  C12. An event that one node forwards to another reaches exactly the listener it was for: the
  other node, configured with the same token, hands it to its own listener for that recipient
  and answers 200, or has none and answers 404; the sender keeps the route in the first case
  and removes it in the second. A request with a token whose digest differs is refused with 401
  and delivers nothing.
\<close>

theorem forwarded_event:
  assumes S: "ap_store app = mem_store b64 ord" and ok: "mem_ok (nd_store nd, nd_world nd)"
    and link: "ap_cluster app = Some c"
    and peer: "ap_crates peer_app = ap_crates app" "ap_cluster peer_app = Some c'"
      "new_link (ap_crates app) client cfg = Inr c'" "cl_token cfg = ln_token c"
    and codec: "base64_ok (ex_b64 (ap_crates app))"
    and route: "sp_routes (mem_view (nd_store nd)) to = Some node"
    and answer: "deliver peer_app [(''authorization'', Some (''Bearer '' @ ln_token c))]
        (new_envelope (ex_b64 (ap_crates app)) to event) peer = (status, peer')"
      "nd_reply nd (length (nd_forwards nd)) = Replied status"
    and sent: "app_forward app node to event nd = nd'"
  shows "nd_forwards nd' = nd_forwards nd @
      [(node @ NOTIFY_PATH, ln_token c, new_envelope (ex_b64 (ap_crates app)) to event)] \<and>
    peer' = peer\<lparr>nd_hub := snd (notify to event (nd_hub peer))\<rparr> \<and>
    (if fst (notify to event (nd_hub peer)) = Absent
     then status = 404 \<and> sp_routes (mem_view (nd_store nd')) to = None
     else status = 200 \<and> sp_routes (mem_view (nd_store nd')) to = Some node) \<and>
    (ex_sha256 (ap_crates app) (octets forged) \<noteq> ex_sha256 (ap_crates app) (octets (cl_token cfg)) \<longrightarrow>
       deliver peer_app [(''authorization'', Some (''Bearer '' @ forged))] env peer = (401, peer))"
proof -
  have good: "authorized (ap_crates peer_app) c' (ln_token c)"
    using link_authorized [OF peer(3)] peer(1,4) by simp
  have forged: "deliver peer_app [(''authorization'', Some (''Bearer '' @ forged))] env peer = (401, peer)"
    if "ex_sha256 (ap_crates app) (octets forged) \<noteq> ex_sha256 (ap_crates app) (octets (cl_token cfg))"
    using that link_authorized [OF peer(3)] peer(1,2) by (simp add: deliver_def header_text_def get_all_def)
  from deliver_forwarded [OF peer(2) good codec [folded peer(1)], of to event peer] answer(1)
  have status: "status = (if fst (notify to event (nd_hub peer)) = Absent then 404 else 200)"
    and peer': "peer' = peer\<lparr>nd_hub := snd (notify to event (nd_hub peer))\<rparr>"
    unfolding peer(1) by auto
  define nd1 where "nd1 = nd\<lparr>nd_forwards := nd_forwards nd @
      [(node @ NOTIFY_PATH, ln_token c, new_envelope (ex_b64 (ap_crates app)) to event)]\<rparr>"
  have nd': "nd' = (if status = 404 then clear_stale app to node nd1 else nd1)"
    using sent status answer(2) by (auto simp: app_forward_def link nd1_def Let_def is_success_def)
  have ok1: "mem_ok (nd_store nd1, nd_world nd1)" using ok by (simp add: nd1_def)
  obtain s w where cleared: "clear_stale app to node nd1 = nd1\<lparr>nd_store := s, nd_world := w\<rparr>"
    and view: "mem_view s = snd (spec_clear_route to node (mem_view (nd_store nd1)))"
    by (rule reliable.clear_stale_effect [OF S ok1])
  have "sp_routes (mem_view s) to = None" using route by (simp add: view spec_clear_route_def nd1_def)
  with nd' status peer' forged cleared route show ?thesis by (simp add: nd1_def)
qed

definition demo_peer :: "state app" where
  "demo_peer = demo_app\<lparr>ap_cluster := Some \<lparr>ln_node_url = ''http://b'', ln_token_digest = octets ''t'', ln_token = ''t''\<rparr>\<rparr>"

lemma forwarded_event_witness:
  "let nd = demo_node (snd (mem_set_route (UserAgent ''u'') ''http://b'' new_state)) (\<lambda>_. Replied 404);
       nd' = app_forward demo_app ''http://b'' (UserAgent ''u'') Gone nd
   in sp_routes (mem_view (nd_store nd')) (UserAgent ''u'') = None"
proof -
  define nd where "nd = demo_node (snd (mem_set_route (UserAgent ''u'') ''http://b'' new_state)) (\<lambda>_. Replied 404)"
  define nd' where "nd' = app_forward demo_app ''http://b'' (UserAgent ''u'') Gone nd"
  let ?c = "\<lparr>ln_node_url = ''http://a'', ln_token_digest = [], ln_token = ''t''\<rparr>"
  let ?c' = "\<lparr>ln_node_url = ''http://b'', ln_token_digest = octets ''t'', ln_token = ''t''\<rparr>"
  let ?cfg = "\<lparr>cl_node_url = ''http://b'', cl_token = ''t'', cl_notify_timeout = 0\<rparr>"
  have store: "nd_store nd = snd (mem_set_route (UserAgent ''u'') ''http://b'' new_state)"
    and rest: "nd_reply nd k = Replied 404" "nd_hub nd = new_hub (unat (ws_queue (cf_websocket demo_config)))" for k
    by (simp_all add: nd_def demo_node_def new_node_def)
  have ok: "mem_ok (nd_store nd, nd_world nd)"
    unfolding store using mem_ok_routes [OF mem_ok_new] by (simp add: mem_set_route_def new_state_def)
  have route: "sp_routes (mem_view (nd_store nd)) (UserAgent ''u'') = Some ''http://b''"
    unfolding store by (simp add: mem_set_route_def)
  have peer: "ap_crates demo_peer = ap_crates demo_app" "ap_cluster demo_peer = Some ?c'"
    by (simp_all add: demo_peer_def)
  have crates: "ap_crates demo_app = demo_crates" "ex_sha256 demo_crates = (\<lambda>bs. bs)" "ex_b64 demo_crates = url_base64"
    by (simp_all add: demo_app_def demo_crates_def)
  have link: "new_link (ap_crates demo_app) (\<lambda>_. Inr ()) ?cfg = Inr ?c'"
    by (simp add: new_link_def crates trim_end_by_def)
  have codec: "base64_ok (ex_b64 (ap_crates demo_app))" by (simp add: crates url_base64_ok)
  have answer: "deliver demo_peer [(''authorization'', Some (''Bearer '' @ ln_token ?c))]
      (new_envelope (ex_b64 (ap_crates demo_app)) (UserAgent ''u'') Gone) nd = (404, nd)"
    by (simp add: deliver_def peer crates header_text_def get_all_def authorized_def new_envelope_def open_envelope_def
        notify_def rest new_hub_def)
  have "fst (notify (UserAgent ''u'') Gone (nd_hub nd)) = Absent" by (simp add: rest notify_def new_hub_def)
  with forwarded_event [OF demo_app_simps(1) ok demo_app_simps(2) peer link _ codec route answer, of nd'] rest(1)
  have "sp_routes (mem_view (nd_store nd')) (UserAgent ''u'') = None" by (simp add: nd'_def)
  then show ?thesis by (simp add: nd_def nd'_def Let_def)
qed

section \<open>Maintenance\<close>

context reliable_store
begin

lemma room_calm:
  "room_for view (s, w) \<Longrightarrow> world_le w w' \<Longrightarrow> wl_last w' = wl_last w \<Longrightarrow> room_for view (s, w')"
  by (simp add: room_for_def seq_room_calm)

lemma reap_effect:
  assumes S: "ap_store app = S" and ok: "node_ok nd" and room: "room_for view (nd_store nd, nd_world nd)"
    and now: "now_ms (nd_world nd) = (now, w)"
  shows "\<exists>rs nd1. reap app nd = notify_receipts app rs nd1 \<and> node_ok nd1 \<and> nd_hub nd1 = nd_hub nd \<and>
    spec_removal (\<lambda>m. m_expiry m \<le> now) (view (nd_store nd)) (wl_last (nd_world nd)) rs
      (view (nd_store nd1)) (wl_last (nd_world nd1)) \<and>
    sp_uas (view (nd_store nd1)) = sp_uas (view (nd_store nd)) \<and>
    sp_subs (view (nd_store nd1)) = sp_subs (view (nd_store nd))"
proof -
  let ?nd = "nd\<lparr>nd_world := w\<rparr>"
  have le: "world_le (nd_world nd) w" by (rule world_le_now [OF now])
  have last: "wl_last w = wl_last (nd_world nd)" using now_ms_frame(1) [of "nd_world nd"] now by simp
  have ok': "node_ok ?nd" and room': "room_for view (nd_store ?nd, nd_world ?nd)"
    using inv_world [OF ok le] room_calm [OF room le last] by simp_all
  from on_store_ex [OF msg_returns(5) reap [OF ok' room', of now, unfolded fst_conv snd_conv]] obtain rs s w' where
    call: "on_store (so_reap S now) ?nd = (Inr rs, ?nd\<lparr>nd_store := s, nd_world := w'\<rparr>)"
    and eff: "inv (s, w')" "spec_removal (\<lambda>m. m_expiry m \<le> now) (view (nd_store nd)) (wl_last w) rs (view s) (wl_last w')"
      "sp_uas (view s) = sp_uas (view (nd_store nd))" "sp_subs (view s) = sp_subs (view (nd_store nd))" by auto
  have run: "reap app nd = notify_receipts app rs (?nd\<lparr>nd_store := s, nd_world := w'\<rparr>)"
    by (simp add: reap_def now S call)
  show ?thesis
    by (rule exI [of _ rs], rule exI [of _ "?nd\<lparr>nd_store := s, nd_world := w'\<rparr>"])
      (use run eff last in simp)
qed

lemma expire_effect:
  assumes S: "ap_store app = S" and ok: "node_ok nd" and room: "room_for view (nd_store nd, nd_world nd)"
    and now: "now_ms (nd_world nd) = (now, w)"
  shows "\<exists>rs nd1. expire app after nd = notify_receipts app rs nd1 \<and> node_ok nd1 \<and>
    sp_uas (view (nd_store nd1)) = (\<lambda>u. if stale (view (nd_store nd)) (saturating_sub now (to_u64 (as_millis after))) u
        then None else sp_uas (view (nd_store nd)) u) \<and>
    (\<forall>i m. sp_msgs (view (nd_store nd)) i = Some m \<longrightarrow>
       \<not> stale (view (nd_store nd)) (saturating_sub now (to_u64 (as_millis after))) (m_uaid m) \<longrightarrow>
       sp_msgs (view (nd_store nd1)) i = Some m)"
proof -
  let ?nd = "nd\<lparr>nd_world := w\<rparr>"
  let ?cut = "saturating_sub now (to_u64 (as_millis after))"
  have le: "world_le (nd_world nd) w" by (rule world_le_now [OF now])
  have last: "wl_last w = wl_last (nd_world nd)" using now_ms_frame(1) [of "nd_world nd"] now by simp
  have ok': "node_ok ?nd" and room': "room_for view (nd_store ?nd, nd_world ?nd)"
    using inv_world [OF ok le] room_calm [OF room le last] by simp_all
  let ?sp = "view (nd_store nd)"
  have kept: "sp_msgs sp' i = Some m"
    if "spec_removal gone ?sp l rs sp' l'" "\<forall>m. gone m \<longrightarrow> stale ?sp ?cut (m_uaid m)"
      "sp_msgs ?sp i = Some m" "\<not> stale ?sp ?cut (m_uaid m)" for gone l rs sp' l' i m
    using that by (auto simp: spec_removal_def spec_discard_def)
  have "gives (so_expire_user_agents S ?cut) (nd_store ?nd, nd_world ?nd) (\<lambda>x sw'. inv sw' \<and>
      sp_uas (view (fst sw')) = (\<lambda>u. if stale ?sp ?cut u then None else sp_uas ?sp u) \<and>
      (\<forall>i m. sp_msgs ?sp i = Some m \<longrightarrow> \<not> stale ?sp ?cut (m_uaid m) \<longrightarrow> sp_msgs (view (fst sw')) i = Some m))"
    by (rule gives_mono [OF expire_user_agents [OF ok' room', of ?cut]]) (auto simp: case_prod_beta intro: kept)
  from on_store_ex [OF ua_returns(6) this] obtain x s w' where
    call: "on_store (so_expire_user_agents S ?cut) ?nd = (Inr x, ?nd\<lparr>nd_store := s, nd_world := w'\<rparr>)"
    and eff: "inv (s, w')" "sp_uas (view s) = (\<lambda>u. if stale ?sp ?cut u then None else sp_uas ?sp u)"
      "\<forall>i m. sp_msgs ?sp i = Some m \<longrightarrow> \<not> stale ?sp ?cut (m_uaid m) \<longrightarrow> sp_msgs (view s) i = Some m" by auto
  have run: "expire app after nd = notify_receipts app (snd x) (?nd\<lparr>nd_store := s, nd_world := w'\<rparr>)"
    by (simp add: expire_def now S call Let_def case_prod_beta)
  show ?thesis
    by (rule exI [of _ "snd x"], rule exI [of _ "?nd\<lparr>nd_store := s, nd_world := w'\<rparr>"]) (use run eff in simp)
qed

end

lemma announced:
  assumes S: "ap_store app = mem_store b64 ord" and ok: "mem_ok (nd_store nd, nd_world nd)"
  shows "sp_msgs (mem_view (nd_store (notify_receipts app rs nd))) = sp_msgs (mem_view (nd_store nd))"
    and "sp_uas (mem_view (nd_store (notify_receipts app rs nd))) = sp_uas (mem_view (nd_store nd))"
    and "sp_subs (mem_view (nd_store (notify_receipts app rs nd))) = sp_subs (mem_view (nd_store nd))"
    and "sp_queues (mem_view (nd_store (notify_receipts app rs nd))) = sp_queues (mem_view (nd_store nd))"
  using reliable.receipts_only_routes [OF S ok, of rs] by (simp_all add: only_routes_def)

lemma reaped:
  assumes S: "ap_store app = mem_store b64 ord" and ok: "mem_ok (nd_store nd, nd_world nd)"
    and room: "room_for mem_view (nd_store nd, nd_world nd)" and now: "now_ms (nd_world nd) = (now, w)"
  shows "sp_msgs (mem_view (nd_store (reap app nd))) i = Some m \<longleftrightarrow> sp_msgs (mem_view (nd_store nd)) i = Some m \<and> now < m_expiry m"
    and "sp_uas (mem_view (nd_store (reap app nd))) = sp_uas (mem_view (nd_store nd))"
    and "sp_subs (mem_view (nd_store (reap app nd))) = sp_subs (mem_view (nd_store nd))"
    and "\<exists>rs. sp_queues (mem_view (nd_store (reap app nd))) = sp_queues (spec_enqueue rs (mem_view (nd_store nd))) \<and>
      (\<forall>r. r \<in> snd ` set rs \<longleftrightarrow> spec_owes (mem_view (nd_store nd)) (\<lambda>m. m_expiry m \<le> now) r)"
proof -
  let ?sp = "mem_view (nd_store nd)"
  obtain rs nd1 where run: "reap app nd = notify_receipts app rs nd1" "mem_ok (nd_store nd1, nd_world nd1)"
    and eff: "spec_removal (\<lambda>m. m_expiry m \<le> now) ?sp (wl_last (nd_world nd)) rs (mem_view (nd_store nd1)) (wl_last (nd_world nd1))"
      "sp_uas (mem_view (nd_store nd1)) = sp_uas ?sp" "sp_subs (mem_view (nd_store nd1)) = sp_subs ?sp"
    using reliable.reap_effect [OF S ok room now] by blast
  note same = announced [OF S run(2), of rs, folded run(1)]
  have msgs: "sp_msgs (mem_view (nd_store (reap app nd))) = sp_msgs (spec_discard (\<lambda>m. m_expiry m \<le> now) ?sp)"
    using same(1) eff(1) by (simp add: spec_removal_def del: mem_view_simps)
  show "sp_msgs (mem_view (nd_store (reap app nd))) i = Some m \<longleftrightarrow> sp_msgs ?sp i = Some m \<and> now < m_expiry m"
    unfolding msgs by (auto simp: spec_discard_def not_le split: option.splits if_splits)
  show "sp_uas (mem_view (nd_store (reap app nd))) = sp_uas ?sp" "sp_subs (mem_view (nd_store (reap app nd))) = sp_subs ?sp"
    unfolding same eff(2,3) by (rule refl)+
  have "sp_queues (mem_view (nd_store (reap app nd))) = sp_queues (spec_enqueue rs ?sp)"
    "\<forall>r. r \<in> snd ` set rs \<longleftrightarrow> spec_owes ?sp (\<lambda>m. m_expiry m \<le> now) r"
    using same(4) eff(1) by (simp_all add: spec_removal_def del: mem_view_simps)
  then show "\<exists>rs. sp_queues (mem_view (nd_store (reap app nd))) = sp_queues (spec_enqueue rs ?sp) \<and>
      (\<forall>r. r \<in> snd ` set rs \<longleftrightarrow> spec_owes ?sp (\<lambda>m. m_expiry m \<le> now) r)" by blast
qed

text \<open>Last seen longer ago than \<open>after\<close>.\<close>

definition long_gone :: "u64 \<Rightarrow> duration \<Rightarrow> user_agent \<Rightarrow> bool" where
  "long_gone now after ua \<longleftrightarrow> unat (ua_last_seen ua) + unat (to_u64 (as_millis after)) < unat now"

lemma stale_long_gone:
  "stale sp (saturating_sub now (to_u64 (as_millis after))) u \<longleftrightarrow> (\<exists>ua. sp_uas sp u = Some ua \<and> long_gone now after ua)"
proof -
  have "a < saturating_sub now b \<longleftrightarrow> unat a + unat b < unat now" for a b
    by (auto simp: saturating_sub_def word_less_nat_alt word_le_nat_alt unat_sub)
  then show ?thesis by (simp add: stale_def long_gone_def)
qed

lemma nobody_long_gone: "now \<le> to_u64 (as_millis after) \<Longrightarrow> \<not> long_gone now after ua"
  by (simp add: long_gone_def word_le_nat_alt)

lemma swept:
  assumes S: "ap_store app = mem_store b64 ord" and ok: "mem_ok (nd_store nd, nd_world nd)"
    and room: "room_for mem_view (nd_store nd, nd_world nd)" and now: "now_ms (nd_world nd) = (now, w)"
  shows "sp_uas (mem_view (nd_store (expire app after nd))) u = Some ua \<longleftrightarrow>
      sp_uas (mem_view (nd_store nd)) u = Some ua \<and> \<not> long_gone now after ua"
    and "sp_msgs (mem_view (nd_store nd)) i = Some m \<Longrightarrow> sp_uas (mem_view (nd_store nd)) (m_uaid m) = Some ua \<Longrightarrow>
      \<not> long_gone now after ua \<Longrightarrow> sp_msgs (mem_view (nd_store (expire app after nd))) i = Some m"
proof -
  let ?sp = "mem_view (nd_store nd)" and ?cut = "saturating_sub now (to_u64 (as_millis after))"
  obtain rs nd2 where run: "expire app after nd = notify_receipts app rs nd2" "mem_ok (nd_store nd2, nd_world nd2)"
    and uas: "sp_uas (mem_view (nd_store nd2)) = (\<lambda>u. if stale ?sp ?cut u then None else sp_uas ?sp u)"
    and msgs: "\<forall>i m. sp_msgs ?sp i = Some m \<longrightarrow> \<not> stale ?sp ?cut (m_uaid m) \<longrightarrow> sp_msgs (mem_view (nd_store nd2)) i = Some m"
    using reliable.expire_effect [OF S ok room now, of after] by blast
  note same = announced [OF S run(2), of rs, folded run(1)]
  show "sp_uas (mem_view (nd_store (expire app after nd))) u = Some ua \<longleftrightarrow> sp_uas ?sp u = Some ua \<and> \<not> long_gone now after ua"
    unfolding same uas by (auto simp: stale_long_gone simp del: mem_view_simps)
  assume "sp_msgs ?sp i = Some m" and "sp_uas ?sp (m_uaid m) = Some ua" and "\<not> long_gone now after ua"
  then show "sp_msgs (mem_view (nd_store (expire app after nd))) i = Some m"
    unfolding same using msgs stale_long_gone [of ?sp now after "m_uaid m"] by (simp del: mem_view_simps)
qed


definition demo_sweep_node :: "state node" where
  "demo_sweep_node = demo_node (mem_create_user_agent \<lparr>ua_uaid = ''u'', ua_bridge = None, ua_last_seen = 5\<rparr> new_state) (\<lambda>_. Lost)"


end
