(* ===== verification/Bigtable_Rows.thy ===== *)
theory Bigtable_Rows
  imports Store_Types Rust_Str
begin

text \<open>
  \<open>crates/webpush-store/src/bigtable.rs\<close>, the pure half: the messages of the Bigtable data
  API the adapter sends, the row keys and columns of its layout, and the decoding of the rows
  it reads. Keys, qualifiers and values are octets on the wire, as in the API; a Rust string
  is its UTF-8 octets, so \<open>as_bytes\<close> is \<^const>\<open>octets\<close> and \<open>String::from_utf8\<close> is
  \<open>from_utf8\<close>, which checks them.
\<close>

section \<open>Strings and octets\<close>

text \<open>Well-formed UTF-8, as \<open>core::str::from_utf8\<close> decides it (Unicode, table 3-7).\<close>

definition tail_byte :: "byte \<Rightarrow> bool" where
  "tail_byte b \<longleftrightarrow> 0x80 \<le> b \<and> b \<le> 0xBF"

fun utf8_valid :: "byte list \<Rightarrow> bool" where
  "utf8_valid [] = True"
| "utf8_valid (a # bs) =
     (if a < 0x80 then utf8_valid bs
      else if a < 0xC2 then False
      else case bs of
        [] \<Rightarrow> False
      | b # bs1 \<Rightarrow>
          if a < 0xE0 then tail_byte b \<and> utf8_valid bs1
          else (case bs1 of
            [] \<Rightarrow> False
          | c # bs2 \<Rightarrow>
              if a < 0xF0
              then (if a = 0xE0 then 0xA0 \<le> b \<and> b \<le> 0xBF
                    else if a = 0xED then 0x80 \<le> b \<and> b \<le> 0x9F else tail_byte b) \<and>
                   tail_byte c \<and> utf8_valid bs2
              else (case bs2 of
                [] \<Rightarrow> False
              | d # bs3 \<Rightarrow>
                  a \<le> 0xF4 \<and>
                  (if a = 0xF0 then 0x90 \<le> b \<and> b \<le> 0xBF
                   else if a = 0xF4 then 0x80 \<le> b \<and> b \<le> 0x8F else tail_byte b) \<and>
                  tail_byte c \<and> tail_byte d \<and> utf8_valid bs3)))"

definition from_utf8 :: "byte list \<Rightarrow> string option" where
  "from_utf8 bs = (if utf8_valid bs then Some (map (\<lambda>b. char_of (unat b)) bs) else None)"

text \<open>What follows the last separator: \<open>rsplit(c).next()\<close>, which always returns.\<close>

definition rsplit_next :: "char \<Rightarrow> string \<Rightarrow> string" where
  "rsplit_next sep s = rev (takeWhile (\<lambda>c. c \<noteq> sep) (rev s))"

definition strip_suffix :: "string \<Rightarrow> string \<Rightarrow> string option" where
  "strip_suffix p s = map_option rev (strip_prefix (rev p) (rev s))"

text \<open>\<open>{:016x}\<close> of a 64-bit number and \<open>u64::from_str_radix(_, 16)\<close>.\<close>

definition hex16 :: "u64 \<Rightarrow> string" where
  "hex16 n = map (\<lambda>i. hex_digits ! (unat n div 16 ^ (15 - i) mod 16)) [0..<16]"

definition hex_digit_value :: "char \<Rightarrow> nat option" where
  "hex_digit_value c =
     (if is_ascii_digit c then Some (of_char c - 48)
      else if CHR ''a'' \<le> c \<and> c \<le> CHR ''f'' then Some (of_char c - 87)
      else if CHR ''A'' \<le> c \<and> c \<le> CHR ''F'' then Some (of_char c - 55)
      else None)"

fun hex_fold :: "nat \<Rightarrow> string \<Rightarrow> nat option" where
  "hex_fold n [] = Some n"
| "hex_fold n (c # s) =
     (case hex_digit_value c of None \<Rightarrow> None | Some d \<Rightarrow> hex_fold (16 * n + d) s)"

definition u64_from_hex :: "string \<Rightarrow> u64 option" where
  "u64_from_hex s =
     (let ds = (case strip_prefix ''+'' s of Some r \<Rightarrow> r | None \<Rightarrow> s)
      in if ds = [] then None
         else case hex_fold 0 ds of
                None \<Rightarrow> None
              | Some n \<Rightarrow> if n < 2 ^ 64 then Some (of_nat n) else None)"

text \<open>\<open>to_string\<close> of a number, and the checked conversions to a narrower one.\<close>

definition show_u64 :: "u64 \<Rightarrow> string" where
  "show_u64 n = show_nat (unat n)"

definition narrow_u32 :: "u64 \<Rightarrow> u32 option" where
  "narrow_u32 n = (if unat n < 2 ^ 32 then Some (ucast n) else None)"

definition narrow_u16 :: "u64 \<Rightarrow> u16 option" where
  "narrow_u16 n = (if unat n < 2 ^ 16 then Some (ucast n) else None)"

section \<open>Messages of the data API\<close>

type_synonym i64 = "64 word"

record set_cell_mutation =
  sc_family :: string
  sc_qualifier :: "byte list"
  sc_timestamp_micros :: i64
  sc_value :: "byte list"

datatype mutation = SetCell set_cell_mutation | DeleteFromRow

datatype row_filter =
    FamilyNameRegexFilter string
  | ColumnQualifierRegexFilter "byte list"
  | CellsPerColumnLimitFilter nat
  | ValueRegexFilter "byte list"
  | Chain "row_filter list"

text \<open>A range is closed at its start and open at its end.\<close>

record row_set =
  rs_row_keys :: "byte list list"
  rs_row_ranges :: "(byte list \<times> byte list) list"

record mutate_row_request =
  mr_table_name :: string
  mr_app_profile_id :: string
  mr_row_key :: "byte list"
  mr_mutations :: "mutation list"

record read_rows_request =
  rr_table_name :: string
  rr_app_profile_id :: string
  rr_rows :: "row_set option"
  rr_filter :: "row_filter option"

record check_and_mutate_row_request =
  cm_table_name :: string
  cm_app_profile_id :: string
  cm_row_key :: "byte list"
  cm_predicate_filter :: "row_filter option"
  cm_true_mutations :: "mutation list"

datatype row_status = ResetRow bool | CommitRow bool

record cell_chunk =
  ck_row_key :: "byte list"
  ck_qualifier :: "byte list option"
  ck_value :: "byte list"
  ck_value_size :: "32 word"
  ck_row_status :: "row_status option"

section \<open>Rows\<close>

text \<open>\<open>type Row = HashMap<Vec<u8>, Vec<u8>>\<close>: the latest value per column qualifier.\<close>

type_synonym row = "(byte list, byte list) hmap"

definition family_d :: string where
  "family_d = ''d''"

definition family_m :: string where
  "family_m = ''m''"

definition col_text :: "row \<Rightarrow> string \<Rightarrow> string option" where
  "col_text r col = (case hget r (octets col) of None \<Rightarrow> None | Some v \<Rightarrow> from_utf8 v)"

definition col_number :: "row \<Rightarrow> string \<Rightarrow> u64 option" where
  "col_number r col = (case col_text r col of None \<Rightarrow> None | Some s \<Rightarrow> parse_u64 s)"

definition set_cell :: "string \<Rightarrow> string \<Rightarrow> byte list \<Rightarrow> u64 \<Rightarrow> mutation" where
  "set_cell family col v ts_ms =
     SetCell \<lparr>sc_family = family, sc_qualifier = octets col,
       sc_timestamp_micros = ts_ms * 1000, sc_value = v\<rparr>"

definition delete_row :: mutation where
  "delete_row = DeleteFromRow"

definition key_range :: "string \<Rightarrow> string \<Rightarrow> row_set" where
  "key_range start end_key =
     \<lparr>rs_row_keys = [], rs_row_ranges = [(octets start, octets end_key)]\<rparr>"

definition key_prefix :: "string \<Rightarrow> row_set" where
  "key_prefix p =
     (let end_key = (case strip_suffix ''#'' p of Some q \<Rightarrow> q | None \<Rightarrow> p) @ ''$''
      in key_range p end_key)"

fun route_key :: "recipient \<Rightarrow> string" where
  "route_key (UserAgent uaid) = ''route#u:'' @ uaid"
| "route_key (Receipts rsub) = ''route#r:'' @ rsub"

text \<open>
  \<open>exact\<close> walks the characters of the value and puts a backslash before each that is not an
  ASCII letter or digit. On octets: before each octet that begins such a character.
\<close>

definition exact_char :: "char \<Rightarrow> string" where
  "exact_char c =
     (if is_ascii_alphanumeric c \<or> tail_byte (of_char c) then [c] else [CHR 0x5C, c])"

definition exact :: "string \<Rightarrow> byte list" where
  "exact v = octets (''^'' @ concat (map exact_char v) @ ''$'')"

definition column_filter :: "string \<Rightarrow> string \<Rightarrow> string option \<Rightarrow> row_filter" where
  "column_filter family col v =
     Chain ([FamilyNameRegexFilter family, ColumnQualifierRegexFilter (exact col),
             CellsPerColumnLimitFilter 1] @
            (case v of None \<Rightarrow> [] | Some v \<Rightarrow> [ValueRegexFilter (exact v)]))"

definition user_agent_from_row :: "string \<Rightarrow> row \<Rightarrow> user_agent" where
  "user_agent_from_row uaid r =
     \<lparr>ua_uaid = uaid,
      ua_bridge =
        (case (col_text r ''bridge'', col_text r ''app'', col_text r ''token'') of
           (Some bridge, Some app_id, Some token) \<Rightarrow>
             Some \<lparr>ba_bridge = bridge, ba_app_id = app_id, ba_token = token\<rparr>
         | _ \<Rightarrow> None),
      ua_last_seen = (case col_number r ''seen'' of Some n \<Rightarrow> n | None \<Rightarrow> 0)\<rparr>"

definition message_key :: "message \<Rightarrow> string" where
  "message_key m =
     (case m_topic m of
        Some t \<Rightarrow> ''msg#'' @ m_uaid m @ ''#t:'' @ m_channel_id m @ '':'' @ t
      | None \<Rightarrow> ''msg#'' @ m_uaid m @ ''#'' @ hex16 (m_accepted m) @ m_id m)"

definition slot_topic :: "string \<Rightarrow> string option" where
  "slot_topic slot =
     (case strip_prefix ''t:'' slot of
        None \<Rightarrow> None
      | Some rest \<Rightarrow> map_option snd (split_once (CHR '':'') rest))"

definition message_from_row :: "string \<Rightarrow> row \<Rightarrow> message option" where
  "message_from_row key r =
     Option.bind (strip_prefix ''msg#'' key) (\<lambda>rest.
     Option.bind (split_once (CHR ''#'') rest) (\<lambda>(uaid, slot).
     Option.bind (col_text r ''id'') (\<lambda>i.
     Option.bind (col_text r ''ch'') (\<lambda>ch.
     Option.bind (col_text r ''push'') (\<lambda>push.
     Option.bind (hget r (octets ''body'')) (\<lambda>body.
     Option.bind (Option.bind (col_number r ''ttl'') narrow_u32) (\<lambda>ttl.
     Option.bind (Option.bind (col_text r ''urgency'') urgency_parse) (\<lambda>urgency.
     Option.bind (col_number r ''accepted'') (\<lambda>accepted.
     Option.bind (col_number r ''expiry'') (\<lambda>expiry.
     Some \<lparr>m_id = i, m_uaid = uaid, m_channel_id = ch, m_push = push, m_topic = slot_topic slot,
       m_body = body, m_ctype = col_text r ''ctype'', m_cenc = col_text r ''cenc'', m_ttl = ttl,
       m_urgency = urgency, m_accepted = accepted, m_expiry = expiry,
       m_rsub = col_text r ''rsub''\<rparr>))))))))))"

text \<open>The cells \<open>insert_message\<close> writes, after clearing the row.\<close>

definition optional_cell :: "string \<Rightarrow> string option \<Rightarrow> u64 \<Rightarrow> mutation list" where
  "optional_cell col v ts =
     (case v of None \<Rightarrow> [] | Some v \<Rightarrow> [set_cell family_m col (octets v) ts])"

definition message_mutations :: "message \<Rightarrow> mutation list" where
  "message_mutations m =
     (let ts = m_accepted m in
      [delete_row,
       set_cell family_m ''id'' (octets (m_id m)) ts,
       set_cell family_m ''ch'' (octets (m_channel_id m)) ts,
       set_cell family_m ''push'' (octets (m_push m)) ts,
       set_cell family_m ''body'' (m_body m) ts,
       set_cell family_m ''ttl'' (octets (show_nat (unat (m_ttl m)))) ts,
       set_cell family_m ''urgency'' (octets (urgency_as_str (m_urgency m))) ts,
       set_cell family_m ''accepted'' (octets (show_u64 (m_accepted m))) ts,
       set_cell family_m ''expiry'' (octets (show_u64 (m_expiry m))) ts]
      @ optional_cell ''ctype'' (m_ctype m) ts
      @ optional_cell ''cenc'' (m_cenc m) ts
      @ optional_cell ''rsub'' (m_rsub m) ts)"

text \<open>Decoding a channel row; \<open>vapid\<close> counts only if it is 65 octets long.\<close>

definition vapid_from_row :: "row \<Rightarrow> byte list option" where
  "vapid_from_row r =
     (case hget r (octets ''vapid'') of
        None \<Rightarrow> None | Some v \<Rightarrow> if length v = 65 then Some v else None)"

section \<open>Merging the chunks of a response\<close>

record merge =
  mg_key :: "byte list"
  mg_qualifier :: "byte list"
  mg_row :: row
  mg_value :: "byte list"
  mg_out :: "(string \<times> row) list"

definition merge_start :: merge where
  "merge_start = \<lparr>mg_key = [], mg_qualifier = [], mg_row = [], mg_value = [], mg_out = []\<rparr>"

text \<open>The first half of the loop body: the key, the qualifier and the value so far.\<close>

definition merge_fields :: "cell_chunk \<Rightarrow> merge \<Rightarrow> merge" where
  "merge_fields c g =
     (let g = (if ck_row_key c \<noteq> [] then g\<lparr>mg_key := ck_row_key c\<rparr> else g);
          g = (case ck_qualifier c of None \<Rightarrow> g | Some q \<Rightarrow> g\<lparr>mg_qualifier := q\<rparr>);
          g = g\<lparr>mg_value := mg_value g @ ck_value c\<rparr>
      in if ck_value_size c = 0
         then g\<lparr>mg_row := hinsert (mg_qualifier g) (mg_value g) (mg_row g), mg_value := []\<rparr>
         else g)"

definition merge_chunk :: "cell_chunk \<Rightarrow> merge \<Rightarrow> box_error + merge" where
  "merge_chunk c g =
     (if ck_row_status c = Some (ResetRow True) then Inr (g\<lparr>mg_row := [], mg_value := []\<rparr>)
      else
        let g = merge_fields c g in
        if ck_row_status c = Some (CommitRow True)
        then (case from_utf8 (mg_key g) of
                None \<Rightarrow> Inl (BoxError ''invalid utf-8 sequence'')
              | Some k \<Rightarrow> Inr (g\<lparr>mg_out := mg_out g @ [(k, mg_row g)], mg_row := []\<rparr>))
        else Inr g)"

fun merge_chunks :: "cell_chunk list \<Rightarrow> merge \<Rightarrow> box_error + merge" where
  "merge_chunks [] g = Inr g"
| "merge_chunks (c # cs) g =
     (case merge_chunk c g of Inl e \<Rightarrow> Inl e | Inr g \<Rightarrow> merge_chunks cs g)"

text \<open>The stream of responses: each is the chunks of one message, or the status that ends it.\<close>

fun merge_stream :: "(box_error + cell_chunk list) list \<Rightarrow> merge \<Rightarrow> box_error + merge" where
  "merge_stream [] g = Inr g"
| "merge_stream (Inl e # rs) g = Inl e"
| "merge_stream (Inr cs # rs) g =
     (case merge_chunks cs g of Inl e \<Rightarrow> Inl e | Inr g \<Rightarrow> merge_stream rs g)"

definition merge_rows :: "(box_error + cell_chunk list) list \<Rightarrow> box_error + (string \<times> row) list" where
  "merge_rows rs =
     (case merge_stream rs merge_start of Inl e \<Rightarrow> Inl e | Inr g \<Rightarrow> Inr (mg_out g))"

end
