(* ===== verification/Bigtable_Store.thy ===== *)
theory Bigtable_Store
  imports Bigtable_Rows
begin

text \<open>
  \<open>crates/webpush-store/src/bigtable.rs\<close>, the effectful half. Only the calls of the data API
  are atomic, and every \<open>await\<close> between two of them lets other tasks and other nodes act, so
  a method is a program: a tree of calls, each with the continuation that takes its answer.
  \<open>run\<close> executes a program alone; \<open>prog_step\<close> executes its next call, so that programs can be
  interleaved. Cloud Bigtable, the gRPC client and the token source are the record
  \<open>grpc_service\<close>, a parameter of both.
\<close>

section \<open>The services the adapter calls\<close>

datatype code = NotFound | AlreadyExists | OtherCode nat

record status =
  rpc_code :: code
  rpc_message :: string

definition box_status :: "status \<Rightarrow> box_error" where
  "box_status s = BoxError (rpc_message s)"

record 'm grpc_request =
  gr_message :: 'm
  gr_metadata :: "(string \<times> string) list"

datatype gc_rule = MaxNumVersions nat | MaxAge int | GcUnion "gc_rule list"

record get_table_request =
  gt_name :: string

record create_table_request =
  ct_parent :: string
  ct_table_id :: string
  ct_column_families :: "(string, gc_rule) hmap"

type_synonym ('m, 'a, 'd) rpc = "'m grpc_request \<Rightarrow> 'd \<Rightarrow> (status + 'a) \<times> 'd"

record ('t, 'd) grpc_service =
  gs_mutate_row :: "(mutate_row_request, unit, 'd) rpc"
  gs_read_rows :: "(read_rows_request, (status + cell_chunk list) list, 'd) rpc"
  gs_check_and_mutate_row :: "(check_and_mutate_row_request, bool, 'd) rpc"
  gs_get_table :: "(get_table_request, unit, 'd) rpc"
  gs_create_table :: "(create_table_request, unit, 'd) rpc"
  gs_connect :: "string \<times> bool \<Rightarrow> 'd \<Rightarrow> (box_error + unit) \<times> 'd"
  gs_credentials :: "string option \<Rightarrow> 'd \<Rightarrow> (box_error + 't) \<times> 'd"
  gs_token :: "'t \<Rightarrow> 'd \<Rightarrow> (box_error + string) \<times> 'd"

text \<open>Pure functions of the crates: metadata values and the project a source bills to.\<close>

record 't grpc_client =
  gc_metadata_value :: "string \<Rightarrow> box_error + string"
  gc_quota_project :: "'t \<Rightarrow> string option"

section \<open>Programs\<close>

datatype ('t, 'a) prog =
    Return "box_error + 'a"
  | MutateRow "mutate_row_request grpc_request" "status + unit \<Rightarrow> ('t, 'a) prog"
  | ReadRows "read_rows_request grpc_request"
      "status + (status + cell_chunk list) list \<Rightarrow> ('t, 'a) prog"
  | CheckAndMutateRow "check_and_mutate_row_request grpc_request" "status + bool \<Rightarrow> ('t, 'a) prog"
  | GetTable "get_table_request grpc_request" "status + unit \<Rightarrow> ('t, 'a) prog"
  | CreateTable "create_table_request grpc_request" "status + unit \<Rightarrow> ('t, 'a) prog"
  | Connect "string \<times> bool" "box_error + unit \<Rightarrow> ('t, 'a) prog"
  | Credentials "string option" "box_error + 't \<Rightarrow> ('t, 'a) prog"
  | AccessToken 't "box_error + string \<Rightarrow> ('t, 'a) prog"
  | NowMs "u64 \<Rightarrow> ('t, 'a) prog"
  | NewId "string \<Rightarrow> ('t, 'a) prog"
  | NextSeq "u64 \<Rightarrow> ('t, 'a) prog"

definition done_with :: "'a \<Rightarrow> ('t, 'a) prog" where
  "done_with x = Return (Inr x)"

primrec bind_prog :: "('t, 'a) prog \<Rightarrow> ('a \<Rightarrow> ('t, 'b) prog) \<Rightarrow> ('t, 'b) prog" where
  "bind_prog (Return r) f = (case r of Inl e \<Rightarrow> Return (Inl e) | Inr x \<Rightarrow> f x)"
| "bind_prog (MutateRow q k) f = MutateRow q (\<lambda>a. bind_prog (k a) f)"
| "bind_prog (ReadRows q k) f = ReadRows q (\<lambda>a. bind_prog (k a) f)"
| "bind_prog (CheckAndMutateRow q k) f = CheckAndMutateRow q (\<lambda>a. bind_prog (k a) f)"
| "bind_prog (GetTable q k) f = GetTable q (\<lambda>a. bind_prog (k a) f)"
| "bind_prog (CreateTable q k) f = CreateTable q (\<lambda>a. bind_prog (k a) f)"
| "bind_prog (Connect q k) f = Connect q (\<lambda>a. bind_prog (k a) f)"
| "bind_prog (Credentials q k) f = Credentials q (\<lambda>a. bind_prog (k a) f)"
| "bind_prog (AccessToken q k) f = AccessToken q (\<lambda>a. bind_prog (k a) f)"
| "bind_prog (NowMs k) f = NowMs (\<lambda>a. bind_prog (k a) f)"
| "bind_prog (NewId k) f = NewId (\<lambda>a. bind_prog (k a) f)"
| "bind_prog (NextSeq k) f = NextSeq (\<lambda>a. bind_prog (k a) f)"

text \<open>One call, and a whole program.\<close>

definition on_service :: "('d \<Rightarrow> 'a \<times> 'd) \<Rightarrow> ('a \<Rightarrow> 'p) \<Rightarrow> 'd \<times> world \<Rightarrow> 'p \<times> 'd \<times> world" where
  "on_service f k dw = (case dw of (d, w) \<Rightarrow> case f d of (a, d) \<Rightarrow> (k a, d, w))"

definition on_process :: "(world \<Rightarrow> 'a \<times> world) \<Rightarrow> ('a \<Rightarrow> 'p) \<Rightarrow> 'd \<times> world \<Rightarrow> 'p \<times> 'd \<times> world" where
  "on_process f k dw = (case dw of (d, w) \<Rightarrow> case f w of (a, w) \<Rightarrow> (k a, d, w))"

fun prog_step ::
  "base64 \<Rightarrow> ('t, 'd) grpc_service \<Rightarrow> ('t, 'a) prog \<Rightarrow> 'd \<times> world \<Rightarrow> (('t, 'a) prog \<times> 'd \<times> world) option"
where
  "prog_step b64 svc (Return r) dw = None"
| "prog_step b64 svc (MutateRow q k) dw = Some (on_service (gs_mutate_row svc q) k dw)"
| "prog_step b64 svc (ReadRows q k) dw = Some (on_service (gs_read_rows svc q) k dw)"
| "prog_step b64 svc (CheckAndMutateRow q k) dw =
     Some (on_service (gs_check_and_mutate_row svc q) k dw)"
| "prog_step b64 svc (GetTable q k) dw = Some (on_service (gs_get_table svc q) k dw)"
| "prog_step b64 svc (CreateTable q k) dw = Some (on_service (gs_create_table svc q) k dw)"
| "prog_step b64 svc (Connect q k) dw = Some (on_service (gs_connect svc q) k dw)"
| "prog_step b64 svc (Credentials q k) dw = Some (on_service (gs_credentials svc q) k dw)"
| "prog_step b64 svc (AccessToken q k) dw = Some (on_service (gs_token svc q) k dw)"
| "prog_step b64 svc (NowMs k) dw = Some (on_process now_ms k dw)"
| "prog_step b64 svc (NewId k) dw = Some (on_process (new_id b64) k dw)"
| "prog_step b64 svc (NextSeq k) dw = Some (on_process next_seq k dw)"

definition after_service :: "('d \<Rightarrow> 'a \<times> 'd) \<Rightarrow> ('a \<Rightarrow> 'd \<times> world \<Rightarrow> 'r) \<Rightarrow> 'd \<times> world \<Rightarrow> 'r" where
  "after_service f k dw = (case dw of (d, w) \<Rightarrow> case f d of (a, d) \<Rightarrow> k a (d, w))"

definition after_process :: "(world \<Rightarrow> 'a \<times> world) \<Rightarrow> ('a \<Rightarrow> 'd \<times> world \<Rightarrow> 'r) \<Rightarrow> 'd \<times> world \<Rightarrow> 'r" where
  "after_process f k dw = (case dw of (d, w) \<Rightarrow> case f w of (a, w) \<Rightarrow> k a (d, w))"

primrec run_prog ::
  "base64 \<Rightarrow> ('t, 'd) grpc_service \<Rightarrow> ('t, 'a) prog \<Rightarrow> 'd \<times> world \<Rightarrow> (box_error + 'a) \<times> 'd \<times> world"
where
  "run_prog b64 svc (Return r) = Pair r"
| "run_prog b64 svc (MutateRow q k) = after_service (gs_mutate_row svc q) (\<lambda>a. run_prog b64 svc (k a))"
| "run_prog b64 svc (ReadRows q k) = after_service (gs_read_rows svc q) (\<lambda>a. run_prog b64 svc (k a))"
| "run_prog b64 svc (CheckAndMutateRow q k) = after_service (gs_check_and_mutate_row svc q) (\<lambda>a. run_prog b64 svc (k a))"
| "run_prog b64 svc (GetTable q k) = after_service (gs_get_table svc q) (\<lambda>a. run_prog b64 svc (k a))"
| "run_prog b64 svc (CreateTable q k) = after_service (gs_create_table svc q) (\<lambda>a. run_prog b64 svc (k a))"
| "run_prog b64 svc (Connect q k) = after_service (gs_connect svc q) (\<lambda>a. run_prog b64 svc (k a))"
| "run_prog b64 svc (Credentials q k) = after_service (gs_credentials svc q) (\<lambda>a. run_prog b64 svc (k a))"
| "run_prog b64 svc (AccessToken q k) = after_service (gs_token svc q) (\<lambda>a. run_prog b64 svc (k a))"
| "run_prog b64 svc (NowMs k) = after_process now_ms (\<lambda>a. run_prog b64 svc (k a))"
| "run_prog b64 svc (NewId k) = after_process (new_id b64) (\<lambda>a. run_prog b64 svc (k a))"
| "run_prog b64 svc (NextSeq k) = after_process next_seq (\<lambda>a. run_prog b64 svc (k a))"

text \<open>The \<open>?\<close> on an answer.\<close>

definition answer :: "(box_error + 'a) \<Rightarrow> ('t, 'a) prog" where
  "answer r = Return r"

definition answered :: "(status + 'a) \<Rightarrow> ('t, 'a) prog" where
  "answered r = Return (case r of Inl s \<Rightarrow> Inl (box_status s) | Inr x \<Rightarrow> Inr x)"

section \<open>Configuration and connection\<close>

record bigtable_settings =
  bset_endpoint :: string
  bset_project :: string
  bset_instance :: string
  bset_table :: string
  bset_max_ttl :: u32
  bset_credentials_file :: "string option"
  bset_app_profile :: "string option"

definition table_name :: "bigtable_settings \<Rightarrow> string" where
  "table_name cfg =
     ''projects/'' @ bset_project cfg @ ''/instances/'' @ bset_instance cfg @ ''/tables/'' @ bset_table cfg"

text \<open>\<open>str::replace\<close>: each occurrence, left to right, without overlap.\<close>

function replace_all :: "string \<Rightarrow> string \<Rightarrow> string \<Rightarrow> string" where
  "replace_all p r s =
     (case s of
        [] \<Rightarrow> []
      | c # cs \<Rightarrow>
          if p = [] then s
          else (case strip_prefix p s of
                  Some rest \<Rightarrow> r @ replace_all p r rest
                | None \<Rightarrow> c # replace_all p r cs))"
  by pat_completeness auto

termination
  by (relation "measure (\<lambda>(p, r, s). length s)") (auto simp: strip_prefix_Some_iff)

declare replace_all.simps [simp del]

definition connect_to :: "string \<Rightarrow> ('t, unit) prog" where
  "connect_to url = Connect (url, strip_prefix ''https://'' url \<noteq> None) answer"

definition channel_to :: "bigtable_settings \<Rightarrow> ('t, unit) prog" where
  "channel_to cfg = connect_to (bset_endpoint cfg)"

definition admin_channel :: "bigtable_settings \<Rightarrow> ('t, unit) prog" where
  "admin_channel cfg =
     connect_to (replace_all ''//bigtable.googleapis.com'' ''//bigtableadmin.googleapis.com''
                   (bset_endpoint cfg))"

definition auth :: "bigtable_settings \<Rightarrow> ('t, 't option) prog" where
  "auth cfg =
     (if strip_prefix ''https://'' (bset_endpoint cfg) = None then done_with None
      else bind_prog (Credentials (bset_credentials_file cfg) answer) (\<lambda>source. done_with (Some source)))"

definition metadata_value :: "'t grpc_client \<Rightarrow> string \<Rightarrow> ('t, string) prog" where
  "metadata_value cl v = answer (gc_metadata_value cl v)"

definition with_token :: "'t grpc_client \<Rightarrow> 't option \<Rightarrow> (string \<times> string) list \<Rightarrow> ('t, (string \<times> string) list) prog"
where
  "with_token cl source md =
     (case source of
        None \<Rightarrow> done_with md
      | Some t \<Rightarrow>
          bind_prog (AccessToken t answer) (\<lambda>token.
          bind_prog (metadata_value cl (''Bearer '' @ token)) (\<lambda>bearer.
          case gc_quota_project cl t of
            None \<Rightarrow> done_with (md @ [(''authorization'', bearer)])
          | Some project \<Rightarrow>
              bind_prog (metadata_value cl project) (\<lambda>project.
                done_with (md @ [(''authorization'', bearer), (''x-goog-user-project'', project)])))))"

definition authorized_request ::
  "'t grpc_client \<Rightarrow> 'm \<Rightarrow> 't option \<Rightarrow> string \<Rightarrow> ('t, 'm grpc_request) prog" where
  "authorized_request cl m source params =
     bind_prog (metadata_value cl (replace_all ''/'' ''%2F'' params)) (\<lambda>params.
     bind_prog (with_token cl source [(''x-goog-request-params'', params)]) (\<lambda>md.
     done_with \<lparr>gr_message = m, gr_metadata = md\<rparr>))"

text \<open>
  \<open>BigtableStore\<close>: the client is the service itself; the client library's functions are kept
  beside the credentials.
\<close>

record 't bigtable_store =
  bs_table :: string
  bs_auth :: "'t option"
  bs_app_profile :: string
  bs_client :: "'t grpc_client"

definition bt_connect :: "'t grpc_client \<Rightarrow> bigtable_settings \<Rightarrow> ('t, 't bigtable_store) prog" where
  "bt_connect cl cfg =
     bind_prog (channel_to cfg) (\<lambda>_.
     bind_prog (auth cfg) (\<lambda>source.
     done_with \<lparr>bs_table = table_name cfg, bs_auth = source,
       bs_app_profile = (case bset_app_profile cfg of None \<Rightarrow> [] | Some p \<Rightarrow> p), bs_client = cl\<rparr>))"

definition table_request :: "'t bigtable_store \<Rightarrow> 'm \<Rightarrow> ('t, 'm grpc_request) prog" where
  "table_request b m = authorized_request (bs_client b) m (bs_auth b) (''table_name='' @ bs_table b)"

definition gc_families :: "u32 \<Rightarrow> (string, gc_rule) hmap" where
  "gc_families max_ttl =
     hinsert family_m (GcUnion [MaxNumVersions 1, MaxAge (int (unat max_ttl) + 86400)])
       (hinsert family_d (MaxNumVersions 1) [])"

definition create_table :: "'t grpc_client \<Rightarrow> bigtable_settings \<Rightarrow> 't option \<Rightarrow> ('t, unit) prog" where
  "create_table cl cfg source =
     (let parent = ''projects/'' @ bset_project cfg @ ''/instances/'' @ bset_instance cfg;
          q = \<lparr>ct_parent = parent, ct_table_id = bset_table cfg,
               ct_column_families = gc_families (bset_max_ttl cfg)\<rparr>
      in bind_prog (authorized_request cl q source (''parent='' @ parent)) (\<lambda>q.
           CreateTable q (\<lambda>r. case r of
               Inl s \<Rightarrow> if rpc_code s \<noteq> AlreadyExists then Return (Inl (box_status s)) else done_with ()
             | Inr _ \<Rightarrow> done_with ())))"

definition ensure_table :: "'t grpc_client \<Rightarrow> bigtable_settings \<Rightarrow> ('t, unit) prog" where
  "ensure_table cl cfg =
     bind_prog (admin_channel cfg) (\<lambda>_.
     bind_prog (auth cfg) (\<lambda>source.
     bind_prog (authorized_request cl \<lparr>gt_name = table_name cfg\<rparr> source (''name='' @ table_name cfg)) (\<lambda>q.
       GetTable q (\<lambda>r. case r of
           Inr _ \<Rightarrow> done_with ()
         | Inl s \<Rightarrow> if rpc_code s = NotFound then create_table cl cfg source
                    else Return (Inl (box_status s))))))"

section \<open>Primitives\<close>

definition mutate :: "'t bigtable_store \<Rightarrow> string \<Rightarrow> mutation list \<Rightarrow> ('t, unit) prog" where
  "mutate b key ms =
     bind_prog (table_request b \<lparr>mr_table_name = bs_table b, mr_app_profile_id = bs_app_profile b,
         mr_row_key = octets key, mr_mutations = ms\<rparr>) (\<lambda>q.
     MutateRow q answered)"

definition put :: "'t bigtable_store \<Rightarrow> string \<Rightarrow> string \<Rightarrow> (string \<times> byte list) list \<Rightarrow> ('t, unit) prog" where
  "put b key family cols =
     NowMs (\<lambda>now. mutate b key (map (\<lambda>(c, v). set_cell family c v now) cols))"

definition delete_key :: "'t bigtable_store \<Rightarrow> string \<Rightarrow> ('t, unit) prog" where
  "delete_key b key = mutate b key [delete_row]"

definition read_rows :: "'t bigtable_store \<Rightarrow> row_set \<Rightarrow> ('t, (string \<times> row) list) prog" where
  "read_rows b rows =
     bind_prog (table_request b \<lparr>rr_table_name = bs_table b, rr_app_profile_id = bs_app_profile b,
         rr_rows = Some rows, rr_filter = Some (CellsPerColumnLimitFilter 1)\<rparr>) (\<lambda>q.
     bind_prog (ReadRows q answered) (\<lambda>stream.
     answer (merge_rows (map (\<lambda>r. case r of Inl s \<Rightarrow> Inl (box_status s) | Inr cs \<Rightarrow> Inr cs) stream))))"

definition get_row :: "'t bigtable_store \<Rightarrow> string \<Rightarrow> ('t, row option) prog" where
  "get_row b key =
     bind_prog (read_rows b \<lparr>rs_row_keys = [octets key], rs_row_ranges = []\<rparr>) (\<lambda>rows.
     done_with (if rows = [] then None else Some (snd (last rows))))"

definition row_exists :: "'t bigtable_store \<Rightarrow> string \<Rightarrow> ('t, bool) prog" where
  "row_exists b key = bind_prog (get_row b key) (\<lambda>r. done_with (r \<noteq> None))"

definition mutate_if ::
  "'t bigtable_store \<Rightarrow> string \<Rightarrow> row_filter \<Rightarrow> mutation list \<Rightarrow> ('t, bool) prog" where
  "mutate_if b key predicate ms =
     bind_prog (table_request b \<lparr>cm_table_name = bs_table b, cm_app_profile_id = bs_app_profile b,
         cm_row_key = octets key, cm_predicate_filter = Some predicate, cm_true_mutations = ms\<rparr>) (\<lambda>q.
     CheckAndMutateRow q answered)"

definition delete_message_row :: "'t bigtable_store \<Rightarrow> string \<Rightarrow> string \<Rightarrow> ('t, bool) prog" where
  "delete_message_row b key i = mutate_if b key (column_filter family_m ''id'' (Some i)) [delete_row]"

definition locate :: "'t bigtable_store \<Rightarrow> string \<Rightarrow> ('t, (string \<times> message) option) prog" where
  "locate b i =
     bind_prog (get_row b (''mid#'' @ i)) (\<lambda>idx.
     case idx of None \<Rightarrow> done_with None | Some idx \<Rightarrow>
     case col_text idx ''row'' of None \<Rightarrow> done_with None | Some key \<Rightarrow>
     bind_prog (get_row b key) (\<lambda>r.
     case r of None \<Rightarrow> done_with None | Some r \<Rightarrow>
     done_with (case message_from_row key r of
                  None \<Rightarrow> None | Some m \<Rightarrow> if m_id m = i then Some (key, m) else None)))"

definition bt_remove_message :: "'t bigtable_store \<Rightarrow> string \<Rightarrow> message \<Rightarrow> ('t, bool) prog" where
  "bt_remove_message b key m =
     bind_prog (delete_message_row b key (m_id m)) (\<lambda>matched.
       if \<not> matched then done_with False
       else bind_prog (delete_key b (''mid#'' @ m_id m)) (\<lambda>_. done_with True))"

end
