(* ===== verification/Bigtable_Methods.thy ===== *)
theory Bigtable_Methods
  imports Bigtable_Store
begin

text \<open>
  \<open>impl Store for BigtableStore\<close>: the twenty-five methods of the trait as programs over the
  primitives, and the adapter as a \<open>Store\<close> whose methods run them.
\<close>

section \<open>User agents\<close>

definition bt_create_user_agent :: "'t bigtable_store \<Rightarrow> user_agent \<Rightarrow> ('t, unit) prog" where
  "bt_create_user_agent b ua =
     put b (''ua#'' @ ua_uaid ua) family_d
       ((''seen'', octets (show_u64 (ua_last_seen ua))) #
        (case ua_bridge ua of
           None \<Rightarrow> []
         | Some a \<Rightarrow> [(''bridge'', octets (ba_bridge a)), (''app'', octets (ba_app_id a)),
                       (''token'', octets (ba_token a))]))"

definition bt_user_agent :: "'t bigtable_store \<Rightarrow> string \<Rightarrow> ('t, user_agent option) prog" where
  "bt_user_agent b uaid =
     bind_prog (get_row b (''ua#'' @ uaid)) (\<lambda>r. done_with (map_option (user_agent_from_row uaid) r))"

definition bt_touch_user_agent :: "'t bigtable_store \<Rightarrow> string \<Rightarrow> u64 \<Rightarrow> ('t, bool) prog" where
  "bt_touch_user_agent b uaid now =
     NowMs (\<lambda>ts. mutate_if b (''ua#'' @ uaid) (column_filter family_d ''seen'' None)
                   [set_cell family_d ''seen'' (octets (show_u64 now)) ts])"

definition bt_update_bridge_token :: "'t bigtable_store \<Rightarrow> string \<Rightarrow> string \<Rightarrow> ('t, bool) prog" where
  "bt_update_bridge_token b uaid token =
     NowMs (\<lambda>ts. mutate_if b (''ua#'' @ uaid) (column_filter family_d ''bridge'' None)
                   [set_cell family_d ''token'' (octets token) ts])"

section \<open>Receipts\<close>

definition bt_receipt_sub_exists :: "'t bigtable_store \<Rightarrow> string \<Rightarrow> ('t, bool) prog" where
  "bt_receipt_sub_exists b rsub = row_exists b (''rsub#'' @ rsub)"

definition bt_create_receipt_sub :: "'t bigtable_store \<Rightarrow> ('t, string) prog" where
  "bt_create_receipt_sub b =
     NewId (\<lambda>rsub.
     bind_prog (put b (''rsub#'' @ rsub) family_d [(''c'', octets ''1'')]) (\<lambda>_. done_with rsub))"

definition receipt_key :: "string \<Rightarrow> u64 \<Rightarrow> string" where
  "receipt_key rsub seq = ''rq#'' @ rsub @ ''#'' @ hex16 seq"

definition bt_enqueue_receipt :: "'t bigtable_store \<Rightarrow> receipt \<Rightarrow> ('t, u64 option) prog" where
  "bt_enqueue_receipt b r =
     bind_prog (bt_receipt_sub_exists b (rc_rsub r)) (\<lambda>found.
       if \<not> found then done_with None
       else NextSeq (\<lambda>seq.
         bind_prog (put b (receipt_key (rc_rsub r) seq) family_d
             [(''msg'', octets (rc_msg_id r)), (''status'', octets (show_nat (unat (rc_status r))))]) (\<lambda>_.
         done_with (Some seq))))"

definition queued_row :: "string \<Rightarrow> string \<times> row \<Rightarrow> (u64 \<times> receipt) option" where
  "queued_row rsub kr =
     (case kr of (key, r) \<Rightarrow>
        Option.bind (u64_from_hex (rsplit_next (CHR ''#'') key)) (\<lambda>seq.
        Option.bind (col_text r ''msg'') (\<lambda>msg.
        Option.bind (Option.bind (col_number r ''status'') narrow_u16) (\<lambda>status.
        Some (seq, \<lparr>rc_rsub = rsub, rc_msg_id = msg, rc_status = status\<rparr>)))))"

definition bt_queued_receipts :: "'t bigtable_store \<Rightarrow> string \<Rightarrow> ('t, (u64 \<times> receipt) list) prog" where
  "bt_queued_receipts b rsub =
     bind_prog (read_rows b (key_prefix (''rq#'' @ rsub @ ''#''))) (\<lambda>rows.
     done_with (List.map_filter (queued_row rsub) rows))"

definition bt_delete_receipt :: "'t bigtable_store \<Rightarrow> string \<Rightarrow> u64 \<Rightarrow> ('t, unit) prog" where
  "bt_delete_receipt b rsub seq = delete_key b (receipt_key rsub seq)"

fun delete_keys :: "'t bigtable_store \<Rightarrow> (string \<times> row) list \<Rightarrow> ('t, unit) prog" where
  "delete_keys b [] = done_with ()"
| "delete_keys b ((key, _) # rows) = bind_prog (delete_key b key) (\<lambda>_. delete_keys b rows)"

definition bt_delete_receipt_sub :: "'t bigtable_store \<Rightarrow> string \<Rightarrow> ('t, bool) prog" where
  "bt_delete_receipt_sub b rsub =
     bind_prog (bt_receipt_sub_exists b rsub) (\<lambda>found.
       if \<not> found then done_with False
       else
         bind_prog (delete_key b (''rsub#'' @ rsub)) (\<lambda>_.
         bind_prog (read_rows b (key_prefix (''rq#'' @ rsub @ ''#''))) (\<lambda>rows.
         bind_prog (delete_keys b rows) (\<lambda>_. done_with True))))"

definition bt_owe_410 :: "'t bigtable_store \<Rightarrow> message \<Rightarrow> ('t, (u64 \<times> receipt) option) prog" where
  "bt_owe_410 b m =
     (case m_rsub m of
        None \<Rightarrow> done_with None
      | Some rsub \<Rightarrow>
          let r = \<lparr>rc_rsub = rsub, rc_msg_id = m_id m, rc_status = 410\<rparr>
          in bind_prog (bt_enqueue_receipt b r) (\<lambda>seq. done_with (map_option (\<lambda>seq. (seq, r)) seq)))"

section \<open>Subscriptions\<close>

definition subscription_from_row :: "string \<Rightarrow> string \<times> row \<Rightarrow> subscription option" where
  "subscription_from_row uaid kr =
     (case kr of (key, r) \<Rightarrow>
        map_option (\<lambda>push. \<lparr>sub_uaid = uaid, sub_channel_id = rsplit_next (CHR ''#'') key,
                      sub_push = push, sub_vapid = vapid_from_row r\<rparr>)
          (col_text r ''push''))"

definition bt_subscriptions :: "'t bigtable_store \<Rightarrow> string \<Rightarrow> ('t, subscription list) prog" where
  "bt_subscriptions b uaid =
     bind_prog (read_rows b (key_prefix (''ch#'' @ uaid @ ''#''))) (\<lambda>rows.
     done_with (List.map_filter (subscription_from_row uaid) rows))"

definition channel_key :: "string \<Rightarrow> string \<Rightarrow> string" where
  "channel_key uaid ch = ''ch#'' @ uaid @ ''#'' @ ch"

definition bt_channel :: "'t bigtable_store \<Rightarrow> string \<Rightarrow> string \<Rightarrow> ('t, subscription option) prog" where
  "bt_channel b uaid ch =
     bind_prog (get_row b (channel_key uaid ch)) (\<lambda>r.
     case r of None \<Rightarrow> done_with None | Some r \<Rightarrow>
     case col_text r ''push'' of
       None \<Rightarrow> Return (Inl (BoxError ''channel row without push''))
     | Some push \<Rightarrow>
         done_with (Some \<lparr>sub_uaid = uaid, sub_channel_id = ch, sub_push = push,
           sub_vapid = vapid_from_row r\<rparr>))"

definition bt_create_subscription ::
  "'t bigtable_store \<Rightarrow> string \<Rightarrow> string \<Rightarrow> byte list option \<Rightarrow> ('t, subscription) prog" where
  "bt_create_subscription b uaid ch vapid =
     NewId (\<lambda>push.
       let sub = \<lparr>sub_uaid = uaid, sub_channel_id = ch, sub_push = push, sub_vapid = vapid\<rparr> in
     bind_prog (put b (channel_key uaid ch) family_d
         ((''push'', octets (sub_push sub)) #
          (case sub_vapid sub of None \<Rightarrow> [] | Some key \<Rightarrow> [(''vapid'', key)]))) (\<lambda>_.
     bind_prog (put b (''push#'' @ sub_push sub) family_d
         [(''uaid'', octets uaid), (''ch'', octets ch)]) (\<lambda>_.
     done_with sub)))"

definition bt_subscription_by_push :: "'t bigtable_store \<Rightarrow> string \<Rightarrow> ('t, subscription option) prog" where
  "bt_subscription_by_push b push =
     bind_prog (get_row b (''push#'' @ push)) (\<lambda>r.
     case r of None \<Rightarrow> done_with None | Some r \<Rightarrow>
     case (col_text r ''uaid'', col_text r ''ch'') of
       (Some uaid, Some ch) \<Rightarrow>
         bind_prog (bt_channel b uaid ch) (\<lambda>sub.
         done_with (case sub of None \<Rightarrow> None | Some s \<Rightarrow> if sub_push s = push then Some s else None))
     | _ \<Rightarrow> done_with None)"

section \<open>Removing subscriptions and user agents\<close>

text \<open>The loop of \<open>delete_subscription\<close> over the message rows of the user agent.\<close>

fun remove_channel_rows ::
  "'t bigtable_store \<Rightarrow> string \<Rightarrow> (string \<times> row) list \<Rightarrow> ('t, (u64 \<times> receipt) list) prog" where
  "remove_channel_rows b ch [] = done_with []"
| "remove_channel_rows b ch ((key, r) # rows) =
     (case message_from_row key r of
        None \<Rightarrow> remove_channel_rows b ch rows
      | Some m \<Rightarrow>
          if m_channel_id m \<noteq> ch then remove_channel_rows b ch rows
          else
            bind_prog (bt_remove_message b key m) (\<lambda>removed.
            bind_prog (if removed then bt_owe_410 b m else done_with None) (\<lambda>owed.
            bind_prog (remove_channel_rows b ch rows) (\<lambda>receipts.
            done_with ((case owed of None \<Rightarrow> [] | Some x \<Rightarrow> [x]) @ receipts)))))"

definition bt_delete_subscription ::
  "'t bigtable_store \<Rightarrow> string \<Rightarrow> string \<Rightarrow> ('t, (u64 \<times> receipt) list) prog" where
  "bt_delete_subscription b uaid ch =
     bind_prog (bt_channel b uaid ch) (\<lambda>sub.
     case sub of None \<Rightarrow> done_with [] | Some sub \<Rightarrow>
     bind_prog (read_rows b (key_prefix (''msg#'' @ uaid @ ''#''))) (\<lambda>rows.
     bind_prog (remove_channel_rows b ch rows) (\<lambda>receipts.
     bind_prog (delete_key b (channel_key uaid ch)) (\<lambda>_.
     bind_prog (delete_key b (''push#'' @ sub_push sub)) (\<lambda>_.
     done_with receipts)))))"

fun delete_channels ::
  "'t bigtable_store \<Rightarrow> string \<Rightarrow> (string \<times> row) list \<Rightarrow> ('t, (u64 \<times> receipt) list) prog" where
  "delete_channels b uaid [] = done_with []"
| "delete_channels b uaid ((key, _) # rows) =
     bind_prog (bt_delete_subscription b uaid (rsplit_next (CHR ''#'') key)) (\<lambda>rs.
     bind_prog (delete_channels b uaid rows) (\<lambda>receipts. done_with (rs @ receipts)))"

definition bt_delete_user_agent :: "'t bigtable_store \<Rightarrow> string \<Rightarrow> ('t, (u64 \<times> receipt) list) prog" where
  "bt_delete_user_agent b uaid =
     bind_prog (read_rows b (key_prefix (''ch#'' @ uaid @ ''#''))) (\<lambda>rows.
     bind_prog (delete_channels b uaid rows) (\<lambda>receipts.
     bind_prog (delete_key b (''ua#'' @ uaid)) (\<lambda>_. done_with receipts)))"

fun expire_rows ::
  "'t bigtable_store \<Rightarrow> u64 \<Rightarrow> (string \<times> row) list \<Rightarrow> ('t, nat \<times> (u64 \<times> receipt) list) prog" where
  "expire_rows b cutoff [] = done_with (0, [])"
| "expire_rows b cutoff ((key, r) # rows) =
     (case strip_prefix ''ua#'' key of
        None \<Rightarrow> expire_rows b cutoff rows
      | Some uaid \<Rightarrow>
          if ua_last_seen (user_agent_from_row uaid r) < cutoff
          then
            bind_prog (bt_delete_user_agent b uaid) (\<lambda>rs.
            bind_prog (expire_rows b cutoff rows) (\<lambda>(deleted, receipts).
            done_with (Suc deleted, rs @ receipts)))
          else expire_rows b cutoff rows)"

definition bt_expire_user_agents ::
  "'t bigtable_store \<Rightarrow> u64 \<Rightarrow> ('t, nat \<times> (u64 \<times> receipt) list) prog" where
  "bt_expire_user_agents b cutoff =
     bind_prog (read_rows b (key_prefix ''ua#'')) (\<lambda>rows. expire_rows b cutoff rows)"

section \<open>Messages\<close>

definition expiry_key :: "message \<Rightarrow> string" where
  "expiry_key m = ''rexp#'' @ hex16 (m_expiry m) @ ''#'' @ m_id m"

definition bt_insert_message :: "'t bigtable_store \<Rightarrow> message \<Rightarrow> ('t, unit) prog" where
  "bt_insert_message b m =
     (let key = message_key m in
      bind_prog (mutate b key (message_mutations m)) (\<lambda>_.
      bind_prog (mutate b (''mid#'' @ m_id m) [set_cell family_m ''row'' (octets key) (m_accepted m)]) (\<lambda>_.
      if m_rsub m \<noteq> None then put b (expiry_key m) family_d [(''row'', octets key)]
      else done_with ())))"

definition bt_pending :: "'t bigtable_store \<Rightarrow> string \<Rightarrow> u64 \<Rightarrow> nat \<Rightarrow> ('t, message list) prog" where
  "bt_pending b uaid now limit =
     bind_prog (read_rows b (key_prefix (''msg#'' @ uaid @ ''#''))) (\<lambda>rows.
     done_with (take limit (sort_key (\<lambda>m. (m_accepted m, m_id m))
       (filter (\<lambda>m. m_expiry m > now) (List.map_filter (\<lambda>(key, r). message_from_row key r) rows)))))"

definition bt_message :: "'t bigtable_store \<Rightarrow> string \<Rightarrow> ('t, message option) prog" where
  "bt_message b i = bind_prog (locate b i) (\<lambda>found. done_with (map_option snd found))"

definition bt_delete_message ::
  "'t bigtable_store \<Rightarrow> string \<Rightarrow> (string \<times> string) option \<Rightarrow> ('t, message option) prog" where
  "bt_delete_message b i owner =
     bind_prog (locate b i) (\<lambda>found.
     case found of None \<Rightarrow> done_with None | Some (key, m) \<Rightarrow>
     if (case owner of None \<Rightarrow> False | Some (uaid, ch) \<Rightarrow> m_uaid m \<noteq> uaid \<or> m_channel_id m \<noteq> ch)
     then done_with None
     else bind_prog (bt_remove_message b key m) (\<lambda>removed.
       done_with (if removed then Some m else None)))"

text \<open>The loop of \<open>reap\<close>: the conditions of its \<open>if let\<close> chain in order.\<close>

definition reap_row :: "'t bigtable_store \<Rightarrow> string \<Rightarrow> row \<Rightarrow> ('t, (u64 \<times> receipt) option) prog" where
  "reap_row b i idx =
     (case col_text idx ''row'' of None \<Rightarrow> done_with None | Some key \<Rightarrow>
      bind_prog (get_row b key) (\<lambda>r.
      case r of None \<Rightarrow> done_with None | Some r \<Rightarrow>
      case message_from_row key r of None \<Rightarrow> done_with None | Some m \<Rightarrow>
      if m_id m \<noteq> i then done_with None
      else bind_prog (bt_remove_message b key m) (\<lambda>removed.
        if removed then bt_owe_410 b m else done_with None)))"

fun reap_rows :: "'t bigtable_store \<Rightarrow> (string \<times> row) list \<Rightarrow> ('t, (u64 \<times> receipt) list) prog" where
  "reap_rows b [] = done_with []"
| "reap_rows b ((idx, r) # rows) =
     bind_prog (reap_row b (rsplit_next (CHR ''#'') idx) r) (\<lambda>owed.
     bind_prog (delete_key b idx) (\<lambda>_.
     bind_prog (reap_rows b rows) (\<lambda>receipts.
     done_with ((case owed of None \<Rightarrow> [] | Some x \<Rightarrow> [x]) @ receipts))))"

definition bt_reap :: "'t bigtable_store \<Rightarrow> u64 \<Rightarrow> ('t, (u64 \<times> receipt) list) prog" where
  "bt_reap b now =
     bind_prog (read_rows b (key_range ''rexp#'' (''rexp#'' @ hex16 (now + 1)))) (\<lambda>rows. reap_rows b rows)"

section \<open>Routes\<close>

definition bt_set_route :: "'t bigtable_store \<Rightarrow> recipient \<Rightarrow> string \<Rightarrow> ('t, string option) prog" where
  "bt_set_route b to node =
     bind_prog (get_row b (route_key to)) (\<lambda>r.
       let previous = (case r of None \<Rightarrow> None | Some r \<Rightarrow> col_text r ''node'') in
     bind_prog (put b (route_key to) family_d [(''node'', octets node)]) (\<lambda>_. done_with previous))"

definition bt_route :: "'t bigtable_store \<Rightarrow> recipient \<Rightarrow> ('t, string option) prog" where
  "bt_route b to =
     bind_prog (get_row b (route_key to)) (\<lambda>r.
     done_with (case r of None \<Rightarrow> None | Some r \<Rightarrow> col_text r ''node''))"

definition bt_clear_route :: "'t bigtable_store \<Rightarrow> recipient \<Rightarrow> string \<Rightarrow> ('t, bool) prog" where
  "bt_clear_route b to node =
     mutate_if b (route_key to) (column_filter family_d ''node'' (Some node)) [delete_row]"

section \<open>The adapter as a store\<close>

definition bigtable_adapter ::
  "base64 \<Rightarrow> ('t, 'd) grpc_service \<Rightarrow> 't bigtable_store \<Rightarrow> 'd store" where
  "bigtable_adapter b64 svc b =
     \<lparr>so_create_user_agent = \<lambda>ua. run_prog b64 svc (bt_create_user_agent b ua),
      so_user_agent = \<lambda>u. run_prog b64 svc (bt_user_agent b u),
      so_touch_user_agent = \<lambda>u now. run_prog b64 svc (bt_touch_user_agent b u now),
      so_update_bridge_token = \<lambda>u t. run_prog b64 svc (bt_update_bridge_token b u t),
      so_delete_user_agent = \<lambda>u. run_prog b64 svc (bt_delete_user_agent b u),
      so_expire_user_agents = \<lambda>c. run_prog b64 svc (bt_expire_user_agents b c),
      so_subscriptions = \<lambda>u. run_prog b64 svc (bt_subscriptions b u),
      so_channel = \<lambda>u c. run_prog b64 svc (bt_channel b u c),
      so_create_subscription = \<lambda>u c v. run_prog b64 svc (bt_create_subscription b u c v),
      so_subscription_by_push = \<lambda>p. run_prog b64 svc (bt_subscription_by_push b p),
      so_delete_subscription = \<lambda>u c. run_prog b64 svc (bt_delete_subscription b u c),
      so_insert_message = \<lambda>m. run_prog b64 svc (bt_insert_message b m),
      so_pending = \<lambda>u now n. run_prog b64 svc (bt_pending b u now n),
      so_message = \<lambda>i. run_prog b64 svc (bt_message b i),
      so_delete_message = \<lambda>i owner. run_prog b64 svc (bt_delete_message b i owner),
      so_create_receipt_sub = run_prog b64 svc (bt_create_receipt_sub b),
      so_receipt_sub_exists = \<lambda>r. run_prog b64 svc (bt_receipt_sub_exists b r),
      so_delete_receipt_sub = \<lambda>r. run_prog b64 svc (bt_delete_receipt_sub b r),
      so_enqueue_receipt = \<lambda>r. run_prog b64 svc (bt_enqueue_receipt b r),
      so_queued_receipts = \<lambda>r. run_prog b64 svc (bt_queued_receipts b r),
      so_delete_receipt = \<lambda>r seq. run_prog b64 svc (bt_delete_receipt b r seq),
      so_reap = \<lambda>now. run_prog b64 svc (bt_reap b now),
      so_set_route = \<lambda>to node. run_prog b64 svc (bt_set_route b to node),
      so_route = \<lambda>to. run_prog b64 svc (bt_route b to),
      so_clear_route = \<lambda>to node. run_prog b64 svc (bt_clear_route b to node)\<rparr>"

end
