(* ===== verification/Bigtable_Service.thy ===== *)
theory Bigtable_Service
  imports Bigtable_Methods
begin

text \<open>
  What the documentation of the Bigtable data API promises, as hypotheses on the service the
  adapter is given: a table is rows of timestamped cells; a mutation of one row is atomic;
  a filter selects cells of a row; a read streams the selected rows in key order as chunks.
  \<open>tab d k\<close> observes the cells of row \<open>k\<close> in the state \<open>d\<close> of the service, none when the
  row does not exist. RE2, which evaluates the filters' patterns, is a parameter too.
\<close>

section \<open>Cells and mutations\<close>

record cell =
  cl_family :: string
  cl_qualifier :: "byte list"
  cl_timestamp :: i64
  cl_value :: "byte list"

definition same_column :: "cell \<Rightarrow> cell \<Rightarrow> bool" where
  "same_column c c' \<longleftrightarrow> cl_family c = cl_family c' \<and> cl_qualifier c = cl_qualifier c'"

fun apply_mutation :: "cell list \<Rightarrow> mutation \<Rightarrow> cell list" where
  "apply_mutation cs (SetCell sc) =
     (let c = \<lparr>cl_family = sc_family sc, cl_qualifier = sc_qualifier sc,
               cl_timestamp = sc_timestamp_micros sc, cl_value = sc_value sc\<rparr>
      in filter (\<lambda>c'. \<not> (same_column c c' \<and> cl_timestamp c' = cl_timestamp c)) cs @ [c])"
| "apply_mutation cs DeleteFromRow = []"

definition apply_mutations :: "mutation list \<Rightarrow> cell list \<Rightarrow> cell list" where
  "apply_mutations ms cs = foldl apply_mutation cs ms"

text \<open>Server-side timestamps are asked for with a negative one, which the adapter never sends.\<close>

definition timestamped :: "mutation list \<Rightarrow> bool" where
  "timestamped ms \<longleftrightarrow> (\<forall>sc. SetCell sc \<in> set ms \<longrightarrow> 0 \<le> sint (sc_timestamp_micros sc))"

section \<open>Filters\<close>

text \<open>The newest \<open>n\<close> cells of each column.\<close>

definition newest :: "nat \<Rightarrow> cell list \<Rightarrow> cell list" where
  "newest n cs = filter (\<lambda>c.
     length (filter (\<lambda>c'. same_column c c' \<and> sint (cl_timestamp c) < sint (cl_timestamp c')) cs) < n) cs"

fun yields :: "(byte list \<Rightarrow> byte list \<Rightarrow> bool) \<Rightarrow> row_filter \<Rightarrow> cell list \<Rightarrow> cell list" where
  "yields re2 (FamilyNameRegexFilter p) cs = filter (\<lambda>c. re2 (octets p) (octets (cl_family c))) cs"
| "yields re2 (ColumnQualifierRegexFilter p) cs = filter (\<lambda>c. re2 p (cl_qualifier c)) cs"
| "yields re2 (CellsPerColumnLimitFilter n) cs = newest n cs"
| "yields re2 (ValueRegexFilter p) cs = filter (\<lambda>c. re2 p (cl_value c)) cs"
| "yields re2 (Chain []) cs = cs"
| "yields re2 (Chain (f # fs)) cs = yields re2 (Chain fs) (yields re2 f cs)"

text \<open>
  RE2: an ASCII letter or digit matches itself, a backslash before any other ASCII octet
  matches that octet, and a pattern matches a whole value between anchors.
\<close>

definition alphanumeric_byte :: "byte \<Rightarrow> bool" where
  "alphanumeric_byte b \<longleftrightarrow> (0x30 \<le> b \<and> b \<le> 0x39) \<or> (0x41 \<le> b \<and> b \<le> 0x5A) \<or> (0x61 \<le> b \<and> b \<le> 0x7A)"

inductive literal :: "byte list \<Rightarrow> byte list \<Rightarrow> bool" where
  literal_Nil: "literal [] []"
| literal_letter: "alphanumeric_byte c \<Longrightarrow> literal p v \<Longrightarrow> literal (c # p) (c # v)"
| literal_escape: "c < 0x80 \<Longrightarrow> \<not> alphanumeric_byte c \<Longrightarrow> literal p v \<Longrightarrow> literal (0x5C # c # p) (c # v)"

definition matches_literally :: "(byte list \<Rightarrow> byte list \<Rightarrow> bool) \<Rightarrow> bool" where
  "matches_literally re2 \<longleftrightarrow> (\<forall>p v s. literal p v \<longrightarrow>
     (re2 p s \<longleftrightarrow> s = v) \<and> (re2 (0x5E # p @ [0x24]) s \<longleftrightarrow> s = v))"

section \<open>Streams of rows\<close>

definition plain :: "cell_chunk \<Rightarrow> bool" where
  "plain c \<longleftrightarrow> ck_row_status c \<noteq> Some (ResetRow True) \<and> ck_row_status c \<noteq> Some (CommitRow True)"

text \<open>
  One cell: its value may be split; every chunk but the last announces that more follows, and
  the last commits the row exactly when \<open>commit\<close> holds.
\<close>

inductive cell_chunks :: "byte list \<Rightarrow> byte list \<Rightarrow> bool \<Rightarrow> byte list \<Rightarrow> cell_chunk list \<Rightarrow> bool"
  for k :: "byte list" and q :: "byte list" and commit :: bool where
  chunk_last: "ck_row_key c \<in> {[], k} \<Longrightarrow> ck_qualifier c \<in> {None, Some q} \<Longrightarrow> ck_value_size c = 0 \<Longrightarrow>
     (if commit then ck_row_status c = Some (CommitRow True) else plain c) \<Longrightarrow>
     cell_chunks k q commit (ck_value c) [c]"
| chunk_more: "ck_row_key c \<in> {[], k} \<Longrightarrow> ck_qualifier c \<in> {None, Some q} \<Longrightarrow> ck_value_size c \<noteq> 0 \<Longrightarrow>
     plain c \<Longrightarrow> cell_chunks k q commit v cs \<Longrightarrow> cell_chunks k q commit (ck_value c @ v) (c # cs)"

text \<open>
  One row: the first chunk names the row; a chunk names its qualifier unless the cell before it
  in the row had the same one.
\<close>

inductive row_chunks :: "byte list \<Rightarrow> byte list option \<Rightarrow> cell list \<Rightarrow> cell_chunk list \<Rightarrow> bool"
  for k :: "byte list" where
  row_last: "cell_chunks k (cl_qualifier x) True (cl_value x) cs \<Longrightarrow>
     (prev = None \<longrightarrow> ck_row_key (hd cs) = k) \<Longrightarrow>
     ck_qualifier (hd cs) = Some (cl_qualifier x) \<or> prev = Some (cl_qualifier x) \<Longrightarrow>
     row_chunks k prev [x] cs"
| row_more: "cell_chunks k (cl_qualifier x) False (cl_value x) cs \<Longrightarrow>
     (prev = None \<longrightarrow> ck_row_key (hd cs) = k) \<Longrightarrow>
     ck_qualifier (hd cs) = Some (cl_qualifier x) \<or> prev = Some (cl_qualifier x) \<Longrightarrow>
     row_chunks k (Some (cl_qualifier x)) xs cs' \<Longrightarrow> row_chunks k prev (x # xs) (cs @ cs')"

text \<open>The stream: rows, and attempts at a row that the server gives up with a reset.\<close>

inductive encodes :: "(byte list \<times> cell list) list \<Rightarrow> cell_chunk list \<Rightarrow> bool" where
  encodes_Nil: "encodes [] []"
| encodes_row: "k \<noteq> [] \<Longrightarrow> row_chunks k None xs cs \<Longrightarrow> encodes rows cs' \<Longrightarrow>
     encodes ((k, xs) # rows) (cs @ cs')"
| encodes_reset: "list_all plain cs \<Longrightarrow> ck_row_status c = Some (ResetRow True) \<Longrightarrow> encodes rows cs' \<Longrightarrow>
     encodes rows (cs @ c # cs')"

definition wanted :: "row_set \<Rightarrow> byte list \<Rightarrow> bool" where
  "wanted rs k \<longleftrightarrow> k \<in> set (rs_row_keys rs) \<or>
     (\<exists>(start, end_key)\<in>set (rs_row_ranges rs). start \<le> k \<and> k < end_key)"

definition selects ::
  "(byte list \<Rightarrow> byte list \<Rightarrow> bool) \<Rightarrow> row_set \<Rightarrow> row_filter \<Rightarrow> (byte list \<Rightarrow> cell list) \<Rightarrow>
   (byte list \<times> cell list) list \<Rightarrow> bool" where
  "selects re2 rs f t rows \<longleftrightarrow>
     sorted_wrt (<) (map fst rows) \<and>
     (\<forall>(k, xs)\<in>set rows. wanted rs k \<and> yields re2 f (t k) \<noteq> [] \<and>
        set xs = set (yields re2 f (t k)) \<and> length xs = length (yields re2 f (t k))) \<and>
     (\<forall>k. wanted rs k \<and> yields re2 f (t k) \<noteq> [] \<longrightarrow> k \<in> fst ` set rows)"

section \<open>The promises\<close>

text \<open>
  A call that fails may still have taken effect: the answer is lost, not the write.
\<close>

definition serves_mutations ::
  "('t, 'd) grpc_service \<Rightarrow> string \<Rightarrow> ('d \<Rightarrow> byte list \<Rightarrow> cell list) \<Rightarrow> bool" where
  "serves_mutations svc t tab \<longleftrightarrow> (\<forall>q d r d'. mr_table_name (gr_message q) = t \<longrightarrow>
     timestamped (mr_mutations (gr_message q)) \<longrightarrow> gs_mutate_row svc q d = (r, d') \<longrightarrow>
     (let k = mr_row_key (gr_message q)
      in tab d' = (tab d)(k := apply_mutations (mr_mutations (gr_message q)) (tab d k)) \<or>
         (isl r \<and> tab d' = tab d)))"

definition serves_reads ::
  "(byte list \<Rightarrow> byte list \<Rightarrow> bool) \<Rightarrow> ('t, 'd) grpc_service \<Rightarrow> string \<Rightarrow>
   ('d \<Rightarrow> byte list \<Rightarrow> cell list) \<Rightarrow> bool" where
  "serves_reads re2 svc t tab \<longleftrightarrow> (\<forall>q d r d' rs f. rr_table_name (gr_message q) = t \<longrightarrow>
     rr_rows (gr_message q) = Some rs \<longrightarrow> rr_filter (gr_message q) = Some f \<longrightarrow>
     gs_read_rows svc q d = (r, d') \<longrightarrow>
     tab d' = tab d \<and>
     (\<forall>stream. r = Inr (map Inr stream) \<longrightarrow>
        (\<exists>rows. selects re2 rs f (tab d) rows \<and> encodes rows (concat stream))))"

definition serves_checks ::
  "(byte list \<Rightarrow> byte list \<Rightarrow> bool) \<Rightarrow> ('t, 'd) grpc_service \<Rightarrow> string \<Rightarrow>
   ('d \<Rightarrow> byte list \<Rightarrow> cell list) \<Rightarrow> bool" where
  "serves_checks re2 svc t tab \<longleftrightarrow> (\<forall>q d r d' f. cm_table_name (gr_message q) = t \<longrightarrow>
     timestamped (cm_true_mutations (gr_message q)) \<longrightarrow> cm_predicate_filter (gr_message q) = Some f \<longrightarrow>
     gs_check_and_mutate_row svc q d = (r, d') \<longrightarrow>
     (let k = cm_row_key (gr_message q);
          matched = (yields re2 f (tab d k) \<noteq> []);
          t' = (if matched then (tab d)(k := apply_mutations (cm_true_mutations (gr_message q)) (tab d k))
                else tab d)
      in (\<forall>x. r = Inr x \<longrightarrow> x = matched \<and> tab d' = t') \<and>
         (isl r \<longrightarrow> tab d' = t' \<or> tab d' = tab d)))"

definition leaves_rows :: "('t, 'd) grpc_service \<Rightarrow> ('d \<Rightarrow> byte list \<Rightarrow> cell list) \<Rightarrow> bool" where
  "leaves_rows svc tab \<longleftrightarrow>
     (\<forall>x d. tab (snd (gs_token svc x d)) = tab d) \<and>
     (\<forall>x d. tab (snd (gs_connect svc x d)) = tab d) \<and>
     (\<forall>x d. tab (snd (gs_credentials svc x d)) = tab d)"

definition bigtable_service ::
  "(byte list \<Rightarrow> byte list \<Rightarrow> bool) \<Rightarrow> ('t, 'd) grpc_service \<Rightarrow> string \<Rightarrow>
   ('d \<Rightarrow> byte list \<Rightarrow> cell list) \<Rightarrow> bool" where
  "bigtable_service re2 svc t tab \<longleftrightarrow>
     matches_literally re2 \<and> serves_mutations svc t tab \<and> serves_reads re2 svc t tab \<and> serves_checks re2 svc t tab \<and>
     leaves_rows svc tab"

section \<open>Merging a stream\<close>

definition cells_row :: "cell list \<Rightarrow> row" where
  "cells_row xs = foldl (\<lambda>r x. hinsert (cl_qualifier x) (cl_value x) r) [] xs"

lemma merge_cell_chunks:
  assumes "cell_chunks k q commit v cs" and "mg_key g = k \<or> ck_row_key (hd cs) = k"
    and "mg_qualifier g = q \<or> ck_qualifier (hd cs) = Some q" and "k \<noteq> []" and "from_utf8 k = Some s"
  shows "merge_chunks (cs @ cs') g = merge_chunks cs'
     \<lparr>mg_key = k, mg_qualifier = q,
      mg_row = (if commit then [] else hinsert q (mg_value g @ v) (mg_row g)), mg_value = [],
      mg_out = (if commit then mg_out g @ [(s, hinsert q (mg_value g @ v) (mg_row g))] else mg_out g)\<rparr>"
  using assms
proof (induction v cs arbitrary: g rule: cell_chunks.induct)
  case (chunk_last c)
  then show ?case
    by (cases g) (auto simp: merge_chunk_def merge_fields_def plain_def Let_def split: if_splits)
next
  case (chunk_more c v cs)
  have c: "merge_chunk c g = Inr (merge_fields c g)"
    using \<open>plain c\<close> by (simp add: merge_chunk_def plain_def Let_def)
  have "mg_key (merge_fields c g) = k" "mg_qualifier (merge_fields c g) = q"
    "mg_value (merge_fields c g) = mg_value g @ ck_value c"
    "mg_row (merge_fields c g) = mg_row g" "mg_out (merge_fields c g) = mg_out g"
    using chunk_more.hyps(1-3) chunk_more.prems by (auto simp: merge_fields_def Let_def)
  then show ?case
    using chunk_more.IH [of "merge_fields c g"] chunk_more.prems by (simp add: c)
qed

lemma merge_row_chunks:
  assumes "row_chunks k prev xs cs" and "prev = None \<or> (mg_key g = k \<and> mg_qualifier g = the prev)"
    and "k \<noteq> []" and "from_utf8 k = Some s" and "mg_value g = []"
  shows "\<exists>q. merge_chunks (cs @ cs') g = merge_chunks cs'
     \<lparr>mg_key = k, mg_qualifier = q, mg_row = [], mg_value = [],
      mg_out = mg_out g @ [(s, foldl (\<lambda>r x. hinsert (cl_qualifier x) (cl_value x) r) (mg_row g) xs)]\<rparr>"
  using assms
proof (induction arbitrary: g rule: row_chunks.induct)
  case (row_last x cs prev)
  show ?case
    using merge_cell_chunks [OF row_last.hyps(1), of g s cs'] row_last.hyps row_last.prems by auto
next
  case (row_more x cs prev xs cs1)
  let ?g = "\<lparr>mg_key = k, mg_qualifier = cl_qualifier x,
      mg_row = hinsert (cl_qualifier x) (cl_value x) (mg_row g), mg_value = [], mg_out = mg_out g\<rparr>"
  have "merge_chunks (cs @ cs1 @ cs') g = merge_chunks (cs1 @ cs') ?g"
    using merge_cell_chunks [OF row_more.hyps(1), of g s "cs1 @ cs'"] row_more.hyps row_more.prems by auto
  then show ?case
    using row_more.IH [of ?g] row_more.prems by simp
qed

lemma merge_plain: "list_all plain cs \<Longrightarrow> \<exists>g'. merge_chunks (cs @ cs') g = merge_chunks cs' g' \<and> mg_out g' = mg_out g"
proof (induction cs arbitrary: g)
  case Nil
  show ?case by (intro exI [of _ g]) simp
next
  case (Cons c cs)
  have "merge_chunk c g = Inr (merge_fields c g)" and "mg_out (merge_fields c g) = mg_out g"
    using Cons.prems by (auto simp: merge_chunk_def plain_def merge_fields_def Let_def split: option.splits)
  then show ?case using Cons.IH [of "merge_fields c g"] Cons.prems by simp
qed

text \<open>The rows of a stream, whatever the server splits, repeats or gives up, are merged back.\<close>

lemma merge_encoded:
  assumes "encodes rows cs" and "\<forall>(k, xs)\<in>set rows. from_utf8 k \<noteq> None"
    and "mg_row g = []" and "mg_value g = []"
  shows "\<exists>g'. merge_chunks cs g = Inr g' \<and> mg_row g' = [] \<and> mg_value g' = [] \<and>
     mg_out g' = mg_out g @ map (\<lambda>(k, xs). (the (from_utf8 k), cells_row xs)) rows"
  using assms
proof (induction arbitrary: g rule: encodes.induct)
  case encodes_Nil
  then show ?case by simp
next
  case (encodes_row k xs cs rows cs')
  obtain s where s: "from_utf8 k = Some s" using encodes_row.prems(1) by auto
  obtain q where "merge_chunks (cs @ cs') g = merge_chunks cs'
     \<lparr>mg_key = k, mg_qualifier = q, mg_row = [], mg_value = [], mg_out = mg_out g @ [(s, cells_row xs)]\<rparr>"
    using merge_row_chunks [OF encodes_row.hyps(2), of g s cs'] encodes_row.hyps(1) s encodes_row.prems
    by (auto simp: cells_row_def)
  then show ?case
    using encodes_row.IH [of "\<lparr>mg_key = k, mg_qualifier = q, mg_row = [], mg_value = [],
        mg_out = mg_out g @ [(s, cells_row xs)]\<rparr>"] encodes_row.prems(1) s by simp
next
  case (encodes_reset cs c rows cs')
  obtain g' where g': "merge_chunks (cs @ c # cs') g = merge_chunks (c # cs') g'" "mg_out g' = mg_out g"
    using merge_plain [OF encodes_reset.hyps(1), of "c # cs'" g] by blast
  then have "merge_chunks (cs @ c # cs') g = merge_chunks cs' (g'\<lparr>mg_row := [], mg_value := []\<rparr>)"
    using encodes_reset.hyps(2) by (simp add: merge_chunk_def)
  then show ?case
    using encodes_reset.IH [of "g'\<lparr>mg_row := [], mg_value := []\<rparr>"] encodes_reset.prems(1) g'(2) by simp
qed

lemma merge_chunks_append:
  "merge_chunks (cs @ cs') g = (case merge_chunks cs g of Inl e \<Rightarrow> Inl e | Inr g \<Rightarrow> merge_chunks cs' g)"
  by (induction cs arbitrary: g) (auto split: sum.splits)

lemma merge_stream_concat: "merge_stream (map Inr stream) g = merge_chunks (concat stream) g"
  by (induction stream arbitrary: g) (simp_all add: merge_chunks_append split: sum.splits)

lemma merge_stream_failed: "merge_stream rs g = Inr g' \<Longrightarrow> \<exists>stream. rs = map Inr stream"
proof (induction rs arbitrary: g)
  case (Cons r rs)
  then obtain cs g1 where "r = Inr cs" "merge_stream rs g1 = Inr g'"
    by (cases r) (auto split: sum.splits)
  with Cons.IH show ?case by (metis list.simps(9))
qed simp

lemma merge_rows_encoded:
  assumes "encodes rows (concat stream)" and "\<forall>(k, xs)\<in>set rows. from_utf8 k \<noteq> None"
  shows "merge_rows (map Inr stream) = Inr (map (\<lambda>(k, xs). (the (from_utf8 k), cells_row xs)) rows)"
  using merge_encoded [OF assms, of merge_start]
  by (auto simp: merge_rows_def merge_stream_concat merge_start_def)

end
