(* ===== verification/Bigtable_Laws.thy ===== *)
theory Bigtable_Laws
  imports Bigtable_Service Store_Spec
begin

text \<open>
  The primitives of the adapter over a service that keeps its promises: what a read returns
  and what a write leaves of a row, seen as the latest value of each column. Every method's
  proof rests on these few rules.
\<close>

section \<open>Running programs\<close>

lemma run_bind:
  "run_prog b64 svc (bind_prog p f) = and_then (run_prog b64 svc p) (\<lambda>x. run_prog b64 svc (f x))"
proof (induction p)
  case (Return r)
  then show ?case by (cases r) (simp_all add: and_then_def fun_eq_iff)
qed (simp_all add: and_then_def fun_eq_iff after_service_def after_process_def split: prod.splits)

lemma run_done [simp]: "run_prog b64 svc (done_with x) dw = (Inr x, dw)"
  by (simp add: done_with_def)

lemma run_answer [simp]: "run_prog b64 svc (answer r) dw = (r, dw)"
  by (simp add: answer_def)

lemma gives_done [simp]: "gives (run_prog b64 svc (done_with x)) dw Q \<longleftrightarrow> Q x dw"
  by (cases dw) (simp add: gives_def)

lemma gives_failed [simp]: "gives (run_prog b64 svc (Return (Inl e))) dw Q"
  by (simp add: gives_def)

lemma gives_bind:
  "gives (run_prog b64 svc (bind_prog p f)) dw Q \<longleftrightarrow>
     gives (run_prog b64 svc p) dw (\<lambda>x dw'. gives (run_prog b64 svc (f x)) dw' Q)"
  by (auto simp: gives_def run_bind and_then_eqs)

lemma gives_impl:
  assumes "gives f dw Q" and "\<And>x d w. Q x (d, w) \<Longrightarrow> R x (d, w)"
  shows "gives f dw R"
  unfolding gives_def
proof (intro allI impI)
  fix x dw' assume "f dw = (Inr x, dw')"
  then show "R x dw'" using givesD [OF assms(1)] assms(2) by (cases dw') blast
qed

lemma gives_bindI:
  assumes "gives (run_prog b64 svc p) dw R"
    and "\<And>x d w. R x (d, w) \<Longrightarrow> gives (run_prog b64 svc (f x)) (d, w) Q"
  shows "gives (run_prog b64 svc (bind_prog p f)) dw Q"
  unfolding gives_bind using assms by (rule gives_impl)

lemma gives_now:
  "gives (run_prog b64 svc (NowMs k)) (d, w) Q \<longleftrightarrow>
     gives (run_prog b64 svc (k (fst (now_ms w)))) (d, snd (now_ms w)) Q"
  by (simp add: gives_def after_process_def split: prod.splits)

lemma gives_new_id:
  "gives (run_prog b64 svc (NewId k)) (d, w) Q \<longleftrightarrow>
     gives (run_prog b64 svc (k (fst (new_id b64 w)))) (d, snd (new_id b64 w)) Q"
  by (simp add: gives_def after_process_def split: prod.splits)

lemma gives_next_seq:
  "gives (run_prog b64 svc (NextSeq k)) (d, w) Q \<longleftrightarrow>
     gives (run_prog b64 svc (k (fst (next_seq w)))) (d, snd (next_seq w)) Q"
  by (simp add: gives_def after_process_def split: prod.splits)

section \<open>Strings\<close>

definition is_ascii :: "string \<Rightarrow> bool" where
  "is_ascii s \<longleftrightarrow> (\<forall>c\<in>set s. (of_char c :: nat) < 128)"

lemma is_ascii_simps [simp]:
  "is_ascii []" "is_ascii (c # s) \<longleftrightarrow> (of_char c :: nat) < 128 \<and> is_ascii s"
  "is_ascii (s @ t) \<longleftrightarrow> is_ascii s \<and> is_ascii t"
  by (auto simp: is_ascii_def)

lemma octets_simps [simp]: "octets [] = []" "octets (c # s) = of_char c # octets s" "octets (s @ t) = octets s @ octets t"
  by (simp_all add: octets_def)

lemma unat_of_char: "unat (of_char c :: byte) = of_char c"
proof -
  have "(of_char c :: byte) = of_nat (of_char c)" by (simp add: of_char_def)
  moreover have "(of_char c :: nat) < 256" by (metis of_char_mod_256 mod_less_divisor zero_less_numeral)
  ultimately show ?thesis by (simp add: unat_of_nat)
qed

lemma octets_inject: "octets s = octets t \<longleftrightarrow> s = t"
proof
  assume "octets s = octets t"
  moreover have "map (\<lambda>b. char_of (unat b)) (octets x) = x" for x
    by (induction x) (simp_all add: unat_of_char)
  ultimately show "s = t" by metis
qed simp

lemma utf8_ascii: "is_ascii s \<Longrightarrow> utf8_valid (octets s)"
  by (induction s) (auto simp: word_less_nat_alt unat_of_char)

lemma from_utf8_octets: "utf8_valid (octets s) \<Longrightarrow> from_utf8 (octets s) = Some s"
proof -
  have "map (\<lambda>b. char_of (unat b)) (octets s) = s"
    by (induction s) (simp_all add: unat_of_char)
  then show "utf8_valid (octets s) \<Longrightarrow> from_utf8 (octets s) = Some s" by (simp add: from_utf8_def)
qed

lemma from_utf8_SomeD: "from_utf8 k = Some s \<Longrightarrow> octets s = k"
proof -
  have "octets (map (\<lambda>b. char_of (unat b)) k) = k" for k :: "byte list"
  proof (induction k)
    case (Cons b k)
    have "(of_char (char_of (unat b) :: char) :: byte) = b"
      using unat_of_char [of "char_of (unat b)"] unat_byte_less [of b]
      by (metis of_char_of mod_less unsigned_word_eqI)
    with Cons show ?case by simp
  qed simp
  then show "from_utf8 k = Some s \<Longrightarrow> octets s = k" by (auto simp: from_utf8_def split: if_splits)
qed

lemma from_utf8_ascii [simp]: "is_ascii s \<Longrightarrow> from_utf8 (octets s) = Some s"
  by (simp add: from_utf8_octets utf8_ascii)

section \<open>The latest value of each column\<close>

text \<open>The adapter keeps each row in one family; two cells of a column differ in their timestamps.\<close>

definition tidy :: "string \<Rightarrow> cell list \<Rightarrow> bool" where
  "tidy f cs \<longleftrightarrow> (\<forall>c\<in>set cs. cl_family c = f) \<and> distinct (map (\<lambda>c. (cl_qualifier c, cl_timestamp c)) cs)"

definition content :: "cell list \<Rightarrow> byte list \<Rightarrow> byte list option" where
  "content cs = map_of (map (\<lambda>c. (cl_qualifier c, cl_value c)) (newest (Suc 0) cs))"

text \<open>No cell of the row was written after \<open>ts\<close>.\<close>

definition not_after :: "i64 \<Rightarrow> cell list \<Rightarrow> bool" where
  "not_after ts cs \<longleftrightarrow> (\<forall>c\<in>set cs. sint (cl_timestamp c) \<le> sint ts)"

lemma set_newest:
  "set (newest (Suc 0) cs) = {c \<in> set cs. \<forall>c'\<in>set cs. same_column c c' \<longrightarrow> sint (cl_timestamp c') \<le> sint (cl_timestamp c)}"
  by (auto simp: newest_def filter_empty_conv not_less)

lemma tidy_Nil [simp]: "tidy f []"
  by (simp add: tidy_def)

lemma content_Nil [simp]: "content [] = Map.empty"
  by (simp add: content_def newest_def)

lemma newest_distinct:
  assumes "tidy f cs"
  shows "distinct (map cl_qualifier (newest (Suc 0) cs))"
proof -
  have "c = c'" if "c \<in> set (newest (Suc 0) cs)" "c' \<in> set (newest (Suc 0) cs)" "cl_qualifier c = cl_qualifier c'" for c c'
  proof -
    have in_cs: "c \<in> set cs" "c' \<in> set cs" using that by (auto simp: newest_def)
    then have "same_column c c'" "same_column c' c" using assms that(3) by (auto simp: tidy_def same_column_def)
    then have "sint (cl_timestamp c) = sint (cl_timestamp c')"
      using that(1,2) in_cs unfolding set_newest by (auto intro: order_antisym)
    then have "cl_timestamp c = cl_timestamp c'" by (rule signed_word_eqI)
    with assms in_cs that(3) show ?thesis by (auto simp: tidy_def distinct_map inj_on_def)
  qed
  moreover have "distinct (newest (Suc 0) cs)"
    using assms by (auto simp: newest_def tidy_def distinct_map)
  ultimately show ?thesis by (auto simp: distinct_map inj_on_def)
qed

lemma content_iff:
  assumes "tidy f cs"
  shows "content cs q = Some v \<longleftrightarrow> (\<exists>c\<in>set (newest (Suc 0) cs). cl_qualifier c = q \<and> cl_value c = v)"
proof -
  have "distinct (map fst (map (\<lambda>c. (cl_qualifier c, cl_value c)) (newest (Suc 0) cs)))"
    using newest_distinct [OF assms] by (simp add: comp_def)
  then show ?thesis unfolding content_def by (subst map_of_eq_Some_iff) auto
qed

lemma content_None_iff:
  assumes "tidy f cs"
  shows "content cs q = None \<longleftrightarrow> (\<forall>c\<in>set cs. cl_qualifier c \<noteq> q)"
proof
  assume none: "content cs q = None"
  show "\<forall>c\<in>set cs. cl_qualifier c \<noteq> q"
  proof (rule ccontr)
    assume "\<not> (\<forall>c\<in>set cs. cl_qualifier c \<noteq> q)"
    then have "\<exists>c. c \<in> {c \<in> set cs. cl_qualifier c = q}" by blast
    then obtain c where c: "c \<in> set cs" "cl_qualifier c = q"
      and top: "\<And>c'. c' \<in> set cs \<Longrightarrow> cl_qualifier c' = q \<Longrightarrow> sint (cl_timestamp c') \<le> sint (cl_timestamp c)"
      using finite_has_maximal [of "(\<lambda>c. sint (cl_timestamp c)) ` {c \<in> set cs. cl_qualifier c = q}"]
      by (auto simp: image_iff) (metis (no_types, lifting) linorder_le_cases)
    then have "c \<in> set (newest (Suc 0) cs)" by (auto simp: set_newest same_column_def)
    with c have "content cs q = Some (cl_value c)" unfolding content_iff [OF assms] by blast
    with none show False by simp
  qed
next
  assume "\<forall>c\<in>set cs. cl_qualifier c \<noteq> q"
  then show "content cs q = None"
    by (auto simp: content_def map_of_eq_None_iff newest_def)
qed

lemma content_empty: "tidy f cs \<Longrightarrow> content cs = Map.empty \<longleftrightarrow> cs = []"
  using content_None_iff [of f cs] by (cases cs) (auto simp: fun_eq_iff)

text \<open>The rows the merge builds.\<close>

lemma hget_cells_row:
  assumes "distinct (map cl_qualifier xs)"
  shows "hget (cells_row xs) q = map_of (map (\<lambda>c. (cl_qualifier c, cl_value c)) xs) q"
proof -
  have "hget (foldl (\<lambda>r x. hinsert (cl_qualifier x) (cl_value x) r) r xs) q =
      (case map_of (map (\<lambda>c. (cl_qualifier c, cl_value c)) xs) q of None \<Rightarrow> hget r q | Some v \<Rightarrow> Some v)" for r
    using assms
  proof (induction xs arbitrary: r)
    case (Cons x xs)
    have "map_of (map (\<lambda>c. (cl_qualifier c, cl_value c)) xs) (cl_qualifier x) = None"
      using Cons.prems by (auto simp: map_of_eq_None_iff)
    with Cons show ?case by (auto split: option.splits)
  qed simp
  then show ?thesis by (simp add: cells_row_def split: option.splits)
qed

lemma cells_row_content:
  assumes "tidy f cs" and "set xs = set (newest (Suc 0) cs)" and "length xs = length (newest (Suc 0) cs)"
  shows "hget (cells_row xs) = content cs"
proof -
  have d: "distinct (map cl_qualifier (newest (Suc 0) cs))" by (rule newest_distinct [OF assms(1)])
  then have "distinct (newest (Suc 0) cs)" by (simp add: distinct_map)
  then have "distinct xs" using assms(2,3) by (metis card_distinct distinct_card)
  with d have dx: "distinct (map cl_qualifier xs)" using assms(2) by (simp add: distinct_map)
  have "hget (cells_row xs) q = Some v \<longleftrightarrow> content cs q = Some v" for q v
    unfolding hget_cells_row [OF dx] content_iff [OF assms(1)]
    using dx assms(2) by (subst map_of_eq_Some_iff) (auto simp: comp_def)
  then show ?thesis by (intro ext) (metis not_None_eq)
qed

lemma newest_Nil_iff: "newest (Suc 0) cs = [] \<longleftrightarrow> cs = []"
proof
  assume empty: "newest (Suc 0) cs = []"
  show "cs = []"
  proof (rule ccontr)
    assume "cs \<noteq> []"
    then obtain c where "c \<in> set cs" and top: "\<forall>c'\<in>set cs. sint (cl_timestamp c') \<le> sint (cl_timestamp c)"
      using finite_has_maximal [of "(\<lambda>c. sint (cl_timestamp c)) ` set cs"]
      by (auto simp: image_iff) (metis linorder_le_cases)
    then have "c \<in> set (newest (Suc 0) cs)" by (simp only: set_newest) blast
    with empty show False by simp
  qed
qed (simp add: newest_def)

section \<open>What a mutation leaves\<close>

lemma apply_mutations_simps [simp]:
  "apply_mutations [] cs = cs" "apply_mutations (m # ms) cs = apply_mutations ms (apply_mutation cs m)"
  by (simp_all add: apply_mutations_def)

lemma apply_set:
  assumes "tidy f cs" and "sc_family sc = f"
  shows "apply_mutation cs (SetCell sc) =
     filter (\<lambda>c. cl_qualifier c \<noteq> sc_qualifier sc \<or> cl_timestamp c \<noteq> sc_timestamp_micros sc) cs @
     [\<lparr>cl_family = f, cl_qualifier = sc_qualifier sc, cl_timestamp = sc_timestamp_micros sc, cl_value = sc_value sc\<rparr>]"
proof -
  have "same_column \<lparr>cl_family = f, cl_qualifier = sc_qualifier sc, cl_timestamp = sc_timestamp_micros sc,
      cl_value = sc_value sc\<rparr> c \<longleftrightarrow> sc_qualifier sc = cl_qualifier c" if "c \<in> set cs" for c
    using assms(1) that by (auto simp: tidy_def same_column_def)
  then show ?thesis
    unfolding apply_mutation.simps Let_def assms(2) by (intro arg_cong2 [of _ _ _ _ append] filter_cong) auto
qed

declare apply_mutation.simps(1) [simp del]

lemma apply_set_tidy:
  assumes "tidy f cs" and "sc_family sc = f"
  shows "tidy f (apply_mutation cs (SetCell sc))"
  unfolding apply_set [OF assms] using assms(1) by (auto simp: tidy_def distinct_map_filter)

lemma set_apply_set:
  "tidy f cs \<Longrightarrow> sc_family sc = f \<Longrightarrow> set (apply_mutation cs (SetCell sc)) =
     insert \<lparr>cl_family = f, cl_qualifier = sc_qualifier sc, cl_timestamp = sc_timestamp_micros sc, cl_value = sc_value sc\<rparr>
       {c \<in> set cs. cl_qualifier c \<noteq> sc_qualifier sc \<or> cl_timestamp c \<noteq> sc_timestamp_micros sc}"
  by (simp add: apply_set)

lemma newest_iff:
  "tidy f cs \<Longrightarrow> c \<in> set (newest (Suc 0) cs) \<longleftrightarrow> c \<in> set cs \<and>
     (\<forall>c'\<in>set cs. cl_qualifier c' = cl_qualifier c \<longrightarrow> sint (cl_timestamp c') \<le> sint (cl_timestamp c))"
  by (auto simp: set_newest same_column_def tidy_def)

lemma apply_set_content:
  assumes "tidy f cs" and f: "sc_family sc = f" and "not_after (sc_timestamp_micros sc) cs"
  shows "content (apply_mutation cs (SetCell sc)) = (content cs)(sc_qualifier sc \<mapsto> sc_value sc)"
proof (rule ext)
  fix q
  let ?c = "\<lparr>cl_family = f, cl_qualifier = sc_qualifier sc,
      cl_timestamp = sc_timestamp_micros sc, cl_value = sc_value sc\<rparr>"
  let ?cs = "apply_mutation cs (SetCell sc)"
  have t: "tidy f ?cs" by (rule apply_set_tidy [OF assms(1,2)])
  note set_cs = set_apply_set [OF assms(1,2)]
  show "content ?cs q = ((content cs)(sc_qualifier sc \<mapsto> sc_value sc)) q"
  proof (cases "q = sc_qualifier sc")
    case True
    have "?c \<in> set (newest (Suc 0) ?cs)"
      unfolding newest_iff [OF t] set_cs using assms(3) by (simp add: not_after_def)
    then have "content ?cs q = Some (sc_value sc)"
      unfolding content_iff [OF t] using True by (intro bexI [of _ ?c]) simp_all
    with True show ?thesis by simp
  next
    case False
    have "c \<in> set (newest (Suc 0) ?cs) \<longleftrightarrow> c \<in> set (newest (Suc 0) cs)" if "cl_qualifier c = q" for c
      unfolding newest_iff [OF t] newest_iff [OF assms(1)] set_cs using False that by auto
    then have "content ?cs q = Some v \<longleftrightarrow> content cs q = Some v" for v
      unfolding content_iff [OF t] content_iff [OF assms(1)] by blast
    then have "content ?cs q = content cs q" by (metis not_None_eq)
    with False show ?thesis by simp
  qed
qed

section \<open>The primitives\<close>

text \<open>What an operation leaves of the world when it neither reads the clock nor draws.\<close>

definition serves ::
  "(byte list \<Rightarrow> byte list \<Rightarrow> bool) \<Rightarrow> ('t, 'd) grpc_service \<Rightarrow> 't bigtable_store \<Rightarrow>
   ('d \<Rightarrow> byte list \<Rightarrow> cell list) \<Rightarrow> bool" where
  "serves re2 svc b tab \<longleftrightarrow> bigtable_service re2 svc (bs_table b) tab"

lemma gives_token:
  assumes "leaves_rows svc tab"
  shows "gives (run_prog b64 svc (with_token cl source md)) (d, w) (\<lambda>_ (d', w'). w' = w \<and> tab d' = tab d)"
proof (cases source)
  case (Some t)
  have "tab (snd (gs_token svc t d)) = tab d" using assms by (simp add: leaves_rows_def)
  then show ?thesis
    by (auto simp: Some with_token_def gives_def run_bind and_then_def after_service_def metadata_value_def
        split: prod.splits sum.splits option.splits)
qed (simp add: with_token_def)

lemma gives_table_request:
  assumes "serves re2 svc b tab"
  shows "gives (run_prog b64 svc (table_request b m)) (d, w) (\<lambda>q (d', w'). gr_message q = m \<and> w' = w \<and> tab d' = tab d)"
  unfolding table_request_def authorized_request_def
proof (rule gives_bindI)
  show "gives (run_prog b64 svc (metadata_value (bs_client b) (replace_all ''/'' ''%2F'' (''table_name='' @ bs_table b))))
     (d, w) (\<lambda>_ dw. dw = (d, w))"
    by (simp add: gives_def metadata_value_def)
  fix params d1 w1 assume "(d1, w1) = (d, w)"
  moreover have "leaves_rows svc tab" using assms by (simp add: serves_def bigtable_service_def)
  ultimately show "gives (run_prog b64 svc
      (bind_prog (with_token (bs_client b) (bs_auth b) [(''x-goog-request-params'', params)])
        (\<lambda>md. done_with \<lparr>gr_message = m, gr_metadata = md\<rparr>))) (d1, w1)
      (\<lambda>q (d', w'). gr_message q = m \<and> w' = w \<and> tab d' = tab d)"
    by (intro gives_bindI [OF gives_token]) simp_all
qed

lemma gives_mutate:
  fixes b :: "'t bigtable_store"
  assumes "serves re2 svc b tab" and "timestamped ms"
  shows "gives (run_prog b64 svc (mutate b key ms)) (d, w) (\<lambda>_ (d', w'). w' = w \<and>
     tab d' = (tab d)(octets key := apply_mutations ms (tab d (octets key))))"
  unfolding mutate_def
proof (rule gives_bindI [OF gives_table_request [OF assms(1)]])
  fix q :: "mutate_row_request grpc_request" and d1 w1
  let ?m = "\<lparr>mr_table_name = bs_table b, mr_app_profile_id = bs_app_profile b, mr_row_key = octets key, mr_mutations = ms\<rparr>"
  assume "case (d1, w1) of (d', w') \<Rightarrow> gr_message q = ?m \<and> w' = w \<and> tab d' = tab d"
  then have q: "gr_message q = ?m" "w1 = w" "tab d1 = tab d"
    by simp_all
  have c: "serves_mutations svc (bs_table b) tab" using assms(1) by (simp add: serves_def bigtable_service_def)
  show "gives (run_prog b64 svc (MutateRow q answered)) (d1, w1) (\<lambda>_ (d', w'). w' = w \<and>
     tab d' = (tab d)(octets key := apply_mutations ms (tab d (octets key))))"
    unfolding gives_def
  proof (intro allI impI)
    fix x dw' assume "run_prog b64 svc (MutateRow q answered) (d1, w1) = (Inr x, dw')"
    then obtain r d' where r: "gs_mutate_row svc q d1 = (r, d')" "r = Inr x" "dw' = (d', w1)"
      by (auto simp: after_service_def answered_def split: prod.splits sum.splits)
    then show "case dw' of (d', w') \<Rightarrow> w' = w \<and>
        tab d' = (tab d)(octets key := apply_mutations ms (tab d (octets key)))"
      using c [unfolded serves_mutations_def, rule_format, of q d1 r d'] assms(2) q by (auto simp: Let_def)
  qed
qed

lemma gives_mutate_if:
  fixes b :: "'t bigtable_store"
  assumes "serves re2 svc b tab" and "timestamped ms"
  shows "gives (run_prog b64 svc (mutate_if b key p ms)) (d, w) (\<lambda>x (d', w'). w' = w \<and>
     x = (yields re2 p (tab d (octets key)) \<noteq> []) \<and>
     tab d' = (if x then (tab d)(octets key := apply_mutations ms (tab d (octets key))) else tab d))"
  unfolding mutate_if_def
proof (rule gives_bindI [OF gives_table_request [OF assms(1)]])
  fix q :: "check_and_mutate_row_request grpc_request" and d1 w1
  let ?m = "\<lparr>cm_table_name = bs_table b, cm_app_profile_id = bs_app_profile b, cm_row_key = octets key,
      cm_predicate_filter = Some p, cm_true_mutations = ms\<rparr>"
  assume "case (d1, w1) of (d', w') \<Rightarrow> gr_message q = ?m \<and> w' = w \<and> tab d' = tab d"
  then have q: "gr_message q = ?m" "w1 = w" "tab d1 = tab d"
    by simp_all
  have c: "serves_checks re2 svc (bs_table b) tab" using assms(1) by (simp add: serves_def bigtable_service_def)
  show "gives (run_prog b64 svc (CheckAndMutateRow q answered)) (d1, w1) (\<lambda>x (d', w'). w' = w \<and>
     x = (yields re2 p (tab d (octets key)) \<noteq> []) \<and>
     tab d' = (if x then (tab d)(octets key := apply_mutations ms (tab d (octets key))) else tab d))"
    unfolding gives_def
  proof (intro allI impI)
    fix x dw' assume "run_prog b64 svc (CheckAndMutateRow q answered) (d1, w1) = (Inr x, dw')"
    then obtain r d' where r: "gs_check_and_mutate_row svc q d1 = (r, d')" "r = Inr x" "dw' = (d', w1)"
      by (auto simp: after_service_def answered_def split: prod.splits sum.splits)
    then show "case dw' of (d', w') \<Rightarrow> w' = w \<and> x = (yields re2 p (tab d (octets key)) \<noteq> []) \<and>
        tab d' = (if x then (tab d)(octets key := apply_mutations ms (tab d (octets key))) else tab d)"
      using c [unfolded serves_checks_def, rule_format, of q p d1 r d'] assms(2) q by (auto simp: Let_def)
  qed
qed

text \<open>The rows a read returns: those wanted that exist, in key order, with their contents.\<close>

definition rows_of ::
  "row_set \<Rightarrow> (byte list \<Rightarrow> cell list) \<Rightarrow> (string \<times> row) list \<Rightarrow> bool" where
  "rows_of rs t rows \<longleftrightarrow>
     sorted_wrt (<) (map (\<lambda>x. octets (fst x)) rows) \<and>
     (\<forall>(k, r)\<in>set rows. wanted rs (octets k) \<and> t (octets k) \<noteq> [] \<and> hget r = content (t (octets k))) \<and>
     (\<forall>k. wanted rs (octets k) \<and> t (octets k) \<noteq> [] \<longrightarrow> k \<in> fst ` set rows)"

definition tidy_rows :: "(byte list \<Rightarrow> cell list) \<Rightarrow> bool" where
  "tidy_rows t \<longleftrightarrow> (\<forall>k. (\<exists>f. tidy f (t k)) \<and> (t k \<noteq> [] \<longrightarrow> utf8_valid k))"

lemma selected_row:
  assumes "selects re2 rs (CellsPerColumnLimitFilter 1) t rows" and "tidy_rows t" and "(k, xs) \<in> set rows"
  shows "wanted rs k" "t k \<noteq> []" "from_utf8 k = Some (the (from_utf8 k))" "octets (the (from_utf8 k)) = k"
    "hget (cells_row xs) = content (t k)"
proof -
  obtain f where f: "tidy f (t k)" using assms(2) by (auto simp: tidy_rows_def)
  have xs: "wanted rs k" "set xs = set (newest (Suc 0) (t k))" "length xs = length (newest (Suc 0) (t k))"
    "newest (Suc 0) (t k) \<noteq> []"
    using assms(1,3) by (auto simp: selects_def)
  then show "wanted rs k" "t k \<noteq> []" by (auto simp: newest_Nil_iff)
  then show u: "from_utf8 k = Some (the (from_utf8 k))"
    using assms(2) by (simp add: tidy_rows_def from_utf8_def)
  then show "octets (the (from_utf8 k)) = k" by (rule from_utf8_SomeD)
  show "hget (cells_row xs) = content (t k)" by (rule cells_row_content [OF f xs(2,3)])
qed

lemma selected_rows:
  assumes "selects re2 rs (CellsPerColumnLimitFilter 1) t rows" and "tidy_rows t"
  shows "rows_of rs t (map (\<lambda>(k, xs). (the (from_utf8 k), cells_row xs)) rows)"
    and "\<forall>(k, xs)\<in>set rows. from_utf8 k \<noteq> None"
proof -
  note row = selected_row [OF assms]
  have keys: "map (\<lambda>x. octets (fst x)) (map (\<lambda>(k, xs). (the (from_utf8 k), cells_row xs)) rows) = map fst rows"
    using row(4) by (auto intro!: map_cong)
  have listed: "k \<in> fst ` set (map (\<lambda>(k, xs). (the (from_utf8 k), cells_row xs)) rows)"
    if "wanted rs (octets k)" "t (octets k) \<noteq> []" for k
  proof -
    have "octets k \<in> fst ` set rows"
      using assms(1) that by (simp add: selects_def newest_Nil_iff)
    then obtain xs where x: "(octets k, xs) \<in> set rows" by auto
    then have "the (from_utf8 (octets k)) = k"
      using row(4) [OF x] by (simp add: octets_inject)
    with x show ?thesis by (force simp: image_iff)
  qed
  have "sorted_wrt (<) (map fst rows)" using assms(1) by (simp add: selects_def)
  then show "rows_of rs t (map (\<lambda>(k, xs). (the (from_utf8 k), cells_row xs)) rows)"
    unfolding rows_of_def keys using row listed by (auto simp: case_prod_beta)
  show "\<forall>(k, xs)\<in>set rows. from_utf8 k \<noteq> None" using row(3) by force
qed

lemma gives_read_rows:
  fixes b :: "'t bigtable_store"
  assumes "serves re2 svc b tab" and "tidy_rows (tab d)"
  shows "gives (run_prog b64 svc (read_rows b rs)) (d, w) (\<lambda>rows (d', w'). w' = w \<and> tab d' = tab d \<and>
     rows_of rs (tab d) rows)"
  unfolding read_rows_def
proof (rule gives_bindI [OF gives_table_request [OF assms(1)]])
  fix q :: "read_rows_request grpc_request" and d1 w1
  let ?m = "\<lparr>rr_table_name = bs_table b, rr_app_profile_id = bs_app_profile b, rr_rows = Some rs,
      rr_filter = Some (CellsPerColumnLimitFilter 1)\<rparr>"
  assume "case (d1, w1) of (d', w') \<Rightarrow> gr_message q = ?m \<and> w' = w \<and> tab d' = tab d"
  then have q: "gr_message q = ?m" "w1 = w" "tab d1 = tab d"
    by simp_all
  have c: "serves_reads re2 svc (bs_table b) tab" using assms(1) by (simp add: serves_def bigtable_service_def)
  show "gives (run_prog b64 svc (bind_prog (ReadRows q answered) (\<lambda>stream.
     answer (merge_rows (map (\<lambda>r. case r of Inl s \<Rightarrow> Inl (box_status s) | Inr cs \<Rightarrow> Inr cs) stream)))))
     (d1, w1) (\<lambda>rows (d', w'). w' = w \<and> tab d' = tab d \<and> rows_of rs (tab d) rows)"
    unfolding gives_def
  proof (intro allI impI)
    fix rows dw' assume "run_prog b64 svc (bind_prog (ReadRows q answered) (\<lambda>stream.
       answer (merge_rows (map (\<lambda>r. case r of Inl s \<Rightarrow> Inl (box_status s) | Inr cs \<Rightarrow> Inr cs) stream))))
       (d1, w1) = (Inr rows, dw')"
    then obtain stream d' where r: "gs_read_rows svc q d1 = (Inr stream, d')" "dw' = (d', w1)"
      "merge_rows (map (\<lambda>r. case r of Inl s \<Rightarrow> Inl (box_status s) | Inr cs \<Rightarrow> Inr cs) stream) = Inr rows"
      by (auto simp: after_service_def answered_def run_bind and_then_eqs split: prod.splits sum.splits)
    then obtain chunks where chunks: "map (\<lambda>r. case r of Inl s \<Rightarrow> Inl (box_status s) | Inr cs \<Rightarrow> Inr cs) stream = map Inr chunks"
      by (auto simp: merge_rows_def dest: merge_stream_failed split: sum.splits)
    then have stream: "stream = map Inr chunks"
      by (induction stream arbitrary: chunks) (auto simp: Cons_eq_map_conv split: sum.splits)
    have read: "tab d' = tab d1 \<and> (\<exists>rows. selects re2 rs (CellsPerColumnLimitFilter 1) (tab d1) rows \<and> encodes rows (concat chunks))"
      using c [unfolded serves_reads_def, rule_format, of q rs "CellsPerColumnLimitFilter 1" d1 "Inr stream" d'] r(1) q stream
      by auto
    then obtain sel where sel: "selects re2 rs (CellsPerColumnLimitFilter 1) (tab d) sel" "encodes sel (concat chunks)"
      using q(3) by auto
    have "rows = map (\<lambda>(k, xs). (the (from_utf8 k), cells_row xs)) sel"
      using r(3) merge_rows_encoded [OF sel(2) selected_rows(2) [OF sel(1) assms(2)]] by (simp add: chunks)
    then show "case dw' of (d', w') \<Rightarrow> w' = w \<and> tab d' = tab d \<and> rows_of rs (tab d) rows"
      using selected_rows(1) [OF sel(1) assms(2)] read q r(2) by simp
  qed
qed

section \<open>One row\<close>

text \<open>The row a key holds, as a read of it would deliver it.\<close>

definition row_at :: "(byte list \<Rightarrow> cell list) \<Rightarrow> string \<Rightarrow> row" where
  "row_at t key = cells_row (newest 1 (t (octets key)))"

lemma hget_row_at: "tidy_rows t \<Longrightarrow> hget (row_at t key) = content (t (octets key))"
  unfolding row_at_def tidy_rows_def by (metis One_nat_def cells_row_content)

lemma col_text_cong: "hget r = hget r' \<Longrightarrow> col_text r col = col_text r' col"
  by (simp add: col_text_def)

lemma col_number_cong: "hget r = hget r' \<Longrightarrow> col_number r col = col_number r' col"
  by (simp add: col_number_def col_text_def)

lemma message_from_row_cong: "hget r = hget r' \<Longrightarrow> message_from_row key r = message_from_row key r'"
  by (simp add: message_from_row_def col_text_def col_number_def)

lemma user_agent_from_row_cong: "hget r = hget r' \<Longrightarrow> user_agent_from_row u r = user_agent_from_row u r'"
  by (simp add: user_agent_from_row_def col_text_def col_number_def)

lemma rows_of_one:
  assumes "rows_of \<lparr>rs_row_keys = [octets key], rs_row_ranges = []\<rparr> t rows"
  shows "(rows = [] \<and> t (octets key) = []) \<or>
    (\<exists>r. rows = [(key, r)] \<and> t (octets key) \<noteq> [] \<and> hget r = content (t (octets key)))"
proof (cases rows)
  case Nil
  then show ?thesis using assms by (auto simp: rows_of_def wanted_def)
next
  case (Cons x rows')
  have one: "fst y = key" if "y \<in> set rows" for y
    using assms that by (auto simp: rows_of_def wanted_def octets_inject)
  have "rows' = []"
  proof (rule ccontr)
    assume "rows' \<noteq> []"
    then obtain y where y: "y \<in> set rows'" by (cases rows') auto
    then have "octets (fst x) < octets (fst y)" using assms by (auto simp: rows_of_def Cons)
    with one [of x] one [of y] y show False by (simp add: Cons)
  qed
  with Cons one [of x] show ?thesis using assms by (cases x) (auto simp: rows_of_def)
qed

lemma gives_get_row:
  fixes b :: "'t bigtable_store"
  assumes "serves re2 svc b tab" and "tidy_rows (tab d)"
  shows "gives (run_prog b64 svc (get_row b key)) (d, w) (\<lambda>r (d', w'). w' = w \<and> tab d' = tab d \<and>
     (r = None \<longleftrightarrow> tab d (octets key) = []) \<and> (\<forall>x. r = Some x \<longrightarrow> hget x = hget (row_at (tab d) key)))"
  unfolding get_row_def
  by (rule gives_bindI [OF gives_read_rows [OF assms]]) (auto dest: rows_of_one simp: hget_row_at [OF assms(2)])

section \<open>Time stamps\<close>

definition stampable :: "u64 \<Rightarrow> bool" where
  "stampable ts \<longleftrightarrow> unat ts * 1000 < 2 ^ 63"

lemma sint_small:
  assumes "unat (x :: i64) < 2 ^ 63"
  shows "sint x = int (unat x)"
proof -
  have "int (unat x) < int (2 ^ 63)" using assms by (simp only: of_nat_less_iff)
  then have "uint x < 2 ^ 63" by (simp only: uint_nat of_nat_power of_nat_numeral)
  moreover have "- (2 ^ 63) \<le> uint x" by (rule order_trans [of _ 0]) simp_all
  ultimately have "signed_take_bit 63 (uint x) = uint x" by (intro signed_take_bit_int_eq_self)
  then show ?thesis unfolding sint_uint by simp
qed

lemma sint_stamp:
  assumes "stampable ts"
  shows "sint (ts * 1000) = int (unat ts) * 1000"
proof -
  have small: "unat ts * 1000 < 2 ^ 63" using assms by (simp only: stampable_def)
  have "unat (ts * 1000) = (unat ts * 1000) mod 2 ^ 64" by (simp add: unat_word_ariths)
  with small have "unat (ts * 1000) = unat ts * 1000" by simp
  with sint_small [of "ts * 1000"] small show ?thesis by simp
qed

lemma timestamped_sets:
  "stampable ts \<Longrightarrow> timestamped (map (\<lambda>(c, v). set_cell f c v ts) cols)"
  by (auto simp: timestamped_def set_cell_def sint_stamp)

lemma timestamped_simps [simp]:
  "timestamped []" "timestamped (delete_row # ms) \<longleftrightarrow> timestamped ms"
  "timestamped (set_cell f c v ts # ms) \<longleftrightarrow> 0 \<le> sint (ts * 1000) \<and> timestamped ms"
  "timestamped (ms @ ms') \<longleftrightarrow> timestamped ms \<and> timestamped ms'"
  by (auto simp: timestamped_def set_cell_def delete_row_def)

lemma apply_set_cell:
  assumes "tidy f cs" and "not_after (ts * 1000) cs"
  shows "tidy f (apply_mutation cs (set_cell f col v ts))"
    and "not_after (ts * 1000) (apply_mutation cs (set_cell f col v ts))"
    and "content (apply_mutation cs (set_cell f col v ts)) = (content cs)(octets col \<mapsto> v)"
  using assms unfolding set_cell_def
  by (auto simp: apply_set_tidy apply_set_content not_after_def set_apply_set)

lemma apply_set_cells:
  "tidy f cs \<Longrightarrow> not_after (ts * 1000) cs \<Longrightarrow>
     tidy f (apply_mutations (map (\<lambda>(c, v). set_cell f c v ts) cols) cs) \<and>
     not_after (ts * 1000) (apply_mutations (map (\<lambda>(c, v). set_cell f c v ts) cols) cs) \<and>
     content (apply_mutations (map (\<lambda>(c, v). set_cell f c v ts) cols) cs) =
       foldl (\<lambda>m (c, v). m(octets c \<mapsto> v)) (content cs) cols"
proof (induction cols arbitrary: cs)
  case (Cons x cols)
  obtain c v where x: "x = (c, v)" by (cases x)
  show ?case
    using Cons.IH [OF apply_set_cell(1,2) [OF Cons.prems]] apply_set_cell(3) [OF Cons.prems] by (simp add: x)
qed simp

section \<open>The layout\<close>

definition m_key :: "byte list \<Rightarrow> bool" where
  "m_key k \<longleftrightarrow> take 4 k = octets ''msg#'' \<or> take 4 k = octets ''mid#''"

definition key_family :: "byte list \<Rightarrow> string" where
  "key_family k = (if m_key k then family_m else family_d)"

definition laid_out :: "(byte list \<Rightarrow> cell list) \<Rightarrow> bool" where
  "laid_out t \<longleftrightarrow> (\<forall>k. tidy (key_family k) (t k) \<and> (t k \<noteq> [] \<longrightarrow> utf8_valid k))"

text \<open>A clock that never goes back and fits the time stamps.\<close>

definition steady :: "world \<Rightarrow> bool" where
  "steady w \<longleftrightarrow> (\<forall>n. wl_clock w n * 1000 < 2 ^ 63) \<and> mono (wl_clock w)"

text \<open>No cell of family \<open>d\<close> is stamped later than the clock will read.\<close>

definition past :: "(byte list \<Rightarrow> cell list) \<Rightarrow> world \<Rightarrow> bool" where
  "past t w \<longleftrightarrow> (\<forall>k. \<not> m_key k \<longrightarrow> (\<forall>c\<in>set (t k). sint (cl_timestamp c) \<le> int (wl_clock w (wl_reads w)) * 1000))"

definition bt_ok :: "('d \<Rightarrow> byte list \<Rightarrow> cell list) \<Rightarrow> 'd \<times> world \<Rightarrow> bool" where
  "bt_ok tab dw \<longleftrightarrow> (case dw of (d, w) \<Rightarrow> laid_out (tab d) \<and> steady w \<and> past (tab d) w)"

lemma laid_out_tidy: "laid_out t \<Longrightarrow> tidy_rows t"
  by (auto simp: laid_out_def tidy_rows_def)

lemma bt_ok_tidy: "bt_ok tab (d, w) \<Longrightarrow> tidy_rows (tab d)"
  by (simp add: bt_ok_def laid_out_tidy)

lemma now_ms_steady:
  assumes "steady w"
  shows "unat (fst (now_ms w)) = wl_clock w (wl_reads w)" "stampable (fst (now_ms w))"
proof -
  have "wl_clock w (wl_reads w) * 1000 < 2 ^ 63" using assms by (simp add: steady_def)
  then show "unat (fst (now_ms w)) = wl_clock w (wl_reads w)" by (simp add: now_ms_def Let_def unat_of_nat)
  with \<open>wl_clock w (wl_reads w) * 1000 < 2 ^ 63\<close> show "stampable (fst (now_ms w))" by (simp add: stampable_def)
qed

lemma past_world:
  assumes "past t w" and "steady w" and "world_le w w'"
  shows "past t w'" "steady w'"
proof -
  have c: "wl_clock w' = wl_clock w" "wl_reads w \<le> wl_reads w'" using assms(3) by (auto simp: world_le_def)
  then have "wl_clock w (wl_reads w) \<le> wl_clock w' (wl_reads w')"
    using assms(2) by (auto simp: steady_def mono_def)
  then have le: "int (wl_clock w (wl_reads w)) * 1000 \<le> int (wl_clock w' (wl_reads w')) * 1000" by simp
  show "past t w'" unfolding past_def
  proof (intro allI impI ballI)
    fix k c assume "\<not> m_key k" and "c \<in> set (t k)"
    then have "sint (cl_timestamp c) \<le> int (wl_clock w (wl_reads w)) * 1000"
      using assms(1) by (simp add: past_def)
    then show "sint (cl_timestamp c) \<le> int (wl_clock w' (wl_reads w')) * 1000" using le by linarith
  qed
  show "steady w'" using assms(2) c by (simp add: steady_def)
qed

lemma bt_ok_world: "bt_ok tab (d, w) \<Longrightarrow> world_le w w' \<Longrightarrow> bt_ok tab (d, w')"
  using past_world [of "tab d" w w'] by (simp add: bt_ok_def)

lemma bt_ok_same: "bt_ok tab (d, w) \<Longrightarrow> tab d' = tab d \<Longrightarrow> bt_ok tab (d', w)"
  by (simp add: bt_ok_def)

text \<open>Clearing a row keeps the layout.\<close>

lemma laid_out_upd:
  "laid_out t \<Longrightarrow> tidy (key_family k) cs \<Longrightarrow> (cs \<noteq> [] \<Longrightarrow> utf8_valid k) \<Longrightarrow> laid_out (t(k := cs))"
  by (simp add: laid_out_def)

lemma past_upd:
  assumes "past t w"
    and "\<And>c. \<not> m_key k \<Longrightarrow> c \<in> set cs \<Longrightarrow> sint (cl_timestamp c) \<le> int (wl_clock w (wl_reads w)) * 1000"
  shows "past (t(k := cs)) w"
  unfolding past_def using assms by (simp add: past_def)

lemma bt_ok_clear: "bt_ok tab (d, w) \<Longrightarrow> tab d' = (tab d)(k := []) \<Longrightarrow> bt_ok tab (d', w)"
  unfolding bt_ok_def by (auto intro!: laid_out_upd past_upd)

lemma gives_delete_key:
  fixes b :: "'t bigtable_store"
  assumes "serves re2 svc b tab"
  shows "gives (run_prog b64 svc (delete_key b key)) (d, w) (\<lambda>_ (d', w'). w' = w \<and>
     tab d' = (tab d)(octets key := []))"
  unfolding delete_key_def
  by (rule gives_impl [OF gives_mutate [OF assms]]) (simp_all add: delete_row_def timestamped_def)

text \<open>Writing cells of family \<open>d\<close> at the current time.\<close>

lemma put_row:
  assumes ok: "bt_ok tab (d, w)" and "\<not> m_key k" and "utf8_valid k"
    and t: "tab d' = (tab d)(k := apply_mutations (map (\<lambda>(c, v). set_cell family_d c v (fst (now_ms w))) cols) (tab d k))"
  shows "bt_ok tab (d', snd (now_ms w))"
    and "content (tab d' k) = foldl (\<lambda>m (c, v). m(octets c \<mapsto> v)) (content (tab d k)) cols"
proof -
  let ?ts = "fst (now_ms w)"
  let ?cs = "apply_mutations (map (\<lambda>(c, v). set_cell family_d c v ?ts) cols) (tab d k)"
  have fam: "key_family k = family_d" using assms(2) by (simp add: key_family_def)
  have steady: "steady w" and past: "past (tab d) w" and laid: "laid_out (tab d)" using ok by (auto simp: bt_ok_def)
  have stamp: "sint (?ts * 1000) = int (wl_clock w (wl_reads w)) * 1000"
    using now_ms_steady [OF steady] by (simp add: sint_stamp)
  have cells: "tidy family_d ?cs \<and> not_after (?ts * 1000) ?cs \<and>
      content ?cs = foldl (\<lambda>m (c, v). m(octets c \<mapsto> v)) (content (tab d k)) cols"
  proof (rule apply_set_cells)
    show "tidy family_d (tab d k)" using laid fam by (metis laid_out_def)
    show "not_after (?ts * 1000) (tab d k)"
      using past assms(2) by (simp add: past_def not_after_def stamp)
  qed
  then show "content (tab d' k) = foldl (\<lambda>m (c, v). m(octets c \<mapsto> v)) (content (tab d k)) cols"
    by (simp add: t)
  have "laid_out (tab d')" unfolding t by (rule laid_out_upd [OF laid]) (use cells fam assms(3) in simp_all)
  moreover have "past (tab d') w" unfolding t by (rule past_upd [OF past]) (use cells in \<open>simp add: not_after_def stamp\<close>)
  moreover have "world_le w (snd (now_ms w))" using world_le_now [of w "fst (now_ms w)"] by simp
  ultimately show "bt_ok tab (d', snd (now_ms w))"
    using past_world [OF _ steady] by (simp add: bt_ok_def)
qed

lemma gives_put:
  fixes b :: "'t bigtable_store"
  assumes "serves re2 svc b tab" and "bt_ok tab (d, w)" and "\<not> m_key (octets key)" and "utf8_valid (octets key)"
  shows "gives (run_prog b64 svc (put b key family_d cols)) (d, w) (\<lambda>_ (d', w'). bt_ok tab (d', w') \<and>
     w' = snd (now_ms w) \<and> (\<forall>k. k \<noteq> octets key \<longrightarrow> tab d' k = tab d k) \<and>
     content (tab d' (octets key)) = foldl (\<lambda>m (c, v). m(octets c \<mapsto> v)) (content (tab d (octets key))) cols)"
  unfolding put_def gives_now
proof (rule gives_impl [OF gives_mutate [OF assms(1)]])
  have "stampable (fst (now_ms w))" using assms(2) now_ms_steady by (auto simp: bt_ok_def)
  then show "timestamped (map (\<lambda>(c, v). set_cell family_d c v (fst (now_ms w))) cols)" by (rule timestamped_sets)
  fix x d' w'
  assume "case (d', w') of (d', w') \<Rightarrow> w' = snd (now_ms w) \<and> tab d' = (tab d)(octets key :=
      apply_mutations (map (\<lambda>(c, v). set_cell family_d c v (fst (now_ms w))) cols) (tab d (octets key)))"
  then show "case (d', w') of (d', w') \<Rightarrow> bt_ok tab (d', w') \<and>
     w' = snd (now_ms w) \<and> (\<forall>k. k \<noteq> octets key \<longrightarrow> tab d' k = tab d k) \<and>
     content (tab d' (octets key)) = foldl (\<lambda>m (c, v). m(octets c \<mapsto> v)) (content (tab d (octets key))) cols"
    using put_row [OF assms(2-4), of d' cols] by simp
qed

end
