(* ===== verification/Bigtable_View.thy ===== *)
theory Bigtable_View
  imports Bigtable_Laws
begin

text \<open>
  The table as the abstract store of the trait: what each kind of row stands for. The routes
  are proved to refine it here; the messages in \<open>Bigtable_Messages\<close>.
\<close>

section \<open>Keys\<close>

lemma utf8_append: "utf8_valid b \<Longrightarrow> utf8_valid a \<Longrightarrow> utf8_valid (a @ b)"
proof (induction a rule: length_induct)
  case (1 xs)
  show ?case
  proof (cases xs)
    case (Cons a bs)
    note ih = 1(1)[rule_format, OF _ 1(2)]
    show ?thesis
    proof (cases "a < 0x80")
      case True
      with Cons 1(3) ih [of bs] show ?thesis by simp
    next
      case a: False
      with 1(3) Cons have a2: "\<not> a < 0xC2" by (simp only: utf8_valid.simps if_False simp_thms split: if_split_asm)
      obtain b bs1 where b: "bs = b # bs1" using 1(3) a a2 by (cases bs) (simp_all add: Cons)
      show ?thesis
      proof (cases "a < 0xE0")
        case True
        with Cons b a a2 1(3) ih [of bs1] show ?thesis by simp
      next
        case e: False
        obtain c bs2 where c: "bs1 = c # bs2" using 1(3) a a2 e by (cases bs1) (simp_all add: Cons b)
        show ?thesis
        proof (cases "a < 0xF0")
          case True
          with Cons b c a a2 e 1(3) ih [of bs2] show ?thesis by (simp del: not_less)
        next
          case f: False
          obtain d bs3 where d: "bs2 = d # bs3" using 1(3) a a2 e f by (cases bs2) (simp_all add: Cons b c)
          with Cons b c a a2 e f 1(3) ih [of bs3] show ?thesis by (simp del: not_less)
        qed
      qed
    qed
  qed (use 1 in simp)
qed
lemma utf8_valid_ascii_append: "is_ascii s \<Longrightarrow> utf8_valid (octets s @ k) \<longleftrightarrow> utf8_valid k"
  by (induction s) (auto simp: word_less_nat_alt unat_of_char)

lemma utf8_valid_octets_append: "is_ascii s \<Longrightarrow> utf8_valid (octets (s @ k)) \<longleftrightarrow> utf8_valid (octets k)"
  by (simp add: utf8_valid_ascii_append)

lemma m_key_simps [simp]:
  "m_key (octets (''msg#'' @ x))" "m_key (octets (''mid#'' @ x))"
  "\<not> m_key (octets (''ua#'' @ x))" "\<not> m_key (octets (''ch#'' @ x))" "\<not> m_key (octets (''push#'' @ x))"
  "\<not> m_key (octets (''rsub#'' @ x))" "\<not> m_key (octets (''rq#'' @ x))" "\<not> m_key (octets (''rexp#'' @ x))"
  "\<not> m_key (octets (''route#'' @ x))"
  by (simp_all add: m_key_def)

lemma route_key_facts [simp]:
  "\<not> m_key (octets (route_key to))"
  "utf8_valid (octets (route_key (UserAgent u))) \<longleftrightarrow> utf8_valid (octets u)"
  "utf8_valid (octets (route_key (Receipts u))) \<longleftrightarrow> utf8_valid (octets u)"
  using utf8_valid_octets_append [of "''route#u:''" u] utf8_valid_octets_append [of "''route#r:''" u]
  by (cases to; simp add: m_key_def)+

lemma route_key_inject: "route_key a = route_key b \<longleftrightarrow> a = b"
  by (cases a; cases b) auto

text \<open>A range of keys: those that start with the prefix, no more and no fewer.\<close>

lemma strip_suffix_hash [simp]: "strip_suffix ''#'' (p @ ''#'') = Some p"
  by (simp add: strip_suffix_def)

lemma between_hash_dollar:
  fixes k :: "byte list"
  shows "p @ [0x23] \<le> k \<and> k < p @ [0x24] \<longleftrightarrow> (\<exists>r. k = p @ 0x23 # r)"
proof (induction p arbitrary: k)
  case Nil
  show ?case
  proof (cases k)
    case (Cons c r)
    have "(0x23 :: byte) < c \<longrightarrow> \<not> c < 0x24" by (auto simp: word_less_nat_alt)
    with Cons show ?thesis by auto
  qed simp
next
  case (Cons b p)
  show ?case
  proof (cases k)
    case k: (Cons c r)
    show ?thesis
    proof (cases "b = c")
      case True
      with Cons.IH [of r] show ?thesis by (simp add: k)
    next
      case False
      then show ?thesis by (auto simp: k)
    qed
  qed simp
qed

lemma wanted_key_prefix:
  "wanted (key_prefix (p @ ''#'')) k \<longleftrightarrow> (\<exists>r. k = octets (p @ ''#'') @ r)"
  using between_hash_dollar [of "octets p" k]
  by (simp add: key_prefix_def key_range_def wanted_def)

section \<open>Conditional mutations\<close>

lemma exact_char_literal:
  assumes "(of_char c :: nat) < 128" and "literal p v"
  shows "literal (octets (exact_char c) @ p) (of_char c # v)"
proof -
  have tail: "\<not> tail_byte (of_char c)"
    using assms(1) by (simp add: tail_byte_def word_le_nat_alt unat_of_char)
  have alnum: "alphanumeric_byte (of_char c) \<longleftrightarrow> is_ascii_alphanumeric c"
    by (simp add: alphanumeric_byte_def is_ascii_alphanumeric_def is_ascii_digit_def is_ascii_upper_def
        is_ascii_lower_def less_eq_char_def word_le_nat_alt unat_of_char)
  have small: "(of_char c :: byte) < 0x80"
    using assms(1) by (simp add: word_less_nat_alt unat_of_char)
  show ?thesis
  proof (cases "is_ascii_alphanumeric c")
    case True
    then show ?thesis using alnum literal_letter assms(2) by (simp add: exact_char_def)
  next
    case False
    then show ?thesis using alnum tail small literal_escape [of "of_char c" p v] assms(2)
      by (simp add: exact_char_def)
  qed
qed

lemma exact_literal: "is_ascii v \<Longrightarrow> literal (octets (concat (map exact_char v))) (octets v)"
  by (induction v) (auto simp: exact_char_literal literal_Nil)

lemma exact_matches:
  assumes "matches_literally re2" and "is_ascii v"
  shows "re2 (exact v) x \<longleftrightarrow> x = octets v"
  using assms(1) [unfolded matches_literally_def, rule_format, OF exact_literal [OF assms(2)]]
  by (simp add: exact_def)

lemma family_matches:
  assumes "matches_literally re2" and "f = family_d \<or> f = family_m"
  shows "re2 (octets f) (octets g) \<longleftrightarrow> g = f"
proof -
  have "literal (octets f) (octets f)"
    using assms(2) by (auto simp: family_d_def family_m_def alphanumeric_byte_def intro!: literal.intros)
  then show ?thesis
    using assms(1) by (auto simp: matches_literally_def octets_inject)
qed

lemma newest_column:
  assumes "tidy f cs"
  shows "set (newest (Suc 0) (filter (\<lambda>c. cl_qualifier c = q) cs)) = {c \<in> set (newest (Suc 0) cs). cl_qualifier c = q}"
proof -
  have "tidy f (filter (\<lambda>c. cl_qualifier c = q) cs)"
    using assms by (auto simp: tidy_def distinct_map_filter)
  then show ?thesis using newest_iff [OF assms] by (auto simp: newest_iff)
qed

lemma column_filter_yields:
  assumes "matches_literally re2" and "f = family_d \<or> f = family_m" and "tidy f cs" and "is_ascii col"
  shows "yields re2 (column_filter f col None) cs \<noteq> [] \<longleftrightarrow> content cs (octets col) \<noteq> None"
    and "is_ascii v \<Longrightarrow> yields re2 (column_filter f col (Some v)) cs \<noteq> [] \<longleftrightarrow> content cs (octets col) = Some (octets v)"
proof -
  have family: "filter (\<lambda>c. re2 (octets f) (octets (cl_family c))) cs = cs"
    using assms(3) by (auto simp: family_matches [OF assms(1,2)] tidy_def filter_id_conv)
  have column: "filter (\<lambda>c. re2 (exact col) (cl_qualifier c)) cs = filter (\<lambda>c. cl_qualifier c = octets col) cs"
    by (simp add: exact_matches [OF assms(1,4)])
  note new = newest_column [OF assms(3), of "octets col"]
  have some: "content cs (octets col) = Some x \<longleftrightarrow>
      (\<exists>c\<in>set (newest (Suc 0) (filter (\<lambda>c. cl_qualifier c = octets col) cs)). cl_value c = x)" for x
    unfolding new content_iff [OF assms(3)] by auto
  show "yields re2 (column_filter f col None) cs \<noteq> [] \<longleftrightarrow> content cs (octets col) \<noteq> None"
    unfolding not_None_eq some by (simp add: column_filter_def family column) (metis ex_in_conv set_empty)
  show "yields re2 (column_filter f col (Some v)) cs \<noteq> [] \<longleftrightarrow> content cs (octets col) = Some (octets v)" if "is_ascii v"
    unfolding some using exact_matches [OF assms(1) that]
    by (simp add: column_filter_def family column filter_empty_conv)
qed

end
