(* ===== verification/Bigtable_Routes.thy ===== *)
theory Bigtable_Routes
  imports Bigtable_View
begin

text \<open>
  The routes of the Bigtable adapter are the abstract store's, as long as the clock that stamps
  them never goes back; when it does, a new route is written and the old one keeps answering.
\<close>

definition bt_routes :: "(byte list \<Rightarrow> cell list) \<Rightarrow> recipient \<Rightarrow> string option" where
  "bt_routes t to = col_text (row_at t (route_key to)) ''node''"

lemma from_utf8_iff: "utf8_valid (octets v) \<Longrightarrow> from_utf8 x = Some v \<longleftrightarrow> x = octets v"
  by (auto simp: from_utf8_octets dest: from_utf8_SomeD)

lemma bt_routes_content:
  assumes "tidy_rows t"
  shows "bt_routes t to = (case content (t (octets (route_key to))) (octets ''node'') of None \<Rightarrow> None | Some v \<Rightarrow> from_utf8 v)"
  unfolding bt_routes_def col_text_def hget_row_at [OF assms] by simp

lemma bt_routes_upd:
  assumes "tidy_rows t" and "tidy_rows t'" and "\<forall>k. k \<noteq> octets (route_key to) \<longrightarrow> t' k = t k"
  shows "bt_routes t' = (bt_routes t)(to := bt_routes t' to)"
  using assms by (auto simp: fun_eq_iff bt_routes_content octets_inject route_key_inject)

lemma bt_route_gives:
  assumes "serves re2 svc b tab" and ok: "bt_ok tab (d, w)"
  shows "gives (run_prog b64 svc (bt_route b to)) (d, w) (\<lambda>r (d', w'). w' = w \<and> tab d' = tab d \<and> r = bt_routes (tab d) to)"
  unfolding bt_route_def
  by (rule gives_bindI [OF gives_get_row [OF assms(1) bt_ok_tidy [OF ok]]])
    (auto simp: bt_routes_def hget_row_at [OF bt_ok_tidy [OF ok]] col_text_def split: option.splits)

lemma bt_set_route_gives:
  assumes "serves re2 svc b tab" and ok: "bt_ok tab (d, w)"
    and "utf8_valid (octets (route_key to))" and node: "utf8_valid (octets node)"
  shows "gives (run_prog b64 svc (bt_set_route b to node)) (d, w) (\<lambda>r (d', w').
     bt_ok tab (d', w') \<and> world_le w w' \<and> r = bt_routes (tab d) to \<and> bt_routes (tab d') = (bt_routes (tab d))(to \<mapsto> node))"
  unfolding bt_set_route_def
proof (rule gives_bindI [OF gives_get_row [OF assms(1) bt_ok_tidy [OF ok]]], unfold Let_def)
  fix r d1 w1
  assume "case (d1, w1) of (d', w') \<Rightarrow> w' = w \<and> tab d' = tab d \<and> (r = None \<longleftrightarrow> tab d (octets (route_key to)) = []) \<and>
     (\<forall>x. r = Some x \<longrightarrow> hget x = hget (row_at (tab d) (route_key to)))"
  then have 1: "w1 = w" "tab d1 = tab d" and r: "(r = None \<longleftrightarrow> tab d (octets (route_key to)) = [])"
     "\<forall>x. r = Some x \<longrightarrow> hget x = hget (row_at (tab d) (route_key to))" by simp_all
  have prev: "(case r of None \<Rightarrow> None | Some r \<Rightarrow> col_text r ''node'') = bt_routes (tab d) to"
    using r by (auto simp: bt_routes_def hget_row_at [OF bt_ok_tidy [OF ok]] col_text_def split: option.splits)
  have ok1: "bt_ok tab (d1, w1)" using ok 1 bt_ok_same by simp
  show "gives (run_prog b64 svc (bind_prog (put b (route_key to) family_d [(''node'', octets node)])
     (\<lambda>_. done_with (case r of None \<Rightarrow> None | Some r \<Rightarrow> col_text r ''node'')))) (d1, w1) (\<lambda>r (d', w').
     bt_ok tab (d', w') \<and> world_le w w' \<and> r = bt_routes (tab d) to \<and> bt_routes (tab d') = (bt_routes (tab d))(to \<mapsto> node))"
  proof (rule gives_bindI [OF gives_put [OF assms(1) ok1 _ assms(3)]], simp, unfold gives_done prev)
    fix x d2 w2
    assume "case (d2, w2) of (d', w') \<Rightarrow> bt_ok tab (d', w') \<and> w' = snd (now_ms w1) \<and>
      (\<forall>k. k \<noteq> octets (route_key to) \<longrightarrow> tab d' k = tab d1 k) \<and>
      content (tab d' (octets (route_key to))) =
        foldl (\<lambda>m (c, v). m(octets c \<mapsto> v)) (content (tab d1 (octets (route_key to)))) [(''node'', octets node)]"
    then have 2: "bt_ok tab (d2, w2)" "w2 = snd (now_ms w)" "\<forall>k. k \<noteq> octets (route_key to) \<longrightarrow> tab d2 k = tab d k"
      "content (tab d2 (octets (route_key to))) (octets ''node'') = Some (octets node)"
      using 1 by auto
    have "bt_routes (tab d2) to = Some node"
      using 2(4) node by (simp add: bt_routes_content [OF bt_ok_tidy [OF 2(1)]] from_utf8_octets)
    moreover have "world_le w w2" using world_le_now [of w "fst (now_ms w)"] 2(2) by simp
    ultimately show "case (d2, w2) of (d', w') \<Rightarrow> bt_ok tab (d', w') \<and> world_le w w' \<and>
        bt_routes (tab d) to = bt_routes (tab d) to \<and> bt_routes (tab d') = (bt_routes (tab d))(to \<mapsto> node)"
      using 2(1) bt_routes_upd [OF bt_ok_tidy [OF ok] bt_ok_tidy [OF 2(1)] 2(3)] by simp
  qed
qed

lemma bt_clear_route_gives:
  assumes "serves re2 svc b tab" and ok: "bt_ok tab (d, w)" and node: "is_ascii node"
  shows "gives (run_prog b64 svc (bt_clear_route b to node)) (d, w) (\<lambda>r (d', w').
     bt_ok tab (d', w') \<and> world_le w w' \<and> r = (bt_routes (tab d) to = Some node) \<and>
     bt_routes (tab d') = (if r then (bt_routes (tab d))(to := None) else bt_routes (tab d)))"
  unfolding bt_clear_route_def
proof (rule gives_impl [OF gives_mutate_if [OF assms(1)]], simp add: timestamped_def delete_row_def)
  fix r d1 w1
  let ?k = "octets (route_key to)"
  assume "case (d1, w1) of (d', w') \<Rightarrow> w' = w \<and>
     r = (yields re2 (column_filter family_d ''node'' (Some node)) (tab d ?k) \<noteq> []) \<and>
     tab d' = (if r then (tab d)(?k := apply_mutations [delete_row] (tab d ?k)) else tab d)"
  then have 1: "w1 = w" "r = (yields re2 (column_filter family_d ''node'' (Some node)) (tab d ?k) \<noteq> [])"
     "tab d1 = (if r then (tab d)(?k := []) else tab d)" by (simp_all add: delete_row_def)
  have lit: "matches_literally re2" using assms(1) by (simp add: serves_def bigtable_service_def)
  have "tidy family_d (tab d ?k)" using ok by (auto simp: bt_ok_def laid_out_def key_family_def split: if_splits)
      (metis route_key_facts(1))
  then have r: "r = (bt_routes (tab d) to = Some node)"
    using column_filter_yields(2) [OF lit _ _ _ node] node
    by (auto simp: 1(2) bt_routes_content [OF bt_ok_tidy [OF ok]] from_utf8_iff utf8_ascii split: option.splits)
  have ok1: "bt_ok tab (d1, w1)" using ok 1 bt_ok_clear bt_ok_same by (metis (full_types))
  have "bt_routes (tab d1) = (bt_routes (tab d))(to := None)" if r
  proof -
    have "bt_routes (tab d1) to = None"
      unfolding bt_routes_content [OF bt_ok_tidy [OF ok1]] using that 1(3) by simp
    then show ?thesis
      using bt_routes_upd [OF bt_ok_tidy [OF ok] bt_ok_tidy [OF ok1], of to] that 1(3) by (metis fun_upd_apply)
  qed
  then show "case (d1, w1) of (d', w') \<Rightarrow> bt_ok tab (d', w') \<and> world_le w w' \<and> r = (bt_routes (tab d) to = Some node) \<and>
     bt_routes (tab d') = (if r then (bt_routes (tab d))(to := None) else bt_routes (tab d))"
    using ok1 r 1 by (auto simp del: r)
qed

end
