(* ===== verification/Bigtable_Messages.thy ===== *)
theory Bigtable_Messages
  imports Bigtable_View Memory_Contract
begin

text \<open>
  The messages of the Bigtable adapter are the abstract store's: a message row decodes to the
  message it was written from, its key is replaced exactly by a message with the same topic on
  the same subscription, and the id index resolves to it or to nothing.
\<close>

section \<open>Message rows\<close>

text \<open>
  What the layout relies on: no \<open>#\<close> in a user agent id, no colon in a channel id, strings
  that are UTF-8, and an acceptance time that fits a time stamp.
\<close>

definition utf8_string :: "string \<Rightarrow> bool" where
  "utf8_string s \<longleftrightarrow> utf8_valid (octets s)"

definition storable :: "message \<Rightarrow> bool" where
  "storable m \<longleftrightarrow> CHR ''#'' \<notin> set (m_uaid m) \<and> CHR '':'' \<notin> set (m_channel_id m) \<and>
     utf8_string (m_id m) \<and> utf8_string (m_uaid m) \<and> utf8_string (m_channel_id m) \<and> utf8_string (m_push m) \<and>
     (\<forall>s\<in>set_option (m_topic m) \<union> set_option (m_ctype m) \<union> set_option (m_cenc m) \<union> set_option (m_rsub m).
        utf8_string s) \<and> stampable (m_accepted m)"

definition message_cells :: "message \<Rightarrow> (string \<times> byte list) list" where
  "message_cells m =
     [(''id'', octets (m_id m)), (''ch'', octets (m_channel_id m)), (''push'', octets (m_push m)), (''body'', m_body m),
      (''ttl'', octets (show_nat (unat (m_ttl m)))), (''urgency'', octets (urgency_as_str (m_urgency m))),
      (''accepted'', octets (show_u64 (m_accepted m))), (''expiry'', octets (show_u64 (m_expiry m)))]
     @ (case m_ctype m of None \<Rightarrow> [] | Some v \<Rightarrow> [(''ctype'', octets v)])
     @ (case m_cenc m of None \<Rightarrow> [] | Some v \<Rightarrow> [(''cenc'', octets v)])
     @ (case m_rsub m of None \<Rightarrow> [] | Some v \<Rightarrow> [(''rsub'', octets v)])"

lemma message_mutations_cells:
  "message_mutations m = delete_row # map (\<lambda>(c, v). set_cell family_m c v (m_accepted m)) (message_cells m)"
  by (simp add: message_mutations_def message_cells_def Let_def optional_cell_def split: option.splits)

definition written :: "message \<Rightarrow> byte list \<Rightarrow> byte list option" where
  "written m = foldl (\<lambda>f (c, v). f(octets c \<mapsto> v)) Map.empty (message_cells m)"

lemma written_cols:
  "written m (octets ''id'') = Some (octets (m_id m))"
  "written m (octets ''ch'') = Some (octets (m_channel_id m))"
  "written m (octets ''push'') = Some (octets (m_push m))"
  "written m (octets ''body'') = Some (m_body m)"
  "written m (octets ''ttl'') = Some (octets (show_nat (unat (m_ttl m))))"
  "written m (octets ''urgency'') = Some (octets (urgency_as_str (m_urgency m)))"
  "written m (octets ''accepted'') = Some (octets (show_u64 (m_accepted m)))"
  "written m (octets ''expiry'') = Some (octets (show_u64 (m_expiry m)))"
  "written m (octets ''ctype'') = map_option octets (m_ctype m)"
  "written m (octets ''cenc'') = map_option octets (m_cenc m)"
  "written m (octets ''rsub'') = map_option octets (m_rsub m)"
  by (simp_all add: written_def message_cells_def split: option.splits)

lemma message_cells_written:
  assumes "stampable (m_accepted m)"
  shows "tidy family_m (apply_mutations (message_mutations m) cs)"
    and "content (apply_mutations (message_mutations m) cs) = written m"
proof -
  have "not_after (m_accepted m * 1000) []" by (simp add: not_after_def)
  from apply_set_cells [OF tidy_Nil this, of "family_m" "message_cells m"]
  show "tidy family_m (apply_mutations (message_mutations m) cs)"
    and "content (apply_mutations (message_mutations m) cs) = written m"
    by (simp_all add: message_mutations_cells written_def delete_row_def)
qed

lemma is_ascii_show_nat [simp]: "is_ascii (show_nat n)"
  using show_nat_digits [of n]
  by (auto simp: is_ascii_def list_all_iff is_ascii_digit_def less_eq_char_def)

lemma is_ascii_urgency [simp]: "is_ascii (urgency_as_str u)"
  by (cases u) simp_all

lemma parse_shown:
  "parse_u64 (show_u64 n) = Some n"
  "Option.bind (parse_u64 (show_nat (unat (k :: u32)))) narrow_u32 = Some k"
proof -
  show "parse_u64 (show_u64 n) = Some n"
    using parse_show_u64 [of "unat n"] unsigned_less [of n, where 'a = nat] by (simp add: show_u64_def)
  have "unat k < 2 ^ 32" using unsigned_less [of k, where 'a = nat] by simp
  moreover have "unat (ucast k :: u64) = unat k" "ucast (ucast k :: u64) = k" by (transfer, simp)+
  ultimately show "Option.bind (parse_u64 (show_nat (unat k))) narrow_u32 = Some k"
    using parse_show_u64 [of "unat k"] by (simp add: narrow_u32_def)
qed

lemma hex16_hd: "hex16 n = hex_digits ! (unat n div 16 ^ 15 mod 16) # tl (hex16 n)"
  by (simp add: hex16_def upt_rec [of 0 16])

lemma hex16_not_t: "strip_prefix ''t:'' (hex16 n @ x) = None"
proof -
  have "lower_hex (hex_digits ! (unat n div 16 ^ 15 mod 16))" by (rule hex_nth_lower) simp
  then have "hex_digits ! (unat n div 16 ^ 15 mod 16) \<noteq> CHR ''t''" by (auto simp: less_eq_char_def)
  then show ?thesis by (subst hex16_hd) simp
qed

lemma slot_topic_key:
  "CHR '':'' \<notin> set ch \<Longrightarrow> slot_topic (''t:'' @ ch @ '':'' @ t) = Some t"
  "slot_topic (hex16 n @ i) = None"
  by (simp_all add: slot_topic_def split_once_append hex16_not_t del: strip_prefix.simps)
    (simp add: split_once_append)

lemma slot_clean: "m_topic m = None \<Longrightarrow> CHR ''#'' \<notin> set (m_uaid m) \<Longrightarrow>
    split_once (CHR ''#'') (m_uaid m @ CHR ''#'' # s) = Some (m_uaid m, s)"
  by (simp add: split_once_append)

text \<open>A row holding what \<open>insert_message\<close> wrote decodes to the message.\<close>

lemma message_decodes:
  assumes "storable m" and "hget r = written m"
  shows "message_from_row (message_key m) r = Some m"
proof -
  note parts = assms(1) [unfolded storable_def utf8_string_def]
  have cols: "col_text r ''id'' = Some (m_id m)" "col_text r ''ch'' = Some (m_channel_id m)"
    "col_text r ''push'' = Some (m_push m)" "col_text r ''urgency'' = Some (urgency_as_str (m_urgency m))"
    "col_text r ''ctype'' = m_ctype m" "col_text r ''cenc'' = m_cenc m" "col_text r ''rsub'' = m_rsub m"
    unfolding col_text_def assms(2) written_cols using parts
    by (auto simp: from_utf8_octets split: option.splits)
  have numbers: "col_number r ''accepted'' = Some (m_accepted m)" "col_number r ''expiry'' = Some (m_expiry m)"
    "Option.bind (col_number r ''ttl'') narrow_u32 = Some (m_ttl m)"
    unfolding col_number_def col_text_def assms(2) written_cols
    using parse_shown(1) parse_shown(2) [of "m_ttl m"] by (simp_all add: show_u64_def)
  have body: "hget r (octets ''body'') = Some (m_body m)" unfolding assms(2) by (rule written_cols)
  have key: "Option.bind (strip_prefix ''msg#'' (message_key m)) (split_once (CHR ''#'')) =
      Some (m_uaid m, case m_topic m of Some t \<Rightarrow> ''t:'' @ m_channel_id m @ '':'' @ t | None \<Rightarrow> hex16 (m_accepted m) @ m_id m)"
    using parts by (cases "m_topic m") (simp_all add: message_key_def split_once_append)
  have slot: "slot_topic (case m_topic m of Some t \<Rightarrow> ''t:'' @ m_channel_id m @ '':'' @ t | None \<Rightarrow> hex16 (m_accepted m) @ m_id m)
      = m_topic m"
    using parts slot_topic_key by (cases "m_topic m") simp_all
  from key slot body show ?thesis
    by (auto simp: message_from_row_def cols numbers split: bind_splits)
qed

text \<open>Two messages share a row exactly when one replaces the other.\<close>

lemma append_no_sep:
  assumes "(x :: char) \<notin> set a" and "x \<notin> set a'"
  shows "a @ x # b = a' @ x # b' \<longleftrightarrow> a = a' \<and> b = b'"
proof
  assume "a @ x # b = a' @ x # b'"
  then have "split_once x (a @ x # b) = split_once x (a' @ x # b')" by (rule arg_cong)
  then have "Some (a, b) = Some (a', b')" unfolding split_once_append [OF assms(1)] split_once_append [OF assms(2)] .
  then show "a = a' \<and> b = b'" by simp
qed simp

lemma length_hex16 [simp]: "length (hex16 n) = 16"
  by (simp add: hex16_def)

lemma message_key_eq:
  assumes "storable m" and "storable m'" and "message_key m = message_key m'"
  shows "replaces m m' \<or> (m_topic m = None \<and> m_topic m' = None \<and> m_id m = m_id m')"
proof -
  have a: "CHR ''#'' \<notin> set (m_uaid m)" "CHR ''#'' \<notin> set (m_uaid m')" "CHR '':'' \<notin> set (m_channel_id m)"
    "CHR '':'' \<notin> set (m_channel_id m')" using assms(1,2) by (auto simp: storable_def)
  have t: "\<not> ''t:'' @ x = hex16 n @ y" for x n y
    using hex16_not_t [of n y] by (metis option.distinct(1) strip_prefix_append)
  consider "m_topic m = None" "m_topic m' = None"
    | x y where "m_topic m = Some x" "m_topic m' = Some y"
    | x where "m_topic m = Some x" "m_topic m' = None" | y where "m_topic m = None" "m_topic m' = Some y"
    by (cases "m_topic m"; cases "m_topic m'") auto
  then show ?thesis
  proof cases
    case 1
    then have "hex16 (m_accepted m) @ m_id m = hex16 (m_accepted m') @ m_id m'"
      using assms(3) append_no_sep [OF a(1,2)] by (simp add: message_key_def)
    then show ?thesis using 1 by (simp add: append_eq_append_conv)
  next
    case 2
    then have "m_uaid m = m_uaid m'" "m_channel_id m @ CHR '':'' # x = m_channel_id m' @ CHR '':'' # y"
      using assms(3) append_no_sep [OF a(1,2)] by (simp_all add: message_key_def)
    then show ?thesis using append_no_sep [OF a(3,4)] 2 by (simp add: replaces_def)
  next
    case 3
    then have "''t:'' @ m_channel_id m @ '':'' @ x = hex16 (m_accepted m') @ m_id m'"
      using assms(3) append_no_sep [OF a(1,2)] by (simp add: message_key_def)
    with t show ?thesis by blast
  next
    case 4
    then have "''t:'' @ m_channel_id m' @ '':'' @ y = hex16 (m_accepted m) @ m_id m"
      using assms(3) append_no_sep [OF a(1,2)] by (simp add: message_key_def)
    with t show ?thesis by blast
  qed
qed

lemma replaces_key: "replaces m m' \<Longrightarrow> message_key m' = message_key m"
  by (auto simp: replaces_def message_key_def)

section \<open>The index and the rows\<close>

definition decoded :: "(byte list \<Rightarrow> cell list) \<Rightarrow> string \<Rightarrow> message option" where
  "decoded t key = message_from_row key (row_at t key)"

definition indexed :: "(byte list \<Rightarrow> cell list) \<Rightarrow> string \<Rightarrow> string option" where
  "indexed t i = col_text (row_at t (''mid#'' @ i)) ''row''"

text \<open>The messages the table stands for.\<close>

definition bt_messages :: "(byte list \<Rightarrow> cell list) \<Rightarrow> string \<Rightarrow> message option" where
  "bt_messages t i =
     (case indexed t i of None \<Rightarrow> None | Some key \<Rightarrow>
        (case decoded t key of None \<Rightarrow> None | Some m \<Rightarrow> if m_id m = i then Some m else None))"

text \<open>Every message row holds a whole message, under its key, and the index leads to it.\<close>

definition rows_indexed :: "(byte list \<Rightarrow> cell list) \<Rightarrow> bool" where
  "rows_indexed t \<longleftrightarrow> (\<forall>x. t (octets (''msg#'' @ x)) \<noteq> [] \<longrightarrow>
     (\<exists>m. storable m \<and> is_ascii (m_id m) \<and> message_key m = ''msg#'' @ x \<and> decoded t (''msg#'' @ x) = Some m \<and>
        indexed t (m_id m) = Some (''msg#'' @ x)))"

definition bt_inv :: "('d \<Rightarrow> byte list \<Rightarrow> cell list) \<Rightarrow> 'd \<times> world \<Rightarrow> bool" where
  "bt_inv tab dw \<longleftrightarrow> bt_ok tab dw \<and> rows_indexed (tab (fst dw))"

lemma decoded_key: "decoded t key = Some m \<Longrightarrow> \<exists>x. key = ''msg#'' @ x"
  by (auto simp: decoded_def message_from_row_def strip_prefix_Some_iff split: bind_splits)

lemma decoded_absent:
  assumes "t (octets key) = []"
  shows "decoded t key = None"
proof -
  have "row_at t key = []" by (simp add: row_at_def assms newest_def cells_row_def)
  then show ?thesis by (auto simp: decoded_def message_from_row_def col_text_def split: bind_splits)
qed

lemma decoded_id:
  assumes "tidy_rows t" and "decoded t key = Some m"
  shows "content (t (octets key)) (octets ''id'') = Some (octets (m_id m))"
proof -
  have "col_text (row_at t key) ''id'' = Some (m_id m)"
    using assms(2) by (auto simp: decoded_def message_from_row_def split: bind_splits)
  then obtain v where "hget (row_at t key) (octets ''id'') = Some v" "from_utf8 v = Some (m_id m)"
    unfolding col_text_def by (auto split: option.splits)
  then show ?thesis unfolding hget_row_at [OF assms(1)] by (simp add: from_utf8_SomeD)
qed

lemma row_at_cong: "t' (octets key) = t (octets key) \<Longrightarrow> row_at t' key = row_at t key"
  by (simp add: row_at_def)

lemma decoded_cong: "t' (octets key) = t (octets key) \<Longrightarrow> decoded t' key = decoded t key"
  unfolding decoded_def by (rule arg_cong [where f = "message_from_row key", OF row_at_cong])

lemma indexed_cong: "t' (octets (''mid#'' @ i)) = t (octets (''mid#'' @ i)) \<Longrightarrow> indexed t' i = indexed t i"
  unfolding indexed_def by (rule arg_cong2 [where f = col_text, OF row_at_cong refl])

lemma bt_messages_SomeD:
  assumes "bt_messages t i = Some m"
  obtains key where "indexed t i = Some key" "decoded t key = Some m" "m_id m = i"
  using assms by (auto simp: bt_messages_def split: option.splits if_splits)

lemma bt_messages_row:
  assumes "rows_indexed t" and "decoded t key = Some m"
  shows "bt_messages t (m_id m) = Some m" "storable m" "message_key m = key" "is_ascii (m_id m)"
    "indexed t (m_id m) = Some key"
proof -
  obtain x where x: "key = ''msg#'' @ x" using decoded_key assms(2) by blast
  have "t (octets key) \<noteq> []" using assms(2) decoded_absent by force
  then obtain m' where m': "storable m'" "is_ascii (m_id m')" "message_key m' = key" "decoded t key = Some m'"
    "indexed t (m_id m') = Some key"
    using assms(1) unfolding rows_indexed_def x by blast
  with assms(2) show "bt_messages t (m_id m) = Some m" "storable m" "message_key m = key" "is_ascii (m_id m)"
    "indexed t (m_id m) = Some key" by (simp_all add: bt_messages_def)
qed

lemma msg_mid_keys [simp]:
  "octets (''msg#'' @ x) \<noteq> octets (''mid#'' @ y)" "octets (''mid#'' @ y) \<noteq> octets (''msg#'' @ x)"
  by (simp_all add: octets_inject)

text \<open>Only message rows and index rows matter.\<close>

lemma same_messages:
  assumes "\<And>x. t' (octets (''msg#'' @ x)) = t (octets (''msg#'' @ x))"
    and "\<And>i. t' (octets (''mid#'' @ i)) = t (octets (''mid#'' @ i))"
  shows "bt_messages t' = bt_messages t" and "rows_indexed t' = rows_indexed t"
proof -
  have ix: "indexed t' i = indexed t i" for i by (rule indexed_cong) (rule assms(2))
  have dec: "decoded t' key = decoded t key" for key
  proof (cases "\<exists>x. key = ''msg#'' @ x")
    case True
    with assms(1) show ?thesis by (auto intro: decoded_cong)
  next
    case False
    then show ?thesis using decoded_key [of t key] decoded_key [of t' key]
      by (metis not_None_eq)
  qed
  show "bt_messages t' = bt_messages t"
  proof
    show "bt_messages t' i = bt_messages t i" for i unfolding bt_messages_def ix dec ..
  qed
  show "rows_indexed t' = rows_indexed t" unfolding rows_indexed_def ix dec assms(1) ..
qed

section \<open>Finding a message\<close>

lemma gives_locate:
  assumes "serves re2 svc b tab" and tidy: "tidy_rows (tab d)"
  shows "gives (run_prog b64 svc (locate b i)) (d, w) (\<lambda>r (d', w'). w' = w \<and> tab d' = tab d \<and>
     (case r of None \<Rightarrow> bt_messages (tab d) i = None
      | Some (key, m) \<Rightarrow> indexed (tab d) i = Some key \<and> decoded (tab d) key = Some m \<and> m_id m = i))"
    (is "gives _ _ ?Q")
  unfolding locate_def
proof (rule gives_bindI [OF gives_get_row [OF assms]])
  fix idx d1 w1
  assume "case (d1, w1) of (d', w') \<Rightarrow> w' = w \<and> tab d' = tab d \<and> (idx = None \<longleftrightarrow> tab d (octets (''mid#'' @ i)) = []) \<and>
     (\<forall>x. idx = Some x \<longrightarrow> hget x = hget (row_at (tab d) (''mid#'' @ i)))"
  then have 1: "w1 = w" "tab d1 = tab d" and none: "idx = None \<Longrightarrow> tab d (octets (''mid#'' @ i)) = []"
     and some: "\<And>x. idx = Some x \<Longrightarrow> hget x = hget (row_at (tab d) (''mid#'' @ i))" by simp_all
  show "gives (run_prog b64 svc (case idx of None \<Rightarrow> done_with None | Some idx \<Rightarrow>
      case col_text idx ''row'' of None \<Rightarrow> done_with None | Some key \<Rightarrow>
      bind_prog (get_row b key) (\<lambda>r. case r of None \<Rightarrow> done_with None | Some r \<Rightarrow>
      done_with (case message_from_row key r of None \<Rightarrow> None | Some m \<Rightarrow> if m_id m = i then Some (key, m) else None))))
      (d1, w1) ?Q"
  proof (cases idx)
    case None
    then have "row_at (tab d) (''mid#'' @ i) = []" using none by (simp add: row_at_def newest_def cells_row_def)
    then have "indexed (tab d) i = None" by (simp add: indexed_def col_text_def)
    then show ?thesis by (simp add: None 1 bt_messages_def)
  next
    case (Some x)
    have ix: "col_text x ''row'' = indexed (tab d) i"
      unfolding indexed_def by (rule col_text_cong [OF some [OF Some]])
    show ?thesis
    proof (cases "indexed (tab d) i")
      case None
      then show ?thesis by (simp add: Some ix 1 bt_messages_def)
    next
      case key: (Some key)
      have "gives (run_prog b64 svc (bind_prog (get_row b key) (\<lambda>r. case r of None \<Rightarrow> done_with None | Some r \<Rightarrow>
        done_with (case message_from_row key r of None \<Rightarrow> None | Some m \<Rightarrow> if m_id m = i then Some (key, m) else None))))
        (d1, w1) ?Q"
      proof (rule gives_bindI [OF gives_get_row [OF assms(1)]])
        show "tidy_rows (tab d1)" using tidy 1 by simp
        fix r d2 w2
        assume "case (d2, w2) of (d', w') \<Rightarrow> w' = w1 \<and> tab d' = tab d1 \<and> (r = None \<longleftrightarrow> tab d1 (octets key) = []) \<and>
          (\<forall>x. r = Some x \<longrightarrow> hget x = hget (row_at (tab d1) key))"
        then have 2: "w2 = w" "tab d2 = tab d" and r: "r = None \<Longrightarrow> tab d (octets key) = []"
          "\<And>x. r = Some x \<Longrightarrow> hget x = hget (row_at (tab d) key)" using 1 by simp_all
        show "gives (run_prog b64 svc (case r of None \<Rightarrow> done_with None | Some r \<Rightarrow>
          done_with (case message_from_row key r of None \<Rightarrow> None | Some m \<Rightarrow> if m_id m = i then Some (key, m) else None)))
          (d2, w2) ?Q"
        proof (cases r)
          case None
          then have "decoded (tab d) key = None" using r(1) decoded_absent by blast
          then show ?thesis by (simp add: None 2 bt_messages_def key)
        next
          case row: (Some x)
          have "message_from_row key x = decoded (tab d) key"
            unfolding decoded_def by (rule message_from_row_cong [OF r(2) [OF row]])
          then show ?thesis by (simp add: row 2 bt_messages_def key split: option.splits)
        qed
      qed
      then show ?thesis by (simp add: Some ix key)
    qed
  qed
qed

section \<open>Removing a message\<close>

lemma removed_messages:
  assumes inv: "rows_indexed t" and key: "decoded t key = Some m"
    and t': "t' = t(octets key := [], octets (''mid#'' @ m_id m) := [])"
  shows "bt_messages t' = (bt_messages t)(m_id m := None)" and "rows_indexed t'"
proof -
  obtain x where x: "key = ''msg#'' @ x" using decoded_key [OF key] by blast
  have own: "indexed t (m_id m) = Some key" by (rule bt_messages_row(5) [OF inv key])
  have ix: "indexed t' i = (if i = m_id m then None else indexed t i)" for i
  proof (cases "i = m_id m")
    case True
    then have "row_at t' (''mid#'' @ i) = []" by (simp add: t' row_at_def newest_def cells_row_def)
    then show ?thesis by (simp add: True indexed_def col_text_def)
  next
    case False
    then have "t' (octets (''mid#'' @ i)) = t (octets (''mid#'' @ i))" by (simp add: t' x octets_inject)
    then have "indexed t' i = indexed t i" by (rule indexed_cong)
    with False show ?thesis by simp
  qed
  have dec: "decoded t' k = (if k = key then None else decoded t k)" for k
  proof (cases "k = key")
    case True
    then have "t' (octets k) = []" by (simp add: t' x)
    then have "decoded t' k = None" by (rule decoded_absent)
    with True show ?thesis by simp
  next
    case False
    show ?thesis
    proof (cases "k = ''mid#'' @ m_id m")
      case True
      then show ?thesis using decoded_key [of t k] decoded_key [of t' k] x by (cases "decoded t k"; cases "decoded t' k") auto
    next
      case other: False
      have "octets k \<noteq> octets key" "octets k \<noteq> octets (''mid#'' @ m_id m)"
        using False other octets_inject by blast+
      then have "t' (octets k) = t (octets k)" by (simp add: t')
      then have "decoded t' k = decoded t k" by (rule decoded_cong)
      with False show ?thesis by simp
    qed
  qed
  show "bt_messages t' = (bt_messages t)(m_id m := None)"
  proof
    fix i
    show "bt_messages t' i = ((bt_messages t)(m_id m := None)) i"
      using key by (auto simp: bt_messages_def ix dec split: option.splits)
  qed
  show "rows_indexed t'"
    unfolding rows_indexed_def
  proof (intro allI impI)
    fix y assume "t' (octets (''msg#'' @ y)) \<noteq> []"
    then have y: "t (octets (''msg#'' @ y)) \<noteq> []" "''msg#'' @ y \<noteq> key" by (auto simp: t' split: if_splits)
    then obtain m' where m': "storable m'" "is_ascii (m_id m')" "message_key m' = ''msg#'' @ y"
      "decoded t (''msg#'' @ y) = Some m'" "indexed t (m_id m') = Some (''msg#'' @ y)"
      using inv unfolding rows_indexed_def by blast
    moreover have "m_id m' \<noteq> m_id m" using own m'(5) y(2) by auto
    ultimately show "\<exists>m. storable m \<and> is_ascii (m_id m) \<and> message_key m = ''msg#'' @ y \<and>
        decoded t' (''msg#'' @ y) = Some m \<and> indexed t' (m_id m) = Some (''msg#'' @ y)"
      using y(2) by (intro exI [of _ m']) (simp add: ix dec)
  qed
qed

lemma bt_invD: "bt_inv tab (d, w) \<Longrightarrow> bt_ok tab (d, w)" "bt_inv tab (d, w) \<Longrightarrow> rows_indexed (tab d)"
  by (simp_all add: bt_inv_def)

lemma claim_matches:
  assumes "matches_literally re2" and "bt_ok tab (d, w)" and "decoded (tab d) key = Some m" and "is_ascii i"
  shows "yields re2 (column_filter family_m ''id'' (Some i)) (tab d (octets key)) \<noteq> [] \<longleftrightarrow> m_id m = i"
proof -
  obtain x where x: "key = ''msg#'' @ x" using decoded_key [OF assms(3)] by blast
  have fam: "key_family (octets key) = family_m" by (simp add: x key_family_def m_key_def)
  have "laid_out (tab d)" using assms(2) by (simp add: bt_ok_def)
  then have "tidy family_m (tab d (octets key))" using fam by (metis laid_out_def)
  from column_filter_yields(2) [OF assms(1) _ this _ assms(4)]
    decoded_id [OF bt_ok_tidy [OF assms(2)] assms(3)]
  show ?thesis by (simp add: octets_inject)
qed

lemma gives_remove_message:
  assumes "serves re2 svc b tab" and inv: "bt_inv tab (d, w)" and dec: "decoded (tab d) key = Some m"
  shows "gives (run_prog b64 svc (bt_remove_message b key m)) (d, w) (\<lambda>r (d', w'). r \<and> w' = w \<and> bt_inv tab (d', w') \<and>
     bt_messages (tab d') = (bt_messages (tab d))(m_id m := None))"
  unfolding bt_remove_message_def delete_message_row_def
proof (rule gives_bindI [OF gives_mutate_if [OF assms(1)]], simp add: timestamped_def delete_row_def)
  fix r d1 w1
  let ?k = "octets key"
  assume "case (d1, w1) of (d', w') \<Rightarrow> w' = w \<and>
     r = (yields re2 (column_filter family_m ''id'' (Some (m_id m))) (tab d ?k) \<noteq> []) \<and>
     tab d' = (if r then (tab d)(?k := apply_mutations [delete_row] (tab d ?k)) else tab d)"
  then have 1: "w1 = w" "r = (yields re2 (column_filter family_m ''id'' (Some (m_id m))) (tab d ?k) \<noteq> [])"
     "tab d1 = (if r then (tab d)(?k := []) else tab d)" by (simp_all add: delete_row_def)
  have lit: "matches_literally re2" using assms(1) by (simp add: serves_def bigtable_service_def)
  have ascii: "is_ascii (m_id m)" by (rule bt_messages_row(4) [OF bt_invD(2) [OF inv] dec])
  have r: "r" using claim_matches [OF lit bt_invD(1) [OF inv] dec ascii] 1(2) by simp
  have ok1: "bt_ok tab (d1, w1)" using bt_ok_clear [OF bt_invD(1) [OF inv]] 1 r by simp
  show "gives (run_prog b64 svc (if \<not> r then done_with False
      else bind_prog (delete_key b (''mid#'' @ m_id m)) (\<lambda>_. done_with True))) (d1, w1)
      (\<lambda>r (d', w'). r \<and> w' = w \<and> bt_inv tab (d', w') \<and> bt_messages (tab d') = (bt_messages (tab d))(m_id m := None))"
    unfolding if_not_P [OF iffD2 [OF not_not r]] if_P
  proof (rule gives_bindI [OF gives_delete_key [OF assms(1)]], unfold gives_done)
    fix x d2 w2
    assume "case (d2, w2) of (d', w') \<Rightarrow> w' = w1 \<and> tab d' = (tab d1)(octets (''mid#'' @ m_id m) := [])"
    then have 2: "w2 = w" "tab d2 = (tab d1)(octets (''mid#'' @ m_id m) := [])" using 1 by simp_all
    then have t2: "tab d2 = (tab d)(?k := [], octets (''mid#'' @ m_id m) := [])" using 1 r by simp
    have "bt_ok tab (d2, w2)" using bt_ok_clear [OF ok1 2(2)] 1 2 by simp
    then show "case (d2, w2) of (d', w') \<Rightarrow> True \<and> w' = w \<and> bt_inv tab (d', w') \<and>
        bt_messages (tab d') = (bt_messages (tab d))(m_id m := None)"
      using removed_messages [OF bt_invD(2) [OF inv] dec t2] 2(1) by (simp add: bt_inv_def)
  qed
qed

lemma bt_delete_message_gives:
  assumes "serves re2 svc b tab" and inv: "bt_inv tab (d, w)"
  shows "gives (run_prog b64 svc (bt_delete_message b i owner)) (d, w) (\<lambda>r (d', w'). bt_inv tab (d', w') \<and> w' = w \<and>
     (case bt_messages (tab d) i of
        None \<Rightarrow> r = None \<and> tab d' = tab d
      | Some m \<Rightarrow> if permits owner m then r = Some m \<and> bt_messages (tab d') = (bt_messages (tab d))(i := None)
                  else r = None \<and> tab d' = tab d))"
    (is "gives _ _ ?Q")
  unfolding bt_delete_message_def
proof (rule gives_bindI [OF gives_locate [OF assms(1) bt_ok_tidy [OF bt_invD(1) [OF inv]]]])
  fix r d1 w1
  assume "case (d1, w1) of (d', w') \<Rightarrow> w' = w \<and> tab d' = tab d \<and>
     (case r of None \<Rightarrow> bt_messages (tab d) i = None
      | Some (key, m) \<Rightarrow> indexed (tab d) i = Some key \<and> decoded (tab d) key = Some m \<and> m_id m = i)"
  then have 1: "w1 = w" "tab d1 = tab d" and r: "case r of None \<Rightarrow> bt_messages (tab d) i = None
      | Some (key, m) \<Rightarrow> indexed (tab d) i = Some key \<and> decoded (tab d) key = Some m \<and> m_id m = i" by simp_all
  have inv1: "bt_inv tab (d1, w1)" using inv 1 by (simp add: bt_inv_def bt_ok_def)
  show "gives (run_prog b64 svc (case r of None \<Rightarrow> done_with None | Some (key, m) \<Rightarrow>
     if (case owner of None \<Rightarrow> False | Some (uaid, ch) \<Rightarrow> m_uaid m \<noteq> uaid \<or> m_channel_id m \<noteq> ch)
     then done_with None
     else bind_prog (bt_remove_message b key m) (\<lambda>removed. done_with (if removed then Some m else None)))) (d1, w1) ?Q"
  proof (cases r)
    case None
    then show ?thesis using r inv1 1 by simp
  next
    case (Some km)
    obtain key m where km: "km = (key, m)" by (cases km)
    have m: "indexed (tab d) i = Some key" "decoded (tab d) key = Some m" "m_id m = i" using r by (simp_all add: Some km)
    then have view: "bt_messages (tab d) i = Some m" by (simp add: bt_messages_def)
    have owner: "(case owner of None \<Rightarrow> False | Some (uaid, ch) \<Rightarrow> m_uaid m \<noteq> uaid \<or> m_channel_id m \<noteq> ch) \<longleftrightarrow> \<not> permits owner m"
      by (auto simp: permits_def split: option.splits)
    show ?thesis
    proof (cases "permits owner m")
      case False
      then show ?thesis using inv1 1 by (simp add: Some km owner view)
    next
      case True
      have "gives (run_prog b64 svc (bind_prog (bt_remove_message b key m)
          (\<lambda>removed. done_with (if removed then Some m else None)))) (d1, w1) ?Q"
        using m 1 True view
        by (intro gives_bindI [OF gives_remove_message [OF assms(1) inv1]]) auto
      then show ?thesis using True by (simp add: Some km owner)
    qed
  qed
qed

section \<open>Storing a message\<close>

lemma inserted_messages:
  assumes inv: "rows_indexed t" and m: "storable m" "is_ascii (m_id m)" and fresh: "t (octets (''mid#'' @ m_id m)) = []"
    and tidy: "tidy_rows t'"
    and row: "content (t' (octets (message_key m))) = written m"
    and index: "content (t' (octets (''mid#'' @ m_id m))) = [octets ''row'' \<mapsto> octets (message_key m)]"
    and key: "utf8_valid (octets (message_key m))"
    and msgs: "\<And>x. ''msg#'' @ x \<noteq> message_key m \<Longrightarrow> t' (octets (''msg#'' @ x)) = t (octets (''msg#'' @ x))"
    and mids: "\<And>i. i \<noteq> m_id m \<Longrightarrow> t' (octets (''mid#'' @ i)) = t (octets (''mid#'' @ i))"
  shows "bt_messages t' = (\<lambda>i. if i = m_id m then Some m
      else (case bt_messages t i of None \<Rightarrow> None | Some m' \<Rightarrow> if replaces m m' then None else Some m'))"
    and "rows_indexed t'"
proof -
  have new: "decoded t' (message_key m) = Some m"
    unfolding decoded_def by (rule message_decodes [OF m(1)]) (simp only: hget_row_at [OF tidy] row)
  have here: "indexed t' (m_id m) = Some (message_key m)"
    unfolding indexed_def col_text_def hget_row_at [OF tidy] index using key by (simp add: from_utf8_octets)
  have there: "indexed t' i = indexed t i" if "i \<noteq> m_id m" for i
    by (rule indexed_cong) (rule mids [OF that])
  have other: "decoded t' k = decoded t k" if "k \<noteq> message_key m" for k
  proof (cases "\<exists>x. k = ''msg#'' @ x")
    case True
    then obtain x where "k = ''msg#'' @ x" by blast
    with msgs that show ?thesis by (auto intro: decoded_cong)
  next
    case False
    then show ?thesis using decoded_key [of t k] decoded_key [of t' k] by (metis not_None_eq)
  qed
  have unindexed: "bt_messages t (m_id m) = None"
  proof -
    have "row_at t (''mid#'' @ m_id m) = []" using fresh by (simp add: row_at_def newest_def cells_row_def)
    then show ?thesis by (simp add: bt_messages_def indexed_def col_text_def)
  qed
  have shared: "replaces m m' \<longleftrightarrow> k = message_key m" if "decoded t k = Some m'" for k m'
  proof -
    have m': "storable m'" "message_key m' = k" "bt_messages t (m_id m') = Some m'"
      using bt_messages_row [OF inv that] by blast+
    then have "m_id m' \<noteq> m_id m" using unindexed by auto
    then show ?thesis using message_key_eq [OF m(1) m'(1)] replaces_key m'(2) by metis
  qed
  show "bt_messages t' = (\<lambda>i. if i = m_id m then Some m
      else (case bt_messages t i of None \<Rightarrow> None | Some m' \<Rightarrow> if replaces m m' then None else Some m'))"
  proof
    fix i
    show "bt_messages t' i = (if i = m_id m then Some m
      else (case bt_messages t i of None \<Rightarrow> None | Some m' \<Rightarrow> if replaces m m' then None else Some m'))"
    proof (cases "i = m_id m")
      case True
      then show ?thesis by (simp add: bt_messages_def here new)
    next
      case False
      show ?thesis
      proof (cases "indexed t i")
        case None
        with False show ?thesis by (simp add: bt_messages_def there)
      next
        case (Some k)
        show ?thesis
        proof (cases "k = message_key m")
          case True
          then have "bt_messages t' i = None" using False Some by (simp add: bt_messages_def there new)
          moreover have "replaces m m'" if "bt_messages t i = Some m'" for m'
            using that Some shared True by (auto simp: bt_messages_def split: option.splits if_splits)
          ultimately show ?thesis using False by (simp split: option.split)
        next
          case other_key: False
          then have "bt_messages t' i = bt_messages t i" using False Some by (simp add: bt_messages_def there other)
          moreover have "\<not> replaces m m'" if "bt_messages t i = Some m'" for m'
            using that Some shared other_key by (auto simp: bt_messages_def split: option.splits if_splits)
          ultimately show ?thesis using False by (simp split: option.split)
        qed
      qed
    qed
  qed
  show "rows_indexed t'"
    unfolding rows_indexed_def
  proof (intro allI impI)
    fix x assume x: "t' (octets (''msg#'' @ x)) \<noteq> []"
    show "\<exists>m. storable m \<and> is_ascii (m_id m) \<and> message_key m = ''msg#'' @ x \<and> decoded t' (''msg#'' @ x) = Some m \<and>
        indexed t' (m_id m) = Some (''msg#'' @ x)"
    proof (cases "''msg#'' @ x = message_key m")
      case True
      with m new here show ?thesis by (intro exI [of _ m]) simp
    next
      case False
      then have "t (octets (''msg#'' @ x)) \<noteq> []" using x msgs by metis
      then obtain m' where m': "storable m'" "is_ascii (m_id m')" "message_key m' = ''msg#'' @ x"
        "decoded t (''msg#'' @ x) = Some m'" "indexed t (m_id m') = Some (''msg#'' @ x)"
        using inv unfolding rows_indexed_def by blast
      moreover have "m_id m' \<noteq> m_id m" using bt_messages_row(1) [OF inv m'(4)] unindexed by auto
      ultimately show ?thesis using False by (intro exI [of _ m']) (simp add: there other)
    qed
  qed
qed

lemma is_ascii_hex16 [simp]: "is_ascii (hex16 n)"
proof -
  have "c \<in> set (hex16 n) \<Longrightarrow> \<exists>i<16. c = hex_digits ! i" for c
    by (auto simp: hex16_def) (metis mod_less_divisor zero_less_numeral)
  moreover have "i < 16 \<Longrightarrow> (of_char (hex_digits ! i) :: nat) < 128" for i
    using hex_nth_lower [of i] by (auto simp: less_eq_char_def)
  ultimately show ?thesis by (auto simp: is_ascii_def)
qed

lemma storable_key: "storable m \<Longrightarrow> utf8_valid (octets (message_key m))"
proof -
  assume m: "storable m"
  show ?thesis
  proof (cases "m_topic m")
    case None
    with m show ?thesis
      by (simp add: message_key_def storable_def utf8_string_def utf8_append utf8_valid_ascii_append utf8_ascii)
  next
    case (Some x)
    have "utf8_valid (octets (''t:'' @ m_channel_id m @ '':'' @ x))"
      using m Some by (simp add: storable_def utf8_string_def utf8_append)
    with m Some show ?thesis
      by (simp add: message_key_def storable_def utf8_string_def utf8_append)
  qed
qed

lemma message_key_msg: "\<exists>y. message_key m = ''msg#'' @ y"
  by (cases "m_topic m") (simp_all add: message_key_def)

lemma message_family: "key_family (octets (message_key m)) = family_m"
  using message_key_msg [of m] by (auto simp: key_family_def m_key_def)

lemma utf8_expiry_key: "storable m \<Longrightarrow> is_ascii (m_id m) \<Longrightarrow> utf8_valid (octets (expiry_key m))"
proof -
  assume m: "storable m" "is_ascii (m_id m)"
  have "is_ascii (expiry_key m)" using m by (simp add: expiry_key_def)
  then show ?thesis by (rule utf8_ascii)
qed

definition inserted :: "message \<Rightarrow> (string \<Rightarrow> message option) \<Rightarrow> string \<Rightarrow> message option" where
  "inserted m ms = (\<lambda>i. if i = m_id m then Some m
     else (case ms i of None \<Rightarrow> None | Some m' \<Rightarrow> if replaces m m' then None else Some m'))"

text \<open>The table after the message row and the index row are written.\<close>

definition with_message :: "message \<Rightarrow> (byte list \<Rightarrow> cell list) \<Rightarrow> byte list \<Rightarrow> cell list" where
  "with_message m t = t(octets (message_key m) := apply_mutations (message_mutations m) (t (octets (message_key m))),
     octets (''mid#'' @ m_id m) := apply_mutation [] (set_cell family_m ''row'' (octets (message_key m)) (m_accepted m)))"

lemma key_not_mid: "octets (message_key m) \<noteq> octets (''mid#'' @ i)"
  using message_key_msg [of m] msg_mid_keys by metis

lemma mid_family: "key_family (octets (''mid#'' @ i)) = family_m"
  by (simp add: key_family_def m_key_def)

lemma family_m_key: "key_family k = family_m \<Longrightarrow> m_key k"
  by (simp add: key_family_def family_d_def family_m_def split: if_splits)

lemma with_message_layout:
  assumes "laid_out t" and "past t w" and m: "storable m" "is_ascii (m_id m)"
  shows "laid_out (with_message m t)" and "past (with_message m t) w"
proof -
  have stamp: "stampable (m_accepted m)" using m by (simp add: storable_def)
  have none: "not_after (m_accepted m * 1000) []" by (simp add: not_after_def)
  have mid: "utf8_valid (octets (''mid#'' @ m_id m))" using m(2) by (intro utf8_ascii) simp
  note index = apply_set_cell (1) [OF tidy_Nil none, of family_m "''row''" "octets (message_key m)"]
  have 1: "laid_out (t(octets (message_key m) := apply_mutations (message_mutations m) (t (octets (message_key m)))))"
    by (rule laid_out_upd [OF assms(1)], unfold message_family, rule message_cells_written(1) [OF stamp],
        rule storable_key [OF m(1)])
  show "laid_out (with_message m t)"
    unfolding with_message_def by (rule laid_out_upd [OF 1], unfold mid_family, rule index, rule mid)
  show "past (with_message m t) w"
    unfolding with_message_def
    by (rule past_upd, rule past_upd [OF assms(2)])
      (use family_m_key [OF message_family] family_m_key [OF mid_family] in blast)+
qed

lemma with_message_messages:
  assumes inv: "rows_indexed t" and "laid_out (with_message m t)" and m: "storable m" "is_ascii (m_id m)"
    and fresh: "t (octets (''mid#'' @ m_id m)) = []"
  shows "bt_messages (with_message m t) = inserted m (bt_messages t)" and "rows_indexed (with_message m t)"
proof -
  have stamp: "stampable (m_accepted m)" using m by (simp add: storable_def)
  have none: "not_after (m_accepted m * 1000) []" by (simp add: not_after_def)
  have 1: "content (with_message m t (octets (message_key m))) = written m"
    using message_cells_written(2) [OF stamp] key_not_mid by (simp only: with_message_def fun_upd_apply refl if_False if_True)
  have 2: "content (with_message m t (octets (''mid#'' @ m_id m))) = [octets ''row'' \<mapsto> octets (message_key m)]"
    using apply_set_cell(3) [OF tidy_Nil none, of family_m "''row''" "octets (message_key m)"]
    by (simp only: with_message_def fun_upd_apply refl if_True content_Nil)
  have 3: "with_message m t (octets (''msg#'' @ x)) = t (octets (''msg#'' @ x))" if "''msg#'' @ x \<noteq> message_key m" for x
    unfolding with_message_def using that msg_mid_keys by (metis fun_upd_other octets_inject)
  have 4: "with_message m t (octets (''mid#'' @ i)) = t (octets (''mid#'' @ i))" if "i \<noteq> m_id m" for i
    unfolding with_message_def using that key_not_mid by (metis fun_upd_other octets_inject same_append_eq)
  note facts = inserted_messages [OF inv m fresh laid_out_tidy [OF assms(2)] 1 2 storable_key [OF m(1)] 3 4]
  show "bt_messages (with_message m t) = inserted m (bt_messages t)" unfolding inserted_def by (rule facts(1))
  show "rows_indexed (with_message m t)" by (rule facts(2))
qed

lemma expiry_key_other:
  "octets (''msg#'' @ x) \<noteq> octets (expiry_key m)" "octets (''mid#'' @ x) \<noteq> octets (expiry_key m)"
  "\<not> m_key (octets (expiry_key m))"
  by (simp_all add: expiry_key_def m_key_def)

text \<open>The expiry index of a message that wants a receipt leaves the messages as they are.\<close>

lemma gives_put_expiry:
  fixes b :: "'t bigtable_store"
  assumes "serves re2 svc b tab" and "bt_inv tab (d, w)" and "storable m" "is_ascii (m_id m)"
  shows "gives (run_prog b64 svc (put b (expiry_key m) family_d cols)) (d, w) (\<lambda>_ (d', w'). bt_inv tab (d', w') \<and>
     world_le w w' \<and> bt_messages (tab d') = bt_messages (tab d))"
proof (rule gives_impl [OF gives_put [OF assms(1) bt_invD(1) [OF assms(2)] expiry_key_other(3) utf8_expiry_key [OF assms(3,4)]]])
  fix x d3 w3
  assume "case (d3, w3) of (d', w') \<Rightarrow> bt_ok tab (d', w') \<and> w' = snd (now_ms w) \<and>
     (\<forall>k. k \<noteq> octets (expiry_key m) \<longrightarrow> tab d' k = tab d k) \<and>
     content (tab d' (octets (expiry_key m))) =
       foldl (\<lambda>m (c, v). m(octets c \<mapsto> v)) (content (tab d (octets (expiry_key m)))) cols"
  then have 3: "bt_ok tab (d3, w3)" "w3 = snd (now_ms w)" "\<And>k. k \<noteq> octets (expiry_key m) \<Longrightarrow> tab d3 k = tab d k"
    by auto
  have same: "tab d3 (octets (''msg#'' @ x)) = tab d (octets (''msg#'' @ x))"
    "tab d3 (octets (''mid#'' @ x)) = tab d (octets (''mid#'' @ x))" for x
    by (rule 3(3), rule expiry_key_other)+
  have "world_le w w3" using world_le_now [of w "fst (now_ms w)"] 3(2) by simp
  then show "case (d3, w3) of (d', w') \<Rightarrow> bt_inv tab (d', w') \<and> world_le w w' \<and>
      bt_messages (tab d') = bt_messages (tab d)"
    using 3(1) bt_invD(2) [OF assms(2)] same_messages [of "tab d3" "tab d", OF same] by (simp add: bt_inv_def)
qed

lemma message_timestamped:
  assumes "storable m"
  shows "timestamped (message_mutations m)" "timestamped [set_cell family_m ''row'' v (m_accepted m)]"
proof -
  have stamp: "stampable (m_accepted m)" using assms by (simp add: storable_def)
  show "timestamped (message_mutations m)"
    unfolding message_mutations_cells timestamped_simps(2) by (rule timestamped_sets [OF stamp])
  show "timestamped [set_cell family_m ''row'' v (m_accepted m)]" using sint_stamp [OF stamp] by simp
qed

lemma bt_insert_message_gives:
  fixes b :: "'t bigtable_store"
  assumes "serves re2 svc b tab" and inv: "bt_inv tab (d, w)"
    and m: "storable m" "is_ascii (m_id m)" and fresh: "tab d (octets (''mid#'' @ m_id m)) = []"
  shows "gives (run_prog b64 svc (bt_insert_message b m)) (d, w) (\<lambda>_ (d', w'). bt_inv tab (d', w') \<and> world_le w w' \<and>
     bt_messages (tab d') = inserted m (bt_messages (tab d)))"
    (is "gives _ _ ?Q")
  unfolding bt_insert_message_def Let_def
proof (rule gives_bindI [OF gives_mutate [OF assms(1) message_timestamped(1) [OF m(1)]]],
    rule gives_bindI [OF gives_mutate [OF assms(1) message_timestamped(2) [OF m(1)]]])
  fix u1 d1 w1 u2 d2 w2
  assume "case (d1, w1) of (d', w') \<Rightarrow> w' = w \<and>
       tab d' = (tab d)(octets (message_key m) := apply_mutations (message_mutations m) (tab d (octets (message_key m))))"
    and "case (d2, w2) of (d', w') \<Rightarrow> w' = w1 \<and> tab d' = (tab d1)(octets (''mid#'' @ m_id m) :=
       apply_mutations [set_cell family_m ''row'' (octets (message_key m)) (m_accepted m)] (tab d1 (octets (''mid#'' @ m_id m))))"
  then have 2: "w2 = w" "tab d2 = with_message m (tab d)"
    unfolding with_message_def prod.case apply_mutations_simps
    using fresh key_not_mid [of m "m_id m"] key_not_mid [of m "m_id m", THEN not_sym]
    by (simp_all only: fun_upd_apply if_False)
  have ok: "laid_out (tab d)" "steady w" "past (tab d) w" using inv by (auto simp: bt_inv_def bt_ok_def)
  note layout = with_message_layout [OF ok(1,3) m]
  note new = with_message_messages [OF bt_invD(2) [OF inv] layout(1) m fresh]
  have inv2: "bt_inv tab (d2, w2)" using layout new(2) ok(2) by (simp add: bt_inv_def bt_ok_def 2)
  show "gives (run_prog b64 svc (if m_rsub m \<noteq> None
      then put b (expiry_key m) family_d [(''row'', octets (message_key m))] else done_with ())) (d2, w2) ?Q"
  proof (cases "m_rsub m")
    case None
    then show ?thesis using inv2 new(1) by (simp add: 2)
  next
    case (Some r)
    have "gives (run_prog b64 svc (put b (expiry_key m) family_d [(''row'', octets (message_key m))])) (d2, w2) ?Q"
      by (rule gives_impl [OF gives_put_expiry [OF assms(1) inv2 m]]) (use new(1) in \<open>simp add: 2\<close>)
    then show ?thesis by (simp add: Some)
  qed
qed

end
