(* ===== verification/Bigtable_Frame.thy ===== *)
theory Bigtable_Frame
  imports Bigtable_Routes Bigtable_Messages
begin

text \<open>
  Which rows a program of the adapter may write, read off the program itself; the rows it
  leaves alone keep what they stand for. So the routes survive every call on messages and the
  messages every call on routes.
\<close>

section \<open>The rows a program writes\<close>

text \<open>
  \<open>writes t K p Q\<close>: whatever the service answers, \<open>p\<close> mutates only rows of table \<open>t\<close> whose
  keys satisfy \<open>K\<close>, and what it returns satisfies \<open>Q\<close>.
\<close>

primrec writes :: "string \<Rightarrow> (byte list \<Rightarrow> bool) \<Rightarrow> ('t, 'a) prog \<Rightarrow> ('a \<Rightarrow> bool) \<Rightarrow> bool" where
  "writes t K (Return r) = (\<lambda>Q. case r of Inl e \<Rightarrow> True | Inr x \<Rightarrow> Q x)"
| "writes t K (MutateRow q k) = (\<lambda>Q. mr_table_name (gr_message q) = t \<and> K (mr_row_key (gr_message q)) \<and>
     timestamped (mr_mutations (gr_message q)) \<and> (\<forall>a. writes t K (k a) Q))"
| "writes t K (ReadRows q k) = (\<lambda>Q. rr_table_name (gr_message q) = t \<and> rr_rows (gr_message q) \<noteq> None \<and>
     rr_filter (gr_message q) \<noteq> None \<and> (\<forall>a. writes t K (k a) Q))"
| "writes t K (CheckAndMutateRow q k) = (\<lambda>Q. cm_table_name (gr_message q) = t \<and> K (cm_row_key (gr_message q)) \<and>
     cm_predicate_filter (gr_message q) \<noteq> None \<and> timestamped (cm_true_mutations (gr_message q)) \<and>
     (\<forall>a. writes t K (k a) Q))"
| "writes t K (GetTable q k) = (\<lambda>Q. False)"
| "writes t K (CreateTable q k) = (\<lambda>Q. False)"
| "writes t K (Connect q k) = (\<lambda>Q. \<forall>a. writes t K (k a) Q)"
| "writes t K (Credentials q k) = (\<lambda>Q. \<forall>a. writes t K (k a) Q)"
| "writes t K (AccessToken q k) = (\<lambda>Q. \<forall>a. writes t K (k a) Q)"
| "writes t K (NowMs k) = (\<lambda>Q. \<forall>a. stampable a \<longrightarrow> writes t K (k a) Q)"
| "writes t K (NewId k) = (\<lambda>Q. \<forall>a. writes t K (k a) Q)"
| "writes t K (NextSeq k) = (\<lambda>Q. \<forall>a. writes t K (k a) Q)"

lemma writes_impl: "writes t K p R \<Longrightarrow> (\<And>x. R x \<Longrightarrow> Q x) \<Longrightarrow> writes t K p Q"
  by (induction p) (auto split: sum.splits)

lemma writes_bind: "writes t K (bind_prog p f) Q \<longleftrightarrow> writes t K p (\<lambda>x. writes t K (f x) Q)"
  by (induction p) (auto split: sum.splits)

lemma writes_bindI:
  "writes t K p R \<Longrightarrow> (\<And>x. R x \<Longrightarrow> writes t K (f x) Q) \<Longrightarrow> writes t K (bind_prog p f) Q"
  unfolding writes_bind by (rule writes_impl)

lemma writes_done [simp]: "writes t K (done_with x) Q \<longleftrightarrow> Q x"
  by (simp add: done_with_def)

lemma writes_answer [simp]: "writes t K (answer r) Q \<longleftrightarrow> (\<forall>x. r = Inr x \<longrightarrow> Q x)"
  by (auto simp: answer_def split: sum.splits)

lemma writes_answered: "(\<And>x. Q x) \<Longrightarrow> writes t K (answered r) Q"
  by (auto simp: answered_def split: sum.splits)

section \<open>The frame\<close>

definition same_but :: "(byte list \<Rightarrow> bool) \<Rightarrow> (byte list \<Rightarrow> cell list) \<Rightarrow> (byte list \<Rightarrow> cell list) \<Rightarrow> bool" where
  "same_but K t t' \<longleftrightarrow> (\<forall>k. \<not> K k \<longrightarrow> t' k = t k)"

lemma same_but_refl [simp]: "same_but K t t"
  by (simp add: same_but_def)

lemma same_but_trans: "same_but K t t1 \<Longrightarrow> same_but K t1 t2 \<Longrightarrow> same_but K t t2"
  by (simp add: same_but_def)

lemma same_but_upd: "K k \<Longrightarrow> same_but K t (t(k := cs))"
  by (auto simp: same_but_def)

lemma same_butD: "same_but K t t' \<Longrightarrow> \<not> K k \<Longrightarrow> t' k = t k"
  by (simp add: same_but_def)

lemma steady_step:
  "steady w \<Longrightarrow> steady (snd (now_ms w))" "steady w \<Longrightarrow> steady (snd (new_id b64 w))" "steady w \<Longrightarrow> steady (snd (next_seq w))"
  by (simp_all add: steady_def new_id_def next_seq_def now_ms_def random_bytes_def Let_def split: prod.split)

lemma mutate_frame:
  assumes "serves_mutations svc t tab" and "mr_table_name (gr_message q) = t" and "K (mr_row_key (gr_message q))"
    and "timestamped (mr_mutations (gr_message q))"
  shows "same_but K (tab d) (tab (snd (gs_mutate_row svc q d)))"
proof -
  obtain r d' where r: "gs_mutate_row svc q d = (r, d')" by (cases "gs_mutate_row svc q d")
  then have "tab d' = (tab d)(mr_row_key (gr_message q) :=
      apply_mutations (mr_mutations (gr_message q)) (tab d (mr_row_key (gr_message q)))) \<or> tab d' = tab d"
    using assms(1,2,4) unfolding serves_mutations_def Let_def by blast
  then show ?thesis unfolding r using same_but_upd [of K, OF assms(3)] by auto
qed

lemma check_frame:
  assumes "serves_checks re2 svc t tab" and "cm_table_name (gr_message q) = t" and "K (cm_row_key (gr_message q))"
    and "cm_predicate_filter (gr_message q) \<noteq> None" and "timestamped (cm_true_mutations (gr_message q))"
  shows "same_but K (tab d) (tab (snd (gs_check_and_mutate_row svc q d)))"
proof -
  obtain r d' where r: "gs_check_and_mutate_row svc q d = (r, d')" by (cases "gs_check_and_mutate_row svc q d")
  obtain f where f: "cm_predicate_filter (gr_message q) = Some f" using assms(4) by blast
  let ?t = "(tab d)(cm_row_key (gr_message q) :=
      apply_mutations (cm_true_mutations (gr_message q)) (tab d (cm_row_key (gr_message q))))"
  have "(\<forall>x. r = Inr x \<longrightarrow> tab d' = ?t \<or> tab d' = tab d) \<and> (isl r \<longrightarrow> tab d' = ?t \<or> tab d' = tab d)"
    using assms(1,2,5) f r unfolding serves_checks_def Let_def by (metis (no_types, lifting))
  then have "tab d' = ?t \<or> tab d' = tab d" by (cases r) auto
  then show ?thesis unfolding r using same_but_upd [of K, OF assms(3)] by auto
qed

lemma read_frame:
  assumes "serves_reads re2 svc t tab" and "rr_table_name (gr_message q) = t"
    and "rr_rows (gr_message q) \<noteq> None" and "rr_filter (gr_message q) \<noteq> None"
  shows "tab (snd (gs_read_rows svc q d)) = tab d"
  using assms unfolding serves_reads_def by (metis option.exhaust prod.collapse)

lemma after_service_eq: "after_service f k (d, w) = k (fst (f d)) (snd (f d), w)"
  by (simp add: after_service_def split: prod.split)

lemma after_process_eq: "after_process f k (d, w) = k (fst (f w)) (d, snd (f w))"
  by (simp add: after_process_def split: prod.split)

text \<open>It holds of runs that fail as well.\<close>

lemma writes_frame:
  assumes "bigtable_service re2 svc t tab" and "writes t K p Q" and "steady w"
  shows "same_but K (tab d) (tab (fst (snd (run_prog b64 svc p (d, w)))))"
  using assms(2,3)
proof (induction p arbitrary: d w)
  case (MutateRow q k)
  have "same_but K (tab d) (tab (snd (gs_mutate_row svc q d)))"
    using MutateRow.prems assms(1) by (intro mutate_frame) (auto simp: bigtable_service_def)
  then show ?case using MutateRow by (auto simp: after_service_eq elim: same_but_trans)
next
  case (ReadRows q k)
  have "tab (snd (gs_read_rows svc q d)) = tab d"
    using ReadRows.prems assms(1) by (intro read_frame) (auto simp: bigtable_service_def)
  then show ?case using ReadRows.IH [OF rangeI _ ReadRows.prems(2)] ReadRows.prems(1)
    by (auto simp: after_service_eq) metis
next
  case (CheckAndMutateRow q k)
  have "same_but K (tab d) (tab (snd (gs_check_and_mutate_row svc q d)))"
    using CheckAndMutateRow.prems assms(1) by (intro check_frame) (auto simp: bigtable_service_def)
  then show ?case using CheckAndMutateRow by (auto simp: after_service_eq elim: same_but_trans)
next
  case (Connect q k)
  have "tab (snd (gs_connect svc q d)) = tab d"
    using assms(1) by (cases q) (simp add: bigtable_service_def leaves_rows_def)
  then show ?case using Connect.IH [OF rangeI _ Connect.prems(2)] Connect.prems(1)
    by (auto simp: after_service_eq) metis
next
  case (Credentials q k)
  have "tab (snd (gs_credentials svc q d)) = tab d" using assms(1) by (simp add: bigtable_service_def leaves_rows_def)
  then show ?case using Credentials.IH [OF rangeI _ Credentials.prems(2)] Credentials.prems(1)
    by (auto simp: after_service_eq) metis
next
  case (AccessToken q k)
  have "tab (snd (gs_token svc q d)) = tab d" using assms(1) by (simp add: bigtable_service_def leaves_rows_def)
  then show ?case using AccessToken.IH [OF rangeI _ AccessToken.prems(2)] AccessToken.prems(1)
    by (auto simp: after_service_eq) metis
next
  case (NowMs k)
  have "stampable (fst (now_ms w))" using now_ms_steady NowMs.prems(2) by blast
  then show ?case using NowMs steady_step(1) by (simp add: after_process_eq)
next
  case (NewId k)
  then show ?case using steady_step(2) by (simp add: after_process_eq)
next
  case (NextSeq k)
  then show ?case using steady_step(3) by (simp add: after_process_eq)
qed simp_all

lemma gives_frame:
  fixes b :: "'t bigtable_store"
  assumes "serves re2 svc b tab" and "bt_ok tab (d, w)" and "writes (bs_table b) K p Q"
    and "gives (run_prog b64 svc p) (d, w) (\<lambda>x (d', w'). R x d' w')"
  shows "gives (run_prog b64 svc p) (d, w) (\<lambda>x (d', w'). R x d' w' \<and> same_but K (tab d) (tab d'))"
proof -
  have "same_but K (tab d) (tab (fst (snd (run_prog b64 svc p (d, w)))))"
    using assms(1-3) by (intro writes_frame [where Q = Q]) (auto simp: serves_def bt_ok_def)
  then show ?thesis using assms(4) by (auto simp: gives_def)
qed

section \<open>The primitives\<close>

lemma writes_with_token: "writes t K (with_token cl source md) (\<lambda>_. True)"
  by (auto simp: with_token_def writes_bind metadata_value_def split: option.splits)

lemma writes_table_request: "writes t K (table_request b m) (\<lambda>q. gr_message q = m)"
  unfolding table_request_def authorized_request_def metadata_value_def writes_bind
  by (simp add: writes_impl [OF writes_with_token])

lemma writes_mutate:
  fixes b :: "'t bigtable_store"
  assumes "K (octets key)" and "timestamped ms"
  shows "writes (bs_table b) K (mutate b key ms) (\<lambda>_. True)"
  unfolding mutate_def by (rule writes_bindI [OF writes_table_request]) (use assms in \<open>simp add: writes_answered\<close>)

lemma writes_mutate_if:
  fixes b :: "'t bigtable_store"
  assumes "K (octets key)" and "timestamped ms"
  shows "writes (bs_table b) K (mutate_if b key f ms) (\<lambda>_. True)"
  unfolding mutate_if_def by (rule writes_bindI [OF writes_table_request]) (use assms in \<open>simp add: writes_answered\<close>)

lemma writes_put:
  fixes b :: "'t bigtable_store"
  assumes "K (octets key)"
  shows "writes (bs_table b) K (put b key f cols) (\<lambda>_. True)"
  by (simp add: put_def writes_mutate assms timestamped_sets)

lemma timestamped_delete [simp]: "timestamped [delete_row]"
  by (simp add: timestamped_def delete_row_def)

lemma writes_delete_key:
  fixes b :: "'t bigtable_store"
  assumes "K (octets key)"
  shows "writes (bs_table b) K (delete_key b key) (\<lambda>_. True)"
  by (simp add: delete_key_def writes_mutate assms)

lemma writes_read_rows: "writes (bs_table b) K (read_rows b rs) (\<lambda>_. True)"
  unfolding read_rows_def
  by (rule writes_bindI [OF writes_table_request]) (auto simp: writes_bind intro!: writes_answered)

lemma writes_get_row: "writes (bs_table b) K (get_row b key) (\<lambda>_. True)"
  unfolding get_row_def by (rule writes_bindI [OF writes_read_rows]) simp

section \<open>Messages\<close>

lemma message_row_key: "message_from_row key r = Some m \<Longrightarrow> \<exists>x. key = ''msg#'' @ x"
  by (auto simp: message_from_row_def strip_prefix_Some_iff split: bind_splits)

lemma writes_locate:
  "writes (bs_table b) K (locate b i) (\<lambda>r. \<forall>key m. r = Some (key, m) \<longrightarrow> m_id m = i \<and> (\<exists>x. key = ''msg#'' @ x))"
  unfolding locate_def
  by (rule writes_bindI [OF writes_get_row])
    (auto simp: writes_bind intro!: writes_impl [OF writes_get_row] split: option.split dest: message_row_key)

definition removal_rows :: "string \<Rightarrow> byte list \<Rightarrow> bool" where
  "removal_rows i k \<longleftrightarrow> (\<exists>x. k = octets (''msg#'' @ x)) \<or> k = octets (''mid#'' @ i)"

lemma writes_remove_message:
  fixes b :: "'t bigtable_store"
  assumes "K (octets key)" and "K (octets (''mid#'' @ m_id m))"
  shows "writes (bs_table b) K (bt_remove_message b key m) (\<lambda>_. True)"
  unfolding bt_remove_message_def delete_message_row_def
  by (rule writes_bindI [OF writes_mutate_if [of K, OF assms(1)]])
    (auto simp: writes_bind simp del: append.simps intro: writes_impl [OF writes_delete_key [of K, OF assms(2)]])

lemma writes_delete_message:
  fixes b :: "'t bigtable_store"
  shows "writes (bs_table b) (removal_rows i) (bt_delete_message b i owner) (\<lambda>_. True)"
  unfolding bt_delete_message_def
proof (rule writes_bindI [OF writes_locate])
  fix r :: "(string \<times> message) option"
  assume r: "\<forall>key m. r = Some (key, m) \<longrightarrow> m_id m = i \<and> (\<exists>x. key = ''msg#'' @ x)"
  have "writes (bs_table b) (removal_rows i) (bind_prog (bt_remove_message b key m)
      (\<lambda>removed. done_with (if removed then Some m else None))) (\<lambda>_. True)" if "r = Some (key, m)" for key m
    by (rule writes_bindI [OF writes_remove_message]) (use r that in \<open>auto simp: removal_rows_def\<close>)
  then show "writes (bs_table b) (removal_rows i) (case r of None \<Rightarrow> done_with None | Some (key, m) \<Rightarrow>
     if (case owner of None \<Rightarrow> False | Some (uaid, ch) \<Rightarrow> m_uaid m \<noteq> uaid \<or> m_channel_id m \<noteq> ch)
     then done_with None
     else bind_prog (bt_remove_message b key m) (\<lambda>removed. done_with (if removed then Some m else None))) (\<lambda>_. True)"
    by (auto split: option.split)
qed

definition insertion_rows :: "message \<Rightarrow> byte list \<Rightarrow> bool" where
  "insertion_rows m k \<longleftrightarrow> k = octets (message_key m) \<or> k = octets (''mid#'' @ m_id m) \<or> k = octets (expiry_key m)"

lemma writes_insert_message:
  fixes b :: "'t bigtable_store"
  assumes "storable m"
  shows "writes (bs_table b) (insertion_rows m) (bt_insert_message b m) (\<lambda>_. True)"
  unfolding bt_insert_message_def Let_def
  by (intro writes_bindI [OF writes_mutate] writes_bindI [OF writes_mutate])
    (auto simp: insertion_rows_def writes_put simp del: append.simps timestamped_simps
      intro: message_timestamped [OF assms])

section \<open>What the views read\<close>

definition route_row :: "byte list \<Rightarrow> bool" where
  "route_row k \<longleftrightarrow> (\<exists>to. k = octets (route_key to))"

definition index_row :: "byte list \<Rightarrow> bool" where
  "index_row k \<longleftrightarrow> (\<exists>i. k = octets (''mid#'' @ i))"

lemma routes_frame:
  assumes "same_but K t t'" and "\<And>k. route_row k \<Longrightarrow> \<not> K k"
  shows "bt_routes t' = bt_routes t"
proof
  fix to
  have "t' (octets (route_key to)) = t (octets (route_key to))"
    by (rule same_butD [OF assms(1)]) (use assms(2) in \<open>auto simp: route_row_def\<close>)
  then have "row_at t' (route_key to) = row_at t (route_key to)" by (rule row_at_cong)
  then show "bt_routes t' to = bt_routes t to" by (simp add: bt_routes_def)
qed

lemma messages_frame:
  assumes "same_but K t t'" and "\<And>k. m_key k \<Longrightarrow> \<not> K k"
  shows "bt_messages t' = bt_messages t" and "rows_indexed t' = rows_indexed t"
    and "t' (octets (''mid#'' @ i)) = t (octets (''mid#'' @ i))"
proof -
  have msg: "t' (octets (''msg#'' @ x)) = t (octets (''msg#'' @ x))" for x
    by (rule same_butD [OF assms(1) assms(2)], rule m_key_simps(1))
  have mid: "t' (octets (''mid#'' @ x)) = t (octets (''mid#'' @ x))" for x
    by (rule same_butD [OF assms(1) assms(2)], rule m_key_simps(2))
  show "bt_messages t' = bt_messages t" and "rows_indexed t' = rows_indexed t"
    using same_messages [of t' t, OF msg mid] by simp_all
  show "t' (octets (''mid#'' @ i)) = t (octets (''mid#'' @ i))" by (rule mid)
qed

lemma route_not_m_key: "route_row k \<Longrightarrow> \<not> m_key k"
  by (auto simp: route_row_def)

lemma removal_m_key: "removal_rows i k \<Longrightarrow> m_key k"
  unfolding removal_rows_def using m_key_simps(1,2) by blast

lemma message_key_m_key: "m_key (octets (message_key m))"
  using message_key_msg [of m] m_key_simps(1) by metis

lemma route_not_removal: "route_row k \<Longrightarrow> \<not> removal_rows i k"
  using route_not_m_key removal_m_key by blast

lemma route_not_expiry: "octets (route_key to) \<noteq> octets (expiry_key m)"
  by (cases to) (simp_all add: expiry_key_def octets_inject)

lemma route_not_insertion: "route_row k \<Longrightarrow> \<not> insertion_rows m k"
proof
  assume k: "route_row k" and "insertion_rows m k"
  then have "m_key k \<or> k = octets (expiry_key m)"
    unfolding insertion_rows_def by (elim disjE) (simp_all only: message_key_m_key m_key_simps simp_thms)
  then have "k = octets (expiry_key m)" using route_not_m_key [OF k] by (elim disjE) simp
  moreover obtain to where "k = octets (route_key to)" using k unfolding route_row_def by (elim exE)
  ultimately show False using route_not_expiry [of to m] by simp
qed

end
