(* ===== verification/Bigtable_Pending.thy ===== *)
theory Bigtable_Pending
  imports Bigtable_Frame
begin

text \<open>
  The backlog of a user agent: the rows under its prefix are its messages, each once, and
  sorting them by acceptance and identifier gives the order the trait promises.
\<close>

text \<open>The messages the rows of a scan decode to.\<close>

definition scanned :: "(string \<times> row) list \<Rightarrow> message list" where
  "scanned rows = List.map_filter (\<lambda>(key, r). message_from_row key r) rows"

lemma octets_prefix:
  assumes "octets k = octets p @ x"
  shows "\<exists>y. k = p @ y"
proof -
  have "take (length p) (octets k) = octets p" unfolding assms by (simp add: octets_def)
  then have "octets (take (length p) k) = octets p" by (simp add: octets_def take_map)
  then have "take (length p) k = p" by (simp add: octets_inject)
  then show ?thesis by (metis append_take_drop_id)
qed

lemma message_key_uaid: "\<exists>y. message_key m = ''msg#'' @ m_uaid m @ ''#'' @ y"
  by (cases "m_topic m") (simp_all add: message_key_def)

lemma message_key_owner:
  assumes "CHR ''#'' \<notin> set (m_uaid m)" and "CHR ''#'' \<notin> set u" and "message_key m = ''msg#'' @ u @ ''#'' @ y"
  shows "m_uaid m = u"
proof -
  obtain z where "message_key m = ''msg#'' @ m_uaid m @ ''#'' @ z" using message_key_uaid by blast
  then show ?thesis using assms append_no_sep [OF assms(1,2), of z y] by simp
qed

lemma scan_row:
  assumes rows: "rows_of (key_prefix ((''msg#'' @ u) @ ''#'')) t rows" and tidy: "tidy_rows t"
    and inv: "rows_indexed t" and u: "CHR ''#'' \<notin> set u" and x: "(key, r) \<in> set rows"
  obtains m where "message_from_row key r = Some m" "decoded t key = Some m" "m_uaid m = u" "bt_messages t (m_id m) = Some m"
proof -
  have row: "wanted (key_prefix ((''msg#'' @ u) @ ''#'')) (octets key)" "t (octets key) \<noteq> []" "hget r = content (t (octets key))"
    using rows x by (auto simp: rows_of_def)
  then obtain z where "octets key = octets ((''msg#'' @ u) @ ''#'') @ z" unfolding wanted_key_prefix by blast
  then obtain y where key: "key = ''msg#'' @ u @ ''#'' @ y" using octets_prefix [of key "(''msg#'' @ u) @ ''#''" z] by auto
  then obtain m where m: "storable m" "message_key m = key" "decoded t key = Some m"
    using inv row(2) unfolding rows_indexed_def by blast
  have "hget r = hget (row_at t key)" by (simp add: row(3) hget_row_at [OF tidy])
  then have "message_from_row key r = decoded t key" unfolding decoded_def by (rule message_from_row_cong)
  moreover have "m_uaid m = u"
    by (rule message_key_owner [OF _ u]) (use m key in \<open>simp_all add: storable_def\<close>)
  ultimately show ?thesis using that m(3) bt_messages_row(1) [OF inv m(3)] by metis
qed

lemma scanned_set:
  assumes rows: "rows_of (key_prefix ((''msg#'' @ u) @ ''#'')) t rows" and tidy: "tidy_rows t"
    and inv: "rows_indexed t" and u: "CHR ''#'' \<notin> set u"
  shows "m \<in> set (scanned rows) \<longleftrightarrow> bt_messages t (m_id m) = Some m \<and> m_uaid m = u"
proof
  assume "m \<in> set (scanned rows)"
  then obtain key r where "(key, r) \<in> set rows" "message_from_row key r = Some m"
    by (auto simp: scanned_def List.map_filter_def)
  then show "bt_messages t (m_id m) = Some m \<and> m_uaid m = u"
    using scan_row [OF assms] by (metis option.inject)
next
  assume m: "bt_messages t (m_id m) = Some m \<and> m_uaid m = u"
  then obtain key where key: "decoded t key = Some m" by (blast elim: bt_messages_SomeD)
  have "message_key m = key" by (rule bt_messages_row(3) [OF inv key])
  then obtain y where "key = (''msg#'' @ u) @ ''#'' @ y" using message_key_uaid [of m] m by auto
  then have "octets key = octets ((''msg#'' @ u) @ ''#'') @ octets y" by simp
  then have "wanted (key_prefix ((''msg#'' @ u) @ ''#'')) (octets key)" unfolding wanted_key_prefix by blast
  moreover have "t (octets key) \<noteq> []" using key decoded_absent by force
  ultimately obtain r where r: "(key, r) \<in> set rows" using rows by (force simp: rows_of_def)
  then obtain m' where "message_from_row key r = Some m'" "decoded t key = Some m'" using scan_row [OF assms] by metis
  with r key show "m \<in> set (scanned rows)" by (force simp: scanned_def List.map_filter_def)
qed

lemma scanned_distinct:
  assumes rows: "rows_of (key_prefix ((''msg#'' @ u) @ ''#'')) t rows" and tidy: "tidy_rows t"
    and inv: "rows_indexed t" and u: "CHR ''#'' \<notin> set u"
  shows "distinct (map m_id (scanned rows))"
proof -
  have "indexed t (m_id m) = Some key" if "(key, r) \<in> set rows" "message_from_row key r = Some m" for key r m
    using scan_row [OF assms that(1)] that(2) bt_messages_row(5) [OF inv] by (metis option.inject)
  moreover have "sorted_wrt (<) (map (\<lambda>x. octets (fst x)) rows)" using rows by (simp add: rows_of_def)
  then have "distinct (map fst rows)"
    by (simp add: strict_sorted_iff distinct_map) (metis (mono_tags, lifting) inj_on_def)
  ultimately show ?thesis
    unfolding scanned_def
  proof (induction rows)
    case (Cons x rows)
    obtain key r where x: "x = (key, r)" by (cases x)
    have ih: "distinct (map m_id (List.map_filter (\<lambda>(key, r). message_from_row key r) rows))"
      using Cons.prems by (intro Cons.IH) (auto simp del: split_paired_All)
    have "m_id m \<noteq> m_id m'" if "message_from_row key r = Some m" "(key', r') \<in> set rows" "message_from_row key' r' = Some m'"
      for m key' r' m'
      using Cons.prems(1) [of key r m] Cons.prems(1) [of key' r' m'] Cons.prems(2) that by (force simp: x)
    then show ?case using ih by (auto simp: x List.map_filter_def split: option.split)
  qed (simp add: List.map_filter_def)
qed

lemma bt_pending_gives:
  fixes b :: "'t bigtable_store"
  assumes "serves re2 svc b tab" and inv: "bt_inv tab (d, w)" and u: "CHR ''#'' \<notin> set u" and sp: "sp_msgs sp = bt_messages (tab d)"
  shows "gives (run_prog b64 svc (bt_pending b u now limit)) (d, w) (\<lambda>ms (d', w'). w' = w \<and> tab d' = tab d \<and>
     spec_pending sp u now limit ms)"
  unfolding bt_pending_def
proof (rule gives_bindI [OF gives_read_rows [OF assms(1) bt_ok_tidy [OF bt_invD(1) [OF inv]]]], unfold gives_done)
  fix rows d1 w1
  assume "case (d1, w1) of (d', w') \<Rightarrow> w' = w \<and> tab d' = tab d \<and> rows_of (key_prefix (''msg#'' @ u @ ''#'')) (tab d) rows"
  then have 1: "w1 = w" "tab d1 = tab d" and rows: "rows_of (key_prefix ((''msg#'' @ u) @ ''#'')) (tab d) rows" by simp_all
  note facts = rows bt_ok_tidy [OF bt_invD(1) [OF inv]] bt_invD(2) [OF inv] u
  let ?ms = "filter (\<lambda>m. m_expiry m > now) (scanned rows)"
  have "set (oldest_first ?ms) = {m. deliverable sp u now m}"
    using scanned_set [OF facts] by (auto simp: oldest_first_def deliverable_def sp)
  moreover have "sorted_wrt older (oldest_first ?ms)"
    by (rule sorted_older) (rule distinct_map_filter [OF scanned_distinct [OF facts]])
  ultimately have "spec_pending sp u now limit (take limit (oldest_first ?ms))" unfolding spec_pending_def by blast
  then show "case (d1, w1) of (d', w') \<Rightarrow> w' = w \<and> tab d' = tab d \<and>
     spec_pending sp u now limit (take limit (sort_key (\<lambda>m. (m_accepted m, m_id m))
       (filter (\<lambda>m. m_expiry m > now) (List.map_filter (\<lambda>(key, r). message_from_row key r) rows))))"
    using 1 by (simp add: scanned_def oldest_first_def)
qed

end
