(* ===== verification/Store_Calls.thy ===== *)
theory Store_Calls
  imports Memory_Contract
begin

text \<open>
  Sequences of calls to a store. An adapter whose every call agrees with a specification
  agrees with it over whole sequences of calls; the specification of the calls on messages and
  routes determines their answers, so two such adapters give the same ones.
\<close>

section \<open>Calls\<close>

datatype store_call =
    CallInsert message
  | CallPending string u64 nat
  | CallMessage string
  | CallDelete string "(string \<times> string) option"
  | CallSetRoute recipient string
  | CallRoute recipient
  | CallClearRoute recipient string

datatype store_answer =
    AnsDone
  | AnsMessages "message list"
  | AnsMessage "message option"
  | AnsNode "string option"
  | AnsFlag bool

definition with_answer :: "('a \<Rightarrow> 'b) \<Rightarrow> ('s, 'a) store_op \<Rightarrow> ('s, 'b) store_op" where
  "with_answer g f sw = (case f sw of (r, sw') \<Rightarrow> (map_sum id g r, sw'))"

lemma gives_with_answer [simp]:
  fixes f :: "('s, 'a) store_op"
  shows "gives (with_answer g f) sw Q \<longleftrightarrow> gives f sw (\<lambda>x. Q (g x))"
proof -
  have "(map_sum id g r = Inr x) = (\<exists>y. r = Inr y \<and> x = g y)" for r :: "box_error + 'a" and x
    by (cases r) auto
  then show ?thesis by (auto simp: gives_def with_answer_def split: prod.splits)
qed

fun call_store :: "'s store \<Rightarrow> store_call \<Rightarrow> ('s, store_answer) store_op" where
  "call_store S (CallInsert m) = with_answer (\<lambda>_. AnsDone) (so_insert_message S m)"
| "call_store S (CallPending u now limit) = with_answer AnsMessages (so_pending S u now limit)"
| "call_store S (CallMessage i) = with_answer AnsMessage (so_message S i)"
| "call_store S (CallDelete i owner) = with_answer AnsMessage (so_delete_message S i owner)"
| "call_store S (CallSetRoute to node) = with_answer AnsNode (so_set_route S to node)"
| "call_store S (CallRoute to) = with_answer AnsNode (so_route S to)"
| "call_store S (CallClearRoute to node) = with_answer AnsFlag (so_clear_route S to node)"

fun spec_call :: "store_call \<Rightarrow> spec \<Rightarrow> store_answer \<Rightarrow> spec \<Rightarrow> bool" where
  "spec_call (CallInsert m) sp a sp' \<longleftrightarrow> a = AnsDone \<and> sp' = spec_insert_message m sp"
| "spec_call (CallPending u now limit) sp a sp' \<longleftrightarrow>
     (\<exists>ms. a = AnsMessages ms \<and> spec_pending sp u now limit ms) \<and> sp' = sp"
| "spec_call (CallMessage i) sp a sp' \<longleftrightarrow> a = AnsMessage (sp_msgs sp i) \<and> sp' = sp"
| "spec_call (CallDelete i owner) sp a sp' \<longleftrightarrow>
     a = AnsMessage (fst (spec_delete_message i owner sp)) \<and> sp' = snd (spec_delete_message i owner sp)"
| "spec_call (CallSetRoute to node) sp a sp' \<longleftrightarrow>
     a = AnsNode (fst (spec_set_route to node sp)) \<and> sp' = snd (spec_set_route to node sp)"
| "spec_call (CallRoute to) sp a sp' \<longleftrightarrow> a = AnsNode (sp_routes sp to) \<and> sp' = sp"
| "spec_call (CallClearRoute to node) sp a sp' \<longleftrightarrow>
     a = AnsFlag (fst (spec_clear_route to node sp)) \<and> sp' = snd (spec_clear_route to node sp)"

section \<open>Sequences of calls\<close>

fun run_calls :: "('c \<Rightarrow> ('s, 'a) store_op) \<Rightarrow> 'c list \<Rightarrow> ('s, 'a list) store_op" where
  "run_calls call [] sw = (Inr [], sw)"
| "run_calls call (c # cs) sw =
     (case call c sw of
        (Inl e, sw) \<Rightarrow> (Inl e, sw)
      | (Inr a, sw) \<Rightarrow>
          (case run_calls call cs sw of
             (Inl e, sw) \<Rightarrow> (Inl e, sw)
           | (Inr as, sw) \<Rightarrow> (Inr (a # as), sw)))"

fun spec_trace :: "('c \<Rightarrow> 'v \<Rightarrow> 'a \<Rightarrow> 'v \<Rightarrow> bool) \<Rightarrow> 'c list \<Rightarrow> 'v \<Rightarrow> 'a list \<Rightarrow> 'v \<Rightarrow> bool" where
  "spec_trace spec [] v as v' \<longleftrightarrow> as = [] \<and> v' = v"
| "spec_trace spec (c # cs) v as v' \<longleftrightarrow> (\<exists>a as' v1. as = a # as' \<and> spec c v a v1 \<and> spec_trace spec cs v1 as' v')"

lemma run_calls_length: "run_calls call cs sw = (Inr as, sw') \<Longrightarrow> length as = length cs"
  by (induction cs arbitrary: sw as) (auto split: prod.splits sum.splits)

text \<open>Each call fits the calls before it.\<close>

fun all_fit :: "('c list \<Rightarrow> 'c \<Rightarrow> bool) \<Rightarrow> 'c list \<Rightarrow> 'c list \<Rightarrow> bool" where
  "all_fit fits h [] \<longleftrightarrow> True"
| "all_fit fits h (c # cs) \<longleftrightarrow> fits h c \<and> all_fit fits (h @ [c]) cs"

locale implements_calls =
  fixes call :: "'c \<Rightarrow> ('s, 'a) store_op" and spec :: "'c \<Rightarrow> 'v \<Rightarrow> 'a \<Rightarrow> 'v \<Rightarrow> bool"
    and view :: "'s \<Rightarrow> 'v" and inv :: "'c list \<Rightarrow> 's \<times> world \<Rightarrow> bool" and fits :: "'c list \<Rightarrow> 'c \<Rightarrow> bool"
  assumes call_ok: "inv h sw \<Longrightarrow> fits h c \<Longrightarrow> gives (call c) sw (\<lambda>a sw'. inv (h @ [c]) sw' \<and>
     spec c (view (fst sw)) a (view (fst sw')))"
begin

lemma calls_ok:
  "inv h sw \<Longrightarrow> all_fit fits h cs \<Longrightarrow> gives (run_calls call cs) sw (\<lambda>as sw'. inv (h @ cs) sw' \<and>
     spec_trace spec cs (view (fst sw)) as (view (fst sw')))"
proof (induction cs arbitrary: h sw)
  case Nil
  then show ?case by (cases sw) (simp add: gives_def)
next
  case (Cons c cs)
  show ?case unfolding gives_def
  proof (intro allI impI)
    fix as sw' assume "run_calls call (c # cs) sw = (Inr as, sw')"
    then obtain a sw1 as1 where c: "call c sw = (Inr a, sw1)" and cs: "run_calls call cs sw1 = (Inr as1, sw')"
      and as: "as = a # as1"
      by (auto split: prod.splits sum.splits)
    have 1: "inv (h @ [c]) sw1" "spec c (view (fst sw)) a (view (fst sw1))"
      using givesD [OF call_ok [OF Cons.prems(1)] c] Cons.prems(2) by auto
    have 2: "inv ((h @ [c]) @ cs) sw'" "spec_trace spec cs (view (fst sw1)) as1 (view (fst sw'))"
      using givesD [OF Cons.IH [OF 1(1)] cs] Cons.prems(2) by auto
    then show "inv (h @ c # cs) sw' \<and> spec_trace spec (c # cs) (view (fst sw)) as (view (fst sw'))"
      using 1(2) as by auto
  qed
qed

end

section \<open>Messages and routes\<close>

text \<open>The part of an abstract store these calls look at.\<close>

definition part :: "spec \<Rightarrow> spec" where
  "part sp = \<lparr>sp_uas = Map.empty, sp_subs = Map.empty, sp_msgs = sp_msgs sp,
     sp_queues = Map.empty, sp_routes = sp_routes sp\<rparr>"

lemma part_fields [simp]: "sp_msgs (part sp) = sp_msgs sp" "sp_routes (part sp) = sp_routes sp"
  by (simp_all add: part_def)

lemma part_insert: "part (spec_insert_message m sp) = spec_insert_message m (part sp)"
  by (simp add: part_def spec_insert_message_def fun_eq_iff)

lemma part_delete:
  "fst (spec_delete_message i owner (part sp)) = fst (spec_delete_message i owner sp)"
  "snd (spec_delete_message i owner (part sp)) = part (snd (spec_delete_message i owner sp))"
  by (auto simp: part_def spec_delete_message_def split: option.splits)

lemma part_pending: "spec_pending (part sp) u now limit ms \<longleftrightarrow> spec_pending sp u now limit ms"
  by (simp add: spec_pending_def deliverable_def)

lemma part_set_route:
  "fst (spec_set_route to node (part sp)) = fst (spec_set_route to node sp)"
  "snd (spec_set_route to node (part sp)) = part (snd (spec_set_route to node sp))"
  by (simp_all add: part_def spec_set_route_def)

lemma part_clear_route:
  "fst (spec_clear_route to node (part sp)) = fst (spec_clear_route to node sp)"
  "snd (spec_clear_route to node (part sp)) = part (snd (spec_clear_route to node sp))"
  by (simp_all add: part_def spec_clear_route_def)

lemma spec_call_part: "spec_call c sp a sp' \<Longrightarrow> spec_call c (part sp) a (part sp')"
  by (cases c) (auto simp: part_insert part_delete part_pending part_set_route part_clear_route)

text \<open>The specification leaves no choice.\<close>

lemma spec_pending_unique:
  assumes "spec_pending sp u now limit ms" and "spec_pending sp u now limit ms'"
  shows "ms = ms'"
proof -
  obtain a b where a: "set a = {m. deliverable sp u now m}" "sorted_wrt older a" "ms = take limit a"
    and b: "set b = {m. deliverable sp u now m}" "sorted_wrt older b" "ms' = take limit b"
    using assms unfolding spec_pending_def by blast
  have "a = b" using a(2) b(2) a(1) [folded b(1)]
  proof (induction a arbitrary: b)
    case (Cons x xs)
    have irr: "\<not> older x x" "\<And>x y. older x y \<Longrightarrow> \<not> older y x" for x by (auto simp: older_def)
    obtain y ys where b: "b = y # ys" using Cons.prems(3) by (cases b) auto
    have "x = y"
    proof (rule ccontr)
      assume "x \<noteq> y"
      then have "x \<in> set ys" "y \<in> set xs" using Cons.prems(3) by (auto simp: b)
      then show False using Cons.prems(1,2) irr(2) by (auto simp: b)
    qed
    moreover have "x \<notin> set xs" "y \<notin> set ys" using Cons.prems(1,2) irr(1) by (auto simp: b)
    ultimately have "set xs = set ys" using Cons.prems(3) by (auto simp: b)
    then show ?case using Cons \<open>x = y\<close> by (auto simp: b)
  qed simp
  then show ?thesis using a b by simp
qed

lemma spec_call_unique: "spec_call c sp a sp1 \<Longrightarrow> spec_call c sp a' sp2 \<Longrightarrow> a' = a \<and> sp2 = sp1"
  by (cases c) (auto dest: spec_pending_unique)

lemma spec_trace_unique:
  "spec_trace spec_call cs sp as sp1 \<Longrightarrow> spec_trace spec_call cs sp as' sp2 \<Longrightarrow> as' = as \<and> sp2 = sp1"
proof (induction cs arbitrary: sp as as')
  case (Cons c cs)
  then show ?case using spec_call_unique by (auto 0 3 dest: spec_call_unique)
qed simp

text \<open>A message is stored once, under an identifier no message had.\<close>

fun inserted_ids :: "store_call list \<Rightarrow> string set" where
  "inserted_ids [] = {}"
| "inserted_ids (CallInsert m # h) = insert (m_id m) (inserted_ids h)"
| "inserted_ids (_ # h) = inserted_ids h"

lemma inserted_ids_append [simp]: "inserted_ids (h @ h') = inserted_ids h \<union> inserted_ids h'"
  by (induction h rule: inserted_ids.induct) auto

definition only_new :: "store_call list \<Rightarrow> store_call \<Rightarrow> bool" where
  "only_new h c \<longleftrightarrow> (\<forall>m. c = CallInsert m \<longrightarrow> m_id m \<notin> inserted_ids h)"

definition known_ids :: "('s \<Rightarrow> spec) \<Rightarrow> ('s \<times> world \<Rightarrow> bool) \<Rightarrow> store_call list \<Rightarrow> 's \<times> world \<Rightarrow> bool" where
  "known_ids view ok h sw \<longleftrightarrow> ok sw \<and> dom (sp_msgs (view (fst sw))) \<subseteq> inserted_ids h"

lemma spec_call_ids:
  assumes "spec_call c sp a sp'" and "dom (sp_msgs sp) \<subseteq> inserted_ids h"
  shows "dom (sp_msgs sp') \<subseteq> inserted_ids (h @ [c])"
proof (cases c)
  case (CallInsert m)
  have old: "i \<in> inserted_ids h" if "sp_msgs sp i = Some x" for i x using assms(2) that by blast
  show ?thesis using assms(1) CallInsert old by (auto simp: spec_insert_message_def split: option.splits if_splits)
next
  case (CallDelete i owner)
  then show ?thesis using assms by (auto simp: spec_delete_message_def split: option.splits if_splits)
qed (use assms in \<open>auto simp: spec_set_route_def spec_clear_route_def\<close>)

text \<open>Every adapter that keeps the contract answers as specified.\<close>

context full_store
begin

lemma store_call_ok:
  assumes "inv sw" and "\<And>m. c = CallInsert m \<Longrightarrow> sp_msgs (view (fst sw)) (m_id m) = None"
  shows "gives (call_store S c) sw (\<lambda>a sw'. inv sw' \<and> spec_call c (view (fst sw)) a (view (fst sw')))"
proof (cases c)
  case (CallInsert m)
  then show ?thesis by (auto intro: gives_mono [OF insert_message [OF assms]])
next
  case (CallPending u now limit)
  then show ?thesis by (auto intro: gives_mono [OF pending [OF assms(1)]])
next
  case (CallMessage i)
  then show ?thesis by (auto intro: gives_mono [OF message [OF assms(1)]])
next
  case (CallDelete i owner)
  show ?thesis unfolding CallDelete call_store.simps gives_with_answer spec_call.simps
    by (rule gives_mono [OF delete_message [OF assms(1)]]) (metis fst_conv snd_conv)
next
  case (CallSetRoute to node)
  show ?thesis unfolding CallSetRoute call_store.simps gives_with_answer spec_call.simps
    by (rule gives_mono [OF set_route [OF assms(1)]]) (metis fst_conv snd_conv)
next
  case (CallRoute to)
  then show ?thesis by (auto intro: gives_mono [OF route [OF assms(1)]])
next
  case (CallClearRoute to node)
  show ?thesis unfolding CallClearRoute call_store.simps gives_with_answer spec_call.simps
    by (rule gives_mono [OF clear_route [OF assms(1)]]) (metis fst_conv snd_conv)
qed

end

sublocale full_store < calls: implements_calls "call_store S" spec_call view "known_ids view inv" only_new
proof
  fix h sw c assume inv: "known_ids view inv h sw" and new: "only_new h c"
  have "sp_msgs (view (fst sw)) (m_id m) = None" if "c = CallInsert m" for m
    using inv new that by (auto simp: known_ids_def only_new_def)
  then show "gives (call_store S c) sw (\<lambda>a sw'. known_ids view inv (h @ [c]) sw' \<and>
     spec_call c (view (fst sw)) a (view (fst sw')))"
    using inv spec_call_ids unfolding known_ids_def by (intro gives_mono [OF store_call_ok]) blast+
qed

end
