(* ===== verification/Bigtable_Emulator.thy ===== *)
theory Bigtable_Emulator
  imports Bigtable_Service
begin

text \<open>
  A service that keeps every promise of \<^const>\<open>bigtable_service\<close>: a table in memory, one chunk
  per cell, patterns that are literals. The hypotheses of the adapter's properties are
  discharged on it, and the adapter's programs run on it.
\<close>

section \<open>The emulator\<close>

type_synonym table = "(byte list, cell list) hmap"

text \<open>No row has an empty key.\<close>

definition em_tab :: "table \<Rightarrow> byte list \<Rightarrow> cell list" where
  "em_tab d k = (if k = [] then [] else case hget d k of None \<Rightarrow> [] | Some cs \<Rightarrow> cs)"

fun unescape :: "byte list \<Rightarrow> byte list option" where
  "unescape [] = Some []"
| "unescape (c # p) =
     (if c = 0x5C then (case p of [] \<Rightarrow> None | c' # p' \<Rightarrow> map_option (Cons c') (unescape p'))
      else if alphanumeric_byte c then map_option (Cons c) (unescape p) else None)"

definition em_re2 :: "byte list \<Rightarrow> byte list \<Rightarrow> bool" where
  "em_re2 p s \<longleftrightarrow> unescape (if p \<noteq> [] \<and> hd p = 0x5E \<and> last p = 0x24 then butlast (tl p) else p) = Some s"

fun em_row_chunks :: "byte list \<Rightarrow> cell list \<Rightarrow> cell_chunk list" where
  "em_row_chunks k [] = []"
| "em_row_chunks k (x # xs) =
     \<lparr>ck_row_key = k, ck_qualifier = Some (cl_qualifier x), ck_value = cl_value x, ck_value_size = 0,
      ck_row_status = (if xs = [] then Some (CommitRow True) else None)\<rparr> # em_row_chunks k xs"

definition em_wanted :: "row_set \<Rightarrow> byte list \<Rightarrow> bool" where
  "em_wanted rs k \<longleftrightarrow> k \<in> set (rs_row_keys rs) \<or>
     list_ex (\<lambda>(start, end_key). start \<le> k \<and> k < end_key) (rs_row_ranges rs)"

definition em_rows :: "row_set \<Rightarrow> row_filter \<Rightarrow> table \<Rightarrow> (byte list \<times> cell list) list" where
  "em_rows rs f d =
     filter (\<lambda>(k, xs). xs \<noteq> [])
       (map (\<lambda>k. (k, yields em_re2 f (em_tab d k)))
         (filter (\<lambda>k. k \<noteq> [] \<and> em_wanted rs k) (sort (remdups (map fst d)))))"

definition em_mutate_row :: "mutate_row_request grpc_request \<Rightarrow> table \<Rightarrow> (status + unit) \<times> table" where
  "em_mutate_row q d =
     (let k = mr_row_key (gr_message q)
      in if k = [] then (Inl \<lparr>rpc_code = OtherCode 3, rpc_message = ''empty row key''\<rparr>, d)
         else (Inr (), hinsert k (apply_mutations (mr_mutations (gr_message q)) (em_tab d k)) d))"

definition em_read_rows ::
  "read_rows_request grpc_request \<Rightarrow> table \<Rightarrow> (status + (status + cell_chunk list) list) \<times> table" where
  "em_read_rows q d =
     (case (rr_rows (gr_message q), rr_filter (gr_message q)) of
        (Some rs, Some f) \<Rightarrow> (Inr (map (\<lambda>(k, xs). Inr (em_row_chunks k xs)) (em_rows rs f d)), d)
      | _ \<Rightarrow> (Inl \<lparr>rpc_code = OtherCode 12, rpc_message = ''unimplemented''\<rparr>, d))"

definition em_check_and_mutate_row ::
  "check_and_mutate_row_request grpc_request \<Rightarrow> table \<Rightarrow> (status + bool) \<times> table" where
  "em_check_and_mutate_row q d =
     (let k = cm_row_key (gr_message q) in
      case cm_predicate_filter (gr_message q) of
        None \<Rightarrow> (Inl \<lparr>rpc_code = OtherCode 12, rpc_message = ''unimplemented''\<rparr>, d)
      | Some f \<Rightarrow>
          if yields em_re2 f (em_tab d k) = [] then (Inr False, d)
          else (Inr True, hinsert k (apply_mutations (cm_true_mutations (gr_message q)) (em_tab d k)) d))"

definition emulator :: "(unit, table) grpc_service" where
  "emulator =
     \<lparr>gs_mutate_row = em_mutate_row, gs_read_rows = em_read_rows,
      gs_check_and_mutate_row = em_check_and_mutate_row,
      gs_get_table = \<lambda>_ d. (Inr (), d), gs_create_table = \<lambda>_ d. (Inr (), d),
      gs_connect = \<lambda>_ d. (Inr (), d), gs_credentials = \<lambda>_ d. (Inr (), d), gs_token = \<lambda>_ d. (Inr [], d)\<rparr>"

text \<open>An adapter for it: plain HTTP, so no credentials.\<close>

definition emulated :: "unit bigtable_store" where
  "emulated = \<lparr>bs_table = ''projects/p/instances/i/tables/t'', bs_auth = None, bs_app_profile = [],
     bs_client = \<lparr>gc_metadata_value = Inr, gc_quota_project = \<lambda>_. None\<rparr>\<rparr>"

section \<open>It keeps the promises\<close>

lemma unescape_literal: "literal p v \<Longrightarrow> unescape p = Some v"
  by (induction rule: literal.induct) (auto simp: alphanumeric_byte_def)

lemma literal_hd: "literal p v \<Longrightarrow> p \<noteq> [] \<Longrightarrow> hd p \<noteq> 0x5E"
  by (induction rule: literal.induct) (auto simp: alphanumeric_byte_def)

lemma em_re2_literal: "matches_literally em_re2"
  unfolding matches_literally_def em_re2_def
proof (intro allI impI conjI)
  fix p v s assume p: "literal p v"
  show "(unescape (if p \<noteq> [] \<and> hd p = 0x5E \<and> last p = 0x24 then butlast (tl p) else p) = Some s) = (s = v)"
    using literal_hd [OF p] unescape_literal [OF p] by auto
  show "(unescape (if 0x5E # p @ [0x24] \<noteq> [] \<and> hd (0x5E # p @ [0x24]) = 0x5E \<and> last (0x5E # p @ [0x24]) = 0x24
      then butlast (tl (0x5E # p @ [0x24])) else 0x5E # p @ [0x24]) = Some s) = (s = v)"
    using unescape_literal [OF p] by auto
qed

lemma em_row_encoded: "xs \<noteq> [] \<Longrightarrow> row_chunks k prev xs (em_row_chunks k xs)"
proof (induction xs arbitrary: prev)
  case (Cons x xs)
  show ?case
  proof (cases "xs = []")
    case True
    let ?c = "\<lparr>ck_row_key = k, ck_qualifier = Some (cl_qualifier x), ck_value = cl_value x, ck_value_size = 0,
        ck_row_status = Some (CommitRow True)\<rparr>"
    have "cell_chunks k (cl_qualifier x) True (ck_value ?c) [?c]"
      by (rule cell_chunks.chunk_last) simp_all
    then show ?thesis using True by (simp add: row_chunks.row_last)
  next
    case False
    let ?c = "\<lparr>ck_row_key = k, ck_qualifier = Some (cl_qualifier x), ck_value = cl_value x, ck_value_size = 0,
        ck_row_status = None\<rparr>"
    have "cell_chunks k (cl_qualifier x) False (ck_value ?c) [?c]"
      by (rule cell_chunks.chunk_last) (simp_all add: plain_def)
    then have "row_chunks k prev (x # xs) ([?c] @ em_row_chunks k xs)"
      by (intro row_chunks.row_more Cons.IH False) simp_all
    then show ?thesis using False by simp
  qed
qed simp

lemma em_rows_encoded:
  "\<forall>(k, xs)\<in>set rows. k \<noteq> [] \<and> xs \<noteq> [] \<Longrightarrow>
     encodes rows (concat (map (\<lambda>(k, xs). em_row_chunks k xs) rows))"
proof (induction rows)
  case Nil
  show ?case by (simp add: encodes_Nil)
next
  case (Cons r rows)
  obtain k xs where r: "r = (k, xs)" by (cases r)
  have "encodes ((k, xs) # rows) (em_row_chunks k xs @ concat (map (\<lambda>(k, xs). em_row_chunks k xs) rows))"
    using Cons by (intro encodes.encodes_row em_row_encoded) (auto simp: r)
  then show ?case by (simp add: r)
qed

lemma em_wanted_iff: "em_wanted rs k \<longleftrightarrow> wanted rs k"
  by (simp add: em_wanted_def wanted_def list_ex_iff)

lemma yields_Nil [simp]: "yields re2 f [] = []"
proof -
  have "cs = [] \<Longrightarrow> yields re2 f cs = []" for cs
    by (induction re2 f cs rule: yields.induct) (simp_all add: newest_def)
  then show ?thesis by simp
qed

lemma em_tab_keys: "em_tab d k \<noteq> [] \<Longrightarrow> k \<noteq> [] \<and> k \<in> fst ` set d"
  by (auto simp: em_tab_def hget_key_iff split: option.splits if_splits)

lemma em_tab_hinsert: "k \<noteq> [] \<Longrightarrow> em_tab (hinsert k cs d) = (em_tab d)(k := cs)"
  by (auto simp: em_tab_def fun_eq_iff)

lemma em_rows_select: "selects em_re2 rs f (em_tab d) (em_rows rs f d)"
proof -
  let ?keys = "filter (\<lambda>k. k \<noteq> [] \<and> em_wanted rs k) (sort (remdups (map fst d)))"
  have fst: "map fst (em_rows rs f d) = filter (\<lambda>k. yields em_re2 f (em_tab d k) \<noteq> []) ?keys"
    by (simp add: em_rows_def filter_map comp_def)
  have "sorted_wrt (<) (sort (remdups (map fst d)))"
    by (simp add: strict_sorted_iff)
  then have "sorted_wrt (<) (map fst (em_rows rs f d))"
    unfolding fst by (intro sorted_wrt_filter)
  moreover have "k \<in> fst ` set (em_rows rs f d)" if "wanted rs k" "yields em_re2 f (em_tab d k) \<noteq> []" for k
  proof -
    have "em_tab d k \<noteq> []" using that(2) by auto
    then have "k \<in> set (map fst (em_rows rs f d))"
      unfolding fst using that em_tab_keys [of d k] by (auto simp: em_wanted_iff)
    then show ?thesis by simp
  qed
  ultimately show ?thesis
    by (auto simp: selects_def em_rows_def em_wanted_iff)
qed

lemma em_rows_chunks: "encodes (em_rows rs f d) (concat (map (\<lambda>(k, xs). em_row_chunks k xs) (em_rows rs f d)))"
  by (rule em_rows_encoded) (auto simp: em_rows_def)

lemma emulator_mutations: "serves_mutations emulator t em_tab"
  by (auto simp: serves_mutations_def emulator_def em_mutate_row_def em_tab_hinsert Let_def split: if_splits)

lemma emulator_reads: "serves_reads em_re2 emulator t em_tab"
  unfolding serves_reads_def
proof (intro allI impI)
  fix q d r d' rs f
  assume "rr_rows (gr_message q) = Some rs" "rr_filter (gr_message q) = Some f" "gs_read_rows emulator q d = (r, d')"
  then have r: "r = Inr (map Inr (map (\<lambda>(k, xs). em_row_chunks k xs) (em_rows rs f d)))" and d': "d' = d"
    by (auto simp: emulator_def em_read_rows_def comp_def case_prod_beta)
  show "em_tab d' = em_tab d \<and> (\<forall>stream. r = Inr (map Inr stream) \<longrightarrow>
      (\<exists>rows. selects em_re2 rs f (em_tab d) rows \<and> encodes rows (concat stream)))"
  proof (intro conjI allI impI)
    fix stream assume "r = Inr (map Inr stream)"
    then have "stream = map (\<lambda>(k, xs). em_row_chunks k xs) (em_rows rs f d)"
      using r by (simp only: sum.inject inj_map_eq_map [OF inj_Inr])
    then show "\<exists>rows. selects em_re2 rs f (em_tab d) rows \<and> encodes rows (concat stream)"
      using em_rows_select em_rows_chunks by blast
  qed (simp add: d')
qed

lemma emulator_checks: "serves_checks em_re2 emulator t em_tab"
proof -
  have "k \<noteq> []" if "yields em_re2 f (em_tab d k) \<noteq> []" for k f d
    using that by (auto simp: em_tab_def split: if_splits)
  then show ?thesis
    by (auto simp: serves_checks_def emulator_def em_check_and_mutate_row_def em_tab_hinsert Let_def
        split: if_splits option.splits)
qed

lemma emulator_service: "bigtable_service em_re2 emulator t em_tab"
  using em_re2_literal emulator_mutations emulator_reads emulator_checks
  by (simp add: bigtable_service_def leaves_rows_def emulator_def)

end
