(* ===== verification/Bigtable_Calls.thy ===== *)
theory Bigtable_Calls
  imports Bigtable_Pending Store_Calls Bigtable_Emulator
begin

text \<open>
  The Bigtable adapter answers sequences of calls on messages and routes as the abstract store
  does, and so as the in-memory store does, as long as the clock never goes back and the
  strings keep to the alphabets the keys rely on.
\<close>

section \<open>The frame of each call\<close>

lemma bt_insert_frame:
  fixes b :: "'t bigtable_store"
  assumes "serves re2 svc b tab" and "bt_inv tab (d, w)" and m: "storable m" "is_ascii (m_id m)"
    and "tab d (octets (''mid#'' @ m_id m)) = []"
  shows "gives (run_prog b64 svc (bt_insert_message b m)) (d, w) (\<lambda>_ (d', w'). (bt_inv tab (d', w') \<and> world_le w w' \<and>
     bt_messages (tab d') = inserted m (bt_messages (tab d))) \<and> same_but (insertion_rows m) (tab d) (tab d'))"
  by (rule gives_frame [OF assms(1) bt_invD(1) [OF assms(2)] writes_insert_message [OF m(1)]])
    (rule bt_insert_message_gives [OF assms])

lemma bt_delete_frame:
  fixes b :: "'t bigtable_store"
  assumes "serves re2 svc b tab" and "bt_inv tab (d, w)"
  shows "gives (run_prog b64 svc (bt_delete_message b i owner)) (d, w) (\<lambda>r (d', w'). (bt_inv tab (d', w') \<and> w' = w \<and>
     (case bt_messages (tab d) i of
        None \<Rightarrow> r = None \<and> tab d' = tab d
      | Some m \<Rightarrow> if permits owner m then r = Some m \<and> bt_messages (tab d') = (bt_messages (tab d))(i := None)
                  else r = None \<and> tab d' = tab d)) \<and>
     same_but (removal_rows i) (tab d) (tab d'))"
  by (rule gives_frame [OF assms(1) bt_invD(1) [OF assms(2)] writes_delete_message])
    (rule bt_delete_message_gives [OF assms])

definition route_key_row :: "recipient \<Rightarrow> byte list \<Rightarrow> bool" where
  "route_key_row to k \<longleftrightarrow> k = octets (route_key to)"

lemma writes_set_route:
  fixes b :: "'t bigtable_store"
  shows "writes (bs_table b) (route_key_row to) (bt_set_route b to node) (\<lambda>_. True)"
  unfolding bt_set_route_def Let_def
  by (rule writes_bindI [OF writes_get_row], rule writes_bindI [OF writes_put]) (simp_all add: route_key_row_def)

lemma writes_clear_route:
  fixes b :: "'t bigtable_store"
  shows "writes (bs_table b) (route_key_row to) (bt_clear_route b to node) (\<lambda>_. True)"
  unfolding bt_clear_route_def by (rule writes_mutate_if) (simp_all add: route_key_row_def)

lemma m_key_not_route: "m_key k \<Longrightarrow> \<not> route_key_row to k"
  by (auto simp: route_key_row_def)

section \<open>The adapter implements the calls\<close>

definition bt_part :: "('d \<Rightarrow> byte list \<Rightarrow> cell list) \<Rightarrow> 'd \<Rightarrow> spec" where
  "bt_part tab d = \<lparr>sp_uas = Map.empty, sp_subs = Map.empty, sp_msgs = bt_messages (tab d),
     sp_queues = Map.empty, sp_routes = bt_routes (tab d)\<rparr>"

lemma bt_part_fields [simp]: "sp_msgs (bt_part tab d) = bt_messages (tab d)" "sp_routes (bt_part tab d) = bt_routes (tab d)"
  by (simp_all add: bt_part_def)

lemma bt_part_eqI:
  "bt_messages (tab d') = sp_msgs sp \<Longrightarrow> bt_routes (tab d') = sp_routes sp \<Longrightarrow> part sp = sp \<Longrightarrow> bt_part tab d' = sp"
  by (simp add: bt_part_def part_def)

lemma part_bt_part: "part (bt_part tab d) = bt_part tab d"
  by (simp add: part_def bt_part_def)

text \<open>The strings the calls may carry.\<close>

fun call_fits :: "store_call list \<Rightarrow> store_call \<Rightarrow> bool" where
  "call_fits h (CallInsert m) \<longleftrightarrow> storable m \<and> is_ascii (m_id m) \<and> m_id m \<notin> inserted_ids h"
| "call_fits h (CallPending u now limit) \<longleftrightarrow> CHR ''#'' \<notin> set u"
| "call_fits h (CallSetRoute to node) \<longleftrightarrow> utf8_string (route_key to) \<and> utf8_string node"
| "call_fits h (CallClearRoute to node) \<longleftrightarrow> is_ascii node"
| "call_fits h c \<longleftrightarrow> True"

definition bt_calls_inv :: "('d \<Rightarrow> byte list \<Rightarrow> cell list) \<Rightarrow> store_call list \<Rightarrow> 'd \<times> world \<Rightarrow> bool" where
  "bt_calls_inv tab h sw \<longleftrightarrow> bt_inv tab sw \<and> (\<forall>i. tab (fst sw) (octets (''mid#'' @ i)) \<noteq> [] \<longrightarrow> i \<in> inserted_ids h)"

lemma bt_calls_invI:
  "bt_inv tab (d, w) \<Longrightarrow> (\<And>i. tab d (octets (''mid#'' @ i)) \<noteq> [] \<Longrightarrow> i \<in> inserted_ids h) \<Longrightarrow> bt_calls_inv tab h (d, w)"
  by (simp add: bt_calls_inv_def)

lemma bt_calls_invD:
  "bt_calls_inv tab h (d, w) \<Longrightarrow> bt_inv tab (d, w)"
  "bt_calls_inv tab h (d, w) \<Longrightarrow> i \<notin> inserted_ids h \<Longrightarrow> tab d (octets (''mid#'' @ i)) = []"
  by (auto simp: bt_calls_inv_def)

text \<open>A call that leaves the index rows alone.\<close>

lemma bt_calls_inv_same:
  assumes "bt_calls_inv tab h (d, w)" and "bt_inv tab (d', w')"
    and "\<And>i. tab d' (octets (''mid#'' @ i)) \<noteq> [] \<Longrightarrow> tab d (octets (''mid#'' @ i)) \<noteq> []"
  shows "bt_calls_inv tab (h @ [c]) (d', w')"
  by (rule bt_calls_invI [OF assms(2)]) (use assms(1,3) in \<open>auto simp: bt_calls_inv_def\<close>)

lemma index_not_insertion: "\<not> insertion_rows m (octets (''mid#'' @ i)) \<or> i = m_id m"
  using key_not_mid [of m i] expiry_key_other(2) [of i m] by (auto simp: insertion_rows_def octets_inject)

lemma call_insert_ok:
  fixes b :: "'t bigtable_store"
  assumes "serves re2 svc b tab" and inv: "bt_calls_inv tab h (d, w)" and m: "call_fits h (CallInsert m)"
  shows "gives (call_store (bigtable_adapter b64 svc b) (CallInsert m)) (d, w) (\<lambda>a sw'.
     bt_calls_inv tab (h @ [CallInsert m]) sw' \<and> spec_call (CallInsert m) (bt_part tab d) a (bt_part tab (fst sw')))"
  unfolding call_store.simps gives_with_answer bigtable_adapter_def store.simps
proof (rule gives_impl [OF bt_insert_frame [OF assms(1) bt_calls_invD(1) [OF inv]]])
  show "storable m" "is_ascii (m_id m)" "tab d (octets (''mid#'' @ m_id m)) = []"
    using m bt_calls_invD(2) [OF inv] by simp_all
  fix x d1 w1
  assume "case (d1, w1) of (d', w') \<Rightarrow> (bt_inv tab (d', w') \<and> world_le w w' \<and>
     bt_messages (tab d') = inserted m (bt_messages (tab d))) \<and> same_but (insertion_rows m) (tab d) (tab d')"
  then have 1: "bt_inv tab (d1, w1)" "bt_messages (tab d1) = inserted m (bt_messages (tab d))"
    and frame: "same_but (insertion_rows m) (tab d) (tab d1)" by simp_all
  have index: "i \<in> inserted_ids (h @ [CallInsert m])" if "tab d1 (octets (''mid#'' @ i)) \<noteq> []" for i
  proof (cases "i = m_id m")
    case False
    then have "tab d1 (octets (''mid#'' @ i)) = tab d (octets (''mid#'' @ i))"
      using same_butD [OF frame] index_not_insertion by blast
    then show ?thesis using that bt_calls_invD(2) [OF inv, of i] by (simp del: append.simps) blast
  qed simp
  have "bt_routes (tab d1) = bt_routes (tab d)" by (rule routes_frame [OF frame route_not_insertion])
  then have "bt_part tab d1 = spec_insert_message m (bt_part tab d)"
    using 1(2) by (intro bt_part_eqI) (simp_all add: part_insert part_bt_part, auto simp: spec_insert_message_def inserted_def fun_eq_iff)
  then show "bt_calls_inv tab (h @ [CallInsert m]) (d1, w1) \<and>
     spec_call (CallInsert m) (bt_part tab d) AnsDone (bt_part tab (fst (d1, w1)))"
    using bt_calls_invI [OF 1(1) index] by simp
qed

lemma index_not_removal: "\<not> removal_rows i (octets (''mid#'' @ j)) \<or> j = i"
proof -
  have "octets (''mid#'' @ j) \<noteq> octets (''msg#'' @ x)" for x by (rule msg_mid_keys(2))
  then show ?thesis by (auto simp: removal_rows_def octets_inject)
qed

text \<open>A removal clears index rows only.\<close>

lemma bt_calls_inv_removed:
  assumes inv: "bt_calls_inv tab h (d, w)" and "bt_inv tab (d', w')" and frame: "same_but (removal_rows i) (tab d) (tab d')"
    and "bt_messages (tab d) i = None \<Longrightarrow> tab d' = tab d"
  shows "bt_calls_inv tab (h @ [c]) (d', w')"
proof (rule bt_calls_inv_same [OF inv assms(2)])
  fix j assume j: "tab d' (octets (''mid#'' @ j)) \<noteq> []"
  show "tab d (octets (''mid#'' @ j)) \<noteq> []"
  proof (cases "j = i \<and> bt_messages (tab d) i \<noteq> None")
    case True
    have "indexed (tab d) i = None" if "tab d (octets (''mid#'' @ i)) = []"
      using that by (simp add: indexed_def row_at_def newest_def cells_row_def col_text_def)
    then show ?thesis using True by (auto simp: bt_messages_def simp del: append.simps)
  next
    case False
    then have "tab d' (octets (''mid#'' @ j)) = tab d (octets (''mid#'' @ j))"
      using assms(4) same_butD [OF frame] index_not_removal [of i j] by metis
    then show ?thesis using j by simp
  qed
qed

lemma call_delete_ok:
  fixes b :: "'t bigtable_store"
  assumes "serves re2 svc b tab" and inv: "bt_calls_inv tab h (d, w)"
  shows "gives (call_store (bigtable_adapter b64 svc b) (CallDelete i owner)) (d, w) (\<lambda>a sw'.
     bt_calls_inv tab (h @ [CallDelete i owner]) sw' \<and>
     spec_call (CallDelete i owner) (bt_part tab d) a (bt_part tab (fst sw')))"
  unfolding call_store.simps gives_with_answer bigtable_adapter_def store.simps
proof (rule gives_impl [OF bt_delete_frame [OF assms(1) bt_calls_invD(1) [OF inv]]])
  fix r d1 w1
  assume "case (d1, w1) of (d', w') \<Rightarrow> (bt_inv tab (d', w') \<and> w' = w \<and>
     (case bt_messages (tab d) i of
        None \<Rightarrow> r = None \<and> tab d' = tab d
      | Some m \<Rightarrow> if permits owner m then r = Some m \<and> bt_messages (tab d') = (bt_messages (tab d))(i := None)
                  else r = None \<and> tab d' = tab d)) \<and>
     same_but (removal_rows i) (tab d) (tab d')"
  then have 1: "bt_inv tab (d1, w1)" and ms: "case bt_messages (tab d) i of
        None \<Rightarrow> r = None \<and> tab d1 = tab d
      | Some m \<Rightarrow> if permits owner m then r = Some m \<and> bt_messages (tab d1) = (bt_messages (tab d))(i := None)
                  else r = None \<and> tab d1 = tab d"
    and frame: "same_but (removal_rows i) (tab d) (tab d1)" unfolding prod.case by blast+
  have "bt_routes (tab d1) = bt_routes (tab d)" by (rule routes_frame [OF frame route_not_removal])
  then have part: "bt_part tab d1 = snd (spec_delete_message i owner (bt_part tab d))"
    and r: "r = fst (spec_delete_message i owner (bt_part tab d))"
    using ms by (auto simp: spec_delete_message_def part_def bt_part_def split: option.splits if_splits)
  have none: "tab d1 = tab d" if "bt_messages (tab d) i = None" using ms that by simp
  show "bt_calls_inv tab (h @ [CallDelete i owner]) (d1, w1) \<and>
     spec_call (CallDelete i owner) (bt_part tab d) (AnsMessage r) (bt_part tab (fst (d1, w1)))"
    using bt_calls_inv_removed [OF inv 1 frame none] part r by simp
qed

lemma bt_message_gives:
  assumes "serves re2 svc b tab" and inv: "bt_inv tab (d, w)"
  shows "gives (run_prog b64 svc (bt_message b i)) (d, w) (\<lambda>r (d', w'). w' = w \<and> tab d' = tab d \<and> r = bt_messages (tab d) i)"
  unfolding bt_message_def
proof (rule gives_bindI [OF gives_locate [OF assms(1) bt_ok_tidy [OF bt_invD(1) [OF inv]]]], unfold gives_done)
  fix r d1 w1
  assume "case (d1, w1) of (d', w') \<Rightarrow> w' = w \<and> tab d' = tab d \<and>
     (case r of None \<Rightarrow> bt_messages (tab d) i = None
      | Some (key, m) \<Rightarrow> indexed (tab d) i = Some key \<and> decoded (tab d) key = Some m \<and> m_id m = i)"
  then show "case (d1, w1) of (d', w') \<Rightarrow> w' = w \<and> tab d' = tab d \<and> map_option snd r = bt_messages (tab d) i"
    by (cases r) (simp_all add: bt_messages_def case_prod_beta)
qed

text \<open>Calls that only read.\<close>

lemma read_call_ok:
  assumes "bt_calls_inv tab h (d, w)" and "w' = w" and "tab d' = tab d"
  shows "bt_calls_inv tab (h @ [c]) (d', w')" and "bt_part tab d' = bt_part tab d"
proof -
  have "bt_inv tab (d', w')" using bt_calls_invD(1) [OF assms(1)] assms(2,3) by (simp add: bt_inv_def bt_ok_def)
  then show "bt_calls_inv tab (h @ [c]) (d', w')" by (rule bt_calls_inv_same [OF assms(1)]) (simp add: assms(3))
  show "bt_part tab d' = bt_part tab d" by (simp add: bt_part_def assms(3))
qed

lemma call_pending_ok:
  fixes b :: "'t bigtable_store"
  assumes svc: "serves re2 svc b tab" and inv: "bt_calls_inv tab h (d, w)" and c: "call_fits h (CallPending u now limit)"
  shows "gives (call_store (bigtable_adapter b64 svc b) (CallPending u now limit)) (d, w) (\<lambda>a sw'.
     bt_calls_inv tab (h @ [CallPending u now limit]) sw' \<and>
     spec_call (CallPending u now limit) (bt_part tab d) a (bt_part tab (fst sw')))"
  unfolding call_store.simps gives_with_answer bigtable_adapter_def store.simps spec_call.simps
proof (rule gives_impl [OF bt_pending_gives [OF svc bt_calls_invD(1) [OF inv], where sp = "bt_part tab d"]])
  show "CHR ''#'' \<notin> set u" "sp_msgs (bt_part tab d) = bt_messages (tab d)" using c by simp_all
  fix ms d1 w1
  assume "case (d1, w1) of (d', w') \<Rightarrow> w' = w \<and> tab d' = tab d \<and> spec_pending (bt_part tab d) u now limit ms"
  then show "bt_calls_inv tab (h @ [CallPending u now limit]) (d1, w1) \<and>
     (\<exists>ms'. AnsMessages ms = AnsMessages ms' \<and> spec_pending (bt_part tab d) u now limit ms') \<and>
     bt_part tab (fst (d1, w1)) = bt_part tab d"
    using read_call_ok [OF inv, of w1 d1] by simp
qed

lemma call_message_ok:
  fixes b :: "'t bigtable_store"
  assumes svc: "serves re2 svc b tab" and inv: "bt_calls_inv tab h (d, w)"
  shows "gives (call_store (bigtable_adapter b64 svc b) (CallMessage i)) (d, w) (\<lambda>a sw'.
     bt_calls_inv tab (h @ [CallMessage i]) sw' \<and> spec_call (CallMessage i) (bt_part tab d) a (bt_part tab (fst sw')))"
  unfolding call_store.simps gives_with_answer bigtable_adapter_def store.simps spec_call.simps
proof (rule gives_impl [OF bt_message_gives [OF svc bt_calls_invD(1) [OF inv]]])
  fix r d1 w1
  assume "case (d1, w1) of (d', w') \<Rightarrow> w' = w \<and> tab d' = tab d \<and> r = bt_messages (tab d) i"
  then show "bt_calls_inv tab (h @ [CallMessage i]) (d1, w1) \<and> AnsMessage r = AnsMessage (sp_msgs (bt_part tab d) i) \<and>
     bt_part tab (fst (d1, w1)) = bt_part tab d"
    using read_call_ok [OF inv, of w1 d1] by simp
qed

lemma call_route_ok:
  fixes b :: "'t bigtable_store"
  assumes svc: "serves re2 svc b tab" and inv: "bt_calls_inv tab h (d, w)"
  shows "gives (call_store (bigtable_adapter b64 svc b) (CallRoute to)) (d, w) (\<lambda>a sw'.
     bt_calls_inv tab (h @ [CallRoute to]) sw' \<and> spec_call (CallRoute to) (bt_part tab d) a (bt_part tab (fst sw')))"
  unfolding call_store.simps gives_with_answer bigtable_adapter_def store.simps spec_call.simps
proof (rule gives_impl [OF bt_route_gives [OF svc bt_invD(1) [OF bt_calls_invD(1) [OF inv]]]])
  fix r d1 w1
  assume "case (d1, w1) of (d', w') \<Rightarrow> w' = w \<and> tab d' = tab d \<and> r = bt_routes (tab d) to"
  then show "bt_calls_inv tab (h @ [CallRoute to]) (d1, w1) \<and> AnsNode r = AnsNode (sp_routes (bt_part tab d) to) \<and>
     bt_part tab (fst (d1, w1)) = bt_part tab d"
    using read_call_ok [OF inv, of w1 d1] by simp
qed

text \<open>Calls that change a route.\<close>

lemma route_call_ok:
  assumes inv: "bt_calls_inv tab h (d, w)" and ok: "bt_ok tab (d', w')" and frame: "same_but (route_key_row to) (tab d) (tab d')"
  shows "bt_calls_inv tab (h @ [c]) (d', w')" and "bt_messages (tab d') = bt_messages (tab d)"
proof -
  note same = messages_frame [OF frame m_key_not_route]
  show "bt_messages (tab d') = bt_messages (tab d)" by (rule same(1))
  have "bt_inv tab (d', w')" using ok same(2) bt_calls_invD(1) [OF inv] by (simp add: bt_inv_def)
  then show "bt_calls_inv tab (h @ [c]) (d', w')" 
    by (rule bt_calls_inv_same [OF inv]) (erule contrapos_nn, rule trans, rule same(3))
qed

lemma call_set_route_ok:
  fixes b :: "'t bigtable_store"
  assumes svc: "serves re2 svc b tab" and inv: "bt_calls_inv tab h (d, w)" and c: "call_fits h (CallSetRoute to node)"
  shows "gives (call_store (bigtable_adapter b64 svc b) (CallSetRoute to node)) (d, w) (\<lambda>a sw'.
     bt_calls_inv tab (h @ [CallSetRoute to node]) sw' \<and>
     spec_call (CallSetRoute to node) (bt_part tab d) a (bt_part tab (fst sw')))"
  unfolding call_store.simps gives_with_answer bigtable_adapter_def store.simps
proof (rule gives_impl [OF gives_frame [OF svc _ writes_set_route bt_set_route_gives [OF svc]]])
  show ok: "bt_ok tab (d, w)" "bt_ok tab (d, w)" using bt_invD(1) [OF bt_calls_invD(1) [OF inv]] by simp_all
  show "utf8_valid (octets (route_key to))" "utf8_valid (octets node)" using c by (simp_all add: utf8_string_def)
  fix r d1 w1
  assume "case (d1, w1) of (d', w') \<Rightarrow> (bt_ok tab (d', w') \<and> world_le w w' \<and> r = bt_routes (tab d) to \<and>
     bt_routes (tab d') = (bt_routes (tab d))(to \<mapsto> node)) \<and> same_but (route_key_row to) (tab d) (tab d')"
  then show "bt_calls_inv tab (h @ [CallSetRoute to node]) (d1, w1) \<and>
     spec_call (CallSetRoute to node) (bt_part tab d) (AnsNode r) (bt_part tab (fst (d1, w1)))"
    using route_call_ok [OF inv] by (auto simp: spec_set_route_def bt_part_def)
qed

lemma call_clear_route_ok:
  fixes b :: "'t bigtable_store"
  assumes svc: "serves re2 svc b tab" and inv: "bt_calls_inv tab h (d, w)" and c: "call_fits h (CallClearRoute to node)"
  shows "gives (call_store (bigtable_adapter b64 svc b) (CallClearRoute to node)) (d, w) (\<lambda>a sw'.
     bt_calls_inv tab (h @ [CallClearRoute to node]) sw' \<and>
     spec_call (CallClearRoute to node) (bt_part tab d) a (bt_part tab (fst sw')))"
  unfolding call_store.simps gives_with_answer bigtable_adapter_def store.simps
proof (rule gives_impl [OF gives_frame [OF svc _ writes_clear_route bt_clear_route_gives [OF svc]]])
  show ok: "bt_ok tab (d, w)" "bt_ok tab (d, w)" using bt_invD(1) [OF bt_calls_invD(1) [OF inv]] by simp_all
  show "is_ascii node" using c by simp
  fix r d1 w1
  assume "case (d1, w1) of (d', w') \<Rightarrow> (bt_ok tab (d', w') \<and> world_le w w' \<and> r = (bt_routes (tab d) to = Some node) \<and>
     bt_routes (tab d') = (if r then (bt_routes (tab d))(to := None) else bt_routes (tab d))) \<and>
     same_but (route_key_row to) (tab d) (tab d')"
  then show "bt_calls_inv tab (h @ [CallClearRoute to node]) (d1, w1) \<and>
     spec_call (CallClearRoute to node) (bt_part tab d) (AnsFlag r) (bt_part tab (fst (d1, w1)))"
    using route_call_ok [OF inv] by (auto simp: spec_clear_route_def bt_part_def)
qed

lemma bt_call_ok:
  fixes b :: "'t bigtable_store"
  assumes "serves re2 svc b tab" and "bt_calls_inv tab h sw" and "call_fits h c"
  shows "gives (call_store (bigtable_adapter b64 svc b) c) sw (\<lambda>a sw'.
     bt_calls_inv tab (h @ [c]) sw' \<and> spec_call c (bt_part tab (fst sw)) a (bt_part tab (fst sw')))"
proof -
  obtain d w where sw: "sw = (d, w)" by (cases sw)
  note inv = assms(2) [unfolded sw]
  show ?thesis unfolding sw fst_conv
    using assms(3) call_insert_ok [OF assms(1) inv] call_delete_ok [OF assms(1) inv] call_pending_ok [OF assms(1) inv]
      call_message_ok [OF assms(1) inv] call_route_ok [OF assms(1) inv] call_set_route_ok [OF assms(1) inv]
      call_clear_route_ok [OF assms(1) inv]
    by (cases c) (simp_all only:)
qed

section \<open>Sequences of calls\<close>

text \<open>
  The adapter over a service that keeps its promises: the data of the interpretation, so that
  one interpretation covers every service, table and client.
\<close>

lemma bt_implements_calls:
  fixes b :: "'t bigtable_store"
  assumes "serves re2 svc b tab"
  shows "implements_calls (call_store (bigtable_adapter b64 svc b)) spec_call (bt_part tab) (bt_calls_inv tab) call_fits"
  by standard (rule bt_call_ok [OF assms])

interpretation em: implements_calls "call_store (bigtable_adapter b64 emulator emulated)" spec_call
  "bt_part em_tab" "bt_calls_inv em_tab" call_fits
  by (rule bt_implements_calls) (unfold serves_def, rule emulator_service)

lemma call_fits_new: "call_fits h c \<Longrightarrow> only_new h c"
  by (cases c) (simp_all add: only_new_def)

lemma all_fit_new: "all_fit call_fits h cs \<Longrightarrow> all_fit only_new h cs"
  by (induction cs arbitrary: h) (simp_all add: call_fits_new)

lemma spec_trace_part: "spec_trace spec_call cs sp as sp' \<Longrightarrow> spec_trace spec_call cs (part sp) as (part sp')"
  by (induction cs arbitrary: sp as) (auto, blast dest: spec_call_part)

text \<open>A table with no row.\<close>

definition no_rows :: "('d \<Rightarrow> byte list \<Rightarrow> cell list) \<Rightarrow> 'd \<Rightarrow> bool" where
  "no_rows tab d \<longleftrightarrow> tab d = (\<lambda>_. [])"

lemma row_at_none [simp]: "row_at (\<lambda>_. []) key = []"
  by (simp add: row_at_def newest_def cells_row_def)

lemma nothing_stored: "bt_messages (\<lambda>_. []) = hget []" "bt_routes (\<lambda>_. []) = hget []"
  by (simp_all add: fun_eq_iff bt_messages_def indexed_def bt_routes_def col_text_def)

lemma no_rows_inv:
  assumes "no_rows tab d" and "steady w"
  shows "bt_calls_inv tab [] (d, w)" and "bt_part tab d = part (mem_view new_state)"
proof -
  have "bt_ok tab (d, w)" using assms by (simp add: no_rows_def bt_ok_def laid_out_def past_def)
  then show "bt_calls_inv tab [] (d, w)"
    using assms by (simp add: bt_calls_inv_def bt_inv_def rows_indexed_def no_rows_def)
  show "bt_part tab d = part (mem_view new_state)"
    using assms(1) by (simp add: no_rows_def bt_part_def part_def mem_view_def new_state_def nothing_stored comp_def)
qed

section \<open>The calls in memory\<close>

lemma memory_calls_specified:
  assumes "all_fit call_fits [] cs"
    and "run_calls (call_store (mem_store b64 ord)) cs (new_state, w) = (Inr as, s', w')"
  shows "spec_trace spec_call cs (mem_view new_state) as (mem_view s')"
proof -
  have "known_ids mem_view mem_ok [] (new_state, w)"
    using mem_ok_new by (simp add: known_ids_def mem_view_def new_state_def dom_def)
  from givesD [OF mem.calls.calls_ok [OF this all_fit_new [OF assms(1)]] assms(2)] show ?thesis by simp
qed

text \<open>It has no errors.\<close>

lemma memory_call_returns: "\<exists>a s' w'. call_store (mem_store b64 ord) c (s, w) = (Inr a, s', w')"
  by (cases c) (simp_all add: memory_store_def with_answer_def ok_read_def ok_write_def ok_step_def case_prod_beta)

lemma memory_calls_return:
  obtains as s' w' where "run_calls (call_store (mem_store b64 ord)) cs (s, w) = (Inr as, s', w')"
proof -
  have "\<exists>as s' w'. run_calls (call_store (mem_store b64 ord)) cs (s, w) = (Inr as, s', w')"
  proof (induction cs arbitrary: s w)
    case (Cons c cs)
    obtain a s1 w1 where "call_store (mem_store b64 ord) c (s, w) = (Inr a, s1, w1)" using memory_call_returns by blast
    then show ?case using Cons [of s1 w1] by auto
  qed simp
  then show ?thesis using that by blast
qed

end
