(* ===== verification/Bigtable_Answers.thy ===== *)
theory Bigtable_Answers
  imports Bigtable_Calls
begin

text \<open>
  The calls return: over a service that answers every request, no call of the adapter on
  messages or routes fails or runs into a malformed stream.
\<close>

section \<open>A service that answers\<close>

definition available :: "('t, 'd) grpc_service \<Rightarrow> 't bigtable_store \<Rightarrow> bool" where
  "available svc b \<longleftrightarrow>
     (\<forall>v. \<exists>v'. gc_metadata_value (bs_client b) v = Inr v') \<and>
     (\<forall>t d. bs_auth b = Some t \<longrightarrow> (\<exists>token. fst (gs_token svc t d) = Inr token)) \<and>
     (\<forall>q d. mr_table_name (gr_message q) = bs_table b \<longrightarrow> mr_row_key (gr_message q) \<noteq> [] \<longrightarrow>
        fst (gs_mutate_row svc q d) = Inr ()) \<and>
     (\<forall>q d. rr_table_name (gr_message q) = bs_table b \<longrightarrow> rr_rows (gr_message q) \<noteq> None \<longrightarrow>
        rr_filter (gr_message q) \<noteq> None \<longrightarrow> (\<exists>stream. fst (gs_read_rows svc q d) = Inr (map Inr stream))) \<and>
     (\<forall>q d. cm_table_name (gr_message q) = bs_table b \<longrightarrow> cm_predicate_filter (gr_message q) \<noteq> None \<longrightarrow>
        (\<exists>x. fst (gs_check_and_mutate_row svc q d) = Inr x))"

lemma available_check:
  assumes "available svc b" and "cm_table_name (gr_message q) = bs_table b" and "cm_predicate_filter (gr_message q) = Some f"
  shows "\<exists>x. fst (gs_check_and_mutate_row svc q d) = Inr x"
  using assms unfolding available_def by blast

lemma available_read:
  assumes "available svc b" and "rr_table_name (gr_message q) = bs_table b" and "rr_rows (gr_message q) = Some rs"
    and "rr_filter (gr_message q) = Some f"
  obtains stream d' where "gs_read_rows svc q d = (Inr (map Inr stream), d')"
  using assms unfolding available_def by (metis option.distinct(1) prod.collapse)

lemma emulated_available: "available emulator emulated"
  unfolding available_def
proof (intro conjI allI impI)
  show "\<exists>v'. gc_metadata_value (bs_client emulated) v = Inr v'" for v by (simp add: emulated_def)
  show "\<exists>token. fst (gs_token emulator t d) = Inr token" for t d by (simp add: emulator_def)
  show "mr_row_key (gr_message q) \<noteq> [] \<Longrightarrow> fst (gs_mutate_row emulator q d) = Inr ()" for q d
    by (simp add: emulator_def em_mutate_row_def Let_def)
  fix d
  show "\<exists>stream. fst (gs_read_rows emulator q d) = Inr (map Inr stream)"
    if "rr_rows (gr_message q) \<noteq> None" "rr_filter (gr_message q) \<noteq> None" for q
  proof -
    from that obtain rs f where "rr_rows (gr_message q) = Some rs" "rr_filter (gr_message q) = Some f" by blast
    then have "fst (gs_read_rows emulator q d) = Inr (map Inr (map (\<lambda>(k, xs). em_row_chunks k xs) (em_rows rs f d)))"
      by (simp add: emulator_def em_read_rows_def case_prod_beta)
    then show ?thesis by blast
  qed
  show "\<exists>x. fst (gs_check_and_mutate_row emulator q d) = Inr x" if "cm_predicate_filter (gr_message q) \<noteq> None" for q
    using that by (auto simp: emulator_def em_check_and_mutate_row_def Let_def)
qed

section \<open>Programs that return\<close>

definition returns :: "('s, 'a) store_op \<Rightarrow> 's \<times> world \<Rightarrow> bool" where
  "returns f sw \<longleftrightarrow> (\<exists>x sw'. f sw = (Inr x, sw'))"

lemma returns_done [simp]: "returns (run_prog b64 svc (done_with x)) sw"
  by (cases sw) (simp add: returns_def done_with_def)

lemma returns_answer [simp]: "returns (run_prog b64 svc (answer r)) sw \<longleftrightarrow> (\<exists>x. r = Inr x)"
  by (cases sw) (auto simp: returns_def answer_def)

lemma returns_bindI:
  assumes "returns (run_prog b64 svc p) dw" and "gives (run_prog b64 svc p) dw R"
    and "\<And>x d w. R x (d, w) \<Longrightarrow> returns (run_prog b64 svc (f x)) (d, w)"
  shows "returns (run_prog b64 svc (bind_prog p f)) dw"
proof -
  obtain x d w where x: "run_prog b64 svc p dw = (Inr x, d, w)" using assms(1) by (auto simp: returns_def)
  then have "R x (d, w)" using assms(2) by (simp add: gives_def)
  then show ?thesis using assms(3) x by (force simp: returns_def run_bind and_then_def)
qed

lemma returns_now:
  "returns (run_prog b64 svc (NowMs k)) (d, w) \<longleftrightarrow> returns (run_prog b64 svc (k (fst (now_ms w)))) (d, snd (now_ms w))"
  by (simp add: returns_def after_process_eq)

lemma returns_metadata: "available svc b \<Longrightarrow> returns (run_prog b64 svc (metadata_value (bs_client b) v)) dw"
  by (auto simp: available_def metadata_value_def)

lemma gives_True: "gives f sw (\<lambda>_ _. True)"
  by (simp add: gives_def)

lemma returns_with_token:
  assumes "available svc b"
  shows "returns (run_prog b64 svc (with_token (bs_client b) (bs_auth b) md)) dw"
proof (cases "bs_auth b")
  case (Some t)
  obtain d w where dw: "dw = (d, w)" by (cases dw)
  have token: "returns (run_prog b64 svc (AccessToken t answer)) dw"
    using assms Some by (auto simp: dw returns_def after_service_eq available_def answer_def)
  have "returns (run_prog b64 svc (bind_prog (AccessToken t answer) (\<lambda>token.
      bind_prog (metadata_value (bs_client b) (''Bearer '' @ token)) (\<lambda>bearer.
      case gc_quota_project (bs_client b) t of
        None \<Rightarrow> done_with (md @ [(''authorization'', bearer)])
      | Some project \<Rightarrow> bind_prog (metadata_value (bs_client b) project) (\<lambda>project.
          done_with (md @ [(''authorization'', bearer), (''x-goog-user-project'', project)])))))) dw"
    by (rule returns_bindI [OF token gives_True])
      (auto intro!: returns_bindI [OF returns_metadata [OF assms] gives_True] split: option.split)
  then show ?thesis by (simp only: with_token_def Some option.case)
qed (simp add: with_token_def)

lemma returns_table_request:
  assumes "available svc b"
  shows "returns (run_prog b64 svc (table_request b m)) dw"
  unfolding table_request_def authorized_request_def
  by (intro returns_bindI [OF returns_metadata [OF assms] gives_True] returns_bindI [OF returns_with_token [OF assms] gives_True])
    simp

lemma returns_mutate:
  fixes b :: "'t bigtable_store"
  assumes "serves re2 svc b tab" and "available svc b" and "key \<noteq> []"
  shows "returns (run_prog b64 svc (mutate b key ms)) (d, w)"
  unfolding mutate_def
proof (rule returns_bindI [OF returns_table_request [OF assms(2)] gives_table_request [OF assms(1)]])
  fix q :: "mutate_row_request grpc_request" and d1 w1
  let ?m = "\<lparr>mr_table_name = bs_table b, mr_app_profile_id = bs_app_profile b, mr_row_key = octets key, mr_mutations = ms\<rparr>"
  assume "case (d1, w1) of (d', w') \<Rightarrow> gr_message q = ?m \<and> w' = w \<and> tab d' = tab d"
  moreover have "octets key \<noteq> []" using assms(3) by (simp add: octets_def)
  ultimately have "fst (gs_mutate_row svc q d1) = Inr ()" using assms(2) by (simp add: available_def)
  then show "returns (run_prog b64 svc (MutateRow q answered)) (d1, w1)"
    by (simp add: returns_def after_service_eq answered_def)
qed

lemma returns_mutate_if:
  fixes b :: "'t bigtable_store"
  assumes "serves re2 svc b tab" and "available svc b"
  shows "returns (run_prog b64 svc (mutate_if b key p ms)) (d, w)"
  unfolding mutate_if_def
proof (rule returns_bindI [OF returns_table_request [OF assms(2)] gives_table_request [OF assms(1)]])
  fix q :: "check_and_mutate_row_request grpc_request" and d1 w1
  let ?m = "\<lparr>cm_table_name = bs_table b, cm_app_profile_id = bs_app_profile b, cm_row_key = octets key,
      cm_predicate_filter = Some p, cm_true_mutations = ms\<rparr>"
  assume "case (d1, w1) of (d', w') \<Rightarrow> gr_message q = ?m \<and> w' = w \<and> tab d' = tab d"
  then obtain x where "fst (gs_check_and_mutate_row svc q d1) = Inr x"
    using available_check [OF assms(2), of q p d1] by auto
  then show "returns (run_prog b64 svc (CheckAndMutateRow q answered)) (d1, w1)"
    by (simp add: returns_def after_service_eq answered_def)
qed

lemma returns_read_rows:
  fixes b :: "'t bigtable_store"
  assumes "serves re2 svc b tab" and "available svc b" and "tidy_rows (tab d)"
  shows "returns (run_prog b64 svc (read_rows b rs)) (d, w)"
  unfolding read_rows_def
proof (rule returns_bindI [OF returns_table_request [OF assms(2)] gives_table_request [OF assms(1)]])
  fix q :: "read_rows_request grpc_request" and d1 w1
  let ?f = "CellsPerColumnLimitFilter 1" and ?chunk = "\<lambda>r. case r of Inl s \<Rightarrow> Inl (box_status s) | Inr cs \<Rightarrow> Inr cs"
  let ?m = "\<lparr>rr_table_name = bs_table b, rr_app_profile_id = bs_app_profile b, rr_rows = Some rs, rr_filter = Some ?f\<rparr>"
  assume "case (d1, w1) of (d', w') \<Rightarrow> gr_message q = ?m \<and> w' = w \<and> tab d' = tab d"
  then have q: "gr_message q = ?m" and d1: "tab d1 = tab d" by simp_all
  then obtain stream d' where read: "gs_read_rows svc q d1 = (Inr (map Inr stream), d')"
    by (elim available_read [OF assms(2), where d = d1 and q = q and rs = rs and f = ?f, rotated 3]) simp_all
  have "serves_reads re2 svc (bs_table b) tab" using assms(1) by (simp add: serves_def bigtable_service_def)
  then obtain rows where rows: "selects re2 rs ?f (tab d) rows" "encodes rows (concat stream)"
    unfolding serves_reads_def using read q d1
    by (metis read_rows_request.select_convs(1) read_rows_request.select_convs(3) read_rows_request.select_convs(4))
  have "map ?chunk (map Inr stream) = map Inr stream" by simp
  then have "\<exists>rows. merge_rows (map ?chunk (map Inr stream)) = Inr rows"
    using merge_rows_encoded [OF rows(2) selected_rows(2) [OF rows(1) assms(3)]] by (simp add: comp_def)
  then show "returns (run_prog b64 svc (bind_prog (ReadRows q answered) (\<lambda>stream.
     answer (merge_rows (map ?chunk stream))))) (d1, w1)"
    by (auto simp: returns_def run_bind and_then_def after_service_eq read answered_def answer_def)
qed

lemma returns_get_row:
  fixes b :: "'t bigtable_store"
  assumes "serves re2 svc b tab" and "available svc b" and "tidy_rows (tab d)"
  shows "returns (run_prog b64 svc (get_row b key)) (d, w)"
  unfolding get_row_def by (rule returns_bindI [OF returns_read_rows [OF assms] gives_True]) simp

lemma returns_put:
  fixes b :: "'t bigtable_store"
  assumes "serves re2 svc b tab" and "available svc b" and "key \<noteq> []"
  shows "returns (run_prog b64 svc (put b key f cols)) (d, w)"
  unfolding put_def returns_now by (rule returns_mutate [OF assms])

lemma returns_delete_key:
  fixes b :: "'t bigtable_store"
  assumes "serves re2 svc b tab" and "available svc b" and "key \<noteq> []"
  shows "returns (run_prog b64 svc (delete_key b key)) (d, w)"
  unfolding delete_key_def by (rule returns_mutate [OF assms])

section \<open>The calls on messages and routes\<close>

lemma returns_locate:
  fixes b :: "'t bigtable_store"
  assumes svc: "serves re2 svc b tab" "available svc b" and tidy: "tidy_rows (tab d)"
  shows "returns (run_prog b64 svc (locate b i)) (d, w)"
  unfolding locate_def
proof (rule returns_bindI [OF returns_get_row [OF svc tidy] gives_get_row [OF svc(1) tidy]])
  fix idx d1 w1
  assume "case (d1, w1) of (d', w') \<Rightarrow> w' = w \<and> tab d' = tab d \<and> (idx = None \<longleftrightarrow> tab d (octets (''mid#'' @ i)) = []) \<and>
     (\<forall>x. idx = Some x \<longrightarrow> hget x = hget (row_at (tab d) (''mid#'' @ i)))"
  then have "tab d1 = tab d" unfolding prod.case by (elim conjE)
  then have tidy1: "tidy_rows (tab d1)" using tidy by (simp only:)
  have "returns (run_prog b64 svc (bind_prog (get_row b key) (\<lambda>r. case r of None \<Rightarrow> done_with None | Some r \<Rightarrow>
      done_with (case message_from_row key r of None \<Rightarrow> None | Some m \<Rightarrow> if m_id m = i then Some (key, m) else None))))
      (d1, w1)" for key
    by (rule returns_bindI [OF returns_get_row [OF svc tidy1] gives_True]) (simp split: option.split)
  then show "returns (run_prog b64 svc (case idx of None \<Rightarrow> done_with None | Some idx \<Rightarrow>
      case col_text idx ''row'' of None \<Rightarrow> done_with None | Some key \<Rightarrow>
      bind_prog (get_row b key) (\<lambda>r. case r of None \<Rightarrow> done_with None | Some r \<Rightarrow>
      done_with (case message_from_row key r of None \<Rightarrow> None | Some m \<Rightarrow> if m_id m = i then Some (key, m) else None))))
      (d1, w1)"
    by (auto split: option.split)
qed

lemma returns_delete_message:
  fixes b :: "'t bigtable_store"
  assumes svc: "serves re2 svc b tab" "available svc b" and tidy: "tidy_rows (tab d)"
  shows "returns (run_prog b64 svc (bt_delete_message b i owner)) (d, w)"
proof -
  have "returns (run_prog b64 svc (bt_remove_message b key m)) dw" for key m dw
  proof -
    obtain d w where dw: "dw = (d, w)" by (cases dw)
    have "returns (run_prog b64 svc (delete_key b (''mid#'' @ m_id m))) (d, w)" for d w
      by (rule returns_delete_key [OF svc]) simp
    then show ?thesis
      unfolding bt_remove_message_def delete_message_row_def dw
      by (intro returns_bindI [OF returns_mutate_if [OF svc] gives_True]) (auto intro!: returns_bindI [OF _ gives_True])
  qed
  then show ?thesis
    unfolding bt_delete_message_def
    by (intro returns_bindI [OF returns_locate [OF svc tidy] gives_True])
      (auto intro!: returns_bindI [OF _ gives_True] split: option.split)
qed

lemma returns_insert_message:
  fixes b :: "'t bigtable_store"
  assumes svc: "serves re2 svc b tab" "available svc b"
  shows "returns (run_prog b64 svc (bt_insert_message b m)) (d, w)"
proof -
  have key: "message_key m \<noteq> []" using message_key_msg [of m] by auto
  have "returns (run_prog b64 svc (put b (expiry_key m) family_d cols)) (d, w)" for d w cols
    by (rule returns_put [OF svc]) (simp add: expiry_key_def)
  then show ?thesis
    unfolding bt_insert_message_def Let_def
    by (intro returns_bindI [OF returns_mutate [OF svc] gives_True] key) auto
qed

lemma route_key_not_Nil: "route_key to \<noteq> []"
  by (cases to) simp_all

lemma returns_set_route:
  fixes b :: "'t bigtable_store"
  assumes svc: "serves re2 svc b tab" "available svc b" and tidy: "tidy_rows (tab d)"
  shows "returns (run_prog b64 svc (bt_set_route b to node)) (d, w)"
  unfolding bt_set_route_def Let_def
  by (rule returns_bindI [OF returns_get_row [OF svc tidy] gives_True],
      rule returns_bindI [OF returns_put [OF svc route_key_not_Nil] gives_True]) simp

lemma returns_with_answer [simp]:
  fixes f :: "('s, 'a) store_op"
  shows "returns (with_answer g f) sw \<longleftrightarrow> returns f sw"
proof -
  have "(\<exists>y. map_sum id g r = Inr y) \<longleftrightarrow> (\<exists>x. r = Inr x)" for r :: "box_error + 'a" by (cases r) auto
  then show ?thesis by (cases "f sw") (auto simp: returns_def with_answer_def)
qed

lemma call_returns:
  fixes b :: "'t bigtable_store"
  assumes svc: "serves re2 svc b tab" "available svc b" and inv: "bt_calls_inv tab h (d, w)"
  shows "returns (call_store (bigtable_adapter b64 svc b) c) (d, w)"
proof -
  have tidy: "tidy_rows (tab d)" by (rule bt_ok_tidy [OF bt_invD(1) [OF bt_calls_invD(1) [OF inv]]])
  show ?thesis
  proof (cases c)
    case (CallInsert m)
    then show ?thesis by (simp add: bigtable_adapter_def returns_insert_message [OF svc])
  next
    case (CallPending u now limit)
    have "returns (run_prog b64 svc (bt_pending b u now limit)) (d, w)"
      unfolding bt_pending_def by (rule returns_bindI [OF returns_read_rows [OF svc tidy] gives_True]) simp
    then show ?thesis by (simp add: CallPending bigtable_adapter_def)
  next
    case (CallMessage i)
    have "returns (run_prog b64 svc (bt_message b i)) (d, w)"
      unfolding bt_message_def by (rule returns_bindI [OF returns_locate [OF svc tidy] gives_True]) simp
    then show ?thesis by (simp add: CallMessage bigtable_adapter_def)
  next
    case (CallDelete i owner)
    then show ?thesis by (simp add: bigtable_adapter_def returns_delete_message [OF svc tidy])
  next
    case (CallSetRoute to node)
    then show ?thesis by (simp add: bigtable_adapter_def returns_set_route [OF svc tidy])
  next
    case (CallRoute to)
    have "returns (run_prog b64 svc (bt_route b to)) (d, w)"
      unfolding bt_route_def by (rule returns_bindI [OF returns_get_row [OF svc tidy] gives_True]) simp
    then show ?thesis by (simp add: CallRoute bigtable_adapter_def)
  next
    case (CallClearRoute to node)
    then show ?thesis by (simp add: bigtable_adapter_def bt_clear_route_def returns_mutate_if [OF svc])
  qed
qed

lemma calls_return:
  fixes b :: "'t bigtable_store"
  assumes svc: "serves re2 svc b tab" "available svc b" and "bt_calls_inv tab h (d, w)" and "all_fit call_fits h cs"
  shows "returns (run_calls (call_store (bigtable_adapter b64 svc b)) cs) (d, w)"
  using assms(3,4)
proof (induction cs arbitrary: h d w)
  case (Cons c cs)
  obtain a d1 w1 where c: "call_store (bigtable_adapter b64 svc b) c (d, w) = (Inr a, d1, w1)"
    using call_returns [OF svc Cons.prems(1)] unfolding returns_def by (metis prod.collapse)
  then have "bt_calls_inv tab (h @ [c]) (d1, w1)"
    using givesD [OF bt_call_ok [OF svc(1) Cons.prems(1)] c] Cons.prems(2) by simp
  then have "returns (run_calls (call_store (bigtable_adapter b64 svc b)) cs) (d1, w1)"
    using Cons by simp
  then show ?case by (auto simp: returns_def c)
qed (simp add: returns_def)

end
