(* ===== verification/Bigtable_Claims.thy ===== *)
theory Bigtable_Claims
  imports Bigtable_Emulator Bigtable_View
begin

text \<open>
  The adapter's methods interleaved. Nodes share the table and only single calls are atomic,
  so a message could be removed twice: acknowledged on one node while another drops its
  subscription or reaps it. The conditional deletion of the message row decides: whatever the
  schedule, at most one of them gets the message, and so at most one receipt is owed for it.
\<close>

section \<open>Programs side by side\<close>

inductive pool_step ::
  "base64 \<Rightarrow> ('t, 'd) grpc_service \<Rightarrow> ('t, 'a) prog list \<times> 'd \<times> world \<Rightarrow>
   ('t, 'a) prog list \<times> 'd \<times> world \<Rightarrow> bool"
  for b64 :: base64 and svc :: "('t, 'd) grpc_service" where
  pool_call: "prog_step b64 svc p dw = Some (p', dw') \<Longrightarrow>
     pool_step b64 svc (ps @ p # qs, dw) (ps @ p' # qs, dw')"

definition pool_run ::
  "base64 \<Rightarrow> ('t, 'd) grpc_service \<Rightarrow> ('t, 'a) prog list \<times> 'd \<times> world \<Rightarrow>
   ('t, 'a) prog list \<times> 'd \<times> world \<Rightarrow> bool" where
  "pool_run b64 svc = (pool_step b64 svc)\<^sup>*\<^sup>*"

text \<open>What the nodes do with messages, and what each task reports of message \<open>i\<close> in the end.\<close>

datatype task =
    DeleteMessage string "(string \<times> string) option"
  | DropSubscription string string
  | DropUserAgent string
  | ExpireUserAgents u64
  | ReapMessages u64
  | StoreMessage message

datatype outcome = Deleted "message option" | Owed "(u64 \<times> receipt) list" | Stored

fun task_prog :: "'t bigtable_store \<Rightarrow> task \<Rightarrow> ('t, outcome) prog" where
  "task_prog b (DeleteMessage i owner) = bind_prog (bt_delete_message b i owner) (\<lambda>m. done_with (Deleted m))"
| "task_prog b (DropSubscription u c) = bind_prog (bt_delete_subscription b u c) (\<lambda>rs. done_with (Owed rs))"
| "task_prog b (DropUserAgent u) = bind_prog (bt_delete_user_agent b u) (\<lambda>rs. done_with (Owed rs))"
| "task_prog b (ExpireUserAgents cutoff) =
     bind_prog (bt_expire_user_agents b cutoff) (\<lambda>(n, rs). done_with (Owed rs))"
| "task_prog b (ReapMessages now) = bind_prog (bt_reap b now) (\<lambda>rs. done_with (Owed rs))"
| "task_prog b (StoreMessage m) = bind_prog (bt_insert_message b m) (\<lambda>_. done_with Stored)"

definition receipts_for :: "string \<Rightarrow> (u64 \<times> receipt) list \<Rightarrow> nat" where
  "receipts_for i rs = length (filter (\<lambda>x. rc_msg_id (snd x) = i) rs)"

fun reports :: "string \<Rightarrow> outcome \<Rightarrow> nat" where
  "reports i (Deleted m) = (case m of None \<Rightarrow> 0 | Some m \<Rightarrow> if m_id m = i then 1 else 0)"
| "reports i (Owed rs) = receipts_for i rs"
| "reports i Stored = 0"

fun settlements :: "string \<Rightarrow> ('t, outcome) prog \<Rightarrow> nat" where
  "settlements i (Return (Inr x)) = reports i x"
| "settlements i p = 0"

section \<open>Claims\<close>

text \<open>A row holds message \<open>i\<close> when the predicate of \<open>delete_message_row\<close> would match.\<close>

definition claim_filter :: "string \<Rightarrow> row_filter" where
  "claim_filter i = column_filter family_m ''id'' (Some i)"

definition holds :: "(byte list \<Rightarrow> byte list \<Rightarrow> bool) \<Rightarrow> string \<Rightarrow> cell list \<Rightarrow> bool" where
  "holds re2 i cs \<longleftrightarrow> yields re2 (claim_filter i) cs \<noteq> []"

text \<open>Mutations that never make a row hold \<open>i\<close>.\<close>

definition keeps_out :: "(byte list \<Rightarrow> byte list \<Rightarrow> bool) \<Rightarrow> string \<Rightarrow> mutation list \<Rightarrow> bool" where
  "keeps_out re2 i ms \<longleftrightarrow> timestamped ms \<and> (\<forall>cs. holds re2 i (apply_mutations ms cs) \<longrightarrow> holds re2 i cs)"

definition claims_row :: "string \<Rightarrow> check_and_mutate_row_request grpc_request \<Rightarrow> bool" where
  "claims_row i q \<longleftrightarrow> cm_predicate_filter (gr_message q) = Some (claim_filter i) \<and>
     cm_true_mutations (gr_message q) = [delete_row]"

text \<open>
  \<open>counts re2 t i n p Q\<close>: run anywhere between other tasks, the program \<open>p\<close> writes \<open>i\<close> to no row
  of table \<open>t\<close>, and if it returns \<open>x\<close> after having claimed \<open>i\<close> \<open>n'\<close> times, \<open>n\<close> of them before,
  then \<open>Q n' x\<close>.
\<close>

primrec counts ::
  "(byte list \<Rightarrow> byte list \<Rightarrow> bool) \<Rightarrow> string \<Rightarrow> string \<Rightarrow> ('t, 'a) prog \<Rightarrow> nat \<Rightarrow> (nat \<Rightarrow> 'a \<Rightarrow> bool) \<Rightarrow> bool" where
  "counts re2 t i (Return r) = (\<lambda>n Q. case r of Inl e \<Rightarrow> True | Inr x \<Rightarrow> Q n x)"
| "counts re2 t i (MutateRow q k) = (\<lambda>n Q. mr_table_name (gr_message q) = t \<and>
     keeps_out re2 i (mr_mutations (gr_message q)) \<and> (\<forall>a. counts re2 t i (k a) n Q))"
| "counts re2 t i (ReadRows q k) = (\<lambda>n Q. rr_table_name (gr_message q) = t \<and> rr_rows (gr_message q) \<noteq> None \<and>
     rr_filter (gr_message q) \<noteq> None \<and> (\<forall>a. counts re2 t i (k a) n Q))"
| "counts re2 t i (CheckAndMutateRow q k) = (\<lambda>n Q. cm_table_name (gr_message q) = t \<and>
     cm_predicate_filter (gr_message q) \<noteq> None \<and>
     keeps_out re2 i (cm_true_mutations (gr_message q)) \<and>
     (\<forall>a. counts re2 t i (k a) (if a = Inr True \<and> claims_row i q then Suc n else n) Q))"
| "counts re2 t i (GetTable q k) = (\<lambda>n Q. False)"
| "counts re2 t i (CreateTable q k) = (\<lambda>n Q. False)"
| "counts re2 t i (Connect q k) = (\<lambda>n Q. \<forall>a. counts re2 t i (k a) n Q)"
| "counts re2 t i (Credentials q k) = (\<lambda>n Q. \<forall>a. counts re2 t i (k a) n Q)"
| "counts re2 t i (AccessToken q k) = (\<lambda>n Q. \<forall>a. counts re2 t i (k a) n Q)"
| "counts re2 t i (NowMs k) = (\<lambda>n Q. \<forall>a. stampable a \<longrightarrow> counts re2 t i (k a) n Q)"
| "counts re2 t i (NewId k) = (\<lambda>n Q. \<forall>a. counts re2 t i (k a) n Q)"
| "counts re2 t i (NextSeq k) = (\<lambda>n Q. \<forall>a. counts re2 t i (k a) n Q)"

lemma counts_bind:
  "counts re2 t i (bind_prog p f) n Q \<longleftrightarrow> counts re2 t i p n (\<lambda>n x. counts re2 t i (f x) n Q)"
  by (induction p arbitrary: n) (auto split: sum.splits)

lemma counts_impl:
  assumes "counts re2 t i p n Q" and "\<And>n x. Q n x \<Longrightarrow> R n x"
  shows "counts re2 t i p n R"
  using assms(1) by (induction p arbitrary: n) (auto simp: assms(2) split: sum.splits)

lemma counts_bindI:
  assumes "counts re2 t i p n R" and "\<And>n x. R n x \<Longrightarrow> counts re2 t i (f x) n Q"
  shows "counts re2 t i (bind_prog p f) n Q"
  unfolding counts_bind using assms by (rule counts_impl)

lemma counts_done [simp]: "counts re2 t i (done_with x) n Q \<longleftrightarrow> Q n x"
  by (simp add: done_with_def)

lemma counts_answer [simp]: "counts re2 t i (answer r) n Q \<longleftrightarrow> (\<forall>x. r = Inr x \<longrightarrow> Q n x)"
  by (auto simp: answer_def split: sum.splits)

section \<open>Mutations that keep \<open>i\<close> out\<close>

lemma holds_simp:
  "holds re2 i cs \<longleftrightarrow> filter (\<lambda>c. re2 (exact i) (cl_value c))
     (newest (Suc 0) (filter (\<lambda>c. re2 (exact ''id'') (cl_qualifier c)) (filter (\<lambda>c. re2 (octets family_m) (octets (cl_family c))) cs))) \<noteq> []"
  by (simp add: holds_def claim_filter_def column_filter_def)

lemma holds_Nil [simp]: "\<not> holds re2 i []"
  by (simp add: holds_def)

lemma keeps_out_delete [simp]: "keeps_out re2 i [delete_row]"
  by (simp add: keeps_out_def delete_row_def timestamped_def)

text \<open>The cells of the column the predicate looks at.\<close>

definition id_cell :: "cell \<Rightarrow> bool" where
  "id_cell c \<longleftrightarrow> cl_family c = family_m \<and> cl_qualifier c = octets ''id''"

lemma holds_iff:
  assumes "matches_literally re2" and "is_ascii i"
  shows "holds re2 i cs \<longleftrightarrow>
     (\<exists>c\<in>set (newest (Suc 0) (filter id_cell cs)). cl_value c = octets i)"
proof -
  have "re2 (octets family_m) (octets (cl_family c)) \<longleftrightarrow> cl_family c = family_m" for c
    by (rule family_matches [OF assms(1)]) simp
  moreover have "re2 (exact ''id'') x \<longleftrightarrow> x = octets ''id''" for x
    by (rule exact_matches [OF assms(1)]) simp
  ultimately have "filter (\<lambda>c. re2 (exact ''id'') (cl_qualifier c)) (filter (\<lambda>c. re2 (octets family_m) (octets (cl_family c))) cs) =
      filter id_cell cs"
    unfolding filter_filter by (intro filter_cong) (auto simp only: id_cell_def)
  moreover have "re2 (exact i) x \<longleftrightarrow> x = octets i" for x by (rule exact_matches [OF assms])
  ultimately show ?thesis unfolding holds_simp by (simp add: filter_empty_conv)
qed

definition other_column :: "mutation \<Rightarrow> bool" where
  "other_column m \<longleftrightarrow> (\<exists>f c v ts. m = set_cell f c v ts \<and> (f \<noteq> family_m \<or> c \<noteq> ''id'') \<and> stampable ts)"

lemma other_column_cells:
  "list_all other_column ms \<Longrightarrow> filter id_cell (apply_mutations ms cs) = filter id_cell cs"
proof (induction ms arbitrary: cs)
  case (Cons m ms)
  then have "other_column m" by simp
  then obtain f c v ts where m: "m = set_cell f c v ts" "f \<noteq> family_m \<or> c \<noteq> ''id''"
    unfolding other_column_def by blast
  let ?x = "\<lparr>cl_family = f, cl_qualifier = octets c, cl_timestamp = ts * 1000, cl_value = v\<rparr>"
  have x: "\<not> id_cell ?x" using m(2) octets_inject [of c "''id''"] by (auto simp only: id_cell_def cell.simps)
  then have "\<not> same_column ?x y" if "id_cell y" for y
    using that by (auto simp only: same_column_def id_cell_def cell.simps)
  then have "filter id_cell (filter (\<lambda>y. \<not> (same_column ?x y \<and> cl_timestamp y = ts * 1000)) cs) = filter id_cell cs"
    unfolding filter_filter by (intro filter_cong) auto
  with x have "filter id_cell (apply_mutation cs m) = filter id_cell cs"
    unfolding m(1) set_cell_def apply_mutation.simps Let_def set_cell_mutation.simps by simp
  then show ?case using Cons by simp
qed simp

lemma other_column_timestamped: "list_all other_column ms \<Longrightarrow> timestamped ms"
  by (induction ms) (auto simp: other_column_def sint_stamp)

lemma keeps_out_other:
  assumes "matches_literally re2" and "is_ascii i" and "list_all other_column ms"
  shows "keeps_out re2 i ms"
  using other_column_timestamped [OF assms(3)]
  unfolding keeps_out_def holds_iff [OF assms(1,2)] other_column_cells [OF assms(3)] by blast

lemma keeps_out_message:
  assumes lit: "matches_literally re2" and i: "is_ascii i" and m: "stampable (m_accepted m)" "m_id m \<noteq> i"
  shows "keeps_out re2 i (message_mutations m)"
proof -
  let ?id = "set_cell family_m ''id'' (octets (m_id m)) (m_accepted m)"
  obtain ms where ms: "message_mutations m = delete_row # ?id # ms" and other: "list_all other_column ms"
  proof
    show "message_mutations m = delete_row # ?id # tl (tl (message_mutations m))"
      by (simp add: message_mutations_def Let_def)
    show "list_all other_column (tl (tl (message_mutations m)))"
      using m(1) by (auto simp: message_mutations_def Let_def other_column_def optional_cell_def split: option.splits)
  qed
  have stamp: "0 \<le> sint (m_accepted m * 1000)" using sint_stamp [OF m(1)] by simp
  have "filter id_cell (apply_mutations (message_mutations m) cs) =
     [\<lparr>cl_family = family_m, cl_qualifier = octets ''id'', cl_timestamp = m_accepted m * 1000, cl_value = octets (m_id m)\<rparr>]" for cs
    unfolding ms apply_mutations_simps other_column_cells [OF other]
    by (simp add: delete_row_def set_cell_def apply_mutation.simps(1) Let_def id_cell_def)
  moreover have "timestamped (message_mutations m)"
    using stamp other_column_timestamped [OF other] by (simp add: ms)
  ultimately show ?thesis
    using m(2) by (simp add: keeps_out_def holds_iff [OF lit i] newest_def octets_inject)
qed

section \<open>The programs\<close>

lemma counts_with_token:
  "counts re2 t i (with_token cl source md) n (\<lambda>n' _. n' = n)"
  by (auto simp: with_token_def counts_bind metadata_value_def split: option.splits)

lemma counts_table_request:
  "counts re2 t i (table_request b m) n (\<lambda>n' q. n' = n \<and> gr_message q = m)"
  unfolding table_request_def authorized_request_def metadata_value_def counts_bind
  by (simp add: counts_impl [OF counts_with_token])

lemma counts_mutate:
  fixes b :: "'t bigtable_store"
  assumes "keeps_out re2 i ms"
  shows "counts re2 (bs_table b) i (mutate b key ms) n (\<lambda>n' _. n' = n)"
  unfolding mutate_def
  by (rule counts_bindI [OF counts_table_request]) (use assms in \<open>auto simp: answered_def split: sum.splits\<close>)

lemma counts_mutate_if:
  fixes b :: "'t bigtable_store"
  assumes "keeps_out re2 i ms"
  shows "counts re2 (bs_table b) i (mutate_if b key f ms) n
     (\<lambda>n' x. n' = (if x \<and> f = claim_filter i \<and> ms = [delete_row] then Suc n else n))"
  unfolding mutate_if_def
  by (rule counts_bindI [OF counts_table_request])
    (use assms in \<open>auto simp: answered_def claims_row_def split: sum.splits\<close>)

lemma counts_read_rows:
  fixes b :: "'t bigtable_store"
  shows "counts re2 (bs_table b) i (read_rows b rs) n (\<lambda>n' _. n' = n)"
  unfolding read_rows_def
  by (rule counts_bindI [OF counts_table_request]) (auto simp: answered_def split: sum.splits)

lemma counts_get_row: "counts re2 (bs_table b) i (get_row b key) n (\<lambda>n' _. n' = n)"
  unfolding get_row_def by (rule counts_bindI [OF counts_read_rows]) simp

lemma counts_put:
  fixes b :: "'t bigtable_store"
  assumes "matches_literally re2" and "is_ascii i"
  shows "counts re2 (bs_table b) i (put b key family_d cols) n (\<lambda>n' _. n' = n)"
proof -
  have "keeps_out re2 i (map (\<lambda>(c, v). set_cell family_d c v now) cols)" if "stampable now" for now
    by (rule keeps_out_other [OF assms]) (use that in \<open>auto simp: list_all_iff other_column_def family_d_def family_m_def\<close>)
  then show ?thesis by (simp add: put_def counts_mutate)
qed

lemma counts_delete_key: "counts re2 (bs_table b) i (delete_key b key) n (\<lambda>n' _. n' = n)"
  unfolding delete_key_def by (rule counts_mutate) simp

lemma exact_char_cases: "exact_char c = [c] \<and> c \<noteq> CHR 0x5C \<or> exact_char c = [CHR 0x5C, c]"
proof -
  have "\<not> is_ascii_alphanumeric (CHR 0x5C)" and "\<not> tail_byte (of_char (CHR 0x5C))"
    by (simp_all add: is_ascii_alphanumeric_def is_ascii_digit_def is_ascii_upper_def is_ascii_lower_def
        tail_byte_def less_eq_char_def)
  then show ?thesis by (cases "c = CHR 0x5C") (simp_all add: exact_char_def)
qed

lemma exact_char_append: "exact_char c @ x = exact_char c' @ y \<Longrightarrow> c = c' \<and> x = y"
  using exact_char_cases [of c] exact_char_cases [of c'] by (elim disjE conjE) simp_all

lemma exact_char_not_Nil: "exact_char c \<noteq> []"
  using exact_char_cases [of c] by (elim disjE conjE) simp_all

lemma exact_chars_inject: "concat (map exact_char a) = concat (map exact_char b) \<Longrightarrow> a = b"
proof (induction a arbitrary: b)
  case Nil
  then show ?case using exact_char_not_Nil by (cases b) simp_all
next
  case (Cons c a)
  obtain c' b' where b: "b = c' # b'" using Cons.prems exact_char_not_Nil [of c] by (cases b) simp_all
  then have "exact_char c @ concat (map exact_char a) = exact_char c' @ concat (map exact_char b')"
    using Cons.prems by simp
  from exact_char_append [OF this] Cons.IH show ?case by (simp add: b)
qed

lemma claim_filter_inject [simp]: "claim_filter j = claim_filter i \<longleftrightarrow> j = i"
proof
  assume "claim_filter j = claim_filter i"
  then have "exact j = exact i" by (simp add: claim_filter_def column_filter_def)
  then have "concat (map exact_char j) = concat (map exact_char i)"
    unfolding exact_def by (simp add: octets_inject)
  then show "j = i" by (rule exact_chars_inject)
qed simp

lemma counts_remove_message:
  fixes b :: "'t bigtable_store"
  shows "counts re2 (bs_table b) i (bt_remove_message b key m) n (\<lambda>n' x. n' = (if x \<and> m_id m = i then Suc n else n))"
  unfolding bt_remove_message_def delete_message_row_def claim_filter_def [symmetric]
  by (rule counts_bindI [OF counts_mutate_if])
    (auto simp: counts_bind intro!: counts_impl [OF counts_delete_key])

lemma counts_locate: "counts re2 (bs_table b) i (locate b j) n (\<lambda>n' _. n' = n)"
  unfolding locate_def
  by (rule counts_bindI [OF counts_get_row])
    (auto simp: counts_bind intro!: counts_impl [OF counts_get_row] split: option.split)

text \<open>What a program reports of \<open>i\<close>, it has claimed.\<close>

definition backed :: "nat \<Rightarrow> ('a \<Rightarrow> nat) \<Rightarrow> nat \<Rightarrow> 'a \<Rightarrow> bool" where
  "backed n f n' x \<longleftrightarrow> n + f x \<le> n'"

lemma counts_delete_message:
  fixes b :: "'t bigtable_store"
  shows "counts re2 (bs_table b) i (bt_delete_message b j owner) n (backed n (\<lambda>r. reports i (Deleted r)))"
  unfolding bt_delete_message_def
proof (rule counts_bindI [OF counts_locate])
  fix n' r assume [simp]: "n' = n"
  show "counts re2 (bs_table b) i (case r of None \<Rightarrow> done_with None | Some (key, m) \<Rightarrow>
      if case owner of None \<Rightarrow> False | Some (uaid, ch) \<Rightarrow> m_uaid m \<noteq> uaid \<or> m_channel_id m \<noteq> ch
      then done_with None
      else bind_prog (bt_remove_message b key m) (\<lambda>removed. done_with (if removed then Some m else None))) n'
      (backed n (\<lambda>r. reports i (Deleted r)))"
    by (auto simp: counts_bind backed_def intro!: counts_impl [OF counts_remove_message] split: option.split)
qed

lemma counts_enqueue:
  fixes b :: "'t bigtable_store"
  assumes "matches_literally re2" and "is_ascii i"
  shows "counts re2 (bs_table b) i (bt_enqueue_receipt b r) n (\<lambda>n' _. n' = n)"
proof -
  have "counts re2 (bs_table b) i (bind_prog (put b key family_d cols) (\<lambda>_. done_with x)) n (\<lambda>n' _. n' = n)"
    for key cols and x :: "u64 option"
    by (rule counts_bindI [OF counts_put [OF assms]]) simp
  then show ?thesis
    unfolding bt_enqueue_receipt_def bt_receipt_sub_exists_def row_exists_def
    by (intro counts_bindI [OF counts_bindI [OF counts_get_row, where Q = "\<lambda>n' _. n' = n"]]) auto
qed

lemma counts_owe_410:
  fixes b :: "'t bigtable_store"
  assumes "matches_literally re2" and "is_ascii i"
  shows "counts re2 (bs_table b) i (bt_owe_410 b m) n
     (\<lambda>n' x. n' = n \<and> (\<forall>seq r. x = Some (seq, r) \<longrightarrow> rc_msg_id r = m_id m))"
proof (cases "m_rsub m")
  case (Some rsub)
  show ?thesis
    unfolding bt_owe_410_def Some option.case Let_def
    by (rule counts_bindI [OF counts_enqueue [OF assms]]) auto
qed (simp add: bt_owe_410_def)

text \<open>Removing a message and owing its receipt: what the loops of the removals do per row.\<close>

lemma counts_remove_owing:
  fixes b :: "'t bigtable_store"
  assumes "matches_literally re2" and "is_ascii i"
  shows "counts re2 (bs_table b) i
     (bind_prog (bt_remove_message b key m) (\<lambda>removed. if removed then bt_owe_410 b m else done_with None)) n
     (backed n (\<lambda>x. receipts_for i (case x of None \<Rightarrow> [] | Some x \<Rightarrow> [x])))"
proof (rule counts_bindI [OF counts_remove_message])
  fix n' x assume n': "n' = (if x \<and> m_id m = i then Suc n else n)"
  show "counts re2 (bs_table b) i (if x then bt_owe_410 b m else done_with None) n'
     (backed n (\<lambda>x. receipts_for i (case x of None \<Rightarrow> [] | Some x \<Rightarrow> [x])))"
  proof (cases x)
    case True
    then have "counts re2 (bs_table b) i (bt_owe_410 b m) n'
       (backed n (\<lambda>x. receipts_for i (case x of None \<Rightarrow> [] | Some x \<Rightarrow> [x])))"
      by (intro counts_impl [OF counts_owe_410 [OF assms]])
        (auto simp: n' backed_def receipts_for_def split: option.splits)
    with True show ?thesis by simp
  qed (simp add: backed_def receipts_for_def n')
qed

lemma bind_assoc: "bind_prog (bind_prog p f) g = bind_prog p (\<lambda>x. bind_prog (f x) g)"
  by (induction p) (auto split: sum.splits)

lemma receipts_for_append [simp]: "receipts_for i (a @ b) = receipts_for i a + receipts_for i b"
  by (simp add: receipts_for_def)

lemma receipts_for_Nil [simp]: "receipts_for i [] = 0"
  by (simp add: receipts_for_def)

lemma counts_backed_bind:
  assumes "counts re2 t i p n (backed n f)" and "\<And>n x. counts re2 t i (q x) n (backed n g)"
    and "\<And>x y. k (h x y) \<le> f x + g y"
  shows "counts re2 t i (bind_prog p (\<lambda>x. bind_prog (q x) (\<lambda>y. done_with (h x y)))) n (backed n k)"
proof (rule counts_bindI [OF assms(1)], rule counts_bindI [OF assms(2)])
  fix n1 x n2 y assume "backed n f n1 x" and "backed n1 g n2 y"
  with assms(3) [of x y] show "counts re2 t i (done_with (h x y)) n2 (backed n k)" by (simp add: backed_def)
qed

lemma counts_remove_channel_rows:
  fixes b :: "'t bigtable_store"
  assumes "matches_literally re2" and "is_ascii i"
  shows "counts re2 (bs_table b) i (remove_channel_rows b ch rows) n (backed n (receipts_for i))"
proof (induction b ch rows arbitrary: n rule: remove_channel_rows.induct)
  case (2 b ch key r rows)
  show ?case
  proof (cases "message_from_row key r")
    case None
    then show ?thesis using 2(1) by simp
  next
    case (Some m)
    show ?thesis
    proof (cases "m_channel_id m = ch")
      case True
      have "counts re2 (bs_table b) i
         (bind_prog (bind_prog (bt_remove_message b key m) (\<lambda>removed. if removed then bt_owe_410 b m else done_with None))
           (\<lambda>owed. bind_prog (remove_channel_rows b ch rows)
             (\<lambda>receipts. done_with ((case owed of None \<Rightarrow> [] | Some x \<Rightarrow> [x]) @ receipts)))) n (backed n (receipts_for i))"
        using 2(3) [OF Some] True by (intro counts_backed_bind [OF counts_remove_owing [OF assms], where g = "receipts_for i"]) simp_all
      with Some True show ?thesis by (simp add: bind_assoc)
    qed (use 2(2) [OF Some] Some in simp)
  qed
qed (simp add: backed_def)

lemma counts_channel: "counts re2 (bs_table b) i (bt_channel b u c) n (\<lambda>n' _. n' = n)"
  unfolding bt_channel_def by (rule counts_bindI [OF counts_get_row]) (auto split: option.split)

lemma counts_delete_subscription:
  fixes b :: "'t bigtable_store"
  assumes "matches_literally re2" and "is_ascii i"
  shows "counts re2 (bs_table b) i (bt_delete_subscription b u c) n (backed n (receipts_for i))"
  unfolding bt_delete_subscription_def
proof (rule counts_bindI [OF counts_channel])
  fix n' x assume [simp]: "n' = n"
  show "counts re2 (bs_table b) i (case x of None \<Rightarrow> done_with [] | Some sub \<Rightarrow>
     bind_prog (read_rows b (key_prefix (''msg#'' @ u @ ''#''))) (\<lambda>rows.
     bind_prog (remove_channel_rows b c rows) (\<lambda>receipts.
     bind_prog (delete_key b (channel_key u c)) (\<lambda>_.
     bind_prog (delete_key b (''push#'' @ sub_push sub)) (\<lambda>_. done_with receipts))))) n' (backed n (receipts_for i))"
  proof (cases x)
    case (Some sub)
    have "counts re2 (bs_table b) i
       (bind_prog (delete_key b (channel_key u c)) (\<lambda>_. bind_prog (delete_key b (''push#'' @ sub_push sub)) (\<lambda>_. done_with receipts)))
       n1 (backed n (receipts_for i))" if "backed n (receipts_for i) n1 receipts" for n1 receipts
      by (rule counts_bindI [OF counts_delete_key], rule counts_bindI [OF counts_delete_key]) (use that in simp)
    then show ?thesis
      unfolding Some option.case
      by (intro counts_bindI [OF counts_read_rows] counts_bindI [OF counts_remove_channel_rows [OF assms]]) simp_all
  qed (simp add: backed_def)
qed

lemma counts_delete_channels:
  fixes b :: "'t bigtable_store"
  assumes "matches_literally re2" and "is_ascii i"
  shows "counts re2 (bs_table b) i (delete_channels b u rows) n (backed n (receipts_for i))"
proof (induction b u rows arbitrary: n rule: delete_channels.induct)
  case (2 b u key r rows)
  show ?case
    unfolding delete_channels.simps
    by (rule counts_backed_bind [OF counts_delete_subscription [OF assms] 2]) simp
qed (simp add: backed_def)

lemma counts_delete_user_agent:
  fixes b :: "'t bigtable_store"
  assumes "matches_literally re2" and "is_ascii i"
  shows "counts re2 (bs_table b) i (bt_delete_user_agent b u) n (backed n (receipts_for i))"
  unfolding bt_delete_user_agent_def
proof (rule counts_bindI [OF counts_read_rows], rule counts_bindI [OF counts_delete_channels [OF assms]])
  fix n1 n2 rows receipts assume "n1 = n" and "backed n1 (receipts_for i) n2 receipts"
  then show "counts re2 (bs_table b) i (bind_prog (delete_key b (''ua#'' @ u)) (\<lambda>_. done_with receipts)) n2
      (backed n (receipts_for i))"
    by (intro counts_bindI [OF counts_delete_key]) simp
qed

lemma counts_expire_rows:
  fixes b :: "'t bigtable_store"
  assumes "matches_literally re2" and "is_ascii i"
  shows "counts re2 (bs_table b) i (expire_rows b cutoff rows) n (backed n (\<lambda>x. receipts_for i (snd x)))"
proof (induction b cutoff rows arbitrary: n rule: expire_rows.induct)
  case (2 b cutoff key r rows)
  have "counts re2 (bs_table b) i (bind_prog (bt_delete_user_agent b u) (\<lambda>rs. bind_prog (expire_rows b cutoff rows)
     (\<lambda>x. done_with (Suc (fst x), rs @ snd x)))) n (backed n (\<lambda>x. receipts_for i (snd x)))"
    if "\<And>n. counts re2 (bs_table b) i (expire_rows b cutoff rows) n (backed n (\<lambda>x. receipts_for i (snd x)))" for u
    by (rule counts_backed_bind [OF counts_delete_user_agent [OF assms] that]) simp
  then show ?case using 2 by (auto simp: case_prod_beta' split: option.split)
qed (simp add: backed_def)

lemma counts_expire_user_agents:
  fixes b :: "'t bigtable_store"
  assumes "matches_literally re2" and "is_ascii i"
  shows "counts re2 (bs_table b) i (bt_expire_user_agents b cutoff) n (backed n (\<lambda>x. receipts_for i (snd x)))"
  unfolding bt_expire_user_agents_def
  by (rule counts_bindI [OF counts_read_rows]) (use counts_expire_rows [OF assms] in simp)

lemma counts_reap_row:
  fixes b :: "'t bigtable_store"
  assumes "matches_literally re2" and "is_ascii i"
  shows "counts re2 (bs_table b) i (reap_row b j idx) n (backed n (\<lambda>x. receipts_for i (case x of None \<Rightarrow> [] | Some x \<Rightarrow> [x])))"
proof (cases "col_text idx ''row''")
  case (Some key)
  have none: "backed n (\<lambda>x. receipts_for i (case x of None \<Rightarrow> [] | Some x \<Rightarrow> [x])) n None" for n
    by (simp add: backed_def)
  show ?thesis
    unfolding reap_row_def Some option.case
    by (rule counts_bindI [OF counts_get_row])
      (auto simp: none intro!: counts_remove_owing [OF assms] split: option.split)
qed (simp add: reap_row_def backed_def)

lemma counts_reap_rows:
  fixes b :: "'t bigtable_store"
  assumes "matches_literally re2" and "is_ascii i"
  shows "counts re2 (bs_table b) i (reap_rows b rows) n (backed n (receipts_for i))"
proof (induction b rows arbitrary: n rule: reap_rows.induct)
  case (2 b idx r rows)
  have rest: "counts re2 (bs_table b) i (bind_prog (delete_key b idx) (\<lambda>_. bind_prog (reap_rows b rows) done_with)) n
      (backed n (receipts_for i))" for n
    by (rule counts_bindI [OF counts_delete_key], rule counts_bindI [OF 2]) (simp add: backed_def)
  have "counts re2 (bs_table b) i (bind_prog (reap_row b (rsplit_next (CHR ''#'') idx) r) (\<lambda>owed.
      bind_prog (bind_prog (delete_key b idx) (\<lambda>_. bind_prog (reap_rows b rows) done_with))
        (\<lambda>receipts. done_with ((case owed of None \<Rightarrow> [] | Some x \<Rightarrow> [x]) @ receipts)))) n (backed n (receipts_for i))"
    by (rule counts_backed_bind [OF counts_reap_row [OF assms] rest]) simp
  then show ?case by (simp add: bind_assoc) (simp add: done_with_def)
qed (simp add: backed_def)

lemma counts_reap:
  fixes b :: "'t bigtable_store"
  assumes "matches_literally re2" and "is_ascii i"
  shows "counts re2 (bs_table b) i (bt_reap b now) n (backed n (receipts_for i))"
  unfolding bt_reap_def by (rule counts_bindI [OF counts_read_rows]) (use counts_reap_rows [OF assms] in simp)

lemma counts_insert_message:
  fixes b :: "'t bigtable_store"
  assumes "matches_literally re2" and "is_ascii i" and "m_id m \<noteq> i" and "stampable (m_accepted m)"
  shows "counts re2 (bs_table b) i (bt_insert_message b m) n (\<lambda>n' _. n' = n)"
proof -
  have "keeps_out re2 i [set_cell family_m ''row'' (octets (message_key m)) (m_accepted m)]"
    by (rule keeps_out_other [OF assms(1,2)]) (use assms(4) in \<open>auto simp: other_column_def\<close>)
  moreover have "keeps_out re2 i (message_mutations m)"
    by (rule keeps_out_message [OF assms(1,2,4,3)])
  ultimately show ?thesis
    unfolding bt_insert_message_def Let_def
    by (intro counts_bindI [OF counts_mutate] counts_bindI [OF counts_mutate])
      (auto intro!: counts_impl [OF counts_put [OF assms(1,2)]])
qed

text \<open>A task that does not store \<open>i\<close> again.\<close>

fun other_task :: "string \<Rightarrow> task \<Rightarrow> bool" where
  "other_task i (StoreMessage m) \<longleftrightarrow> m_id m \<noteq> i \<and> stampable (m_accepted m)"
| "other_task i _ \<longleftrightarrow> True"

lemma counts_task:
  fixes b :: "'t bigtable_store"
  assumes "matches_literally re2" and "is_ascii i" and "other_task i x"
  shows "counts re2 (bs_table b) i (task_prog b x) n (backed n (reports i))"
proof (cases x)
  case (DeleteMessage j owner)
  show ?thesis
    unfolding DeleteMessage task_prog.simps
    by (rule counts_bindI [OF counts_delete_message]) (simp add: backed_def)
next
  case (DropSubscription u c)
  show ?thesis unfolding DropSubscription task_prog.simps
    by (rule counts_bindI [OF counts_delete_subscription [OF assms(1,2)]]) (simp add: backed_def)
next
  case (DropUserAgent u)
  show ?thesis unfolding DropUserAgent task_prog.simps
    by (rule counts_bindI [OF counts_delete_user_agent [OF assms(1,2)]]) (simp add: backed_def)
next
  case (ExpireUserAgents cutoff)
  show ?thesis unfolding ExpireUserAgents task_prog.simps
    by (rule counts_bindI [OF counts_expire_user_agents [OF assms(1,2)]]) (auto simp: backed_def)
next
  case (ReapMessages now)
  show ?thesis unfolding ReapMessages task_prog.simps
    by (rule counts_bindI [OF counts_reap [OF assms(1,2)]]) (simp add: backed_def)
next
  case (StoreMessage m)
  show ?thesis unfolding StoreMessage task_prog.simps
    by (rule counts_bindI [OF counts_insert_message]) (use assms in \<open>simp_all add: StoreMessage backed_def\<close>)
qed


end
