(* ===== verification/Bigtable_Settled.thy ===== *)
theory Bigtable_Settled
  imports Bigtable_Claims
begin

text \<open>
  The schedules of \<open>Bigtable_Claims\<close>: the claims counted over all tasks and the rows that hold
  the message never exceed one, so no schedule settles a message twice.
\<close>

section \<open>One call, between the others\<close>

text \<open>The rows that hold \<open>i\<close>; at most one ever does.\<close>

definition holders :: "(byte list \<Rightarrow> byte list \<Rightarrow> bool) \<Rightarrow> string \<Rightarrow> (byte list \<Rightarrow> cell list) \<Rightarrow> byte list set" where
  "holders re2 i t = {k. holds re2 i (t k)}"

definition at_most_one :: "'k set \<Rightarrow> bool" where
  "at_most_one S \<longleftrightarrow> (\<forall>x\<in>S. \<forall>y\<in>S. x = y)"

definition live :: "'k set \<Rightarrow> nat" where
  "live S = (if S = {} then 0 else 1)"

lemma live_mono: "S \<subseteq> S' \<Longrightarrow> live S \<le> live S'"
  by (auto simp: live_def)

lemma single_subset: "at_most_one S' \<Longrightarrow> S \<subseteq> S' \<Longrightarrow> at_most_one S"
  by (auto simp: at_most_one_def)

definition calls_clock :: "world \<Rightarrow> bool" where
  "calls_clock w \<longleftrightarrow> (\<forall>n. wl_clock w n * 1000 < 2 ^ 63)"

lemma keeps_out_holders:
  "keeps_out re2 i ms \<Longrightarrow> holders re2 i (t(k := apply_mutations ms (t k))) \<subseteq> holders re2 i t"
  by (auto simp: keeps_out_def holders_def split: if_splits)

text \<open>A claim empties the one row that held \<open>i\<close>.\<close>

lemma claim_holders:
  assumes "at_most_one (holders re2 i t)" and "holds re2 i (t k)"
  shows "holders re2 i (t(k := apply_mutations [delete_row] (t k))) = {}"
  using assms by (auto simp: holders_def at_most_one_def delete_row_def)

text \<open>What a call leaves: \<open>n'\<close> claims by the caller, and the rows of the table.\<close>

definition settles ::
  "(byte list \<Rightarrow> byte list \<Rightarrow> bool) \<Rightarrow> string \<Rightarrow> (byte list \<Rightarrow> cell list) \<Rightarrow> (byte list \<Rightarrow> cell list) \<Rightarrow> nat \<Rightarrow> nat \<Rightarrow> bool" where
  "settles re2 i t t' n n' \<longleftrightarrow> at_most_one (holders re2 i t') \<and> n' + live (holders re2 i t') \<le> n + live (holders re2 i t)"

lemma settles_subset:
  "at_most_one (holders re2 i t) \<Longrightarrow> holders re2 i t' \<subseteq> holders re2 i t \<Longrightarrow> settles re2 i t t' n n"
  by (simp add: settles_def live_mono single_subset)

lemma settles_claim:
  assumes "at_most_one (holders re2 i t)" and "holds re2 i (t k)"
  shows "settles re2 i t (t(k := apply_mutations [delete_row] (t k))) n (Suc n)"
proof -
  have "holders re2 i t \<noteq> {}" using assms(2) by (auto simp: holders_def)
  then show ?thesis unfolding settles_def claim_holders [OF assms] by (simp add: live_def at_most_one_def)
qed

lemma mutate_settles:
  assumes "serves_mutations svc t tab" and "mr_table_name (gr_message q) = t"
    and "keeps_out re2 i (mr_mutations (gr_message q))" and "gs_mutate_row svc q d = (r, d')"
    and "at_most_one (holders re2 i (tab d))"
  shows "settles re2 i (tab d) (tab d') n n"
proof -
  have "timestamped (mr_mutations (gr_message q))" using assms(3) by (simp add: keeps_out_def)
  then have "tab d' = (tab d)(mr_row_key (gr_message q) :=
      apply_mutations (mr_mutations (gr_message q)) (tab d (mr_row_key (gr_message q)))) \<or> tab d' = tab d"
    using assms(1,2,4) unfolding serves_mutations_def Let_def by blast
  then show ?thesis
    by (rule disjE) (simp_all add: settles_subset [OF assms(5)] keeps_out_holders [OF assms(3)])
qed

lemma check_settles:
  assumes svc: "serves_checks re2 svc t tab" and t: "cm_table_name (gr_message q) = t"
    and f: "cm_predicate_filter (gr_message q) \<noteq> None"
    and ms: "keeps_out re2 i (cm_true_mutations (gr_message q))" and r: "gs_check_and_mutate_row svc q d = (r, d')"
    and single: "at_most_one (holders re2 i (tab d))"
  shows "settles re2 i (tab d) (tab d') n (if r = Inr True \<and> claims_row i q then Suc n else n)"
proof -
  obtain f where f: "cm_predicate_filter (gr_message q) = Some f" using f by blast
  let ?k = "cm_row_key (gr_message q)" and ?ms = "cm_true_mutations (gr_message q)"
  let ?matched = "yields re2 f (tab d ?k) \<noteq> []" and ?t = "(tab d)(?k := apply_mutations ?ms (tab d ?k))"
  have answer: "(\<forall>x. r = Inr x \<longrightarrow> x = ?matched \<and> tab d' = (if ?matched then ?t else tab d)) \<and>
      (isl r \<longrightarrow> tab d' = (if ?matched then ?t else tab d) \<or> tab d' = tab d)"
    using svc t f ms r unfolding serves_checks_def Let_def keeps_out_def by blast
  show ?thesis
  proof (cases "r = Inr True \<and> claims_row i q")
    case True
    then have "f = claim_filter i" and del: "?ms = [delete_row]" using f by (simp_all add: claims_row_def)
    moreover have "?matched" and "tab d' = ?t" using True answer by auto
    ultimately have "holds re2 i (tab d ?k)" and "tab d' = (tab d)(?k := apply_mutations [delete_row] (tab d ?k))"
      by (simp_all add: holds_def)
    then show ?thesis using True settles_claim [OF single] by simp
  next
    case False
    have "tab d' = ?t \<or> tab d' = tab d" using answer by (cases r) (auto split: if_splits)
    then have "holders re2 i (tab d') \<subseteq> holders re2 i (tab d)"
      by (rule disjE) (simp_all add: keeps_out_holders [OF ms])
    then show ?thesis unfolding if_not_P [OF False] by (rule settles_subset [OF single])
  qed
qed

lemma read_settles:
  assumes "serves_reads re2 svc t tab" and "rr_table_name (gr_message q) = t"
    and "rr_rows (gr_message q) \<noteq> None" and "rr_filter (gr_message q) \<noteq> None"
    and "gs_read_rows svc q d = (r, d')"
  shows "tab d' = tab d"
  using assms unfolding serves_reads_def by blast

lemma now_ms_stampable:
  assumes "calls_clock w"
  shows "stampable (fst (now_ms w))"
proof -
  have small: "wl_clock w (wl_reads w) * 1000 < 2 ^ 63" using assms by (simp only: calls_clock_def)
  then have "wl_clock w (wl_reads w) < 2 ^ 64" by simp
  then have "unat (fst (now_ms w)) = wl_clock w (wl_reads w)"
    by (simp add: now_ms_def Let_def unat_of_nat take_bit_nat_eq_self_iff)
  with small show ?thesis by (simp only: stampable_def)
qed

lemma same_clock:
  assumes "calls_clock w"
  shows "calls_clock (snd (new_id b64 w))" and "calls_clock (snd (next_seq w))" and "calls_clock (snd (now_ms w))"
  using assms by (simp_all add: calls_clock_def new_id_def next_seq_def now_ms_def random_bytes_def Let_def split: prod.split)

lemma rows_left:
  assumes "bigtable_service re2 svc t tab"
  shows "gs_token svc x d = (r, d') \<Longrightarrow> tab d' = tab d" "gs_connect svc y d = (r', d') \<Longrightarrow> tab d' = tab d"
    "gs_credentials svc z d = (r'', d') \<Longrightarrow> tab d' = tab d"
  using assms unfolding bigtable_service_def leaves_rows_def by (metis snd_conv)+

lemma step_settles:
  assumes svc: "bigtable_service re2 svc t tab" and p: "counts re2 t i p n Q"
    and step: "prog_step b64 svc p (d, w) = Some (p', d', w')"
    and single: "at_most_one (holders re2 i (tab d))" and clock: "calls_clock w"
  shows "\<exists>n'. counts re2 t i p' n' Q \<and> settles re2 i (tab d) (tab d') n n' \<and> calls_clock w'"
proof (cases p)
  case (MutateRow q k)
  then obtain r where r: "gs_mutate_row svc q d = (r, d')" "p' = k r" "w' = w"
    using step by (auto simp: on_service_def split: prod.splits)
  then have "settles re2 i (tab d) (tab d') n n"
    using p MutateRow svc single by (intro mutate_settles [where q = q]) (auto simp: bigtable_service_def)
  then show ?thesis using p MutateRow r clock by auto
next
  case (ReadRows q k)
  then obtain r where r: "gs_read_rows svc q d = (r, d')" "p' = k r" "w' = w"
    using step by (auto simp: on_service_def split: prod.splits)
  then have "tab d' = tab d"
    using p ReadRows svc by (intro read_settles) (auto simp: bigtable_service_def)
  then show ?thesis using p ReadRows r clock settles_subset [OF single] by auto
next
  case (CheckAndMutateRow q k)
  then obtain r where r: "gs_check_and_mutate_row svc q d = (r, d')" "p' = k r" "w' = w"
    using step by (auto simp: on_service_def split: prod.splits)
  then have "settles re2 i (tab d) (tab d') n (if r = Inr True \<and> claims_row i q then Suc n else n)"
    using p CheckAndMutateRow svc single by (intro check_settles [where q = q]) (auto simp: bigtable_service_def)
  moreover have "counts re2 t i (k r) (if r = Inr True \<and> claims_row i q then Suc n else n) Q"
    using p CheckAndMutateRow by simp
  ultimately show ?thesis using r clock by auto
next
  case (NowMs k)
  have "p' = k (fst (now_ms w))" "d' = d" "w' = snd (now_ms w)"
    using step NowMs by (auto simp: on_process_def split: prod.splits)
  moreover have "counts re2 t i (k (fst (now_ms w))) n Q"
    using p now_ms_stampable [OF clock] unfolding NowMs counts.simps by blast
  moreover have "settles re2 i (tab d) (tab d) n n" by (rule settles_subset [OF single subset_refl])
  ultimately show ?thesis using same_clock(3) [OF clock] by (intro exI [of _ n]) simp
next
  case (NewId k)
  have "p' = k (fst (new_id b64 w))" "d' = d" "w' = snd (new_id b64 w)"
    using step NewId by (auto simp: on_process_def split: prod.splits)
  then show ?thesis
    using p NewId same_clock(1) [OF clock] settles_subset [OF single subset_refl] by (auto simp del: One_nat_def)
next
  case (NextSeq k)
  have "p' = k (fst (next_seq w))" "d' = d" "w' = snd (next_seq w)"
    using step NextSeq by (auto simp: on_process_def split: prod.splits)
  then show ?thesis
    using p NextSeq same_clock(2) [OF clock] settles_subset [OF single subset_refl] by auto
next
  case (Connect q k)
  obtain r where r: "gs_connect svc q d = (r, d')" "p' = k r" "w' = w"
    using step Connect by (auto simp: on_service_def split: prod.splits)
  show ?thesis using p clock unfolding r(2,3) Connect counts.simps rows_left(2) [OF svc r(1)]
    by (blast intro: settles_subset [OF single subset_refl])
next
  case (Credentials q k)
  obtain r where r: "gs_credentials svc q d = (r, d')" "p' = k r" "w' = w"
    using step Credentials by (auto simp: on_service_def split: prod.splits)
  show ?thesis using p clock unfolding r(2,3) Credentials counts.simps rows_left(3) [OF svc r(1)]
    by (blast intro: settles_subset [OF single subset_refl])
next
  case (AccessToken q k)
  obtain r where r: "gs_token svc q d = (r, d')" "p' = k r" "w' = w"
    using step AccessToken by (auto simp: on_service_def split: prod.splits)
  show ?thesis using p clock unfolding r(2,3) AccessToken counts.simps rows_left(1) [OF svc r(1)]
    by (blast intro: settles_subset [OF single subset_refl])
qed (use p step in auto)

section \<open>Every schedule\<close>

definition single_settler ::
  "(byte list \<Rightarrow> byte list \<Rightarrow> bool) \<Rightarrow> string \<Rightarrow> string \<Rightarrow> ('d \<Rightarrow> byte list \<Rightarrow> cell list) \<Rightarrow>
   ('t, outcome) prog list \<times> 'd \<times> world \<Rightarrow> bool" where
  "single_settler re2 t i tab x \<longleftrightarrow> (case x of (ps, d, w) \<Rightarrow> calls_clock w \<and> at_most_one (holders re2 i (tab d)) \<and>
     (\<exists>ns. list_all2 (\<lambda>p n. counts re2 t i p n (backed 0 (reports i))) ps ns \<and>
        sum_list ns + live (holders re2 i (tab d)) \<le> 1))"

lemma single_settler_step:
  assumes svc: "bigtable_service re2 svc t tab" and step: "pool_step b64 svc x y" and inv: "single_settler re2 t i tab x"
  shows "single_settler re2 t i tab y"
  using step inv
proof cases
  case (pool_call p dw p' dw' ps qs)
  obtain d w d' w' where dw: "dw = (d, w)" "dw' = (d', w')" by (cases dw, cases dw')
  obtain ns n ms where ns: "list_all2 (\<lambda>p n. counts re2 t i p n (backed 0 (reports i))) ps ns"
      "counts re2 t i p n (backed 0 (reports i))"
      "list_all2 (\<lambda>p n. counts re2 t i p n (backed 0 (reports i))) qs ms"
      "sum_list (ns @ n # ms) + live (holders re2 i (tab d)) \<le> 1"
    using inv unfolding pool_call(1) dw single_settler_def
    by (auto simp: list_all2_append1 list_all2_Cons1)
  obtain n' where "counts re2 t i p' n' (backed 0 (reports i))" "settles re2 i (tab d) (tab d') n n'" "calls_clock w'"
    using step_settles [OF svc ns(2)] pool_call(3) inv unfolding pool_call(1) dw single_settler_def by blast
  then show ?thesis
    using ns unfolding pool_call(2) dw single_settler_def
    by (auto simp: settles_def list_all2_appendI intro!: exI [of _ "ns @ n' # ms"])
qed

lemma single_settler_run:
  assumes "bigtable_service re2 svc t tab" and "pool_run b64 svc x y" and "single_settler re2 t i tab x"
  shows "single_settler re2 t i tab y"
  using assms(2,3) unfolding pool_run_def
  by (induction rule: rtranclp_induct) (auto intro: single_settler_step [OF assms(1)])

lemma settlements_counted: "counts re2 t i p n (backed 0 (reports i)) \<Longrightarrow> settlements i p \<le> n"
  by (induction i p rule: settlements.induct) (simp_all add: backed_def)

lemma single_settler_settlements:
  "list_all2 (\<lambda>p n. counts re2 t i p n (backed 0 (reports i))) ps ns \<Longrightarrow> sum_list (map (settlements i) ps) \<le> sum_list ns"
  by (induction rule: list_all2_induct) (auto dest: settlements_counted)

lemma single_settler_tasks:
  fixes b :: "'t bigtable_store"
  assumes "bigtable_service re2 svc (bs_table b) tab" and "is_ascii i" and "list_all (other_task i) tasks"
    and "at_most_one (holders re2 i (tab d))" and "calls_clock w"
  shows "single_settler re2 (bs_table b) i tab (map (task_prog b) tasks, d, w)"
proof -
  have "matches_literally re2" using assms(1) by (simp add: bigtable_service_def)
  then have "list_all2 (\<lambda>p n. counts re2 (bs_table b) i p n (backed 0 (reports i))) (map (task_prog b) tasks) (map (\<lambda>_. 0) tasks)"
    using assms(2,3) by (auto simp: list_all2_conv_all_nth list_all_length intro: counts_task)
  then show ?thesis using assms(4,5) unfolding single_settler_def
    by (auto simp: live_def intro!: exI [of _ "map (\<lambda>_. 0) tasks"])
qed

end
