(* ===== verification/Bigtable_Props.thy ===== *)
theory Bigtable_Props
  imports Bigtable_Answers Bigtable_Settled Memory_Props
begin

text \<open>
  The properties of the Bigtable adapter, each applied to the emulator.
\<close>

lemma emulated_serves: "serves em_re2 emulator emulated em_tab"
  unfolding serves_def by (rule emulator_service)

lemma demo_steady: "steady demo_world"
  by (simp add: steady_def demo_world_def mono_def)

lemma no_emulated_rows: "no_rows em_tab []"
  by (simp add: no_rows_def em_tab_def fun_eq_iff)

definition demo_calls :: "store_call list" where
  "demo_calls = [CallInsert (demo_message ''m1'' None 1000), CallPending ''ua'' 2000 5, CallSetRoute (UserAgent ''ua'') ''n1'',
     CallDelete ''m1'' None, CallClearRoute (UserAgent ''ua'') ''n1'', CallMessage ''m1'']"

lemma demo_storable: "storable (demo_message i rsub 1000)" if "utf8_string i" "\<And>r. rsub = Some r \<Longrightarrow> utf8_string r"
  using that by (auto simp: storable_def demo_message_def utf8_string_def octets_def stampable_def)

lemma demo_fit: "all_fit call_fits [] demo_calls"
proof -
  have "storable (demo_message ''m1'' None 1000)" by (rule demo_storable) (simp_all add: utf8_string_def)
  then show ?thesis by (simp add: demo_calls_def utf8_string_def demo_message_def)
qed

lemma demo_inv: "bt_calls_inv em_tab [] ([], demo_world)"
  by (rule no_rows_inv [OF no_emulated_rows demo_steady])

lemma demo_calls_return:
  obtains as d w where
    "run_calls (call_store (bigtable_adapter demo_b64 emulator emulated)) demo_calls ([], demo_world) = (Inr as, d, w)"
  using calls_return [OF emulated_serves emulated_available demo_inv demo_fit] unfolding returns_def by fast

section \<open>The contract of the store\<close>

text \<open>
  Every sequence of calls on messages and routes that the Bigtable adapter completes is
  answered as the abstract store answers it, from any state it can be in: its rows stand for
  an abstract store before and after, whatever the service does between one call and the next
  attempt, as long as it keeps the promises of its API.
\<close>

theorem bigtable_calls_specified:
  fixes b :: "'t bigtable_store"
  assumes "serves re2 svc b tab" and "bt_calls_inv tab h (d, w)" and "all_fit call_fits h cs"
    and "run_calls (call_store (bigtable_adapter b64 svc b)) cs (d, w) = (Inr as, d', w')"
  shows "spec_trace spec_call cs (bt_part tab d) as (bt_part tab d') \<and> bt_calls_inv tab (h @ cs) (d', w')"
  using givesD [OF implements_calls.calls_ok [OF bt_implements_calls [OF assms(1)] assms(2,3)] assms(4)] by simp

lemma bigtable_calls_specified_witness:
  "\<exists>as d w. run_calls (call_store (bigtable_adapter demo_b64 emulator emulated)) demo_calls ([], demo_world) = (Inr as, d, w) \<and>
     spec_trace spec_call demo_calls (bt_part em_tab []) as (bt_part em_tab d)"
  using demo_calls_return bigtable_calls_specified [OF emulated_serves demo_inv demo_fit] by metis





section \<open>Rows\<close>

text \<open>
  C26. What \<open>insert_message\<close> writes to a row, over whatever was there, \<open>message_from_row\<close> reads
  back: the message comes out whole, its owner and topic from the key and the rest from the
  columns.
\<close>

theorem message_row_roundtrip:
  assumes "storable m" and "tidy_rows t"
    and "t (octets (message_key m)) = apply_mutations (message_mutations m) cs"
  shows "message_from_row (message_key m) (row_at t (message_key m)) = Some m"
proof (rule message_decodes [OF assms(1)])
  show "hget (row_at t (message_key m)) = written m"
    using assms(1) by (simp add: hget_row_at [OF assms(2)] assms(3) message_cells_written(2) storable_def)
qed

lemma message_row_roundtrip_witness:
  fixes key :: string
  defines "key \<equiv> message_key (demo_message ''m1'' (Some ''r'') 1000)"
  shows "message_from_row key (row_at ((\<lambda>_. [])(octets key := apply_mutations
      (message_mutations (demo_message ''m1'' (Some ''r'') 1000)) [])) key) = Some (demo_message ''m1'' (Some ''r'') 1000)"
proof -
  let ?m = "demo_message ''m1'' (Some ''r'') 1000"
  have m: "storable ?m" by (rule demo_storable) (auto simp: utf8_string_def)
  have "stampable (m_accepted ?m)" using m by (simp add: storable_def)
  then have "tidy_rows ((\<lambda>_. [])(octets key := apply_mutations (message_mutations ?m) []))"
    using message_cells_written(1) storable_key [OF m] unfolding tidy_rows_def key_def by (auto intro: tidy_Nil)
  then show ?thesis unfolding key_def by (intro message_row_roundtrip [OF m, where cs = "[]"]) simp_all
qed

text \<open>
  A scan of a prefix that ends in a number sign returns exactly the rows whose keys start
  with it, each once and in the order of their keys, although the range the adapter asks for
  ends at the prefix with the next character in its place.
\<close>

theorem prefix_scan_exact:
  fixes b :: "'t bigtable_store"
  assumes "serves re2 svc b tab" and "tidy_rows (tab d)"
    and "run_prog b64 svc (read_rows b (key_prefix (p @ ''#''))) (d, w) = (Inr rows, d', w')"
  shows "fst ` set rows = {k. (\<exists>x. k = p @ ''#'' @ x) \<and> tab d (octets k) \<noteq> []} \<and>
     sorted_wrt (\<lambda>x y. octets (fst x) < octets (fst y)) rows \<and>
     (\<forall>(k, r)\<in>set rows. hget r = content (tab d (octets k)))"
proof -
  have rows: "rows_of (key_prefix (p @ ''#'')) (tab d) rows"
    using givesD [OF gives_read_rows [OF assms(1,2)] assms(3)] by simp
  have "wanted (key_prefix (p @ ''#'')) (octets k) \<longleftrightarrow> (\<exists>x. k = p @ ''#'' @ x)" for k
  proof -
    have split: "octets (p @ ''#'' @ x) = octets (p @ ''#'') @ octets x" for x by (simp add: octets_def)
    show ?thesis unfolding wanted_key_prefix
    proof
      assume "\<exists>r. octets k = octets (p @ ''#'') @ r"
      then show "\<exists>x. k = p @ ''#'' @ x" using octets_prefix [of k "p @ ''#''"] by auto
    qed (use split in blast)
  qed
  then show ?thesis using rows by (force simp: rows_of_def sorted_wrt_map case_prod_beta)
qed

lemma octets_Nil_iff [simp]: "octets s = [] \<longleftrightarrow> s = []"
  by (simp add: octets_def)

definition demo_cell :: cell where
  "demo_cell = \<lparr>cl_family = family_d, cl_qualifier = octets ''push'', cl_timestamp = 0, cl_value = octets ''p''\<rparr>"

lemma prefix_scan_exact_witness:
  fixes rows :: table
  defines "rows \<equiv> [(octets ''ch#u#a'', [demo_cell]), (octets ''ch#u2#b'', [demo_cell])]"
  shows "\<exists>rs d w. run_prog demo_b64 emulator (read_rows emulated (key_prefix (''ch#u'' @ ''#''))) (rows, demo_world) = (Inr rs, d, w) \<and>
     fst ` set rs = {''ch#u#a''}"
proof -
  have cells: "em_tab rows (octets k) = (if k = ''ch#u#a'' \<or> k = ''ch#u2#b'' then [demo_cell] else [])" for k
    unfolding em_tab_def rows_def hget_def by (simp add: octets_inject octets_Nil_iff del: octets_simps)
  have tidy: "tidy_rows (em_tab rows)"
    unfolding tidy_rows_def
  proof (intro allI conjI impI)
    show "\<exists>f. tidy f (em_tab rows k)" for k
      by (rule exI [of _ family_d]) (simp add: em_tab_def rows_def hget_def tidy_def demo_cell_def)
    show "utf8_valid k" if "em_tab rows k \<noteq> []" for k
      using that by (auto simp: em_tab_def rows_def hget_def split: if_splits)
  qed
  obtain rs d w where run: "run_prog demo_b64 emulator (read_rows emulated (key_prefix (''ch#u'' @ ''#''))) (rows, demo_world) = (Inr rs, d, w)"
    using returns_read_rows [of em_re2 emulator emulated em_tab rows, OF emulated_serves emulated_available tidy]
    unfolding returns_def by fast
  have "fst ` set rs = {k. (\<exists>x. k = ''ch#u'' @ ''#'' @ x) \<and> em_tab rows (octets k) \<noteq> []}"
    using prefix_scan_exact [of em_re2 emulator emulated em_tab rows, OF emulated_serves tidy run] by blast
  also have "\<dots> = {''ch#u#a''}" by (auto simp: cells split: if_splits)
  finally show ?thesis using run by blast
qed

text \<open>
  The split of a row into chunks carries no meaning: however the service cuts values, leaves
  out repeated keys and qualifiers and gives up attempts with a reset, two streams of the same
  rows merge to the same result.
\<close>

theorem chunking_irrelevant:
  assumes "encodes rows (concat s1)" and "encodes rows (concat s2)" and "\<forall>(k, xs)\<in>set rows. from_utf8 k \<noteq> None"
  shows "merge_rows (map Inr s1) = merge_rows (map Inr s2) \<and> (\<exists>r. merge_rows (map Inr s1) = Inr r \<and> map (octets \<circ> fst) r = map fst rows)"
proof -
  have "octets (the (from_utf8 k)) = k" if "(k, xs) \<in> set rows" for k xs
    using bspec [OF assms(3) that] from_utf8_SomeD by auto
  then show ?thesis
    using merge_rows_encoded [OF assms(1,3)] merge_rows_encoded [OF assms(2,3)] by (auto simp: case_prod_beta)
qed

lemma chunking_irrelevant_witness:
  fixes cell :: cell and one two again :: cell_chunk
  defines "cell \<equiv> \<lparr>cl_family = family_d, cl_qualifier = octets ''node'', cl_timestamp = 0, cl_value = octets ''n1''\<rparr>"
    and "one \<equiv> \<lparr>ck_row_key = octets ''k'', ck_qualifier = Some (octets ''node''), ck_value = octets ''n1'', ck_value_size = 0,
      ck_row_status = Some (CommitRow True)\<rparr>"
    and "two \<equiv> \<lparr>ck_row_key = octets ''k'', ck_qualifier = Some (octets ''node''), ck_value = octets ''n'', ck_value_size = 2,
      ck_row_status = None\<rparr>"
    and "again \<equiv> \<lparr>ck_row_key = [], ck_qualifier = None, ck_value = octets ''1'', ck_value_size = 0,
      ck_row_status = Some (CommitRow True)\<rparr>"
  shows "merge_rows (map Inr [[one]]) = merge_rows (map Inr [[two\<lparr>ck_row_status := Some (ResetRow True)\<rparr>], [two], [again]])"
proof -
  have 1: "cell_chunks (octets ''k'') (cl_qualifier cell) True (cl_value cell) [one]"
    using cell_chunks.chunk_last [of one "octets ''k''" "cl_qualifier cell" True] by (simp add: one_def cell_def)
  have "cell_chunks (octets ''k'') (cl_qualifier cell) True (ck_value again) [again]"
    by (rule cell_chunks.chunk_last) (simp_all add: again_def cell_def)
  then have 2: "cell_chunks (octets ''k'') (cl_qualifier cell) True (ck_value two @ ck_value again) [two, again]"
    by (intro cell_chunks.chunk_more) (simp_all add: two_def cell_def plain_def)
  then have 2: "cell_chunks (octets ''k'') (cl_qualifier cell) True (cl_value cell) [two, again]"
    by (simp add: two_def again_def cell_def octets_def)
  have "row_chunks (octets ''k'') None [cell] [one]"
    by (rule row_chunks.row_last [OF 1]) (simp_all add: one_def cell_def)
  moreover have "row_chunks (octets ''k'') None [cell] [two, again]"
    by (rule row_chunks.row_last [OF 2]) (simp_all add: two_def cell_def)
  moreover have "octets ''k'' \<noteq> []" by (simp add: octets_def)
  ultimately have rows: "encodes [(octets ''k'', [cell])] ([one] @ [])" "encodes [(octets ''k'', [cell])] ([two, again] @ [])"
    by (blast intro: encodes.encodes_row encodes.encodes_Nil)+
  have reset: "encodes [(octets ''k'', [cell])] ([] @ two\<lparr>ck_row_status := Some (ResetRow True)\<rparr> # ([two, again] @ []))"
    by (rule encodes.encodes_reset [OF _ _ rows(2)]) simp_all
  have "from_utf8 (octets ''k'') = Some ''k''" by (rule from_utf8_octets) simp
  then show ?thesis
    using chunking_irrelevant [of "[(octets ''k'', [cell])]" "[[one]]" "[[two\<lparr>ck_row_status := Some (ResetRow True)\<rparr>], [two], [again]]"]
      rows(1) reset by simp
qed

section \<open>Side by side\<close>

text \<open>A program that runs without interruption is a schedule.\<close>

lemma schedule_step:
  assumes "prog_step b64 svc p (d, w) = Some (p1, dw1)" and "pool_run b64 svc (ps @ p1 # qs, dw1) y"
  shows "pool_run b64 svc (ps @ p # qs, d, w) y"
  using pool_call [OF assms(1)] assms(2) unfolding pool_run_def by (rule converse_rtranclp_into_rtranclp)

lemma on_service_eq: "on_service f k (d, w) = (k (fst (f d)), snd (f d), w)"
  by (simp add: on_service_def split: prod.split)

lemma on_process_eq: "on_process f k (d, w) = (k (fst (f w)), d, snd (f w))"
  by (simp add: on_process_def split: prod.split)

lemma pool_run_whole:
  "run_prog b64 svc p (d, w) = (r, d', w') \<Longrightarrow> pool_run b64 svc (ps @ p # qs, d, w) (ps @ Return r # qs, d', w')"
proof (induction p arbitrary: d w)
  case (Return x)
  then show ?case by (simp add: pool_run_def)
next
  case (MutateRow q k)
  show ?case
    by (rule schedule_step [OF _ MutateRow.IH [OF rangeI]]) (use MutateRow.prems in \<open>simp_all add: after_service_eq on_service_eq\<close>)
next
  case (ReadRows q k)
  show ?case
    by (rule schedule_step [OF _ ReadRows.IH [OF rangeI]]) (use ReadRows.prems in \<open>simp_all add: after_service_eq on_service_eq\<close>)
next
  case (CheckAndMutateRow q k)
  show ?case
    by (rule schedule_step [OF _ CheckAndMutateRow.IH [OF rangeI]])
      (use CheckAndMutateRow.prems in \<open>simp_all add: after_service_eq on_service_eq\<close>)
next
  case (GetTable q k)
  show ?case
    by (rule schedule_step [OF _ GetTable.IH [OF rangeI]]) (use GetTable.prems in \<open>simp_all add: after_service_eq on_service_eq\<close>)
next
  case (CreateTable q k)
  show ?case
    by (rule schedule_step [OF _ CreateTable.IH [OF rangeI]])
      (use CreateTable.prems in \<open>simp_all add: after_service_eq on_service_eq\<close>)
next
  case (Connect q k)
  show ?case
    by (rule schedule_step [OF _ Connect.IH [OF rangeI]]) (use Connect.prems in \<open>simp_all add: after_service_eq on_service_eq\<close>)
next
  case (Credentials q k)
  show ?case
    by (rule schedule_step [OF _ Credentials.IH [OF rangeI]])
      (use Credentials.prems in \<open>simp_all add: after_service_eq on_service_eq\<close>)
next
  case (AccessToken q k)
  show ?case
    by (rule schedule_step [OF _ AccessToken.IH [OF rangeI]])
      (use AccessToken.prems in \<open>simp_all add: after_service_eq on_service_eq\<close>)
next
  case (NowMs k)
  show ?case
    by (rule schedule_step [OF _ NowMs.IH [OF rangeI]]) (use NowMs.prems in \<open>simp_all add: after_process_eq on_process_eq\<close>)
next
  case (NewId k)
  show ?case
    by (rule schedule_step [OF _ NewId.IH [OF rangeI]]) (use NewId.prems in \<open>simp_all add: after_process_eq on_process_eq\<close>)
next
  case (NextSeq k)
  show ?case
    by (rule schedule_step [OF _ NextSeq.IH [OF rangeI]]) (use NextSeq.prems in \<open>simp_all add: after_process_eq on_process_eq\<close>)
qed

text \<open>
  C2. A message is settled once, whatever the nodes do at the same time: in every interleaving,
  call by call, of acknowledgements, dropped subscriptions and user agents, expiries, reaps and
  messages stored under other identifiers, at most one task comes away with the message or
  with the receipt its removal owes. The predicate of the conditional deletion decides which.
\<close>

theorem settled_once:
  fixes b :: "'t bigtable_store"
  assumes "bigtable_service re2 svc (bs_table b) tab" and "is_ascii i" and "list_all (other_task i) tasks"
    and "at_most_one (holders re2 i (tab d))" and "calls_clock w"
    and "pool_run b64 svc (map (task_prog b) tasks, d, w) (ps, d', w')"
  shows "sum_list (map (settlements i) ps) \<le> 1"
proof -
  have "single_settler re2 (bs_table b) i tab (ps, d', w')"
    by (rule single_settler_run [OF assms(1,6) single_settler_tasks [OF assms(1-5)]])
  then show ?thesis unfolding single_settler_def using single_settler_settlements by fastforce
qed

section \<open>Two nodes and one message\<close>

definition raced :: message where
  "raced = demo_message ''m1'' None 1000"

definition raced_table :: table where
  "raced_table = [(octets (message_key raced), apply_mutations (message_mutations raced) []),
     (octets (''mid#'' @ m_id raced), apply_mutation [] (set_cell family_m ''row'' (octets (message_key raced)) (m_accepted raced)))]"

lemma raced_facts: "storable raced" "is_ascii (m_id raced)" "m_id raced = ''m1''"
  by (auto simp: raced_def utf8_string_def intro!: demo_storable) (simp_all add: demo_message_def)

lemma raced_cells: "em_tab raced_table = with_message raced (\<lambda>_. [])"
proof
  fix k
  have "message_key raced \<noteq> []" using message_key_msg [of raced] by auto
  then show "em_tab raced_table k = with_message raced (\<lambda>_. []) k"
    using key_not_mid [of raced "m_id raced"]
    by (auto simp: em_tab_def raced_table_def with_message_def hget_def simp del: append.simps)
qed

lemma raced_inv: "bt_inv em_tab (raced_table, demo_world)"
proof -
  have none: "laid_out (\<lambda>_. [])" "past (\<lambda>_. []) demo_world" "rows_indexed (\<lambda>_. [])"
    by (simp_all add: laid_out_def past_def rows_indexed_def)
  note layout = with_message_layout [OF none(1,2) raced_facts(1,2)]
  note msgs = with_message_messages [OF none(3) layout(1) raced_facts(1,2)]
  show ?thesis using layout msgs(2) demo_steady by (simp add: bt_inv_def bt_ok_def raced_cells)
qed

lemma raced_message: "bt_messages (em_tab raced_table) ''m1'' = Some raced"
proof -
  have none: "laid_out (\<lambda>_. [])" "past (\<lambda>_. []) demo_world" "rows_indexed (\<lambda>_. [])"
    by (simp_all add: laid_out_def past_def rows_indexed_def)
  note layout = with_message_layout [OF none(1,2) raced_facts(1,2)]
  show ?thesis
    using with_message_messages(1) [OF none(3) layout(1) raced_facts(1,2)] raced_facts(3) by (simp add: raced_cells inserted_def)
qed

lemma raced_single: "at_most_one (holders em_re2 ''m1'' (em_tab raced_table))"
proof -
  have ascii: "is_ascii ''m1''" by simp
  have "k = octets (message_key raced)" if "k \<in> holders em_re2 ''m1'' (em_tab raced_table)" for k
  proof (rule ccontr)
    assume k: "k \<noteq> octets (message_key raced)"
    have "filter id_cell (em_tab raced_table k) = []"
      using k unfolding raced_cells with_message_def
      by (auto simp: set_cell_def id_cell_def Let_def)
    then have "newest (Suc 0) (filter id_cell (em_tab raced_table k)) = []" by (simp only: newest_def filter.simps)
    then show False using that unfolding holders_def mem_Collect_eq holds_iff [OF em_re2_literal ascii] by simp
  qed
  then show ?thesis by (auto simp: at_most_one_def)
qed

text \<open>Both nodes acknowledge it; the first wins.\<close>

lemma raced_delete:
  assumes "bt_inv em_tab (d, w)"
  obtains x d' w' where "run_prog demo_b64 emulator (task_prog emulated (DeleteMessage ''m1'' None)) (d, w) = (Inr (Deleted x), d', w')"
    "bt_inv em_tab (d', w')" "x = bt_messages (em_tab d) ''m1''"
proof -
  obtain x d' w' where x: "run_prog demo_b64 emulator (bt_delete_message emulated ''m1'' None) (d, w) = (Inr x, d', w')"
    using returns_delete_message [OF emulated_serves emulated_available bt_ok_tidy [OF bt_invD(1) [OF assms]]]
    unfolding returns_def by fast
  have "bt_inv em_tab (d', w') \<and> x = bt_messages (em_tab d) ''m1''"
    using givesD [OF bt_delete_message_gives [OF emulated_serves assms] x] by (auto simp: permits_def split: option.splits)
  moreover have "run_prog demo_b64 emulator (task_prog emulated (DeleteMessage ''m1'' None)) (d, w) = (Inr (Deleted x), d', w')"
    by (simp add: run_bind and_then_def x done_with_def)
  ultimately show ?thesis using that by blast
qed

lemma settled_once_witness:
  "\<exists>ps d w. pool_run demo_b64 emulator (map (task_prog emulated) [DeleteMessage ''m1'' None, DeleteMessage ''m1'' None],
       raced_table, demo_world) (ps, d, w) \<and>
     (\<exists>x y. ps = [Return (Inr (Deleted x)), Return (Inr (Deleted y))]) \<and> sum_list (map (settlements ''m1'') ps) = 1"
proof -
  let ?p = "task_prog emulated (DeleteMessage ''m1'' None)"
  obtain x d1 w1 where 1: "run_prog demo_b64 emulator ?p (raced_table, demo_world) = (Inr (Deleted x), d1, w1)"
    and inv1: "bt_inv em_tab (d1, w1)" and x: "x = bt_messages (em_tab raced_table) ''m1''"
    by (rule raced_delete [OF raced_inv])
  obtain y d2 w2 where 2: "run_prog demo_b64 emulator ?p (d1, w1) = (Inr (Deleted y), d2, w2)"
    by (rule raced_delete [OF inv1])
  let ?ps = "[Return (Inr (Deleted x)), Return (Inr (Deleted y))] :: (unit, outcome) prog list"
  have "pool_run demo_b64 emulator ([] @ ?p # [?p], raced_table, demo_world) ([] @ Return (Inr (Deleted x)) # [?p], d1, w1)"
    by (rule pool_run_whole [OF 1])
  moreover have "pool_run demo_b64 emulator ([Return (Inr (Deleted x))] @ ?p # [], d1, w1)
      ([Return (Inr (Deleted x))] @ Return (Inr (Deleted y)) # [], d2, w2)"
    by (rule pool_run_whole [OF 2])
  ultimately have run: "pool_run demo_b64 emulator (map (task_prog emulated) [DeleteMessage ''m1'' None, DeleteMessage ''m1'' None],
      raced_table, demo_world) (?ps, d2, w2)"
    unfolding pool_run_def by (simp del: task_prog.simps)
  have "calls_clock demo_world" by (simp add: calls_clock_def demo_world_def)
  from settled_once [OF emulator_service _ _ raced_single this run]
  have "sum_list (map (settlements ''m1'') ?ps) \<le> 1" by simp
  moreover have "x = Some raced" using x raced_message by simp
  ultimately have "sum_list (map (settlements ''m1'') ?ps) = 1" by (simp add: raced_facts(3))
  then show ?thesis using run by blast
qed

end
