(* ===== verification/Contract.thy ===== *)
theory Contract
  imports Store_Spec Rust_Str
begin

text \<open>
  The executable contract of the \<open>Store\<close> trait: the checks that are run against an adapter, each
  a program over an arbitrary store that draws fresh identifiers, calls the store and asserts
  what came back. A failed assertion is a value, so that \<open>Contract_Props\<close> can prove that an
  adapter which refines the abstract store fails none of them.
\<close>

section \<open>Panics\<close>

datatype panic =
    Failed string box_error
  | Violated string

type_synonym ('s, 'a) check_op = "('s \<times> world, panic, 'a) act"

definition ok :: "('s, 'a) store_op \<Rightarrow> string \<Rightarrow> ('s, 'a) check_op" where
  "ok f what sw = (case f sw of (Inl e, sw) \<Rightarrow> (Inl (Failed what e), sw) | (Inr x, sw) \<Rightarrow> (Inr x, sw))"

definition assert :: "bool \<Rightarrow> string \<Rightarrow> ('s, unit) check_op" where
  "assert b msg = (if b then ret () else fail (Violated msg))"

definition expect :: "'a option \<Rightarrow> string \<Rightarrow> ('s, 'a) check_op" where
  "expect x msg = or_fail (Violated msg) x"

text \<open>The clock and the randomness of the process.\<close>

definition draw :: "(world \<Rightarrow> 'a \<times> world) \<Rightarrow> ('s, 'a) check_op" where
  "draw f sw = (case sw of (s, w) \<Rightarrow> case f w of (x, w) \<Rightarrow> (Inr x, s, w))"

section \<open>Test data\<close>

definition test_message :: "string \<Rightarrow> string \<Rightarrow> string \<Rightarrow> string \<Rightarrow> u64 \<Rightarrow> u64 \<Rightarrow> message" where
  "test_message i uaid ch push accepted ttl_ms =
     \<lparr>m_id = i, m_uaid = uaid, m_channel_id = ch, m_push = push, m_topic = None, m_body = octets ''body'',
      m_ctype = Some ''application/octet-stream'', m_cenc = Some ''aes128gcm'',
      m_ttl = (if unat (ttl_ms div 1000) < 2 ^ 32 then ucast (ttl_ms div 1000) else - 1),
      m_urgency = Normal, m_accepted = accepted, m_expiry = accepted + ttl_ms, m_rsub = None\<rparr>"

definition new_message ::
  "base64 \<Rightarrow> string \<Rightarrow> string \<Rightarrow> string \<Rightarrow> u64 \<Rightarrow> u64 \<Rightarrow> ('s, message) check_op" where
  "new_message b64 uaid ch push accepted ttl_ms =
     and_then (draw (new_id b64)) (\<lambda>i. ret (test_message i uaid ch push accepted ttl_ms))"

definition uuid_of :: "string \<Rightarrow> string" where
  "uuid_of i =
     (let hex = concat (map (\<lambda>c. hex2 (of_char c)) i)
      in take 8 hex @ ''-'' @ take 4 (drop 8 hex) @ ''-'' @ take 4 (drop 12 hex) @ ''-'' @ take 4 (drop 16 hex) @ ''-'' @
         take 12 (drop 20 hex))"

definition contract_channel_id :: "base64 \<Rightarrow> ('s, string) check_op" where
  "contract_channel_id b64 = and_then (draw (new_id b64)) (\<lambda>i. ret (uuid_of i))"

definition session_agent :: "string \<Rightarrow> u64 \<Rightarrow> user_agent" where
  "session_agent uaid seen = \<lparr>ua_uaid = uaid, ua_bridge = None, ua_last_seen = seen\<rparr>"

definition user_agent_seen :: "'s store \<Rightarrow> u64 \<Rightarrow> ('s, string) check_op" where
  "user_agent_seen S seen =
     and_then (draw new_uaid) (\<lambda>uaid.
     and_then (ok (so_create_user_agent S (session_agent uaid seen)) ''create_user_agent'') (\<lambda>_.
     ret uaid))"

definition test_user_agent :: "'s store \<Rightarrow> ('s, string) check_op" where
  "test_user_agent S = and_then (draw now_ms) (\<lambda>now. user_agent_seen S now)"

section \<open>The checks\<close>

definition check_user_agents :: "'s store \<Rightarrow> ('s, unit) check_op" where
  "check_user_agents S =
     and_then (user_agent_seen S 1000) (\<lambda>uaid.
     and_then (assert (is_uaid uaid) ''is_uaid'') (\<lambda>_.
     and_then (ok (so_user_agent S uaid) ''user_agent'') (\<lambda>ua.
     and_then (expect ua ''stored user agent'') (\<lambda>ua.
     and_then (assert ((ua_uaid ua, ua_bridge ua, ua_last_seen ua) = (uaid, None, 1000)) ''user agent'') (\<lambda>_.
     and_then (ok (so_touch_user_agent S uaid 5000) ''touch_user_agent'') (\<lambda>touched.
     and_then (assert touched ''touch_user_agent'') (\<lambda>_.
     and_then (ok (so_user_agent S uaid) ''user_agent'') (\<lambda>ua.
     and_then (expect ua ''stored user agent'') (\<lambda>ua.
     and_then (assert (ua_last_seen ua = 5000) ''touch did not record last_seen'') (\<lambda>_.
     and_then (draw new_uaid) (\<lambda>unknown.
     and_then (ok (so_user_agent S unknown) ''user_agent'') (\<lambda>ua.
     and_then (assert (ua = None) ''unknown user agent'') (\<lambda>_.
     and_then (ok (so_touch_user_agent S unknown 5000) ''touch_user_agent'') (\<lambda>touched.
     and_then (assert (\<not> touched) ''touching an unknown user agent reported success'') (\<lambda>_.
     and_then (ok (so_user_agent S unknown) ''user_agent'') (\<lambda>ua.
     assert (ua = None) ''touching an unknown user agent created it''))))))))))))))))"

definition check_bridged_user_agents :: "'s store \<Rightarrow> ('s, unit) check_op" where
  "check_bridged_user_agents S =
     and_then (draw new_uaid) (\<lambda>uaid.
     and_then (draw now_ms) (\<lambda>now.
     let ua = \<lparr>ua_uaid = uaid,
               ua_bridge = Some \<lparr>ba_bridge = ''fcm'', ba_app_id = ''app.example'', ba_token = ''token-1''\<rparr>,
               ua_last_seen = now\<rparr> in
     and_then (ok (so_create_user_agent S ua) ''create_user_agent'') (\<lambda>_.
     and_then (ok (so_user_agent S uaid) ''user_agent'') (\<lambda>got.
     and_then (assert (got = Some ua) ''bridged user agent'') (\<lambda>_.
     and_then (ok (so_update_bridge_token S uaid ''token-2'') ''update_bridge_token'') (\<lambda>updated.
     and_then (assert updated ''update_bridge_token'') (\<lambda>_.
     and_then (ok (so_user_agent S uaid) ''user_agent'') (\<lambda>got.
     and_then (expect got ''stored user agent'') (\<lambda>got.
     and_then (assert (map_option ba_token (ua_bridge got) = Some ''token-2'') ''token not replaced'') (\<lambda>_.
     and_then (test_user_agent S) (\<lambda>session.
     and_then (ok (so_update_bridge_token S session ''t'') ''update_bridge_token'') (\<lambda>updated.
     and_then (assert (\<not> updated) ''a session user agent was given a bridge token'') (\<lambda>_.
     and_then (draw new_uaid) (\<lambda>unknown.
     and_then (ok (so_update_bridge_token S unknown ''t'') ''update_bridge_token'') (\<lambda>updated.
     assert (\<not> updated) ''an unknown user agent was given a bridge token'')))))))))))))))"

definition check_delete_user_agent :: "base64 \<Rightarrow> 's store \<Rightarrow> ('s, unit) check_op" where
  "check_delete_user_agent b64 S =
     and_then (draw now_ms) (\<lambda>now.
     and_then (test_user_agent S) (\<lambda>uaid.
     and_then (contract_channel_id b64) (\<lambda>a.
     and_then (contract_channel_id b64) (\<lambda>b.
     and_then (ok (so_create_subscription S uaid a None) ''create_subscription'') (\<lambda>sa.
     and_then (ok (so_create_subscription S uaid b None) ''create_subscription'') (\<lambda>_.
     and_then (ok (so_subscriptions S uaid) ''subscriptions'') (\<lambda>subs.
     and_then (assert (sort (map sub_channel_id subs) = sort [a, b]) ''subscriptions must list every channel'') (\<lambda>_.
     and_then (ok (so_create_receipt_sub S) ''create_receipt_sub'') (\<lambda>rsub.
     and_then (new_message b64 uaid a (sub_push sa) now 60000) (\<lambda>m.
     let m = m\<lparr>m_rsub := Some rsub\<rparr> in
     and_then (ok (so_insert_message S m) ''insert_message'') (\<lambda>_.
     and_then (ok (so_delete_user_agent S uaid) ''delete_user_agent'') (\<lambda>receipts.
     and_then (assert (map (\<lambda>(_, r). (rc_msg_id r, rc_status r)) receipts = [(m_id m, 410)])
       ''deleting a user agent must owe a 410 for its message'') (\<lambda>_.
     and_then (ok (so_user_agent S uaid) ''user_agent'') (\<lambda>ua.
     and_then (assert (ua = None) ''deleted user agent'') (\<lambda>_.
     and_then (ok (so_subscriptions S uaid) ''subscriptions'') (\<lambda>subs.
     and_then (assert (subs = []) ''subscriptions of a deleted user agent'') (\<lambda>_.
     and_then (ok (so_subscription_by_push S (sub_push sa)) ''subscription_by_push'') (\<lambda>sub.
     and_then (assert (sub = None) ''a deleted user agent's push resource still resolves'') (\<lambda>_.
     and_then (ok (so_message S (m_id m)) ''message'') (\<lambda>got.
     assert (got = None) ''message of a deleted user agent''))))))))))))))))))))"

definition check_expire_user_agents :: "'s store \<Rightarrow> ('s, unit) check_op" where
  "check_expire_user_agents S =
     and_then (user_agent_seen S 10) (\<lambda>stale.
     and_then (user_agent_seen S 30) (\<lambda>fresh.
     and_then (ok (so_expire_user_agents S 20) ''expire_user_agents'') (\<lambda>(count, _).
     and_then (assert (1 \<le> count) ''expiry deleted nothing'') (\<lambda>_.
     and_then (ok (so_user_agent S stale) ''user_agent'') (\<lambda>ua.
     and_then (assert (ua = None) ''a user agent seen before the cutoff survived expiry'') (\<lambda>_.
     and_then (ok (so_user_agent S fresh) ''user_agent'') (\<lambda>ua.
     and_then (assert (ua \<noteq> None) ''a user agent seen after the cutoff was expired'') (\<lambda>_.
     and_then (ok (so_delete_user_agent S fresh) ''delete_user_agent'') (\<lambda>_. ret ())))))))))"

definition check_delete_and_expire_user_agents :: "base64 \<Rightarrow> 's store \<Rightarrow> ('s, unit) check_op" where
  "check_delete_and_expire_user_agents b64 S =
     and_then (check_delete_user_agent b64 S) (\<lambda>_. check_expire_user_agents S)"

definition check_routes :: "base64 \<Rightarrow> 's store \<Rightarrow> ('s, unit) check_op" where
  "check_routes b64 S =
     and_then (draw new_uaid) (\<lambda>uaid.
     let to = UserAgent uaid in
     and_then (ok (so_route S to) ''route'') (\<lambda>r.
     and_then (assert (r = None) ''route of an unknown recipient'') (\<lambda>_.
     and_then (ok (so_set_route S to ''http://a:8081'') ''set_route'') (\<lambda>r.
     and_then (assert (r = None) ''first route'') (\<lambda>_.
     and_then (ok (so_set_route S to ''http://b:8081'') ''set_route'') (\<lambda>r.
     and_then (assert (r = Some ''http://a:8081'') ''set_route must return the previous node'') (\<lambda>_.
     and_then (ok (so_clear_route S to ''http://a:8081'') ''clear_route'') (\<lambda>cleared.
     and_then (assert (\<not> cleared) ''a node cleared a route it no longer holds'') (\<lambda>_.
     and_then (ok (so_route S to) ''route'') (\<lambda>r.
     and_then (assert (r = Some ''http://b:8081'') ''latest route'') (\<lambda>_.
     and_then (draw (new_id b64)) (\<lambda>i.
     let receipts = Receipts i in
     and_then (ok (so_set_route S receipts ''http://a:8081'') ''set_route'') (\<lambda>_.
     and_then (ok (so_clear_route S to ''http://b:8081'') ''clear_route'') (\<lambda>cleared.
     and_then (assert cleared ''clear_route'') (\<lambda>_.
     and_then (ok (so_route S to) ''route'') (\<lambda>r.
     and_then (assert (r = None) ''cleared route'') (\<lambda>_.
     and_then (ok (so_route S receipts) ''route'') (\<lambda>r.
     and_then (assert (r = Some ''http://a:8081'') ''routes of different recipients interfere'') (\<lambda>_.
     and_then (ok (so_clear_route S receipts ''http://a:8081'') ''clear_route'') (\<lambda>_. ret ()))))))))))))))))))))"

text \<open>\<open>str::contains\<close>.\<close>

definition contains_str :: "string \<Rightarrow> string \<Rightarrow> bool" where
  "contains_str s p \<longleftrightarrow> list_ex (\<lambda>n. take (length p) (drop n s) = p) [0..<Suc (length s)]"

definition check_subscriptions :: "base64 \<Rightarrow> 's store \<Rightarrow> ('s, unit) check_op" where
  "check_subscriptions b64 S =
     and_then (test_user_agent S) (\<lambda>uaid.
     and_then (contract_channel_id b64) (\<lambda>ch.
     let key = replicate 65 4 in
     and_then (ok (so_channel S uaid ch) ''channel'') (\<lambda>sub.
     and_then (assert (sub = None) ''unknown channel'') (\<lambda>_.
     and_then (ok (so_create_subscription S uaid ch (Some key)) ''create_subscription'') (\<lambda>sub.
     and_then (assert ((sub_uaid sub, sub_channel_id sub) = (uaid, ch)) ''subscription'') (\<lambda>_.
     and_then (assert (sub_vapid sub = Some key) ''VAPID key not kept'') (\<lambda>_.
     and_then (assert (22 \<le> length (sub_push sub)) ''push id shorter than 128 bits'') (\<lambda>_.
     and_then (assert (\<not> contains_str (sub_push sub) uaid \<and> \<not> contains_str (sub_push sub) ch)
       ''push id reveals the user agent or channel'') (\<lambda>_.
     and_then (ok (so_channel S uaid ch) ''channel'') (\<lambda>got.
     and_then (assert (got = Some sub) ''channel'') (\<lambda>_.
     and_then (ok (so_subscription_by_push S (sub_push sub)) ''subscription_by_push'') (\<lambda>got.
     and_then (assert (got = Some sub) ''subscription_by_push'') (\<lambda>_.
     and_then (draw (new_id b64)) (\<lambda>unknown.
     and_then (ok (so_subscription_by_push S unknown) ''subscription_by_push'') (\<lambda>got.
     assert (got = None) ''unknown push id'')))))))))))))))"

fun insert_all :: "'s store \<Rightarrow> message list \<Rightarrow> ('s, unit) check_op" where
  "insert_all S [] = ret ()"
| "insert_all S (m # ms) = and_then (ok (so_insert_message S m) ''insert_message'') (\<lambda>_. insert_all S ms)"

text \<open>\<open>usize::MAX\<close>.\<close>

definition usize_max :: nat where
  "usize_max = 2 ^ 64 - 1"

definition check_pending :: "base64 \<Rightarrow> 's store \<Rightarrow> ('s, unit) check_op" where
  "check_pending b64 S =
     and_then (draw now_ms) (\<lambda>now.
     and_then (test_user_agent S) (\<lambda>uaid.
     and_then (contract_channel_id b64) (\<lambda>a.
     and_then (contract_channel_id b64) (\<lambda>b.
     and_then (ok (so_create_subscription S uaid a None) ''create_subscription'') (\<lambda>sa.
     and_then (ok (so_create_subscription S uaid b None) ''create_subscription'') (\<lambda>sb.
     and_then (new_message b64 uaid b (sub_push sb) (now - 1000) 60000) (\<lambda>second.
     and_then (new_message b64 uaid a (sub_push sa) (now - 2000) 60000) (\<lambda>first.
     and_then (new_message b64 uaid a (sub_push sa) (now - 3000) 1000) (\<lambda>expired.
     and_then (insert_all S [second, first, expired]) (\<lambda>_.
     and_then (test_user_agent S) (\<lambda>other.
     and_then (ok (so_create_subscription S other a None) ''create_subscription'') (\<lambda>so.
     and_then (new_message b64 other a (sub_push so) now 60000) (\<lambda>m.
     and_then (ok (so_insert_message S m) ''insert_message'') (\<lambda>_.
     and_then (ok (so_pending S uaid now usize_max) ''pending'') (\<lambda>got.
     and_then (assert (got = [first, second]) ''pending must return unexpired messages of the user agent, oldest first'') (\<lambda>_.
     and_then (ok (so_pending S uaid now 1) ''pending'') (\<lambda>got.
     and_then (assert (got = [first]) ''pending must honour the limit, keeping the oldest'') (\<lambda>_.
     and_then (ok (so_message S (m_id first)) ''message'') (\<lambda>got.
     assert (got = Some first) ''message'')))))))))))))))))))"

definition check_topic_replacement :: "base64 \<Rightarrow> 's store \<Rightarrow> ('s, unit) check_op" where
  "check_topic_replacement b64 S =
     and_then (draw now_ms) (\<lambda>now.
     and_then (test_user_agent S) (\<lambda>uaid.
     and_then (contract_channel_id b64) (\<lambda>a.
     and_then (contract_channel_id b64) (\<lambda>b.
     and_then (ok (so_create_subscription S uaid a None) ''create_subscription'') (\<lambda>sa.
     and_then (ok (so_create_subscription S uaid b None) ''create_subscription'') (\<lambda>sb.
     and_then (ok (so_create_receipt_sub S) ''create_receipt_sub'') (\<lambda>rsub.
     and_then (new_message b64 uaid a (sub_push sa) (now - 2000) 60000) (\<lambda>m.
     let old = m\<lparr>m_topic := Some ''news'', m_rsub := Some rsub, m_urgency := High\<rparr> in
     and_then (new_message b64 uaid b (sub_push sb) (now - 1500) 60000) (\<lambda>m.
     let elsewhere = m\<lparr>m_topic := Some ''news''\<rparr> in
     and_then (new_message b64 uaid a (sub_push sa) (now - 1000) 30000) (\<lambda>m.
     let new = m\<lparr>m_topic := Some ''news'', m_urgency := VeryLow, m_body := octets ''replacement''\<rparr> in
     and_then (insert_all S [old, elsewhere, new]) (\<lambda>_.
     and_then (ok (so_message S (m_id old)) ''message'') (\<lambda>got.
     and_then (assert (got = None) ''a replaced message is still readable'') (\<lambda>_.
     and_then (ok (so_message S (m_id new)) ''message'') (\<lambda>got.
     and_then (assert (got = Some new) ''replacement'') (\<lambda>_.
     and_then (ok (so_pending S uaid now usize_max) ''pending'') (\<lambda>got.
     and_then (assert (got = [elsewhere, new]) ''the same topic on another subscription must not be replaced'') (\<lambda>_.
     and_then (ok (so_delete_message S (m_id old) None) ''delete_message'') (\<lambda>got.
     and_then (assert (got = None) ''deleting a replaced message must not match its replacement'') (\<lambda>_.
     and_then (ok (so_delete_subscription S uaid a) ''delete_subscription'') (\<lambda>receipts.
     assert (receipts = []) ''a replaced message produced a receipt''))))))))))))))))))))"

definition check_delete_message_ownership :: "base64 \<Rightarrow> 's store \<Rightarrow> ('s, unit) check_op" where
  "check_delete_message_ownership b64 S =
     and_then (draw now_ms) (\<lambda>now.
     and_then (test_user_agent S) (\<lambda>uaid.
     and_then (contract_channel_id b64) (\<lambda>ch.
     and_then (ok (so_create_subscription S uaid ch None) ''create_subscription'') (\<lambda>sub.
     and_then (new_message b64 uaid ch (sub_push sub) now 60000) (\<lambda>m.
     and_then (ok (so_insert_message S m) ''insert_message'') (\<lambda>_.
     and_then (test_user_agent S) (\<lambda>stranger.
     and_then (ok (so_delete_message S (m_id m) (Some (stranger, ch))) ''delete_message'') (\<lambda>got.
     and_then (assert (got = None) ''another user agent deleted a message'') (\<lambda>_.
     and_then (contract_channel_id b64) (\<lambda>other.
     and_then (ok (so_delete_message S (m_id m) (Some (uaid, other))) ''delete_message'') (\<lambda>got.
     and_then (assert (got = None) ''another channel deleted a message'') (\<lambda>_.
     and_then (ok (so_delete_message S (m_id m) (Some (uaid, ch))) ''delete_message'') (\<lambda>got.
     and_then (assert (got = Some m) ''delete_message'') (\<lambda>_.
     and_then (ok (so_delete_message S (m_id m) None) ''delete_message'') (\<lambda>got.
     and_then (assert (got = None) ''a message was deleted twice'') (\<lambda>_.
     and_then (ok (so_message S (m_id m)) ''message'') (\<lambda>got.
     assert (got = None) ''deleted message'')))))))))))))))))"

definition check_receipt_queue :: "'s store \<Rightarrow> ('s, unit) check_op" where
  "check_receipt_queue S =
     and_then (ok (so_create_receipt_sub S) ''create_receipt_sub'') (\<lambda>rsub.
     and_then (ok (so_receipt_sub_exists S rsub) ''receipt_sub_exists'') (\<lambda>found.
     and_then (assert found ''receipt_sub_exists'') (\<lambda>_.
     let r1 = \<lparr>rc_rsub = rsub, rc_msg_id = ''m1'', rc_status = 204\<rparr>;
         r2 = \<lparr>rc_rsub = rsub, rc_msg_id = ''m2'', rc_status = 410\<rparr> in
     and_then (ok (so_enqueue_receipt S r1) ''enqueue_receipt'') (\<lambda>s1.
     and_then (expect s1 ''queued'') (\<lambda>s1.
     and_then (ok (so_enqueue_receipt S r2) ''enqueue_receipt'') (\<lambda>s2.
     and_then (expect s2 ''queued'') (\<lambda>s2.
     and_then (assert (s1 < s2) ''receipt sequence numbers must increase'') (\<lambda>_.
     and_then (ok (so_queued_receipts S rsub) ''queued_receipts'') (\<lambda>q.
     and_then (assert (q = [(s1, r1), (s2, r2)]) ''queued_receipts'') (\<lambda>_.
     and_then (ok (so_delete_receipt S rsub s1) ''delete_receipt'') (\<lambda>_.
     and_then (ok (so_queued_receipts S rsub) ''queued_receipts'') (\<lambda>q.
     and_then (assert (q = [(s2, r2)]) ''queued_receipts'') (\<lambda>_.
     and_then (ok (so_delete_receipt_sub S rsub) ''delete_receipt_sub'') (\<lambda>deleted.
     and_then (assert deleted ''delete_receipt_sub'') (\<lambda>_.
     and_then (ok (so_delete_receipt_sub S rsub) ''delete_receipt_sub'') (\<lambda>deleted.
     and_then (assert (\<not> deleted) ''delete_receipt_sub'') (\<lambda>_.
     and_then (ok (so_receipt_sub_exists S rsub) ''receipt_sub_exists'') (\<lambda>found.
     and_then (assert (\<not> found) ''receipt_sub_exists'') (\<lambda>_.
     and_then (ok (so_enqueue_receipt S \<lparr>rc_rsub = rsub, rc_msg_id = ''m3'', rc_status = 204\<rparr>) ''enqueue_receipt'') (\<lambda>s3.
     and_then (assert (s3 = None) ''a receipt was queued for a deleted receipt subscription'') (\<lambda>_.
     and_then (ok (so_queued_receipts S rsub) ''queued_receipts'') (\<lambda>q.
     assert (q = []) ''queued_receipts''))))))))))))))))))))))"

definition check_delete_subscription :: "base64 \<Rightarrow> 's store \<Rightarrow> ('s, unit) check_op" where
  "check_delete_subscription b64 S =
     and_then (draw now_ms) (\<lambda>now.
     and_then (test_user_agent S) (\<lambda>uaid.
     and_then (contract_channel_id b64) (\<lambda>ch.
     and_then (contract_channel_id b64) (\<lambda>keep.
     and_then (ok (so_create_subscription S uaid ch None) ''create_subscription'') (\<lambda>sub.
     and_then (ok (so_create_subscription S uaid keep None) ''create_subscription'') (\<lambda>kept.
     and_then (ok (so_create_receipt_sub S) ''create_receipt_sub'') (\<lambda>rsub.
     and_then (new_message b64 uaid ch (sub_push sub) now 60000) (\<lambda>m.
     let with_receipt = m\<lparr>m_rsub := Some rsub\<rparr> in
     and_then (new_message b64 uaid ch (sub_push sub) now 60000) (\<lambda>without.
     and_then (new_message b64 uaid keep (sub_push kept) now 60000) (\<lambda>unrelated.
     and_then (insert_all S [with_receipt, without, unrelated]) (\<lambda>_.
     and_then (ok (so_delete_subscription S uaid ch) ''delete_subscription'') (\<lambda>receipts.
     and_then (assert (length receipts = 1) ''expected one 410 receipt'') (\<lambda>_.
     and_then (assert ((rc_msg_id (snd (receipts ! 0)), rc_status (snd (receipts ! 0))) = (m_id with_receipt, 410)) ''receipt'') (\<lambda>_.
     and_then (ok (so_channel S uaid ch) ''channel'') (\<lambda>got.
     and_then (assert (got = None) ''deleted channel'') (\<lambda>_.
     and_then (ok (so_subscription_by_push S (sub_push sub)) ''subscription_by_push'') (\<lambda>got.
     and_then (assert (got = None) ''deleted push id'') (\<lambda>_.
     and_then (ok (so_pending S uaid now usize_max) ''pending'') (\<lambda>got.
     and_then (assert (got = [unrelated]) ''deleting a subscription must delete its messages and only those'') (\<lambda>_.
     and_then (ok (so_delete_subscription S uaid ch) ''delete_subscription'') (\<lambda>receipts.
     assert (receipts = []) ''deleting an unknown subscription produced receipts'')))))))))))))))))))))"

definition check_reap :: "base64 \<Rightarrow> 's store \<Rightarrow> ('s, unit) check_op" where
  "check_reap b64 S =
     and_then (draw now_ms) (\<lambda>now.
     and_then (test_user_agent S) (\<lambda>uaid.
     and_then (contract_channel_id b64) (\<lambda>ch.
     and_then (ok (so_create_subscription S uaid ch None) ''create_subscription'') (\<lambda>sub.
     and_then (ok (so_create_receipt_sub S) ''create_receipt_sub'') (\<lambda>rsub.
     and_then (new_message b64 uaid ch (sub_push sub) (now - 5000) 1000) (\<lambda>m.
     let expired = m\<lparr>m_rsub := Some rsub\<rparr> in
     and_then (new_message b64 uaid ch (sub_push sub) now 60000) (\<lambda>m.
     let live = m\<lparr>m_rsub := Some rsub\<rparr> in
     and_then (insert_all S [expired, live]) (\<lambda>_.
     and_then (ok (so_reap S now) ''reap'') (\<lambda>receipts.
     let ours = filter (\<lambda>(_, r). rc_rsub r = rsub) receipts in
     and_then (assert (length ours = 1) ''reap must owe exactly one 410 here'') (\<lambda>_.
     and_then (assert ((rc_msg_id (snd (ours ! 0)), rc_status (snd (ours ! 0))) = (m_id expired, 410)) ''receipt'') (\<lambda>_.
     and_then (ok (so_message S (m_id expired)) ''message'') (\<lambda>got.
     and_then (assert (got = None) ''expired message'') (\<lambda>_.
     and_then (ok (so_message S (m_id live)) ''message'') (\<lambda>got.
     and_then (assert (got = Some live) ''live message'') (\<lambda>_.
     and_then (ok (so_queued_receipts S rsub) ''queued_receipts'') (\<lambda>q.
     assert (length q = 1) ''the 410 must also be queued''))))))))))))))))"

section \<open>All of them\<close>

definition contract_checks :: "base64 \<Rightarrow> 's store \<Rightarrow> ('s, unit) check_op list" where
  "contract_checks b64 S =
     [check_user_agents S, check_bridged_user_agents S, check_delete_and_expire_user_agents b64 S, check_subscriptions b64 S,
      check_pending b64 S, check_topic_replacement b64 S, check_delete_message_ownership b64 S, check_receipt_queue S,
      check_delete_subscription b64 S, check_reap b64 S, check_routes b64 S]"

fun run_checks :: "('s, unit) check_op list \<Rightarrow> ('s, unit) check_op" where
  "run_checks [] = ret ()"
| "run_checks (c # cs) = and_then c (\<lambda>_. run_checks cs)"

definition check_contract :: "base64 \<Rightarrow> 's store \<Rightarrow> ('s, unit) check_op" where
  "check_contract b64 S = run_checks (contract_checks b64 S)"

end
