(* ===== verification/Contract_Logic.thy ===== *)
theory Contract_Logic
  imports Contract Base64_Url
begin

text \<open>
  A logic for the checks of the contract: \<open>safe p sw Q\<close> says that the program \<open>p\<close>, started in
  \<open>sw\<close>, violates nothing and ends in \<open>Q\<close>, or stops because the store itself failed. The locale
  \<open>contract_store\<close> adds to the laws of a store what the checks rely on beyond them, and has a
  rule for every call, so that a check is verified by walking through it.
\<close>

named_theorems contract_rules \<open>how each step of a check is verified\<close>

section \<open>Safety\<close>

definition safe :: "('s, 'a) check_op \<Rightarrow> 's \<times> world \<Rightarrow> ('a \<Rightarrow> 's \<times> world \<Rightarrow> bool) \<Rightarrow> bool" where
  "safe f sw Q \<longleftrightarrow> (case f sw of
     (Inl (Failed what e), sw') \<Rightarrow> True
   | (Inl (Violated msg), sw') \<Rightarrow> False
   | (Inr x, sw') \<Rightarrow> Q x sw')"

lemma safe_ret [simp]: "safe (ret x) sw Q \<longleftrightarrow> Q x sw"
  by (simp add: safe_def)

lemma safe_and_then: "safe (and_then f k) sw Q \<longleftrightarrow> safe f sw (\<lambda>x sw'. safe (k x) sw' Q)"
  by (auto simp: safe_def and_then_def split: prod.splits sum.splits panic.splits)

lemma safe_assert [simp]: "safe (assert b msg) sw Q \<longleftrightarrow> b \<and> Q () sw"
  by (simp add: safe_def assert_def)

lemma safe_expect [simp]: "safe (expect x msg) sw Q \<longleftrightarrow> (\<exists>y. x = Some y \<and> Q y sw)"
  by (cases x) (simp_all add: safe_def expect_def or_fail_def)

lemma safe_draw: "safe (draw f) (s, w) Q \<longleftrightarrow> Q (fst (f w)) (s, snd (f w))"
  by (simp add: safe_def draw_def split: prod.split)

lemma safe_ok: "gives f sw Q \<Longrightarrow> safe (ok f what) sw Q"
  by (auto simp: safe_def ok_def gives_def split: prod.splits sum.splits)

lemma safe_mono: "safe f sw Q \<Longrightarrow> (\<And>x sw'. Q x sw' \<Longrightarrow> R x sw') \<Longrightarrow> safe f sw R"
  by (auto simp: safe_def split: prod.splits sum.splits panic.splits)

lemma gives_both: "gives f sw Q \<Longrightarrow> gives f sw R \<Longrightarrow> gives f sw (\<lambda>x sw'. Q x sw' \<and> R x sw')"
  by (simp add: gives_def)

section \<open>Identifiers\<close>

definition id_at :: "base64 \<Rightarrow> world \<Rightarrow> nat \<Rightarrow> string" where
  "id_at b64 w n = b64_encode b64 (map (wl_entropy w n) [0..<16])"

definition uaid_at :: "world \<Rightarrow> nat \<Rightarrow> string" where
  "uaid_at w n = concat (map hex2 (map (wl_entropy w n) [0..<16]))"

lemma new_id_at: "new_id b64 w = (id_at b64 w (wl_draws w), w\<lparr>wl_draws := Suc (wl_draws w)\<rparr>)"
  by (simp add: new_id_def random_bytes_def id_at_def)

lemma new_uaid_at: "new_uaid w = (uaid_at w (wl_draws w), w\<lparr>wl_draws := Suc (wl_draws w)\<rparr>)"
  by (simp add: new_uaid_def random_bytes_def uaid_at_def)

text \<open>
  Among its next \<open>d\<close> draws the process draws no channel id twice, which implies the same of the
  other identifiers, and its clock is past the first seconds of 1970 and fits the sequence numbers.
\<close>

definition ids_ok :: "base64 \<Rightarrow> nat \<Rightarrow> world \<Rightarrow> bool" where
  "ids_ok b64 d w \<longleftrightarrow> base64_ok b64 \<and> inj_on (\<lambda>n. uuid_of (id_at b64 w n)) {wl_draws w..<wl_draws w + d} \<and>
     (\<forall>k. 5000 \<le> wl_clock w k \<and> wl_clock w k * 1000 < 2 ^ 64)"

definition unknown_id :: "spec \<Rightarrow> string \<Rightarrow> bool" where
  "unknown_id sp i \<longleftrightarrow> sp_msgs sp i = None \<and> push_unused i sp \<and> sp_routes sp (Receipts i) = None \<and>
     (\<forall>j m. sp_msgs sp j = Some m \<longrightarrow> m_rsub m \<noteq> Some i)"

definition unknown_uaid :: "spec \<Rightarrow> string \<Rightarrow> bool" where
  "unknown_uaid sp u \<longleftrightarrow> sp_uas sp u = None \<and> (\<forall>c. sp_subs sp (u, c) = None) \<and> sp_routes sp (UserAgent u) = None \<and>
     (\<forall>j m. sp_msgs sp j = Some m \<longrightarrow> m_uaid m \<noteq> u)"

definition timely :: "u64 \<Rightarrow> bool" where
  "timely now \<longleftrightarrow> 5000 \<le> unat now \<and> unat now * 1000 < 2 ^ 64"

text \<open>What the next \<open>d\<close> draws give is in neither the store nor the given sets.\<close>

definition ids_new :: "base64 \<Rightarrow> nat \<Rightarrow> spec \<Rightarrow> string set \<Rightarrow> string set \<Rightarrow> string set \<Rightarrow> world \<Rightarrow> bool" where
  "ids_new b64 d sp I U C w \<longleftrightarrow> (\<forall>n\<in>{wl_draws w..<wl_draws w + d}.
     unknown_id sp (id_at b64 w n) \<and> id_at b64 w n \<notin> I \<and> unknown_uaid sp (uaid_at w n) \<and> uaid_at w n \<notin> U \<and>
     uuid_of (id_at b64 w n) \<notin> C)"

lemma id_at_inject:
  assumes "ids_ok b64 d w" and "n \<in> {wl_draws w..<wl_draws w + d}" and "n' \<in> {wl_draws w..<wl_draws w + d}"
  shows "uuid_of (id_at b64 w n) = uuid_of (id_at b64 w n') \<longleftrightarrow> n = n'"
    and "id_at b64 w n = id_at b64 w n' \<longleftrightarrow> n = n'"
    and "uaid_at w n = uaid_at w n' \<longleftrightarrow> n = n'"
proof -
  show 1: "uuid_of (id_at b64 w n) = uuid_of (id_at b64 w n') \<longleftrightarrow> n = n'"
    using assms unfolding ids_ok_def by (metis (no_types, lifting) inj_onD)
  then show "id_at b64 w n = id_at b64 w n' \<longleftrightarrow> n = n'" by auto
  show "uaid_at w n = uaid_at w n' \<longleftrightarrow> n = n'"
  proof
    assume "uaid_at w n = uaid_at w n'"
    then have "map (wl_entropy w n) [0..<16] = map (wl_entropy w n') [0..<16]"
      unfolding uaid_at_def by (subst (asm) concat_hex2_inject) simp_all
    then have "id_at b64 w n = id_at b64 w n'" by (simp only: id_at_def)
    then show "n = n'" using 1 by simp
  qed simp
qed

lemma id_at_world: "world_le w w' \<Longrightarrow> id_at b64 w' n = id_at b64 w n" "world_le w w' \<Longrightarrow> uaid_at w' n = uaid_at w n"
  by (simp_all add: id_at_def uaid_at_def world_le_def)

lemma ids_ok_world:
  assumes "ids_ok b64 d w" and le: "world_le w w'" and "wl_draws w' + d' \<le> wl_draws w + d"
  shows "ids_ok b64 d' w'"
proof -
  have "wl_draws w \<le> wl_draws w'" "wl_clock w' = wl_clock w" using le by (simp_all add: world_le_def)
  moreover have "inj_on (\<lambda>n. uuid_of (id_at b64 w n)) {wl_draws w'..<wl_draws w' + d'}"
    by (rule inj_on_subset [of _ "{wl_draws w..<wl_draws w + d}"]) (use assms calculation in \<open>auto simp: ids_ok_def\<close>)
  ultimately show ?thesis using assms by (simp add: ids_ok_def id_at_world [OF le])
qed

lemma ids_new_world:
  assumes "ids_new b64 d sp I U C w" and "world_le w w'" and "wl_draws w' + d' \<le> wl_draws w + d"
    and "\<And>i. unknown_id sp i \<Longrightarrow> i \<notin> I \<Longrightarrow> unknown_id sp' i" and "\<And>u. unknown_uaid sp u \<Longrightarrow> u \<notin> U \<Longrightarrow> unknown_uaid sp' u"
  shows "ids_new b64 d' sp' I U C w'"
  unfolding ids_new_def
proof
  fix n assume "n \<in> {wl_draws w'..<wl_draws w' + d'}"
  then have "n \<in> {wl_draws w..<wl_draws w + d}" using assms(2,3) by (auto simp: world_le_def)
  then show "unknown_id sp' (id_at b64 w' n) \<and> id_at b64 w' n \<notin> I \<and> unknown_uaid sp' (uaid_at w' n) \<and> uaid_at w' n \<notin> U \<and>
      uuid_of (id_at b64 w' n) \<notin> C"
    using assms(1,4,5) unfolding ids_new_def id_at_world [OF assms(2)] by blast
qed

section \<open>Stores that can be checked\<close>

text \<open>
  Beyond the laws: nothing but a receipt takes a sequence number, removals let the clock go on, and
  each new push id or receipt subscription is the next identifier drawn, the only draws of a store.
\<close>

definition unnumbered :: "('s, 'a) store_op \<Rightarrow> 's \<times> world \<Rightarrow> bool" where
  "unnumbered f sw \<longleftrightarrow> gives f sw (\<lambda>_ sw'. wl_last (snd sw') = wl_last (snd sw) \<and> wl_draws (snd sw') = wl_draws (snd sw))"

definition drawn_by :: "base64 \<Rightarrow> 's \<times> world \<Rightarrow> 's \<times> world \<Rightarrow> string \<Rightarrow> bool" where
  "drawn_by b64 sw sw' i \<longleftrightarrow> i = id_at b64 (snd sw) (wl_draws (snd sw)) \<and> wl_draws (snd sw') = Suc (wl_draws (snd sw)) \<and>
     wl_last (snd sw') = wl_last (snd sw)"

text \<open>The subscriptions of the other user agents.\<close>

definition without :: "string \<Rightarrow> (string \<times> string \<rightharpoonup> subscription) \<Rightarrow> string \<times> string \<rightharpoonup> subscription" where
  "without u f = (\<lambda>k. if fst k = u then None else f k)"

lemma without_simps [simp]: "without u f (u, c) = None" "without u (f((u, c) := x)) = without u f"
  by (simp_all add: without_def fun_eq_iff)

text \<open>An identifier that is in none of the given ones.\<close>

definition apart :: "string \<Rightarrow> string set \<Rightarrow> bool" where
  "apart x X \<longleftrightarrow> x \<notin> X"

lemma apart_insert [simp]: "apart x (insert y X) \<longleftrightarrow> x \<noteq> y \<and> y \<noteq> x \<and> apart x X"
  by (auto simp: apart_def)

text \<open>The messages of a map with a property, and what removing them owes.\<close>

definition held :: "(string \<rightharpoonup> message) \<Rightarrow> (string \<Rightarrow> message \<Rightarrow> bool) \<Rightarrow> message set" where
  "held f P = {m. \<exists>i. f i = Some m \<and> P i m}"

definition owed_by :: "message \<Rightarrow> receipt" where
  "owed_by m = \<lparr>rc_rsub = the (m_rsub m), rc_msg_id = m_id m, rc_status = 410\<rparr>"

definition removed :: "(message \<Rightarrow> bool) \<Rightarrow> spec \<Rightarrow> (u64 \<times> receipt) list \<Rightarrow> spec \<Rightarrow> bool" where
  "removed P sp rs sp' \<longleftrightarrow> sp_msgs sp' = sp_msgs (spec_discard P sp) \<and> sp_queues sp' = sp_queues (spec_enqueue rs sp) \<and>
     snd ` set rs = owed_by ` held (sp_msgs sp) (\<lambda>i m. P m \<and> (\<exists>rsub. m_rsub m = Some rsub \<and> sp_queues sp rsub \<noteq> None)) \<and>
     distinct (map (\<lambda>x. rc_msg_id (snd x)) rs)"

locale contract_store = full_store S view inv
  for S :: "'s store" and view :: "'s \<Rightarrow> spec" and inv :: "'s \<times> world \<Rightarrow> bool" +
  fixes b64 :: base64
  assumes finite_view: "inv sw \<Longrightarrow> finite (dom (sp_msgs (view (fst sw))))" "inv sw \<Longrightarrow> finite (dom (sp_uas (view (fst sw))))"
    and unnumbered_owners: "unnumbered (so_create_user_agent S ua) sw" "unnumbered (so_user_agent S u) sw"
      "unnumbered (so_touch_user_agent S u t) sw" "unnumbered (so_update_bridge_token S u tok) sw"
      "unnumbered (so_subscriptions S u) sw" "unnumbered (so_channel S u c) sw"
      "unnumbered (so_subscription_by_push S p) sw"
    and unnumbered_messages: "unnumbered (so_insert_message S m) sw" "unnumbered (so_pending S u t limit) sw"
      "unnumbered (so_message S i) sw" "unnumbered (so_delete_message S i owner) sw"
    and unnumbered_routes: "unnumbered (so_set_route S to node) sw" "unnumbered (so_route S to) sw"
      "unnumbered (so_clear_route S to node) sw"
    and unnumbered_receipts: "unnumbered (so_receipt_sub_exists S r) sw" "unnumbered (so_delete_receipt_sub S r) sw"
      "unnumbered (so_queued_receipts S r) sw" "unnumbered (so_delete_receipt S r seq) sw"
    and removal_worlds: "inv sw \<Longrightarrow> room_for view sw \<Longrightarrow> gives (so_delete_subscription S u c) sw (\<lambda>_ sw'. world_le (snd sw) (snd sw') \<and> wl_draws (snd sw') = wl_draws (snd sw))"
      "inv sw \<Longrightarrow> room_for view sw \<Longrightarrow> gives (so_delete_user_agent S u) sw (\<lambda>_ sw'. world_le (snd sw) (snd sw') \<and> wl_draws (snd sw') = wl_draws (snd sw))"
      "inv sw \<Longrightarrow> room_for view sw \<Longrightarrow> gives (so_expire_user_agents S t) sw (\<lambda>_ sw'. world_le (snd sw) (snd sw') \<and> wl_draws (snd sw') = wl_draws (snd sw))"
      "inv sw \<Longrightarrow> room_for view sw \<Longrightarrow> gives (so_reap S t) sw (\<lambda>_ sw'. world_le (snd sw) (snd sw') \<and> wl_draws (snd sw') = wl_draws (snd sw))"
    and number_issued: "inv sw \<Longrightarrow> seq_room (Suc 0) (snd sw) \<Longrightarrow>
      gives (so_enqueue_receipt S rc) sw (\<lambda>x sw'. (\<forall>seq. x = Some seq \<longrightarrow> wl_last (snd sw') = seq) \<and> wl_draws (snd sw') = wl_draws (snd sw))"
    and push_drawn: "gives (so_create_subscription S u c v) sw (\<lambda>sub sw'. drawn_by b64 sw sw' (sub_push sub))"
    and rsub_drawn: "gives (so_create_receipt_sub S) sw (\<lambda>rsub sw'. drawn_by b64 sw sw' rsub)"
begin

text \<open>
  The state between two steps of a check: the store shows \<open>sp\<close>, \<open>r\<close> numbers can be issued, and
  what the next \<open>d\<close> draws give is new to the store and differs from the identifiers drawn so far.
\<close>

definition stands :: "spec \<Rightarrow> nat \<Rightarrow> nat \<Rightarrow> string set \<Rightarrow> string set \<Rightarrow> string set \<Rightarrow> 's \<times> world \<Rightarrow> bool" where
  "stands sp r d I U C sw \<longleftrightarrow> inv sw \<and> view (fst sw) = sp \<and> ids_ok b64 d (snd sw) \<and> seq_room r (snd sw) \<and>
     ids_new b64 d sp I U C (snd sw)"

lemma standsD:
  "stands sp r d I U C sw \<Longrightarrow> inv sw" "stands sp r d I U C sw \<Longrightarrow> view (fst sw) = sp" "stands sp r d I U C sw \<Longrightarrow> seq_room r (snd sw)"
  by (simp_all add: stands_def)

lemma stands_finite: "stands sp r d I U C sw \<Longrightarrow> finite (dom (sp_msgs sp))" "stands sp r d I U C sw \<Longrightarrow> finite (dom (sp_uas sp))"
  using finite_view [of sw] by (auto simp: stands_def)

lemma stands_step:
  assumes "stands sp r d I U C sw" and "inv sw'" and "world_le (snd sw) (snd sw')" and "view (fst sw') = sp'"
    and "\<And>i. unknown_id sp i \<Longrightarrow> i \<notin> I \<Longrightarrow> unknown_id sp' i" and "\<And>u. unknown_uaid sp u \<Longrightarrow> u \<notin> U \<Longrightarrow> unknown_uaid sp' u"
    and "seq_room r' (snd sw')" and "wl_draws (snd sw') + d' \<le> wl_draws (snd sw) + d"
  shows "stands sp' r' d' I U C sw'"
  using assms ids_ok_world ids_new_world unfolding stands_def by blast

lemma room_unnumbered: "seq_room r w \<Longrightarrow> world_le w w' \<Longrightarrow> wl_last w' = wl_last w \<Longrightarrow> seq_room r w'"
  by (simp add: seq_room_def world_le_def)

text \<open>A call that follows a function on the abstract store.\<close>

lemma safe_call:
  assumes at: "stands sp r d I U C sw" and num: "unnumbered f sw"
    and law: "gives f sw (\<lambda>x sw'. inv sw' \<and> world_le (snd sw) (snd sw') \<and> P x (view (fst sw')))"
    and new: "\<And>x sp'. P x sp' \<Longrightarrow> (\<forall>i. unknown_id sp i \<longrightarrow> i \<notin> I \<longrightarrow> unknown_id sp' i) \<and>
       (\<forall>u. unknown_uaid sp u \<longrightarrow> u \<notin> U \<longrightarrow> unknown_uaid sp' u)"
    and k: "\<And>x sp' sw'. P x sp' \<Longrightarrow> stands sp' r d I U C sw' \<Longrightarrow> safe (k x) sw' Q"
  shows "safe (and_then (ok f what) k) sw Q"
  unfolding safe_and_then
proof (rule safe_ok, rule gives_mono [OF gives_both [OF law num [unfolded unnumbered_def]]], elim conjE)
  fix x sw' assume 1: "inv sw'" "world_le (snd sw) (snd sw')" "P x (view (fst sw'))" "wl_last (snd sw') = wl_last (snd sw)"
    "wl_draws (snd sw') = wl_draws (snd sw)"
  have "seq_room r (snd sw')" by (rule room_unnumbered [OF standsD(3) [OF at] 1(2,4)])
  then have "stands (view (fst sw')) r d I U C sw'" using 1 new [OF 1(3)] by (intro stands_step [OF at]) auto
  then show "safe (k x) sw' Q" by (rule k [OF 1(3)])
qed

subsection \<open>Drawing\<close>

lemma stands_draw:
  assumes "stands sp r (Suc d) I U C (s, w)"
  shows "stands sp r d (insert (id_at b64 w (wl_draws w)) I) (insert (uaid_at w (wl_draws w)) U)
     (insert (uuid_of (id_at b64 w (wl_draws w))) C) (s, w\<lparr>wl_draws := Suc (wl_draws w)\<rparr>)"
proof -
  let ?w = "w\<lparr>wl_draws := Suc (wl_draws w)\<rparr>"
  have le: "world_le w ?w" by (simp add: world_le_def)
  have ok: "ids_ok b64 (Suc d) w" and new: "ids_new b64 (Suc d) sp I U C w" using assms by (simp_all add: stands_def)
  have "inv (s, ?w)" using inv_world [OF standsD(1) [OF assms] le] .
  moreover have "ids_new b64 d sp (insert (id_at b64 w (wl_draws w)) I) (insert (uaid_at w (wl_draws w)) U)
     (insert (uuid_of (id_at b64 w (wl_draws w))) C) ?w"
    unfolding ids_new_def id_at_world [OF le]
  proof
    fix n assume "n \<in> {wl_draws ?w..<wl_draws ?w + d}"
    then have n: "n \<in> {wl_draws w..<wl_draws w + Suc d}" "wl_draws w \<in> {wl_draws w..<wl_draws w + Suc d}" "n \<noteq> wl_draws w" by auto
    then show "unknown_id sp (id_at b64 w n) \<and> id_at b64 w n \<notin> insert (id_at b64 w (wl_draws w)) I \<and>
        unknown_uaid sp (uaid_at w n) \<and> uaid_at w n \<notin> insert (uaid_at w (wl_draws w)) U \<and>
        uuid_of (id_at b64 w n) \<notin> insert (uuid_of (id_at b64 w (wl_draws w))) C"
      using new id_at_inject [OF ok n(1,2)] unfolding ids_new_def by blast
  qed
  ultimately show ?thesis using assms ids_ok_world [OF ok le, of d] by (simp add: stands_def seq_room_def)
qed

lemma stands_fewer:
  "stands sp r d I U C sw \<Longrightarrow> I' \<subseteq> I \<Longrightarrow> U' \<subseteq> U \<Longrightarrow> C' \<subseteq> C \<Longrightarrow> r' \<le> r \<Longrightarrow> stands sp r' d I' U' C' sw"
  unfolding stands_def ids_new_def using seq_room_mono by blast

lemma stands_new:
  assumes "stands sp r (Suc d) I U C (s, w)"
  shows "unknown_id sp (id_at b64 w (wl_draws w))" "id_at b64 w (wl_draws w) \<notin> I" "length (id_at b64 w (wl_draws w)) = 22"
    and "unknown_uaid sp (uaid_at w (wl_draws w))" "uaid_at w (wl_draws w) \<notin> U" "is_uaid (uaid_at w (wl_draws w))"
    and "uuid_of (id_at b64 w (wl_draws w)) \<notin> C"
proof -
  have ok: "base64_ok b64" using assms by (simp add: stands_def ids_ok_def)
  show "length (id_at b64 w (wl_draws w)) = 22" using issued_ids_valid [OF ok, of w w] by (simp add: new_id_at is_id_def)
  show "is_uaid (uaid_at w (wl_draws w))" using issued_ids_valid [OF ok, of w w] by (simp add: new_uaid_at)
qed (use assms in \<open>auto simp: stands_def ids_new_def\<close>)

lemma safe_new_uaid [contract_rules]:
  assumes "stands sp r (Suc d) I U C sw"
    and "\<And>u sw'. stands sp r d I (insert u U) C sw' \<Longrightarrow> apart u U \<Longrightarrow> unknown_uaid sp u \<Longrightarrow> is_uaid u \<Longrightarrow> safe (k u) sw' Q"
  shows "safe (and_then (draw new_uaid) k) sw Q"
proof -
  obtain s w where sw: "sw = (s, w)" by (cases sw)
  note at = assms(1) [unfolded sw]
  show ?thesis unfolding sw safe_and_then safe_draw new_uaid_at fst_conv snd_conv
    by (rule assms(2) [OF stands_fewer [OF stands_draw [OF at]]]) (use stands_new [OF at] in \<open>auto simp: apart_def\<close>)
qed

lemma safe_new_id [contract_rules]:
  assumes "stands sp r (Suc d) I U C sw"
    and "\<And>i sw'. stands sp r d (insert i I) U C sw' \<Longrightarrow> apart i I \<Longrightarrow> unknown_id sp i \<Longrightarrow> safe (k i) sw' Q"
  shows "safe (and_then (draw (new_id b64)) k) sw Q"
proof -
  obtain s w where sw: "sw = (s, w)" by (cases sw)
  note at = assms(1) [unfolded sw]
  show ?thesis unfolding sw safe_and_then safe_draw new_id_at fst_conv snd_conv
    by (rule assms(2) [OF stands_fewer [OF stands_draw [OF at]]]) (use stands_new [OF at] in \<open>auto simp: apart_def\<close>)
qed

lemma length_uuid: "length i = 22 \<Longrightarrow> length (uuid_of i) = 36"
proof -
  assume i: "length i = 22"
  have "length (concat (map (\<lambda>c. hex2 (of_char c)) i)) = 2 * length i" by (induction i) simp_all
  then show ?thesis using i by (simp add: uuid_of_def Let_def)
qed

lemma safe_channel_id [contract_rules]:
  assumes "stands sp r (Suc d) I U C sw"
    and "\<And>c sw'. stands sp r d I U (insert c C) sw' \<Longrightarrow> apart c C \<Longrightarrow> length c = 36 \<Longrightarrow> safe (k c) sw' Q"
  shows "safe (and_then (contract_channel_id b64) k) sw Q"
proof -
  obtain s w where sw: "sw = (s, w)" by (cases sw)
  note at = assms(1) [unfolded sw]
  show ?thesis unfolding sw contract_channel_id_def safe_and_then safe_draw new_id_at fst_conv snd_conv safe_ret
    by (rule assms(2) [OF stands_fewer [OF stands_draw [OF at]]]) (use stands_new [OF at] length_uuid in \<open>auto simp: apart_def\<close>)
qed

lemma safe_new_message [contract_rules]:
  assumes "stands sp r (Suc d) I U C sw"
    and "\<And>i sw'. stands sp r d (insert i I) U C sw' \<Longrightarrow> apart i I \<Longrightarrow> unknown_id sp i \<Longrightarrow>
       safe (k (test_message i u c p accepted ttl_ms)) sw' Q"
  shows "safe (and_then (new_message b64 u c p accepted ttl_ms) k) sw Q"
proof -
  have "safe (and_then (draw (new_id b64)) (\<lambda>i. k (test_message i u c p accepted ttl_ms))) sw Q"
    by (rule safe_new_id [OF assms(1)]) (rule assms(2))
  then show ?thesis by (simp add: new_message_def safe_and_then)
qed

text \<open>A reading of the clock.\<close>

lemma safe_now [contract_rules]:
  assumes "stands sp r d I U C sw" and "\<And>now sw'. stands sp r d I U C sw' \<Longrightarrow> timely now \<Longrightarrow> safe (k now) sw' Q"
  shows "safe (and_then (draw now_ms) k) sw Q"
proof -
  obtain s w where sw: "sw = (s, w)" by (cases sw)
  note at = assms(1) [unfolded sw]
  have le: "world_le w (snd (now_ms w))" using world_le_now [of w "fst (now_ms w)"] by simp
  have "5000 \<le> wl_clock w (wl_reads w)" "wl_clock w (wl_reads w) * 1000 < 2 ^ 64"
    using at by (simp_all add: stands_def ids_ok_def)
  then have now: "timely (fst (now_ms w))"
    by (simp add: timely_def now_ms_def Let_def unat_of_nat take_bit_nat_eq_self_iff)
  have "stands sp r d I U C (s, snd (now_ms w))"
  proof (rule stands_step [OF at])
    show "inv (s, snd (now_ms w))" using inv_world [OF standsD(1) [OF at] le] .
    show "seq_room r (snd (s, snd (now_ms w)))" using standsD(3) [OF at] by (simp add: seq_room_def now_ms_def Let_def)
  qed (use le standsD(2) [OF at] in simp_all)
  then show ?thesis unfolding sw safe_and_then safe_draw using assms(2) now by simp
qed

subsection \<open>Assertions\<close>

lemma safe_assertion [simp]: "safe (and_then (assert b msg) k) sw Q \<longleftrightarrow> b \<and> safe (k ()) sw Q"
  by (simp add: safe_and_then)

lemma safe_expected [simp]: "safe (and_then (expect x msg) k) sw Q \<longleftrightarrow> (\<exists>y. x = Some y \<and> safe (k y) sw Q)"
  by (simp add: safe_and_then)

lemma safe_insert_all [simp]:
  "safe (and_then (insert_all S []) k) sw Q \<longleftrightarrow> safe (k ()) sw Q"
  "safe (and_then (insert_all S (m # ms)) k) sw Q \<longleftrightarrow>
     safe (and_then (ok (so_insert_message S m) ''insert_message'') (\<lambda>_. and_then (insert_all S ms) k)) sw Q"
  by (simp_all add: safe_and_then)

subsection \<open>User agents and subscriptions\<close>

lemma safe_create_user_agent [contract_rules]:
  assumes at: "stands sp r d I U C sw" and "ua_uaid ua \<in> U"
    and k: "\<And>sw'. stands (spec_create_user_agent ua sp) r d I U C sw' \<Longrightarrow> safe (k ()) sw' Q"
  shows "safe (and_then (ok (so_create_user_agent S ua) what) k) sw Q"
  by (rule safe_call [OF at unnumbered_owners(1) create_user_agent [OF standsD(1) [OF at]]])
    (use assms(2) k standsD(2) [OF at] in \<open>auto simp: spec_create_user_agent_def unknown_id_def unknown_uaid_def push_unused_def\<close>)

lemma safe_user_agent [contract_rules]:
  assumes at: "stands sp r d I U C sw" and k: "\<And>sw'. stands sp r d I U C sw' \<Longrightarrow> safe (k (sp_uas sp u)) sw' Q"
  shows "safe (and_then (ok (so_user_agent S u) what) k) sw Q"
  by (rule safe_call [OF at unnumbered_owners(2) user_agent [OF standsD(1) [OF at]]]) (use k standsD(2) [OF at] in auto)

lemma uas_unknown:
  "unknown_id (sp\<lparr>sp_uas := f\<rparr>) i \<longleftrightarrow> unknown_id sp i"
  "unknown_uaid (sp\<lparr>sp_uas := f\<rparr>) u \<longleftrightarrow> f u = None \<and> unknown_uaid (sp\<lparr>sp_uas := Map.empty\<rparr>) u"
  "unknown_uaid sp u \<longleftrightarrow> sp_uas sp u = None \<and> unknown_uaid (sp\<lparr>sp_uas := Map.empty\<rparr>) u"
  by (auto simp: unknown_id_def unknown_uaid_def push_unused_def)

lemma touched_unknown:
  "unknown_id (snd (spec_touch_user_agent v t sp)) i \<longleftrightarrow> unknown_id sp i"
  "unknown_uaid (snd (spec_touch_user_agent v t sp)) u \<longleftrightarrow> unknown_uaid sp u"
  by (auto simp: spec_touch_user_agent_def unknown_id_def unknown_uaid_def push_unused_def split: option.splits)

lemma updated_unknown:
  "unknown_id (snd (spec_update_bridge_token v t sp)) i \<longleftrightarrow> unknown_id sp i"
  "unknown_uaid (snd (spec_update_bridge_token v t sp)) u \<longleftrightarrow> unknown_uaid sp u"
  by (auto simp: spec_update_bridge_token_def unknown_id_def unknown_uaid_def push_unused_def split: option.splits)

lemma safe_touch_user_agent [contract_rules]:
  assumes at: "stands sp r d I U C sw"
    and k: "\<And>sw'. stands (snd (spec_touch_user_agent u t sp)) r d I U C sw' \<Longrightarrow> safe (k (fst (spec_touch_user_agent u t sp))) sw' Q"
  shows "safe (and_then (ok (so_touch_user_agent S u t) what) k) sw Q"
proof (rule safe_call [OF at unnumbered_owners(3), where P = "\<lambda>x sp'. (x, sp') = spec_touch_user_agent u t sp"])
  show "gives (so_touch_user_agent S u t) sw (\<lambda>x sw'. inv sw' \<and> world_le (snd sw) (snd sw') \<and>
      (x, view (fst sw')) = spec_touch_user_agent u t sp)"
    using touch_user_agent [OF standsD(1) [OF at]] standsD(2) [OF at] by simp
  fix x sp' assume x: "(x, sp') = spec_touch_user_agent u t sp"
  then have "x = fst (spec_touch_user_agent u t sp)" "sp' = snd (spec_touch_user_agent u t sp)" by (metis fst_conv, metis snd_conv)
  then show "(\<forall>i. unknown_id sp i \<longrightarrow> i \<notin> I \<longrightarrow> unknown_id sp' i) \<and> (\<forall>u. unknown_uaid sp u \<longrightarrow> u \<notin> U \<longrightarrow> unknown_uaid sp' u)"
    and "\<And>sw'. stands sp' r d I U C sw' \<Longrightarrow> safe (k x) sw' Q"
    using k by (simp_all add: touched_unknown)
qed

lemma safe_update_bridge_token [contract_rules]:
  assumes at: "stands sp r d I U C sw"
    and k: "\<And>sw'. stands (snd (spec_update_bridge_token u t sp)) r d I U C sw' \<Longrightarrow> safe (k (fst (spec_update_bridge_token u t sp))) sw' Q"
  shows "safe (and_then (ok (so_update_bridge_token S u t) what) k) sw Q"
proof (rule safe_call [OF at unnumbered_owners(4), where P = "\<lambda>x sp'. (x, sp') = spec_update_bridge_token u t sp"])
  show "gives (so_update_bridge_token S u t) sw (\<lambda>x sw'. inv sw' \<and> world_le (snd sw) (snd sw') \<and>
      (x, view (fst sw')) = spec_update_bridge_token u t sp)"
    using update_bridge_token [OF standsD(1) [OF at]] standsD(2) [OF at] by simp
  fix x sp' assume x: "(x, sp') = spec_update_bridge_token u t sp"
  then have "x = fst (spec_update_bridge_token u t sp)" "sp' = snd (spec_update_bridge_token u t sp)" by (metis fst_conv, metis snd_conv)
  then show "(\<forall>i. unknown_id sp i \<longrightarrow> i \<notin> I \<longrightarrow> unknown_id sp' i) \<and> (\<forall>u. unknown_uaid sp u \<longrightarrow> u \<notin> U \<longrightarrow> unknown_uaid sp' u)"
    and "\<And>sw'. stands sp' r d I U C sw' \<Longrightarrow> safe (k x) sw' Q"
    using k by (simp_all add: updated_unknown)
qed

lemma safe_subscriptions [contract_rules]:
  assumes at: "stands sp r d I U C sw"
    and k: "\<And>subs sw'. stands sp r d I U C sw' \<Longrightarrow> distinct subs \<Longrightarrow>
      set subs = {sub. sp_subs sp (u, sub_channel_id sub) = Some sub} \<Longrightarrow> safe (k subs) sw' Q"
  shows "safe (and_then (ok (so_subscriptions S u) what) k) sw Q"
  by (rule safe_call [OF at unnumbered_owners(5) subscriptions [OF standsD(1) [OF at]]]) (use k standsD(2) [OF at] in auto)

lemma safe_channel [contract_rules]:
  assumes at: "stands sp r d I U C sw" and k: "\<And>sw'. stands sp r d I U C sw' \<Longrightarrow> safe (k (sp_subs sp (u, c))) sw' Q"
  shows "safe (and_then (ok (so_channel S u c) what) k) sw Q"
  by (rule safe_call [OF at unnumbered_owners(6) channel [OF standsD(1) [OF at]]]) (use k standsD(2) [OF at] in auto)

lemma safe_subscription_by_push [contract_rules]:
  assumes at: "stands sp r d I U C sw" and k: "\<And>x sw'. stands sp r d I U C sw' \<Longrightarrow> spec_by_push p sp x \<Longrightarrow> safe (k x) sw' Q"
  shows "safe (and_then (ok (so_subscription_by_push S p) what) k) sw Q"
  by (rule safe_call [OF at unnumbered_owners(7) subscription_by_push [OF standsD(1) [OF at]]])
    (use k standsD(2) [OF at] in auto)

lemma drawn_new:
  assumes at: "stands sp r (Suc d) I U C sw" and "drawn_by b64 sw sw' i"
  shows "unknown_id sp i" "apart i I" "length i = 22"
proof -
  obtain s w where sw: "sw = (s, w)" by (cases sw)
  show "unknown_id sp i" "apart i I" "length i = 22"
    using stands_new [OF at [unfolded sw]] assms(2) by (simp_all add: drawn_by_def apart_def sw)
qed

lemma stands_drawn:
  assumes at: "stands sp r (Suc d) I U C sw" and drawn: "drawn_by b64 sw sw' i" and le: "world_le (snd sw) (snd sw')"
    and "inv sw'" and "view (fst sw') = sp'"
    and "\<And>j. unknown_id sp j \<Longrightarrow> j \<notin> insert i I \<Longrightarrow> unknown_id sp' j" and "\<And>u. unknown_uaid sp u \<Longrightarrow> u \<notin> U \<Longrightarrow> unknown_uaid sp' u"
  shows "stands sp' r d (insert i I) U C sw'"
proof -
  obtain s w s' w' where sw: "sw = (s, w)" "sw' = (s', w')" by (cases sw, cases sw')
  let ?w = "w\<lparr>wl_draws := Suc (wl_draws w)\<rparr>"
  have i: "i = id_at b64 w (wl_draws w)" and w': "wl_draws w' = Suc (wl_draws w)" "wl_last w' = wl_last w" and le': "world_le w w'"
    using drawn le by (simp_all add: drawn_by_def sw)
  have le'': "world_le ?w w'" using le' w' by (simp add: world_le_def)
  have "stands sp r d (insert i I) U C (s, ?w)" using stands_fewer [OF stands_draw [OF at [unfolded sw(1)]]] by (auto simp: i)
  from stands_step [OF this, of sw' sp' r d] show ?thesis
    using assms(4-7) le'' w' standsD(3) [OF at] by (simp add: sw seq_room_def world_le_def)
qed

lemma safe_create_subscription [contract_rules]:
  assumes at: "stands sp r (Suc d) I U C sw" and "u \<in> U" and "sp_subs sp (u, c) = None"
    and k: "\<And>p sw'. stands (spec_create_subscription \<lparr>sub_uaid = u, sub_channel_id = c, sub_push = p, sub_vapid = v\<rparr> sp) r d (insert p I) U C sw' \<Longrightarrow>
      apart p I \<Longrightarrow> unknown_id sp p \<Longrightarrow> length p = 22 \<Longrightarrow> safe (k \<lparr>sub_uaid = u, sub_channel_id = c, sub_push = p, sub_vapid = v\<rparr>) sw' Q"
  shows "safe (and_then (ok (so_create_subscription S u c v) what) k) sw Q"
  unfolding safe_and_then
proof (rule safe_ok)
  have pre: "inv sw" "sp_subs (view (fst sw)) (u, c) = None" using at assms(3) by (simp_all add: stands_def)
  note laws = gives_both [OF create_subscription [OF pre, where v = v]
    push_drawn]
  show "gives (so_create_subscription S u c v) sw (\<lambda>x sw'. safe (k x) sw' Q)"
  proof (rule gives_mono [OF laws], elim conjE)
    fix sub sw'
    assume 1: "sub_uaid sub = u" "sub_channel_id sub = c" "sub_vapid sub = v" "world_le (snd sw) (snd sw')"
      and new: "push_unused (sub_push sub) (view (fst sw)) \<longrightarrow> inv sw' \<and> view (fst sw') = spec_create_subscription sub (view (fst sw))"
      and drawn: "drawn_by b64 sw sw' (sub_push sub)"
    let ?sub = "\<lparr>sub_uaid = u, sub_channel_id = c, sub_push = sub_push sub, sub_vapid = v\<rparr>"
    have sub: "sub = ?sub" using 1 by (cases sub) simp
    note id = drawn_new [OF at drawn]
    have "inv sw'" "view (fst sw') = spec_create_subscription ?sub sp"
      using new id(1) sub standsD(2) [OF at] by (simp_all add: unknown_id_def)
    moreover have "push_unused i (spec_create_subscription ?sub sp)" if "push_unused i sp" "i \<noteq> sub_push sub" for i
      using that by (auto simp: spec_create_subscription_def push_unused_def)
    ultimately have "stands (spec_create_subscription ?sub sp) r d (insert (sub_push sub) I) U C sw'"
      using assms(2) by (intro stands_drawn [OF at drawn 1(4)])
        (auto simp: unknown_id_def unknown_uaid_def spec_create_subscription_def)
    then show "safe (k sub) sw' Q" using k [OF _ id(2,1,3)] sub by metis
  qed
qed

subsection \<open>Messages\<close>

text \<open>The identifiers a message carries have been drawn.\<close>

definition carries :: "string set \<Rightarrow> string set \<Rightarrow> message \<Rightarrow> bool" where
  "carries I U m \<longleftrightarrow> m_id m \<in> I \<and> m_uaid m \<in> U \<and> (\<forall>rsub. m_rsub m = Some rsub \<longrightarrow> rsub \<in> I)"

lemma inserted_unknown:
  assumes "carries I U m"
  shows "unknown_id sp i \<Longrightarrow> i \<notin> I \<Longrightarrow> unknown_id (spec_insert_message m sp) i"
    and "unknown_uaid sp u \<Longrightarrow> u \<notin> U \<Longrightarrow> unknown_uaid (spec_insert_message m sp) u"
  using assms
  by (auto simp: carries_def spec_insert_message_def unknown_id_def unknown_uaid_def push_unused_def split: if_splits option.splits)

lemma safe_insert_message [contract_rules]:
  assumes at: "stands sp r d I U C sw" and m: "carries I U m" and new: "sp_msgs sp (m_id m) = None"
    and k: "\<And>sw'. stands (spec_insert_message m sp) r d I U C sw' \<Longrightarrow> safe (k ()) sw' Q"
  shows "safe (and_then (ok (so_insert_message S m) what) k) sw Q"
proof (rule safe_call [OF at unnumbered_messages(1) insert_message [OF standsD(1) [OF at]]])
  show "sp_msgs (view (fst sw)) (m_id m) = None" using new standsD(2) [OF at] by simp
  fix x sp' assume "sp' = spec_insert_message m (view (fst sw))"
  then have sp': "sp' = spec_insert_message m sp" using standsD(2) [OF at] by simp
  show "(\<forall>i. unknown_id sp i \<longrightarrow> i \<notin> I \<longrightarrow> unknown_id sp' i) \<and> (\<forall>u. unknown_uaid sp u \<longrightarrow> u \<notin> U \<longrightarrow> unknown_uaid sp' u)"
    using inserted_unknown [OF m] by (simp add: sp')
  show "stands sp' r d I U C sw' \<Longrightarrow> safe (k x) sw' Q" for sw' using k by (simp add: sp')
qed

lemma safe_pending [contract_rules]:
  assumes at: "stands sp r d I U C sw"
    and k: "\<And>ms sw'. stands sp r d I U C sw' \<Longrightarrow> spec_pending sp u now limit ms \<Longrightarrow> safe (k ms) sw' Q"
  shows "safe (and_then (ok (so_pending S u now limit) what) k) sw Q"
  by (rule safe_call [OF at unnumbered_messages(2) pending [OF standsD(1) [OF at]]]) (use k standsD(2) [OF at] in auto)

lemma safe_message [contract_rules]:
  assumes at: "stands sp r d I U C sw" and k: "\<And>sw'. stands sp r d I U C sw' \<Longrightarrow> safe (k (sp_msgs sp i)) sw' Q"
  shows "safe (and_then (ok (so_message S i) what) k) sw Q"
  by (rule safe_call [OF at unnumbered_messages(3) message [OF standsD(1) [OF at]]]) (use k standsD(2) [OF at] in auto)

lemma deleted_unknown:
  "unknown_id sp j \<Longrightarrow> unknown_id (snd (spec_delete_message i owner sp)) j"
  "unknown_uaid sp u \<Longrightarrow> unknown_uaid (snd (spec_delete_message i owner sp)) u"
  by (auto simp: spec_delete_message_def unknown_id_def unknown_uaid_def push_unused_def split: option.splits)

lemma safe_delete_message [contract_rules]:
  assumes at: "stands sp r d I U C sw"
    and k: "\<And>sw'. stands (snd (spec_delete_message i owner sp)) r d I U C sw' \<Longrightarrow>
      safe (k (fst (spec_delete_message i owner sp))) sw' Q"
  shows "safe (and_then (ok (so_delete_message S i owner) what) k) sw Q"
proof (rule safe_call [OF at unnumbered_messages(4), where P = "\<lambda>x sp'. (x, sp') = spec_delete_message i owner sp"])
  show "gives (so_delete_message S i owner) sw (\<lambda>x sw'. inv sw' \<and> world_le (snd sw) (snd sw') \<and>
      (x, view (fst sw')) = spec_delete_message i owner sp)"
    using delete_message [OF standsD(1) [OF at]] standsD(2) [OF at] by simp
  fix x sp' assume "(x, sp') = spec_delete_message i owner sp"
  then have "x = fst (spec_delete_message i owner sp)" "sp' = snd (spec_delete_message i owner sp)" by (metis fst_conv, metis snd_conv)
  then show "(\<forall>i. unknown_id sp i \<longrightarrow> i \<notin> I \<longrightarrow> unknown_id sp' i) \<and> (\<forall>u. unknown_uaid sp u \<longrightarrow> u \<notin> U \<longrightarrow> unknown_uaid sp' u)"
    and "\<And>sw'. stands sp' r d I U C sw' \<Longrightarrow> safe (k x) sw' Q"
    using k by (simp_all add: deleted_unknown)
qed

subsection \<open>Routes\<close>

fun drawn_recipient :: "string set \<Rightarrow> string set \<Rightarrow> recipient \<Rightarrow> bool" where
  "drawn_recipient I U (UserAgent u) \<longleftrightarrow> u \<in> U"
| "drawn_recipient I U (Receipts i) \<longleftrightarrow> i \<in> I"

lemma safe_route [contract_rules]:
  assumes at: "stands sp r d I U C sw" and k: "\<And>sw'. stands sp r d I U C sw' \<Longrightarrow> safe (k (sp_routes sp to)) sw' Q"
  shows "safe (and_then (ok (so_route S to) what) k) sw Q"
  by (rule safe_call [OF at unnumbered_routes(2) route [OF standsD(1) [OF at]]]) (use k standsD(2) [OF at] in auto)

lemma safe_set_route [contract_rules]:
  assumes at: "stands sp r d I U C sw" and to: "drawn_recipient I U to"
    and k: "\<And>sw'. stands (sp\<lparr>sp_routes := (sp_routes sp)(to \<mapsto> node)\<rparr>) r d I U C sw' \<Longrightarrow> safe (k (sp_routes sp to)) sw' Q"
  shows "safe (and_then (ok (so_set_route S to node) what) k) sw Q"
proof (rule safe_call [OF at unnumbered_routes(1), where P = "\<lambda>x sp'. (x, sp') = spec_set_route to node sp"])
  show "gives (so_set_route S to node) sw (\<lambda>x sw'. inv sw' \<and> world_le (snd sw) (snd sw') \<and>
      (x, view (fst sw')) = spec_set_route to node sp)"
    using set_route [OF standsD(1) [OF at]] standsD(2) [OF at] by simp
  fix x sp' assume "(x, sp') = spec_set_route to node sp"
  then have x: "x = sp_routes sp to" "sp' = sp\<lparr>sp_routes := (sp_routes sp)(to \<mapsto> node)\<rparr>" by (simp_all add: spec_set_route_def)
  show "(\<forall>i. unknown_id sp i \<longrightarrow> i \<notin> I \<longrightarrow> unknown_id sp' i) \<and> (\<forall>u. unknown_uaid sp u \<longrightarrow> u \<notin> U \<longrightarrow> unknown_uaid sp' u)"
    using to by (auto simp: x(2) unknown_id_def unknown_uaid_def push_unused_def)
  show "\<And>sw'. stands sp' r d I U C sw' \<Longrightarrow> safe (k x) sw' Q" using k by (simp add: x)
qed

lemma safe_clear_route [contract_rules]:
  assumes at: "stands sp r d I U C sw"
    and k: "\<And>sw'. stands (snd (spec_clear_route to node sp)) r d I U C sw' \<Longrightarrow> safe (k (fst (spec_clear_route to node sp))) sw' Q"
  shows "safe (and_then (ok (so_clear_route S to node) what) k) sw Q"
proof (rule safe_call [OF at unnumbered_routes(3), where P = "\<lambda>x sp'. (x, sp') = spec_clear_route to node sp"])
  show "gives (so_clear_route S to node) sw (\<lambda>x sw'. inv sw' \<and> world_le (snd sw) (snd sw') \<and>
      (x, view (fst sw')) = spec_clear_route to node sp)"
    using clear_route [OF standsD(1) [OF at]] standsD(2) [OF at] by simp
  fix x sp' assume "(x, sp') = spec_clear_route to node sp"
  then have x: "x = fst (spec_clear_route to node sp)" "sp' = snd (spec_clear_route to node sp)" by (metis fst_conv, metis snd_conv)
  show "(\<forall>i. unknown_id sp i \<longrightarrow> i \<notin> I \<longrightarrow> unknown_id sp' i) \<and> (\<forall>u. unknown_uaid sp u \<longrightarrow> u \<notin> U \<longrightarrow> unknown_uaid sp' u)"
    by (auto simp: x(2) spec_clear_route_def unknown_id_def unknown_uaid_def push_unused_def)
  show "\<And>sw'. stands sp' r d I U C sw' \<Longrightarrow> safe (k x) sw' Q" using k by (simp add: x)
qed

subsection \<open>Receipts\<close>

lemma queues_unknown [simp]:
  "unknown_id (sp\<lparr>sp_queues := f\<rparr>) i \<longleftrightarrow> unknown_id sp i" "unknown_uaid (sp\<lparr>sp_queues := f\<rparr>) u \<longleftrightarrow> unknown_uaid sp u"
  by (simp_all add: unknown_id_def unknown_uaid_def push_unused_def)

lemma safe_create_receipt_sub [contract_rules]:
  assumes at: "stands sp r (Suc d) I U C sw"
    and k: "\<And>rsub sw'. stands (sp\<lparr>sp_queues := (sp_queues sp)(rsub \<mapsto> [])\<rparr>) r d (insert rsub I) U C sw' \<Longrightarrow>
      apart rsub I \<Longrightarrow> unknown_id sp rsub \<Longrightarrow> safe (k rsub) sw' Q"
  shows "safe (and_then (ok (so_create_receipt_sub S) what) k) sw Q"
  unfolding safe_and_then
proof (rule safe_ok)
  show "gives (so_create_receipt_sub S) sw (\<lambda>x sw'. safe (k x) sw' Q)"
  proof (rule gives_mono [OF gives_both [OF create_receipt_sub [OF standsD(1) [OF at]] rsub_drawn]], elim conjE)
    fix rsub sw'
    assume 1: "world_le (snd sw) (snd sw')" "inv sw'"
      "view (fst sw') = (view (fst sw))\<lparr>sp_queues := (sp_queues (view (fst sw)))(rsub \<mapsto> [])\<rparr>"
      and drawn: "drawn_by b64 sw sw' rsub"
    note id = drawn_new [OF at drawn]
    have "stands (sp\<lparr>sp_queues := (sp_queues sp)(rsub \<mapsto> [])\<rparr>) r d (insert rsub I) U C sw'"
      using 1 standsD(2) [OF at] by (intro stands_drawn [OF at drawn]) simp_all
    then show "safe (k rsub) sw' Q" by (rule k [OF _ id(2,1)])
  qed
qed

lemma safe_receipt_sub_exists [contract_rules]:
  assumes at: "stands sp r d I U C sw" and k: "\<And>sw'. stands sp r d I U C sw' \<Longrightarrow> safe (k (sp_queues sp rsub \<noteq> None)) sw' Q"
  shows "safe (and_then (ok (so_receipt_sub_exists S rsub) what) k) sw Q"
  by (rule safe_call [OF at unnumbered_receipts(1) receipt_sub_exists [OF standsD(1) [OF at]]]) (use k standsD(2) [OF at] in auto)

lemma safe_delete_receipt_sub [contract_rules]:
  assumes at: "stands sp r d I U C sw"
    and k: "\<And>sw'. stands (sp\<lparr>sp_queues := (sp_queues sp)(rsub := None)\<rparr>) r d I U C sw' \<Longrightarrow> safe (k (sp_queues sp rsub \<noteq> None)) sw' Q"
  shows "safe (and_then (ok (so_delete_receipt_sub S rsub) what) k) sw Q"
proof (rule safe_call [OF at unnumbered_receipts(2) delete_receipt_sub [OF standsD(1) [OF at], unfolded standsD(2) [OF at]]])
  fix x sp' sw' assume "(x \<longleftrightarrow> sp_queues sp rsub \<noteq> None) \<and> sp' = sp\<lparr>sp_queues := (sp_queues sp)(rsub := None)\<rparr>"
    and at': "stands sp' r d I U C sw'"
  then have x: "x = (sp_queues sp rsub \<noteq> None)" "sp' = sp\<lparr>sp_queues := (sp_queues sp)(rsub := None)\<rparr>" by blast+
  show "safe (k x) sw' Q" unfolding x(1) by (rule k) (use at' in \<open>simp only: x(2)\<close>)
qed simp

lemma safe_queued_receipts [contract_rules]:
  assumes at: "stands sp r d I U C sw"
    and k: "\<And>sw'. stands sp r d I U C sw' \<Longrightarrow> safe (k (case sp_queues sp rsub of None \<Rightarrow> [] | Some q \<Rightarrow> q)) sw' Q"
  shows "safe (and_then (ok (so_queued_receipts S rsub) what) k) sw Q"
  by (rule safe_call [OF at unnumbered_receipts(3) queued_receipts [OF standsD(1) [OF at]]]) (use k standsD(2) [OF at] in auto)

lemma safe_delete_receipt [contract_rules]:
  assumes at: "stands sp r d I U C sw"
    and k: "\<And>sw'. stands (sp\<lparr>sp_queues := (\<lambda>k. if k = rsub then map_option (AList.delete seq) (sp_queues sp k) else sp_queues sp k)\<rparr>)
      r d I U C sw' \<Longrightarrow> safe (k ()) sw' Q"
  shows "safe (and_then (ok (so_delete_receipt S rsub seq) what) k) sw Q"
  by (rule safe_call [OF at unnumbered_receipts(4) delete_receipt [OF standsD(1) [OF at]]]) (use k standsD(2) [OF at] in auto)

lemma safe_enqueue_receipt [contract_rules]:
  assumes at: "stands sp (Suc r) d I U C sw"
    and k: "\<And>x sw'. stands (spec_enqueue (case x of None \<Rightarrow> [] | Some seq \<Rightarrow> [(seq, rc)]) sp) r d I U C sw' \<Longrightarrow>
      (x \<noteq> None \<longleftrightarrow> sp_queues sp (rc_rsub rc) \<noteq> None) \<Longrightarrow>
      (\<forall>seq. x = Some seq \<longrightarrow> wl_last (snd sw) < seq \<and> seq \<noteq> wl_last (snd sw) \<and> wl_last (snd sw') = seq) \<Longrightarrow> safe (k x) sw' Q"
  shows "safe (and_then (ok (so_enqueue_receipt S rc) what) k) sw Q"
  unfolding safe_and_then
proof (rule safe_ok)
  have room: "seq_room (Suc r) (snd sw)" "seq_room (Suc 0) (snd sw)"
    using standsD(3) [OF at] by (auto intro: seq_room_mono)
  show "gives (so_enqueue_receipt S rc) sw (\<lambda>x sw'. safe (k x) sw' Q)"
  proof (rule gives_mono [OF gives_both [OF enqueue_receipt [OF standsD(1) [OF at] room(1)]
        number_issued [OF standsD(1) [OF at] room(2)]]], elim conjE)
    fix x sw'
    assume 1: "inv sw'" "world_le (snd sw) (snd sw')" "seq_room r (snd sw')"
      and x: "(x \<noteq> None) = (sp_queues (view (fst sw)) (rc_rsub rc) \<noteq> None)" "\<forall>seq. x = Some seq \<longrightarrow> wl_last (snd sw) < seq"
      "view (fst sw') = spec_enqueue (case x of None \<Rightarrow> [] | Some seq \<Rightarrow> [(seq, rc)]) (view (fst sw))"
      "\<forall>seq. x = Some seq \<longrightarrow> wl_last (snd sw') = seq" and draws: "wl_draws (snd sw') = wl_draws (snd sw)"
    have "stands (spec_enqueue (case x of None \<Rightarrow> [] | Some seq \<Rightarrow> [(seq, rc)]) sp) r d I U C sw'"
      using 1 x(3) draws standsD(2) [OF at] by (intro stands_step [OF at]) (simp_all add: spec_enqueue_def)
    then show "safe (k x) sw' Q" by (rule k) (use x standsD(2) [OF at] in auto)
  qed
qed

subsection \<open>Removals\<close>

lemma removal_found:
  assumes "spec_removal P sp l rs sp' l'"
  shows "removed P sp rs sp'"
proof -
  have "owed_by ` held (sp_msgs sp) (\<lambda>i m. P m \<and> (\<exists>rsub. m_rsub m = Some rsub \<and> sp_queues sp rsub \<noteq> None)) = {x. spec_owes sp P x}"
    (is "?lhs = ?rhs")
  proof (rule set_eqI)
    fix x
    have "x \<in> ?lhs \<longleftrightarrow> (\<exists>m i rsub. sp_msgs sp i = Some m \<and> P m \<and> m_rsub m = Some rsub \<and> sp_queues sp rsub \<noteq> None \<and> x = owed_by m)"
      unfolding held_def image_def by blast
    also have "\<dots> \<longleftrightarrow> (\<exists>m i rsub. sp_msgs sp i = Some m \<and> P m \<and> m_rsub m = Some rsub \<and> sp_queues sp rsub \<noteq> None \<and>
        x = \<lparr>rc_rsub = rsub, rc_msg_id = m_id m, rc_status = 410\<rparr>)"
      by (simp add: owed_by_def cong: conj_cong)
    finally show "x \<in> ?lhs \<longleftrightarrow> x \<in> ?rhs" unfolding spec_owes_def by blast
  qed
  moreover have "snd ` set rs = {x. spec_owes sp P x}" using assms unfolding spec_removal_def by blast
  ultimately show ?thesis using assms unfolding removed_def spec_removal_def by simp
qed

lemma removal_unknown:
  assumes "spec_removal P sp l rs sp' l'" and "\<And>x. sp_uas sp x = None \<Longrightarrow> sp_uas sp' x = None"
    and "\<And>x. sp_subs sp' x = None \<or> sp_subs sp' x = sp_subs sp x"
  shows "unknown_id sp i \<Longrightarrow> unknown_id sp' i" and "unknown_uaid sp u \<Longrightarrow> unknown_uaid sp' u"
proof -
  have msgs: "sp_msgs sp' i = None \<or> sp_msgs sp' i = sp_msgs sp i" for i
    using assms(1) by (auto simp: spec_removal_def spec_discard_def split: option.split)
  have routes: "sp_routes sp' = sp_routes sp" using assms(1) by (simp add: spec_removal_def)
  show "unknown_id sp i \<Longrightarrow> unknown_id sp' i"
    unfolding unknown_id_def push_unused_def routes using msgs assms(3) by (metis option.distinct(1))
  show "unknown_uaid sp u \<Longrightarrow> unknown_uaid sp' u"
    unfolding unknown_uaid_def routes using msgs assms(2,3) by (metis option.distinct(1))
qed

lemma safe_removal:
  assumes at: "stands sp r d I U C sw"
    and world: "gives f sw (\<lambda>_ sw'. world_le (snd sw) (snd sw') \<and> wl_draws (snd sw') = wl_draws (snd sw))"
    and law: "gives f sw (\<lambda>x sw'. inv sw' \<and> room_for view sw' \<and> P x (snd sw') (view (fst sw')))"
    and P: "\<And>x w' sp'. P x w' sp' \<Longrightarrow> (\<exists>gone rs l l'. spec_removal gone sp l rs sp' l') \<and>
       (\<forall>x. sp_uas sp x = None \<longrightarrow> sp_uas sp' x = None) \<and> (\<forall>x. sp_subs sp' x = None \<or> sp_subs sp' x = sp_subs sp x)"
    and k: "\<And>x sp' sw'. P x (snd sw') sp' \<Longrightarrow> stands sp' (card (dom (sp_msgs sp'))) d I U C sw' \<Longrightarrow> safe (k x) sw' Q"
  shows "safe (and_then (ok f what) k) sw Q"
  unfolding safe_and_then
proof (rule safe_ok, rule gives_mono [OF gives_both [OF law world]], elim conjE)
  fix x sw' assume 1: "inv sw'" "room_for view sw'" "P x (snd sw') (view (fst sw'))" "world_le (snd sw) (snd sw')"
    "wl_draws (snd sw') = wl_draws (snd sw)"
  obtain gone rs l l' where "spec_removal gone sp l rs (view (fst sw')) l'"
    "\<And>x. sp_uas sp x = None \<Longrightarrow> sp_uas (view (fst sw')) x = None"
    "\<And>x. sp_subs (view (fst sw')) x = None \<or> sp_subs (view (fst sw')) x = sp_subs sp x"
    using P [OF 1(3)] by blast
  note unknown = removal_unknown [OF this]
  have "stands (view (fst sw')) (card (dom (sp_msgs (view (fst sw'))))) d I U C sw'"
    using 1 by (intro stands_step [OF at]) (auto simp: unknown room_for_def case_prod_beta)
  then show "safe (k x) sw' Q" by (rule k [OF 1(3)])
qed

lemma stands_room: "stands sp r d I U C sw \<Longrightarrow> card (dom (sp_msgs sp)) \<le> r \<Longrightarrow> room_for view sw"
  by (cases sw) (auto simp: stands_def room_for_def intro: seq_room_mono)

lemma safe_delete_subscription [contract_rules]:
  assumes at: "stands sp r d I U C sw" and room: "card (dom (sp_msgs sp)) \<le> r"
    and k: "\<And>rs sp' sw'. stands sp' (card (dom (sp_msgs sp'))) d I U C sw' \<Longrightarrow>
      removed (\<lambda>m. sp_subs sp (u, c) \<noteq> None \<and> m_uaid m = u \<and> m_channel_id m = c) sp rs sp' \<Longrightarrow>
      sp_uas sp' = sp_uas sp \<Longrightarrow> sp_subs sp' = (sp_subs sp)((u, c) := None) \<Longrightarrow> safe (k rs) sw' Q"
  shows "safe (and_then (ok (so_delete_subscription S u c) what) k) sw Q"
proof -
  note pre = standsD(1) [OF at] stands_room [OF at room]
  show ?thesis
  proof (rule safe_removal [OF at removal_worlds(1) [OF pre] delete_subscription [OF pre, unfolded standsD(2) [OF at]]])
    fix x sp' and sw' :: "'s \<times> world"
    assume "spec_removal (\<lambda>m. sp_subs sp (u, c) \<noteq> None \<and> m_uaid m = u \<and> m_channel_id m = c) sp (wl_last (snd sw)) x sp'
        (wl_last (snd sw')) \<and> sp_uas sp' = sp_uas sp \<and> sp_subs sp' = (sp_subs sp)((u, c) := None)"
      and "stands sp' (card (dom (sp_msgs sp'))) d I U C sw'"
    then show "safe (k x) sw' Q" by (elim conjE) (rule k [OF _ removal_found])
  qed auto
qed

lemma safe_reap [contract_rules]:
  assumes at: "stands sp r d I U C sw" and room: "card (dom (sp_msgs sp)) \<le> r"
    and k: "\<And>rs sp' sw'. stands sp' (card (dom (sp_msgs sp'))) d I U C sw' \<Longrightarrow>
      removed (\<lambda>m. m_expiry m \<le> now) sp rs sp' \<Longrightarrow>
      sp_uas sp' = sp_uas sp \<Longrightarrow> sp_subs sp' = sp_subs sp \<Longrightarrow> safe (k rs) sw' Q"
  shows "safe (and_then (ok (so_reap S now) what) k) sw Q"
proof -
  note pre = standsD(1) [OF at] stands_room [OF at room]
  show ?thesis
    by (rule safe_removal [OF at removal_worlds(4) [OF pre] reap [OF pre]]) (use k [OF _ removal_found] standsD(2) [OF at] in auto)
qed

lemma safe_delete_user_agent [contract_rules]:
  assumes at: "stands sp r d I U C sw" and room: "card (dom (sp_msgs sp)) \<le> r"
    and k: "\<And>rs sp' sw' gone. stands sp' (card (dom (sp_msgs sp'))) d I U C sw' \<Longrightarrow>
      removed gone sp rs sp' \<Longrightarrow> (\<forall>m. gone m \<longrightarrow> m_uaid m = u) \<Longrightarrow>
      (\<forall>m. m_uaid m = u \<and> sp_subs sp (u, m_channel_id m) \<noteq> None \<longrightarrow> gone m) \<Longrightarrow>
      sp_uas sp' = (sp_uas sp)(u := None) \<Longrightarrow> sp_subs sp' = without u (sp_subs sp) \<Longrightarrow> safe (k rs) sw' Q"
  shows "safe (and_then (ok (so_delete_user_agent S u) what) k) sw Q"
proof -
  note pre = standsD(1) [OF at] stands_room [OF at room]
  show ?thesis
  proof (rule safe_removal [OF at removal_worlds(2) [OF pre] delete_user_agent [OF pre, unfolded standsD(2) [OF at]]], goal_cases)
    case (2 x sp' sw')
    then show ?case by (elim conjE exE) (rule k [OF _ removal_found], assumption+, simp only: without_def)
  qed auto
qed

text \<open>When the messages of the user agent are all on registered channels.\<close>

lemma safe_delete_user_agent_all:
  assumes at: "stands sp r d I U C sw" and room: "card (dom (sp_msgs sp)) \<le> r"
    and all: "\<forall>m\<in>held (sp_msgs sp) (\<lambda>i m. m_uaid m = u). sp_subs sp (u, m_channel_id m) \<noteq> None"
    and k: "\<And>rs sp' sw'. stands sp' (card (dom (sp_msgs sp'))) d I U C sw' \<Longrightarrow> removed (\<lambda>m. m_uaid m = u) sp rs sp' \<Longrightarrow>
      sp_uas sp' = (sp_uas sp)(u := None) \<Longrightarrow> sp_subs sp' = without u (sp_subs sp) \<Longrightarrow> safe (k rs) sw' Q"
  shows "safe (and_then (ok (so_delete_user_agent S u) what) k) sw Q"
proof (rule safe_delete_user_agent [OF at room])
  fix rs sp' gone and sw' :: "'s \<times> world"
  assume at': "stands sp' (card (dom (sp_msgs sp'))) d I U C sw'" and rem: "removed gone sp rs sp'"
    and gone: "\<forall>m. gone m \<longrightarrow> m_uaid m = u" "\<forall>m. m_uaid m = u \<and> sp_subs sp (u, m_channel_id m) \<noteq> None \<longrightarrow> gone m"
    and maps: "sp_uas sp' = (sp_uas sp)(u := None)" "sp_subs sp' = without u (sp_subs sp)"
  have same: "gone m \<longleftrightarrow> m_uaid m = u" if "sp_msgs sp i = Some m" for i m
  proof
    assume m: "m_uaid m = u"
    have "m \<in> held (sp_msgs sp) (\<lambda>i m. m_uaid m = u)" using that m unfolding held_def by blast
    then show "gone m" using all gone(2) m by blast
  qed (use gone(1) in blast)
  have msgs: "(case sp_msgs sp i of None \<Rightarrow> None | Some m \<Rightarrow> if gone m then None else Some m) =
      (case sp_msgs sp i of None \<Rightarrow> None | Some m \<Rightarrow> if m_uaid m = u then None else Some m)" for i
    by (cases "sp_msgs sp i") (simp_all add: same)
  have discard: "spec_discard gone sp = spec_discard (\<lambda>m. m_uaid m = u) sp"
    by (simp only: spec_discard_def msgs)
  have held: "held (sp_msgs sp) (\<lambda>i m. gone m \<and> R m) = held (sp_msgs sp) (\<lambda>i m. m_uaid m = u \<and> R m)" for R
    unfolding held_def using same by blast
  have "removed (\<lambda>m. m_uaid m = u) sp rs sp'" using rem by (simp only: removed_def discard held)
  then show "safe (k rs) sw' Q" by (rule k [OF at' _ maps])
qed

lemma safe_expire_user_agents [contract_rules]:
  assumes at: "stands sp r d I U C sw" and room: "card (dom (sp_msgs sp)) \<le> r"
    and k: "\<And>rs sp' sw'. stands sp' (card (dom (sp_msgs sp'))) d I U C sw' \<Longrightarrow>
      sp_uas sp' = (\<lambda>u. if stale sp t u then None else sp_uas sp u) \<Longrightarrow> safe (k (card {u. stale sp t u}, rs)) sw' Q"
  shows "safe (and_then (ok (so_expire_user_agents S t) what) k) sw Q"
proof -
  note pre = standsD(1) [OF at] stands_room [OF at room]
  show ?thesis
    by (rule safe_removal [OF at removal_worlds(3) [OF pre] expire_user_agents [OF pre, unfolded case_prod_beta']])
      (use k standsD(2) [OF at] in \<open>auto 0 4 simp: case_prod_beta'\<close>)
qed

end

end
