(* ===== verification/Contract_Props.thy ===== *)
theory Contract_Props
  imports Contract_Logic Store_Calls
begin

text \<open>
  Every store that keeps the laws meets its executable contract.
\<close>

section \<open>Facts the checks share\<close>

lemma test_message_fields [simp]:
  "m_id (test_message i u c p a t) = i" "m_uaid (test_message i u c p a t) = u" "m_channel_id (test_message i u c p a t) = c"
  "m_topic (test_message i u c p a t) = None" "m_rsub (test_message i u c p a t) = None"
  "m_accepted (test_message i u c p a t) = a" "m_expiry (test_message i u c p a t) = a + t"
  by (simp_all add: test_message_def)

lemma insert_plain: "m_topic m = None \<Longrightarrow> spec_insert_message m sp = sp\<lparr>sp_msgs := (sp_msgs sp)(m_id m \<mapsto> m)\<rparr>"
  by (auto simp: spec_insert_message_def replaces_def fun_eq_iff split: option.split)

text \<open>Times around a reading of the clock.\<close>

lemma timely_minus: "timely now \<Longrightarrow> unat (k :: u64) \<le> 5000 \<Longrightarrow> unat (now - k) = unat now - unat k"
  by (simp add: timely_def unat_sub_if')

lemma timely_plus: "timely now \<Longrightarrow> unat (k :: u64) \<le> 60000 \<Longrightarrow> unat (now + k) = unat now + unat k"
  unfolding timely_def by (subst unat_plus_if') auto

lemma timely_later:
  assumes "timely now" and "unat (k :: u64) \<le> 60000" and "0 < unat k"
  shows "now < k + now" "now < now + k" "\<not> k + now \<le> now" "\<not> now + k \<le> now"
  using assms(3) timely_plus [OF assms(1,2)] by (auto simp: word_less_nat_alt word_le_nat_alt add.commute [of k])

lemma timely_earlier:
  assumes "timely now" and "unat (k :: u64) \<le> 5000"
  shows "now - k \<le> now" "\<not> now < now - k" and "unat (j :: u64) < unat k \<Longrightarrow> now - k < now - j"
  using assms(1) timely_minus [OF assms] timely_minus [OF assms(1), of j] assms(2)
  by (auto simp: word_less_nat_alt word_le_nat_alt timely_def)

lemmas timely_facts = timely_later timely_earlier

text \<open>What a map of messages holds, after the changes the checks make.\<close>

lemma held_none [simp]: "(\<forall>i m. f i = Some m \<longrightarrow> \<not> P i m) \<Longrightarrow> held f P = {}"
  by (auto simp: held_def)

lemma held_upd [simp]:
  assumes "f i = None"
  shows "held (f(i \<mapsto> x)) P = (if P i x then insert x (held f P) else held f P)"
proof -
  have "(f(i \<mapsto> x)) j = Some m \<longleftrightarrow> j = i \<and> m = x \<or> f j = Some m" for j m using assms by auto
  then have "held (f(i \<mapsto> x)) P = {m. \<exists>j. (j = i \<and> m = x \<or> f j = Some m) \<and> P j m}" by (simp only: held_def)
  then show ?thesis by (auto simp: held_def)
qed

lemma held_insert [simp]:
  assumes "f i = None"
  shows "held (\<lambda>j. if j = i then Some x else case f j of None \<Rightarrow> None | Some m' \<Rightarrow> if Q m' then None else Some m') P =
     (if P i x then insert x (held f P - {m. Q m}) else held f P - {m. Q m})" (is "held ?g P = _")
proof -
  have "?g j = Some m \<longleftrightarrow> j = i \<and> m = x \<or> f j = Some m \<and> \<not> Q m" for j m using assms by (cases "f j") auto
  then have "held ?g P = {m. \<exists>j. (j = i \<and> m = x \<or> f j = Some m \<and> \<not> Q m) \<and> P j m}" by (simp only: held_def)
  then show ?thesis by (auto simp: held_def)
qed

lemma held_discard [simp]: "held (sp_msgs (spec_discard Q sp)) P = held (sp_msgs sp) P - {m. Q m}"
  by (auto simp: held_def spec_discard_def split: if_splits option.splits)

text \<open>What is pending, and what a removal owes, when the messages concerned are known.\<close>

lemma pending_eq:
  assumes "spec_pending sp u now limit ms" and "held (sp_msgs sp) (\<lambda>i m. i = m_id m \<and> m_uaid m = u \<and> now < m_expiry m) = set xs"
    and "sorted_wrt older xs" and "length xs \<le> limit"
  shows "ms = xs"
proof -
  have "set xs = {m. deliverable sp u now m}" using assms(2) by (auto simp: held_def deliverable_def)
  then have "spec_pending sp u now limit (take limit xs)" unfolding spec_pending_def using assms(3) by blast
  then show ?thesis using spec_pending_unique [OF assms(1)] assms(4) by simp
qed

lemma pending_first:
  fixes sp :: spec and u :: string and now :: u64
  defines "due \<equiv> held (sp_msgs sp) (\<lambda>i m. i = m_id m \<and> m_uaid m = u \<and> now < m_expiry m)"
  assumes "spec_pending sp u now (Suc 0) ms" and "x \<in> due" and "\<forall>m\<in>due. m = x \<or> older x m"
  shows "ms = [x]"
proof -
  have due: "due = {m. deliverable sp u now m}" by (auto simp: due_def held_def deliverable_def)
  obtain backlog where b: "set backlog = due" "sorted_wrt older backlog" "ms = take 1 backlog"
    using assms(2) unfolding spec_pending_def due by auto
  then obtain y ys where y: "backlog = y # ys" using assms(3) by (cases backlog) auto
  have "\<not> older x y" if "older y x" using that by (auto simp: older_def)
  moreover have "x = y \<or> older y x" using b(1,2) assms(3) unfolding y by auto
  moreover have "y = x \<or> older x y" using b(1) assms(4) unfolding y by auto
  ultimately have "y = x" by blast
  then show ?thesis using b(3) y by simp
qed

lemma owed_one:
  assumes "snd ` set rs = {r}" and "distinct (map (\<lambda>x. rc_msg_id (snd x)) rs)" and "\<And>seq. rs = [(seq, r)] \<Longrightarrow> thesis"
  shows thesis
proof -
  have all: "\<forall>x\<in>set rs. snd x = r" and "rs \<noteq> []" using assms(1) by auto
  then obtain x xs where rs: "rs = x # xs" by (cases rs) auto
  have "xs = []" using all assms(2) by (cases xs) (auto simp: rs)
  then show thesis using all assms(3) [of "fst x"] by (cases x) (simp add: rs)
qed

text \<open>What a lookup by push id found.\<close>

lemma by_push_known:
  "spec_by_push p sp x \<Longrightarrow> sp_subs sp (sub_uaid sub, sub_channel_id sub) = Some sub \<Longrightarrow> sub_push sub = p \<Longrightarrow> x = Some sub"
  by (simp add: spec_by_push_def)

lemma removedE:
  assumes "removed P sp rs sp'"
    and "sp_msgs sp' = sp_msgs (spec_discard P sp) \<Longrightarrow> sp_queues sp' = sp_queues (spec_enqueue rs sp) \<Longrightarrow>
      snd ` set rs = owed_by ` held (sp_msgs sp) (\<lambda>i m. P m \<and> (\<exists>rsub. m_rsub m = Some rsub \<and> sp_queues sp rsub \<noteq> None)) \<Longrightarrow>
      distinct (map (\<lambda>x. rc_msg_id (snd x)) rs) \<Longrightarrow> thesis"
  shows thesis
  using assms by (simp add: removed_def)

lemma owed_for:
  assumes "removed P sp rs sp'" and "sp_queues sp rsub \<noteq> None" and "held (sp_msgs sp) (\<lambda>i m. P m \<and> m_rsub m = Some rsub) = {m}"
    and "\<And>seq. filter (\<lambda>(_, x). rc_rsub x = rsub) rs = [(seq, owed_by m)] \<Longrightarrow> thesis"
  shows thesis
proof (rule owed_one)
  let ?ours = "filter (\<lambda>(_, x). rc_rsub x = rsub) rs"
  have m: "m_rsub m = Some rsub" using assms(3) by (force simp: held_def)
  have all: "snd ` set rs = owed_by ` held (sp_msgs sp) (\<lambda>i m. P m \<and> (\<exists>rsub. m_rsub m = Some rsub \<and> sp_queues sp rsub \<noteq> None))"
    using assms(1) by (simp add: removed_def)
  have "snd ` set ?ours = {x \<in> snd ` set rs. rc_rsub x = rsub}" by force
  also have "\<dots> = owed_by ` held (sp_msgs sp) (\<lambda>i m. P m \<and> m_rsub m = Some rsub)"
    unfolding all using assms(2) by (auto simp: owed_by_def held_def image_def)
  finally show "snd ` set ?ours = {owed_by m}" by (simp add: assms(3))
  show "distinct (map (\<lambda>x. rc_msg_id (snd x)) ?ours)" using assms(1) by (auto simp: removed_def distinct_map_filter)
  show "?ours = [(seq, owed_by m)] \<Longrightarrow> thesis" for seq by (rule assms(4))
qed

text \<open>The size of the messages after an insertion.\<close>

lemma finite_insert_message [simp]:
  "finite (dom f) \<Longrightarrow> finite (dom (\<lambda>j. if j = i then Some x else case f j of None \<Rightarrow> None | Some m' \<Rightarrow> if Q m' then None else Some m'))"
  by (rule finite_subset [of _ "insert i (dom f)"]) (auto split: if_splits option.splits)

lemma card_insert_message:
  assumes "finite (dom f)" and "0 < r" and "card (dom f) \<le> r - 1"
  shows "card (dom (\<lambda>j. if j = i then Some x else case f j of None \<Rightarrow> None | Some m' \<Rightarrow> if Q m' then None else Some m')) \<le> r"
proof -
  let ?g = "\<lambda>j. if j = i then Some x else case f j of None \<Rightarrow> None | Some m' \<Rightarrow> if Q m' then None else Some m'"
  have "dom ?g \<subseteq> insert i (dom f)" by (auto split: if_splits option.splits)
  then have "card (dom ?g) \<le> card (insert i (dom f))" using assms(1) by (intro card_mono) auto
  then show ?thesis using assms card_insert_le_m1 [of "Suc (card (dom f))" "dom f" i] by simp
qed

text \<open>A user agent seen too long ago is counted.\<close>

lemma stale_counted: "finite (dom (sp_uas sp)) \<Longrightarrow> stale sp t u \<Longrightarrow> 1 \<le> card {u. stale sp t u}"
  using card_gt_0_iff [of "{u. stale sp t u}"] finite_subset [of "{u. stale sp t u}" "dom (sp_uas sp)"]
  by (auto simp: stale_def dom_def)

text \<open>Push ids no subscription has, in terms of the map of subscriptions.\<close>

definition no_push :: "string \<Rightarrow> (string \<times> string \<rightharpoonup> subscription) \<Rightarrow> bool" where
  "no_push p f \<longleftrightarrow> p \<notin> sub_push ` ran f"

lemma push_unused_map: "push_unused p sp \<longleftrightarrow> no_push p (sp_subs sp)"
  by (auto simp: push_unused_def no_push_def ran_def)

lemma no_push_upd [simp]: "f k = None \<Longrightarrow> no_push p (f(k \<mapsto> sub)) \<longleftrightarrow> sub_push sub \<noteq> p \<and> no_push p f"
  by (auto simp: no_push_def)

lemma no_push_fewer [simp]: "no_push p f \<Longrightarrow> no_push p (f(k := None))" "no_push p f \<Longrightarrow> no_push p (without u f)"
  by (auto simp: no_push_def without_def ran_def image_iff split: if_splits)

lemma by_push_unknown: "spec_by_push p sp x \<Longrightarrow> push_unused p sp \<Longrightarrow> x = None"
  by (cases x) (auto simp: spec_by_push_def push_unused_def)

text \<open>Listing the channels of a user agent, in any order.\<close>

lemma sort_distinct: "distinct xs \<Longrightarrow> distinct ys \<Longrightarrow> set xs = set ys \<Longrightarrow> sort xs = sort ys"
  by (rule properties_for_sort) (simp_all add: set_eq_iff_mset_eq_distinct)

lemma channels_sorted:
  assumes "distinct subs" and "set subs = {sub. f (sub_channel_id sub) = Some sub}"
    and "{c. \<exists>sub. f c = Some sub \<and> sub_channel_id sub = c} = set chs" and "distinct chs"
  shows "sort (map sub_channel_id subs) = sort chs"
proof (rule sort_distinct [OF _ assms(4)])
  have f: "f (sub_channel_id sub) = Some sub" if "sub \<in> set subs" for sub using that assms(2) by blast
  have "inj_on sub_channel_id (set subs)"
  proof (rule inj_onI)
    fix x y assume "x \<in> set subs" "y \<in> set subs" and same: "sub_channel_id x = sub_channel_id y"
    then have "Some x = Some y" using f [of x] f [of y] by (simp only: same)
    then show "x = y" by simp
  qed
  then show "distinct (map sub_channel_id subs)" using assms(1) by (simp add: distinct_map)
  have "set (map sub_channel_id subs) = {c. \<exists>sub. f c = Some sub \<and> sub_channel_id sub = c}"
    unfolding set_map assms(2) by (auto simp only: image_def)
  then show "set (map sub_channel_id subs) = set chs" using assms(3) by simp
qed

section \<open>The checks hold\<close>

text \<open>A check draws at most eleven identifiers.\<close>

abbreviation checked :: "nat \<Rightarrow> nat" where
  "checked d \<equiv> Suc (Suc (Suc (Suc (Suc (Suc (Suc (Suc (Suc (Suc (Suc d))))))))))"

declare insert_all.simps [simp del]

context contract_store
begin

lemma safe_user_agent_seen [contract_rules]:
  assumes at: "stands sp r (Suc d) I U C sw"
    and k: "\<And>u sw'. stands (spec_create_user_agent (session_agent u seen) sp) r d I (insert u U) C sw' \<Longrightarrow>
      apart u U \<Longrightarrow> unknown_uaid sp u \<Longrightarrow> is_uaid u \<Longrightarrow> safe (k u) sw' Q"
  shows "safe (and_then (user_agent_seen S seen) k) sw Q"
proof -
  have "safe (and_then (draw new_uaid) (\<lambda>u. and_then (ok (so_create_user_agent S (session_agent u seen)) ''create_user_agent'')
      (\<lambda>_. k u))) sw Q"
    by (rule safe_new_uaid [OF at], rule safe_create_user_agent, assumption) (simp_all add: session_agent_def k)
  then show ?thesis by (simp add: user_agent_seen_def safe_and_then)
qed

lemma safe_test_user_agent [contract_rules]:
  assumes at: "stands sp r (Suc d) I U C sw"
    and k: "\<And>u seen sw'. stands (spec_create_user_agent (session_agent u seen) sp) r d I (insert u U) C sw' \<Longrightarrow>
      apart u U \<Longrightarrow> unknown_uaid sp u \<Longrightarrow> is_uaid u \<Longrightarrow> safe (k u) sw' Q"
  shows "safe (and_then (test_user_agent S) k) sw Q"
proof -
  have "safe (and_then (draw now_ms) (\<lambda>now. and_then (user_agent_seen S now) k)) sw Q"
    by (rule safe_now [OF at], rule safe_user_agent_seen, assumption) (rule k)
  then show ?thesis by (simp add: test_user_agent_def safe_and_then)
qed

lemma routes_hold: "stands sp r (checked d) I U C sw \<Longrightarrow> safe (check_routes b64 S) sw (\<lambda>_ _. True)"
  unfolding check_routes_def Let_def
  by (rule contract_rules, assumption | simp add: unknown_uaid_def spec_clear_route_def split: if_splits)+

lemma user_agents_hold: "stands sp r (checked d) I U C sw \<Longrightarrow> safe (check_user_agents S) sw (\<lambda>_ _. True)"
  unfolding check_user_agents_def Let_def
  by (rule contract_rules, assumption | simp add: unknown_uaid_def spec_create_user_agent_def spec_touch_user_agent_def session_agent_def max_def)+

lemma bridged_hold: "stands sp r (checked d) I U C sw \<Longrightarrow> safe (check_bridged_user_agents S) sw (\<lambda>_ _. True)"
  unfolding check_bridged_user_agents_def Let_def
  by (rule contract_rules, assumption | simp add: unknown_uaid_def spec_create_user_agent_def spec_update_bridge_token_def session_agent_def)+

lemma contains_longer: "length s < length p \<Longrightarrow> \<not> contains_str s p"
  by (auto simp: contains_str_def list_ex_iff dest: arg_cong [where f = length])

lemma subscriptions_hold: "stands sp r (checked d) I U C sw \<Longrightarrow> safe (check_subscriptions b64 S) sw (\<lambda>_ _. True)"
  unfolding check_subscriptions_def Let_def
  by (rule contract_rules, assumption | simp add: unknown_uaid_def unknown_id_def is_uaid_def contains_longer spec_create_user_agent_def session_agent_def spec_create_subscription_def
    | rule conjI | erule by_push_known | erule by_push_unknown)+

lemma delete_ownership_hold: "stands sp r (checked d) I U C sw \<Longrightarrow> safe (check_delete_message_ownership b64 S) sw (\<lambda>_ _. True)"
  unfolding check_delete_message_ownership_def Let_def
  by (rule contract_rules, assumption | simp add: unknown_uaid_def unknown_id_def carries_def insert_plain spec_create_user_agent_def session_agent_def spec_create_subscription_def spec_delete_message_def permits_def
    | rule conjI | rule impI | blast)+

lemmas check_simps = unknown_uaid_def unknown_id_def carries_def insert_plain spec_create_user_agent_def session_agent_def
  spec_create_subscription_def spec_delete_message_def permits_def timely_facts push_unused_map

lemma pending_hold: "stands sp r (checked d) I U C sw \<Longrightarrow> safe (check_pending b64 S) sw (\<lambda>_ _. True)"
  unfolding check_pending_def Let_def
  apply (rule contract_rules, assumption | simp add: check_simps | rule conjI)+
  apply (erule pending_eq)
  apply (simp add: timely_facts insert_commute)
  apply (simp add: older_def timely_facts)
  apply (simp add: usize_max_def)
  apply (rule contract_rules, assumption | simp | rule conjI)+
  apply (erule pending_first)
  apply (simp add: timely_facts)
  apply (simp add: older_def timely_facts)
  apply (rule contract_rules, assumption | simp)+
  done

lemma topic_hold:
  assumes "stands sp r (checked d) I U C sw" and "card (dom (sp_msgs sp)) + 3 \<le> r"
  shows "safe (check_topic_replacement b64 S) sw (\<lambda>_ _. True)"
  using assms stands_finite [OF assms(1)]
  unfolding check_topic_replacement_def Let_def
  apply -
  apply (rule contract_rules, assumption | simp add: check_simps spec_insert_message_def replaces_def | rule conjI)+
  apply (erule pending_eq)
  apply (simp add: timely_facts insert_Diff_if insert_commute replaces_def)
  apply (simp add: older_def timely_facts)
  apply (simp add: usize_max_def)
  apply (rule contract_rules, assumption | simp add: check_simps replaces_def | rule card_insert_message conjI)+
  apply (erule removedE)
  apply (simp add: insert_Diff_if replaces_def)
  done

lemma receipt_queue_hold: "stands sp (Suc (Suc (Suc r))) (checked d) I U C sw \<Longrightarrow> safe (check_receipt_queue S) sw (\<lambda>_ _. True)"
  unfolding check_receipt_queue_def Let_def
  by (rule contract_rules, assumption | simp add: check_simps spec_enqueue_def | rule conjI | erule exE)+

lemma safe_channels:
  assumes at: "stands sp r d I U C sw" and "{c. \<exists>sub. sp_subs sp (u, c) = Some sub \<and> sub_channel_id sub = c} = set chs"
    and "distinct chs" and k: "\<And>sw'. stands sp r d I U C sw' \<Longrightarrow> safe k sw' Q"
  shows "safe (and_then (ok (so_subscriptions S u) what) (\<lambda>subs.
     and_then (assert (sort (map sub_channel_id subs) = sort chs) msg) (\<lambda>_. k))) sw Q"
proof (rule safe_subscriptions [OF at])
  fix subs sw' assume at': "stands sp r d I U C sw'" and subs: "distinct subs" "set subs = {sub. sp_subs sp (u, sub_channel_id sub) = Some sub}"
  have "sort (map sub_channel_id subs) = sort chs"
    by (rule channels_sorted [OF subs(1), where f = "\<lambda>c. sp_subs sp (u, c)"]) (use subs assms(2,3) in simp_all)
  then show "safe (and_then (assert (sort (map sub_channel_id subs) = sort chs) msg) (\<lambda>_. k)) sw' Q"
    using k [OF at'] by simp
qed

lemma delete_subscription_hold:
  assumes "stands sp r (checked d) I U C sw" and "card (dom (sp_msgs sp)) + 3 \<le> r"
  shows "safe (check_delete_subscription b64 S) sw (\<lambda>_ _. True)"
  using assms stands_finite [OF assms(1)]
  unfolding check_delete_subscription_def Let_def
  apply -
  apply (rule contract_rules, assumption | simp add: check_simps card_insert_if domIff owed_by_def
    | erule removedE | erule owed_one, assumption | rule conjI | erule by_push_unknown)+
  apply (erule pending_eq)
  apply (simp add: timely_facts insert_Diff_if)
  apply (simp add: older_def timely_facts)
  apply (simp add: usize_max_def)
  apply (rule contract_rules, assumption | simp add: check_simps card_insert_if domIff owed_by_def
    | erule removedE | erule owed_one, assumption | rule conjI | erule by_push_unknown)+
  done

definition checks_ready :: "'s \<times> world \<Rightarrow> bool" where
  "checks_ready sw \<longleftrightarrow> (\<exists>sp r d I U C. stands sp r (Suc (Suc d)) I U C sw \<and> card (dom (sp_msgs sp)) \<le> r)"

lemma checks_readyI: "stands sp r (Suc (Suc d)) I U C sw \<Longrightarrow> card (dom (sp_msgs sp)) \<le> r \<Longrightarrow> checks_ready sw"
  unfolding checks_ready_def by blast

lemma delete_user_agent_hold:
  assumes "stands sp r (checked d) I U C sw" and "card (dom (sp_msgs sp)) + 3 \<le> r"
  shows "safe (check_delete_user_agent b64 S) sw (\<lambda>_. checks_ready)"
  using assms stands_finite [OF assms(1)]
  unfolding check_delete_user_agent_def Let_def
  apply -
  apply (rule safe_channels, assumption | rule contract_rules, assumption | simp add: check_simps card_insert_if domIff | rule conjI)+
  apply auto[1]
  apply (simp add: eq_commute)
  apply (rule safe_delete_user_agent_all, assumption | rule contract_rules, assumption
    | simp add: check_simps card_insert_if domIff owed_by_def spec_discard_def | rule checks_readyI, assumption | erule removedE | erule owed_one, assumption | rule conjI | erule by_push_unknown)+
  done

lemma expire_hold:
  assumes "stands sp r (Suc (Suc d)) I U C sw" and "card (dom (sp_msgs sp)) \<le> r"
  shows "safe (check_expire_user_agents S) sw (\<lambda>_ _. True)"
  using assms stands_finite [OF assms(1)]
  unfolding check_expire_user_agents_def Let_def
  apply -
  apply (rule contract_rules, assumption | simp add: check_simps stale_counted | rule conjI)+
  subgoal for u by (rule stale_counted [where u = u, simplified]) (simp_all add: stale_def)
  apply (rule contract_rules, assumption | simp add: check_simps stale_def | rule conjI)+
  done

lemma reap_hold:
  assumes "stands sp r (checked d) I U C sw" and "card (dom (sp_msgs sp)) + 3 \<le> r"
  shows "safe (check_reap b64 S) sw (\<lambda>_ _. True)"
  using assms stands_finite [OF assms(1)]
  unfolding check_reap_def Let_def
  apply -
  apply (rule contract_rules, assumption | simp add: check_simps card_insert_if domIff)+
  subgoal for now sw1 u seen sw2 c sw3 p sw4 rsub
    apply (rule owed_for [where rsub = rsub], assumption)
    apply simp
    apply (simp add: timely_facts check_simps)
    apply (erule removedE)
    apply (rule contract_rules, assumption | simp add: check_simps owed_by_def spec_discard_def spec_enqueue_def split_def | rule conjI)+
    done
  done

text \<open>All of them, from a state in which enough numbers and identifiers are left.\<close>

lemma delete_and_expire_hold:
  assumes "stands sp r (checked d) I U C sw" and "card (dom (sp_msgs sp)) + 3 \<le> r"
  shows "safe (check_delete_and_expire_user_agents b64 S) sw (\<lambda>_ _. True)"
proof -
  have "safe (check_delete_user_agent b64 S) sw (\<lambda>_. checks_ready)" by (rule delete_user_agent_hold [OF assms])
  then have "safe (check_delete_user_agent b64 S) sw (\<lambda>_ sw'. safe (check_expire_user_agents S) sw' (\<lambda>_ _. True))"
    by (rule safe_mono) (auto simp: checks_ready_def intro: expire_hold)
  then show ?thesis by (simp add: check_delete_and_expire_user_agents_def safe_and_then)
qed

lemma contract_holds:
  assumes at: "stands sp (card (dom (sp_msgs sp)) + 3) (checked d) I U C sw" and "check \<in> set (contract_checks b64 S)"
  shows "safe check sw (\<lambda>_ _. True)"
proof -
  have "stands sp (Suc (Suc (Suc (card (dom (sp_msgs sp)))))) (checked d) I U C sw" using at by (simp add: numeral_3_eq_3)
  note holds = user_agents_hold [OF at] bridged_hold [OF at] delete_and_expire_hold [OF at le_refl] subscriptions_hold [OF at]
    pending_hold [OF at] topic_hold [OF at le_refl] delete_ownership_hold [OF at] receipt_queue_hold [OF this]
    delete_subscription_hold [OF at le_refl] reap_hold [OF at le_refl] routes_hold [OF at]
  show ?thesis using assms(2) holds unfolding contract_checks_def set_simps by blast
qed

end

section \<open>Where a check can start\<close>

definition checkable :: "base64 \<Rightarrow> spec \<Rightarrow> world \<Rightarrow> bool" where
  "checkable b64 sp w \<longleftrightarrow> ids_ok b64 11 w \<and> ids_new b64 11 sp {} {} {} w \<and> seq_room (card (dom (sp_msgs sp)) + 3) w"

context contract_store
begin

lemma checkable_holds:
  assumes "inv sw" and "checkable b64 (view (fst sw)) (snd sw)" and "check \<in> set (contract_checks b64 S)"
  shows "safe check sw (\<lambda>_ _. True)"
proof (rule contract_holds [OF _ assms(3), of "view (fst sw)" 0])
  show "stands (view (fst sw)) (card (dom (sp_msgs (view (fst sw)))) + 3) (checked 0) {} {} {} sw"
    using assms(1,2) unfolding stands_def checkable_def by (simp add: eval_nat_numeral)
qed

end

section \<open>Checks over a store that has no errors\<close>

definition never_failed :: "('s, 'a) check_op \<Rightarrow> bool" where
  "never_failed f \<longleftrightarrow> (\<forall>sw what e. fst (f sw) \<noteq> Inl (Failed what e))"

named_theorems never_failed_rules \<open>what keeps a check from failing\<close>

lemma never_failed_and_then [never_failed_rules]:
  "never_failed f \<Longrightarrow> (\<And>x. never_failed (k x)) \<Longrightarrow> never_failed (and_then f k)"
  unfolding never_failed_def and_then_def by (auto split: prod.splits sum.splits) (metis fst_conv)+

lemma never_failed_steps [never_failed_rules]:
  "never_failed (ret x)" "never_failed (assert b msg)" "never_failed (expect y msg)" "never_failed (draw f)"
  by (simp_all add: never_failed_def assert_def expect_def or_fail_def draw_def case_prod_beta split: option.split)

lemma never_failed_ok:
  assumes "\<And>sw. \<exists>x sw'. f sw = (Inr x, sw')"
  shows "never_failed (ok f what)"
  unfolding never_failed_def
proof (intro allI)
  fix sw what' e
  obtain x sw' where "f sw = (Inr x, sw')" using assms by blast
  then show "fst (ok f what sw) \<noteq> Inl (Failed what' e)" by (simp add: ok_def)
qed

lemma safe_passes:
  assumes "safe check sw (\<lambda>_ _. True)" and "never_failed check"
  shows "\<exists>sw'. check sw = (Inr (), sw')"
proof -
  obtain r sw' where check: "check sw = (r, sw')" by (cases "check sw")
  show ?thesis
  proof (cases r)
    case (Inl p)
    show ?thesis
    proof (cases p)
      case (Failed what e)
      then have "fst (check sw) = Inl (Failed what e)" by (simp add: check Inl)
      then show ?thesis using assms(2) unfolding never_failed_def by blast
    next
      case (Violated msg)
      then show ?thesis using assms(1) by (simp add: safe_def check Inl)
    qed
  qed (simp add: check)
qed

end
