(* ===== verification/Contract_Memory.thy ===== *)
theory Contract_Memory
  imports Contract_Props Memory_Contract
begin

text \<open>
  The in-memory adapter passes every check of the contract: it discharges what \<open>contract_store\<close>
  asks beyond the laws, and it has no errors that could end a check early.
\<close>

section \<open>Removals only read the clock\<close>

definition ticks :: "world \<Rightarrow> world \<Rightarrow> bool" where
  "ticks w w' \<longleftrightarrow> wl_clock w' = wl_clock w \<and> wl_entropy w' = wl_entropy w \<and> wl_reads w \<le> wl_reads w' \<and> wl_draws w' = wl_draws w"

lemma ticks_refl [simp]: "ticks w w"
  by (simp add: ticks_def)

lemma ticks_trans: "ticks w w' \<Longrightarrow> ticks w' w'' \<Longrightarrow> ticks w w''"
  by (auto simp: ticks_def)

lemma ticks_next_seq: "next_seq w = (seq, w') \<Longrightarrow> ticks w w'"
  by (auto simp: next_seq_def now_ms_def Let_def ticks_def split: prod.splits)

lemma owe_410_ticks: "owe_410 m (s, w) = (r, s', w') \<Longrightarrow> ticks w w'"
  by (auto simp: owe_410_def Let_def split: option.splits prod.splits dest: ticks_next_seq)

lemma remove_owing_ticks: "remove_owing is (s, w) = (rs, sw') \<Longrightarrow> ticks w (snd sw')"
proof (induction "is" arbitrary: s w rs)
  case (Cons i "is")
  obtain m s1 where rm: "remove_message i s = (m, s1)" by (cases "remove_message i s")
  show ?case
  proof (cases m)
    case None
    then show ?thesis using Cons rm by simp
  next
    case (Some m)
    obtain r s2 w2 where owe: "owe_410 m (s1, w) = (r, s2, w2)" by (cases "owe_410 m (s1, w)") auto
    obtain rs' where rest: "remove_owing is (s2, w2) = (rs', sw')"
      using Cons.prems rm Some owe by (auto simp: Let_def split: prod.splits)
    show ?thesis by (rule ticks_trans [OF owe_410_ticks [OF owe] Cons.IH [OF rest]])
  qed
qed auto

lemma remove_subscription_ticks: "remove_subscription ord u c (s, w) = (rs, sw') \<Longrightarrow> ticks w (snd sw')"
  by (auto simp: remove_subscription_def Let_def intro: remove_owing_ticks split: option.splits)

lemma remove_subscriptions_ticks: "remove_subscriptions ord u cs (s, w) = (rs, sw') \<Longrightarrow> ticks w (snd sw')"
proof (induction cs arbitrary: s w rs)
  case (Cons c cs)
  obtain r s1 w1 where one: "remove_subscription ord u c (s, w) = (r, s1, w1)" by (cases "remove_subscription ord u c (s, w)") auto
  obtain rs' where rest: "remove_subscriptions ord u cs (s1, w1) = (rs', sw')"
    using Cons.prems one by (auto simp: Let_def split: prod.splits)
  show ?case using ticks_trans [OF remove_subscription_ticks [OF one]] Cons.IH [OF rest] by simp
qed auto

lemma remove_user_agent_ticks: "remove_user_agent ord u (s, w) = (rs, sw') \<Longrightarrow> ticks w (snd sw')"
  by (auto simp: remove_user_agent_def Let_def intro: remove_subscriptions_ticks)

lemma remove_user_agents_ticks: "remove_user_agents ord us (s, w) = (rs, sw') \<Longrightarrow> ticks w (snd sw')"
proof (induction us arbitrary: s w rs)
  case (Cons u us)
  obtain r s1 w1 where one: "remove_user_agent ord u (s, w) = (r, s1, w1)" by (cases "remove_user_agent ord u (s, w)") auto
  obtain rs' where rest: "remove_user_agents ord us (s1, w1) = (rs', sw')"
    using Cons.prems one by (auto simp: Let_def split: prod.splits)
  show ?case using ticks_trans [OF remove_user_agent_ticks [OF one]] Cons.IH [OF rest] by simp
qed auto

lemma removal_ticks:
  "gives (so_delete_subscription (memory_store b64 ord) u c) sw (\<lambda>_ sw'. ticks (snd sw) (snd sw'))"
  "gives (so_delete_user_agent (memory_store b64 ord) u) sw (\<lambda>_ sw'. ticks (snd sw) (snd sw'))"
  "gives (so_expire_user_agents (memory_store b64 ord) t) sw (\<lambda>_ sw'. ticks (snd sw) (snd sw'))"
  "gives (so_reap (memory_store b64 ord) t) sw (\<lambda>_ sw'. ticks (snd sw) (snd sw'))"
  by (cases sw; auto simp: memory_store_def gives_def ok_step_def mem_expire_user_agents_def mem_reap_def Let_def
      dest: remove_subscription_ticks remove_user_agent_ticks remove_user_agents_ticks remove_owing_ticks split: prod.splits)+

lemma removal_last: "spec_removal P sp l rs sp' l' \<Longrightarrow> l \<le> l'"
  unfolding spec_removal_def by (cases rs rule: rev_cases) (auto simp: sorted_wrt_append less_imp_le)

lemma ticks_world: "ticks w w' \<Longrightarrow> wl_last w \<le> wl_last w' \<Longrightarrow> world_le w w' \<and> wl_draws w' = wl_draws w"
  by (simp add: ticks_def world_le_def)

lemma removal_world:
  assumes "gives f sw (\<lambda>_ sw'. ticks (snd sw) (snd sw'))"
    and "gives f sw (\<lambda>x sw'. \<exists>P sp rs sp'. spec_removal P sp (wl_last (snd sw)) rs sp' (wl_last (snd sw')))"
  shows "gives f sw (\<lambda>_ sw'. world_le (snd sw) (snd sw') \<and> wl_draws (snd sw') = wl_draws (snd sw))"
proof (rule gives_mono [OF gives_both [OF assms]], elim conjE exE)
  fix x sw' P sp rs sp'
  assume "ticks (snd sw) (snd sw')" and rem: "spec_removal P sp (wl_last (snd sw)) rs sp' (wl_last (snd sw'))"
  then show "world_le (snd sw) (snd sw') \<and> wl_draws (snd sw') = wl_draws (snd sw)"
    by (rule_tac ticks_world [OF _ removal_last])
qed

section \<open>The interpretation\<close>

lemma mem_finite: "finite (dom (sp_msgs (mem_view s)))" "finite (dom (sp_uas (mem_view s)))"
  unfolding mem_view_def hget_def [abs_def] by (simp_all add: finite_dom_map_of)

lemmas mem_steps = unnumbered_def memory_store_def gives_def ok_read_def ok_write_def ok_step_def case_prod_beta Let_def

lemma mem_unnumbered_owners:
  "unnumbered (so_create_user_agent (memory_store b64 ord) ua) sw" "unnumbered (so_user_agent (memory_store b64 ord) u) sw"
  "unnumbered (so_touch_user_agent (memory_store b64 ord) u t) sw" "unnumbered (so_update_bridge_token (memory_store b64 ord) u tok) sw"
  "unnumbered (so_subscriptions (memory_store b64 ord) u) sw" "unnumbered (so_channel (memory_store b64 ord) u c) sw"
  "unnumbered (so_subscription_by_push (memory_store b64 ord) p) sw"
  by (simp_all add: mem_steps)

lemma mem_unnumbered_messages:
  "unnumbered (so_insert_message (memory_store b64 ord) m) sw" "unnumbered (so_pending (memory_store b64 ord) u t limit) sw"
  "unnumbered (so_message (memory_store b64 ord) i) sw" "unnumbered (so_delete_message (memory_store b64 ord) i owner) sw"
  by (simp_all add: mem_steps)

lemma mem_unnumbered_others:
  "unnumbered (so_set_route (memory_store b64 ord) to node) sw" "unnumbered (so_route (memory_store b64 ord) to) sw"
  "unnumbered (so_clear_route (memory_store b64 ord) to node) sw"
  "unnumbered (so_receipt_sub_exists (memory_store b64 ord) r) sw" "unnumbered (so_delete_receipt_sub (memory_store b64 ord) r) sw"
  "unnumbered (so_queued_receipts (memory_store b64 ord) r) sw" "unnumbered (so_delete_receipt (memory_store b64 ord) r seq) sw"
  by (simp_all add: mem_steps)

lemma mem_drawn:
  "gives (so_create_subscription (memory_store b64 ord) u c v) sw (\<lambda>sub sw'. drawn_by b64 sw sw' (sub_push sub))"
  "gives (so_create_receipt_sub (memory_store b64 ord)) sw (\<lambda>rsub sw'. drawn_by b64 sw sw' rsub)"
  by (simp_all add: mem_steps drawn_by_def mem_create_subscription_def mem_create_receipt_sub_def new_id_at)

lemma mem_number_issued:
  assumes "seq_room (Suc 0) (snd sw)"
  shows "gives (so_enqueue_receipt (memory_store b64 ord) rc) sw
     (\<lambda>x sw'. (\<forall>seq. x = Some seq \<longrightarrow> wl_last (snd sw') = seq) \<and> wl_draws (snd sw') = wl_draws (snd sw))"
proof -
  obtain seq w' where seq: "next_seq (snd sw) = (seq, w')" by (cases "next_seq (snd sw)")
  have "wl_last w' = seq" "wl_draws w' = wl_draws (snd sw)"
    using next_seq_greater(2) [OF assms seq] ticks_next_seq [OF seq] by (simp_all add: ticks_def)
  then show ?thesis by (simp add: mem_steps mem_enqueue_receipt_def seq split: option.split)
qed

interpretation checked: contract_store "mem_store b64 ord" mem_view mem_ok b64
proof (intro contract_store.intro mem.full_store_axioms contract_store_axioms.intro)
  fix sw :: "state \<times> world" and u c t assume inv: "mem_ok sw" "room_for mem_view sw"
  show "gives (so_delete_subscription (mem_store b64 ord) u c) sw
      (\<lambda>_ sw'. world_le (snd sw) (snd sw') \<and> wl_draws (snd sw') = wl_draws (snd sw))"
    by (rule removal_world [OF removal_ticks(1)], rule gives_mono [OF mem.delete_subscription [OF inv]]) blast
  show "gives (so_delete_user_agent (mem_store b64 ord) u) sw
      (\<lambda>_ sw'. world_le (snd sw) (snd sw') \<and> wl_draws (snd sw') = wl_draws (snd sw))"
    by (rule removal_world [OF removal_ticks(2)], rule gives_mono [OF mem.delete_user_agent [OF inv]]) blast
  show "gives (so_expire_user_agents (mem_store b64 ord) t) sw
      (\<lambda>_ sw'. world_le (snd sw) (snd sw') \<and> wl_draws (snd sw') = wl_draws (snd sw))"
    by (rule removal_world [OF removal_ticks(3)], rule gives_mono [OF mem.expire_user_agents [OF inv]])
      (unfold case_prod_beta, blast)
  show "gives (so_reap (mem_store b64 ord) t) sw
      (\<lambda>_ sw'. world_le (snd sw) (snd sw') \<and> wl_draws (snd sw') = wl_draws (snd sw))"
    by (rule removal_world [OF removal_ticks(4)], rule gives_mono [OF mem.reap [OF inv]]) blast
qed (rule mem_finite mem_unnumbered_owners mem_unnumbered_messages mem_unnumbered_others mem_drawn mem_number_issued; assumption?)+

section \<open>No errors\<close>

lemma mem_never_failed [never_failed_rules]:
  "never_failed (ok (so_create_user_agent (memory_store b64 ord) ua) what)"
  "never_failed (ok (so_user_agent (memory_store b64 ord) u) what)"
  "never_failed (ok (so_touch_user_agent (memory_store b64 ord) u t) what)"
  "never_failed (ok (so_update_bridge_token (memory_store b64 ord) u tok) what)"
  "never_failed (ok (so_delete_user_agent (memory_store b64 ord) u) what)"
  "never_failed (ok (so_expire_user_agents (memory_store b64 ord) t) what)"
  "never_failed (ok (so_subscriptions (memory_store b64 ord) u) what)"
  "never_failed (ok (so_channel (memory_store b64 ord) u c) what)"
  "never_failed (ok (so_create_subscription (memory_store b64 ord) u c v) what)"
  "never_failed (ok (so_subscription_by_push (memory_store b64 ord) p) what)"
  "never_failed (ok (so_delete_subscription (memory_store b64 ord) u c) what)"
  "never_failed (ok (so_insert_message (memory_store b64 ord) m) what)"
  "never_failed (ok (so_pending (memory_store b64 ord) u t limit) what)"
  "never_failed (ok (so_message (memory_store b64 ord) i) what)"
  "never_failed (ok (so_delete_message (memory_store b64 ord) i owner) what)"
  "never_failed (ok (so_create_receipt_sub (memory_store b64 ord)) what)"
  "never_failed (ok (so_receipt_sub_exists (memory_store b64 ord) r) what)"
  "never_failed (ok (so_delete_receipt_sub (memory_store b64 ord) r) what)"
  "never_failed (ok (so_enqueue_receipt (memory_store b64 ord) rc) what)"
  "never_failed (ok (so_queued_receipts (memory_store b64 ord) r) what)"
  "never_failed (ok (so_delete_receipt (memory_store b64 ord) r seq) what)"
  "never_failed (ok (so_reap (memory_store b64 ord) t) what)"
  "never_failed (ok (so_set_route (memory_store b64 ord) to node) what)"
  "never_failed (ok (so_route (memory_store b64 ord) to) what)"
  "never_failed (ok (so_clear_route (memory_store b64 ord) to node) what)"
  by (rule never_failed_ok, simp add: mem_steps)+

lemma mem_insert_all [never_failed_rules]: "never_failed (insert_all (memory_store b64 ord) ms)"
  by (induction ms) (simp_all only: insert_all.simps never_failed_rules)

lemma mem_checks_never_failed:
  assumes "check \<in> set (contract_checks b64 (memory_store b64 ord))"
  shows "never_failed check"
proof -
  note checks = check_user_agents_def check_bridged_user_agents_def check_delete_user_agent_def check_expire_user_agents_def
    check_delete_and_expire_user_agents_def check_routes_def check_subscriptions_def check_pending_def check_topic_replacement_def
    check_delete_message_ownership_def check_receipt_queue_def check_delete_subscription_def check_reap_def
    user_agent_seen_def test_user_agent_def new_message_def contract_channel_id_def Let_def case_prod_beta
  have "list_all never_failed (contract_checks b64 (memory_store b64 ord))"
    unfolding contract_checks_def list_all_iff set_simps ball_simps checks by (intro conjI never_failed_rules TrueI)
  then show ?thesis using assms by (simp add: list_all_iff)
qed

section \<open>The contract\<close>

text \<open>C4. Every check of the contract passes over the in-memory store.\<close>

theorem memory_meets_contract:
  assumes "mem_ok (s, w)" and "checkable b64 (mem_view s) w" and "check \<in> set (contract_checks b64 (mem_store b64 ord))"
  shows "\<exists>sw'. check (s, w) = (Inr (), sw')"
  by (rule safe_passes [OF checked.checkable_holds mem_checks_never_failed]) (use assms in simp_all)

text \<open>A process that has just started, whose entropy numbers its draws.\<close>

definition counting_world :: world where
  "counting_world = \<lparr>wl_clock = (\<lambda>_. 10000), wl_reads = 0, wl_entropy = (\<lambda>n k. if k = 0 then word_of_nat n else 0),
     wl_draws = 0, wl_last = 0\<rparr>"

lemma counting_ids: "distinct (map (\<lambda>n. uuid_of (id_at url_base64 counting_world n)) [0..<11])"
  by code_simp

lemma counting_checkable: "checkable url_base64 (mem_view new_state) counting_world"
proof -
  have "inj_on (\<lambda>n. uuid_of (id_at url_base64 counting_world n)) (set [0..<11])"
    using counting_ids unfolding distinct_map by blast
  then have "ids_ok url_base64 11 counting_world"
    by (simp add: ids_ok_def url_base64_ok counting_world_def)
  moreover have "ids_new url_base64 11 (mem_view new_state) {} {} {} counting_world"
    by (simp add: ids_new_def unknown_id_def unknown_uaid_def push_unused_def new_state_def hget_def)
  moreover have "dom (sp_msgs (mem_view new_state)) = {}" by (simp add: new_state_def hget_def dom_def)
  ultimately show ?thesis by (simp add: checkable_def seq_room_def counting_world_def)
qed

theorem memory_meets_contract_witness:
  "\<forall>ord. \<exists>sw'. check_topic_replacement url_base64 (mem_store url_base64 ord) (new_state, counting_world) = (Inr (), sw')"
proof
  fix ord
  show "\<exists>sw'. check_topic_replacement url_base64 (mem_store url_base64 ord) (new_state, counting_world) = (Inr (), sw')"
    by (rule memory_meets_contract [where ord = ord, OF mem_ok_new counting_checkable]) (simp add: contract_checks_def)
qed

end
