(* ===== verification/Answers.thy ===== *)
theory Answers
  imports Registration Receipts_Stream
begin

text \<open>
  The type of an answer: its status, the names of the headers the handler adds, and whether it
  has a body. \<open>typed\<close> is the typing of a fallible operation, which \<open>typed_rules\<close> derives along
  its steps; the handlers of \<open>endpoint.rs\<close>, \<open>receipts.rs\<close> and \<open>registration.rs\<close> have the types
  below whatever the store holds or answers.
\<close>

section \<open>Types\<close>

type_synonym shape = "nat \<times> string list \<times> bool"

definition shape :: "response \<Rightarrow> shape" where
  "shape r = (rs_status r, map fst (rs_headers r), rs_body r \<noteq> NoBody)"

text \<open>An answer without headers or body.\<close>

definition bare :: "nat \<Rightarrow> shape" where
  "bare status = (status, [], False)"

definition challenge :: shape where
  "challenge = (401, [''www-authenticate''], False)"

definition push_answers :: "shape list" where
  "push_answers = [(201, [''location'', ''ttl''], False), (202, [''location'', ''ttl'', ''link''], False), challenge,
     (429, [''retry-after''], False)] @ map bare [400, 403, 404, 410, 413, 429, 500, 502]"

definition message_answers :: "shape list" where
  "message_answers = map (\<lambda>hs. (200, hs, True)) (subseqs [''last-modified'', ''cache-control'', ''content-type'', ''content-encoding'']) @
     map bare [404, 500]"

definition removal_answers :: "shape list" where
  "removal_answers = map bare [204, 404, 500]"

definition stream_answers :: "shape list" where
  "stream_answers = (200, [''content-type'', ''cache-control''], True) # map bare [204, 404, 500]"

definition create_answers :: "shape list" where
  "create_answers = (201, [''location''], True) # map bare [400, 500, 503]"

text \<open>Of the requests that name a user agent.\<close>

fun request_answers :: "request \<Rightarrow> shape list" where
  "request_answers Read = [(200, [], True), challenge, bare 404, bare 500]"
| "request_answers (UpdateToken body) = [bare 204, challenge, bare 400, bare 404, bare 500]"
| "request_answers DeleteUserAgent = [bare 204, challenge, bare 404, bare 500]"
| "request_answers (Subscribe channel body) =
     [(201, [], True), (200, [], True), challenge, bare 400, bare 404, bare 409, bare 500]"
| "request_answers (Unsubscribe channel) = [bare 204, challenge, bare 404, bare 500]"

text \<open>The response of a handler, as \<open>axum\<close> makes it of its result.\<close>

definition answer_of :: "(http_error + response) \<times> 's \<Rightarrow> response" where
  "answer_of x = (case fst x of Inl e \<Rightarrow> into_response e | Inr r \<Rightarrow> r)"

section \<open>Typing\<close>

definition typed :: "shape list \<Rightarrow> ('a \<Rightarrow> bool) \<Rightarrow> ('s, http_error, 'a) act \<Rightarrow> bool" where
  "typed T A f \<longleftrightarrow> (\<forall>s. case fst (f s) of Inl e \<Rightarrow> shape (into_response e) \<in> set T | Inr x \<Rightarrow> A x)"

named_theorems typed_rules \<open>the typing of an operation, along its steps\<close>

abbreviation any :: "'a \<Rightarrow> bool" where
  "any \<equiv> (\<lambda>_. True)"

abbreviation answers_in :: "shape list \<Rightarrow> ('s, http_error, response) act \<Rightarrow> bool" where
  "answers_in T f \<equiv> typed T (\<lambda>r. shape r \<in> set T) f"

lemma typed_answer: "answers_in T f \<Longrightarrow> shape (answer_of (f s)) \<in> set T"
  by (auto simp: typed_def answer_of_def split: sum.splits)

lemma typed_weaken: "typed T A f \<Longrightarrow> (\<And>x. A x \<Longrightarrow> B x) \<Longrightarrow> typed T B f"
  by (fastforce simp: typed_def split: sum.splits)

lemma typed_ret [typed_rules]: "A x \<Longrightarrow> typed T A (ret x)"
  by (simp add: typed_def)

lemma typed_fail [typed_rules]: "shape (into_response e) \<in> set T \<Longrightarrow> typed T A (fail e)"
  by (simp add: typed_def)

lemma typed_bind: "typed T B f \<Longrightarrow> (\<And>x. B x \<Longrightarrow> typed T A (g x)) \<Longrightarrow> typed T A (and_then f g)"
  unfolding typed_def and_then_def
proof
  fix s assume f: "\<forall>s. case fst (f s) of Inl e \<Rightarrow> shape (into_response e) \<in> set T | Inr x \<Rightarrow> B x"
    and g: "\<And>x. B x \<Longrightarrow> \<forall>s. case fst (g x s) of Inl e \<Rightarrow> shape (into_response e) \<in> set T | Inr y \<Rightarrow> A y"
  obtain r s' where "f s = (r, s')" by fastforce
  with f [rule_format, of s] g show "case fst (case f s of (Inl e, s') \<Rightarrow> (Inl e, s') | (Inr x, s') \<Rightarrow> g x s') of
      Inl e \<Rightarrow> shape (into_response e) \<in> set T | Inr y \<Rightarrow> A y"
    by (cases r) simp_all
qed

lemma typed_and_then [typed_rules]: "typed T any f \<Longrightarrow> (\<And>x. typed T A (g x)) \<Longrightarrow> typed T A (and_then f g)"
  by (rule typed_bind)

lemma typed_or_fail [typed_rules]: "shape (into_response e) \<in> set T \<Longrightarrow> typed T any (or_fail e x)"
  by (cases x) (simp_all add: typed_def)

lemma typed_on_world [typed_rules]: "typed T any (on_world f)"
  by (simp add: typed_def on_world_def case_prod_beta)

lemma typed_run_all [typed_rules]: "typed T any (run_all f)"
  by (simp add: typed_def)

lemma typed_try_store [typed_rules]: "bare 500 \<in> set T \<Longrightarrow> typed T any (try_store f)"
  by (auto simp: typed_def try_store_def of_box_def of_status_def into_response_def shape_def bare_def split: prod.splits sum.splits)

lemma typed_if [typed_rules]: "typed T A f \<Longrightarrow> typed T A g \<Longrightarrow> typed T A (if b then f else g)"
  by simp

lemma typed_option [typed_rules]:
  "typed T A f \<Longrightarrow> (\<And>y. typed T A (g y)) \<Longrightarrow> typed T A (case x of None \<Rightarrow> f | Some y \<Rightarrow> g y)"
  by (cases x) simp_all

lemma typed_sum [typed_rules]:
  "(\<And>y. typed T A (f y)) \<Longrightarrow> (\<And>y. typed T A (g y)) \<Longrightarrow> typed T A (case x of Inl y \<Rightarrow> f y | Inr y \<Rightarrow> g y)"
  by (cases x) simp_all

lemma shape_response [simp]: "shape \<lparr>rs_status = s, rs_headers = hs, rs_body = b\<rparr> = (s, map fst hs, b \<noteq> NoBody)"
  by (simp add: shape_def)

lemma shape_of_status [simp]: "shape (into_response (of_status s)) = bare s"
  by (simp add: shape_def into_response_def of_status_def bare_def)

lemma shape_of_invalid [simp]: "shape (into_response (of_invalid e)) = bare 400"
  by (simp add: of_invalid_def)

lemma shape_unauthorized [simp]: "shape (into_response (unauthorized scheme)) = challenge"
  by (simp add: shape_def into_response_def unauthorized_def challenge_def)

lemma shape_retry_after [simp]:
  "shape (into_response (retry_after s after)) = (case after of None \<Rightarrow> bare s | Some _ \<Rightarrow> (s, [''retry-after''], False))"
  by (cases after) (simp_all add: shape_def into_response_def retry_after_def bare_def)

lemma shape_status_response [simp]: "shape (status_response s) = bare s"
  by (simp add: shape_def status_response_def bare_def)

lemma typed_or_invalid [typed_rules]: "bare 400 \<in> set T \<Longrightarrow> typed T any (or_invalid r)"
  unfolding or_invalid_def by (intro typed_rules) simp_all

lemma typed_valid_id [typed_rules]: "bare 404 \<in> set T \<Longrightarrow> typed T any (lift_sum (valid_id i))"
  by (simp add: typed_def valid_id_def)

section \<open>Pushing\<close>

lemma typed_check_vapid: "challenge \<in> set T \<Longrightarrow> bare 403 \<in> set T \<Longrightarrow> typed T any (check_vapid x headers restricted org)"
  unfolding check_vapid_def Let_def
  by (auto intro!: typed_rules split: list.split option.split sum.split vapid_error.split)

lemma typed_find_rsub: "bare 400 \<in> set T \<Longrightarrow> bare 500 \<in> set T \<Longrightarrow> typed T any (find_rsub app headers async)"
  unfolding find_rsub_def by (intro typed_rules) simp_all

lemma typed_push_request: "typed push_answers any (push_request app push_id headers body)"
  unfolding push_request_def Let_def
  by (intro typed_rules typed_check_vapid typed_find_rsub) (simp_all add: push_answers_def)

lemma typed_store_and_notify: "answers_in push_answers (store_and_notify app p push_id)"
  unfolding store_and_notify_def Let_def
  by (intro typed_rules) (auto simp: push_answers_def accepted_response_def split: option.split)

lemma shape_bridge_failure: "shape (into_response (fst (bridge_failure app uaid e nd))) \<in> set push_answers"
  by (cases e) (auto simp: bridge_failure_def push_answers_def split: sum.split prod.split option.split)

lemma shape_bridged: "shape (bridged_response app p i) \<in> set push_answers"
  by (simp add: bridged_response_def push_answers_def)

lemma typed_bridge_push: "answers_in push_answers (bridge_push app p to)"
  unfolding bridge_push_def Let_def
proof (intro typed_rules)
  fix b i
  show "answers_in push_answers (\<lambda>nd. case br_send b (nd_sends nd) \<lparr>ad_app_id = ba_app_id to, ad_token = ba_token to\<rparr> (bridge_message p i) of
      Inl e \<Rightarrow> (case bridge_failure app (sub_uaid (ph_sub p)) e (nd\<lparr>nd_sends := Suc (nd_sends nd)\<rparr>) of (err, nd) \<Rightarrow> (Inl err, nd))
    | Inr _ \<Rightarrow> (Inr (bridged_response app p i), nd\<lparr>nd_sends := Suc (nd_sends nd)\<rparr>))"
    using shape_bridge_failure unfolding typed_def
    by (auto simp: shape_bridged case_prod_beta split: sum.split)
qed (simp add: push_answers_def)

lemma typed_push: "answers_in push_answers (push app push_id headers body)"
  unfolding push_def
  by (intro typed_rules typed_push_request typed_bridge_push typed_store_and_notify) (simp_all add: push_answers_def)

section \<open>Messages and receipts\<close>

lemma shape_message_response: "shape (message_response x m) \<in> set message_answers"
  by (cases "m_ctype m"; cases "m_cenc m")
    (simp_all add: message_response_def put_header_def header_value_ok_def shape_def message_answers_def Let_def)

lemma typed_read_message: "answers_in message_answers (read_message app i)"
  unfolding read_message_def
  by (intro typed_rules) (simp_all add: shape_message_response, simp_all add: message_answers_def)

lemma typed_withdraw_message: "answers_in removal_answers (withdraw_message app i)"
  unfolding withdraw_message_def by (intro typed_rules) (simp_all add: removal_answers_def)

lemma typed_delete_receipt_sub: "answers_in removal_answers (delete_receipt_sub app i)"
  unfolding delete_receipt_sub_def by (intro typed_rules) (simp_all add: removal_answers_def)

section \<open>Registration\<close>

lemma typed_authorize: "challenge \<in> set T \<Longrightarrow> bare 404 \<in> set T \<Longrightarrow> bare 500 \<in> set T \<Longrightarrow> typed T any (authorize app headers uaid)"
  unfolding authorize_def by (intro typed_rules) simp_all

lemma typed_create: "answers_in create_answers (create app body)"
  unfolding create_def Let_def by (intro typed_rules) (simp_all add: create_answers_def)

lemma typed_subscribe_outcome: "bare 409 \<in> set T \<Longrightarrow> typed T (\<lambda>(status, _). status \<in> {200, 201}) (subscribe_outcome r)"
  unfolding subscribe_outcome_def by (cases r) (auto intro: typed_rules)

lemma typed_subscribe_key: "bare 400 \<in> set T \<Longrightarrow> typed T any (subscribe_key app body)"
  unfolding subscribe_key_def by (intro typed_rules) simp_all

lemma typed_subscribe: "answers_in (request_answers (Subscribe channel body)) (subscribe decode app uaid channel headers body)"
  unfolding subscribe_def
  by (intro typed_rules typed_authorize typed_subscribe_key typed_bind [OF typed_subscribe_outcome])
    (auto simp: json_response_def intro!: typed_rules)

lemma typed_respond: "answers_in (request_answers req) (respond decode app uaid headers req)"
proof (cases req)
  case Read
  then show ?thesis by (simp only: respond.simps, unfold read_def)
    (intro typed_rules typed_authorize; simp add: json_response_def)
next
  case UpdateToken
  then show ?thesis by (simp only: respond.simps, unfold update_token_def) (intro typed_rules typed_authorize; simp)
next
  case DeleteUserAgent
  then show ?thesis by (simp only: respond.simps, unfold delete_user_agent_def) (intro typed_rules typed_authorize; simp)
next
  case Subscribe
  then show ?thesis by (simp only: respond.simps typed_subscribe)
next
  case Unsubscribe
  then show ?thesis by (simp only: respond.simps, unfold unsubscribe_def) (intro typed_rules typed_authorize; simp)
qed

section \<open>Receipt streams\<close>

text \<open>The response of a stream, without what its pump starts with.\<close>

definition stream_response :: "'s app \<Rightarrow> string \<Rightarrow> header_map \<Rightarrow> ('s node, http_error, response) act" where
  "stream_response app i headers nd = (case stream app i headers nd of (Inl e, nd) \<Rightarrow> (Inl e, nd) | (Inr (r, _), nd) \<Rightarrow> (Inr r, nd))"

lemma typed_queue:
  "typed stream_answers any (and_then (try_store (so_receipt_sub_exists S rsub)) (\<lambda>exists.
     if \<not> exists then fail (of_status 404) else try_store (so_queued_receipts S rsub)))"
  by (intro typed_rules) (simp_all add: stream_answers_def)

lemma typed_stream: "answers_in stream_answers (stream_response app i headers)"
  unfolding typed_def
proof
  fix nd
  have queue: "shape (into_response e) \<in> set stream_answers"
    if "and_then (try_store (so_receipt_sub_exists (ap_store app) i)) (\<lambda>exists.
     if \<not> exists then fail (of_status 404) else try_store (so_queued_receipts (ap_store app) i)) nd = (Inl e, nd')" for e nd nd'
    using typed_queue [unfolded typed_def, rule_format, of "ap_store app" i nd] by (simp add: that)
  have types: "bare 404 \<in> set stream_answers" "bare 500 \<in> set stream_answers" "bare 204 \<in> set stream_answers"
    "(200, [''content-type'', ''cache-control''], True) \<in> set stream_answers"
    by (simp_all add: stream_answers_def)
  show "case fst (stream_response app i headers nd) of Inl e \<Rightarrow> shape (into_response e) \<in> set stream_answers
      | Inr r \<Rightarrow> shape r \<in> set stream_answers"
  proof (cases "valid_id i")
    case Inl
    then show ?thesis using types by (auto simp: stream_response_def stream_def valid_id_def split: if_splits)
  next
    case (Inr rsub)
    then have i: "rsub = i" by (auto simp: valid_id_def split: if_splits)
    note unfolded = stream_response_def stream_def Inr i sum.case Let_def
    show ?thesis
      using types queue by (auto simp: unfolded of_box_def
        split: sum.splits prod.splits if_splits)
  qed
qed

end
