(* ===== verification/Routes.thy ===== *)
theory Routes
  imports Answers Internal
begin

text \<open>
  The routers: \<open>public_router\<close> and \<open>cors\<close> of \<open>crates/webpush-server/src/lib.rs\<close>, and
  \<open>router\<close> of \<open>endpoint.rs\<close>, \<open>registration.rs\<close> and \<open>internal.rs\<close>. A router is its list of
  routes. Matching a path against a template, reading the body within its limit and decoding
  JSON are axum's: the record \<open>axum\<close>.
\<close>

section \<open>Tables\<close>

datatype http_method = GET | POST | PUT | DELETE

datatype handler = HPush | HReadMessage | HWithdrawMessage | HStream | HDeleteReceiptSub
  | HCreate | HRead | HUpdateToken | HDelete | HSubscribe | HUnsubscribe
  | HUpgrade
  | HHealth | HReady | HVersion | HMetrics | HDeliver

datatype allow_origin = AnyOrigin | OriginList "string list"

record cors_layer =
  cy_allow_origin :: allow_origin
  cy_allow_methods :: "http_method list"
  cy_allow_headers :: "string list"
  cy_expose_headers :: "string list"

text \<open>A route with the layers around it: the largest body its handler reads, unless it is axum's
  own limit, and the CORS layer.\<close>

record route =
  rt_template :: string
  rt_methods :: "(http_method \<times> handler) list"
  rt_body_limit :: "u64 option"
  rt_cors :: "cors_layer option"

definition route_to :: "string \<Rightarrow> (http_method \<times> handler) list \<Rightarrow> route" where
  "route_to template methods = \<lparr>rt_template = template, rt_methods = methods, rt_body_limit = None, rt_cors = None\<rparr>"

definition endpoint_router :: "'s app \<Rightarrow> route list" where
  "endpoint_router app = map (\<lambda>r. r\<lparr>rt_body_limit := Some (pu_max_payload (cf_push (ap_cfg app)))\<rparr>)
     [route_to ''/push/{id}'' [(POST, HPush)],
      route_to ''/message/{id}'' [(GET, HReadMessage), (DELETE, HWithdrawMessage)],
      route_to ''/receipt-subscription/{id}'' [(GET, HStream), (DELETE, HDeleteReceiptSub)]]"

definition registration_router :: "route list" where
  "registration_router =
     [route_to ''/v1/user-agents'' [(POST, HCreate)],
      route_to ''/v1/user-agents/{uaid}'' [(GET, HRead), (PUT, HUpdateToken), (DELETE, HDelete)],
      route_to ''/v1/user-agents/{uaid}/subscriptions/{channel}'' [(PUT, HSubscribe), (DELETE, HUnsubscribe)]]"

definition internal_router :: "route list" where
  "internal_router =
     [route_to ''/health'' [(GET, HHealth)], route_to ''/ready'' [(GET, HReady)], route_to ''/version'' [(GET, HVersion)],
      route_to ''/metrics'' [(GET, HMetrics)], route_to NOTIFY_PATH [(POST, HDeliver)]]"

definition cors :: "cors_config \<Rightarrow> cors_layer option" where
  "cors cfg =
     (if co_allowed_origins cfg = [] then None
      else Some \<lparr>cy_allow_origin = (if list_ex (\<lambda>o'. o' = ''*'') (co_allowed_origins cfg) then AnyOrigin
                   else OriginList (filter header_value_ok (co_allowed_origins cfg))),
             cy_allow_methods = [GET, POST, DELETE],
             cy_allow_headers = [''authorization'', ''content-type'', ''content-encoding'', ''link'', ''ttl'', ''urgency'', ''topic'', ''prefer''],
             cy_expose_headers = [''location'', ''link'', ''ttl'']\<rparr>)"

definition public_router :: "'s app \<Rightarrow> route list" where
  "public_router app =
     (if serves_endpoint (cf_role (ap_cfg app))
      then (case cors (cf_cors (ap_cfg app)) of
              Some c \<Rightarrow> map (\<lambda>r. r\<lparr>rt_cors := Some c\<rparr>) (endpoint_router app)
            | None \<Rightarrow> endpoint_router app) @
           (if ap_bridges app \<noteq> [] then registration_router else [])
      else []) @
     (if connects (cf_role (ap_cfg app)) then [route_to ''/'' [(GET, HUpgrade)]] else [])"

section \<open>Requests\<close>

text \<open>
  \<open>ax_match template path\<close> are the decoded parameters of a path that fits a template; \<open>ax_bytes\<close>
  the body as far as its limit admits it, \<open>ax_create\<close> and \<open>ax_update_token\<close> the decoded JSON
  bodies. What they refuse axum answers itself.
\<close>

record axum =
  ax_match :: "string \<Rightarrow> string \<Rightarrow> string list option"
  ax_bytes :: "u64 option \<Rightarrow> byte list \<Rightarrow> byte list option"
  ax_create :: "header_map \<Rightarrow> byte list \<Rightarrow> create_body option"
  ax_update_token :: "header_map \<Rightarrow> byte list \<Rightarrow> update_token_body option"

text \<open>A handler with the arguments its extractors produce.\<close>

datatype public_call =
    Push string "byte list"
  | ReadMessage string
  | WithdrawMessage string
  | ReceiptStream string
  | DeleteReceiptSub string
  | CreateUserAgent create_body
  | OfUserAgent string request

fun one_param :: "string list \<Rightarrow> (string \<Rightarrow> 'a option) \<Rightarrow> 'a option" where
  "one_param [i] f = f i"
| "one_param ps f = None"

fun two_params :: "string list \<Rightarrow> (string \<Rightarrow> string \<Rightarrow> 'a option) \<Rightarrow> 'a option" where
  "two_params [u, c] f = f u c"
| "two_params ps f = None"

primrec arguments :: "axum \<Rightarrow> route \<Rightarrow> header_map \<Rightarrow> byte list \<Rightarrow> string list \<Rightarrow> handler \<Rightarrow> public_call option" where
  "arguments ax r headers body ps HPush = one_param ps (\<lambda>i. map_option (Push i) (ax_bytes ax (rt_body_limit r) body))"
| "arguments ax r headers body ps HReadMessage = one_param ps (\<lambda>i. Some (ReadMessage i))"
| "arguments ax r headers body ps HWithdrawMessage = one_param ps (\<lambda>i. Some (WithdrawMessage i))"
| "arguments ax r headers body ps HStream = one_param ps (\<lambda>i. Some (ReceiptStream i))"
| "arguments ax r headers body ps HDeleteReceiptSub = one_param ps (\<lambda>i. Some (DeleteReceiptSub i))"
| "arguments ax r headers body ps HCreate = map_option CreateUserAgent (ax_create ax headers body)"
| "arguments ax r headers body ps HRead = one_param ps (\<lambda>u. Some (OfUserAgent u Read))"
| "arguments ax r headers body ps HUpdateToken =
     one_param ps (\<lambda>u. map_option (\<lambda>b. OfUserAgent u (UpdateToken b)) (ax_update_token ax headers body))"
| "arguments ax r headers body ps HDelete = one_param ps (\<lambda>u. Some (OfUserAgent u DeleteUserAgent))"
| "arguments ax r headers body ps HSubscribe =
     two_params ps (\<lambda>u c. map_option (\<lambda>b. OfUserAgent u (Subscribe c b)) (ax_bytes ax (rt_body_limit r) body))"
| "arguments ax r headers body ps HUnsubscribe = two_params ps (\<lambda>u c. Some (OfUserAgent u (Unsubscribe c)))"
| "arguments ax r headers body ps HUpgrade = None"
| "arguments ax r headers body ps HHealth = None"
| "arguments ax r headers body ps HReady = None"
| "arguments ax r headers body ps HVersion = None"
| "arguments ax r headers body ps HMetrics = None"
| "arguments ax r headers body ps HDeliver = None"

fun perform ::
  "(byte list \<Rightarrow> subscribe_body option) \<Rightarrow> 's app \<Rightarrow> header_map \<Rightarrow> public_call \<Rightarrow> ('s node, http_error, response) act" where
  "perform decode app headers (Push i body) = push app i headers body"
| "perform decode app headers (ReadMessage i) = read_message app i"
| "perform decode app headers (WithdrawMessage i) = withdraw_message app i"
| "perform decode app headers (ReceiptStream i) = stream_response app i headers"
| "perform decode app headers (DeleteReceiptSub i) = delete_receipt_sub app i"
| "perform decode app headers (CreateUserAgent body) = create app body"
| "perform decode app headers (OfUserAgent u req) = respond decode app u headers req"

record http_request =
  hq_method :: http_method
  hq_path :: string
  hq_headers :: header_map
  hq_body :: "byte list"

text \<open>Without a route or a method for it, or if an extractor refuses it, axum answers the request.\<close>

datatype served = NoRoute | NoMethod | Refused | Upgraded | Answered response

definition serve_public ::
  "axum \<Rightarrow> (byte list \<Rightarrow> subscribe_body option) \<Rightarrow> 's app \<Rightarrow> http_request \<Rightarrow> 's node \<Rightarrow> served \<times> 's node" where
  "serve_public ax decode app q nd =
     (case find (\<lambda>r. ax_match ax (rt_template r) (hq_path q) \<noteq> None) (public_router app) of
        None \<Rightarrow> (NoRoute, nd)
      | Some r \<Rightarrow>
          (case map_of (rt_methods r) (hq_method q) of
             None \<Rightarrow> (NoMethod, nd)
           | Some h \<Rightarrow>
               if h = HUpgrade then (Upgraded, nd)
               else (case arguments ax r (hq_headers q) (hq_body q) (the (ax_match ax (rt_template r) (hq_path q))) h of
                       None \<Rightarrow> (Refused, nd)
                     | Some c \<Rightarrow> (case perform decode app (hq_headers q) c nd of (x, nd) \<Rightarrow> (Answered (answer_of (x, nd)), nd)))))"

section \<open>What is served\<close>

definition registration_handlers :: "handler list" where
  "registration_handlers = [HCreate, HRead, HUpdateToken, HDelete, HSubscribe, HUnsubscribe]"

lemma endpoint_routed:
  assumes "r \<in> set (endpoint_router app)" and "map_of (rt_methods r) m = Some h"
  shows "h \<notin> set (HUpgrade # registration_handlers)" and "h = HPush \<Longrightarrow> rt_body_limit r = Some (pu_max_payload (cf_push (ap_cfg app)))"
  using assms by (auto simp: endpoint_router_def route_to_def registration_handlers_def split: if_splits)

lemma registration_routed:
  assumes "r \<in> set registration_router" and "map_of (rt_methods r) m = Some h"
  shows "h \<in> set registration_handlers"
  using assms by (auto simp: registration_router_def route_to_def registration_handlers_def split: if_splits)

lemma public_routes:
  assumes "r \<in> set (public_router app)"
  obtains (endpoint) r' where "r' \<in> set (endpoint_router app)" "rt_methods r = rt_methods r'" "rt_body_limit r = rt_body_limit r'"
      "serves_endpoint (cf_role (ap_cfg app))"
    | (registration) "r \<in> set registration_router" "serves_endpoint (cf_role (ap_cfg app))" "ap_bridges app \<noteq> []"
    | (session) "r = route_to ''/'' [(GET, HUpgrade)]" "connects (cf_role (ap_cfg app))"
  using assms unfolding public_router_def by (cases "cors (cf_cors (ap_cfg app))") (fastforce split: if_splits)+

lemma routed:
  assumes "r \<in> set (public_router app)" and h: "map_of (rt_methods r) m = Some h"
  shows "h = HUpgrade \<and> rt_template r = ''/'' \<and> connects (cf_role (ap_cfg app)) \<or>
    h \<noteq> HUpgrade \<and> serves_endpoint (cf_role (ap_cfg app)) \<and> (h \<in> set registration_handlers \<longrightarrow> ap_bridges app \<noteq> []) \<and>
    (h = HPush \<longrightarrow> rt_body_limit r = Some (pu_max_payload (cf_push (ap_cfg app))))"
  using assms(1)
proof (cases rule: public_routes)
  case (endpoint r')
  then show ?thesis using endpoint_routed [of r' app m h] h by simp
next
  case registration
  then show ?thesis using registration_routed [of r m h] h by (auto simp: registration_handlers_def)
next
  case session
  then show ?thesis using h by (simp add: route_to_def split: if_splits)
qed

text \<open>The types of the answers of a handler.\<close>

fun handler_answers :: "handler \<Rightarrow> shape list" where
  "handler_answers HPush = push_answers"
| "handler_answers HReadMessage = message_answers"
| "handler_answers HWithdrawMessage = removal_answers"
| "handler_answers HDeleteReceiptSub = removal_answers"
| "handler_answers HStream = stream_answers"
| "handler_answers HCreate = create_answers"
| "handler_answers HRead = request_answers Read"
| "handler_answers HUpdateToken = request_answers (UpdateToken \<lparr>ub_token = []\<rparr>)"
| "handler_answers HDelete = request_answers DeleteUserAgent"
| "handler_answers HSubscribe = request_answers (Subscribe [] [])"
| "handler_answers HUnsubscribe = request_answers (Unsubscribe [])"
| "handler_answers h = []"

lemma one_param_Some: "one_param ps f = Some x \<longleftrightarrow> (\<exists>i. ps = [i] \<and> f i = Some x)"
  by (cases "(ps, f)" rule: one_param.cases) auto

lemma two_params_Some: "two_params ps f = Some x \<longleftrightarrow> (\<exists>u c. ps = [u, c] \<and> f u c = Some x)"
  by (cases "(ps, f)" rule: two_params.cases) auto

lemma typed_request:
  "answers_in (request_answers Read) (respond decode app u headers Read)"
  "answers_in (request_answers (UpdateToken \<lparr>ub_token = []\<rparr>)) (respond decode app u headers (UpdateToken b))"
  "answers_in (request_answers DeleteUserAgent) (respond decode app u headers DeleteUserAgent)"
  "answers_in (request_answers (Subscribe [] [])) (respond decode app u headers (Subscribe c body))"
  "answers_in (request_answers (Unsubscribe [])) (respond decode app u headers (Unsubscribe c))"
  using typed_respond [where req = Read] typed_respond [where req = "UpdateToken b"] typed_respond [where req = DeleteUserAgent]
    typed_respond [where req = "Subscribe c body"] typed_respond [where req = "Unsubscribe c"]
  by (simp_all only: request_answers.simps)

lemmas typed_handlers = typed_push typed_read_message typed_withdraw_message typed_stream typed_delete_receipt_sub typed_create
  typed_request

lemma typed_perform:
  assumes "arguments ax r headers body ps h = Some c"
  shows "answers_in (handler_answers h) (perform decode app headers c)"
  using assms
  by (cases h) (auto simp: one_param_Some two_params_Some typed_handlers simp del: respond.simps request_answers.simps)

text \<open>What the types have in common: a challenge exactly with a 401, the delay of a throttled platform
  only with a 429, and a body only with a 200 or 201.\<close>

definition well_formed :: "shape \<Rightarrow> bool" where
  "well_formed = (\<lambda>(status, headers, has_body). (status = 401 \<longleftrightarrow> ''www-authenticate'' \<in> set headers) \<and>
     (''retry-after'' \<in> set headers \<longrightarrow> status = 429) \<and> (has_body \<longrightarrow> status \<in> {200, 201}))"

lemmas answer_types = push_answers_def message_answers_def removal_answers_def stream_answers_def create_answers_def
  challenge_def bare_def

lemma handler_answers_well_formed: "t \<in> set (handler_answers h) \<Longrightarrow> well_formed t"
proof -
  have "list_all well_formed (handler_answers h)" by (cases h) (simp_all add: answer_types well_formed_def)
  then show "t \<in> set (handler_answers h) \<Longrightarrow> well_formed t" by (simp add: list_all_iff)
qed

lemma distinct_templates: "distinct (map rt_template (public_router app))"
  by (cases "cors (cf_cors (ap_cfg app))") (auto simp: public_router_def endpoint_router_def registration_router_def route_to_def)

text \<open>
  C6. Whatever the store holds or answers, an answer to a public request has the type its handler
  declares: its status is one of those listed, with the headers of that status, a challenge
  exactly with a 401 and a body only with a 200 or 201. The handler is one the role serves, those
  of registration only while a bridge is configured. A request without a handler changes nothing.
\<close>

theorem public_answers:
  assumes "serve_public ax decode app q nd = (s, nd')"
  shows "(\<forall>r. s = Answered r \<longrightarrow> (\<exists>route\<in>set (public_router app). \<exists>h.
      ax_match ax (rt_template route) (hq_path q) \<noteq> None \<and> map_of (rt_methods route) (hq_method q) = Some h \<and>
      shape r \<in> set (handler_answers h) \<and> well_formed (shape r) \<and> serves_endpoint (cf_role (ap_cfg app)) \<and>
      (h \<in> set registration_handlers \<longrightarrow> ap_bridges app \<noteq> []))) \<and>
    ((\<forall>r. s \<noteq> Answered r) \<longrightarrow> nd' = nd)"
proof (intro conjI allI impI)
  fix r assume "s = Answered r"
  with assms obtain route h c where route: "find (\<lambda>r. ax_match ax (rt_template r) (hq_path q) \<noteq> None) (public_router app) = Some route"
    and h: "map_of (rt_methods route) (hq_method q) = Some h" "h \<noteq> HUpgrade"
    and c: "arguments ax route (hq_headers q) (hq_body q) (the (ax_match ax (rt_template route) (hq_path q))) h = Some c"
    and r: "r = answer_of (perform decode app (hq_headers q) c nd)"
    by (auto simp: serve_public_def split: option.splits if_splits prod.splits)
  have mem: "route \<in> set (public_router app)" "ax_match ax (rt_template route) (hq_path q) \<noteq> None"
    using route by (auto simp: find_Some_iff)
  have "shape r \<in> set (handler_answers h)" unfolding r by (rule typed_answer [OF typed_perform [OF c]])
  moreover from this have "well_formed (shape r)" by (rule handler_answers_well_formed)
  ultimately show "\<exists>route\<in>set (public_router app). \<exists>h. ax_match ax (rt_template route) (hq_path q) \<noteq> None \<and>
      map_of (rt_methods route) (hq_method q) = Some h \<and> shape r \<in> set (handler_answers h) \<and> well_formed (shape r) \<and>
      serves_endpoint (cf_role (ap_cfg app)) \<and> (h \<in> set registration_handlers \<longrightarrow> ap_bridges app \<noteq> [])"
    using mem h routed [OF mem(1) h(1)] by blast
next
  assume "\<forall>r. s \<noteq> Answered r"
  with assms show "nd' = nd" by (auto simp: serve_public_def split: option.splits if_splits prod.splits)
qed

section \<open>A request\<close>

definition demo_axum :: axum where
  "demo_axum = \<lparr>ax_match = \<lambda>template path. if template = ''/message/{id}'' then map_option (\<lambda>i. [i]) (strip_prefix ''/message/'' path) else None,
     ax_bytes = \<lambda>_. Some, ax_create = \<lambda>_ _. None, ax_update_token = \<lambda>_ _. None\<rparr>"

definition demo_request :: http_request where
  "demo_request = \<lparr>hq_method = DELETE, hq_path = ''/message/abc'', hq_headers = [], hq_body = []\<rparr>"

lemma demo_answered: "fst (serve_public demo_axum (\<lambda>_. None) demo_app demo_request (demo_node new_state (\<lambda>_. Lost))) =
    Answered (into_response (of_status 404))"
  by (simp add: serve_public_def demo_axum_def demo_request_def public_router_def endpoint_router_def route_to_def demo_app_def
      demo_config_def default_config_def cors_def withdraw_message_def valid_id_def is_id_def  answer_of_def)

lemma public_answers_witness: "well_formed (shape (into_response (of_status 404))) \<and> fst (serve_public demo_axum (\<lambda>_. None) demo_app demo_request (demo_node new_state (\<lambda>_. Lost))) =
    Answered (into_response (of_status 404))"
proof -
  obtain nd' where run: "serve_public demo_axum (\<lambda>_. None) demo_app demo_request (demo_node new_state (\<lambda>_. Lost)) =
      (Answered (into_response (of_status 404)), nd')"
    using demo_answered by (metis prod.collapse)
  show ?thesis using public_answers [OF run] demo_answered by blast
qed

end
