(* ===== verification/Gcp_Auth.thy ===== *)
theory Gcp_Auth
  imports Json Bridge
begin

text \<open>
  \<open>crates/webpush-gcp-auth/src/lib.rs\<close>: access tokens for Google services. Credentials, the
  request that turns them into a token, and the cache in front of it. The environment, the
  file system, JSON text, the RSA key and its signature, and the token endpoint are parameters.
\<close>

section \<open>Constants\<close>

definition CLOUD_PLATFORM :: string where
  "CLOUD_PLATFORM = ''https://www.googleapis.com/auth/cloud-platform''"

definition GOOGLE_TOKEN_URI :: string where
  "GOOGLE_TOKEN_URI = ''https://oauth2.googleapis.com/token''"

definition METADATA_HOST :: string where
  "METADATA_HOST = ''metadata.google.internal''"

definition ASSERTION_LIFETIME_SECS :: u64 where
  "ASSERTION_LIFETIME_SECS = 3600"

definition REFRESH_MARGIN :: duration where
  "REFRESH_MARGIN = from_secs 60"

section \<open>Credentials\<close>

text \<open>An account, its token endpoint, key and project; a client id, its secret, a refresh token and
  the project billed; the address of a metadata server.\<close>

datatype 'key gcp_credentials =
    ServiceAccount string string 'key "string option"
  | AuthorizedUser string string string "string option"
  | Metadata string

record credentials_file =
  cf_kind :: string
  cf_client_email :: "string option"
  cf_private_key :: "string option"
  cf_token_uri :: "string option"
  cf_project_id :: "string option"
  cf_client_id :: "string option"
  cf_client_secret :: "string option"
  cf_refresh_token :: "string option"
  cf_quota_project_id :: "string option"

text \<open>A source without its HTTP client, its cache and its randomness.\<close>

record 'key token_source =
  ts_credentials :: "'key gcp_credentials"
  ts_scopes :: string

text \<open>
  The crates: base64, \<open>serde_json\<close> reading a file of the type above and printing a value, the
  key out of a PEM file, RSA keys and their PKCS#1 signatures, and \<open>Debug\<close> for text.
\<close>

record 'key gcp_crates =
  gc_b64 :: base64
  gc_parse :: "string \<Rightarrow> string + credentials_file"
  gc_to_vec :: "json \<Rightarrow> string + byte list"
  gc_pem :: "string \<Rightarrow> string + byte list"
  gc_rsa :: "byte list \<Rightarrow> string + 'key"
  gc_sign :: "'key \<Rightarrow> byte list \<Rightarrow> byte list option"
  gc_debug :: "string \<Rightarrow> string"

text \<open>\<open>[&str]::join\<close> with a space, and \<open>str::replace\<close> of each space by a comma.\<close>

fun join_scopes :: "string list \<Rightarrow> string" where
  "join_scopes [] = []"
| "join_scopes [s] = s"
| "join_scopes (s # ss) = s @ '' '' @ join_scopes ss"

definition commas :: "string \<Rightarrow> string" where
  "commas = map (\<lambda>c. if c = CHR '' '' then CHR '','' else c)"

definition new_source :: "'key gcp_credentials \<Rightarrow> string list \<Rightarrow> 'key token_source" where
  "new_source c scopes = \<lparr>ts_credentials = c, ts_scopes = join_scopes scopes\<rparr>"

definition field :: "string option \<Rightarrow> string \<Rightarrow> box_error + string" where
  "field v name = (case v of Some x \<Rightarrow> Inr x | None \<Rightarrow> Inl (BoxError (''credentials without '' @ name)))"

definition service_account :: "'key gcp_crates \<Rightarrow> credentials_file \<Rightarrow> box_error + 'key gcp_credentials" where
  "service_account cr file =
     (case field (cf_private_key file) ''private_key'' of Inl e \<Rightarrow> Inl e | Inr pem \<Rightarrow>
      case gc_pem cr pem of Inl e \<Rightarrow> Inl (BoxError (''private_key: '' @ e)) | Inr der \<Rightarrow>
      case gc_rsa cr der of Inl e \<Rightarrow> Inl (BoxError (''private_key is not an RSA key: '' @ e)) | Inr key \<Rightarrow>
      case field (cf_client_email file) ''client_email'' of Inl e \<Rightarrow> Inl e | Inr email \<Rightarrow>
        Inr (ServiceAccount email (case cf_token_uri file of Some u \<Rightarrow> u | None \<Rightarrow> GOOGLE_TOKEN_URI) key
          (cf_project_id file)))"

definition authorized_user :: "credentials_file \<Rightarrow> box_error + 'key gcp_credentials" where
  "authorized_user file =
     (case field (cf_client_id file) ''client_id'' of Inl e \<Rightarrow> Inl e | Inr i \<Rightarrow>
      case field (cf_client_secret file) ''client_secret'' of Inl e \<Rightarrow> Inl e | Inr s \<Rightarrow>
      case field (cf_refresh_token file) ''refresh_token'' of Inl e \<Rightarrow> Inl e | Inr r \<Rightarrow>
        Inr (AuthorizedUser i s r (cf_quota_project_id file)))"

definition from_json :: "'key gcp_crates \<Rightarrow> string \<Rightarrow> string list \<Rightarrow> box_error + 'key token_source" where
  "from_json cr text scopes =
     (case gc_parse cr text of Inl e \<Rightarrow> Inl (BoxError e) | Inr file \<Rightarrow>
      case (if cf_kind file = ''service_account'' then service_account cr file
            else if cf_kind file = ''authorized_user'' then authorized_user file
            else Inl (BoxError (''unsupported credentials type '' @ gc_debug cr (cf_kind file)))) of
        Inl e \<Rightarrow> Inl e
      | Inr c \<Rightarrow> Inr (new_source c scopes))"

text \<open>\<open>read\<close> is \<open>fs::read_to_string\<close>; a path is its display form.\<close>

definition from_file ::
  "'key gcp_crates \<Rightarrow> (string \<Rightarrow> string + string) \<Rightarrow> string \<Rightarrow> string list \<Rightarrow> box_error + 'key token_source" where
  "from_file cr read path scopes =
     (case read path of Inl e \<Rightarrow> Inl (BoxError (path @ '': '' @ e)) | Inr text \<Rightarrow>
      case from_json cr text scopes of
        Inl (BoxError e) \<Rightarrow> Inl (BoxError (path @ '': '' @ e))
      | Inr ts \<Rightarrow> Inr ts)"

definition metadata :: "string \<Rightarrow> string list \<Rightarrow> 'key token_source" where
  "metadata b scopes = new_source (Metadata (trim_end_by (\<lambda>c. c = CHR ''/'') b)) scopes"

text \<open>\<open>PathBuf::join\<close> of a relative path, outside Windows.\<close>

definition path_join :: "string \<Rightarrow> string \<Rightarrow> string" where
  "path_join b p = (if b = [] \<or> last b = CHR ''/'' then b @ p else b @ ''/'' @ p)"

definition well_known_file :: "(string \<Rightarrow> string option) \<Rightarrow> string option" where
  "well_known_file env =
     map_option (\<lambda>h. path_join h ''.config/gcloud/application_default_credentials.json'') (env ''HOME'')"

definition discover ::
  "'key gcp_crates \<Rightarrow> (string \<Rightarrow> string option) \<Rightarrow> (string \<Rightarrow> bool) \<Rightarrow> (string \<Rightarrow> string + string) \<Rightarrow> string list \<Rightarrow>
   box_error + 'key token_source" where
  "discover cr env exists read scopes =
     (case env ''GOOGLE_APPLICATION_CREDENTIALS'' of
        Some path \<Rightarrow> from_file cr read path scopes
      | None \<Rightarrow>
          (case well_known_file env of
             Some path \<Rightarrow>
               if exists path then from_file cr read path scopes
               else Inr (metadata (''http://'' @ (case env ''GCE_METADATA_HOST'' of Some h \<Rightarrow> h | None \<Rightarrow> METADATA_HOST)) scopes)
           | None \<Rightarrow>
               Inr (metadata (''http://'' @ (case env ''GCE_METADATA_HOST'' of Some h \<Rightarrow> h | None \<Rightarrow> METADATA_HOST)) scopes)))"

definition project_id :: "'key token_source \<Rightarrow> string option" where
  "project_id ts =
     (case ts_credentials ts of
        ServiceAccount _ _ _ p \<Rightarrow> p
      | AuthorizedUser _ _ _ q \<Rightarrow> q
      | Metadata _ \<Rightarrow> None)"

definition quota_project :: "'key token_source \<Rightarrow> string option" where
  "quota_project ts = (case ts_credentials ts of AuthorizedUser _ _ _ q \<Rightarrow> q | _ \<Rightarrow> None)"

section \<open>Requesting a token\<close>

datatype outgoing_request =
    Post string "(string \<times> string) list"
  | Get string "(string \<times> string) list" "(string \<times> string) list"

text \<open>
  What a request meets outside: the wall clock (\<open>None\<close> before 1970) for the assertion, the
  monotonic clock before sending, the endpoint, \<open>serde_json\<close> reading a \<open>TokenResponse\<close>, and
  the printing of a status. An \<open>Instant\<close> is its number of nanoseconds.
\<close>

record token_env =
  te_unix :: "duration option"
  te_requested :: duration
  te_send :: "outgoing_request \<Rightarrow> box_error + http_reply"
  te_response :: "byte list \<Rightarrow> box_error + (string \<times> u64)"
  te_show_status :: "nat \<Rightarrow> string"

record cached =
  ca_value :: string
  ca_expires_at :: duration

text \<open>A token request fails with an error, or panics because the expiry is past the last instant.\<close>

datatype token_failure = NoToken box_error | InstantOverflow

text \<open>\<open>Instant + Duration::from_secs\<close>: the seconds of an \<open>Instant\<close> are an \<open>i64\<close>.\<close>

definition instant_add :: "duration \<Rightarrow> u64 \<Rightarrow> duration option" where
  "instant_add t s = (if as_secs (t + from_secs (unat s)) < 2 ^ 63 then Some (t + from_secs (unat s)) else None)"

definition assertion :: "'key gcp_crates \<Rightarrow> 'key token_source \<Rightarrow> duration option \<Rightarrow> box_error + string" where
  "assertion cr ts unix =
     (case ts_credentials ts of
        ServiceAccount email uri key _ \<Rightarrow>
          (case unix of
             None \<Rightarrow> Inl (BoxError ''second time provided was later than self'')
           | Some d \<Rightarrow>
               let iat = of_nat (as_secs d);
                   header = b64_encode (gc_b64 cr) (octets ([CHR ''{'', CHR 0x22] @ ''alg'' @ [CHR 0x22, CHR '':'', CHR 0x22] @ ''RS256'' @
                     [CHR 0x22, CHR '','', CHR 0x22] @ ''typ'' @ [CHR 0x22, CHR '':'', CHR 0x22] @ ''JWT'' @ [CHR 0x22, CHR ''}'']))
               in case gc_to_vec cr (JObject [(''iss'', JString email), (''scope'', JString (ts_scopes ts)), (''aud'', JString uri),
                     (''iat'', JNumber (Some iat)), (''exp'', JNumber (Some (iat + ASSERTION_LIFETIME_SECS)))]) of
                    Inl e \<Rightarrow> Inl (BoxError e)
                  | Inr claims \<Rightarrow>
                      let input = header @ ''.'' @ b64_encode (gc_b64 cr) claims
                      in case gc_sign cr key (octets input) of
                           None \<Rightarrow> Inl (BoxError ''RSA signing failed'')
                         | Some sig \<Rightarrow> Inr (input @ ''.'' @ b64_encode (gc_b64 cr) sig))
      | _ \<Rightarrow> Inl (BoxError ''assertions need a service account''))"

definition token_request :: "'key gcp_crates \<Rightarrow> 'key token_source \<Rightarrow> duration option \<Rightarrow> box_error + outgoing_request" where
  "token_request cr ts unix =
     (case ts_credentials ts of
        ServiceAccount _ uri _ _ \<Rightarrow>
          (case assertion cr ts unix of
             Inl e \<Rightarrow> Inl e
           | Inr a \<Rightarrow> Inr (Post uri [(''grant_type'', ''urn:ietf:params:oauth:grant-type:jwt-bearer''), (''assertion'', a)]))
      | AuthorizedUser i s r _ \<Rightarrow>
          Inr (Post GOOGLE_TOKEN_URI [(''grant_type'', ''refresh_token''), (''client_id'', i), (''client_secret'', s), (''refresh_token'', r)])
      | Metadata b \<Rightarrow>
          Inr (Get (b @ ''/computeMetadata/v1/instance/service-accounts/default/token'') [(''scopes'', commas (ts_scopes ts))]
            [(''Metadata-Flavor'', ''Google'')]))"

definition fetch :: "'key gcp_crates \<Rightarrow> 'key token_source \<Rightarrow> token_env \<Rightarrow> token_failure + cached" where
  "fetch cr ts env =
     (case token_request cr ts (te_unix env) of Inl e \<Rightarrow> Inl (NoToken e) | Inr request \<Rightarrow>
      case te_send env request of Inl e \<Rightarrow> Inl (NoToken e) | Inr resp \<Rightarrow>
      if \<not> is_success (hr_status resp)
      then Inl (NoToken (BoxError (''token request returned '' @ te_show_status env (hr_status resp))))
      else case te_response env (hr_body resp) of Inl e \<Rightarrow> Inl (NoToken e) | Inr (value, expires_in) \<Rightarrow>
        case instant_add (te_requested env) expires_in of
          None \<Rightarrow> Inl InstantOverflow
        | Some at \<Rightarrow> Inr \<lparr>ca_value = value, ca_expires_at = at\<rparr>)"

section \<open>The cache\<close>

text \<open>\<open>now\<close> is read when the cache is checked; the lock is held to the end, so a call is one step.\<close>

type_synonym token_cache = "cached option"

definition fresh_enough :: "duration \<Rightarrow> cached \<Rightarrow> bool" where
  "fresh_enough now c \<longleftrightarrow> ca_expires_at c - now > REFRESH_MARGIN"

definition refresh :: "'key gcp_crates \<Rightarrow> 'key token_source \<Rightarrow> token_env \<Rightarrow> (token_cache, token_failure, string) act" where
  "refresh cr ts env cached =
     (case fetch cr ts env of Inl e \<Rightarrow> (Inl e, cached) | Inr fresh \<Rightarrow> (Inr (ca_value fresh), Some fresh))"

definition token ::
  "'key gcp_crates \<Rightarrow> 'key token_source \<Rightarrow> duration \<Rightarrow> token_env \<Rightarrow> (token_cache, token_failure, string) act" where
  "token cr ts now env cached =
     (case cached of
        Some c \<Rightarrow> if fresh_enough now c then (Inr (ca_value c), cached) else refresh cr ts env cached
      | None \<Rightarrow> refresh cr ts env cached)"

definition invalidate :: "token_cache \<Rightarrow> token_cache" where
  "invalidate cached = None"

end
