(* ===== verification/Gcp_Props.thy ===== *)
theory Gcp_Props
  imports Gcp_Auth
begin

text \<open>
  What the token cache guarantees over any sequence of calls, and when a call fails.
\<close>

section \<open>Runs\<close>

datatype token_step = Token duration token_env | Invalidate

fun step_token :: "'key gcp_crates \<Rightarrow> 'key token_source \<Rightarrow> token_step \<Rightarrow> token_cache \<Rightarrow> (token_failure + string) option \<times> token_cache" where
  "step_token cr ts (Token now env) c = (let (r, c) = token cr ts now env c in (Some r, c))"
| "step_token cr ts Invalidate c = (None, invalidate c)"

fun run_tokens ::
  "'key gcp_crates \<Rightarrow> 'key token_source \<Rightarrow> token_step list \<Rightarrow> token_cache \<Rightarrow> (token_failure + string) option list \<times> token_cache" where
  "run_tokens cr ts [] c = ([], c)"
| "run_tokens cr ts (x # xs) c =
     (let (r, c) = step_token cr ts x c; (rs, c) = run_tokens cr ts xs c in (r # rs, c))"

definition cache_after :: "'key gcp_crates \<Rightarrow> 'key token_source \<Rightarrow> token_step list \<Rightarrow> token_cache" where
  "cache_after cr ts xs = snd (run_tokens cr ts xs None)"

lemma run_tokens_append:
  "run_tokens cr ts (xs @ ys) c =
     (let (rs, c) = run_tokens cr ts xs c; (rs', c) = run_tokens cr ts ys c in (rs @ rs', c))"
  by (induction xs arbitrary: c) (simp_all add: case_prod_beta Let_def)

lemma cache_after_snoc: "cache_after cr ts (xs @ [x]) = snd (step_token cr ts x (cache_after cr ts xs))"
  by (simp add: cache_after_def run_tokens_append case_prod_beta Let_def)

lemma length_run_tokens [simp]: "length (fst (run_tokens cr ts xs c)) = length xs"
  by (induction xs arbitrary: c) (simp_all add: case_prod_beta Let_def)

lemma answer_at:
  assumes "i < length xs"
  shows "fst (run_tokens cr ts xs None) ! i = fst (step_token cr ts (xs ! i) (cache_after cr ts (take i xs)))"
proof -
  have xs: "xs = take i xs @ xs ! i # drop (Suc i) xs" by (rule id_take_nth_drop [OF assms])
  have "fst (run_tokens cr ts xs None) ! i = fst (run_tokens cr ts (take i xs @ xs ! i # drop (Suc i) xs) None) ! i"
    using xs by simp
  also have "\<dots> = fst (step_token cr ts (xs ! i) (cache_after cr ts (take i xs)))"
    using assms by (simp add: run_tokens_append cache_after_def case_prod_beta Let_def nth_append)
  finally show ?thesis .
qed

section \<open>What is in the cache\<close>

lemma token_cases:
  obtains (reused) c where "cached = Some c" "fresh_enough now c" "token cr ts now env cached = (Inr (ca_value c), cached)"
    | (granted) c where "fetch cr ts env = Inr c" "token cr ts now env cached = (Inr (ca_value c), Some c)"
    | (failed) e where "fetch cr ts env = Inl e" "token cr ts now env cached = (Inl e, cached)"
proof (cases "\<exists>c. cached = Some c \<and> fresh_enough now c")
  case True
  then show thesis using reused by (auto simp: token_def)
next
  case False
  then have "token cr ts now env cached = refresh cr ts env cached" by (auto simp: token_def split: option.split)
  then show thesis using granted failed by (cases "fetch cr ts env") (simp_all add: refresh_def)
qed

text \<open>A cached token was granted by an earlier call, and the cache was not dropped since.\<close>

lemma cache_granted:
  "cache_after cr ts xs = Some c \<Longrightarrow> \<exists>pre now env post. xs = pre @ Token now env # post \<and> fetch cr ts env = Inr c \<and> Invalidate \<notin> set post"
proof (induction xs rule: rev_induct)
  case (snoc x xs)
  have earlier: ?case if c: "cache_after cr ts xs = Some c" and x: "x \<noteq> Invalidate"
  proof -
    obtain pre now env post where "xs = pre @ Token now env # post" "fetch cr ts env = Inr c" "Invalidate \<notin> set post"
      using snoc.IH [OF c] by blast
    then have "xs @ [x] = pre @ Token now env # (post @ [x])" "Invalidate \<notin> set (post @ [x])" using x by simp_all
    then show ?thesis using \<open>fetch cr ts env = Inr c\<close> by blast
  qed
  show ?case
  proof (cases x)
    case (Token now env)
    from snoc.prems have "snd (token cr ts now env (cache_after cr ts xs)) = Some c"
      by (simp add: cache_after_snoc Token case_prod_beta Let_def)
    then show ?thesis
      using earlier Token by (cases rule: token_cases [of "cache_after cr ts xs" now cr ts env]) fastforce+
  next
    case Invalidate
    then show ?thesis using snoc.prems by (simp add: cache_after_snoc invalidate_def)
  qed
qed (simp add: cache_after_def)

text \<open>What the endpoint answered when a token was granted.\<close>

definition grants :: "'key gcp_crates \<Rightarrow> 'key token_source \<Rightarrow> token_env \<Rightarrow> string \<Rightarrow> u64 \<Rightarrow> bool" where
  "grants cr ts env value expires \<longleftrightarrow> (\<exists>q resp. token_request cr ts (te_unix env) = Inr q \<and> te_send env q = Inr resp \<and>
     is_success (hr_status resp) \<and> te_response env (hr_body resp) = Inr (value, expires))"

lemma fetch_granted:
  "fetch cr ts env = Inr c \<Longrightarrow> \<exists>expires. grants cr ts env (ca_value c) expires \<and>
     ca_expires_at c = te_requested env + from_secs (unat expires)"
  by (auto simp: fetch_def grants_def instant_add_def split: sum.splits prod.splits if_splits option.splits)

text \<open>
  C20. Every token a source hands out was granted by its token endpoint: by a request of that
  call, or by one of an earlier call whose lifetime, counted from before the request was sent,
  goes on for more than another minute, and then the cache was not dropped in between.
\<close>

theorem token_outlives_call:
  assumes "run_tokens cr ts steps None = (answers, c)" and "i < length steps" and "steps ! i = Token now env"
    and "answers ! i = Some (Inr v)"
  shows "\<exists>j\<le>i. \<exists>now' env' expires. steps ! j = Token now' env' \<and> grants cr ts env' v expires \<and>
     (j < i \<longrightarrow> now + from_secs 60 < te_requested env' + from_secs (unat expires)) \<and>
     (\<forall>k. j < k \<and> k < i \<longrightarrow> steps ! k \<noteq> Invalidate)"
proof -
  let ?c = "cache_after cr ts (take i steps)"
  have v: "fst (token cr ts now env ?c) = Inr v"
    using answer_at [OF assms(2), of cr ts] assms(1,3,4) by (simp add: case_prod_beta Let_def)
  show ?thesis
  proof (cases rule: token_cases [of ?c now cr ts env])
    case (reused c)
    obtain pre now' env' post where xs: "take i steps = pre @ Token now' env' # post" and f: "fetch cr ts env' = Inr c"
      and keep: "Invalidate \<notin> set post" using cache_granted [OF reused(1)] by blast
    obtain expires where g: "grants cr ts env' (ca_value c) expires" "ca_expires_at c = te_requested env' + from_secs (unat expires)"
      using fetch_granted [OF f] by blast
    have at: "take i steps ! k = steps ! k" if "k < i" for k using that by simp
    have i: "i = Suc (length pre + length post)" using arg_cong [OF xs, of length] assms(2) by simp
    have "length pre < i" using i by simp
    from at [OF this, unfolded xs] have "steps ! length pre = Token now' env'" by simp
    moreover have "steps ! k \<noteq> Invalidate" if "length pre < k" "k < i" for k
    proof -
      have "steps ! k = post ! (k - Suc (length pre))" using at [OF that(2), unfolded xs] that(1) by (simp add: nth_append)
      then show ?thesis using keep that i by (auto simp: in_set_conv_nth)
    qed
    moreover have "now + from_secs 60 < te_requested env' + from_secs (unat expires)"
      using reused(2) g(2) by (simp add: fresh_enough_def REFRESH_MARGIN_def)
    ultimately show ?thesis using g(1) v reused(3) i by (intro exI [of _ "length pre"]) auto
  next
    case (granted c)
    then show ?thesis using fetch_granted [OF granted(1)] v assms(3) by (intro exI [of _ i]) auto
  next
    case (failed e)
    then show ?thesis using v by simp
  qed
qed

section \<open>Failures\<close>

lemma instant_add_None: "instant_add t s = None \<longleftrightarrow> 2 ^ 63 \<le> as_secs t + unat s"
  by (simp add: instant_add_def as_secs_def from_secs_def not_less)

lemma fetch_overflow:
  "fetch cr ts env = Inl InstantOverflow \<longleftrightarrow> (\<exists>v expires. grants cr ts env v expires \<and> 2 ^ 63 \<le> as_secs (te_requested env) + unat expires)"
  unfolding instant_add_None [symmetric] by (auto simp: fetch_def grants_def split: sum.splits prod.splits option.splits)

text \<open>
  C40. A failed call leaves the cache as it was, and is never one that could have used it. It
  panics exactly if the endpoint grants a token for so long that its expiry is past the last
  instant, 2^63 seconds: the lifetime is what the endpoint says, unchecked.
\<close>

theorem token_call_fails:
  "(fst (token cr ts now env cached) = Inl InstantOverflow \<longleftrightarrow>
      (\<forall>c. cached = Some c \<longrightarrow> ca_expires_at c \<le> now + from_secs 60) \<and>
      (\<exists>v expires. grants cr ts env v expires \<and> 2 ^ 63 \<le> as_secs (te_requested env) + unat expires)) \<and>
   (\<forall>e. fst (token cr ts now env cached) = Inl e \<longrightarrow> snd (token cr ts now env cached) = cached \<and>
      (\<forall>c. cached = Some c \<longrightarrow> ca_expires_at c \<le> now + from_secs 60))"
proof -
  have margin: "fresh_enough now c \<longleftrightarrow> \<not> ca_expires_at c \<le> now + from_secs 60" for c
    by (auto simp: fresh_enough_def REFRESH_MARGIN_def)
  have "token cr ts now env cached =
      (if \<exists>c. cached = Some c \<and> fresh_enough now c then (Inr (ca_value (the cached)), cached) else refresh cr ts env cached)"
    by (auto simp: token_def split: option.split)
  moreover have "fst (refresh cr ts env cached) = Inl e \<longleftrightarrow> fetch cr ts env = Inl e" for e
    by (simp add: refresh_def split: sum.split)
  moreover have "snd (refresh cr ts env cached) = cached" if "fst (refresh cr ts env cached) = Inl e" for e
    using that by (simp add: refresh_def split: sum.splits)
  ultimately show ?thesis unfolding margin fetch_overflow [symmetric] by auto
qed

section \<open>A metadata server that answers once\<close>

definition demo_gcp :: "unit gcp_crates" where
  "demo_gcp = \<lparr>gc_b64 = url_base64, gc_parse = \<lambda>_. Inl [], gc_to_vec = \<lambda>_. Inr [], gc_pem = Inl, gc_rsa = \<lambda>_. Inr (),
     gc_sign = \<lambda>_ _. None, gc_debug = \<lambda>s. s\<rparr>"

definition demo_source :: "unit token_source" where
  "demo_source = metadata ''http://metadata.google.internal/'' [CLOUD_PLATFORM]"

definition demo_endpoint :: "duration \<Rightarrow> (string \<times> u64) option \<Rightarrow> token_env" where
  "demo_endpoint t answer = \<lparr>te_unix = None, te_requested = t,
     te_send = \<lambda>_. Inr \<lparr>hr_status = if answer = None then 503 else 200, hr_headers = [], hr_body = []\<rparr>,
     te_response = \<lambda>_. case answer of None \<Rightarrow> Inl (BoxError []) | Some a \<Rightarrow> Inr a, te_show_status = \<lambda>_. []\<rparr>"

definition demo_token_steps :: "token_step list" where
  "demo_token_steps = [Token 0 (demo_endpoint (from_secs 10) (Some (''tok'', 3600))), Token (from_secs 3000) (demo_endpoint 0 None)]"

lemma demo_tokens:
  "run_tokens demo_gcp demo_source demo_token_steps None =
     ([Some (Inr ''tok''), Some (Inr ''tok'')], Some \<lparr>ca_value = ''tok'', ca_expires_at = from_secs 3610\<rparr>)"
  by (simp add: demo_token_steps_def demo_source_def metadata_def new_source_def demo_endpoint_def token_def refresh_def fetch_def
      token_request_def is_success_def instant_add_def as_secs_def from_secs_def fresh_enough_def REFRESH_MARGIN_def)

theorem token_outlives_call_witness:
  "\<exists>j\<le>1. \<exists>now' env' expires. demo_token_steps ! j = Token now' env' \<and> grants demo_gcp demo_source env' ''tok'' expires \<and>
     (j < 1 \<longrightarrow> from_secs 3000 + from_secs 60 < te_requested env' + from_secs (unat expires)) \<and>
     (\<forall>k. j < k \<and> k < 1 \<longrightarrow> demo_token_steps ! k \<noteq> Invalidate)"
  by (rule token_outlives_call [OF demo_tokens, where now = "from_secs 3000" and env = "demo_endpoint 0 None"])
    (simp_all add: demo_token_steps_def)

theorem token_call_fails_witness:
  "fst (token demo_gcp demo_source 0 (demo_endpoint 0 (Some (''tok'', 2 ^ 63))) None) = Inl InstantOverflow"
proof -
  have "grants demo_gcp demo_source (demo_endpoint 0 (Some (''tok'', 2 ^ 63))) ''tok'' (2 ^ 63)"
    by (simp add: grants_def demo_endpoint_def is_success_def token_request_def demo_source_def metadata_def new_source_def)
  then show ?thesis
    by (subst conjunct1 [OF token_call_fails]) (auto intro!: exI [of _ "''tok''"] exI [of _ "2 ^ 63 :: u64"])
qed

end
