(* ===== verification/Fcm_Tokens.thy ===== *)
theory Fcm_Tokens
  imports Fcm Gcp_Props
begin

text \<open>
  \<open>crates/webpush-fcm/src/lib.rs\<close> over \<open>crates/webpush-gcp-auth/src/lib.rs\<close>: loading the
  applications with their token sources, and a delivery with what it leaves in the cache of
  its application. Deliveries take effect one after the other.
\<close>

section \<open>Loading\<close>

definition SCOPE :: string where
  "SCOPE = ''https://www.googleapis.com/auth/firebase.messaging''"

text \<open>The environment and the files of the process.\<close>

record process =
  pr_env :: "string \<Rightarrow> string option"
  pr_exists :: "string \<Rightarrow> bool"
  pr_read :: "string \<Rightarrow> string + string"

definition app_source :: "'key gcp_crates \<Rightarrow> process \<Rightarrow> fcm_app_config \<Rightarrow> box_error + 'key token_source" where
  "app_source cr p cfg =
     (case fac_credentials_file cfg of
        Some path \<Rightarrow> from_file cr (pr_read p) path [SCOPE]
      | None \<Rightarrow> discover cr (pr_env p) (pr_exists p) (pr_read p) [SCOPE])"

definition load_fcm_app :: "'key gcp_crates \<Rightarrow> process \<Rightarrow> fcm_app_config \<Rightarrow> box_error + ('key token_source \<times> fcm_app)" where
  "load_fcm_app cr p cfg =
     (case app_source cr p cfg of Inl e \<Rightarrow> Inl e | Inr auth \<Rightarrow>
      case load_app cfg (project_id auth) (quota_project auth) of Inl e \<Rightarrow> Inl e | Inr app \<Rightarrow> Inr (auth, app))"

fun load_fcm_apps ::
  "(fcm_app_config \<Rightarrow> box_error + 'a) \<Rightarrow> (string \<times> fcm_app_config) list \<Rightarrow> (string, 'a) hmap \<Rightarrow> box_error + (string, 'a) hmap" where
  "load_fcm_apps load [] loaded = Inr loaded"
| "load_fcm_apps load ((i, cfg) # cfgs) loaded =
     (case load cfg of
        Inl (BoxError e) \<Rightarrow> Inl (BoxError (''fcm app '' @ i @ '': '' @ e))
      | Inr a \<Rightarrow> load_fcm_apps load cfgs (hinsert i a loaded))"

text \<open>\<open>client\<close> builds the HTTP client.\<close>

definition fcm_new ::
  "iter_order \<Rightarrow> 'key gcp_crates \<Rightarrow> process \<Rightarrow> (duration \<Rightarrow> box_error + unit) \<Rightarrow> fcm_config \<Rightarrow>
   box_error + (string, 'key token_source \<times> fcm_app) hmap" where
  "fcm_new ord cr p client cfg =
     (case client (fc_timeout cfg) of Inl e \<Rightarrow> Inl e | Inr _ \<Rightarrow>
      load_fcm_apps (load_fcm_app cr p) (hiter ord (fc_apps cfg)) [])"

lemma load_fcm_apps_fails: "(\<exists>e. load_fcm_apps load cfgs loaded = Inl e) \<longleftrightarrow> (\<exists>i cfg e. (i, cfg) \<in> set cfgs \<and> load cfg = Inl e)"
proof (induction cfgs arbitrary: loaded)
  case (Cons x cfgs)
  obtain i cfg where x: "x = (i, cfg)" by (cases x)
  show ?case
  proof (cases "load cfg")
    case (Inl e)
    then show ?thesis by (cases e) (auto simp: x)
  next
    case (Inr a)
    then show ?thesis using Cons.IH [of "hinsert i a loaded"] by (auto simp: x)
  qed
qed simp

lemma load_fcm_apps_loads:
  "load_fcm_apps load cfgs loaded = Inr apps \<Longrightarrow> distinct (map fst cfgs) \<Longrightarrow> (\<forall>i\<in>fst ` set cfgs. hget loaded i = None) \<Longrightarrow>
   hget apps i = (case map_of cfgs i of None \<Rightarrow> hget loaded i | Some cfg \<Rightarrow> (case load cfg of Inl _ \<Rightarrow> None | Inr a \<Rightarrow> Some a))"
proof (induction cfgs arbitrary: loaded)
  case (Cons x cfgs)
  obtain j cfg where x: "x = (j, cfg)" by (cases x)
  obtain a where a: "load cfg = Inr a" "load_fcm_apps load cfgs (hinsert j a loaded) = Inr apps"
    using Cons.prems(1) by (auto simp: x split: sum.splits box_error.splits)
  have keys: "distinct (map fst cfgs)" "j \<notin> fst ` set cfgs" using Cons.prems(2) by (simp_all add: x)
  have "\<forall>i\<in>fst ` set cfgs. hget (hinsert j a loaded) i = None"
    using Cons.prems(3) keys(2) by (auto simp: x hget_hinsert)
  moreover have "map_of cfgs j = None" using keys(2) by (simp add: map_of_eq_None_iff)
  ultimately show ?case using Cons.IH [OF a(2) keys(1)] a(1) by (cases "i = j"; cases "map_of cfgs i") (simp_all add: x)
qed simp

text \<open>
  The bridge starts exactly if its HTTP client can be built and every application loads, whatever
  the order of the map, and then knows each configured application with its own credentials.
\<close>

theorem fcm_new_loads:
  assumes "is_order ord" and "hdistinct (fc_apps cfg)"
  shows "((\<exists>e. fcm_new ord cr p client cfg = Inl e) \<longleftrightarrow>
      (\<exists>e. client (fc_timeout cfg) = Inl e) \<or> (\<exists>i c e. hget (fc_apps cfg) i = Some c \<and> load_fcm_app cr p c = Inl e)) \<and>
    (\<forall>apps i. fcm_new ord cr p client cfg = Inr apps \<longrightarrow>
      hget apps i = (case hget (fc_apps cfg) i of None \<Rightarrow> None
        | Some c \<Rightarrow> (case load_fcm_app cr p c of Inl _ \<Rightarrow> None | Inr a \<Rightarrow> Some a)))"
proof -
  let ?cfgs = "hiter ord (fc_apps cfg)"
  have set: "set ?cfgs = set (fc_apps cfg)" by (rule set_hiter [OF assms(1)])
  have "mset (map fst ?cfgs) = mset (map fst (fc_apps cfg))" by (simp add: mset_hiter [OF assms(1)])
  then have distinct: "distinct (map fst ?cfgs)" using assms(2) by (metis mset_eq_imp_distinct_iff)
  have maps: "map_of ?cfgs i = hget (fc_apps cfg) i" for i
    unfolding hget_def by (metis map_of_eqI map_of_inject_set set distinct assms(2))
  have get: "(i, c) \<in> set ?cfgs \<longleftrightarrow> hget (fc_apps cfg) i = Some c" for i c
    unfolding set hget_def using assms(2) by simp
  show ?thesis
  proof (cases "client (fc_timeout cfg)")
    case (Inr u)
    then have new: "fcm_new ord cr p client cfg = load_fcm_apps (load_fcm_app cr p) ?cfgs []" by (simp add: fcm_new_def)
    show ?thesis unfolding new load_fcm_apps_fails get
      using Inr load_fcm_apps_loads [OF _ distinct, of "load_fcm_app cr p" "[]"] by (auto simp: maps hget_def [of "[]"] cong: option.case_cong)
  qed (simp add: fcm_new_def)
qed

section \<open>Deliveries with a token source\<close>

text \<open>
  \<open>FcmBridge::deliver\<close> with the token source of the application: \<open>deliver\<close> asks for a token
  once it knows the application and the size of the message, and drops it when FCM refuses it.
  \<open>None\<close> is the panic of the token source.
\<close>

definition asks_token :: "base64 \<Rightarrow> (string, fcm_app) hmap \<Rightarrow> address \<Rightarrow> bridge_notification \<Rightarrow> bool" where
  "asks_token b64 apps to n \<longleftrightarrow> hget apps (ad_app_id to) \<noteq> None \<and>
     sum_list (map (\<lambda>(k, v). length k + length v) (notification_fields b64 n)) \<le> MAX_DATA_BYTES"

record 'key fcm_call =
  fl_now :: duration
  fl_tokens :: token_env
  fl_send :: "fcm_request \<Rightarrow> box_error + http_reply"
  fl_to :: address
  fl_notification :: bridge_notification

definition fcm_deliver_tokens ::
  "'key gcp_crates \<Rightarrow> 'key token_source \<Rightarrow> (byte list \<Rightarrow> fcm_status option) \<Rightarrow> (nat \<Rightarrow> string) \<Rightarrow> (string, fcm_app) hmap \<Rightarrow>
   'key fcm_call \<Rightarrow> token_cache \<Rightarrow> fcm_outcome option \<times> token_cache" where
  "fcm_deliver_tokens cr ts parse show_status apps x cached =
     (let deliver = (\<lambda>r. fcm_deliver (gc_b64 cr) parse show_status apps (\<lambda>_. r) (fl_send x) (fl_to x) (fl_notification x))
      in if \<not> asks_token (gc_b64 cr) apps (fl_to x) (fl_notification x) then (Some (deliver (Inr [])), cached)
         else case token cr ts (fl_now x) (fl_tokens x) cached of
                (Inl InstantOverflow, cached) \<Rightarrow> (None, cached)
              | (Inl (NoToken e), cached) \<Rightarrow> (Some (deliver (Inl e)), cached)
              | (Inr t, cached) \<Rightarrow>
                  let out = deliver (Inr t) in (Some out, if fo_invalidate out then invalidate cached else cached))"

lemma deliver_request:
  assumes "fcm_deliver b64 parse show_status apps (\<lambda>_. r) send to n = out" and "fo_request out = Some q"
  shows "asks_token b64 apps to n" and "r = Inr (fq_token q)"
  using assms
  by (auto simp: fcm_deliver_def refused_def asks_token_def Let_def not_less split: option.splits sum.splits if_splits)

lemma deliver_refused:
  assumes "fcm_deliver b64 parse show_status apps (\<lambda>_. r) send to n = out" and "fo_request out = Some q"
    and "send q = Inr resp" and "hr_status resp = 401"
  shows "fo_invalidate out"
  using assms
  by (auto simp: fcm_deliver_def refused_def Let_def is_success_def split: option.splits sum.splits if_splits)

lemma delivery_token:
  assumes run: "fcm_deliver_tokens cr ts parse show_status apps x cached = (Some out, cached')" and q: "fo_request out = Some q"
  obtains c where "token cr ts (fl_now x) (fl_tokens x) cached = (Inr (fq_token q), c)"
    and "cached' = (if fo_invalidate out then invalidate c else c)"
    and "fcm_deliver (gc_b64 cr) parse show_status apps (\<lambda>_. Inr (fq_token q)) (fl_send x) (fl_to x) (fl_notification x) = out"
proof -
  let ?deliver = "\<lambda>r. fcm_deliver (gc_b64 cr) parse show_status apps (\<lambda>_. r) (fl_send x) (fl_to x) (fl_notification x)"
  obtain r c where t: "token cr ts (fl_now x) (fl_tokens x) cached = (r, c)" by fastforce
  have asks: "asks_token (gc_b64 cr) apps (fl_to x) (fl_notification x)"
  proof (rule ccontr)
    assume no: "\<not> ?thesis"
    then have "?deliver (Inr []) = out" using run by (simp add: fcm_deliver_tokens_def)
    then show False using deliver_request(1) [OF _ q] no by blast
  qed
  show thesis
  proof (cases r)
    case (Inl e)
    with run t asks obtain b where "?deliver (Inl b) = out" by (cases e) (auto simp: fcm_deliver_tokens_def)
    from deliver_request(2) [OF this q] show thesis by simp
  next
    case (Inr v)
    with run t asks have out: "?deliver (Inr v) = out" "cached' = (if fo_invalidate out then invalidate c else c)"
      by (auto simp: fcm_deliver_tokens_def Let_def)
    from deliver_request(2) [OF out(1) q] have "v = fq_token q" by simp
    with that t Inr out show thesis by simp
  qed
qed

text \<open>
  C13. A token FCM refused with a 401 is dropped, and the next delivery that reaches FCM presents
  a token its own call was granted by the token endpoint.
\<close>

theorem refused_token_renewed:
  assumes "fcm_deliver_tokens cr ts parse show_status apps x cached = (Some out, cached')"
    and "fo_request out = Some q" and "fl_send x q = Inr resp" and "hr_status resp = 401"
    and "fcm_deliver_tokens cr ts parse show_status apps y cached' = (Some out', cached'')" and "fo_request out' = Some q'"
  shows "cached' = None \<and> (\<exists>expires. grants cr ts (fl_tokens y) (fq_token q') expires)"
proof -
  have renewed: "cached' = None"
    by (rule delivery_token [OF assms(1,2)]) (use deliver_refused [where send = "fl_send x", OF _ assms(2-4)] in \<open>simp add: invalidate_def\<close>)
  obtain c where "token cr ts (fl_now y) (fl_tokens y) None = (Inr (fq_token q'), c)"
    using delivery_token [OF assms(5,6)] unfolding renewed by blast
  then obtain c where "fetch cr ts (fl_tokens y) = Inr c" "ca_value c = fq_token q'"
    by (cases rule: token_cases [of None "fl_now y" cr ts "fl_tokens y"]) auto
  then show ?thesis using renewed fetch_granted by metis
qed

section \<open>A refused token\<close>

definition demo_call :: "string \<Rightarrow> nat \<Rightarrow> unit fcm_call" where
  "demo_call t status = \<lparr>fl_now = 0, fl_tokens = demo_endpoint 0 (Some (t, 3600)),
     fl_send = \<lambda>_. Inr \<lparr>hr_status = status, hr_headers = [], hr_body = []\<rparr>,
     fl_to = \<lparr>ad_app_id = ''app'', ad_token = ''tok''\<rparr>, fl_notification = demo_notification\<rparr>"

definition demo_delivery :: "string \<Rightarrow> nat \<Rightarrow> token_cache \<Rightarrow> fcm_outcome option \<times> token_cache" where
  "demo_delivery t status = fcm_deliver_tokens demo_gcp demo_source (\<lambda>_. None) show_nat [(''app'', demo_fcm_app)] (demo_call t status)"

lemmas demo_delivery_simps = demo_delivery_def demo_call_def fcm_deliver_tokens_def asks_token_def token_def refresh_def fetch_def
  token_request_def demo_source_def metadata_def new_source_def demo_endpoint_def is_success_def instant_add_def as_secs_def
  from_secs_def hget_def data_size MAX_DATA_BYTES_def demo_notification_def demo_gcp_def url_base64_def Let_def invalidate_def
  fcm_deliver_def classify_def default_status_def demo_fcm_app_def

lemma demo_first: "\<exists>out. demo_delivery ''old'' 401 None = (Some out, None) \<and> (\<exists>q. fo_request out = Some q)"
  by (simp add: demo_delivery_simps)

lemma demo_second: "\<exists>out c. demo_delivery ''new'' 200 None = (Some out, c) \<and> (\<exists>q. fo_request out = Some q \<and> fq_token q = ''new'')"
  by (simp add: demo_delivery_simps)

theorem refused_token_renewed_witness:
  "\<exists>out c q. demo_delivery ''new'' 200 None = (Some out, c) \<and> fo_request out = Some q \<and> fq_token q = ''new'' \<and>
     (\<exists>expires. grants demo_gcp demo_source (fl_tokens (demo_call ''new'' 200)) (fq_token q) expires)"
proof -
  obtain out q where first: "demo_delivery ''old'' 401 None = (Some out, None)" "fo_request out = Some q"
    using demo_first by blast
  obtain out' c q' where second: "demo_delivery ''new'' 200 None = (Some out', c)" "fo_request out' = Some q'" "fq_token q' = ''new''"
    using demo_second by blast
  have "fl_send (demo_call ''old'' 401) q = Inr \<lparr>hr_status = 401, hr_headers = [], hr_body = []\<rparr>"
    by (simp add: demo_call_def)
  from refused_token_renewed [OF first(1) [unfolded demo_delivery_def] first(2) this _ second(1) [unfolded demo_delivery_def] second(2)]
  show ?thesis using second by auto
qed

end
