(* ===== verification/Startup.thy ===== *)
theory Startup
  imports Routes Fcm_Tokens Bigtable_Store
begin

text \<open>
  \<open>crates/webpush-server/src/main.rs\<close>, and \<open>Server::run\<close> and \<open>bridges_from_config\<close> of
  \<open>lib.rs\<close>: from the command line to a running node. Sockets, TLS material, the log subscriber
  and the platforms are the record \<open>machine\<close>; features \<open>fcm\<close>, \<open>apns\<close> and \<open>bigtable\<close> are on.
\<close>

section \<open>The bridges\<close>

text \<open>\<open>ma_fcm_send\<close> and \<open>ma_apns_send\<close> say what the \<open>k\<close>-th message handed to a bridge meets.\<close>

record ('key, 'tls) machine =
  ma_order :: iter_order
  ma_gcp :: "'key gcp_crates"
  ma_process :: process
  ma_client :: "duration \<Rightarrow> box_error + unit"
  ma_apns_client :: "duration \<Rightarrow> bool \<Rightarrow> box_error + unit"
  ma_read_pem :: "string \<Rightarrow> string + byte list"
  ma_apns_key :: "byte list \<Rightarrow> string + 'key"
  ma_fcm_send :: "nat \<Rightarrow> address \<Rightarrow> bridge_notification \<Rightarrow> bridge_error + unit"
  ma_apns_send :: "nat \<Rightarrow> address \<Rightarrow> bridge_notification \<Rightarrow> bridge_error + unit"
  ma_bind :: "socket_addr \<Rightarrow> box_error + unit"
  ma_tls :: "tls_config \<Rightarrow> box_error + 'tls"
  ma_logging :: "log_config \<Rightarrow> box_error + unit"
  ma_crates :: crates

definition fcm_bridge :: "('key, 'tls) machine \<Rightarrow> (string, 'key token_source \<times> fcm_app) hmap \<Rightarrow> bridge" where
  "fcm_bridge m apps = \<lparr>br_name = ''fcm'', br_has_app = \<lambda>i. hget apps i \<noteq> None, br_send = ma_fcm_send m\<rparr>"

definition apns_bridge :: "('key, 'tls) machine \<Rightarrow> (string, 'key apns_app) hmap \<Rightarrow> bridge" where
  "apns_bridge m apps = \<lparr>br_name = ''apns'', br_has_app = apns_has_app apps, br_send = ma_apns_send m\<rparr>"

definition bridges_from_config :: "('key, 'tls) machine \<Rightarrow> config \<Rightarrow> box_error + bridge list" where
  "bridges_from_config m cfg =
     (case (case bs_fcm (cf_bridges cfg) of
              None \<Rightarrow> Inr []
            | Some fcm \<Rightarrow> (case fcm_new (ma_order m) (ma_gcp m) (ma_process m) (ma_client m) fcm of
                Inl e \<Rightarrow> Inl e | Inr apps \<Rightarrow> Inr [fcm_bridge m apps])) of
        Inl e \<Rightarrow> Inl e
      | Inr out \<Rightarrow>
          (case bs_apns (cf_bridges cfg) of
             None \<Rightarrow> Inr out
           | Some apns \<Rightarrow> (case apns_new (ma_order m) (ma_read_pem m) (ma_apns_key m) (ma_apns_client m) apns of
               Inl e \<Rightarrow> Inl e | Inr apps \<Rightarrow> Inr (out @ [apns_bridge m apps]))))"

section \<open>The server\<close>

text \<open>Sockets the caller bound: whether there is an internal one among them.\<close>

record 's server =
  sv_cfg :: config
  sv_store :: "'s store"
  sv_bridges :: "bridge list"
  sv_listeners :: "bool option"

definition new_server :: "config \<Rightarrow> 's store \<Rightarrow> 's server" where
  "new_server cfg S = \<lparr>sv_cfg = cfg, sv_store = S, sv_bridges = [], sv_listeners = None\<rparr>"

definition add_bridge :: "bridge \<Rightarrow> 's server \<Rightarrow> 's server" where
  "add_bridge b sv = sv\<lparr>sv_bridges := sv_bridges sv @ [b]\<rparr>"

definition listeners :: "bool \<Rightarrow> 's server \<Rightarrow> 's server" where
  "listeners internal sv = sv\<lparr>sv_listeners := Some internal\<rparr>"

record 'tls listener_settings =
  ls_name :: string
  ls_tls :: "'tls option"
  ls_max_connections :: u64
  ls_handshake_timeout :: duration
  ls_router :: "route list"

text \<open>A node that serves: what it accepts on, its background loops, and how it will shut down.\<close>

record ('s, 'tls) running =
  ru_app :: "'s app"
  ru_listeners :: "'tls listener_settings list"
  ru_loops :: "(duration \<times> ('s node \<Rightarrow> 's node)) list"
  ru_drain_delay :: duration
  ru_timeout :: duration

text \<open>Whether there is an internal socket.\<close>

definition bind_sockets :: "('key, 'tls) machine \<Rightarrow> 's server \<Rightarrow> box_error + bool" where
  "bind_sockets m sv =
     (case sv_listeners sv of
        Some internal \<Rightarrow> Inr internal
      | None \<Rightarrow>
          (case ma_bind m (pc_listen (cf_public (sv_cfg sv))) of Inl e \<Rightarrow> Inl e | Inr _ \<Rightarrow>
           case cf_internal (sv_cfg sv) of
             None \<Rightarrow> Inr False
           | Some i \<Rightarrow> (case ma_bind m (in_listen i) of Inl e \<Rightarrow> Inl e | Inr _ \<Rightarrow> Inr True)))"

definition transposed :: "('e + 'a) option \<Rightarrow> 'e + 'a option" where
  "transposed x = (case x of None \<Rightarrow> Inr None | Some (Inl e) \<Rightarrow> Inl e | Some (Inr y) \<Rightarrow> Inr (Some y))"

definition serving :: "'s app \<Rightarrow> 'tls option \<Rightarrow> bool \<Rightarrow> ('s, 'tls) running" where
  "serving app tls internal =
     (let public = cf_public (ap_cfg app) in
      \<lparr>ru_app = app,
       ru_listeners = \<lparr>ls_name = ''public'', ls_tls = tls, ls_max_connections = pc_max_connections public,
           ls_handshake_timeout = pc_handshake_timeout public, ls_router = public_router app\<rparr> #
         (if internal then [\<lparr>ls_name = ''internal'', ls_tls = None, ls_max_connections = 1024,
           ls_handshake_timeout = pc_handshake_timeout public, ls_router = internal_router\<rparr>] else []),
       ru_loops = (if serves_endpoint (cf_role (ap_cfg app)) then spawn app else []),
       ru_drain_delay = sh_drain_delay (cf_shutdown (ap_cfg app)), ru_timeout = sh_timeout (cf_shutdown (ap_cfg app))\<rparr>)"

definition run_server :: "('key, 'tls) machine \<Rightarrow> 's server \<Rightarrow> box_error + ('s, 'tls) running" where
  "run_server m sv =
     (case validate (sv_cfg sv) of Inl e \<Rightarrow> Inl e | Inr _ \<Rightarrow>
      case bind_sockets m sv of Inl e \<Rightarrow> Inl e | Inr internal \<Rightarrow>
      case transposed (map_option (ma_tls m) (pc_tls (cf_public (sv_cfg sv)))) of Inl e \<Rightarrow> Inl e | Inr tls \<Rightarrow>
      case new_app (ma_crates m) (ma_client m) (sv_cfg sv) (sv_store sv) (sv_bridges sv) of Inl e \<Rightarrow> Inl e | Inr app \<Rightarrow>
        Inr (serving app tls internal))"

section \<open>The binary\<close>

text \<open>\<open>std::env::args().skip(1)\<close> is the list.\<close>

fun config_path :: "(string \<Rightarrow> string option) \<Rightarrow> string list \<Rightarrow> box_error + string option" where
  "config_path env [] = Inr (env ''WEBPUSH_CONFIG'')"
| "config_path env [a] = Inl (BoxError ''usage: webpush-server [--config <file>]'')"
| "config_path env (a # path # rest) =
     (if a = ''--config'' then Inr (Some path) else Inl (BoxError ''usage: webpush-server [--config <file>]''))"

datatype store_choice = MemoryStore | BigtableStore bigtable_settings bool

text \<open>The settings, and whether the table is created first.\<close>

definition choose_store :: "config \<Rightarrow> box_error + store_choice" where
  "choose_store cfg =
     (case cf_store cfg of
        Memory \<Rightarrow> if cf_cluster cfg \<noteq> None then Inl (BoxError ''nodes of a cluster cannot share the memory store'')
                  else Inr MemoryStore
      | Bigtable bt \<Rightarrow> Inr (BigtableStore
          \<lparr>bset_endpoint = bt_endpoint bt, bset_project = bt_project bt, bset_instance = bt_instance bt, bset_table = bt_table bt,
           bset_max_ttl = to_u32 (as_secs (pu_max_ttl (cf_push cfg))),
           bset_credentials_file = bt_credentials_file bt, bset_app_profile = bt_app_profile bt\<rparr> (bt_create_table bt)))"

definition open_bigtable :: "'t grpc_client \<Rightarrow> bigtable_settings \<Rightarrow> bool \<Rightarrow> ('t, 't bigtable_store) prog" where
  "open_bigtable cl cfg ensure = bind_prog (if ensure then ensure_table cl cfg else done_with ()) (\<lambda>_. bt_connect cl cfg)"

text \<open>\<open>load\<close> reads the settings from a file and the environment.\<close>

definition configure ::
  "('key, 'tls) machine \<Rightarrow> (string option \<Rightarrow> box_error + config) \<Rightarrow> string list \<Rightarrow> box_error + (config \<times> store_choice)" where
  "configure m load args =
     (case config_path (pr_env (ma_process m)) args of Inl e \<Rightarrow> Inl e | Inr path \<Rightarrow>
      case load_config (\<lambda>_. load path) of Inl e \<Rightarrow> Inl e | Inr cfg \<Rightarrow>
      case ma_logging m (cf_log cfg) of Inl e \<Rightarrow> Inl e | Inr _ \<Rightarrow>
      case choose_store cfg of Inl e \<Rightarrow> Inl e | Inr c \<Rightarrow> Inr (cfg, c))"

definition run_node :: "('key, 'tls) machine \<Rightarrow> config \<Rightarrow> 's store \<Rightarrow> box_error + ('s, 'tls) running" where
  "run_node m cfg S =
     (case bridges_from_config m cfg of Inl e \<Rightarrow> Inl e | Inr bridges \<Rightarrow>
        run_server m (fold add_bridge bridges (new_server cfg S)))"

section \<open>What a started node is\<close>

lemma bridge_names:
  assumes "bridges_from_config m cfg = Inr bs"
  shows "map br_name bs = (if bs_fcm (cf_bridges cfg) = None then [] else [''fcm'']) @
    (if bs_apns (cf_bridges cfg) = None then [] else [''apns''])"
  using assms
  by (auto simp: bridges_from_config_def fcm_bridge_def apns_bridge_def split: option.splits sum.splits)

lemma bridges_by_name_Inr:
  "bridges_by_name bs by_name = Inr loaded \<Longrightarrow>
   (hget loaded i \<noteq> None \<longleftrightarrow> i \<in> br_name ` set bs \<or> hget by_name i \<noteq> None)"
  by (induction bs arbitrary: by_name) (auto split: if_splits)

lemma hmap_empty: "m = [] \<longleftrightarrow> (\<forall>i. hget m i = None)"
  by (cases m) (auto simp: hget_def map_of_eq_None_iff)

lemma add_bridges: "fold add_bridge bs sv = sv\<lparr>sv_bridges := sv_bridges sv @ bs\<rparr>"
  by (induction bs arbitrary: sv) (simp_all add: add_bridge_def)

lemma new_app_Inr:
  assumes "new_app x client cfg S bs = Inr app"
  shows "ap_cfg app = cfg" and "ap_store app = S" and "ap_crates app = x"
    and "ap_secrets app = new_secrets (rg_secret_keys (cf_registration cfg))"
    and "ap_cluster app = None \<longleftrightarrow> cf_cluster cfg = None" and "bridges_by_name bs [] = Inr (ap_bridges app)"
  using assms by (auto simp: new_app_def split: option.splits sum.splits)

lemma run_server_Inr:
  assumes "run_server m sv = Inr node" and "sv_listeners sv = None"
  obtains app tls where "new_app (ma_crates m) (ma_client m) (sv_cfg sv) (sv_store sv) (sv_bridges sv) = Inr app"
    and "node = serving app tls (cf_internal (sv_cfg sv) \<noteq> None)" and "tls = None \<longleftrightarrow> pc_tls (cf_public (sv_cfg sv)) = None"
proof -
  obtain internal tls app where node: "validate (sv_cfg sv) = Inr ()" "bind_sockets m sv = Inr internal"
    "transposed (map_option (ma_tls m) (pc_tls (cf_public (sv_cfg sv)))) = Inr tls"
    "new_app (ma_crates m) (ma_client m) (sv_cfg sv) (sv_store sv) (sv_bridges sv) = Inr app" "node = serving app tls internal"
    using assms(1) by (auto simp: run_server_def split: sum.splits)
  moreover have "internal = (cf_internal (sv_cfg sv) \<noteq> None)"
    using node(2) assms(2) by (auto simp: bind_sockets_def split: sum.splits option.splits)
  moreover have "tls = None \<longleftrightarrow> pc_tls (cf_public (sv_cfg sv)) = None"
    using node(3) by (auto simp: transposed_def split: option.splits sum.splits)
  ultimately show thesis by (intro that [of app tls]) simp_all
qed

lemma configure_Inr:
  assumes "configure m load args = Inr (cfg, choice)"
  shows "validate cfg = Inr ()" and "choose_store cfg = Inr choice"
  using assms by (auto simp: configure_def load_config_def split: sum.splits)

text \<open>
  C17. A node the binary starts serves its public routes with at least one connection, with TLS
  exactly if configured, and the delivery route on an internal listener exactly if configured.
  If it shares a role, it is linked to a cluster, reachable there, and not on a memory store. It
  knows exactly the configured bridges, can then sign every registration, and reaps expired
  messages exactly if application servers may push to it.
\<close>

theorem node_started:
  assumes "configure m load args = Inr (cfg, choice)" and "run_node m cfg S = Inr node"
  shows "(\<exists>public rest. ru_listeners node = public # rest \<and> ls_router public = public_router (ru_app node) \<and>
      ls_max_connections public \<noteq> 0 \<and> (ls_tls public = None \<longleftrightarrow> pc_tls (cf_public cfg) = None) \<and>
      (rest = [] \<longleftrightarrow> cf_internal cfg = None) \<and> (\<forall>l\<in>set rest. ls_router l = internal_router \<and> ls_max_connections l = 1024)) \<and>
    (cf_role cfg \<noteq> All \<longrightarrow> ap_cluster (ru_app node) \<noteq> None \<and> length (ru_listeners node) = 2 \<and> choice \<noteq> MemoryStore) \<and>
    (\<forall>i. hget (ap_bridges (ru_app node)) i \<noteq> None \<longleftrightarrow>
       i = ''fcm'' \<and> bs_fcm (cf_bridges cfg) \<noteq> None \<or> i = ''apns'' \<and> bs_apns (cf_bridges cfg) \<noteq> None) \<and>
    (ap_bridges (ru_app node) \<noteq> [] \<longrightarrow>
       (\<forall>uaid. issue (ap_crates (ru_app node)) (ap_secrets (ru_app node)) uaid \<noteq> None)) \<and>
    (ru_loops node = [] \<longleftrightarrow> \<not> serves_endpoint (cf_role cfg))"
proof -
  obtain bs where bs: "bridges_from_config m cfg = Inr bs" and run: "run_server m (fold add_bridge bs (new_server cfg S)) = Inr node"
    using assms(2) by (auto simp: run_node_def split: sum.splits)
  obtain app tls where app: "new_app (ma_crates m) (ma_client m) cfg S bs = Inr app"
    and node: "node = serving app tls (cf_internal cfg \<noteq> None)" and tls: "tls = None \<longleftrightarrow> pc_tls (cf_public cfg) = None"
    using run_server_Inr [OF run] by (auto simp: add_bridges new_server_def)
  note valid = validateD [OF configure_Inr(1) [OF assms(1)]] and facts = new_app_Inr [OF app]
  have known: "hget (ap_bridges app) i \<noteq> None \<longleftrightarrow>
      i = ''fcm'' \<and> bs_fcm (cf_bridges cfg) \<noteq> None \<or> i = ''apns'' \<and> bs_apns (cf_bridges cfg) \<noteq> None" for i
    using bridges_by_name_Inr [OF facts(6), of i] bridge_names [OF bs]
    by (simp add: hget_def flip: set_map)
  have cluster: "ap_cluster app \<noteq> None \<and> cf_internal cfg \<noteq> None \<and> choice \<noteq> MemoryStore" if "cf_role cfg \<noteq> All"
    using valid(8) that facts(5) configure_Inr(2) [OF assms(1)]
    by (auto simp: validate_cluster_def choose_store_def split: option.splits if_splits store_config.splits)
  have signs: "issue (ap_crates app) (ap_secrets app) uaid \<noteq> None" if "ap_bridges app \<noteq> []" for uaid
  proof -
    have "any_bridge (cf_bridges cfg)" using that known unfolding hmap_empty any_bridge_def by auto
    then show ?thesis
      using valid(9) facts(4) by (cases "rg_secret_keys (cf_registration cfg)") (auto simp: issue_def new_secrets_def)
  qed
  have loops: "ru_loops node = [] \<longleftrightarrow> \<not> serves_endpoint (cf_role cfg)" by (simp add: node serving_def Let_def facts(1) spawn_def)
  show ?thesis using known signs cluster loops valid(6) tls by (auto simp: node serving_def Let_def facts(1))
qed

section \<open>A node\<close>

definition demo_cluster_config :: config where
  "demo_cluster_config = (default_config ''https://push.example.net'')\<lparr>cf_role := Endpoint,
     cf_internal := Some \<lparr>in_listen = ([10, 0, 0, 1], 8081)\<rparr>,
     cf_cluster := Some \<lparr>cl_node_url = ''http://10.0.0.1:8081'', cl_token = ''0123456789abcdef'', cl_notify_timeout = from_secs 5\<rparr>,
     cf_registration := \<lparr>rg_secret_keys = [replicate 32 (CHR ''k'')]\<rparr>,
     cf_bridges := \<lparr>bs_fcm = Some \<lparr>fc_apps = [], fc_timeout = from_secs 10\<rparr>, bs_apns = None\<rparr>,
     cf_store := Bigtable \<lparr>bt_endpoint = ''http://127.0.0.1:8086'', bt_project = ''p'', bt_instance = ''i'', bt_table = ''t'',
       bt_create_table = False, bt_credentials_file = None, bt_app_profile = None\<rparr>\<rparr>"

definition demo_machine :: "(unit, unit) machine" where
  "demo_machine = \<lparr>ma_order = forward_order, ma_gcp = demo_gcp,
     ma_process = \<lparr>pr_env = \<lambda>_. None, pr_exists = \<lambda>_. False, pr_read = \<lambda>_. Inl ''no file''\<rparr>,
     ma_client = \<lambda>_. Inr (), ma_apns_client = \<lambda>_ _. Inr (), ma_read_pem = \<lambda>_. Inl ''no file'', ma_apns_key = \<lambda>_. Inr (),
     ma_fcm_send = \<lambda>_ _ _. Inr (), ma_apns_send = \<lambda>_ _ _. Inr (), ma_bind = \<lambda>_. Inr (), ma_tls = \<lambda>_. Inr (),
     ma_logging = \<lambda>_. Inr (), ma_crates = demo_crates\<rparr>"

lemma demo_valid: "validate demo_cluster_config = Inr ()"
  by (simp add: demo_cluster_config_def default_config_def validate_def validate_cluster_def any_bridge_def public_default_def
      push_default_def websocket_default_def trim_end_by_def Let_def)

lemma demo_configured: "\<exists>choice. configure demo_machine (\<lambda>_. Inr demo_cluster_config) [''--config'', ''webpush.toml''] =
    Inr (demo_cluster_config, choice)"
  using demo_valid by (simp add: configure_def load_config_def demo_machine_def choose_store_def) (simp add: demo_cluster_config_def)

lemma demo_bridges: "\<exists>b. bridges_from_config demo_machine demo_cluster_config = Inr [b]"
  by (simp add: bridges_from_config_def fcm_new_def hiter_def forward_order_def demo_machine_def demo_cluster_config_def default_config_def)

lemma demo_machine_simps: "ma_bind demo_machine a = Inr ()" "ma_client demo_machine d = Inr ()"
  by (simp_all add: demo_machine_def)

lemma demo_cluster_simps: "pc_tls (cf_public demo_cluster_config) = None"
  "cf_cluster demo_cluster_config =
     Some \<lparr>cl_node_url = ''http://10.0.0.1:8081'', cl_token = ''0123456789abcdef'', cl_notify_timeout = from_secs 5\<rparr>"
  by (simp_all add: demo_cluster_config_def default_config_def public_default_def)

lemma demo_runs: "\<exists>node. run_node demo_machine demo_cluster_config S = Inr node \<and> ap_bridges (ru_app node) \<noteq> []"
proof -
  obtain b where b: "bridges_from_config demo_machine demo_cluster_config = Inr [b]" using demo_bridges by blast
  then show ?thesis
    by (auto simp: run_node_def add_bridge_def new_server_def run_server_def demo_valid bind_sockets_def demo_machine_simps
        demo_cluster_simps transposed_def new_app_def new_link_def serving_def hmap_empty hget_def [of "[]"] Let_def split: option.split)
qed

lemma node_started_witness: "\<exists>node :: (state, unit) running. run_node demo_machine demo_cluster_config
      (mem_store url_base64 (Abs_ordering forward_order)) = Inr node \<and> length (ru_listeners node) = 2 \<and>
    issue (ap_crates (ru_app node)) (ap_secrets (ru_app node)) ''u'' \<noteq> None"
proof -
  obtain choice where conf: "configure demo_machine (\<lambda>_. Inr demo_cluster_config) [''--config'', ''webpush.toml''] =
      Inr (demo_cluster_config, choice)" using demo_configured by blast
  obtain node :: "(state, unit) running" where run: "run_node demo_machine demo_cluster_config
      (mem_store url_base64 (Abs_ordering forward_order)) = Inr node" "ap_bridges (ru_app node) \<noteq> []"
    using demo_runs by blast
  have "cf_role demo_cluster_config \<noteq> All" by (simp add: demo_cluster_config_def)
  with node_started [OF conf run(1)] run(2) have "length (ru_listeners node) = 2"
    "issue (ap_crates (ru_app node)) (ap_secrets (ru_app node)) ''u'' \<noteq> None" by blast+
  with run(1) show ?thesis by blast
qed

end
