(* ===== verification/Serving.thy ===== *)
theory Serving
  imports Startup
begin

text \<open>
  \<open>crates/webpush-server/src/transport.rs\<close> and \<open>shutdown.rs\<close>: the accept loops with their
  connection permits, and the shutdown sequence over the tasks of a node. TCP, TLS and HTTP are
  the choice of which step a connection takes; hyper's part of a graceful shutdown, which
  reads no new request and closes once those in flight are answered, is a rule of \<open>conn_step\<close>.
\<close>

section \<open>Connections\<close>

text \<open>
  A connection task, the requests it is answering, and the session upgraded from it. HTTP/1.1
  upgrades a connection at most once. The permit is an \<open>Arc\<close> shared by the task and the session.
\<close>

datatype conn_phase = Handshake | Serving | Closing | Ended

record conn =
  cn_phase :: conn_phase
  cn_requests :: nat
  cn_upgraded :: bool
  cn_session :: bool

definition new_conn :: "bool \<Rightarrow> conn" where
  "new_conn tls = \<lparr>cn_phase = (if tls then Handshake else Serving), cn_requests = 0, cn_upgraded = False, cn_session = False\<rparr>"

definition holds_permit :: "conn \<Rightarrow> bool" where
  "holds_permit c \<longleftrightarrow> cn_phase c \<noteq> Ended \<or> cn_session c"

text \<open>A handshake fails by itself or by its timeout; the peer may end a connection at any time.\<close>

inductive conn_step :: "bool \<Rightarrow> conn \<Rightarrow> conn \<Rightarrow> bool" for stopping :: bool where
  handshake: "cn_phase c = Handshake \<Longrightarrow> conn_step stopping c (c\<lparr>cn_phase := Serving\<rparr>)"
| handshake_failed: "cn_phase c = Handshake \<Longrightarrow> conn_step stopping c (c\<lparr>cn_phase := Ended\<rparr>)"
| request: "cn_phase c = Serving \<Longrightarrow> conn_step stopping c (c\<lparr>cn_requests := Suc (cn_requests c)\<rparr>)"
| answered: "cn_requests c = Suc n \<Longrightarrow> conn_step stopping c (c\<lparr>cn_requests := n\<rparr>)"
| upgraded: "cn_requests c = Suc n \<Longrightarrow> \<not> cn_upgraded c \<Longrightarrow>
    conn_step stopping c (c\<lparr>cn_requests := n, cn_upgraded := True, cn_session := True\<rparr>)"
| peer_gone: "cn_phase c \<in> {Serving, Closing} \<Longrightarrow> conn_step stopping c (c\<lparr>cn_phase := Ended, cn_requests := 0\<rparr>)"
| graceful: "cn_phase c = Serving \<Longrightarrow> stopping \<Longrightarrow> conn_step stopping c (c\<lparr>cn_phase := Closing\<rparr>)"
| closed: "cn_phase c = Closing \<Longrightarrow> cn_requests c = 0 \<Longrightarrow> conn_step stopping c (c\<lparr>cn_phase := Ended\<rparr>)"
| session_ended: "cn_session c \<Longrightarrow> conn_step stopping c (c\<lparr>cn_session := False\<rparr>)"

section \<open>The accept loop\<close>

text \<open>After a failed \<open>accept\<close> the loop sleeps with its permit and drops it when it goes on.\<close>

datatype accept_phase = AwaitPermit | AwaitAccept | Backoff | LoopEnded

record listener_state =
  lt_tls :: bool
  lt_free :: nat
  lt_loop :: accept_phase
  lt_conns :: "conn list"

definition new_listener :: "'tls listener_settings \<Rightarrow> listener_state" where
  "new_listener l = \<lparr>lt_tls = (ls_tls l \<noteq> None), lt_free = unat (ls_max_connections l), lt_loop = AwaitPermit, lt_conns = []\<rparr>"

text \<open>Where both branches of a \<open>select!\<close> are ready either may be taken.\<close>

inductive listener_step :: "bool \<Rightarrow> listener_state \<Rightarrow> listener_state \<Rightarrow> bool" for stopping :: bool where
  permit: "lt_loop l = AwaitPermit \<Longrightarrow> lt_free l = Suc n \<Longrightarrow> listener_step stopping l (l\<lparr>lt_loop := AwaitAccept, lt_free := n\<rparr>)"
| stop_waiting: "lt_loop l = AwaitPermit \<Longrightarrow> stopping \<Longrightarrow> listener_step stopping l (l\<lparr>lt_loop := LoopEnded\<rparr>)"
| accepted: "lt_loop l = AwaitAccept \<Longrightarrow>
    listener_step stopping l (l\<lparr>lt_loop := AwaitPermit, lt_conns := lt_conns l @ [new_conn (lt_tls l)]\<rparr>)"
| accept_failed: "lt_loop l = AwaitAccept \<Longrightarrow> listener_step stopping l (l\<lparr>lt_loop := Backoff\<rparr>)"
| retry: "lt_loop l = Backoff \<Longrightarrow> listener_step stopping l (l\<lparr>lt_loop := AwaitPermit, lt_free := Suc (lt_free l)\<rparr>)"
| stop_accepting: "lt_loop l = AwaitAccept \<Longrightarrow> stopping \<Longrightarrow>
    listener_step stopping l (l\<lparr>lt_loop := LoopEnded, lt_free := Suc (lt_free l)\<rparr>)"
| connection: "i < length (lt_conns l) \<Longrightarrow> conn_step stopping (lt_conns l ! i) c \<Longrightarrow>
    listener_step stopping l (l\<lparr>lt_conns := (lt_conns l)[i := c],
      lt_free := (if holds_permit (lt_conns l ! i) \<and> \<not> holds_permit c then Suc (lt_free l) else lt_free l)\<rparr>)"

section \<open>The shutdown sequence\<close>

text \<open>\<open>draining\<close> and \<open>stopping\<close> are tokens of \<open>Shutdown\<close>; \<open>Exited\<close> says whether the wait timed out.\<close>

datatype shutdown_phase = Running | Draining | Stopping | Exited bool

fun is_draining :: "shutdown_phase \<Rightarrow> bool" where
  "is_draining Running = False"
| "is_draining ph = True"

fun is_stopping :: "shutdown_phase \<Rightarrow> bool" where
  "is_stopping Running = False"
| "is_stopping Draining = False"
| "is_stopping ph = True"

text \<open>The tracked tasks: accept loops, connections, sessions and background loops.\<close>

record service =
  se_listeners :: "listener_state list"
  se_loops :: nat
  se_phase :: shutdown_phase

definition start_service :: "('s, 'tls) running \<Rightarrow> service" where
  "start_service node = \<lparr>se_listeners = map new_listener (ru_listeners node), se_loops = length (ru_loops node), se_phase = Running\<rparr>"

definition idle :: "listener_state \<Rightarrow> bool" where
  "idle l \<longleftrightarrow> lt_loop l = LoopEnded \<and> (\<forall>c\<in>set (lt_conns l). cn_phase c = Ended \<and> \<not> cn_session c)"

inductive service_step :: "service \<Rightarrow> service \<Rightarrow> bool" where
  listener: "i < length (se_listeners s) \<Longrightarrow> se_phase s \<in> {Running, Draining, Stopping} \<Longrightarrow>
    listener_step (is_stopping (se_phase s)) (se_listeners s ! i) l \<Longrightarrow>
    service_step s (s\<lparr>se_listeners := (se_listeners s)[i := l]\<rparr>)"
| loop_ends: "se_loops s = Suc n \<Longrightarrow> se_phase s = Stopping \<Longrightarrow> service_step s (s\<lparr>se_loops := n\<rparr>)"
| signal: "se_phase s = Running \<Longrightarrow> service_step s (s\<lparr>se_phase := Draining\<rparr>)"
| drained: "se_phase s = Draining \<Longrightarrow> service_step s (s\<lparr>se_phase := Stopping\<rparr>)"
| finished: "se_phase s = Stopping \<Longrightarrow> (\<forall>l\<in>set (se_listeners s). idle l) \<Longrightarrow> se_loops s = 0 \<Longrightarrow>
    service_step s (s\<lparr>se_phase := Exited False\<rparr>)"
| timed_out: "se_phase s = Stopping \<Longrightarrow> service_step s (s\<lparr>se_phase := Exited True\<rparr>)"

abbreviation runs_to :: "service \<Rightarrow> service \<Rightarrow> bool" where
  "runs_to \<equiv> service_step\<^sup>*\<^sup>*"

section \<open>Permits\<close>

definition loop_permits :: "listener_state \<Rightarrow> nat" where
  "loop_permits l = (if lt_loop l = AwaitAccept \<or> lt_loop l = Backoff then 1 else 0)"

definition held_permits :: "listener_state \<Rightarrow> nat" where
  "held_permits l = length (filter holds_permit (lt_conns l))"

definition all_permits :: "listener_state \<Rightarrow> nat" where
  "all_permits l = lt_free l + loop_permits l + held_permits l"

lemma length_filter_update:
  assumes "i < length xs"
  shows "length (filter P (xs[i := x])) + (if P (xs ! i) then 1 else 0) = length (filter P xs) + (if P x then 1 else 0)"
proof -
  have xs: "xs = take i xs @ xs ! i # drop (Suc i) xs" by (rule id_take_nth_drop [OF assms])
  have "filter P xs = filter P (take i xs @ xs ! i # drop (Suc i) xs)" using xs by simp
  moreover have "xs[i := x] = take i xs @ x # drop (Suc i) xs" by (rule upd_conv_take_nth_drop [OF assms])
  ultimately show ?thesis by simp
qed

text \<open>Only an open connection answers requests.\<close>

definition sound :: "conn \<Rightarrow> bool" where
  "sound c \<longleftrightarrow> (cn_phase c \<in> {Handshake, Ended} \<longrightarrow> cn_requests c = 0)"

lemma conn_step_sound: "conn_step stopping c c' \<Longrightarrow> sound c \<Longrightarrow> sound c' \<and> (holds_permit c' \<longrightarrow> holds_permit c)"
  by (induction rule: conn_step.induct) (auto simp: sound_def holds_permit_def)

definition accounted :: "nat \<Rightarrow> listener_state \<Rightarrow> bool" where
  "accounted n l \<longleftrightarrow> all_permits l = n \<and> (\<forall>c\<in>set (lt_conns l). sound c)"

lemma listener_step_accounted: "listener_step stopping l l' \<Longrightarrow> accounted n l \<Longrightarrow> accounted n l'"
proof (induction rule: listener_step.induct)
  case (connection i l c)
  then have sound: "sound (lt_conns l ! i)" by (simp add: accounted_def)
  note kept = conn_step_sound [OF connection.hyps(2) sound]
  have "\<forall>c'\<in>set ((lt_conns l)[i := c]). sound c'"
    using connection.prems kept set_update_subset_insert [of "lt_conns l" i c] by (auto simp: accounted_def)
  then show ?case
    using connection.prems kept length_filter_update [OF connection.hyps(1), of holds_permit c]
    by (auto simp: accounted_def all_permits_def loop_permits_def held_permits_def split: if_splits)
qed (auto simp: accounted_def all_permits_def loop_permits_def held_permits_def sound_def new_conn_def holds_permit_def split: if_splits)

lemma service_step_accounted:
  "service_step s t \<Longrightarrow> list_all2 accounted ns (se_listeners s) \<Longrightarrow> list_all2 accounted ns (se_listeners t)"
proof (induction rule: service_step.induct)
  case (listener i s l)
  then have "accounted (ns ! i) (se_listeners s ! i)" by (simp add: list_all2_conv_all_nth)
  from listener_step_accounted [OF listener.hyps(3) this] listener.prems listener.hyps(1) show ?case
    by (auto simp: list_all2_conv_all_nth nth_list_update)
qed simp_all

lemma runs_to_accounted:
  assumes "runs_to (start_service node) s"
  shows "list_all2 accounted (map (\<lambda>l. unat (ls_max_connections l)) (ru_listeners node)) (se_listeners s)"
  using assms
proof (induction rule: rtranclp_induct)
  case base
  show ?case
    by (auto simp: start_service_def list_all2_conv_all_nth accounted_def all_permits_def loop_permits_def held_permits_def new_listener_def)
qed (rule service_step_accounted)

lemma open_connections:
  "length (filter (\<lambda>c. cn_phase c \<noteq> Ended) cs) \<le> length (filter holds_permit cs) \<and>
   length (filter cn_session cs) \<le> length (filter holds_permit cs)"
  by (induction cs) (auto simp: holds_permit_def)

text \<open>
  C18. While a node serves, each listener accounts for every permit: those free, the one its accept
  loop waits with, and those of its connections, each kept until both the connection and the
  session upgraded from it have ended. So neither its open connections nor its open sessions
  are ever more than its \<open>max_connections\<close>, and no permit is lost.
\<close>

theorem connections_bounded:
  assumes "runs_to (start_service node) s" and "i < length (ru_listeners node)"
  shows "let l = se_listeners s ! i; most = unat (ls_max_connections (ru_listeners node ! i)) in
    lt_free l + loop_permits l + length (filter holds_permit (lt_conns l)) = most \<and>
    length (filter (\<lambda>c. cn_phase c \<noteq> Ended) (lt_conns l)) \<le> most \<and>
    length (filter cn_session (lt_conns l)) \<le> most"
proof -
  have "all_permits (se_listeners s ! i) = unat (ls_max_connections (ru_listeners node ! i))"
    using runs_to_accounted [OF assms(1)] assms(2) by (auto simp: list_all2_conv_all_nth accounted_def)
  then show ?thesis using open_connections [of "lt_conns (se_listeners s ! i)"] by (simp add: all_permits_def held_permits_def Let_def)
qed

section \<open>Shutting down\<close>

text \<open>What is left to do once \<open>stopping\<close> is cancelled.\<close>

definition conn_work :: "conn \<Rightarrow> nat" where
  "conn_work c = (case cn_phase c of Handshake \<Rightarrow> 1 | Serving \<Rightarrow> 2 | Closing \<Rightarrow> 1 | Ended \<Rightarrow> 0) + cn_requests c + of_bool (cn_session c)"

definition loop_work :: "listener_state \<Rightarrow> nat" where
  "loop_work l = (case lt_loop l of AwaitPermit \<Rightarrow> 1 | AwaitAccept \<Rightarrow> 1 | Backoff \<Rightarrow> 2 | LoopEnded \<Rightarrow> 0)"

definition listener_work :: "listener_state \<Rightarrow> nat" where
  "listener_work l = loop_work l + sum_list (map conn_work (lt_conns l))"

definition work :: "service \<Rightarrow> nat" where
  "work s = se_loops s + sum_list (map listener_work (se_listeners s))"

lemma sum_list_update_less:
  "i < length xs \<Longrightarrow> f x < f (xs ! i) \<Longrightarrow> sum_list (map f (xs[i := x])) < sum_list (map f xs)" for f :: "'a \<Rightarrow> nat"
proof (induction xs arbitrary: i)
  case (Cons y ys)
  then show ?case by (cases i) auto
qed simp

lemma progressI: "R x y \<Longrightarrow> f y < f x \<Longrightarrow> \<exists>y. R x y \<and> f y < f x" for f :: "'a \<Rightarrow> nat"
  by blast

lemma conn_progress:
  assumes "cn_phase c \<noteq> Ended \<or> cn_session c"
  shows "\<exists>c'. conn_step True c c' \<and> conn_work c' < conn_work c"
proof (cases "cn_phase c")
  case Handshake
  from conn_step.handshake_failed [OF Handshake, of True] show ?thesis by (rule progressI) (simp add: conn_work_def Handshake)
next
  case Serving
  from conn_step.graceful [OF Serving TrueI] show ?thesis by (rule progressI) (simp add: conn_work_def Serving)
next
  case Closing
  show ?thesis
  proof (cases "cn_requests c")
    case 0
    from conn_step.closed [OF Closing this, of True] show ?thesis by (rule progressI) (simp_all add: conn_work_def Closing)
  next
    case (Suc n)
    from conn_step.answered [OF Suc, of True] show ?thesis by (rule progressI) (simp add: conn_work_def Suc)
  qed
next
  case Ended
  with assms have "cn_session c" by simp
  from conn_step.session_ended [OF this, of True] show ?thesis by (rule progressI) (simp_all add: conn_work_def \<open>cn_session c\<close>)
qed

lemma listener_progress:
  assumes "\<not> idle l"
  shows "\<exists>l'. listener_step True l l' \<and> listener_work l' < listener_work l"
proof (cases "lt_loop l")
  case AwaitPermit
  from listener_step.stop_waiting [OF AwaitPermit TrueI] show ?thesis by (rule progressI) (simp add: listener_work_def loop_work_def AwaitPermit)
next
  case AwaitAccept
  from listener_step.stop_accepting [OF AwaitAccept TrueI] show ?thesis by (rule progressI) (simp add: listener_work_def loop_work_def AwaitAccept)
next
  case Backoff
  from listener_step.retry [OF Backoff, of True] show ?thesis by (rule progressI) (simp add: listener_work_def loop_work_def Backoff)
next
  case LoopEnded
  with assms obtain c where "c \<in> set (lt_conns l)" and left: "cn_phase c \<noteq> Ended \<or> cn_session c"
    by (auto simp: idle_def)
  then obtain i where i: "i < length (lt_conns l)" "lt_conns l ! i = c" by (auto simp: in_set_conv_nth)
  obtain c' where c': "conn_step True c c'" "conn_work c' < conn_work c" using conn_progress [OF left] by blast
  show ?thesis
    by (rule progressI, rule listener_step.connection [OF i(1)], unfold i(2), rule c'(1))
      (use i c' in \<open>simp add: listener_work_def loop_work_def sum_list_update_less\<close>)
qed

lemma service_progress:
  assumes "se_phase s = Stopping" and left: "\<not> ((\<forall>l\<in>set (se_listeners s). idle l) \<and> se_loops s = 0)"
  shows "\<exists>t. service_step s t \<and> work t < work s \<and> se_phase t = Stopping"
proof (cases "se_loops s")
  case (Suc n)
  have "work (s\<lparr>se_loops := n\<rparr>) < work s" by (simp add: work_def Suc)
  with service_step.loop_ends [OF Suc assms(1)] assms(1) show ?thesis by auto
next
  case 0
  with left obtain l where "l \<in> set (se_listeners s)" and left: "\<not> idle l" by auto
  then obtain i where i: "i < length (se_listeners s)" "se_listeners s ! i = l" by (auto simp: in_set_conv_nth)
  obtain l' where l': "listener_step True l l'" "listener_work l' < listener_work l" using listener_progress [OF left] by blast
  have "work (s\<lparr>se_listeners := (se_listeners s)[i := l']\<rparr>) < work s" using i l'(2) by (simp add: work_def sum_list_update_less)
  moreover have "service_step s (s\<lparr>se_listeners := (se_listeners s)[i := l']\<rparr>)"
    using i l'(1) assms(1) by (intro service_step.listener) simp_all
  ultimately show ?thesis using assms(1) by auto
qed

lemma stopping_finishes:
  "se_phase s = Stopping \<Longrightarrow> \<exists>t. runs_to s t \<and> se_phase t = Exited False \<and> (\<forall>l\<in>set (se_listeners t). idle l) \<and> se_loops t = 0"
proof (induction "work s" arbitrary: s rule: less_induct)
  case less
  show ?case
  proof (cases "(\<forall>l\<in>set (se_listeners s). idle l) \<and> se_loops s = 0")
    case True
    with less.prems have "service_step s (s\<lparr>se_phase := Exited False\<rparr>)" by (intro service_step.finished) simp_all
    with True show ?thesis by (intro exI [of _ "s\<lparr>se_phase := Exited False\<rparr>"]) auto
  next
    case False
    obtain t where t: "service_step s t" "work t < work s" "se_phase t = Stopping"
      using service_progress [OF less.prems False] by blast
    from less.hyps [OF t(2,3)] t(1) show ?thesis by (meson converse_rtranclp_into_rtranclp)
  qed
qed

lemma exited_idle:
  "service_step s t \<Longrightarrow> (se_phase s = Exited False \<longrightarrow> (\<forall>l\<in>set (se_listeners s). idle l) \<and> se_loops s = 0) \<Longrightarrow>
   (se_phase t = Exited False \<longrightarrow> (\<forall>l\<in>set (se_listeners t). idle l) \<and> se_loops t = 0)"
  by (induction rule: service_step.induct) auto

lemma runs_to_exited:
  "runs_to (start_service node) s \<Longrightarrow> se_phase s = Exited False \<Longrightarrow> (\<forall>l\<in>set (se_listeners s). idle l) \<and> se_loops s = 0"
proof (induction rule: rtranclp_induct)
  case base
  then show ?case by (simp add: start_service_def)
next
  case (step s t)
  then show ?case using exited_idle by blast
qed


section \<open>A session that outlives its connection\<close>

definition demo_running :: "(state, unit) running" where
  "demo_running = \<lparr>ru_app = demo_app, ru_listeners = [\<lparr>ls_name = ''public'', ls_tls = Some (), ls_max_connections = 1,
     ls_handshake_timeout = 0, ls_router = []\<rparr>], ru_loops = [], ru_drain_delay = 0, ru_timeout = 0\<rparr>"

definition demo_listener :: "nat \<Rightarrow> accept_phase \<Rightarrow> conn list \<Rightarrow> listener_state" where
  "demo_listener free loop cs = \<lparr>lt_tls = True, lt_free = free, lt_loop = loop, lt_conns = cs\<rparr>"

definition demo_service :: "listener_state \<Rightarrow> shutdown_phase \<Rightarrow> service" where
  "demo_service l ph = \<lparr>se_listeners = [l], se_loops = 0, se_phase = ph\<rparr>"

definition demo_conn :: "conn_phase \<Rightarrow> nat \<Rightarrow> bool \<Rightarrow> conn" where
  "demo_conn ph requests session = \<lparr>cn_phase = ph, cn_requests = requests, cn_upgraded = session, cn_session = session\<rparr>"

lemma demo_listener_step:
  "listener_step False l l' \<Longrightarrow> runs_to (demo_service l Running) (demo_service l' Running)"
  using service_step.listener [of 0 "demo_service l Running" l'] by (intro r_into_rtranclp) (simp add: demo_service_def)

lemma demo_conn_step:
  assumes "conn_step False c c'" and "holds_permit c'"
  shows "runs_to (demo_service (demo_listener n ph [c]) Running) (demo_service (demo_listener n ph [c']) Running)"
  by (rule demo_listener_step)
    (use listener_step.connection [of 0 "demo_listener n ph [c]" False c'] assms in \<open>simp add: demo_listener_def\<close>)

lemma demo_session: "runs_to (start_service demo_running) (demo_service (demo_listener 0 AwaitPermit [demo_conn Ended 0 True]) Running)"
proof -
  have "start_service demo_running = demo_service (demo_listener 1 AwaitPermit []) Running"
    by (simp add: start_service_def demo_running_def new_listener_def demo_service_def demo_listener_def)
  also have "runs_to (demo_service (demo_listener 1 AwaitPermit []) Running) (demo_service (demo_listener 0 AwaitAccept []) Running)"
    by (rule demo_listener_step) (use listener_step.permit [of "demo_listener 1 AwaitPermit []" 0 False] in \<open>simp add: demo_listener_def\<close>)
  also have "runs_to (demo_service (demo_listener 0 AwaitAccept []) Running)
      (demo_service (demo_listener 0 AwaitPermit [demo_conn Handshake 0 False]) Running)"
    by (rule demo_listener_step)
      (use listener_step.accepted [of "demo_listener 0 AwaitAccept []" False] in \<open>simp add: demo_listener_def new_conn_def demo_conn_def\<close>)
  also have "runs_to (demo_service (demo_listener 0 AwaitPermit [demo_conn Handshake 0 False]) Running)
      (demo_service (demo_listener 0 AwaitPermit [demo_conn Serving 0 False]) Running)"
    by (rule demo_conn_step) (use conn_step.handshake [of "demo_conn Handshake 0 False" False] in \<open>simp_all add: demo_conn_def holds_permit_def\<close>)
  also have "runs_to (demo_service (demo_listener 0 AwaitPermit [demo_conn Serving 0 False]) Running)
      (demo_service (demo_listener 0 AwaitPermit [demo_conn Serving 1 False]) Running)"
    by (rule demo_conn_step) (use conn_step.request [of "demo_conn Serving 0 False" False] in \<open>simp_all add: demo_conn_def holds_permit_def\<close>)
  also have "runs_to (demo_service (demo_listener 0 AwaitPermit [demo_conn Serving 1 False]) Running)
      (demo_service (demo_listener 0 AwaitPermit [demo_conn Serving 0 True]) Running)"
    by (rule demo_conn_step) (use conn_step.upgraded [of "demo_conn Serving 1 False" 0 False] in \<open>simp_all add: demo_conn_def holds_permit_def\<close>)
  also have "runs_to (demo_service (demo_listener 0 AwaitPermit [demo_conn Serving 0 True]) Running)
      (demo_service (demo_listener 0 AwaitPermit [demo_conn Ended 0 True]) Running)"
    by (rule demo_conn_step) (use conn_step.peer_gone [of "demo_conn Serving 0 True" False] in \<open>simp_all add: demo_conn_def holds_permit_def\<close>)
  finally show ?thesis .
qed

lemma connections_bounded_witness:
  "runs_to (start_service demo_running) (demo_service (demo_listener 0 AwaitPermit [demo_conn Ended 0 True]) Running) \<and>
   length (filter cn_session [demo_conn Ended 0 True]) \<le> 1"
  using demo_session connections_bounded [OF demo_session, of 0]
  by (simp add: demo_running_def demo_service_def demo_listener_def Let_def)

lemma demo_stopping: "runs_to (start_service demo_running) (demo_service (demo_listener 0 AwaitPermit [demo_conn Ended 0 True]) Stopping)"
proof -
  let ?l = "demo_listener 0 AwaitPermit [demo_conn Ended 0 True]"
  have "service_step (demo_service ?l Running) (demo_service ?l Draining)"
    using service_step.signal [of "demo_service ?l Running"] by (simp add: demo_service_def)
  moreover have "service_step (demo_service ?l Draining) (demo_service ?l Stopping)"
    using service_step.drained [of "demo_service ?l Draining"] by (simp add: demo_service_def)
  ultimately show ?thesis using demo_session by (meson rtranclp.rtrancl_into_rtrancl)
qed


end
