(* ===== verification/Telemetry.thy ===== *)
theory Telemetry
  imports Routes
begin

text \<open>
  \<open>crates/webpush-server/src/telemetry.rs\<close>: the log filter, the process-wide recorder, gauges, and
  the log line and metrics of each request. The recorder's tables are the record \<open>metrics\<close>; the
  filter's syntax, the subscriber and the text format of Prometheus are parameters.
\<close>

section \<open>Names\<close>

definition CONNECTIONS :: string where
  "CONNECTIONS = ''webpush_connections''"

definition SESSIONS :: string where
  "SESSIONS = ''webpush_sessions''"

definition ACCEPTED :: string where
  "ACCEPTED = ''webpush_messages_accepted_total''"

definition DELIVERED :: string where
  "DELIVERED = ''webpush_messages_delivered_total''"

definition BRIDGE_ERRORS :: string where
  "BRIDGE_ERRORS = ''webpush_bridge_errors_total''"

definition RECEIPTS :: string where
  "RECEIPTS = ''webpush_receipts_total''"

definition REMOTE_NOTIFY :: string where
  "REMOTE_NOTIFY = ''webpush_remote_notify_total''"

definition EXPIRED :: string where
  "EXPIRED = ''webpush_user_agents_expired_total''"

definition LISTENER_DROPPED :: string where
  "LISTENER_DROPPED = ''webpush_listener_dropped_total''"

section \<open>Logs and the recorder\<close>

definition init_logging ::
  "(string \<Rightarrow> string option) \<Rightarrow> (string \<Rightarrow> box_error + 'filter) \<Rightarrow> ('filter \<Rightarrow> log_format \<Rightarrow> box_error + unit) \<Rightarrow> log_config \<Rightarrow>
   box_error + unit" where
  "init_logging env parse try_init cfg =
     (case (case env ''RUST_LOG'' of
              Some e \<Rightarrow> if e \<noteq> [] then parse e else parse (lg_level cfg)
            | None \<Rightarrow> parse (lg_level cfg)) of
        Inl e \<Rightarrow> Inl e
      | Inr f \<Rightarrow> try_init f (lg_format cfg))"

text \<open>A series: the name of a metric with its labels.\<close>

type_synonym series = "string \<times> (string \<times> string) list"

record request_log =
  ql_method :: string
  ql_route :: string
  ql_status :: nat
  ql_latency_ms :: u64

record metrics =
  me_counters :: "series \<Rightarrow> nat"
  me_gauges :: "series \<Rightarrow> int"
  me_histograms :: "series \<Rightarrow> duration list"
  me_log :: "request_log list"

text \<open>\<open>OnceLock::get_or_init\<close>: the first use installs the recorder, later ones share it.\<close>

definition prometheus :: "'handle \<Rightarrow> 'handle option \<Rightarrow> 'handle \<times> 'handle option" where
  "prometheus new cell = (case cell of Some h \<Rightarrow> (h, cell) | None \<Rightarrow> (new, Some new))"

definition gauge_series :: "string \<Rightarrow> string \<Rightarrow> series" where
  "gauge_series name label = (if label = [] then (name, []) else (name, [(''listener'', label)]))"

definition new_gauge :: "string \<Rightarrow> string \<Rightarrow> metrics \<Rightarrow> series \<times> metrics" where
  "new_gauge name label m =
     (let g = gauge_series name label in (g, m\<lparr>me_gauges := (me_gauges m)(g := me_gauges m g + 1)\<rparr>))"

definition drop_gauge :: "series \<Rightarrow> metrics \<Rightarrow> metrics" where
  "drop_gauge g m = m\<lparr>me_gauges := (me_gauges m)(g := me_gauges m g - 1)\<rparr>"

section \<open>Requests\<close>

fun method_name :: "http_method \<Rightarrow> string" where
  "method_name GET = ''GET''"
| "method_name POST = ''POST''"
| "method_name PUT = ''PUT''"
| "method_name DELETE = ''DELETE''"

text \<open>\<open>matched\<close> is the template of the route, if any; \<open>status\<close> and \<open>elapsed\<close> those of the response.\<close>

definition observe :: "http_method \<Rightarrow> string option \<Rightarrow> nat \<Rightarrow> duration \<Rightarrow> metrics \<Rightarrow> metrics" where
  "observe method matched status elapsed m =
     (let route = (case matched of Some t \<Rightarrow> t | None \<Rightarrow> ''unmatched'');
          requests = (''webpush_http_requests_total'',
            [(''method'', method_name method), (''route'', route), (''status'', show_nat status)]);
          durations = (''webpush_http_request_duration_seconds'', [(''method'', method_name method), (''route'', route)])
      in m\<lparr>me_log := me_log m @ [\<lparr>ql_method = method_name method, ql_route = route, ql_status = status,
             ql_latency_ms = to_u64 (as_millis elapsed)\<rparr>],
           me_counters := (me_counters m)(requests := me_counters m requests + 1),
           me_histograms := (me_histograms m)(durations := me_histograms m durations @ [elapsed])\<rparr>)"

text \<open>\<open>route_layer\<close>: requests with a route are observed. \<open>axum_status\<close> is the status of what axum
  answers itself.\<close>

definition matching :: "axum \<Rightarrow> 's app \<Rightarrow> http_request \<Rightarrow> route option" where
  "matching ax app q = find (\<lambda>r. ax_match ax (rt_template r) (hq_path q) \<noteq> None) (public_router app)"

definition served_status :: "(served \<Rightarrow> nat) \<Rightarrow> served \<Rightarrow> nat" where
  "served_status axum_status s = (case s of Answered r \<Rightarrow> rs_status r | _ \<Rightarrow> axum_status s)"

definition serve_observed ::
  "axum \<Rightarrow> (served \<Rightarrow> nat) \<Rightarrow> (byte list \<Rightarrow> subscribe_body option) \<Rightarrow> 's app \<Rightarrow> http_request \<Rightarrow> duration \<Rightarrow>
   's node \<times> metrics \<Rightarrow> served \<times> 's node \<times> metrics" where
  "serve_observed ax axum_status decode app q elapsed = (\<lambda>(nd, m).
     case serve_public ax decode app q nd of (s, nd) \<Rightarrow>
       (s, nd, case matching ax app q of
          None \<Rightarrow> m
        | Some r \<Rightarrow> observe (hq_method q) (Some (rt_template r)) (served_status axum_status s) elapsed m))"

section \<open>What metrics reveal\<close>

text \<open>A gauge dropped leaves the recorder as it was, and counts what is open in between.\<close>

lemma gauge_dropped: "new_gauge name label m = (g, m') \<Longrightarrow> drop_gauge g m' = m \<and> me_gauges m' g = me_gauges m g + 1"
  by (auto simp: new_gauge_def drop_gauge_def Let_def)

lemma one_recorder: "prometheus a cell = (h, cell') \<Longrightarrow> prometheus b cell' = (h, cell')"
  by (auto simp: prometheus_def split: option.splits)

text \<open>
  Metrics and logs of requests reveal no capability URL: two requests to the same route with the
  same method, answered with the same status after the same time, leave the same telemetry,
  whatever their paths, headers and bodies, and whatever the node holds.
\<close>

theorem metrics_private:
  assumes "serve_observed ax axum_status decode app q elapsed (nd, m) = (s, nd', m')"
    and "serve_observed ax axum_status decode app q2 elapsed (nd2, m) = (s2, nd2', m2')"
    and "map_option rt_template (matching ax app q) = map_option rt_template (matching ax app q2)"
    and "hq_method q = hq_method q2" and "served_status axum_status s = served_status axum_status s2"
  shows "m' = m2'"
  using assms by (cases "matching ax app q"; cases "matching ax app q2") (auto simp: serve_observed_def case_prod_beta)

lemma observe_series:
  assumes "me_counters (observe method (Some t) status elapsed m) series \<noteq> me_counters m series \<or>
    me_histograms (observe method (Some t) status elapsed m) series \<noteq> me_histograms m series"
  shows "set (snd series) \<subseteq> {(''method'', method_name method), (''route'', t), (''status'', show_nat status)}"
  using assms by (cases series) (auto simp: observe_def Let_def split: if_splits)

lemma observe_log:
  "e \<in> set (me_log (observe method (Some t) status elapsed m)) \<Longrightarrow> e \<notin> set (me_log m) \<Longrightarrow> ql_route e = t"
  by (auto simp: observe_def Let_def)


section \<open>A request\<close>

definition demo_metrics :: metrics where
  "demo_metrics = \<lparr>me_counters = \<lambda>_. 0, me_gauges = \<lambda>_. 0, me_histograms = \<lambda>_. [], me_log = []\<rparr>"

lemma demo_log: "\<exists>s nd' m'. serve_observed demo_axum (\<lambda>_. 405) (\<lambda>_. None) demo_app demo_request 0
    (demo_node new_state (\<lambda>_. Lost), demo_metrics) = (s, nd', m') \<and> length (me_log m') = 1"
  by (simp add: serve_observed_def case_prod_beta demo_axum_def demo_request_def public_router_def endpoint_router_def route_to_def
      demo_app_def demo_config_def default_config_def cors_def matching_def observe_def demo_metrics_def Let_def)


end
