(* ===== verification/Spec2Isabelle.thy ===== *)
theory Spec2Isabelle
  imports Memory_Props Store_Refinement Endpoint_Props Session_Store Receipts_Props Registration Internal
    Bigtable_Props Contract_Memory Serving Telemetry
begin

text \<open>
  A verification library for webpush-service, a Web Push service in Rust (RFC 8030, 8188, 8291,
  8292, and the Firefox push protocol over WebSocket). The theories follow the crates under
  \<open>src/crates\<close>; each opens with what it holds.

  \<^bold>\<open>The program and how its parts interact.\<close> An application server posts a message to a push resource
  (\<open>endpoint.rs\<close>): the headers are parsed (\<open>headers.rs\<close>), a restricted subscription checks the VAPID
  token (\<open>vapid.rs\<close>), the message is stored (\<open>webpush-store\<close>), and its user agent is notified through
  the hub of this node (\<open>hub.rs\<close>), of another node (\<open>notify.rs\<close>, \<open>internal.rs\<close>), or, if it is bridged,
  through FCM or APNs, whose bridges hold access tokens (\<open>webpush-gcp-auth\<close>, the provider token of
  \<open>webpush-apns\<close>). A session (\<open>session.rs\<close>) sends the backlog and what the hub offers, and an
  acknowledgement deletes the message and owes a receipt, which a stream writes (\<open>receipts.rs\<close>).
  Loops expire messages and user agents (\<open>maintenance.rs\<close>). \<open>main.rs\<close> and \<open>lib.rs\<close> put a node
  together, \<open>transport.rs\<close> accepts its connections and \<open>shutdown.rs\<close> ends it.

  \<^bold>\<open>Theories and sources.\<close>
  \<^item> \<open>Prelude\<close>, \<open>Rust_Str\<close>, \<open>Json\<close>, \<open>Base64_Url\<close>: hash maps (association lists with an iteration
    order of their own), ordered maps, fallible operations with \<open>ret\<close>, \<open>fail\<close> and \<open>and_then\<close> (Rust's
    \<open>?\<close>), strings as octets, JSON values, the documented base64 engine.
  \<^item> \<open>webpush-store\<close>: \<open>Store_Types\<close> (\<open>lib.rs\<close>: the data and the trait as the record \<open>store\<close> of
    operations on a state and the \<open>world\<close> of clock, entropy and sequence counter), \<open>Store_Spec\<close> (the
    abstract store \<open>spec\<close>, and what the trait promises as the locales \<open>route_store\<close>,
    \<open>message_store\<close>, \<open>owner_store\<close>, \<open>receipt_store\<close>, \<open>removal_store\<close>, together \<open>full_store\<close>),
    \<open>Store_Run\<close>, \<open>Store_Calls\<close>, \<open>Reliable\<close> (runs, sequences of calls, operations that return).
    \<open>Memory_Store\<close> is \<open>memory.rs\<close>, its seven maps the record \<open>state\<close>; \<open>Memory_Contract\<close> and
    \<open>Memory_Removal\<close> interpret the locales on it, \<open>Store_Refinement\<close> and \<open>Memory_Props\<close> state what
    follows. \<open>Contract\<close> is \<open>contract.rs\<close>, each check a program over any store; \<open>Contract_Logic\<close> is a
    logic for them, \<open>Contract_Props\<close> proves them for every store with the laws and
    \<open>Contract_Memory\<close> for the in-memory one.
  \<^item> \<open>bigtable.rs\<close>: \<open>Bigtable_Rows\<close> (keys, columns, decoding rows, merging chunks), \<open>Bigtable_Store\<close>
    and \<open>Bigtable_Methods\<close> (each method a program of data API calls), \<open>Bigtable_Service\<close> (what the
    API's documentation promises, as hypotheses on a service), \<open>Bigtable_Emulator\<close> (a service that
    keeps them), \<open>Bigtable_Laws\<close> to \<open>Bigtable_Calls\<close> (the rows as a view of the abstract store),
    \<open>Bigtable_Claims\<close> and \<open>Bigtable_Settled\<close> (methods of many nodes interleaved call by call),
    \<open>Bigtable_Props\<close>.
  \<^item> \<open>webpush-crypto\<close>: \<open>Ece\<close> (\<open>ece.rs\<close>) and \<open>Vapid\<close> (\<open>vapid.rs\<close>).
  \<^item> Bridges: \<open>Bridge\<close> (\<open>webpush-bridge\<close>), \<open>Fcm\<close> and \<open>Fcm_Tokens\<close> (\<open>webpush-fcm\<close>), \<open>Apns\<close>
    (\<open>webpush-apns\<close>), \<open>Gcp_Auth\<close> and \<open>Gcp_Props\<close> (\<open>webpush-gcp-auth\<close>).
  \<^item> \<open>webpush-server\<close>: \<open>Config\<close>, \<open>Headers\<close>, \<open>Hub\<close>, \<open>Subscription\<close> for the files of these names,
    \<open>App\<close> (\<open>app.rs\<close>, \<open>error.rs\<close>), \<open>Envelope\<close> and \<open>Notify\<close> (\<open>notify.rs\<close>), \<open>Endpoint\<close> and
    \<open>Endpoint_Props\<close> (\<open>endpoint.rs\<close>), \<open>Session\<close> with \<open>Session_Ack\<close>, \<open>Backlog\<close>, \<open>Session_Props\<close> and
    \<open>Session_Store\<close> (\<open>session.rs\<close>), \<open>Receipts_Stream\<close>, \<open>Owed\<close> and \<open>Receipts_Props\<close> (\<open>receipts.rs\<close>),
    \<open>Registration\<close> (\<open>registration.rs\<close>), \<open>Internal\<close> (\<open>internal.rs\<close>, \<open>maintenance.rs\<close>), \<open>Answers\<close> and
    \<open>Routes\<close> (the routers, and the types of the answers), \<open>Startup\<close> (\<open>main.rs\<close>, \<open>lib.rs\<close>),
    \<open>Serving\<close> (\<open>transport.rs\<close>, \<open>shutdown.rs\<close>), \<open>Telemetry\<close> (\<open>telemetry.rs\<close>).

  \<^bold>\<open>State and operations.\<close> The \<open>App\<close> of the code is split into the record \<open>app\<close>, which never changes, and
  the record \<open>node\<close>: the state of the store, the world, the hub, the log of forwards, the number of
  messages handed to bridges and the tasks spawned. A handler is an operation on the node that
  answers a response or an \<open>http_error\<close>; a session and a stream add what they keep of their own. An
  \<open>await\<close> is a step: between two steps of a session, a stream or a background loop the other tasks
  may do anything to the node, which is an input of its run. The hub, the schedules of the
  Bigtable tasks and the accept loops are step relations; the other components are functions.

  \<^bold>\<open>What is proved.\<close> The in-memory store refines the abstract store for any sequence of calls, keeps its
  seven maps coherent, and passes the executable contract; the Bigtable adapter answers as it does,
  fails on no call, and settles each message once under any interleaving. Over the store: which
  pushes are accepted and what they leave; that a session sends each message once, delivers the
  whole backlog to a user agent that acknowledges, and that an acknowledgement deletes and owes
  exactly what it names; that receipts are written once; who may manage a registration; where an
  event goes in a cluster; what maintenance deletes. The content coding and the Web Push
  encryption decrypt what they encrypt, records in order and of the size of the header, and reject
  what is truncated; VAPID tokens verify exactly under the rules of RFC 8292. Bridges delete a user
  agent only when its platform says so and renew tokens in time. Every public answer has the
  type its handler declares; a node that starts is what its configuration demands, holds at most
  its limit of connections, and can always finish shutting down. Telemetry names no capability URL.

  \<^bold>\<open>Parameters.\<close> What is not under \<open>src/\<close> is an argument: cryptography (\<open>ring\<close>, \<open>p256\<close>, \<open>aes-gcm\<close>),
  JSON and base64, figment, axum's matching and extractors, the Bigtable service, FCM, APNs, the
  token endpoint, the other nodes' answers, the clocks, entropy, and the iteration order of a hash
  map. Where a proof relies on their documented behaviour it is a named hypothesis
  (\<open>base64_ok\<close>, \<open>is_order\<close>, \<open>bigtable_service\<close> and the like), and a witness gives an instance.

  \<^bold>\<open>Bounds.\<close> Machine integers keep their width. Sequence numbers are microseconds and need room
  below \<open>2^64\<close> (\<open>seq_room\<close>); an expiry of a token needs \<open>2^63\<close> seconds, and past that the
  code panics, which is modelled. The contract's checks draw at most eleven identifiers, which
  \<open>checkable\<close> asks to be distinct. The loop of \<open>decrypt\<close> is a \<open>partial_function\<close> and proved to
  return; every other recursion has its termination proof, and none uses fuel.

  \<^bold>\<open>Not modelled.\<close> TLS, HTTP and WebSocket framing, sockets and signals: they choose the steps of the
  models. HTTP client constructors and the timeouts they set; the
  counters handlers bump, which none reads; the rendering of \<open>/health\<close>,
  \<open>/version\<close> and \<open>/metrics\<close>; \<open>Display\<close> texts of errors; the Windows path of gcloud's credentials; the
  tests, whose one library part, the store contract, is modelled. Whole FCM deliveries are
  taken one after the other in \<open>Fcm_Tokens\<close>; the calls of a token source, which its lock orders, are
  taken in any order in \<open>Gcp_Props\<close>.
\<close>

end
